(* ===== verification/Prelude.thy ===== *)
theory Prelude
  imports Complex_Main "HOL-Library.AList" "HOL-Library.Word" "HOL-Library.Multiset"
begin

text \<open>
  Shared vocabulary of the development: the fact collections, Go's \<open>time\<close> values,
  the byte-string functions of Go's \<open>strings\<close>, \<open>strconv\<close> and \<open>fmt\<close> packages that the
  sources use, and generic lemmas on association lists.

  Conventions.  A Go string is a HOL \<^typ>\<open>string\<close>, a list of bytes.  A \<open>time.Time\<close> is
  the number of nanoseconds since the Unix epoch; a \<open>time.Duration\<close> a number of nanoseconds.
  Go's \<open>int\<close> and \<open>int64\<close> are \<^typ>\<open>int\<close>; where the width decides the result (parsing,
  RTP arithmetic, saturating time differences) the width is written out.
\<close>

named_theorems inv_intro \<open>introduction rules for component invariants\<close>
named_theorems out_simps \<open>what an operation returns, branch by branch\<close>

section \<open>Time\<close>

type_synonym instant = int
type_synonym duration = int

definition second :: duration where "second = 1000000000"
definition millisecond :: duration where "millisecond = 1000000"
definition minute :: duration where "minute = 60 * second"
definition hour :: duration where "hour = 3600 * second"

text \<open>Go's zero \<open>time.Time\<close> is January 1 of year 1, UTC.\<close>

definition zero_time :: instant where "zero_time = - 62135596800 * second"

definition max_dur :: int where "max_dur = 9223372036854775807"
definition min_dur :: int where "min_dur = - 9223372036854775808"

text \<open>\<open>t.Sub(u)\<close> saturates at the extreme durations.\<close>

definition time_sub :: "instant \<Rightarrow> instant \<Rightarrow> duration" where
  "time_sub t u = max min_dur (min max_dur (t - u))"

text \<open>\<open>t.Unix()\<close>: whole seconds, rounded towards minus infinity.\<close>

definition unix_secs :: "instant \<Rightarrow> int" where
  "unix_secs t = t div second"

text \<open>\<open>int64(d.Seconds())\<close>: truncation towards zero.\<close>

definition trunc_secs :: "duration \<Rightarrow> int" where
  "trunc_secs d = (if d < 0 then - ((- d) div second) else d div second)"

lemma time_sub_exact:
  "min_dur \<le> t - u \<Longrightarrow> t - u \<le> max_dur \<Longrightarrow> time_sub t u = t - u"
  by (simp add: time_sub_def)

lemma time_sub_pos_iff: "0 < time_sub t u \<longleftrightarrow> u < t"
  by (auto simp: time_sub_def max_dur_def min_dur_def)

section \<open>Fallible operations on a state\<close>

text \<open>
  An operation that may return an error: \<^const>\<open>Inl\<close> is the error, \<^const>\<open>Inr\<close> the result.
  \<open>bindE\<close> is the early return \<open>if err != nil { return err }\<close>; \<open>mapErr\<close> wraps the error.
\<close>

type_synonym ('e, 'a, 's) fallible = "'s \<Rightarrow> ('e + 'a) \<times> 's"

definition bindE :: "('e, 'a, 's) fallible \<Rightarrow> ('a \<Rightarrow> ('e, 'b, 's) fallible) \<Rightarrow> ('e, 'b, 's) fallible" where
  "bindE f g s = (case f s of (Inl e, s1) \<Rightarrow> (Inl e, s1) | (Inr x, s1) \<Rightarrow> g x s1)"

definition mapErr :: "('e \<Rightarrow> 'f) \<Rightarrow> 'e + 'a \<Rightarrow> 'f + 'a" where
  "mapErr h r = (case r of Inl e \<Rightarrow> Inl (h e) | Inr x \<Rightarrow> Inr x)"

lemma mapErr_simps [simp]:
  "mapErr h (Inl e) = Inl (h e)" "mapErr h (Inr x) = Inr x"
  "mapErr h r = Inr x \<longleftrightarrow> r = Inr x" "Inr x = mapErr h r \<longleftrightarrow> r = Inr x"
  "Inl f = mapErr h r \<longleftrightarrow> (\<exists>e. r = Inl e \<and> f = h e)"
  "mapErr h r = Inl f \<longleftrightarrow> (\<exists>e. r = Inl e \<and> f = h e)"
  by (auto simp: mapErr_def split: sum.splits)

lemma bindE_Inr_iff:
  "bindE f g s = (Inr y, s') \<longleftrightarrow> (\<exists>x s1. f s = (Inr x, s1) \<and> g x s1 = (Inr y, s'))"
  by (auto simp: bindE_def split: prod.splits sum.splits)

lemma bindE_InrE [elim]:
  assumes "bindE f g s = (Inr y, s')"
  obtains x s1 where "f s = (Inr x, s1)" and "g x s1 = (Inr y, s')"
  using assms by (auto simp: bindE_Inr_iff)

lemma bindE_InlE:
  assumes "bindE f g s = (Inl e, s')"
  obtains "f s = (Inl e, s')" | x s1 where "f s = (Inr x, s1)" and "g x s1 = (Inl e, s')"
  using assms by (auto simp: bindE_def split: prod.splits sum.splits)

lemma bindE_step:
  "f s = (Inr x, s1) \<Longrightarrow> bindE f g s = g x s1"
  "f s = (Inl e, s1) \<Longrightarrow> bindE f g s = (Inl e, s1)"
  by (simp_all add: bindE_def)

text \<open>A property of the state that every operation of a chain keeps.\<close>

definition keeps :: "('s \<Rightarrow> 's \<Rightarrow> bool) \<Rightarrow> ('s \<Rightarrow> 'r \<times> 's) \<Rightarrow> bool" where
  "keeps R f \<longleftrightarrow> (\<forall>s. R s (snd (f s)))"

lemma keeps_bindE:
  assumes "\<And>a b c. R a b \<Longrightarrow> R b c \<Longrightarrow> R a c" and "keeps R f" and "\<And>x. keeps R (g x)"
  shows "keeps R (bindE f g)"
  unfolding keeps_def bindE_def
  using assms by (auto simp: keeps_def split: prod.splits sum.splits) (metis snd_conv)+

section \<open>Association lists as Go maps\<close>

lemma dom_map_of_update [simp]:
  "fst ` set (AList.update k v al) = insert k (fst ` set al)"
  by (simp add: dom_update)

lemma length_update_le: "length (AList.update k v al) \<le> Suc (length al)"
  by (induction al) auto

lemma length_update_new: "k \<notin> fst ` set al \<Longrightarrow> length (AList.update k v al) = Suc (length al)"
  by (induction al) auto

lemma set_update_subset: "set (AList.update k v al) \<subseteq> insert (k, v) (set al)"
  by (induction al) auto

lemma set_delete_subset: "set (AList.delete k al) \<subseteq> set al"
  by (auto simp: AList.delete_eq)

lemma length_delete_lt:
  "map_of al k = Some v \<Longrightarrow> length (AList.delete k al) < length al"
proof (induction al)
  case (Cons a al)
  have "length (AList.delete k al) \<le> length al" by (simp add: AList.delete_eq)
  with Cons show ?case by (auto split: if_splits)
qed simp

lemma distinct_keys_delete [simp]:
  "distinct (map fst al) \<Longrightarrow> distinct (map fst (AList.delete k al))"
  by (simp add: AList.distinct_delete)

lemma keys_delete [simp]: "fst ` set (AList.delete k al) = fst ` set al - {k}"
  by (auto simp: AList.delete_eq image_iff)

lemma delete_notin: "k \<notin> fst ` set al \<Longrightarrow> AList.delete k al = al"
  by (simp add: delete_idem)

lemma perm_delete:
  assumes "distinct (map fst al)" and "map_of al k = Some v"
  shows "length al = Suc (length (AList.delete k al))"
    and "set (map snd al) = insert v (set (map snd (AList.delete k al)))"
  using assms
proof (induction al)
  case (Cons a al)
  { case 1 then show ?case
      using Cons.IH by (cases a) (auto simp: delete_notin split: if_splits)
  next
    case 2 then show ?case
      using Cons.IH by (cases a) (auto simp: delete_notin split: if_splits) }
qed simp_all

lemma snd_update_new:
  "k \<notin> fst ` set al \<Longrightarrow> snd ` set (AList.update k v al) = insert v (snd ` set al)"
  by (induction al) auto

lemma map_upt_shift: "map f [a..<a + l] = map (\<lambda>i. f (a + i)) [0..<l]"
  by (induction l) auto

section \<open>Feeding a stream of inputs through a state machine\<close>

fun feed :: "('s \<Rightarrow> 'i \<Rightarrow> 'o list \<times> 's) \<Rightarrow> 's \<Rightarrow> 'i list \<Rightarrow> 'o list \<times> 's" where
  "feed f s [] = ([], s)"
| "feed f s (x # xs) = (let (o1, s1) = f s x; (o2, s2) = feed f s1 xs in (o1 @ o2, s2))"

lemma feed_append:
  "feed f s (xs @ ys) =
     (let (o1, s1) = feed f s xs; (o2, s2) = feed f s1 ys in (o1 @ o2, s2))"
  by (induction xs arbitrary: s) (simp_all add: split_beta Let_def)

lemma feed_invariant:
  assumes "\<And>s x o1 s1. I s \<Longrightarrow> f s x = (o1, s1) \<Longrightarrow> I s1"
    and "I s" and "feed f s xs = (os, s')"
  shows "I s'"
  using assms(2,3)
proof (induction xs arbitrary: s os)
  case (Cons x xs)
  then show ?case by (auto simp: Let_def split: prod.splits intro: assms(1))
qed simp

text \<open>
  A stage that only forwards what it was given: every item it emits or still holds came in with
  this input or was held before.
\<close>

locale forwarding_stage =
  fixes step :: "'s \<Rightarrow> 'i \<Rightarrow> 'o list \<times> 's" and inv :: "'s \<Rightarrow> bool"
    and items :: "'s \<Rightarrow> 'o set" and item :: "'i \<Rightarrow> 'o"
  assumes step_inv: "inv s \<Longrightarrow> step s x = (out, s') \<Longrightarrow> inv s'"
    and step_items: "inv s \<Longrightarrow> step s x = (out, s') \<Longrightarrow> set out \<union> items s' \<subseteq> insert (item x) (items s)"
begin

lemma feed_inv: "inv s \<Longrightarrow> feed step s xs = (os, s') \<Longrightarrow> inv s'"
  using feed_invariant [of inv step] step_inv by blast

lemma feed_items:
  assumes "inv s" and "feed step s xs = (os, s')"
  shows "set os \<union> items s' \<subseteq> items s \<union> item ` set xs"
  using assms
proof (induction xs arbitrary: s os)
  case (Cons x xs)
  obtain o1 s1 o2 where f: "step s x = (o1, s1)" "feed step s1 xs = (o2, s')" "os = o1 @ o2"
    using Cons.prems(2) by (auto simp: Let_def split: prod.splits)
  from Cons.IH [OF step_inv [OF Cons.prems(1) f(1)] f(2)] step_items [OF Cons.prems(1) f(1)] f(3)
  show ?case by auto
qed simp

end

end
