(* ===== verification/GoStd.thy ===== *)
theory GoStd
  imports Prelude "HOL-Library.Sublist" "HOL-Library.Char_ord" "HOL-Library.List_Lexorder"
begin

text \<open>
  The functions of Go's \<open>strings\<close>, \<open>strconv\<close>, \<open>fmt\<close> and \<open>path/filepath\<close> packages that the
  sources use, on byte strings.  Go compares strings bytewise, which is the lexicographic order
  of \<open>HOL-Library.List_Lexorder\<close> over \<open>HOL-Library.Char_ord\<close>.  \<open>path_join\<close> is \<open>filepath.Join\<close>
  on elements that are already clean.
\<close>

section \<open>strings\<close>

abbreviation HasPrefix :: "string \<Rightarrow> string \<Rightarrow> bool" where "HasPrefix s p \<equiv> prefix p s"
abbreviation HasSuffix :: "string \<Rightarrow> string \<Rightarrow> bool" where "HasSuffix s p \<equiv> suffix p s"
abbreviation Contains :: "string \<Rightarrow> string \<Rightarrow> bool" where "Contains s p \<equiv> sublist p s"

definition TrimPrefix :: "string \<Rightarrow> string \<Rightarrow> string" where
  "TrimPrefix s p = (if prefix p s then drop (length p) s else s)"

definition TrimSuffix :: "string \<Rightarrow> string \<Rightarrow> string" where
  "TrimSuffix s p = (if suffix p s then take (length s - length p) s else s)"

definition is_space :: "char \<Rightarrow> bool" where
  "is_space c \<longleftrightarrow> c \<in> {CHR '' '', CHR 0x09, CHR 0x0A, CHR 0x0B, CHR 0x0C, CHR 0x0D}"

definition TrimSpace :: "string \<Rightarrow> string" where
  "TrimSpace s = rev (dropWhile is_space (rev (dropWhile is_space s)))"

definition lower_char :: "char \<Rightarrow> char" where
  "lower_char c = (let n = of_char c :: nat in if 65 \<le> n \<and> n \<le> 90 then char_of (n + 32) else c)"

definition ToLower :: "string \<Rightarrow> string" where "ToLower = map lower_char"

definition EqualFold :: "string \<Rightarrow> string \<Rightarrow> bool" where
  "EqualFold s t \<longleftrightarrow> ToLower s = ToLower t"

text \<open>\<open>strings.Split(s, sep)\<close> for a one-byte separator.\<close>

fun split_on :: "char \<Rightarrow> string \<Rightarrow> string list" where
  "split_on sep [] = [[]]"
| "split_on sep (c # cs) =
     (if c = sep then [] # split_on sep cs
      else (case split_on sep cs of [] \<Rightarrow> [[c]] | p # ps \<Rightarrow> (c # p) # ps))"

fun join_with :: "string \<Rightarrow> string list \<Rightarrow> string" where
  "join_with sep [] = []"
| "join_with sep [s] = s"
| "join_with sep (s # ss) = s @ sep @ join_with sep ss"

lemma TrimPrefix_append [simp]: "TrimPrefix (p @ s) p = s"
  by (simp add: TrimPrefix_def)

lemma TrimSuffix_append [simp]: "TrimSuffix (s @ p) p = s"
  by (simp add: TrimSuffix_def suffix_def)

lemma split_on_nonempty [simp]: "split_on sep s \<noteq> []"
  by (induction s) (auto split: list.splits)

lemma split_on_free: "sep \<notin> set s \<Longrightarrow> split_on sep s = [s]"
  by (induction s) auto

lemma split_on_append: "sep \<notin> set s \<Longrightarrow> split_on sep (s @ sep # t) = s # split_on sep t"
  by (induction s) auto

section \<open>strconv and fmt\<close>

definition digit :: "nat \<Rightarrow> char" where "digit n = char_of (48 + n)"
definition is_digit :: "char \<Rightarrow> bool" where
  "is_digit c \<longleftrightarrow> 48 \<le> (of_char c :: nat) \<and> (of_char c :: nat) \<le> 57"
definition digit_val :: "char \<Rightarrow> nat" where "digit_val c = of_char c - 48"

fun itoa_nat :: "nat \<Rightarrow> string" where
  "itoa_nat n = (if n < 10 then [digit n] else itoa_nat (n div 10) @ [digit (n mod 10)])"

declare itoa_nat.simps [simp del]

definition Itoa :: "int \<Rightarrow> string" where
  "Itoa i = (if i < 0 then CHR ''-'' # itoa_nat (nat (- i)) else itoa_nat (nat i))"

text \<open>\<open>%0wd\<close> of a non-negative number.\<close>

definition pad0 :: "nat \<Rightarrow> nat \<Rightarrow> string" where
  "pad0 w n = replicate (w - length (itoa_nat n)) CHR ''0'' @ itoa_nat n"

definition digits_val :: "string \<Rightarrow> nat" where
  "digits_val s = foldl (\<lambda>a c. a * 10 + digit_val c) 0 s"

definition max_int64 :: int where "max_int64 = 9223372036854775807"

text \<open>\<open>strconv.Atoi\<close> / \<open>ParseInt(s, 10, 64)\<close>: optional sign, digits, 64-bit range.\<close>

definition Atoi :: "string \<Rightarrow> int option" where
  "Atoi s = (let (neg, ds) = (case s of [] \<Rightarrow> (False, [])
                 | c # cs \<Rightarrow> if c = CHR ''-'' then (True, cs)
                              else if c = CHR ''+'' then (False, cs) else (False, s));
                 v = int (digits_val ds)
             in if ds = [] \<or> \<not> list_all is_digit ds then None
                else if neg then (if v \<le> max_int64 + 1 then Some (- v) else None)
                else (if v \<le> max_int64 then Some v else None))"

lemma of_char_digit [simp]: "n < 10 \<Longrightarrow> of_char (digit n) = (48 + n :: nat)"
  by (simp add: digit_def)

lemma digit_facts [simp]:
  "n < 10 \<Longrightarrow> is_digit (digit n)" "n < 10 \<Longrightarrow> digit_val (digit n) = n"
  by (simp_all add: is_digit_def digit_val_def)

lemma digits_val_append [simp]: "digits_val (s @ [c]) = digits_val s * 10 + digit_val c"
  by (simp add: digits_val_def)

lemma digits_val_Nil [simp]: "digits_val [] = 0"
  by (simp add: digits_val_def)

lemma itoa_nat_nonempty [simp]: "itoa_nat n \<noteq> []"
  by (subst itoa_nat.simps) simp

lemma itoa_nat_digits [simp]: "list_all is_digit (itoa_nat n)"
  by (induction n rule: itoa_nat.induct) (subst itoa_nat.simps, simp)

lemma digits_val_single: "digits_val [c] = digit_val c"
  by (simp add: digits_val_def)

lemma digits_val_itoa [simp]: "digits_val (itoa_nat n) = n"
proof (induction n rule: itoa_nat.induct)
  case (1 n)
  then show ?case by (subst itoa_nat.simps) (simp add: digits_val_single)
qed

lemma itoa_nat_inject: "itoa_nat m = itoa_nat n \<Longrightarrow> m = n"
  by (metis digits_val_itoa)

lemma digits_val_zeros: "digits_val (replicate k CHR ''0'' @ s) = digits_val s"
  by (induction k) (auto simp: digits_val_def digit_val_def)

lemma pad0_val [simp]: "digits_val (pad0 w n) = n"
  by (simp add: pad0_def digits_val_zeros)

lemma pad0_digits [simp]: "list_all is_digit (pad0 w n)"
proof -
  have "list_all is_digit (replicate k CHR ''0'')" for k by (induction k) (auto simp: is_digit_def)
  then show ?thesis by (simp add: pad0_def)
qed

lemma pad0_nonempty [simp]: "pad0 w n \<noteq> []"
  by (simp add: pad0_def)

lemma pad0_inject: "pad0 w m = pad0 w n \<Longrightarrow> m = n"
  by (metis pad0_val)

lemma Itoa_inject: "Itoa i = Itoa j \<Longrightarrow> i = j"
proof -
  assume e: "Itoa i = Itoa j"
  have n: "hd (itoa_nat n) \<noteq> CHR ''-''" for n
    using itoa_nat_digits [of n] by (cases "itoa_nat n") (auto simp: is_digit_def)
  show "i = j"
  proof (cases "i < 0"; cases "j < 0")
    assume "i < 0" "j < 0"
    then show ?thesis using e itoa_nat_inject [of "nat (- i)" "nat (- j)"] by (simp add: Itoa_def)
  next
    assume "i < 0" "\<not> j < 0"
    then show ?thesis using e n [of "nat j"] by (metis Itoa_def list.sel(1))
  next
    assume "\<not> i < 0" "j < 0"
    then show ?thesis using e n [of "nat i"] by (metis Itoa_def list.sel(1))
  next
    assume "\<not> i < 0" "\<not> j < 0"
    then show ?thesis using e itoa_nat_inject [of "nat i" "nat j"] by (simp add: Itoa_def)
  qed
qed

lemma Atoi_digits:
  assumes "list_all is_digit s" and "s \<noteq> []"
  shows "Atoi s = (if int (digits_val s) \<le> max_int64 then Some (int (digits_val s)) else None)"
proof -
  obtain c cs where s: "s = c # cs" using assms(2) by (cases s) auto
  then have "c \<noteq> CHR ''-''" "c \<noteq> CHR ''+''" using assms(1) by (auto simp: is_digit_def)
  then show ?thesis using assms s by (simp add: Atoi_def)
qed

text \<open>\<open>%0wd\<close> of an \<open>int\<close>: the sign counts in the width.\<close>

definition pad_int :: "nat \<Rightarrow> int \<Rightarrow> string" where
  "pad_int w i = (if i < 0 then CHR ''-'' # pad0 (w - 1) (nat (- i)) else pad0 w (nat i))"

lemma pad0_chars:
  assumes "c \<in> set (pad0 w n)"
  shows "is_digit c"
  using assms pad0_digits [of w n] by (auto simp: list_all_iff)

lemma pad_int_inject: "pad_int w i = pad_int w j \<Longrightarrow> i = j"
proof -
  assume e: "pad_int w i = pad_int w j"
  have n: "pad0 v n \<noteq> CHR ''-'' # cs" for v n cs
    using pad0_chars [of "CHR ''-''" v n] by (auto simp: is_digit_def)
  have n': "CHR ''-'' # cs \<noteq> pad0 v n" for v n cs using n by metis
  show "i = j"
    using e by (auto simp: pad_int_def n n' split: if_splits dest!: pad0_inject)
qed

lemma pad_int_chars:
  assumes "c \<in> set (pad_int w i)"
  shows "is_digit c \<or> c = CHR ''-''"
  using assms by (auto simp: pad_int_def dest: pad0_chars split: if_splits)

lemma pad_int_nonempty [simp]: "pad_int w i \<noteq> []"
  by (simp add: pad_int_def)

section \<open>path/filepath\<close>

definition path_join :: "string \<Rightarrow> string \<Rightarrow> string" where
  "path_join a b = (if a = [] then b else if b = [] then a else a @ ''/'' @ b)"

text \<open>\<open>filepath.Ext\<close>: from the last dot of the last element.\<close>

definition path_ext :: "string \<Rightarrow> string" where
  "path_ext p = (let last = rev (takeWhile (\<lambda>c. c \<noteq> CHR ''/'') (rev p));
                     tl = takeWhile (\<lambda>c. c \<noteq> CHR ''.'') (rev last)
                 in if length tl = length last then [] else CHR ''.'' # rev tl)"

definition path_base :: "string \<Rightarrow> string" where
  "path_base p =
     (if p = [] then ''.''
      else let q = rev (dropWhile (\<lambda>c. c = CHR ''/'') (rev p));
               b = rev (takeWhile (\<lambda>c. c \<noteq> CHR ''/'') (rev q))
           in if b = [] then ''/'' else b)"

lemma path_base_join:
  assumes "CHR ''/'' \<notin> set f" and "f \<noteq> []" and "d \<noteq> []"
  shows "path_base (path_join d f) = f"
proof -
  have h: "hd (rev f) \<noteq> CHR ''/''" using assms(1,2) by (metis hd_in_set rev_is_Nil_conv set_rev)
  then have d1: "dropWhile (\<lambda>c. c = CHR ''/'') (rev f @ CHR ''/'' # rev d) = rev f @ CHR ''/'' # rev d"
    using assms(2) by (cases "rev f") auto
  have "takeWhile (\<lambda>c. c \<noteq> CHR ''/'') (rev f @ CHR ''/'' # rev d) = rev f"
    using assms(1) by (subst takeWhile_append2) auto
  with d1 show ?thesis using assms(2,3) by (simp add: path_base_def path_join_def Let_def)
qed

end
