(* ===== verification/Supervisor.thy ===== *)
theory Supervisor
  imports GoStd
begin

text \<open>
  \<open>internal/recorder/recorder.go\<close> (the ffmpeg command line, shutdown, hang detection) and
  \<open>supervisor.go\<close> (restart policy of \<open>RecorderSupervisor.run\<close>).  The ffmpeg process, the clock and
  the file system are inputs: what the directory listing shows at each tick, how each attempt
  ended, when \<open>Stop\<close> was called.
\<close>

section \<open>The ffmpeg command line\<close>

record HLSOptions =
  Enabled :: bool
  SegmentSeconds :: int
  AudioBitrateK :: int

definition defaultReorderQueueSize :: int where "defaultReorderQueueSize = 256"
definition defaultMaxDelayMicros :: int where "defaultMaxDelayMicros = 500000"
definition defaultHLSSegmentSeconds :: int where "defaultHLSSegmentSeconds = 4"
definition defaultHLSAudioBitrateK :: int where "defaultHLSAudioBitrateK = 128"

definition or_default :: "int \<Rightarrow> int \<Rightarrow> int" where
  "or_default v d = (if v \<le> 0 then d else v)"

definition archive_args :: "string \<Rightarrow> string \<Rightarrow> int \<Rightarrow> int \<Rightarrow> int \<Rightarrow> string list" where
  "archive_args sdpPath outDir segmentSeconds reorderQueueSize maxDelayMicros =
    [''-hide_banner'', ''-loglevel'', ''warning'',
     ''-protocol_whitelist'', ''file,udp,rtp'',
     ''-reorder_queue_size'', Itoa (or_default reorderQueueSize defaultReorderQueueSize),
     ''-max_delay'', Itoa (or_default maxDelayMicros defaultMaxDelayMicros),
     ''-i'', sdpPath,
     ''-map'', ''0:v:0'', ''-map'', ''0:a:0'',
     ''-c'', ''copy'',
     ''-f'', ''segment'',
     ''-segment_time'', Itoa segmentSeconds,
     ''-reset_timestamps'', ''1'',
     ''-segment_format'', ''mp4'',
     ''-segment_list'', path_join outDir ''segment_list.txt'',
     ''-segment_list_type'', ''flat'',
     ''-segment_format_options'', ''movflags=+frag_keyframe+empty_moov+default_base_moof'',
     path_join outDir ''%04d.mp4'']"

definition hls_args :: "string \<Rightarrow> HLSOptions \<Rightarrow> string list" where
  "hls_args hlsDir hls =
    [''-map'', ''0:v:0'', ''-map'', ''0:a:0'',
     ''-c:v'', ''copy'',
     ''-c:a'', ''aac'', ''-b:a'', Itoa (or_default (AudioBitrateK hls) defaultHLSAudioBitrateK) @ ''k'',
     ''-f'', ''hls'',
     ''-hls_time'', Itoa (or_default (SegmentSeconds hls) defaultHLSSegmentSeconds),
     ''-hls_list_size'', ''0'',
     ''-hls_playlist_type'', ''event'',
     ''-hls_segment_type'', ''fmp4'',
     ''-hls_fmp4_init_filename'', ''init.mp4'',
     ''-hls_flags'', ''independent_segments+temp_file'',
     ''-max_muxing_queue_size'', ''1024'',
     ''-hls_segment_filename'', path_join hlsDir ''%06d.m4s'',
     path_join hlsDir ''live.m3u8'']"

record recorder =
  outDir :: string
  segmentListPath :: string
  hlsDir :: string
  cmdArgs :: "string list"
  cmdDir :: string
  stopRequested :: bool
  forceKilled :: bool

text \<open>The system calls of \<open>StartRecorder\<close>, in order: each may fail.\<close>

record recorderEnv =
  mkOutDir :: bool
  mkHlsDir :: bool
  stdinPipe :: bool
  procStart :: bool

datatype recorderError = MkOutDir | MkHlsDir | StdinPipe | ProcStart

definition StartRecorder :: "recorderEnv \<Rightarrow> string \<Rightarrow> string \<Rightarrow> int \<Rightarrow> int \<Rightarrow> int \<Rightarrow> HLSOptions \<Rightarrow> recorderError + recorder" where
  "StartRecorder env sdpPath out segmentSeconds reorderQueueSize maxDelayMicros hls =
     (if \<not> mkOutDir env then Inl MkOutDir
      else let hdir = (if Enabled hls then path_join out ''hls'' else []) in
      if Enabled hls \<and> \<not> mkHlsDir env then Inl MkHlsDir
      else if \<not> stdinPipe env then Inl StdinPipe
      else if \<not> procStart env then Inl ProcStart
      else Inr \<lparr>outDir = out, segmentListPath = path_join out ''segment_list.txt'', hlsDir = hdir,
             cmdArgs = archive_args sdpPath out segmentSeconds reorderQueueSize maxDelayMicros
                @ (if Enabled hls then hls_args hdir hls else []),
             cmdDir = hdir, stopRequested = False, forceKilled = False\<rparr>)"

section \<open>Shutdown\<close>

text \<open>
  \<open>exitAfter\<close>: how long the process takes to exit once asked (\<^const>\<open>None\<close>: it ignores the request);
  \<open>alreadyDone\<close>: it had exited before.
\<close>

definition shutdown :: "bool \<Rightarrow> duration option \<Rightarrow> duration \<Rightarrow> recorder \<Rightarrow> recorder" where
  "shutdown alreadyDone exitAfter timeout r =
     (if alreadyDone then r
      else (case exitAfter of
              Some d \<Rightarrow> if d < timeout then r else r\<lparr>forceKilled := True\<rparr>
            | None \<Rightarrow> r\<lparr>forceKilled := True\<rparr>))"

definition StopRecorder :: "bool \<Rightarrow> duration option \<Rightarrow> duration \<Rightarrow> recorder \<Rightarrow> recorder" where
  "StopRecorder alreadyDone exitAfter timeout r =
     shutdown alreadyDone exitAfter timeout (r\<lparr>stopRequested := True\<rparr>)"

section \<open>Hang detection\<close>

definition defaultHangTimeout :: duration where "defaultHangTimeout = 90 * second"
definition hangCheckInterval :: duration where "hangCheckInterval = 10 * second"

text \<open>A directory listing: names with sizes (\<^const>\<open>None\<close>: open or stat failed).\<close>

definition newestFileSize :: "(string \<times> int option) list option \<Rightarrow> (string \<times> int) option" where
  "newestFileSize dir = (case dir of None \<Rightarrow> None
     | Some entries \<Rightarrow>
        (let newest = foldl (\<lambda>nw e. if path_ext (fst e) = ''.mp4'' \<and> nw < fst e then fst e else nw) [] entries
         in if newest = [] then None
            else (case map_of entries newest of
                    Some (Some sz) \<Rightarrow> Some (newest, sz)
                  | _ \<Rightarrow> None)))"

record hangState =
  startedAt :: instant
  lastName :: string
  lastSize :: int
  lastChange :: instant

definition hang_init :: "instant \<Rightarrow> hangState" where
  "hang_init t = \<lparr>startedAt = t, lastName = [], lastSize = -1, lastChange = t\<rparr>"

datatype tickResult = Continue | HangDetected

definition hang_tick :: "instant \<Rightarrow> (string \<times> int) option \<Rightarrow> hangState \<Rightarrow> tickResult \<times> hangState" where
  "hang_tick now obs h = (case obs of
       None \<Rightarrow> (if defaultHangTimeout \<le> time_sub now (startedAt h) then HangDetected else Continue, h)
     | Some (name, sz) \<Rightarrow>
        (if name \<noteq> lastName h \<or> sz \<noteq> lastSize h
         then (Continue, h\<lparr>lastName := name, lastSize := sz, lastChange := now\<rparr>)
         else (if defaultHangTimeout \<le> time_sub now (lastChange h) then HangDetected else Continue, h)))"

text \<open>The loop over the ticks until a hang is declared (the instant of it is the result).\<close>

fun watchForHang :: "hangState \<Rightarrow> (instant \<times> (string \<times> int) option) list \<Rightarrow> instant option" where
  "watchForHang h [] = None"
| "watchForHang h ((now, obs) # ticks) =
     (case hang_tick now obs h of
        (HangDetected, _) \<Rightarrow> Some now
      | (Continue, h') \<Rightarrow> watchForHang h' ticks)"

lemma hang_tick_cases:
  "hang_tick now obs h = (r, h') \<Longrightarrow>
     (\<exists>x. obs = Some x \<and> x \<noteq> (lastName h, lastSize h) \<and> r = Continue
        \<and> h' = h\<lparr>lastName := fst x, lastSize := snd x, lastChange := now\<rparr>)
     \<or> (obs = Some (lastName h, lastSize h) \<and> h' = h
        \<and> (r = HangDetected \<longleftrightarrow> defaultHangTimeout \<le> now - lastChange h))
     \<or> (obs = None \<and> h' = h \<and> (r = HangDetected \<longleftrightarrow> defaultHangTimeout \<le> now - startedAt h))"
  by (auto simp: hang_tick_def time_sub_def max_dur_def min_dur_def defaultHangTimeout_def second_def
      split: option.splits if_splits)

lemma hang_sound_aux:
  assumes "watchForHang h ticks = Some now" and "sorted (map fst (pre @ ticks))"
    and "\<forall>t \<in> set pre. lastChange h < fst t \<longrightarrow> snd t = None \<or> snd t = Some (lastName h, lastSize h)"
  shows "\<exists>a obs b. ticks = a @ (now, obs) # b
     \<and> (obs = None \<longrightarrow> defaultHangTimeout \<le> now - startedAt h)
     \<and> (\<forall>x. obs = Some x \<longrightarrow> (\<forall>t \<in> set (pre @ a). now - defaultHangTimeout < fst t \<longrightarrow> snd t = None \<or> snd t = Some x))"
  using assms
proof (induction h ticks arbitrary: pre rule: watchForHang.induct)
  case (2 h u obs ticks)
  obtain r h' where t: "hang_tick u obs h = (r, h')" by fastforce
  show ?case
  proof (cases r)
    case HangDetected
    then have "now = u" using "2.prems"(1) t by simp
    then show ?thesis
      using hang_tick_cases [OF t] HangDetected "2.prems"(3)
      by (intro exI [of _ "[]"] exI [of _ obs] exI [of _ ticks]) auto
  next
    case Continue
    have "watchForHang h' ticks = Some now" using "2.prems"(1) t Continue by simp
    moreover have "\<forall>q \<in> set (pre @ [(u, obs)]). lastChange h' < fst q \<longrightarrow>
        snd q = None \<or> snd q = Some (lastName h', lastSize h')"
      using hang_tick_cases [OF t] "2.prems"(2,3) by (auto simp: sorted_append)
    ultimately obtain a o2 b where i: "ticks = a @ (now, o2) # b"
        "o2 = None \<longrightarrow> defaultHangTimeout \<le> now - startedAt h'"
        "\<forall>x. o2 = Some x \<longrightarrow> (\<forall>q \<in> set ((pre @ [(u, obs)]) @ a). now - defaultHangTimeout < fst q
            \<longrightarrow> snd q = None \<or> snd q = Some x)"
      using "2.IH" [OF t [symmetric] Continue, of "pre @ [(u, obs)]"] "2.prems"(2) by auto
    have "startedAt h' = startedAt h" using hang_tick_cases [OF t] by auto
    with i show ?thesis by (intro exI [of _ "(u, obs) # a"] exI [of _ o2] exI [of _ b]) auto
  qed
qed simp

lemma hang_complete_aux:
  assumes "\<forall>t \<in> set ticks. snd t = Some (lastName h, lastSize h)" and "ticks \<noteq> []"
    and "defaultHangTimeout \<le> fst (last ticks) - lastChange h"
  shows "watchForHang h ticks \<noteq> None"
  using assms
proof (induction h ticks rule: watchForHang.induct)
  case (2 h u obs ticks)
  obtain r h' where t: "hang_tick u obs h = (r, h')" by fastforce
  show ?case
  proof (cases r)
    case Continue
    then have h': "h' = h" "\<not> defaultHangTimeout \<le> u - lastChange h"
      using hang_tick_cases [OF t] "2.prems"(1) by auto
    then have "ticks \<noteq> []" using "2.prems"(3) by auto
    then show ?thesis using "2.IH" [OF t [symmetric] Continue] "2.prems" h' t Continue by simp
  qed (use t in simp)
qed simp

text \<open>
  The hang watchdog is sound and complete for observed output: over ticks in time order it
  declares a hang at \<open>now\<close> only if no output file was readable and 90 s have passed since the start,
  or if the newest file showed the same name and size at every reading of the last 90 s; and once
  the same name and size have been read for 90 s it does declare one.
\<close>

theorem hang_watchdog:
  assumes "sorted (map fst ticks)"
  shows "(watchForHang (hang_init t0) ticks = Some now \<longrightarrow>
      (\<exists>a obs b. ticks = a @ (now, obs) # b
         \<and> (obs = None \<longrightarrow> defaultHangTimeout \<le> now - t0)
         \<and> (\<forall>x. obs = Some x \<longrightarrow> (\<forall>t \<in> set a. now - defaultHangTimeout < fst t \<longrightarrow> snd t = None \<or> snd t = Some x))))
    \<and> (\<forall>u x rest. ticks = (u, Some x) # rest \<and> rest \<noteq> [] \<and> (\<forall>t \<in> set rest. snd t = Some x)
         \<and> x \<noteq> ([], -1) \<and> defaultHangTimeout \<le> fst (last rest) - u \<longrightarrow>
         watchForHang (hang_init t0) ticks \<noteq> None)"
proof (intro conjI impI allI)
  assume "watchForHang (hang_init t0) ticks = Some now"
  from hang_sound_aux [OF this, of "[]"] assms
  show "\<exists>a obs b. ticks = a @ (now, obs) # b
      \<and> (obs = None \<longrightarrow> defaultHangTimeout \<le> now - t0)
      \<and> (\<forall>x. obs = Some x \<longrightarrow> (\<forall>t \<in> set a. now - defaultHangTimeout < fst t \<longrightarrow> snd t = None \<or> snd t = Some x))"
    by (simp add: hang_init_def)
next
  fix u x rest
  assume a: "ticks = (u, Some x) # rest \<and> rest \<noteq> [] \<and> (\<forall>t \<in> set rest. snd t = Some x)
      \<and> x \<noteq> ([], -1) \<and> defaultHangTimeout \<le> fst (last rest) - u"
  let ?h = "hang_init t0\<lparr>lastName := fst x, lastSize := snd x, lastChange := u\<rparr>"
  have "hang_tick u (Some x) (hang_init t0) = (Continue, ?h)"
    using a by (cases x) (auto simp: hang_tick_def hang_init_def)
  moreover have "watchForHang ?h rest \<noteq> None"
    using a by (intro hang_complete_aux) (auto simp: hang_init_def)
  ultimately show "watchForHang (hang_init t0) ticks \<noteq> None" using a by simp
qed

lemma hang_watchdog_witness:
  "watchForHang (hang_init 0) [(10 * second, Some (''0000.mp4'', 5)), (60 * second, Some (''0000.mp4'', 5)),
     (110 * second, Some (''0000.mp4'', 5))] \<noteq> None"
  using hang_watchdog [of "[(10 * second, Some (''0000.mp4'', 5)), (60 * second, Some (''0000.mp4'', 5)),
     (110 * second, Some (''0000.mp4'', 5))]" 0 0]
  by (simp add: second_def defaultHangTimeout_def)

text \<open>
  One unreadable listing kills a healthy recorder: from 90 s after the start on, a single tick at
  which \<open>newestFileSize\<close> fails is taken for "no output within startup timeout", whatever output was
  growing before.
\<close>

theorem hang_transient_failure:
  assumes "watchForHang (hang_init t0) ticks = None" and "defaultHangTimeout \<le> now - t0"
  shows "watchForHang (hang_init t0) (ticks @ [(now, newestFileSize None)]) = Some now"
proof -
  have "watchForHang h ticks = None \<Longrightarrow> startedAt h = t0 \<Longrightarrow>
      watchForHang h (ticks @ [(now, None)]) = Some now" for h
  proof (induction h ticks rule: watchForHang.induct)
    case (1 h)
    then show ?case using assms(2)
      by (simp add: hang_tick_def time_sub_def max_dur_def min_dur_def defaultHangTimeout_def second_def)
  next
    case (2 h u obs ticks)
    obtain r h' where t: "hang_tick u obs h = (r, h')" by fastforce
    have "startedAt h' = startedAt h" using hang_tick_cases [OF t] by auto
    with 2 t show ?case by (cases r) auto
  qed
  with assms(1) show ?thesis by (simp add: hang_init_def newestFileSize_def)
qed

lemma hang_transient_failure_witness:
  "watchForHang (hang_init 0) ([(80 * second, Some (''0000.mp4'', 5))] @ [(90 * second, newestFileSize None)])
     = Some (90 * second)"
  by (rule hang_transient_failure)
     (simp_all add: hang_tick_def hang_init_def defaultHangTimeout_def second_def)

section \<open>Restart policy\<close>

definition maxTotalRestartMultiplier :: int where "maxTotalRestartMultiplier = 5"
definition maxRestartBackoff :: duration where "maxRestartBackoff = 30 * second"
definition defaultAttemptStopTimeout :: duration where "defaultAttemptStopTimeout = 5 * second"

text \<open>How one attempt went, as \<open>run\<close> observes it.\<close>

record attemptEnd =
  producedAny :: bool
  wasStopped :: bool
  stopClosed :: bool
  stopInBackoff :: bool
  restartFails :: bool

datatype verdict = Running | Stopped | GaveUp

record runState =
  failStreak :: int
  totalRestarts :: int
  attempt :: int
  backoffs :: "duration list"

definition supervise_step :: "int \<Rightarrow> attemptEnd \<Rightarrow> runState \<Rightarrow> verdict \<times> runState" where
  "supervise_step maxAttempts e s =
     (if wasStopped e \<or> stopClosed e then (Stopped, s)
      else let s1 = s\<lparr>failStreak := (if producedAny e then 0 else failStreak s + 1),
                      totalRestarts := totalRestarts s + 1\<rparr>
        in if maxAttempts \<le> failStreak s1 then (GaveUp, s1)
           else if maxAttempts * maxTotalRestartMultiplier \<le> totalRestarts s1 then (GaveUp, s1)
           else let backoff = min ((failStreak s1 + 1) * 2 * second) maxRestartBackoff;
                    s2 = s1\<lparr>backoffs := backoffs s1 @ [backoff]\<rparr>
             in if stopInBackoff e then (Stopped, s2)
                else if restartFails e then (GaveUp, s2\<lparr>attempt := attempt s2 + 1\<rparr>)
                else (Running, s2\<lparr>attempt := attempt s2 + 1\<rparr>))"

fun run :: "int \<Rightarrow> attemptEnd list \<Rightarrow> runState \<Rightarrow> verdict \<times> runState" where
  "run maxAttempts [] s = (Running, s)"
| "run maxAttempts (e # es) s =
     (case supervise_step maxAttempts e s of
        (Running, s') \<Rightarrow> run maxAttempts es s'
      | (v, s') \<Rightarrow> (v, s'))"

definition run_init :: runState where
  "run_init = \<lparr>failStreak = 0, totalRestarts = 0, attempt = 1, backoffs = []\<rparr>"

definition StartRecorderSupervisor :: "int \<Rightarrow> duration \<Rightarrow> int \<times> duration" where
  "StartRecorderSupervisor maxAttempts stopTimeout =
     (if maxAttempts < 1 then 1 else maxAttempts,
      if stopTimeout \<le> 0 then defaultAttemptStopTimeout else stopTimeout)"

definition run_inv :: "int \<Rightarrow> runState \<Rightarrow> bool" where
  "run_inv m s \<longleftrightarrow> 0 \<le> failStreak s \<and> failStreak s < m \<and> 0 \<le> totalRestarts s
     \<and> totalRestarts s < m * maxTotalRestartMultiplier \<and> attempt s = totalRestarts s + 1
     \<and> (\<forall>b \<in> set (backoffs s). 2 * second \<le> b \<and> b \<le> maxRestartBackoff)"

lemma supervise_step_running:
  assumes "supervise_step m e s = (Running, s')" and "run_inv m s"
  shows "run_inv m s' \<and> totalRestarts s' = totalRestarts s + 1"
  using assms by (auto simp: supervise_step_def run_inv_def Let_def second_def maxRestartBackoff_def split: if_splits)

lemma supervise_step_bounds:
  assumes "supervise_step m e s = (v, s')" and "run_inv m s"
  shows "attempt s' \<le> m * maxTotalRestartMultiplier
    \<and> (\<forall>b \<in> set (backoffs s'). 2 * second \<le> b \<and> b \<le> maxRestartBackoff)"
  using assms by (auto simp: supervise_step_def run_inv_def Let_def second_def maxRestartBackoff_def split: if_splits)

lemma run_bounds:
  assumes "run m es s = (v, s')" and "run_inv m s"
  shows "attempt s' \<le> m * maxTotalRestartMultiplier
    \<and> (\<forall>b \<in> set (backoffs s'). 2 * second \<le> b \<and> b \<le> maxRestartBackoff)"
  using assms
proof (induction m es s rule: run.induct)
  case (1 m s)
  then show ?case by (auto simp: run_inv_def)
next
  case (2 m e es s)
  obtain w s1 where st: "supervise_step m e s = (w, s1)" by fastforce
  show ?case
  proof (cases w)
    case Running
    then show ?thesis using 2 st supervise_step_running by force
  qed (use 2 st supervise_step_bounds in auto)
qed

lemma run_terminates:
  assumes "run_inv m s" and "m * maxTotalRestartMultiplier \<le> totalRestarts s + int (length es)"
  shows "fst (run m es s) \<noteq> Running"
  using assms
proof (induction m es s rule: run.induct)
  case (1 m s)
  then show ?case by (auto simp: run_inv_def)
next
  case (2 m e es s)
  obtain w s1 where st: "supervise_step m e s = (w, s1)" by fastforce
  show ?case
  proof (cases w)
    case Running
    with supervise_step_running [OF _ "2.prems"(1)] st
    have "run_inv m s1" "totalRestarts s1 = totalRestarts s + 1" by auto
    with 2 st Running show ?thesis by auto
  qed (use st in auto)
qed

text \<open>
  Restarts are bounded: whatever happens to the attempts, \<open>run\<close> starts at most
  \<open>5 * maxAttempts\<close> of them, has returned once that many have ended (no endless respawning), and
  every pause between two attempts lasts between 2 and 30 seconds.
\<close>

theorem supervisor_bounded:
  assumes "m = fst (StartRecorderSupervisor cfg stopTimeout)"
  shows "attempt (snd (run m es run_init)) \<le> 5 * m
    \<and> (5 * m \<le> int (length es) \<longrightarrow> fst (run m es run_init) \<noteq> Running)
    \<and> (\<forall>b \<in> set (backoffs (snd (run m es run_init))). 2 * second \<le> b \<and> b \<le> 30 * second)"
proof -
  have i: "run_inv m run_init"
    using assms by (auto simp: run_inv_def run_init_def StartRecorderSupervisor_def maxTotalRestartMultiplier_def)
  have t: "5 * m \<le> int (length es) \<longrightarrow> fst (run m es run_init) \<noteq> Running"
    using run_terminates [OF i, of es] by (simp add: run_init_def maxTotalRestartMultiplier_def)
  obtain v s' where r: "run m es run_init = (v, s')" by fastforce
  from run_bounds [OF r i] r t show ?thesis
    by (simp add: maxTotalRestartMultiplier_def maxRestartBackoff_def)
qed

lemma supervisor_bounded_witness:
  "attempt (snd (run 3 [] run_init)) \<le> 15"
  using supervisor_bounded [of 3 3 0 "[]"] by (simp add: StartRecorderSupervisor_def)

text \<open>Consecutive unproductive, unstopped attempts.\<close>

definition unproductive :: "attemptEnd \<Rightarrow> bool" where
  "unproductive e \<longleftrightarrow> \<not> producedAny e \<and> \<not> wasStopped e \<and> \<not> stopClosed e \<and> \<not> stopInBackoff e \<and> \<not> restartFails e"

lemma run_gives_up_aux:
  assumes "\<forall>e \<in> set es. unproductive e" and "run_inv m s" and "m - failStreak s \<le> int (length es)"
  shows "fst (run m es s) = GaveUp"
  using assms
proof (induction m es s rule: run.induct)
  case (1 m s)
  then show ?case by (auto simp: run_inv_def)
next
  case (2 m e es s)
  obtain w s1 where st: "supervise_step m e s = (w, s1)" by fastforce
  have f: "failStreak s1 = failStreak s + 1" "w \<noteq> Stopped"
    using st "2.prems"(1) by (auto simp: supervise_step_def Let_def unproductive_def split: if_splits)
  show ?case
  proof (cases w)
    case Running
    with supervise_step_running [OF _ "2.prems"(2)] st have "run_inv m s1" by auto
    with 2 st Running f show ?thesis by auto
  qed (use st f in auto)
qed

text \<open>
  The supervisor gives up after \<open>maxAttempts\<close> attempts in a row that produced nothing, and a stop
  request is never reported as having given up: if some attempt is found stopped before any reason
  to give up arose, \<open>run\<close> ends as stopped.
\<close>

theorem supervisor_gives_up:
  assumes "1 \<le> m"
  shows "((\<forall>e \<in> set es. unproductive e) \<and> m \<le> int (length es) \<longrightarrow> fst (run m es run_init) = GaveUp)
    \<and> (run m es run_init = (Running, s) \<and> (wasStopped e \<or> stopClosed e) \<longrightarrow>
         fst (run m (es @ e # rest) run_init) = Stopped)"
proof -
  have i: "run_inv m run_init"
    using assms by (auto simp: run_inv_def run_init_def maxTotalRestartMultiplier_def)
  have u: "(\<forall>e \<in> set es. unproductive e) \<and> m \<le> int (length es) \<longrightarrow> fst (run m es run_init) = GaveUp"
    using run_gives_up_aux [OF _ i] by (simp add: run_init_def)
  have "run m es s0 = (Running, s) \<Longrightarrow> run m (es @ e # rest) s0 = run m (e # rest) s" for s0
    by (induction m es s0 rule: run.induct) (auto split: prod.splits verdict.splits)
  then have "run m es run_init = (Running, s) \<and> (wasStopped e \<or> stopClosed e) \<longrightarrow>
         fst (run m (es @ e # rest) run_init) = Stopped"
    by (simp add: supervise_step_def)
  with u show ?thesis by blast
qed

lemma supervisor_gives_up_witness:
  "fst (run 1 [\<lparr>producedAny = False, wasStopped = False, stopClosed = False, stopInBackoff = False,
     restartFails = False\<rparr>] run_init) = GaveUp"
  using supervisor_gives_up [of 1 "[\<lparr>producedAny = False, wasStopped = False, stopClosed = False,
     stopInBackoff = False, restartFails = False\<rparr>]"] by (simp add: unproductive_def)

end
