(* ===== verification/Threads.thy ===== *)
theory Threads
  imports Prelude
begin

text \<open>
  Interleavings of goroutines over shared state.  A goroutine is its program counter; \<open>act s t\<close> lists what its next atomic
  action can lead to: the new shared state and the goroutines it goes on as (none when it ends, several when it
  starts others).  An action with no outcome waits.  Goroutines the environment starts, callbacks and timers among them,
  arrive at any time.
\<close>

section \<open>Reachable configurations\<close>

type_synonym ('s, 't) action = "'s \<Rightarrow> 't \<Rightarrow> ('s \<times> 't list) list"

inductive reach :: "('s, 't) action \<Rightarrow> ('t \<Rightarrow> bool) \<Rightarrow> 's \<times> 't multiset \<Rightarrow> 's \<times> 't multiset \<Rightarrow> bool"
  for act arrives c where
  start: "reach act arrives c c"
| step: "reach act arrives c (s, add_mset t ts) \<Longrightarrow> (s', new) \<in> set (act s t) \<Longrightarrow> reach act arrives c (s', mset new + ts)"
| arrive: "reach act arrives c (s, ts) \<Longrightarrow> arrives t \<Longrightarrow> reach act arrives c (s, add_mset t ts)"

text \<open>An invariant of shared state and goroutines together.\<close>

locale interleaving =
  fixes act :: "('s, 't) action" and arrives :: "'t \<Rightarrow> bool" and ok :: "'s \<Rightarrow> 't multiset \<Rightarrow> bool"
  assumes ok_step: "ok s (add_mset t ts) \<Longrightarrow> (s', new) \<in> set (act s t) \<Longrightarrow> ok s' (mset new + ts)"
    and ok_arrive: "ok s ts \<Longrightarrow> arrives t \<Longrightarrow> ok s (add_mset t ts)"
begin

lemma ok_reach: "reach act arrives c d \<Longrightarrow> ok (fst c) (snd c) \<Longrightarrow> ok (fst d) (snd d)"
  by (induction rule: reach.induct) (auto intro: ok_step ok_arrive)

lemma ok_reachable: "reach act arrives (s, ts) (s', ts') \<Longrightarrow> ok s ts \<Longrightarrow> ok s' ts'"
  using ok_reach [of "(s, ts)" "(s', ts')"] by simp

end

section \<open>Schedules\<close>

text \<open>A schedule names, move by move, which goroutine acts and with which outcome.\<close>

datatype 't move = Arrive 't | Act nat nat

fun play :: "('s, 't) action \<Rightarrow> ('t \<Rightarrow> bool) \<Rightarrow> 's \<times> 't list \<Rightarrow> 't move list \<Rightarrow> ('s \<times> 't list) option" where
  "play act arrives (s, ts) [] = Some (s, ts)"
| "play act arrives (s, ts) (Arrive t # ms) = (if arrives t then play act arrives (s, ts @ [t]) ms else None)"
| "play act arrives (s, ts) (Act i k # ms) =
     (if i < length ts \<and> k < length (act s (ts ! i))
      then (case act s (ts ! i) ! k of (s', new) \<Rightarrow> play act arrives (s', take i ts @ new @ drop (Suc i) ts) ms) else None)"

lemma play_reach:
  assumes "play act arrives (s, ts) ms = Some (s', ts')" and "reach act arrives c (s, mset ts)"
  shows "reach act arrives c (s', mset ts')"
  using assms
proof (induction act arrives "(s, ts)" ms arbitrary: s ts rule: play.induct)
  case (2 act arrives s ts t ms)
  then show ?case by (auto intro: reach.arrive split: if_splits)
next
  case (3 act arrives s ts i k ms)
  then have i: "i < length ts" and k: "k < length (act s (ts ! i))" by (auto split: if_splits)
  obtain u new where a: "act s (ts ! i) ! k = (u, new)" by fastforce
  have p: "play act arrives (u, take i ts @ new @ drop (Suc i) ts) ms = Some (s', ts')" using "3.prems"(1) i k a by simp
  have "mset ts = add_mset (ts ! i) (mset (take i ts) + mset (drop (Suc i) ts))"
    using i by (metis add_mset_add_single id_take_nth_drop mset.simps(2) mset_append union_mset_add_mset_right)
  moreover have "(u, new) \<in> set (act s (ts ! i))" using a k by (metis nth_mem)
  ultimately have "reach act arrives c (u, mset new + (mset (take i ts) + mset (drop (Suc i) ts)))"
    using "3.prems"(2) by (metis reach.step)
  then have "reach act arrives c (u, mset (take i ts @ new @ drop (Suc i) ts))" by (simp add: ac_simps)
  from "3.hyps" [OF _ _ p this] i k a show ?case by simp
qed simp

text \<open>Counting what the goroutines hold.\<close>

abbreviation tally :: "('t \<Rightarrow> nat) \<Rightarrow> 't multiset \<Rightarrow> nat" where
  "tally f ts \<equiv> sum_mset (image_mset f ts)"

lemma Suc_of_bool [simp]: "Suc n = of_bool b \<longleftrightarrow> b \<and> n = 0"
  by (cases b) auto

lemma tally_zero: "tally f ts = 0 \<longleftrightarrow> (\<forall>t \<in># ts. f t = 0)"
  by (induction ts) auto

lemma tally_le: "(\<And>t. t \<in># ts \<Longrightarrow> f t \<le> g t) \<Longrightarrow> tally f ts \<le> tally g ts"
  by (induction ts) (auto intro: add_mono)

end
