(* ===== verification/SupervisorRun.thy ===== *)
theory SupervisorRun
  imports Supervisor Threads
begin

text \<open>
  \<open>RecorderSupervisor\<close> of \<open>internal/recorder/supervisor.go\<close> as goroutines: the loop of \<open>run\<close>, callers of \<open>StopProcess\<close> and
  \<open>Stop\<close>, the shutdown of a recorder (\<open>Recorder.Stop\<close> and \<open>shutdown\<close> of \<open>recorder.go\<close>) by whoever asks for it, and the
  ffmpeg processes themselves.  The restart policy is the one of \<open>Supervisor\<close>; this theory shows that the loop follows it
  under every interleaving, and what a stop request still lets through.
\<close>

section \<open>Shared state\<close>

text \<open>One attempt: is its process alive, and the two flags of \<open>Recorder\<close>.\<close>

record attemptState =
  at_alive :: bool
  at_stopRequested :: bool
  at_forceKilled :: bool

definition fresh_attempt :: attemptState where
  "fresh_attempt = \<lparr>at_alive = True, at_stopRequested = False, at_forceKilled = False\<rparr>"

text \<open>
  \<open>sv_recs\<close>: the recorders started so far, in order; \<open>sv_cur\<close>: the index \<open>s.cur\<close> points to.  \<open>sv_once\<close> and \<open>sv_onceDone\<close>
  are the \<open>sync.Once\<close> of \<open>StopProcess\<close>: taken, finished.  Two histories: \<open>sv_log\<close>, what the loop observed of each attempt it
  is through with, and \<open>sv_late\<close>, how many recorders it started with \<open>stopCh\<close> already closed.
\<close>

record supervisorState =
  sv_recs :: "attemptState list"
  sv_cur :: nat
  sv_stopClosed :: bool
  sv_once :: bool
  sv_onceDone :: bool
  sv_gaveUp :: bool
  sv_hlsClosed :: bool
  sv_segClosed :: bool
  sv_doneClosed :: bool
  sv_processStopped :: bool
  sv_stopReturned :: bool
  sv_log :: "attemptEnd list"
  sv_late :: nat

definition supervisor_start :: supervisorState where
  "supervisor_start = \<lparr>sv_recs = [fresh_attempt], sv_cur = 0, sv_stopClosed = False, sv_once = False, sv_onceDone = False,
     sv_gaveUp = False, sv_hlsClosed = False, sv_segClosed = False, sv_doneClosed = False, sv_processStopped = False,
     sv_stopReturned = False, sv_log = [], sv_late = 0\<rparr>"

definition alive :: "supervisorState \<Rightarrow> nat \<Rightarrow> bool" where
  "alive s n \<longleftrightarrow> n < length (sv_recs s) \<and> at_alive (sv_recs s ! n)"

definition set_rec :: "nat \<Rightarrow> (attemptState \<Rightarrow> attemptState) \<Rightarrow> supervisorState \<Rightarrow> supervisorState" where
  "set_rec n f s = s\<lparr>sv_recs := (sv_recs s)[n := f (sv_recs s ! n)]\<rparr>"

definition LastAttemptForceKilled :: "supervisorState \<Rightarrow> bool" where
  "LastAttemptForceKilled s \<longleftrightarrow> at_forceKilled (sv_recs s ! sv_cur s)"

section \<open>Goroutines\<close>

text \<open>
  The loop with its locals: the recorder's index (the attempt less one), \<open>failStreak\<close>, \<open>totalRestarts\<close>.  \<open>Attempt\<close> is the
  wait for both forwarders, \<open>Ended\<close>, \<open>Recheck\<close> and \<open>Policy\<close> what follows it with \<open>producedAny\<close>, \<open>Pause\<close> the backoff.
\<close>

datatype loopPc = SetCur | StopSeen | Attempt | Ended bool | Recheck bool | Policy bool | Pause bool | Spawn bool | Prime
  | CloseHls | CloseSeg | CloseDone

datatype loop = Loop loopPc nat int int

text \<open>Who waits for a shutdown: the loop (\<open>rec.Stop\<close> at the top of the loop), a caller of \<open>StopProcess\<close>, the hang watchdog.\<close>

datatype waiter = ByLoop int int | ByStopProcess bool | ByHang

datatype routine = Run loop
  | StopCall bool | StopRead bool | StopJoin bool | StopReturn bool | AwaitDone
  | StopFlag nat waiter | ShutCheck nat waiter | ShutWait nat waiter | ShutMark nat waiter | ShutDone nat waiter
  | Exit nat | Hang nat

definition goon :: "nat \<Rightarrow> waiter \<Rightarrow> supervisorState \<Rightarrow> supervisorState \<times> routine list" where
  "goon n k s = (case k of
       ByLoop fs tr \<Rightarrow> (s, [Run (Loop Attempt n fs tr)])
     | ByStopProcess wait \<Rightarrow> (s\<lparr>sv_onceDone := True\<rparr>, [StopReturn wait])
     | ByHang \<Rightarrow> (s, []))"

text \<open>The end of an attempt as the loop saw it.\<close>

definition saw :: "bool \<Rightarrow> attemptEnd" where
  "saw p = \<lparr>producedAny = p, wasStopped = False, stopClosed = False, stopInBackoff = False, restartFails = False\<rparr>"

definition observe :: "attemptEnd \<Rightarrow> supervisorState \<Rightarrow> supervisorState" where
  "observe e s = s\<lparr>sv_log := sv_log s @ [e]\<rparr>"

fun loop_act :: "int \<Rightarrow> supervisorState \<Rightarrow> loop \<Rightarrow> (supervisorState \<times> routine list) list" where
  "loop_act m s (Loop SetCur n fs tr) = [(s\<lparr>sv_cur := n\<rparr>, [Run (Loop StopSeen n fs tr)])]"
| "loop_act m s (Loop StopSeen n fs tr) =
     (if sv_stopClosed s then [(s, [StopFlag n (ByLoop fs tr)])] else [(s, [Run (Loop Attempt n fs tr)])])"
| "loop_act m s (Loop Attempt n fs tr) =
     (if alive s n then [] else [(s, [Run (Loop (Ended True) n fs tr)]), (s, [Run (Loop (Ended False) n fs tr)])])"
| "loop_act m s (Loop (Ended p) n fs tr) =
     (if at_stopRequested (sv_recs s ! n) then [(observe (saw p\<lparr>wasStopped := True\<rparr>) s, [Run (Loop CloseHls n fs tr)])]
      else [(s, [Run (Loop (Recheck p) n fs tr)])])"
| "loop_act m s (Loop (Recheck p) n fs tr) =
     (if sv_stopClosed s then [(observe (saw p\<lparr>stopClosed := True\<rparr>) s, [Run (Loop CloseHls n fs tr)])]
      else [(s, [Run (Loop (Policy p) n fs tr)])])"
| "loop_act m s (Loop (Policy p) n fs tr) =
     (let fs1 = (if p then 0 else fs + 1); tr1 = tr + 1 in
      if m \<le> fs1 \<or> m * maxTotalRestartMultiplier \<le> tr1
      then [(observe (saw p) s\<lparr>sv_gaveUp := True\<rparr>, [Run (Loop CloseHls n fs1 tr1)])]
      else [(s, [Run (Loop (Pause p) n fs1 tr1)])])"
| "loop_act m s (Loop (Pause p) n fs tr) =
     (s, [Run (Loop (Spawn p) n fs tr)])
     # (if sv_stopClosed s then [(observe (saw p\<lparr>stopInBackoff := True\<rparr>) s, [Run (Loop CloseHls n fs tr)])] else [])"
| "loop_act m s (Loop (Spawn p) n fs tr) =
     [(observe (saw p) s\<lparr>sv_recs := sv_recs s @ [fresh_attempt],
         sv_late := (if sv_stopClosed s then sv_late s + 1 else sv_late s)\<rparr>, [Run (Loop Prime (n + 1) fs tr)]),
      (observe (saw p\<lparr>restartFails := True\<rparr>) s\<lparr>sv_gaveUp := True\<rparr>, [Run (Loop CloseHls n fs tr)])]"
| "loop_act m s (Loop Prime n fs tr) = [(s, [Run (Loop SetCur n fs tr)])]"
| "loop_act m s (Loop CloseHls n fs tr) = [(s\<lparr>sv_hlsClosed := True\<rparr>, [Run (Loop CloseSeg n fs tr)])]"
| "loop_act m s (Loop CloseSeg n fs tr) = [(s\<lparr>sv_segClosed := True\<rparr>, [Run (Loop CloseDone n fs tr)])]"
| "loop_act m s (Loop CloseDone n fs tr) = [(s\<lparr>sv_doneClosed := True\<rparr>, [])]"

text \<open>
  \<open>Recorder.Stop\<close> and \<open>shutdown\<close>.  \<open>ShutWait\<close>: the quit has been sent; the process is done, or the timer fires and the kill
  succeeds or does not.
\<close>

fun shut_act :: "(supervisorState, routine) action" where
  "shut_act s (StopFlag n k) = [(set_rec n (at_stopRequested_update (\<lambda>_. True)) s, [ShutCheck n k])]"
| "shut_act s (ShutCheck n k) = (if alive s n then [(s, [ShutWait n k])] else [goon n k s])"
| "shut_act s (ShutWait n k) =
     (if alive s n then [] else [goon n k s])
     @ [(set_rec n (at_alive_update (\<lambda>_. False)) s, [ShutMark n k]), (s, [ShutMark n k])]"
| "shut_act s (ShutMark n k) = [(set_rec n (at_forceKilled_update (\<lambda>_. True)) s, [ShutDone n k])]"
| "shut_act s (ShutDone n k) = (if alive s n then [] else [goon n k s])"
| "shut_act s _ = []"

text \<open>\<open>StopCall wait\<close> is \<open>StopProcess\<close>, and \<open>Stop\<close> with \<open>wait\<close>.\<close>

fun stop_act :: "(supervisorState, routine) action" where
  "stop_act s (StopCall wait) =
     (if sv_once s then [(s, [StopJoin wait])]
      else [(s\<lparr>sv_once := True, sv_stopClosed := True\<rparr>, [StopRead wait])])"
| "stop_act s (StopRead wait) = [(s, [StopFlag (sv_cur s) (ByStopProcess wait)])]"
| "stop_act s (StopJoin wait) = (if sv_onceDone s then [(s, [StopReturn wait])] else [])"
| "stop_act s (StopReturn wait) = [(s\<lparr>sv_processStopped := True\<rparr>, if wait then [AwaitDone] else [])]"
| "stop_act s AwaitDone = (if sv_doneClosed s then [(s\<lparr>sv_stopReturned := True\<rparr>, [])] else [])"
| "stop_act s _ = []"

fun super_act :: "int \<Rightarrow> (supervisorState, routine) action" where
  "super_act m s (Run l) = loop_act m s l"
| "super_act m s (Exit n) = [(set_rec n (at_alive_update (\<lambda>_. False)) s, [])]"
| "super_act m s (Hang n) = [(s, [ShutCheck n ByHang])]"
| "super_act m s (StopCall wait) = stop_act s (StopCall wait)"
| "super_act m s (StopRead wait) = stop_act s (StopRead wait)"
| "super_act m s (StopJoin wait) = stop_act s (StopJoin wait)"
| "super_act m s (StopReturn wait) = stop_act s (StopReturn wait)"
| "super_act m s AwaitDone = stop_act s AwaitDone"
| "super_act m s t = shut_act s t"

text \<open>Processes end and watchdogs fire when they like, and anybody may stop the supervisor, any number of times.\<close>

fun super_arrives :: "routine \<Rightarrow> bool" where
  "super_arrives (StopCall wait) = True"
| "super_arrives (Exit n) = True"
| "super_arrives (Hang n) = True"
| "super_arrives _ = False"

section \<open>What the loop knows at each point\<close>

definition all_dead :: "supervisorState \<Rightarrow> bool" where
  "all_dead s \<longleftrightarrow> (\<forall>i. \<not> alive s i)"

definition on_last :: "supervisorState \<Rightarrow> nat \<Rightarrow> bool" where
  "on_last s n \<longleftrightarrow> length (sv_recs s) = Suc n \<and> (\<forall>i < n. \<not> alive s i)"

text \<open>The log is a run of the restart policy that is still going, with the loop's locals as its state.\<close>

definition follows :: "int \<Rightarrow> supervisorState \<Rightarrow> int \<Rightarrow> int \<Rightarrow> bool" where
  "follows m s fs tr \<longleftrightarrow> \<not> sv_gaveUp s \<and> (\<exists>st. run m (sv_log s) run_init = (Running, st) \<and> failStreak st = fs
     \<and> totalRestarts st = tr \<and> attempt st = int (length (sv_recs s)))"

definition follows_after :: "int \<Rightarrow> supervisorState \<Rightarrow> bool \<Rightarrow> int \<Rightarrow> int \<Rightarrow> bool" where
  "follows_after m s p fs tr \<longleftrightarrow> (\<exists>fs0. follows m s fs0 (tr - 1) \<and> fs = (if p then 0 else fs0 + 1)
     \<and> fs < m \<and> tr < m * maxTotalRestartMultiplier)"

definition settled :: "int \<Rightarrow> supervisorState \<Rightarrow> bool" where
  "settled m s \<longleftrightarrow> (\<exists>v st. run m (sv_log s) run_init = (v, st) \<and> v \<noteq> Running \<and> sv_gaveUp s = (v = GaveUp)
     \<and> int (length (sv_recs s)) \<le> attempt st)"

fun pc_ok :: "int \<Rightarrow> supervisorState \<Rightarrow> loop \<Rightarrow> bool" where
  "pc_ok m s (Loop SetCur n fs tr) = (on_last s n \<and> follows m s fs tr)"
| "pc_ok m s (Loop StopSeen n fs tr) = (on_last s n \<and> follows m s fs tr)"
| "pc_ok m s (Loop Prime n fs tr) = (on_last s n \<and> follows m s fs tr)"
| "pc_ok m s (Loop Attempt n fs tr) =
     (on_last s n \<and> follows m s fs tr \<and> (0 < sv_late s \<longrightarrow> at_stopRequested (sv_recs s ! n)))"
| "pc_ok m s (Loop (Ended p) n fs tr) =
     (on_last s n \<and> all_dead s \<and> follows m s fs tr \<and> (0 < sv_late s \<longrightarrow> at_stopRequested (sv_recs s ! n)))"
| "pc_ok m s (Loop (Recheck p) n fs tr) = (on_last s n \<and> all_dead s \<and> follows m s fs tr \<and> sv_late s = 0)"
| "pc_ok m s (Loop (Policy p) n fs tr) = (on_last s n \<and> all_dead s \<and> follows m s fs tr \<and> sv_late s = 0)"
| "pc_ok m s (Loop (Pause p) n fs tr) = (on_last s n \<and> all_dead s \<and> follows_after m s p fs tr \<and> sv_late s = 0)"
| "pc_ok m s (Loop (Spawn p) n fs tr) = (on_last s n \<and> all_dead s \<and> follows_after m s p fs tr \<and> sv_late s = 0)"
| "pc_ok m s (Loop CloseHls n fs tr) = (all_dead s \<and> settled m s)"
| "pc_ok m s (Loop CloseSeg n fs tr) = (all_dead s \<and> settled m s \<and> sv_hlsClosed s)"
| "pc_ok m s (Loop CloseDone n fs tr) = (all_dead s \<and> settled m s \<and> sv_hlsClosed s \<and> sv_segClosed s)"

fun wait_ok :: "int \<Rightarrow> supervisorState \<Rightarrow> nat \<Rightarrow> waiter \<Rightarrow> bool" where
  "wait_ok m s n (ByLoop fs tr) = (on_last s n \<and> follows m s fs tr)"
| "wait_ok m s n _ = True"

fun flagged :: "supervisorState \<Rightarrow> nat \<Rightarrow> waiter \<Rightarrow> bool" where
  "flagged s n (ByLoop fs tr) = at_stopRequested (sv_recs s ! n)"
| "flagged s n _ = True"

fun routine_ok :: "int \<Rightarrow> supervisorState \<Rightarrow> routine \<Rightarrow> bool" where
  "routine_ok m s (Run l) = pc_ok m s l"
| "routine_ok m s (StopFlag n k) = wait_ok m s n k"
| "routine_ok m s (ShutCheck n k) = (wait_ok m s n k \<and> flagged s n k)"
| "routine_ok m s (ShutWait n k) = (wait_ok m s n k \<and> flagged s n k)"
| "routine_ok m s (ShutMark n k) = (wait_ok m s n k \<and> flagged s n k)"
| "routine_ok m s (ShutDone n k) = (wait_ok m s n k \<and> flagged s n k)"
| "routine_ok m s _ = True"

fun by_loop :: "waiter \<Rightarrow> nat" where
  "by_loop (ByLoop fs tr) = 1"
| "by_loop _ = 0"

fun loops :: "routine \<Rightarrow> nat" where
  "loops (Run l) = 1"
| "loops (StopFlag n k) = by_loop k"
| "loops (ShutCheck n k) = by_loop k"
| "loops (ShutWait n k) = by_loop k"
| "loops (ShutMark n k) = by_loop k"
| "loops (ShutDone n k) = by_loop k"
| "loops _ = 0"

definition shared_ok :: "int \<Rightarrow> supervisorState \<Rightarrow> bool" where
  "shared_ok m s \<longleftrightarrow> sv_late s \<le> 1 \<and> (0 < sv_late s \<longrightarrow> sv_stopClosed s)
     \<and> (sv_doneClosed s \<longrightarrow> all_dead s \<and> settled m s \<and> sv_hlsClosed s \<and> sv_segClosed s)
     \<and> (sv_stopReturned s \<longrightarrow> sv_doneClosed s)"

definition super_ok :: "int \<Rightarrow> supervisorState \<Rightarrow> routine multiset \<Rightarrow> bool" where
  "super_ok m s ts \<longleftrightarrow> tally loops ts + of_bool (sv_doneClosed s) = 1 \<and> shared_ok m s \<and> (\<forall>t \<in># ts. routine_ok m s t)"

lemma not_loop_ok: "loops t = 0 \<Longrightarrow> routine_ok m s t"
proof (cases t)
  case (StopFlag n k) then show "loops t = 0 \<Longrightarrow> routine_ok m s t" by (cases k) auto
next
  case (ShutCheck n k) then show "loops t = 0 \<Longrightarrow> routine_ok m s t" by (cases k) auto
next
  case (ShutWait n k) then show "loops t = 0 \<Longrightarrow> routine_ok m s t" by (cases k) auto
next
  case (ShutMark n k) then show "loops t = 0 \<Longrightarrow> routine_ok m s t" by (cases k) auto
next
  case (ShutDone n k) then show "loops t = 0 \<Longrightarrow> routine_ok m s t" by (cases k) auto
qed auto

section \<open>Steps of others\<close>

text \<open>What anybody but the loop may do to the shared state.\<close>

definition quiet :: "supervisorState \<Rightarrow> supervisorState \<Rightarrow> bool" where
  "quiet s s' \<longleftrightarrow> length (sv_recs s') = length (sv_recs s) \<and> (\<forall>i. alive s' i \<longrightarrow> alive s i)
     \<and> (\<forall>i < length (sv_recs s). at_stopRequested (sv_recs s ! i) \<longrightarrow> at_stopRequested (sv_recs s' ! i))
     \<and> sv_log s' = sv_log s \<and> sv_late s' = sv_late s \<and> sv_gaveUp s' = sv_gaveUp s
     \<and> sv_hlsClosed s' = sv_hlsClosed s \<and> sv_segClosed s' = sv_segClosed s \<and> sv_doneClosed s' = sv_doneClosed s
     \<and> (sv_stopClosed s \<longrightarrow> sv_stopClosed s') \<and> (sv_stopReturned s' \<longrightarrow> sv_stopReturned s \<or> sv_doneClosed s)"

lemma quiet_refl [simp]: "quiet s s"
  by (simp add: quiet_def)

lemma quiet_set_rec:
  assumes "\<And>r. at_alive (f r) \<Longrightarrow> at_alive r" and "\<And>r. at_stopRequested r \<Longrightarrow> at_stopRequested (f r)"
  shows "quiet s (set_rec n f s)"
  using assms by (cases "n < length (sv_recs s)") (auto simp: quiet_def set_rec_def alive_def nth_list_update split: if_splits)

lemma quiet_all_dead: "quiet s s' \<Longrightarrow> all_dead s \<Longrightarrow> all_dead s'"
  by (auto simp: quiet_def all_dead_def)

lemma quiet_on_last: "quiet s s' \<Longrightarrow> on_last s n \<Longrightarrow> on_last s' n"
  by (auto simp: quiet_def on_last_def)

lemma quiet_follows: "quiet s s' \<Longrightarrow> follows m s' fs tr = follows m s fs tr"
  by (simp add: quiet_def follows_def)

lemma quiet_follows_after: "quiet s s' \<Longrightarrow> follows_after m s' p fs tr = follows_after m s p fs tr"
  by (simp add: quiet_follows follows_after_def)

lemma quiet_settled: "quiet s s' \<Longrightarrow> settled m s' = settled m s"
  by (simp add: quiet_def settled_def)

lemma quiet_flag: "quiet s s' \<Longrightarrow> on_last s n \<Longrightarrow> at_stopRequested (sv_recs s ! n) \<Longrightarrow> at_stopRequested (sv_recs s' ! n)"
  by (simp add: quiet_def on_last_def)

lemma quiet_late: "quiet s s' \<Longrightarrow> sv_late s' = sv_late s" "quiet s s' \<Longrightarrow> sv_hlsClosed s' = sv_hlsClosed s"
  "quiet s s' \<Longrightarrow> sv_segClosed s' = sv_segClosed s"
  by (simp_all add: quiet_def)

lemmas quiet_facts = quiet_all_dead quiet_on_last quiet_follows quiet_follows_after quiet_settled quiet_late

lemma quiet_wait: "quiet s s' \<Longrightarrow> wait_ok m s n k \<Longrightarrow> wait_ok m s' n k"
  by (cases k) (auto simp: quiet_facts intro: quiet_on_last)

lemma quiet_flagged: "quiet s s' \<Longrightarrow> wait_ok m s n k \<Longrightarrow> flagged s n k \<Longrightarrow> flagged s' n k"
  by (cases k) (auto intro: quiet_flag)

lemma quiet_pc:
  assumes "quiet s s'" and "pc_ok m s l"
  shows "pc_ok m s' l"
  using assms by (cases "(m, s, l)" rule: pc_ok.cases) (auto simp: quiet_facts intro: quiet_on_last quiet_all_dead quiet_flag)

lemma quiet_routine:
  assumes "quiet s s'" and "routine_ok m s t"
  shows "routine_ok m s' t"
  using assms by (cases t) (auto intro: quiet_pc quiet_wait quiet_flagged)

lemma quiet_shared: "quiet s s' \<Longrightarrow> shared_ok m s \<Longrightarrow> shared_ok m s'"
  by (auto simp: shared_ok_def quiet_settled quiet_late intro: quiet_all_dead) (auto simp: quiet_def intro: quiet_all_dead)


lemma quiet_flags [simp]:
  "quiet s (set_rec n (at_alive_update (\<lambda>_. False)) s)"
  "quiet s (set_rec n (at_stopRequested_update (\<lambda>_. True)) s)"
  "quiet s (set_rec n (at_forceKilled_update (\<lambda>_. True)) s)"
  by (rule quiet_set_rec; simp)+

lemma quiet_goon: "by_loop k = 0 \<Longrightarrow> goon n k s = (s', new) \<Longrightarrow> quiet s s' \<and> (\<forall>t \<in> set new. loops t = 0)"
  by (cases k) (auto simp: goon_def quiet_def alive_def)

lemma others_step:
  assumes "loops t = 0" and "(s', new) \<in> set (super_act m s t)"
  shows "quiet s s' \<and> (\<forall>t' \<in> set new. loops t' = 0)"
proof (cases t)
  case (ShutCheck n k)
  then show ?thesis using assms quiet_goon [of k n s s' new] by (cases "alive s n") auto
next
  case (ShutWait n k)
  then show ?thesis using assms quiet_goon [of k n s s' new] by (cases "alive s n") auto
next
  case (ShutDone n k)
  then show ?thesis using assms quiet_goon [of k n s s' new] by (cases "alive s n") auto
next
  case (StopCall w)
  then show ?thesis using assms by (cases "sv_once s") (auto simp: quiet_def alive_def)
next
  case (StopJoin w)
  then show ?thesis using assms by (cases "sv_onceDone s") (auto simp: quiet_def alive_def)
next
  case (StopReturn w)
  then show ?thesis using assms by (cases w) (auto simp: quiet_def alive_def)
next
  case AwaitDone
  then show ?thesis using assms by (cases "sv_doneClosed s") (auto simp: quiet_def alive_def)
qed (use assms in simp_all)

section \<open>Steps of the loop\<close>

lemma run_snoc:
  assumes "run m es s0 = (Running, st)"
  shows "run m (es @ [e]) s0 = supervise_step m e st"
  using assms
proof (induction m es s0 rule: run.induct)
  case (1 m s)
  then show ?case by (cases "supervise_step m e s") (auto split: verdict.splits)
next
  case (2 m e' es s)
  then show ?case by (auto split: prod.splits verdict.splits)
qed

lemma follows_end:
  assumes "follows m s fs tr" and "wasStopped e \<or> stopClosed e"
  shows "settled m (observe e s)"
  using assms by (auto simp: follows_def settled_def observe_def run_snoc supervise_step_def)

lemma follows_policy:
  assumes "follows m s fs tr" and "fs' = (if p then 0 else fs + 1)"
  shows "m \<le> fs' \<or> m * maxTotalRestartMultiplier \<le> tr + 1 \<Longrightarrow> settled m (observe (saw p) s\<lparr>sv_gaveUp := True\<rparr>)"
    and "\<not> (m \<le> fs' \<or> m * maxTotalRestartMultiplier \<le> tr + 1) \<Longrightarrow> follows_after m s p fs' (tr + 1)"
  using assms by (auto simp: follows_def settled_def observe_def run_snoc supervise_step_def saw_def follows_after_def Let_def)

lemma follows_after_step:
  assumes "follows_after m s p fs tr"
  shows "settled m (observe (saw p\<lparr>stopInBackoff := True\<rparr>) s)"
    and "settled m (observe (saw p\<lparr>restartFails := True\<rparr>) s\<lparr>sv_gaveUp := True\<rparr>)"
    and "follows m (observe (saw p) s\<lparr>sv_recs := sv_recs s @ [r], sv_late := l\<rparr>) fs tr"
  using assms by (auto simp: follows_def settled_def observe_def run_snoc supervise_step_def saw_def follows_after_def Let_def)


lemma observe_simps [simp]:
  "sv_recs (observe e s) = sv_recs s" "sv_late (observe e s) = sv_late s" "sv_stopClosed (observe e s) = sv_stopClosed s"
  "sv_doneClosed (observe e s) = sv_doneClosed s" "sv_stopReturned (observe e s) = sv_stopReturned s"
  "alive (observe e s) i = alive s i" "sv_gaveUp (observe e s) = sv_gaveUp s"
  by (simp_all add: observe_def alive_def)

lemma dead_last: "on_last s n \<Longrightarrow> \<not> alive s n \<Longrightarrow> all_dead s"
  by (auto simp: on_last_def all_dead_def alive_def less_Suc_eq)

lemma loop_step:
  assumes "pc_ok m s (Loop pc n fs tr)" and "shared_ok m s" and "\<not> sv_doneClosed s"
    and "(s', new) \<in> set (loop_act m s (Loop pc n fs tr))"
  shows "shared_ok m s' \<and> (\<forall>t \<in> set new. routine_ok m s' t) \<and> tally loops (mset new) + of_bool (sv_doneClosed s') = 1"
proof (cases pc)
  case SetCur
  then show ?thesis using assms by (auto simp: shared_ok_def on_last_def follows_def alive_def)
next
  case StopSeen
  then show ?thesis using assms by (cases "sv_stopClosed s") (auto simp: shared_ok_def)
next
  case Attempt
  then show ?thesis using assms by (cases "alive s n") (auto simp: shared_ok_def intro: dead_last)
next
  case (Ended p)
  then show ?thesis using assms follows_end [of m s fs tr "saw p\<lparr>wasStopped := True\<rparr>"]
    by (cases "at_stopRequested (sv_recs s ! n)") (auto simp: shared_ok_def all_dead_def)
next
  case (Recheck p)
  then show ?thesis using assms follows_end [of m s fs tr "saw p\<lparr>stopClosed := True\<rparr>"]
    by (cases "sv_stopClosed s") (auto simp: shared_ok_def all_dead_def)
next
  case (Policy p)
  define fs1 where "fs1 = (if p then 0 else fs + 1)"
  have f: "follows m s fs tr" using assms(1) Policy by simp
  show ?thesis
  proof (cases "m \<le> fs1 \<or> m * maxTotalRestartMultiplier \<le> tr + 1")
    case True
    then show ?thesis using assms Policy follows_policy(1) [OF f fs1_def True]
      by (auto simp: shared_ok_def all_dead_def alive_def Let_def fs1_def [symmetric])
  next
    case False
    then show ?thesis using assms Policy follows_policy(2) [OF f fs1_def False]
      by (auto simp: Let_def fs1_def [symmetric])
  qed
next
  case (Pause p)
  then have f: "follows_after m s p fs tr" using assms(1) by simp
  show ?thesis using assms Pause follows_after_step(1) [OF f]
    by (cases "sv_stopClosed s") (auto simp: shared_ok_def all_dead_def)
next
  case (Spawn p)
  then have f: "follows_after m s p fs tr" using assms(1) by simp
  have l: "on_last (observe e s\<lparr>sv_recs := sv_recs s @ [r], sv_late := l\<rparr>) (n + 1)" for e r l
    using assms(1) Spawn by (auto simp: on_last_def all_dead_def alive_def nth_append less_Suc_eq)
  from assms(4) Spawn consider
      "s' = observe (saw p) s\<lparr>sv_recs := sv_recs s @ [fresh_attempt], sv_late := (if sv_stopClosed s then sv_late s + 1 else sv_late s)\<rparr>"
      "new = [Run (Loop Prime (n + 1) fs tr)]"
    | "s' = observe (saw p\<lparr>restartFails := True\<rparr>) s\<lparr>sv_gaveUp := True\<rparr>" "new = [Run (Loop CloseHls n fs tr)]" by auto
  then show ?thesis
  proof cases
    case 1
    then show ?thesis using assms(1,2,3) Spawn follows_after_step(3) [OF f] l by (auto simp: shared_ok_def)
  next
    case 2
    then show ?thesis using assms(1,2,3) Spawn follows_after_step(2) [OF f]
      by (auto simp: shared_ok_def all_dead_def alive_def)
  qed
next
  case Prime
  then show ?thesis using assms by auto
next
  case CloseHls
  then show ?thesis using assms by (auto simp: shared_ok_def all_dead_def alive_def settled_def)
next
  case CloseSeg
  then show ?thesis using assms by (auto simp: shared_ok_def all_dead_def alive_def settled_def)
next
  case CloseDone
  then show ?thesis using assms by (auto simp: shared_ok_def all_dead_def alive_def settled_def)
qed

lemma on_last_length: "on_last s n \<Longrightarrow> n < length (sv_recs s)"
  by (simp add: on_last_def)

lemma goon_loop:
  assumes "wait_ok m s n (ByLoop fs tr)" and "flagged s n (ByLoop fs tr)" and "goon n (ByLoop fs tr) s = (s', new)"
  shows "s' = s \<and> (\<exists>t. new = [t] \<and> loops t = 1 \<and> routine_ok m s t)"
  using assms by (auto simp: goon_def)

text \<open>The recorder the loop itself shuts down, step by step.\<close>

lemma shut_step:
  assumes "routine_ok m s t" and "loops t = 1" and "\<nexists>l. t = Run l" and "(s', new) \<in> set (super_act m s t)"
  shows "quiet s s' \<and> (\<exists>t'. new = [t'] \<and> loops t' = 1 \<and> routine_ok m s' t')"
proof (cases t)
  case (StopFlag n k)
  then obtain fs tr where k: "k = ByLoop fs tr" using assms(2) by (cases k) auto
  have s': "s' = set_rec n (at_stopRequested_update (\<lambda>_. True)) s" using assms(4) StopFlag by simp
  then have q: "quiet s s'" by simp
  have "wait_ok m s' n k" using quiet_wait [OF q] assms(1) StopFlag by simp
  moreover have "at_stopRequested (sv_recs s' ! n)"
    using assms(1) StopFlag k by (auto simp: s' set_rec_def dest: on_last_length)
  ultimately show ?thesis using q assms(4) StopFlag k by auto
next
  case (ShutCheck n k)
  then obtain fs tr where k: "k = ByLoop fs tr" using assms(2) by (cases k) auto
  show ?thesis using assms(1,4) ShutCheck k goon_loop [of m s n fs tr s' new] by (cases "alive s n") auto
next
  case (ShutWait n k)
  then obtain fs tr where k: "k = ByLoop fs tr" using assms(2) by (cases k) auto
  have w: "wait_ok m s n k" "flagged s n k" using assms(1) ShutWait by auto
  from assms(4) ShutWait consider "goon n k s = (s', new)"
    | "s' = set_rec n (at_alive_update (\<lambda>_. False)) s" "new = [ShutMark n k]" | "s' = s" "new = [ShutMark n k]"
    by (cases "alive s n") auto
  then show ?thesis
  proof cases
    case 2
    then have q: "quiet s s'" by simp
    show ?thesis using q quiet_wait [OF q w(1)] quiet_flagged [OF q w] 2 k by simp
  qed (use w k goon_loop [of m s n fs tr s' new] in auto)
next
  case (ShutMark n k)
  then obtain fs tr where k: "k = ByLoop fs tr" using assms(2) by (cases k) auto
  have w: "wait_ok m s n k" "flagged s n k" using assms(1) ShutMark by auto
  have q: "quiet s s'" using assms(4) ShutMark by simp
  show ?thesis using q quiet_wait [OF q w(1)] quiet_flagged [OF q w] assms(4) ShutMark k by simp
next
  case (ShutDone n k)
  then obtain fs tr where k: "k = ByLoop fs tr" using assms(2) by (cases k) auto
  show ?thesis using assms(1,4) ShutDone k goon_loop [of m s n fs tr s' new] by (cases "alive s n") auto
qed (use assms in auto)

section \<open>The invariant\<close>

lemma super_step:
  assumes "super_ok m s (add_mset t ts)" and "(s', new) \<in> set (super_act m s t)"
  shows "super_ok m s' (mset new + ts)"
proof -
  have sum: "loops t + tally loops ts + of_bool (sv_doneClosed s) = 1" and g: "shared_ok m s"
    and rt: "routine_ok m s t" and rest: "\<forall>u \<in># ts. routine_ok m s u" using assms(1) by (auto simp: super_ok_def)
  show ?thesis
  proof (cases "loops t")
    case 0
    with others_step [OF _ assms(2)] have q: "quiet s s'" and n0: "\<forall>u \<in> set new. loops u = 0" by auto
    have "sv_doneClosed s' = sv_doneClosed s" using q by (simp add: quiet_def)
    moreover have "tally loops (mset new) = 0" using n0 by (simp add: tally_zero)
    ultimately show ?thesis
      using sum 0 quiet_shared [OF q g] rest n0 by (auto simp: super_ok_def not_loop_ok intro: quiet_routine [OF q])
  next
    case (Suc k)
    with sum have one: "loops t = 1" and none: "tally loops ts = 0" and nd: "\<not> sv_doneClosed s"
      by (auto split: if_splits)
    from none have others: "\<forall>u \<in># ts. loops u = 0" by (simp only: tally_zero)
    show ?thesis
    proof (cases "\<exists>l. t = Run l")
      case True
      then obtain pc n fs tr where t: "t = Run (Loop pc n fs tr)" by (metis loop.exhaust)
      have "shared_ok m s' \<and> (\<forall>u \<in> set new. routine_ok m s' u) \<and> tally loops (mset new) + of_bool (sv_doneClosed s') = 1"
        by (rule loop_step [OF _ g nd]) (use rt assms(2) t in auto)
      with others none show ?thesis by (auto simp: super_ok_def not_loop_ok simp del: sum_mset_0_iff)
    next
      case False
      from shut_step [OF rt one _ assms(2)] False
      obtain t' where q: "quiet s s'" and n: "new = [t']" "loops t' = 1" "routine_ok m s' t'" by auto
      have "sv_doneClosed s' = sv_doneClosed s" using q by (simp add: quiet_def)
      with n others none nd show ?thesis
        using quiet_shared [OF q g] by (auto simp: super_ok_def not_loop_ok simp del: sum_mset_0_iff)
    qed
  qed
qed

lemma super_arrival: "super_ok m s ts \<Longrightarrow> super_arrives t \<Longrightarrow> super_ok m s (add_mset t ts)"
  by (cases t) (auto simp: super_ok_def)

interpretation supervised: interleaving "super_act m" super_arrives "super_ok m" for m
  by unfold_locales (auto intro: super_step super_arrival)

lemma super_init: "super_ok m supervisor_start {#Run (Loop SetCur 0 0 0)#}"
  by (auto simp: super_ok_def shared_ok_def supervisor_start_def on_last_def follows_def run_init_def)


section \<open>What the supervisor keeps to\<close>

abbreviation supervised_from :: "int \<Rightarrow> supervisorState \<times> routine multiset \<Rightarrow> bool" where
  "supervised_from m \<equiv> reach (super_act m) super_arrives (supervisor_start, {#Run (Loop SetCur 0 0 0)#})"

lemma supervised_ok: "supervised_from m (s, ts) \<Longrightarrow> super_ok m s ts"
  by (rule supervised.ok_reachable [OF _ super_init])

definition policy_view :: "int \<Rightarrow> supervisorState \<Rightarrow> bool" where
  "policy_view m s \<longleftrightarrow> (\<exists>v st. run m (sv_log s) run_init = (v, st) \<and> sv_gaveUp s = (v = GaveUp)
     \<and> int (length (sv_recs s)) \<le> attempt st \<and> (sv_doneClosed s \<longrightarrow> v \<noteq> Running))"

lemma follows_view: "follows m s fs tr \<Longrightarrow> \<not> sv_doneClosed s \<Longrightarrow> policy_view m s"
  by (auto simp: follows_def policy_view_def)

lemma follows_after_view: "follows_after m s p fs tr \<Longrightarrow> \<not> sv_doneClosed s \<Longrightarrow> policy_view m s"
  by (auto simp: follows_after_def intro: follows_view)

lemma settled_view: "settled m s \<Longrightarrow> policy_view m s"
  by (auto simp: settled_def policy_view_def)

lemma loop_view:
  assumes "routine_ok m s t" and "loops t = 1" and "\<not> sv_doneClosed s"
  shows "policy_view m s"
proof (cases "\<exists>l. t = Run l")
  case True
  then show ?thesis using assms
    by (cases "(m, s, case t of Run l \<Rightarrow> l)" rule: pc_ok.cases)
      (auto intro: follows_view follows_after_view settled_view)
next
  case False
  have "policy_view m s" if "wait_ok m s n k" "by_loop k = 1" for n k
    using that assms(3) by (cases k) (auto intro: follows_view)
  with False assms show ?thesis by (cases t) auto
qed

lemma super_loop:
  assumes "super_ok m s ts" and "\<not> sv_doneClosed s"
  obtains t where "t \<in># ts" and "loops t = 1" and "routine_ok m s t"
proof -
  have one: "tally loops ts = 1" and ok: "\<forall>t \<in># ts. routine_ok m s t" using assms by (auto simp: super_ok_def)
  then have "\<exists>t \<in># ts. loops t \<noteq> 0" using tally_zero [of loops ts] by (auto simp del: sum_mset_0_iff)
  then obtain t where t: "t \<in># ts" "loops t \<noteq> 0" by blast
  then obtain us where "ts = add_mset t us" by (metis multi_member_split)
  with one t(2) have "loops t = 1" by simp
  with t(1) ok that show thesis by blast
qed

lemma super_view: "super_ok m s ts \<Longrightarrow> policy_view m s"
proof (cases "sv_doneClosed s")
  case True
  then show "super_ok m s ts \<Longrightarrow> policy_view m s" by (auto simp: super_ok_def shared_ok_def intro: settled_view)
next
  case False
  then show "super_ok m s ts \<Longrightarrow> policy_view m s" by (auto elim!: super_loop dest: loop_view)
qed

text \<open>
  C8.  Under every interleaving of the loop, the processes, the hang watchdogs and the callers of \<open>Stop\<close>, the supervisor follows
  the sequential restart policy on what it observed: \<open>GaveUp\<close> reports exactly that the policy gave up, \<open>doneCh\<close> is only closed once the
  policy has ended, and no more than \<open>5 * maxAttempts\<close> recorders are ever started.
\<close>

theorem restart_policy_followed:
  assumes "m = fst (StartRecorderSupervisor cfg timeout)" and "supervised_from m (s, ts)"
  shows "(sv_gaveUp s \<longleftrightarrow> fst (run m (sv_log s) run_init) = GaveUp)
    \<and> (sv_doneClosed s \<longrightarrow> fst (run m (sv_log s) run_init) \<noteq> Running)
    \<and> int (length (sv_recs s)) \<le> 5 * m"
proof -
  obtain v st where v: "run m (sv_log s) run_init = (v, st)" "sv_gaveUp s = (v = GaveUp)"
      "int (length (sv_recs s)) \<le> attempt st" "sv_doneClosed s \<longrightarrow> v \<noteq> Running"
    using super_view [OF supervised_ok [OF assms(2)]] by (auto simp: policy_view_def)
  have "run_inv m run_init"
    using assms(1) by (auto simp: run_inv_def run_init_def StartRecorderSupervisor_def maxTotalRestartMultiplier_def)
  from run_bounds [OF v(1) this] v show ?thesis by (simp add: maxTotalRestartMultiplier_def)
qed

lemma dead_but_last:
  assumes "super_ok m s ts" and "alive s i"
  shows "Suc i = length (sv_recs s)"
proof -
  have nd: "\<not> sv_doneClosed s" using assms by (auto simp: super_ok_def shared_ok_def all_dead_def)
  obtain t where t: "loops t = 1" "routine_ok m s t" using super_loop [OF assms(1) nd] by blast
  have i: "i < length (sv_recs s)" using assms(2) by (simp add: alive_def)
  have last: "Suc i = length (sv_recs s)" if "on_last s n" for n
  proof -
    have "\<not> i < n" using that assms(2) by (auto simp: on_last_def)
    with that i show ?thesis by (auto simp: on_last_def)
  qed
  have live: "\<not> all_dead s" using assms(2) by (auto simp: all_dead_def)
  have w: "Suc i = length (sv_recs s)" if "wait_ok m s n k" "by_loop k = 1" for n k
    using that last by (cases k) auto
  show ?thesis
  proof (cases "\<exists>l. t = Run l")
    case True
    then show ?thesis using t live last
      by (cases "(m, s, case t of Run l \<Rightarrow> l)" rule: pc_ok.cases) auto
  next
    case False
    then show ?thesis using t w by (cases t) auto
  qed
qed

lemma stuck_loop:
  assumes "loops t = 1" and "super_act m s t = []"
  shows "\<exists>i. alive s i"
proof (cases "\<exists>l. t = Run l")
  case True
  then show ?thesis using assms(2)
    by (cases "(m, s, case t of Run l \<Rightarrow> l)" rule: loop_act.cases) (auto simp: Let_def split: if_splits)
next
  case False
  then show ?thesis using assms by (cases t) (auto split: if_splits)
qed

text \<open>
  C0.  No two ffmpeg processes of one stream ever run at once.  Once \<open>doneCh\<close> is closed none runs, both output channels are closed, and \<open>Stop\<close>
  returns no earlier.  After a stop request at most one more recorder is started, and when nothing can move the loop has ended or
  a process has yet to die.
\<close>

theorem one_ffmpeg_at_a_time:
  assumes "supervised_from m (s, ts)"
  shows "(alive s i \<and> alive s j \<longrightarrow> i = j)
    \<and> (sv_doneClosed s \<longrightarrow> \<not> alive s i \<and> sv_hlsClosed s \<and> sv_segClosed s)
    \<and> (sv_stopReturned s \<longrightarrow> sv_doneClosed s)
    \<and> sv_late s \<le> 1
    \<and> ((\<forall>t \<in># ts. super_act m s t = []) \<longrightarrow> sv_doneClosed s \<or> (\<exists>k. alive s k))"
proof (intro conjI)
  note ok = supervised_ok [OF assms]
  show "alive s i \<and> alive s j \<longrightarrow> i = j" using dead_but_last [OF ok] by (metis nat.inject)
  show "sv_doneClosed s \<longrightarrow> \<not> alive s i \<and> sv_hlsClosed s \<and> sv_segClosed s" "sv_stopReturned s \<longrightarrow> sv_doneClosed s" "sv_late s \<le> 1"
    using ok by (auto simp: super_ok_def shared_ok_def all_dead_def)
  show "(\<forall>t \<in># ts. super_act m s t = []) \<longrightarrow> sv_doneClosed s \<or> (\<exists>k. alive s k)"
    using super_loop [OF ok] stuck_loop by metis
qed

section \<open>What a stop request lets through\<close>

text \<open>The backoff timer has fired and the loop is about to start the next recorder when \<open>StopProcess\<close> runs from beginning to end.\<close>

definition late_stop :: "routine move list" where
  "late_stop = [Act 0 0, Act 0 0, Arrive (Exit 0), Act 1 0, Act 0 0, Act 0 0, Act 0 0, Act 0 0, Act 0 0,
     Arrive (StopCall False), Act 1 0, Act 1 0, Act 1 0, Act 1 0, Act 1 0, Act 0 0]"

definition late_kill :: "routine move list" where
  "late_kill = [Act 0 0, Act 0 0, Act 0 0, Act 0 0, Act 0 0, Act 0 0, Act 0 0, Act 0 0, Act 0 1, Act 0 0, Act 0 0, Act 0 0, Act 0 0]"

definition attempt_was :: "bool \<Rightarrow> bool \<Rightarrow> bool \<Rightarrow> attemptState" where
  "attempt_was a r k = \<lparr>at_alive = a, at_stopRequested = r, at_forceKilled = k\<rparr>"

definition late_state :: supervisorState where
  "late_state = supervisor_start\<lparr>sv_recs := [attempt_was False True False, attempt_was True False False], sv_stopClosed := True,
     sv_once := True, sv_onceDone := True, sv_processStopped := True, sv_log := [saw True], sv_late := 1\<rparr>"

definition killed_state :: supervisorState where
  "killed_state = late_state\<lparr>sv_recs := [attempt_was False True False, attempt_was False True True], sv_cur := 1,
     sv_hlsClosed := True, sv_segClosed := True, sv_doneClosed := True,
     sv_log := [saw True, saw False\<lparr>wasStopped := True\<rparr>]\<rparr>"

lemmas late_defs = late_stop_def late_kill_def late_state_def killed_state_def attempt_was_def supervisor_start_def
  fresh_attempt_def set_rec_def alive_def goon_def observe_def saw_def maxTotalRestartMultiplier_def

lemma late_stop_run:
  "play (super_act 3) super_arrives (supervisor_start, [Run (Loop SetCur 0 0 0)]) late_stop
     = Some (late_state, [Run (Loop Prime 1 0 1)])"
  by (simp add: late_defs)

lemma late_kill_run:
  "play (super_act 3) super_arrives (late_state, [Run (Loop Prime 1 0 1)]) late_kill = Some (killed_state, [])"
  by (simp add: late_defs)

text \<open>
  So \<open>StopProcess\<close> returns with a new ffmpeg alive, and \<open>LastAttemptForceKilled\<close>, read then, is about an older recorder: the one
  that is running is killed afterwards, which the caller never learns.
\<close>

lemma stop_returns_before_restart:
  "supervised_from 3 (late_state, {#Run (Loop Prime 1 0 1)#})" "sv_processStopped late_state" "alive late_state 1"
  "\<not> LastAttemptForceKilled late_state"
  "supervised_from 3 (killed_state, {#})" "LastAttemptForceKilled killed_state"
proof -
  show a: "supervised_from 3 (late_state, {#Run (Loop Prime 1 0 1)#})"
    using play_reach [OF late_stop_run, of "(supervisor_start, {#Run (Loop SetCur 0 0 0)#})"] by (simp add: reach.start)
  show "supervised_from 3 (killed_state, {#})"
    using play_reach [OF late_kill_run, of "(supervisor_start, {#Run (Loop SetCur 0 0 0)#})"] a by simp
qed (simp_all add: late_defs LastAttemptForceKilled_def)

lemma restart_policy_followed_witness:
  "int (length (sv_recs killed_state)) \<le> 15"
  using restart_policy_followed [of 3 3 0 killed_state "{#}"] stop_returns_before_restart(5)
  by (simp add: StartRecorderSupervisor_def)

lemma one_ffmpeg_at_a_time_witness:
  "sv_doneClosed killed_state \<and> \<not> alive killed_state 1"
  using one_ffmpeg_at_a_time [OF stop_returns_before_restart(5), of 1] by (simp add: killed_state_def)

end
