(* ===== verification/Watchers.thy ===== *)
theory Watchers
  imports GoStd
begin

text \<open>
  \<open>internal/watcher/segment_watch.go\<close> and \<open>hls_watch.go\<close>: tailing the list files ffmpeg writes.
  One call of \<open>emitNewLines\<close> / \<open>emitNewHLSEntries\<close> sees the text the file holds at that moment
  (\<^const>\<open>None\<close>: it cannot be opened or read); the counters are the state.  A watcher's life is the
  sequence of texts seen at its ticks, the last one being read after the context is cancelled.
\<close>

section \<open>Lines\<close>

text \<open>\<open>bufio.Scanner\<close> with \<open>ScanLines\<close>, every line then passed through \<open>TrimSpace\<close>; empty lines are skipped.\<close>

definition scan_lines :: "string \<Rightarrow> string list" where
  "scan_lines txt = filter (\<lambda>l. l \<noteq> []) (map TrimSpace (split_on CHR 0x0A txt))"

definition IsAbs :: "string \<Rightarrow> bool" where
  "IsAbs p \<longleftrightarrow> prefix ''/'' p"

section \<open>The segment list\<close>

definition segment_path :: "string \<Rightarrow> string \<Rightarrow> string" where
  "segment_path outDir line = (if IsAbs line then line else path_join outDir line)"

definition emitNewLines :: "string \<Rightarrow> nat \<Rightarrow> string option \<Rightarrow> string list \<times> nat" where
  "emitNewLines outDir sent file = (case file of
       None \<Rightarrow> ([], sent)
     | Some txt \<Rightarrow>
        (let ls = scan_lines txt
         in if length ls \<le> sent then ([], sent)
            else (map (segment_path outDir) (drop sent ls), length ls)))"

definition WatchSegments :: "string \<Rightarrow> string option list \<Rightarrow> string list" where
  "WatchSegments outDir reads = fst (feed (emitNewLines outDir) 0 reads)"

section \<open>The HLS playlist\<close>

record HLSFragmentEvent =
  Path :: string
  IsInit :: bool
  Epoch :: int
  Duration :: duration

text \<open>\<open>strings.Index\<close>-based: the text between \<open>URI="\<close> and the next quote.\<close>

fun index_of :: "string \<Rightarrow> string \<Rightarrow> nat option" where
  "index_of p s = (if prefix p s then Some 0 else
     (case s of [] \<Rightarrow> None | _ # s' \<Rightarrow> map_option Suc (index_of p s')))"

declare index_of.simps [simp del]

definition parseHLSMapURI :: "string \<Rightarrow> string" where
  "parseHLSMapURI line = (case index_of ''URI=\"'' line of
       None \<Rightarrow> []
     | Some i \<Rightarrow> (let rest = drop (i + 5) line
                  in case index_of ''\"'' rest of None \<Rightarrow> [] | Some e \<Rightarrow> take e rest))"

text \<open>
  \<open>strconv.ParseFloat\<close> on plain decimals (what ffmpeg prints), scaled to nanoseconds and truncated;
  exact arithmetic stands for binary64, which can be off by one nanosecond.  Exponents,
  infinities and hexadecimal floats are outside the model and count as malformed.
\<close>

definition parse_decimal_ns :: "string \<Rightarrow> duration option" where
  "parse_decimal_ns s =
     (let (neg, u) = (case s of c # cs \<Rightarrow> if c = CHR ''-'' then (True, cs)
                        else if c = CHR ''+'' then (False, cs) else (False, s) | [] \<Rightarrow> (False, []));
          (ip, fp) = (case split_on CHR ''.'' u of [a] \<Rightarrow> (a, []) | [a, b] \<Rightarrow> (a, b) | _ \<Rightarrow> (''x'', []));
          m = int (digits_val (ip @ fp)) * second div 10 ^ length fp
      in if ip @ fp = [] \<or> \<not> list_all is_digit (ip @ fp) then None
         else Some (if neg then - m else m))"

definition parseHLSExtinfDuration :: "string \<Rightarrow> duration" where
  "parseHLSExtinfDuration line =
     (let rest = takeWhile (\<lambda>c. c \<noteq> CHR '','') (TrimPrefix line ''#EXTINF:'')
      in case parse_decimal_ns rest of None \<Rightarrow> 0 | Some d \<Rightarrow> d)"

text \<open>The scan: the first map URI, the fragments with the duration announced before each.\<close>

fun scan_playlist :: "string list \<Rightarrow> string \<Rightarrow> duration \<Rightarrow> string \<times> (string \<times> duration) list" where
  "scan_playlist [] initURI pend = (initURI, [])"
| "scan_playlist (line # ls) initURI pend =
     (if initURI = [] \<and> HasPrefix line ''#EXT-X-MAP:'' then scan_playlist ls (parseHLSMapURI line) pend
      else if HasPrefix line ''#EXTINF:'' then scan_playlist ls initURI (parseHLSExtinfDuration line)
      else if HasPrefix line ''#'' then scan_playlist ls initURI pend
      else (let (i, fs) = scan_playlist ls initURI 0 in (i, (line, pend) # fs)))"

record hlsCursor =
  sentInit :: bool
  sentFrags :: nat

definition frag_event :: "string \<Rightarrow> int \<Rightarrow> string \<times> duration \<Rightarrow> HLSFragmentEvent" where
  "frag_event hlsDir epoch e =
     \<lparr>Path = path_join hlsDir (fst e), IsInit = False, Epoch = epoch, Duration = snd e\<rparr>"

text \<open>A tick sees the playlist text and which files exist (\<open>os.Stat\<close>).\<close>

definition emitNewHLSEntries :: "string \<Rightarrow> int \<Rightarrow> hlsCursor \<Rightarrow> string option \<times> (string \<Rightarrow> bool)
    \<Rightarrow> HLSFragmentEvent list \<times> hlsCursor" where
  "emitNewHLSEntries hlsDir epoch cur tick = (case fst tick of
       None \<Rightarrow> ([], cur)
     | Some txt \<Rightarrow>
        (let (initURI, frags) = scan_playlist (scan_lines txt) [] 0;
             initPath = path_join hlsDir initURI;
             fire = (\<not> sentInit cur \<and> initURI \<noteq> [] \<and> snd tick initPath);
             evI = (if fire then [\<lparr>Path = initPath, IsInit = True, Epoch = epoch, Duration = 0\<rparr>] else []);
             cur1 = (if fire then cur\<lparr>sentInit := True\<rparr> else cur)
         in if length frags \<le> sentFrags cur1 then (evI, cur1)
            else (evI @ map (frag_event hlsDir epoch) (drop (sentFrags cur1) frags),
                  cur1\<lparr>sentFrags := length frags\<rparr>)))"

definition WatchHLSFragments :: "string \<Rightarrow> int \<Rightarrow> (string option \<times> (string \<Rightarrow> bool)) list
    \<Rightarrow> HLSFragmentEvent list" where
  "WatchHLSFragments hlsDir epoch ticks =
     fst (feed (emitNewHLSEntries hlsDir epoch) \<lparr>sentInit = False, sentFrags = 0\<rparr> ticks)"

section \<open>The tail contract\<close>

text \<open>
  What both watchers promise: the payload of a tick is the part of the source's entries beyond a
  counter, which then stands at their number.  \<open>entries\<close> reads the source at a tick, \<open>keep\<close> selects
  the emitted items that are entries.
\<close>

locale tail_source =
  fixes emit :: "'st \<Rightarrow> 'tick \<Rightarrow> 'o list \<times> 'st" and entries :: "'tick \<Rightarrow> 'o list"
    and cursor :: "'st \<Rightarrow> nat" and keep :: "'o \<Rightarrow> bool"
  assumes emit_new: "filter keep (fst (emit st t)) = drop (cursor st) (entries t)"
    and emit_cursor: "cursor (snd (emit st t)) = max (cursor st) (length (entries t))"
begin

lemma emit_none: "length (entries t) \<le> cursor st \<Longrightarrow> filter keep (fst (emit st t)) = []"
  by (simp add: emit_new)

text \<open>A source whose entries only grow is emitted exactly once each, in order, none left out.\<close>

lemma tail_complete:
  assumes "sorted_wrt (\<lambda>a b. prefix (entries a) (entries b)) ts" and "ts \<noteq> []"
    and "cursor st \<le> length (entries (hd ts))"
  shows "filter keep (fst (feed emit st ts)) = drop (cursor st) (entries (last ts))"
  using assms
proof (induction ts arbitrary: st)
  case (Cons t ts)
  obtain o1 s1 where e: "emit st t = (o1, s1)" by fastforce
  have o1: "filter keep o1 = drop (cursor st) (entries t)" using emit_new [of st t] e by simp
  have c1: "cursor s1 = length (entries t)" using emit_cursor [of st t] e Cons.prems(3) by simp
  show ?case
  proof (cases "ts = []")
    case True
    then show ?thesis using e o1 by simp
  next
    case False
    then have p: "prefix (entries t) (entries (hd ts))" "prefix (entries t) (entries (last ts))"
      using Cons.prems(1) by auto
    then have "filter keep (fst (feed emit s1 ts)) = drop (length (entries t)) (entries (last ts))"
      using Cons.IH [of s1] Cons.prems(1) False c1 by (simp add: prefix_length_le)
    moreover have "drop (cursor st) (entries (last ts))
        = drop (cursor st) (entries t) @ drop (length (entries t)) (entries (last ts))"
      using p(2) Cons.prems(3) by (auto elim!: prefixE)
    ultimately show ?thesis using e o1 False by (simp add: split_beta)
  qed
qed simp

end

definition list_entries :: "string \<Rightarrow> string option \<Rightarrow> string list" where
  "list_entries outDir f = (case f of None \<Rightarrow> [] | Some txt \<Rightarrow> map (segment_path outDir) (scan_lines txt))"

definition hls_entries :: "string \<Rightarrow> int \<Rightarrow> string option \<times> (string \<Rightarrow> bool) \<Rightarrow> HLSFragmentEvent list" where
  "hls_entries hlsDir epoch t = (case fst t of None \<Rightarrow> []
     | Some txt \<Rightarrow> map (frag_event hlsDir epoch) (snd (scan_playlist (scan_lines txt) [] 0)))"

interpretation segw: tail_source "emitNewLines outDir" "list_entries outDir" id "\<lambda>_. True"
  by unfold_locales
     (auto simp: emitNewLines_def list_entries_def Let_def drop_map split: option.splits)

lemma frag_event_media [simp]: "\<not> IsInit (frag_event d e x)"
  by (simp add: frag_event_def)

lemma filter_frag_events [simp]:
  "filter (Not \<circ> IsInit) (map (frag_event d e) xs) = map (frag_event d e) xs"
  by (induction xs) simp_all

interpretation hlsw: tail_source "emitNewHLSEntries hlsDir epoch" "hls_entries hlsDir epoch"
    sentFrags "Not \<circ> IsInit"
  by unfold_locales
     (auto simp: emitNewHLSEntries_def hls_entries_def Let_def drop_map split_beta split: option.splits)

text \<open>
  \<open>WatchSegments\<close> delivers every line ffmpeg appends to the segment list exactly once, in order
  and resolved against the output directory, provided the lines seen only grow; the read after
  cancellation included, so nothing written before it is lost.
\<close>

theorem watch_segments_complete:
  assumes "sorted_wrt (\<lambda>a b. prefix (list_entries outDir a) (list_entries outDir b)) reads"
    and "reads \<noteq> []"
  shows "WatchSegments outDir reads = list_entries outDir (last reads)"
  using segw.tail_complete [of outDir reads 0] assms by (simp add: WatchSegments_def)

lemma watch_segments_complete_witness:
  "WatchSegments ''/t'' [None, Some ''0000.mp4\<newline>'', Some ''0000.mp4\<newline>/x/0001.mp4\<newline>'']
     = [''/t/0000.mp4'', ''/x/0001.mp4'']"
  using watch_segments_complete [of "''/t''" "[None, Some ''0000.mp4\<newline>'', Some ''0000.mp4\<newline>/x/0001.mp4\<newline>'']"]
  by (simp add: list_entries_def segment_path_def scan_lines_def TrimSpace_def is_space_def IsAbs_def
      path_join_def)

text \<open>The init segment: announced at most once over a watcher's life.\<close>

lemma hls_init_once_aux:
  "length (filter IsInit (fst (feed (emitNewHLSEntries d e) cur ticks))) \<le> (if sentInit cur then 0 else 1)"
proof (induction ticks arbitrary: cur)
  case (Cons t ticks)
  obtain o1 c1 where s: "emitNewHLSEntries d e cur t = (o1, c1)" by fastforce
  have "filter IsInit (map (frag_event d e) xs) = []" for xs by (induction xs) simp_all
  then have "length (filter IsInit o1) + (if sentInit c1 then 0 else 1) \<le> (if sentInit cur then 0 else 1)"
    using s by (auto simp: emitNewHLSEntries_def Let_def split_beta split: option.splits if_splits)
  with Cons.IH [of c1] show ?case using s by (simp add: split_beta)
qed simp

text \<open>
  \<open>WatchHLSFragments\<close> announces each media fragment of a growing playlist exactly once, in order,
  with the duration of its own \<open>#EXTINF\<close> line, and the init segment at most once.
\<close>

theorem watch_hls_complete:
  assumes "sorted_wrt (\<lambda>a b. prefix (hls_entries hlsDir epoch a) (hls_entries hlsDir epoch b)) ticks"
    and "ticks \<noteq> []"
  shows "filter (Not \<circ> IsInit) (WatchHLSFragments hlsDir epoch ticks) = hls_entries hlsDir epoch (last ticks)
     \<and> length (filter IsInit (WatchHLSFragments hlsDir epoch ticks)) \<le> 1"
  using hlsw.tail_complete [of hlsDir epoch ticks "\<lparr>sentInit = False, sentFrags = 0\<rparr>"] assms
    hls_init_once_aux [of hlsDir epoch "\<lparr>sentInit = False, sentFrags = 0\<rparr>" ticks]
  by (simp add: WatchHLSFragments_def comp_def)

lemma watch_hls_complete_witness:
  "length (filter IsInit (WatchHLSFragments ''/h'' 1 [(None, \<lambda>_. True), (Some ''a.m4s'', \<lambda>_. True)])) \<le> 1"
  using watch_hls_complete [of "''/h''" 1 "[(None, \<lambda>_. True), (Some ''a.m4s'', \<lambda>_. True)]"]
  by (simp add: hls_entries_def)

end
