(* ===== verification/Attempts.thy ===== *)
theory Attempts
  imports Supervisor Watchers
begin

text \<open>
  What comes out of a supervised recording (\<open>internal/recorder/supervisor.go\<close>): \<open>forwardSegments\<close> and \<open>forwardHLSFragments\<close> pass on what the watchers
  report of one attempt, \<open>run\<close> puts the attempts one after the other.  The restart policy is \<^const>\<open>supervise_step\<close>; here it meets what ffmpeg wrote.
\<close>

section \<open>One attempt\<close>

definition attempt_dir :: "string \<Rightarrow> int \<Rightarrow> string" where
  "attempt_dir base n = path_join base (''attempt-'' @ Itoa n)"

text \<open>The texts of the segment list seen until the process is gone, and the one read after that; what is sent, and \<open>producedAny\<close>.\<close>

definition forwardSegments :: "string \<Rightarrow> string option list \<Rightarrow> string list \<times> bool" where
  "forwardSegments dir reads = (let paths = WatchSegments dir reads in (paths, paths \<noteq> []))"

definition forwardHLSFragments :: "string \<Rightarrow> int \<Rightarrow> (string option \<times> (string \<Rightarrow> bool)) list \<Rightarrow> HLSFragmentEvent list" where
  "forwardHLSFragments hdir n ticks = (if hdir = [] then [] else WatchHLSFragments hdir n ticks)"

definition hls_dir :: "bool \<Rightarrow> string \<Rightarrow> string" where
  "hls_dir enabled dir = (if enabled then path_join dir ''hls'' else [])"

text \<open>How an attempt goes: what its files show, and how it ends (whether it produced anything is decided here).\<close>

record attemptInput =
  ai_reads :: "string option list"
  ai_ticks :: "(string option \<times> (string \<Rightarrow> bool)) list"
  ai_end :: attemptEnd

fun supervised :: "int \<Rightarrow> string \<Rightarrow> bool \<Rightarrow> attemptInput list \<Rightarrow> runState \<Rightarrow> string list \<times> HLSFragmentEvent list \<times> verdict \<times> runState" where
  "supervised m base hls [] s = ([], [], Running, s)"
| "supervised m base hls (a # as) s =
     (let dir = attempt_dir base (attempt s);
          (segs, produced) = forwardSegments dir (ai_reads a);
          frags = forwardHLSFragments (hls_dir hls dir) (attempt s) (ai_ticks a)
      in case supervise_step m ((ai_end a)\<lparr>producedAny := produced\<rparr>) s of
           (Running, s1) \<Rightarrow> (let (segs', frags', v, s2) = supervised m base hls as s1 in (segs @ segs', frags @ frags', v, s2))
         | (v, s1) \<Rightarrow> (segs, frags, v, s1))"

section \<open>What the consumers see\<close>

text \<open>The lines ffmpeg had completed when a file was read.\<close>

definition lines_of :: "string option \<Rightarrow> string list" where
  "lines_of f = (case f of None \<Rightarrow> [] | Some txt \<Rightarrow> scan_lines txt)"

definition grows :: "attemptInput \<Rightarrow> bool" where
  "grows a \<longleftrightarrow> ai_reads a \<noteq> [] \<and> sorted_wrt (\<lambda>x y. prefix (lines_of x) (lines_of y)) (ai_reads a)"

definition written :: "attemptInput \<Rightarrow> string list" where
  "written a = lines_of (last (ai_reads a))"

definition judged :: "attemptInput \<Rightarrow> attemptEnd" where
  "judged a = (ai_end a)\<lparr>producedAny := (written a \<noteq> [])\<rparr>"

lemma list_entries_lines: "list_entries dir f = map (segment_path dir) (lines_of f)"
  by (simp add: list_entries_def lines_of_def split: option.split)

lemma forward_written:
  assumes "grows a"
  shows "forwardSegments dir (ai_reads a) = (map (segment_path dir) (written a), written a \<noteq> [])"
proof -
  have "sorted_wrt (\<lambda>x y. prefix (list_entries dir x) (list_entries dir y)) (ai_reads a)"
    using assms unfolding grows_def list_entries_lines by (auto elim: sorted_wrt_mono_rel [rotated] intro: map_mono_prefix)
  then have "WatchSegments dir (ai_reads a) = list_entries dir (last (ai_reads a))"
    using assms segw.tail_complete [of dir "ai_reads a" 0] by (simp add: WatchSegments_def grows_def)
  then show ?thesis by (simp add: forwardSegments_def list_entries_lines written_def)
qed

lemma emit_epoch: "\<forall>e \<in> set (fst (emitNewHLSEntries d n cur t)). Epoch e = n"
  by (auto simp: emitNewHLSEntries_def frag_event_def Let_def split_beta split: option.splits)

lemma forward_epoch: "\<forall>e \<in> set (forwardHLSFragments d n ticks). Epoch e = n"
proof -
  have "\<forall>e \<in> set (fst (feed (emitNewHLSEntries d n) cur ticks)). Epoch e = n" for cur
  proof (induction ticks arbitrary: cur)
    case (Cons t ts)
    then show ?case using emit_epoch [of d n cur t] by (auto simp: split_beta Let_def)
  qed simp
  then show ?thesis by (simp add: forwardHLSFragments_def WatchHLSFragments_def)
qed

text \<open>The paths of the first \<open>k\<close> attempts, numbered from \<open>n\<close>.\<close>

definition recorded :: "string \<Rightarrow> int \<Rightarrow> attemptInput list \<Rightarrow> string list" where
  "recorded base n as = concat (map (\<lambda>i. map (segment_path (attempt_dir base (n + int i))) (written (as ! i))) [0..<length as])"

lemma recorded_Nil [simp]: "recorded base n [] = []"
  by (simp add: recorded_def)

lemma recorded_Cons:
  "recorded base n (a # as) = map (segment_path (attempt_dir base n)) (written a) @ recorded base (n + 1) as"
proof -
  have u: "[0..<length (a # as)] = 0 # map Suc [0..<length as]" by (simp del: upt.simps add: map_Suc_upt upt_conv_Cons)
  show ?thesis by (simp only: recorded_def u) (simp add: comp_def algebra_simps)
qed

lemma step_running_attempt: "supervise_step m e s = (Running, s1) \<Longrightarrow> attempt s1 = attempt s + 1"
  by (auto simp: supervise_step_def Let_def split: if_splits)

lemma supervised_spec:
  assumes "\<forall>a \<in> set as. grows a" and "supervised m base hls as s = (segs, frags, v, s')"
  shows "run m (map judged as) s = (v, s')
    \<and> (\<exists>k \<le> length as. segs = recorded base (attempt s) (take k as) \<and> (v = Running \<longrightarrow> k = length as)
        \<and> (\<forall>j < k. fst (run m (map judged (take j as)) s) = Running)
        \<and> (v \<noteq> Running \<longrightarrow> fst (run m (map judged (take k as)) s) \<noteq> Running)
        \<and> sorted (map Epoch frags) \<and> Epoch ` set frags \<subseteq> {attempt s..<attempt s + int k})"
  using assms
proof (induction as arbitrary: s segs frags)
  case Nil
  then show ?case by simp
next
  case (Cons a as)
  let ?d = "attempt_dir base (attempt s)"
  have w: "forwardSegments ?d (ai_reads a) = (map (segment_path ?d) (written a), written a \<noteq> [])"
    using Cons.prems(1) by (simp add: forward_written)
  define fr where "fr = forwardHLSFragments (hls_dir hls ?d) (attempt s) (ai_ticks a)"
  have ep: "\<forall>e \<in> set fr. Epoch e = attempt s" unfolding fr_def by (rule forward_epoch)
  then have so: "sorted (map Epoch fr)" by (simp add: sorted_wrt_map sorted_wrt_iff_nth_less)
  obtain v1 s1 where st: "supervise_step m (judged a) s = (v1, s1)" by fastforce
  have st': "supervise_step m ((ai_end a)\<lparr>producedAny := written a \<noteq> []\<rparr>) s = (v1, s1)" using st by (simp add: judged_def)
  show ?case
  proof (cases "v1 = Running")
    case True
    obtain segs1 frags1 where r: "supervised m base hls as s1 = (segs1, frags1, v, s')"
        "segs = map (segment_path ?d) (written a) @ segs1" "frags = fr @ frags1"
      using Cons.prems(2) w st' True by (auto simp: Let_def fr_def split: prod.splits)
    have n: "attempt s1 = attempt s + 1" using st True by (simp add: step_running_attempt)
    obtain k where k: "run m (map judged as) s1 = (v, s')" "k \<le> length as" "segs1 = recorded base (attempt s1) (take k as)"
        "v = Running \<longrightarrow> k = length as" "\<forall>j < k. fst (run m (map judged (take j as)) s1) = Running"
        "v \<noteq> Running \<longrightarrow> fst (run m (map judged (take k as)) s1) \<noteq> Running" "sorted (map Epoch frags1)"
        "Epoch ` set frags1 \<subseteq> {attempt s1..<attempt s1 + int k}"
      using Cons.IH [OF _ r(1)] Cons.prems(1) by auto
    have "\<forall>j < Suc k. fst (run m (map judged (take j (a # as))) s) = Running"
      using k(5) st True by (auto simp: take_Cons' less_Suc_eq_0_disj)
    moreover have "sorted (map Epoch frags)"
      using so k(7,8) ep n unfolding r(3) by (auto simp: sorted_append)
    moreover have "Epoch ` set frags \<subseteq> {attempt s..<attempt s + int (Suc k)}"
      using k(8) ep n unfolding r(3) by auto
    ultimately have "Suc k \<le> length (a # as) \<and> segs = recorded base (attempt s) (take (Suc k) (a # as)) \<and> (v = Running \<longrightarrow> Suc k = length (a # as))
        \<and> (\<forall>j < Suc k. fst (run m (map judged (take j (a # as))) s) = Running)
        \<and> (v \<noteq> Running \<longrightarrow> fst (run m (map judged (take (Suc k) (a # as))) s) \<noteq> Running)
        \<and> sorted (map Epoch frags) \<and> Epoch ` set frags \<subseteq> {attempt s..<attempt s + int (Suc k)}"
      using k(2-4,6) r(2) st True n by (simp add: recorded_Cons)
    moreover have "run m (map judged (a # as)) s = (v, s')" using k(1) st True by simp
    ultimately show ?thesis by blast
  next
    case False
    then have r: "segs = map (segment_path ?d) (written a)" "frags = fr" "v = v1" "s' = s1"
      using Cons.prems(2) w st' by (auto simp: Let_def fr_def split: verdict.splits)
    have "1 \<le> length (a # as) \<and> segs = recorded base (attempt s) (take 1 (a # as)) \<and> (v = Running \<longrightarrow> 1 = length (a # as))
        \<and> (\<forall>j < 1. fst (run m (map judged (take j (a # as))) s) = Running)
        \<and> (v \<noteq> Running \<longrightarrow> fst (run m (map judged (take 1 (a # as))) s) \<noteq> Running)
        \<and> sorted (map Epoch frags) \<and> Epoch ` set frags \<subseteq> {attempt s..<attempt s + int 1}"
      using False so ep st r by (auto simp: recorded_Cons split: verdict.splits)
    moreover have "run m (map judged (a # as)) s = (v, s')" using False st r by (simp split: verdict.splits)
    ultimately show ?thesis by blast
  qed
qed

section \<open>Paths of different attempts\<close>

lemma path_join_inject:
  assumes "path_join d f = path_join e g" and "d \<noteq> []" "e \<noteq> []" and "f \<noteq> []" "g \<noteq> []" and "CHR ''/'' \<notin> set f" "CHR ''/'' \<notin> set g"
  shows "d = e \<and> f = g"
proof -
  have "f = g" using assms by (metis path_base_join)
  with assms(1-4) show ?thesis by (simp add: path_join_def)
qed

lemma attempt_dir_inject: "attempt_dir base i = attempt_dir base j \<Longrightarrow> i = j"
  by (auto simp: attempt_dir_def path_join_def dest: Itoa_inject split: if_splits)

lemma attempt_dir_nonempty [simp]: "attempt_dir base n \<noteq> []"
  by (simp add: attempt_dir_def path_join_def)

lemma written_nonempty: "l \<in> set (written a) \<Longrightarrow> l \<noteq> []"
  by (auto simp: written_def lines_of_def scan_lines_def split: option.splits)

definition plain :: "attemptInput \<Rightarrow> bool" where
  "plain a \<longleftrightarrow> distinct (written a) \<and> list_all (\<lambda>l. CHR ''/'' \<notin> set l) (written a)"

lemma plain_path:
  assumes "plain a" and "l \<in> set (written a)"
  shows "segment_path d l = path_join d l"
  using assms written_nonempty [OF assms(2)] by (cases l) (auto simp: plain_def segment_path_def IsAbs_def list_all_iff)

lemma plain_inject:
  assumes "plain a" "plain b" and "l \<in> set (written a)" "r \<in> set (written b)"
    and "segment_path (attempt_dir base i) l = segment_path (attempt_dir base j) r"
  shows "i = j \<and> l = r"
proof -
  have "attempt_dir base i = attempt_dir base j \<and> l = r"
    using assms written_nonempty [OF assms(3)] written_nonempty [OF assms(4)]
    by (intro path_join_inject) (auto simp: plain_path plain_def list_all_iff)
  then show ?thesis by (auto dest: attempt_dir_inject)
qed

lemma recorded_member:
  "p \<in> set (recorded base n as) \<Longrightarrow> \<exists>i < length as. \<exists>l \<in> set (written (as ! i)). p = segment_path (attempt_dir base (n + int i)) l"
  by (auto simp: recorded_def)

lemma recorded_distinct: "\<forall>a \<in> set as. plain a \<Longrightarrow> distinct (recorded base n as)"
proof (induction as arbitrary: n)
  case (Cons a as)
  then have a: "plain a" by simp
  have "inj_on (segment_path (attempt_dir base n)) (set (written a))"
    by (rule inj_onI) (auto dest: plain_inject [OF a a])
  then have "distinct (map (segment_path (attempt_dir base n)) (written a))" using a by (simp add: distinct_map plain_def)
  moreover have "set (map (segment_path (attempt_dir base n)) (written a)) \<inter> set (recorded base (n + 1) as) = {}"
  proof (rule ccontr)
    assume "\<not> ?thesis"
    then obtain l p where l: "l \<in> set (written a)" "p = segment_path (attempt_dir base n) l" "p \<in> set (recorded base (n + 1) as)" by auto
    from recorded_member [OF l(3)] obtain i r where i: "i < length as" "r \<in> set (written (as ! i))"
        "p = segment_path (attempt_dir base (n + 1 + int i)) r" by auto
    have "plain (as ! i)" using Cons.prems i(1) by simp
    from plain_inject [OF a this l(1) i(2)] l(2) i(3) show False by fastforce
  qed
  ultimately show ?case using Cons by (simp add: recorded_Cons)
qed simp


definition crashed :: attemptInput where
  "crashed = \<lparr>ai_reads = [None, Some ''0000.mp4\<newline>''], ai_ticks = [],
     ai_end = \<lparr>producedAny = False, wasStopped = False, stopClosed = False, stopInBackoff = False, restartFails = False\<rparr>\<rparr>"

definition finished :: attemptInput where
  "finished = \<lparr>ai_reads = [Some ''0000.mp4\<newline>0001.mp4\<newline>''], ai_ticks = [],
     ai_end = \<lparr>producedAny = False, wasStopped = True, stopClosed = False, stopInBackoff = False, restartFails = False\<rparr>\<rparr>"


end
