(* ===== verification/AlertRoute.thy ===== *)
theory AlertRoute
  imports Threads "HOL-Library.Sublist"
begin

text \<open>
  The way of an alert from Redis to a monitor's socket: \<open>SubscribeAlerts\<close> of \<open>internal/transport/webrtc/broadcaster.go\<close> for each session,
  \<open>newAlertFanIn\<close> and the use \<open>ServeMonitor\<close> makes of them in \<open>handler.go\<close>.  The goroutines of one connection are interleaved; what an alert says does not
  matter here, so alerts are values of any type and \<open>msgs\<close> is what decoding the next message may give (\<^const>\<open>None\<close>: it is no alert).
\<close>

section \<open>One session's subscription\<close>

text \<open>
  The buffered channel of a subscription and whether it was closed.  The histories: the alerts received, those put into the channel, how many met a full
  channel, and those the fan-in took out.
\<close>

record 'a alertSource =
  so_buf :: "'a list"
  so_closed :: bool
  so_received :: "'a list"
  so_kept :: "'a list"
  so_dropped :: nat
  so_taken :: "'a list"

definition alertBuffer :: nat where "alertBuffer = 16"
definition fanInBuffer :: nat where "fanInBuffer = 32"

definition source_start :: "'a alertSource" where
  "source_start = \<lparr>so_buf = [], so_closed = False, so_received = [], so_kept = [], so_dropped = 0, so_taken = []\<rparr>"

definition receive_alert :: "'a \<Rightarrow> 'a alertSource \<Rightarrow> 'a alertSource" where
  "receive_alert a src = (let src1 = src\<lparr>so_received := so_received src @ [a]\<rparr> in
     if length (so_buf src) < alertBuffer then src1\<lparr>so_buf := so_buf src @ [a], so_kept := so_kept src @ [a]\<rparr>
     else src1\<lparr>so_dropped := so_dropped src + 1\<rparr>)"

definition close_source :: "'a alertSource \<Rightarrow> 'a alertSource" where
  "close_source src = src\<lparr>so_closed := True\<rparr>"

section \<open>The connection\<close>

text \<open>
  \<open>rt_seen\<close> is \<open>seenSessions\<close>, \<open>rt_out\<close> the fan-in's channel, \<open>rt_through\<close> all that was ever put into it, \<open>rt_written\<close> what reached the socket.
\<close>

record 'a alertRoute =
  rt_seen :: "string list"
  rt_src :: "string \<Rightarrow> 'a alertSource"
  rt_out :: "(string \<times> 'a) list"
  rt_cancelled :: bool
  rt_through :: "(string \<times> 'a) list"
  rt_written :: "(string \<times> 'a) list"

definition route_start :: "'a alertRoute" where
  "route_start = \<lparr>rt_seen = [], rt_src = (\<lambda>_. source_start), rt_out = [], rt_cancelled = False, rt_through = [], rt_written = []\<rparr>"

definition on_source :: "string \<Rightarrow> ('a alertSource \<Rightarrow> 'a alertSource) \<Rightarrow> 'a alertRoute \<Rightarrow> 'a alertRoute" where
  "on_source i f s = s\<lparr>rt_src := (rt_src s)(i := f (rt_src s i))\<rparr>"

text \<open>\<open>AddSession\<close> is \<open>subscribeSession\<close>; \<open>Receive\<close> the goroutine of \<open>SubscribeAlerts\<close>; \<open>TakeInput\<close> and \<open>Offer\<close> that of \<open>add\<close>; \<open>MonitorWrite\<close> the write loop.\<close>

datatype 'a alertRoutine = AddSession string | Receive string | TakeInput string | Offer string 'a | MonitorWrite | Disconnect

definition receive_act :: "'a option list \<Rightarrow> 'a alertRoute \<Rightarrow> string \<Rightarrow> ('a alertRoute \<times> 'a alertRoutine list) list" where
  "receive_act msgs s i = (on_source i close_source s, [])
     # map (\<lambda>m. case m of None \<Rightarrow> (s, [Receive i]) | Some a \<Rightarrow> (on_source i (receive_alert a) s, [Receive i])) msgs"

definition take_act :: "'a alertRoute \<Rightarrow> string \<Rightarrow> ('a alertRoute \<times> 'a alertRoutine list) list" where
  "take_act s i = (if rt_cancelled s then [(s, [])] else [])
     @ (case so_buf (rt_src s i) of
          [] \<Rightarrow> if so_closed (rt_src s i) then [(s, [])] else []
        | a # rest \<Rightarrow> [(on_source i (\<lambda>src. src\<lparr>so_buf := rest, so_taken := so_taken src @ [a]\<rparr>) s, [Offer i a])])"

definition offer_act :: "'a alertRoute \<Rightarrow> string \<Rightarrow> 'a \<Rightarrow> ('a alertRoute \<times> 'a alertRoutine list) list" where
  "offer_act s i a = (if rt_cancelled s then [(s, [])] else [])
     @ (if length (rt_out s) < fanInBuffer
        then [(s\<lparr>rt_out := rt_out s @ [(i, a)], rt_through := rt_through s @ [(i, a)]\<rparr>, [TakeInput i])] else [])"

text \<open>A write that fails ends the connection.\<close>

definition write_act :: "'a alertRoute \<Rightarrow> ('a alertRoute \<times> 'a alertRoutine list) list" where
  "write_act s = (if rt_cancelled s then [(s, [])] else [])
     @ (case rt_out s of [] \<Rightarrow> []
        | x # rest \<Rightarrow> [(s\<lparr>rt_out := rest, rt_written := rt_written s @ [x]\<rparr>, [MonitorWrite]),
             (s\<lparr>rt_out := rest, rt_cancelled := True\<rparr>, [])])"

fun route_act :: "'a option list \<Rightarrow> ('a alertRoute, 'a alertRoutine) action" where
  "route_act msgs s (AddSession i) =
     (if i = [] \<or> i \<in> set (rt_seen s) then [(s, [])] else [(s\<lparr>rt_seen := rt_seen s @ [i]\<rparr>, [Receive i, TakeInput i])])"
| "route_act msgs s (Receive i) = receive_act msgs s i"
| "route_act msgs s (TakeInput i) = take_act s i"
| "route_act msgs s (Offer i a) = offer_act s i a"
| "route_act msgs s MonitorWrite = write_act s"
| "route_act msgs s Disconnect = [(s\<lparr>rt_cancelled := True\<rparr>, [])]"

text \<open>Sessions turn up in snapshots and notices, and the socket may go at any time.\<close>

fun route_arrives :: "'a alertRoutine \<Rightarrow> bool" where
  "route_arrives (AddSession i) = True"
| "route_arrives Disconnect = True"
| "route_arrives _ = False"

section \<open>Nothing is reordered, and only a full channel loses an alert\<close>

fun forwarder :: "string \<Rightarrow> 'a alertRoutine \<Rightarrow> nat" where
  "forwarder i (TakeInput j) = of_bool (i = j)"
| "forwarder i (Offer j a) = of_bool (i = j)"
| "forwarder i _ = 0"

fun receiver :: "string \<Rightarrow> 'a alertRoutine \<Rightarrow> nat" where
  "receiver i (Receive j) = of_bool (i = j)"
| "receiver i _ = 0"

fun writer :: "'a alertRoutine \<Rightarrow> nat" where
  "writer MonitorWrite = 1"
| "writer _ = 0"

text \<open>The alerts of one session among those of all.\<close>

definition mine :: "string \<Rightarrow> (string \<times> 'a) list \<Rightarrow> 'a list" where
  "mine i xs = map snd (filter (\<lambda>x. fst x = i) xs)"

lemma mine_simps [simp]:
  "mine i [] = []" "mine i (xs @ ys) = mine i xs @ mine i ys" "mine i [(j, a)] = (if i = j then [a] else [])"
  by (auto simp: mine_def)

fun hand_ok :: "'a alertRoute \<Rightarrow> 'a alertRoutine \<Rightarrow> bool" where
  "hand_ok s (TakeInput i) = (so_taken (rt_src s i) = mine i (rt_through s))"
| "hand_ok s (Offer i a) = (so_taken (rt_src s i) = mine i (rt_through s) @ [a])"
| "hand_ok s _ = True"

definition source_ok :: "bool \<Rightarrow> bool \<Rightarrow> 'a alertSource \<Rightarrow> 'a list \<Rightarrow> nat \<Rightarrow> nat \<Rightarrow> bool" where
  "source_ok cancelled seen src thr f r \<longleftrightarrow>
     so_kept src = so_taken src @ so_buf src \<and> subseq (so_kept src) (so_received src)
     \<and> length (so_received src) = length (so_kept src) + so_dropped src
     \<and> length (so_buf src) \<le> alertBuffer \<and> prefix thr (so_taken src)
     \<and> f \<le> 1 \<and> r \<le> 1 \<and> (so_closed src \<longrightarrow> r = 0)
     \<and> (\<not> cancelled \<and> f = 0 \<longrightarrow> so_buf src = [] \<and> so_taken src = thr \<and> r = 0)
     \<and> (\<not> seen \<longrightarrow> f = 0 \<and> r = 0 \<and> so_taken src = thr \<and> so_buf src = [] \<and> \<not> so_closed src)"

definition route_ok :: "'a alertRoute \<Rightarrow> 'a alertRoutine multiset \<Rightarrow> bool" where
  "route_ok s ts \<longleftrightarrow>
     (\<forall>i. source_ok (rt_cancelled s) (i \<in> set (rt_seen s)) (rt_src s i) (mine i (rt_through s)) (tally (forwarder i) ts) (tally (receiver i) ts))
     \<and> (\<forall>t \<in># ts. hand_ok s t)
     \<and> length (rt_out s) \<le> fanInBuffer \<and> prefix (rt_written s) (rt_through s)
     \<and> tally writer ts \<le> 1 \<and> (tally writer ts = 0 \<longrightarrow> rt_cancelled s)
     \<and> (tally writer ts = 1 \<longrightarrow> rt_through s = rt_written s @ rt_out s)"

lemma route_source:
  "route_ok s ts \<Longrightarrow> source_ok (rt_cancelled s) (i \<in> set (rt_seen s)) (rt_src s i) (mine i (rt_through s)) (tally (forwarder i) ts) (tally (receiver i) ts)"
  by (simp add: route_ok_def)

lemma on_source_simps [simp]:
  "rt_src (on_source i f s) j = (if i = j then f (rt_src s i) else rt_src s j)"
  "rt_seen (on_source i f s) = rt_seen s" "rt_out (on_source i f s) = rt_out s" "rt_cancelled (on_source i f s) = rt_cancelled s"
  "rt_through (on_source i f s) = rt_through s" "rt_written (on_source i f s) = rt_written s"
  by (simp_all add: on_source_def)

text \<open>What one goroutine does to its own source leaves the others' hands alone.\<close>

lemma hand_ok_other:
  assumes "hand_ok s t" and "forwarder i t = 0" and "\<And>j. j \<noteq> i \<Longrightarrow> so_taken (rt_src s' j) = so_taken (rt_src s j)"
    and "\<And>j. j \<noteq> i \<Longrightarrow> mine j (rt_through s') = mine j (rt_through s)"
  shows "hand_ok s' t"
  using assms by (cases t) (auto split: if_splits)

lemma hand_ok_same:
  assumes "hand_ok s t" and "\<And>j. so_taken (rt_src s' j) = so_taken (rt_src s j)" and "rt_through s' = rt_through s"
  shows "hand_ok s' t"
  using assms by (cases t) auto

lemma sole_forwarder:
  assumes "route_ok s (add_mset t ts)" and "forwarder i t = 1" and "u \<in># ts"
  shows "forwarder i u = 0"
proof -
  have "tally (forwarder i) (add_mset t ts) \<le> 1" using route_source [OF assms(1), of i] by (simp add: source_ok_def)
  then have "tally (forwarder i) ts = 0" using assms(2) by simp
  with assms(3) show ?thesis by (simp add: tally_zero del: sum_mset_0_iff)
qed

section \<open>Steps\<close>

lemma subseq_snoc: "subseq xs ys \<Longrightarrow> subseq xs (ys @ [a])"
  by (metis append_Nil2 list_emb_append_mono list_emb_Nil)

lemma subseq_both: "subseq (xs @ ys) zs \<Longrightarrow> subseq (xs @ ys @ [a]) (zs @ [a])"
  by (metis append_assoc subseq_append)

lemma source_receive:
  assumes "source_ok c seen src thr f r" and "r = 1"
  shows "source_ok c seen (receive_alert a src) thr f r"
  using assms by (auto simp: source_ok_def receive_alert_def Let_def subseq_both subseq_snoc)

lemma source_close:
  assumes "source_ok c seen src thr f (Suc r)"
  shows "source_ok c seen (close_source src) thr f r"
  using assms by (auto simp: source_ok_def close_source_def)

lemma source_take:
  assumes "source_ok c seen src thr f r" and "so_buf src = a # rest" and "f = 1"
  shows "source_ok c seen (src\<lparr>so_buf := rest, so_taken := so_taken src @ [a]\<rparr>) thr f r"
  using assms by (auto simp: source_ok_def)

lemma route_receive:
  assumes "route_ok s (add_mset (Receive i) ts)" and "(s', new) \<in> set (receive_act msgs s i)"
  shows "route_ok s' (mset new + ts)"
proof -
  note src = route_source [OF assms(1)]
  consider (close) "s' = on_source i close_source s" "new = []" | (junk) "s' = s" "new = [Receive i]"
    | (alert) a where "s' = on_source i (receive_alert a) s" "new = [Receive i]"
    using assms(2) by (auto simp: receive_act_def split: option.splits)
  then show ?thesis
  proof cases
    case close
    have "hand_ok s' t" if "t \<in># ts" for t
      by (rule hand_ok_same [of s]) (use assms(1) that close in \<open>auto simp: route_ok_def close_source_def\<close>)
    moreover have "source_ok (rt_cancelled s') (j \<in> set (rt_seen s')) (rt_src s' j) (mine j (rt_through s')) (tally (forwarder j) ts) (tally (receiver j) ts)" for j
      using src [of j] close by (auto intro: source_close)
    ultimately show ?thesis using assms(1) close by (simp add: route_ok_def)
  next
    case junk
    then show ?thesis using assms(1) by simp
  next
    case alert
    have "hand_ok s' t" if "t \<in># add_mset (Receive i) ts" for t
      by (rule hand_ok_same [of s]) (use assms(1) that alert in \<open>auto simp: route_ok_def receive_alert_def Let_def\<close>)
    moreover have "source_ok (rt_cancelled s') (j \<in> set (rt_seen s')) (rt_src s' j) (mine j (rt_through s')) (tally (forwarder j) (add_mset (Receive i) ts))
        (tally (receiver j) (add_mset (Receive i) ts))" for j
    proof -
      have "tally (receiver i) (add_mset (Receive i) ts) = 1" using src [of i] by (simp add: source_ok_def del: sum_mset_0_iff)
      then show ?thesis using source_receive [OF src [of i]] src [of j] alert(1) by (auto simp del: image_mset_add_mset sum_mset.add_mset)
    qed
    ultimately show ?thesis using assms(1) alert by (simp add: route_ok_def)
  qed
qed

lemma route_gone:
  assumes "route_ok s (add_mset t ts)" and "rt_cancelled s" 
  shows "route_ok s ts"
proof -
  have "source_ok (rt_cancelled s) (j \<in> set (rt_seen s)) (rt_src s j) (mine j (rt_through s)) (tally (forwarder j) ts) (tally (receiver j) ts)" for j
    using route_source [OF assms(1), of j] assms(2) by (auto simp: source_ok_def simp del: sum_mset_0_iff)
  moreover have "tally writer ts = 1 \<Longrightarrow> tally writer (add_mset t ts) = 1" using assms(1) by (auto simp: route_ok_def simp del: sum_mset_0_iff)
  ultimately show ?thesis using assms by (auto simp: route_ok_def simp del: sum_mset_0_iff)
qed
lemma route_take:
  assumes "route_ok s (add_mset (TakeInput i) ts)" and "(s', new) \<in> set (take_act s i)"
  shows "route_ok s' (mset new + ts)"
proof -
  note src = route_source [OF assms(1)]
  have one: "tally (forwarder i) (add_mset (TakeInput i) ts) = 1" using src [of i] by (simp add: source_ok_def del: sum_mset_0_iff)
  have taken: "so_taken (rt_src s i) = mine i (rt_through s)" using assms(1) by (simp add: route_ok_def)
  consider (gone) "rt_cancelled s" "s' = s" "new = []"
    | (ended) "so_buf (rt_src s i) = []" "so_closed (rt_src s i)" "s' = s" "new = []"
    | (took) a rest where "so_buf (rt_src s i) = a # rest"
        "s' = on_source i (\<lambda>src. src\<lparr>so_buf := rest, so_taken := so_taken src @ [a]\<rparr>) s" "new = [Offer i a]"
    using assms(2) by (cases "so_buf (rt_src s i)") (auto simp: take_act_def split: if_splits)
  then show ?thesis
  proof cases
    case gone
    then show ?thesis using route_gone [OF assms(1)] by simp
  next
    case ended
    have "source_ok (rt_cancelled s) (j \<in> set (rt_seen s)) (rt_src s j) (mine j (rt_through s)) (tally (forwarder j) ts) (tally (receiver j) ts)" for j
      using src [of j] ended taken by (cases "i = j") (auto simp: source_ok_def simp del: sum_mset_0_iff)
    then show ?thesis using assms(1) ended by (simp add: route_ok_def)
  next
    case took
    have "hand_ok s' t" if "t \<in># ts" for t
      by (rule hand_ok_other [of s _ i]) (use assms(1) that took sole_forwarder [OF assms(1), of i t] in \<open>auto simp: route_ok_def\<close>)
    moreover have "hand_ok s' (Offer i a)" using took taken by simp
    moreover have "source_ok (rt_cancelled s') (j \<in> set (rt_seen s')) (rt_src s' j) (mine j (rt_through s')) (tally (forwarder j) (add_mset (Offer i a) ts))
        (tally (receiver j) (add_mset (Offer i a) ts))" for j
      using source_take [OF src [of i] took(1) one] src [of j] took(2) by (cases "i = j") auto
    ultimately show ?thesis using assms(1) took(2,3) by (simp add: route_ok_def)
  qed
qed

lemma route_offer:
  assumes "route_ok s (add_mset (Offer i a) ts)" and "(s', new) \<in> set (offer_act s i a)"
  shows "route_ok s' (mset new + ts)"
proof -
  note src = route_source [OF assms(1)]
  have taken: "so_taken (rt_src s i) = mine i (rt_through s) @ [a]" using assms(1) by (simp add: route_ok_def)
  consider (gone) "rt_cancelled s" "s' = s" "new = []"
    | (put) "length (rt_out s) < fanInBuffer" "s' = s\<lparr>rt_out := rt_out s @ [(i, a)], rt_through := rt_through s @ [(i, a)]\<rparr>" "new = [TakeInput i]"
    using assms(2) by (auto simp: offer_act_def split: if_splits)
  then show ?thesis
  proof cases
    case gone
    then show ?thesis using route_gone [OF assms(1)] by simp
  next
    case put
    have "hand_ok s' t" if "t \<in># ts" for t
      by (rule hand_ok_other [of s _ i]) (use assms(1) that put sole_forwarder [OF assms(1), of i t] in \<open>auto simp: route_ok_def\<close>)
    moreover have "hand_ok s' (TakeInput i)" using put taken by simp
    moreover have "source_ok (rt_cancelled s') (j \<in> set (rt_seen s')) (rt_src s' j) (mine j (rt_through s')) (tally (forwarder j) (add_mset (TakeInput i) ts))
        (tally (receiver j) (add_mset (TakeInput i) ts))" for j
      using src [of j] taken put(2) by (auto simp: source_ok_def simp del: sum_mset_0_iff)
    moreover have "prefix (rt_written s') (rt_through s')" using assms(1) put(2) by (simp add: route_ok_def)
    ultimately show ?thesis using assms(1) put by (auto simp: route_ok_def simp del: sum_mset_0_iff)
  qed
qed

lemma route_write:
  assumes "route_ok s (add_mset MonitorWrite ts)" and "(s', new) \<in> set (write_act s)"
  shows "route_ok s' (mset new + ts)"
proof -
  note src = route_source [OF assms(1)]
  have through: "rt_through s = rt_written s @ rt_out s" and w: "tally writer ts = 0"
    using assms(1) by (auto simp: route_ok_def simp del: sum_mset_0_iff)
  consider (gone) "rt_cancelled s" "s' = s" "new = []"
    | (wrote) x rest where "rt_out s = x # rest" "s' = s\<lparr>rt_out := rest, rt_written := rt_written s @ [x]\<rparr>" "new = [MonitorWrite]"
    | (failed) x rest where "rt_out s = x # rest" "s' = s\<lparr>rt_out := rest, rt_cancelled := True\<rparr>" "new = []"
    using assms(2) by (cases "rt_out s") (auto simp: write_act_def split: if_splits)
  then show ?thesis
  proof cases
    case gone
    then show ?thesis using route_gone [OF assms(1)] by simp
  next
    case wrote
    have "hand_ok s' t" if "t \<in># ts" for t
      by (rule hand_ok_same [of s]) (use assms(1) that wrote in \<open>auto simp: route_ok_def\<close>)
    moreover have "rt_through s' = rt_written s' @ rt_out s'" using through wrote by simp
    moreover have "source_ok (rt_cancelled s') (j \<in> set (rt_seen s')) (rt_src s' j) (mine j (rt_through s')) (tally (forwarder j) (add_mset MonitorWrite ts))
        (tally (receiver j) (add_mset MonitorWrite ts))" for j
      using src [of j] wrote(2) by simp
    ultimately show ?thesis using assms(1) wrote w by (simp add: route_ok_def del: sum_mset_0_iff)
  next
    case failed
    have "hand_ok s' t" if "t \<in># ts" for t
      by (rule hand_ok_same [of s]) (use assms(1) that failed in \<open>auto simp: route_ok_def\<close>)
    moreover have "source_ok (rt_cancelled s') (j \<in> set (rt_seen s')) (rt_src s' j) (mine j (rt_through s')) (tally (forwarder j) ts) (tally (receiver j) ts)" for j
      using src [of j] failed(2) by (auto simp: source_ok_def simp del: sum_mset_0_iff)
    ultimately show ?thesis using assms(1) failed w by (simp add: route_ok_def del: sum_mset_0_iff)
  qed
qed

lemma route_add:
  assumes "route_ok s (add_mset (AddSession i) ts)" and "(s', new) \<in> set (route_act msgs s (AddSession i))"
  shows "route_ok s' (mset new + ts)"
proof (cases "i = [] \<or> i \<in> set (rt_seen s)")
  case True
  then show ?thesis using assms by (auto simp: route_ok_def)
next
  case False
  then have s': "s' = s\<lparr>rt_seen := rt_seen s @ [i]\<rparr>" "new = [Receive i, TakeInput i]" using assms(2) by auto
  note src = route_source [OF assms(1)]
  have "hand_ok s' t" if "t \<in># ts" for t
    by (rule hand_ok_same [of s]) (use assms(1) that s' in \<open>auto simp: route_ok_def\<close>)
  moreover have "hand_ok s' (TakeInput i)" using src [of i] s' False by (simp add: source_ok_def)
  moreover have "source_ok (rt_cancelled s') (j \<in> set (rt_seen s')) (rt_src s' j) (mine j (rt_through s')) (tally (forwarder j) (mset new + ts))
      (tally (receiver j) (mset new + ts))" for j
    using src [of j] False s' by (auto simp: source_ok_def simp del: sum_mset_0_iff)
  ultimately show ?thesis using assms(1) s' by (auto simp: route_ok_def simp del: sum_mset_0_iff)
qed

lemma route_disconnect:
  assumes "route_ok s (add_mset Disconnect ts)"
  shows "route_ok (s\<lparr>rt_cancelled := True\<rparr>) ts"
proof -
  have "hand_ok (s\<lparr>rt_cancelled := True\<rparr>) t" if "t \<in># ts" for t
    by (rule hand_ok_same [of s]) (use assms that in \<open>auto simp: route_ok_def\<close>)
  moreover have "source_ok True (j \<in> set (rt_seen s)) (rt_src s j) (mine j (rt_through s)) (tally (forwarder j) ts) (tally (receiver j) ts)" for j
    using route_source [OF assms, of j] by (auto simp: source_ok_def)
  ultimately show ?thesis using assms by (simp add: route_ok_def)
qed

lemma route_step:
  assumes "route_ok s (add_mset t ts)" and "(s', new) \<in> set (route_act msgs s t)"
  shows "route_ok s' (mset new + ts)"
proof (cases t)
  case (AddSession i)
  then show ?thesis using route_add assms by blast
next
  case (Receive i)
  then show ?thesis using route_receive [of s i ts s' new msgs] assms by simp
next
  case (TakeInput i)
  then show ?thesis using route_take [of s i ts s' new] assms by simp
next
  case (Offer i a)
  then show ?thesis using route_offer [of s i a ts s' new] assms by simp
next
  case MonitorWrite
  then show ?thesis using route_write [of s ts s' new] assms by simp
next
  case Disconnect
  then show ?thesis using route_disconnect [of s ts] assms by simp
qed

lemma route_arrival: "route_ok s ts \<Longrightarrow> route_arrives t \<Longrightarrow> route_ok s (add_mset t ts)"
  by (cases t) (auto simp: route_ok_def)

interpretation routing: interleaving "route_act msgs" route_arrives route_ok for msgs
  by unfold_locales (auto intro: route_step route_arrival)

lemma route_init: "route_ok route_start {#MonitorWrite#}"
  by (simp add: route_ok_def route_start_def source_ok_def source_start_def)

text \<open>
  C32.  However the goroutines of a monitor's connection interleave, what is written to its socket is in order and nothing is written twice or for a wrong
  session: of each session it is a subsequence of the alerts received, the channels stay within 16 and 32, and an alert that was received is missing only
  because it met a full channel.  As long as the connection is up, every alert kept is written, in the fan-in's channel, in one forwarder's hand or still
  buffered, in this order.
\<close>

theorem alerts_in_order:
  assumes "reach (route_act msgs) route_arrives (route_start, {#MonitorWrite#}) (s, ts)"
  shows "subseq (mine i (rt_written s)) (so_received (rt_src s i))
    \<and> length (so_received (rt_src s i)) = length (so_kept (rt_src s i)) + so_dropped (rt_src s i)
    \<and> length (so_buf (rt_src s i)) \<le> 16 \<and> length (rt_out s) \<le> 32
    \<and> (\<not> rt_cancelled s \<longrightarrow> (\<exists>held. length held \<le> 1
         \<and> so_kept (rt_src s i) = mine i (rt_written s) @ mine i (rt_out s) @ held @ so_buf (rt_src s i)))"
proof -
  have ok: "route_ok s ts" using routing.ok_reachable [OF assms route_init] .
  note src = route_source [OF ok, of i]
  have p: "prefix (mine i (rt_written s)) (mine i (rt_through s))" using ok by (auto simp: route_ok_def prefix_def)
  have "prefix (mine i (rt_through s)) (so_kept (rt_src s i))" using src by (auto simp: source_ok_def prefix_def)
  with p have "subseq (mine i (rt_written s)) (so_kept (rt_src s i))" by (meson prefix_imp_subseq prefix_order.order_trans)
  then have sub: "subseq (mine i (rt_written s)) (so_received (rt_src s i))"
    using src subseq_order.order_trans by (auto simp: source_ok_def)
  have "\<exists>held. length held \<le> 1 \<and> so_kept (rt_src s i) = mine i (rt_written s) @ mine i (rt_out s) @ held @ so_buf (rt_src s i)" if "\<not> rt_cancelled s"
  proof -
    have t: "rt_through s = rt_written s @ rt_out s" using ok that by (auto simp: route_ok_def le_Suc_eq simp del: sum_mset_0_iff)
    have "\<exists>held. length held \<le> 1 \<and> so_taken (rt_src s i) = mine i (rt_through s) @ held"
    proof (cases "tally (forwarder i) ts = 0")
      case True
      then show ?thesis using src that by (auto simp: source_ok_def)
    next
      case False
      then obtain u where u: "u \<in># ts" "forwarder i u \<noteq> 0" by (auto simp: tally_zero simp del: sum_mset_0_iff)
      then have "hand_ok s u" using ok by (simp add: route_ok_def)
      then show ?thesis using u(2) by (cases u) (auto split: if_splits)
    qed
    then show ?thesis using src t by (auto simp: source_ok_def)
  qed
  then show ?thesis using sub src ok by (simp add: route_ok_def source_ok_def alertBuffer_def fanInBuffer_def)
qed

text \<open>Two alerts of one session, both written; and a burst of seventeen before the forwarder runs, the last of which is lost.\<close>

definition two_alerts :: "nat alertRoutine move list" where
  "two_alerts = [Arrive (AddSession ''s''), Act 1 0, Act 1 1, Act 1 2, Act 2 0, Act 2 0, Act 0 0, Act 2 0, Act 2 0, Act 0 0]"

definition burst :: "nat alertRoutine move list" where
  "burst = Arrive (AddSession ''s'') # Act 1 0 # replicate 16 (Act 1 1) @ [Act 1 2]"

definition alert_run :: "nat alertRoutine move list \<Rightarrow> (nat alertRoute \<times> nat alertRoutine list) option" where
  "alert_run ms = play (route_act [Some 1, Some 2]) route_arrives (route_start, [MonitorWrite]) ms"

lemma alert_run_reach:
  assumes "alert_run ms = Some (s, ts)"
  shows "reach (route_act [Some 1, Some 2]) route_arrives (route_start, {#MonitorWrite#}) (s, mset ts)"
  using play_reach [OF assms [unfolded alert_run_def], of "(route_start, {#MonitorWrite#})"] by (simp add: reach.start)

lemma burst_loses_an_alert:
  "(case alert_run burst of None \<Rightarrow> False | Some (s, ts) \<Rightarrow> so_dropped (rt_src s ''s'') = 1 \<and> so_kept (rt_src s ''s'') = replicate 16 1)"
  by code_simp

lemma alerts_in_order_witness:
  "\<exists>s :: nat alertRoute. rt_written s = [(''s'', 1 :: nat), (''s'', 2)] \<and> subseq (mine ''s'' (rt_written s)) (so_received (rt_src s ''s''))"
proof -
  have "(case alert_run two_alerts of None \<Rightarrow> False | Some (s, ts) \<Rightarrow> rt_written s = [(''s'', 1 :: nat), (''s'', 2)])" by code_simp
  then obtain s ts where r: "alert_run two_alerts = Some (s, ts)" "rt_written s = [(''s'', 1 :: nat), (''s'', 2)]"
    by (auto split: option.splits)
  have "subseq (mine ''s'' (rt_written s)) (so_received (rt_src s ''s''))" using alerts_in_order [OF alert_run_reach [OF r(1)], of "''s''"] by (elim conjE)
  with r(2) show ?thesis by (intro exI conjI)
qed

end
