(* ===== verification/Redis.thy ===== *)
theory Redis
  imports GoStd "HOL-Library.Product_Lexorder"
begin

text \<open>
  The Redis server as the code in \<open>internal/infrastructure/cache\<close> sees it: a parameter
  \<open>exec :: cmd \<Rightarrow> 'w \<Rightarrow> reply \<times> 'w\<close> of every registry operation, where \<open>'w\<close> is the state of the
  outside world.  \<open>redis_doc\<close> states the documented effect of the commands used, and
  \<open>redis_conforms exec view\<close> that a reply other than an error means that effect on the key space
  \<open>view w\<close>.  A command that reports an error was either executed or not.  JSON documents are syntax trees;
  \<open>encoding/json\<close> is modelled by one encoder and one decoder per struct, by field tag.
\<close>

section \<open>JSON\<close>

datatype json = JNull | JBool bool | JNum int | JStr string | JTime instant
  | JFloat rat | JArr "json list" | JObj "(string \<times> json) list"

definition jget :: "string \<Rightarrow> json \<Rightarrow> json option" where
  "jget f j = (case j of JObj kvs \<Rightarrow> map_of kvs f | _ \<Rightarrow> None)"

definition jset :: "string \<Rightarrow> json \<Rightarrow> json \<Rightarrow> json" where
  "jset f v j = (case j of JObj kvs \<Rightarrow> JObj (AList.update f v kvs) | _ \<Rightarrow> j)"

text \<open>
  Decoding one field into a Go value: absent or null leaves the zero value, a value of another
  JSON type is an error.
\<close>

definition dec_str :: "string \<Rightarrow> json \<Rightarrow> string option" where
  "dec_str f j = (case jget f j of None \<Rightarrow> Some [] | Some JNull \<Rightarrow> Some []
     | Some (JStr s) \<Rightarrow> Some s | _ \<Rightarrow> None)"

definition dec_int :: "string \<Rightarrow> json \<Rightarrow> int option" where
  "dec_int f j = (case jget f j of None \<Rightarrow> Some 0 | Some JNull \<Rightarrow> Some 0
     | Some (JNum n) \<Rightarrow> Some n | _ \<Rightarrow> None)"

definition dec_bool :: "string \<Rightarrow> json \<Rightarrow> bool option" where
  "dec_bool f j = (case jget f j of None \<Rightarrow> Some False | Some JNull \<Rightarrow> Some False
     | Some (JBool b) \<Rightarrow> Some b | _ \<Rightarrow> None)"

definition dec_time :: "string \<Rightarrow> json \<Rightarrow> instant option" where
  "dec_time f j = (case jget f j of None \<Rightarrow> Some zero_time | Some JNull \<Rightarrow> Some zero_time
     | Some (JTime t) \<Rightarrow> Some t | _ \<Rightarrow> None)"

definition dec_time_opt :: "string \<Rightarrow> json \<Rightarrow> instant option option" where
  "dec_time_opt f j = (case jget f j of None \<Rightarrow> Some None | Some JNull \<Rightarrow> Some None
     | Some (JTime t) \<Rightarrow> Some (Some t) | _ \<Rightarrow> None)"

lemmas dec_defs = dec_str_def dec_int_def dec_bool_def dec_time_def dec_time_opt_def jget_def

text \<open>What is stored under a key or hash field: a document, or plain text.\<close>

datatype sval = Doc json | Txt string

definition as_json :: "sval \<Rightarrow> json option" where
  "as_json v = (case v of Doc j \<Rightarrow> Some j | Txt _ \<Rightarrow> None)"

section \<open>Commands\<close>

datatype rval = RString sval | RHash "(string \<times> sval) list" | RZSet "(string \<times> int) list"

text \<open>A key with its value and remaining life, if it expires.\<close>

type_synonym keyspace = "string \<Rightarrow> (rval \<times> duration option) option"

datatype ttl = NoTTL | TTL duration | KeepTTL

datatype cmd = GET string | SET string sval ttl | DEL string | EXISTS string
  | EXPIRE string duration | HSET string string sval | HGET string string | HGETALL string
  | ZADD string int string | ZREM string string | ZRANGEBYSCORE string int int

datatype reply = Err | Nil | Ok | IntR int | Val sval | Pairs "(string \<times> sval) list" | Members "string list"

definition life :: "ttl \<Rightarrow> string \<Rightarrow> keyspace \<Rightarrow> duration option" where
  "life t k ks = (case t of NoTTL \<Rightarrow> None | TTL d \<Rightarrow> Some d | KeepTTL \<Rightarrow> Option.bind (ks k) snd)"

definition the_hash :: "string \<Rightarrow> keyspace \<Rightarrow> (string \<times> sval) list option" where
  "the_hash k ks = (case ks k of None \<Rightarrow> Some [] | Some (RHash h, _) \<Rightarrow> Some h | _ \<Rightarrow> None)"

definition the_zset :: "string \<Rightarrow> keyspace \<Rightarrow> (string \<times> int) list option" where
  "the_zset k ks = (case ks k of None \<Rightarrow> Some [] | Some (RZSet z, _) \<Rightarrow> Some z | _ \<Rightarrow> None)"

definition put_hash :: "string \<Rightarrow> (string \<times> sval) list \<Rightarrow> keyspace \<Rightarrow> keyspace" where
  "put_hash k h ks = ks(k \<mapsto> (RHash h, Option.bind (ks k) snd))"

text \<open>A sorted set that becomes empty is removed.\<close>

definition put_zset :: "string \<Rightarrow> (string \<times> int) list \<Rightarrow> keyspace \<Rightarrow> keyspace" where
  "put_zset k z ks = (if z = [] then ks(k := None) else ks(k \<mapsto> (RZSet z, Option.bind (ks k) snd)))"

text \<open>
  The documented effect: reply and new key space.  \<open>HGETALL\<close> promises no order;
  \<open>ZRANGEBYSCORE key -inf max LIMIT 0 n\<close> returns the \<open>n\<close> lowest members (all for \<open>n \<le> 0\<close>), by score
  and then by member.
\<close>

fun redis_doc :: "cmd \<Rightarrow> keyspace \<Rightarrow> reply \<Rightarrow> keyspace \<Rightarrow> bool" where
  "redis_doc (GET k) ks r ks' \<longleftrightarrow> ks' = ks \<and>
     (case ks k of None \<Rightarrow> r = Nil | Some (RString v, _) \<Rightarrow> r = Val v | _ \<Rightarrow> False)"
| "redis_doc (SET k v t) ks r ks' \<longleftrightarrow> r = Ok \<and> ks' = ks(k \<mapsto> (RString v, life t k ks))"
| "redis_doc (DEL k) ks r ks' \<longleftrightarrow> r = IntR (if ks k = None then 0 else 1) \<and> ks' = ks(k := None)"
| "redis_doc (EXISTS k) ks r ks' \<longleftrightarrow> r = IntR (if ks k = None then 0 else 1) \<and> ks' = ks"
| "redis_doc (EXPIRE k d) ks r ks' \<longleftrightarrow>
     (case ks k of None \<Rightarrow> r = IntR 0 \<and> ks' = ks
      | Some (v, _) \<Rightarrow> r = IntR 1 \<and> ks' = ks(k \<mapsto> (v, Some d)))"
| "redis_doc (HSET k f v) ks r ks' \<longleftrightarrow>
     (case the_hash k ks of None \<Rightarrow> False
      | Some h \<Rightarrow> (\<exists>n. r = IntR n) \<and> ks' = put_hash k (AList.update f v h) ks)"
| "redis_doc (HGET k f) ks r ks' \<longleftrightarrow> ks' = ks \<and>
     (case the_hash k ks of None \<Rightarrow> False
      | Some h \<Rightarrow> r = (case map_of h f of None \<Rightarrow> Nil | Some v \<Rightarrow> Val v))"
| "redis_doc (HGETALL k) ks r ks' \<longleftrightarrow> ks' = ks \<and>
     (case the_hash k ks of None \<Rightarrow> False
      | Some h \<Rightarrow> \<exists>ps. r = Pairs ps \<and> distinct (map fst ps) \<and> map_of ps = map_of h)"
| "redis_doc (ZADD k s m) ks r ks' \<longleftrightarrow>
     (case the_zset k ks of None \<Rightarrow> False
      | Some z \<Rightarrow> (\<exists>n. r = IntR n) \<and> ks' = put_zset k (AList.update m s z) ks)"
| "redis_doc (ZREM k m) ks r ks' \<longleftrightarrow>
     (case the_zset k ks of None \<Rightarrow> False
      | Some z \<Rightarrow> (\<exists>n. r = IntR n) \<and> ks' = put_zset k (AList.delete m z) ks)"
| "redis_doc (ZRANGEBYSCORE k mx n) ks r ks' \<longleftrightarrow> ks' = ks \<and>
     (case the_zset k ks of None \<Rightarrow> False
      | Some z \<Rightarrow> (\<exists>ms. r = Members ms \<and> distinct ms
          \<and> sorted (map (\<lambda>m. (the (map_of z m), m)) ms)
          \<and> (\<forall>m \<in> set ms. \<exists>s. map_of z m = Some s \<and> s \<le> mx)
          \<and> (n \<le> 0 \<or> int (length ms) < n \<longrightarrow>
               set ms = {m. \<exists>s. map_of z m = Some s \<and> s \<le> mx})
          \<and> (0 < n \<longrightarrow> int (length ms) \<le> n)))"

type_synonym 'w redis = "cmd \<Rightarrow> 'w \<Rightarrow> reply \<times> 'w"

definition redis_conforms :: "'w redis \<Rightarrow> ('w \<Rightarrow> keyspace) \<Rightarrow> bool" where
  "redis_conforms exec view \<longleftrightarrow>
     (\<forall>c w r w'. exec c w = (r, w') \<longrightarrow>
        (if r = Err then view w' = view w \<or> (\<exists>r'. redis_doc c (view w) r' (view w'))
         else redis_doc c (view w) r (view w')))"

lemma conformsD:
  "redis_conforms exec view \<Longrightarrow> exec c w = (r, w') \<Longrightarrow> r \<noteq> Err \<Longrightarrow> redis_doc c (view w) r (view w')"
  by (auto simp: redis_conforms_def)

text \<open>A command that reports an error was executed or not.\<close>

lemma err_or_doc:
  assumes "redis_conforms exec view" and "exec c w = (r, w')"
  shows "view w' = view w \<or> (\<exists>r'. redis_doc c (view w) r' (view w'))"
proof -
  have "if r = Err then view w' = view w \<or> (\<exists>r'. redis_doc c (view w) r' (view w')) else redis_doc c (view w) r (view w')"
    using assms unfolding redis_conforms_def by simp
  then show ?thesis by (cases "r = Err") auto
qed

text \<open>A command touches its own key only, whether it succeeds or fails.\<close>

fun cmd_key :: "cmd \<Rightarrow> string" where
  "cmd_key (GET k) = k" | "cmd_key (SET k _ _) = k" | "cmd_key (DEL k) = k" | "cmd_key (EXISTS k) = k"
| "cmd_key (EXPIRE k _) = k" | "cmd_key (HSET k _ _) = k" | "cmd_key (HGET k _) = k"
| "cmd_key (HGETALL k) = k" | "cmd_key (ZADD k _ _) = k" | "cmd_key (ZREM k _) = k"
| "cmd_key (ZRANGEBYSCORE k _ _) = k"

lemma doc_frame: "redis_doc c ks r ks' \<Longrightarrow> k \<noteq> cmd_key c \<Longrightarrow> ks' k = ks k"
  by (cases c) (auto simp: put_hash_def put_zset_def split: option.splits if_splits rval.splits)

lemma exec_frame:
  "redis_conforms exec view \<Longrightarrow> exec c w = (r, w') \<Longrightarrow> k \<noteq> cmd_key c \<Longrightarrow> view w' k = view w k"
  unfolding redis_conforms_def by (metis doc_frame)

text \<open>A pipeline sends every command; its error is that of the first failing one.\<close>

fun pipeline :: "'w redis \<Rightarrow> cmd list \<Rightarrow> 'w \<Rightarrow> bool \<times> 'w" where
  "pipeline exec [] w = (True, w)"
| "pipeline exec (c # cs) w =
     (let (r, w1) = exec c w; (ok, w2) = pipeline exec cs w1 in (r \<noteq> Err \<and> ok, w2))"

text \<open>
  The reference server used by the witnesses: the key space itself, commands that cannot fail on a
  well-typed key space.
\<close>

definition mem_exec :: "keyspace redis" where
  "mem_exec c ks = (case c of
     GET k \<Rightarrow> ((case ks k of None \<Rightarrow> Nil | Some (RString v, _) \<Rightarrow> Val v | _ \<Rightarrow> Err), ks)
   | SET k v t \<Rightarrow> (Ok, ks(k \<mapsto> (RString v, life t k ks)))
   | DEL k \<Rightarrow> (IntR (if ks k = None then 0 else 1), ks(k := None))
   | EXISTS k \<Rightarrow> (IntR (if ks k = None then 0 else 1), ks)
   | EXPIRE k d \<Rightarrow> (case ks k of None \<Rightarrow> (IntR 0, ks) | Some (v, _) \<Rightarrow> (IntR 1, ks(k \<mapsto> (v, Some d))))
   | HSET k f v \<Rightarrow> (case the_hash k ks of None \<Rightarrow> (Err, ks)
        | Some h \<Rightarrow> (IntR 1, put_hash k (AList.update f v h) ks))
   | HGET k f \<Rightarrow> ((case the_hash k ks of None \<Rightarrow> Err
        | Some h \<Rightarrow> (case map_of h f of None \<Rightarrow> Nil | Some v \<Rightarrow> Val v)), ks)
   | HGETALL k \<Rightarrow> ((case the_hash k ks of None \<Rightarrow> Err | Some h \<Rightarrow> Pairs (AList.clearjunk h)), ks)
   | ZADD k s m \<Rightarrow> (case the_zset k ks of None \<Rightarrow> (Err, ks)
        | Some z \<Rightarrow> (IntR 1, put_zset k (AList.update m s z) ks))
   | ZREM k m \<Rightarrow> (case the_zset k ks of None \<Rightarrow> (Err, ks)
        | Some z \<Rightarrow> (IntR 1, put_zset k (AList.delete m z) ks))
   | ZRANGEBYSCORE k mx n \<Rightarrow> (case the_zset k ks of None \<Rightarrow> (Err, ks)
        | Some z \<Rightarrow> let ms = map snd (sort (map (\<lambda>(m, s). (s, m)) (filter (\<lambda>(m, s). s \<le> mx) (AList.clearjunk z))))
            in (Members (if n \<le> 0 then ms else take (nat n) ms), ks)))"

lemma mem_range_ok:
  fixes z :: "(string \<times> int) list" and mx :: int
  defines "ps \<equiv> sort (map (\<lambda>(m, s). (s, m)) (filter (\<lambda>(m, s). s \<le> mx) (AList.clearjunk z)))"
  shows "distinct (map snd ps)" and "\<forall>p \<in> set ps. map_of z (snd p) = Some (fst p) \<and> fst p \<le> mx"
    and "set (map snd ps) = {m. \<exists>s. map_of z m = Some s \<and> s \<le> mx}"
    and "sorted (map (\<lambda>m. (the (map_of z m), m)) (map snd ps))"
proof -
  let ?c = "AList.clearjunk z"
  have dc: "distinct (map fst ?c)" by (rule distinct_clearjunk)
  have mc: "map_of ?c = map_of z" by (rule map_of_clearjunk)
  have set: "set ps = {(s, m). (m, s) \<in> set ?c \<and> s \<le> mx}" by (auto simp: ps_def)
  have "map snd (map (\<lambda>(m, s). (s, m)) (filter (\<lambda>(m, s). s \<le> mx) ?c)) = map fst (filter (\<lambda>(m, s). s \<le> mx) ?c)"
    by (simp add: split_beta comp_def)
  moreover have "distinct (map fst (filter (\<lambda>(m, s). s \<le> mx) ?c))" using dc by (rule distinct_map_filter)
  moreover have "mset ps = mset (map (\<lambda>(m, s). (s, m)) (filter (\<lambda>(m, s). s \<le> mx) ?c))" by (simp add: ps_def)
  ultimately show d: "distinct (map snd ps)" by (metis mset_eq_imp_distinct_iff mset_map)
  have mem: "map_of z m = Some s \<longleftrightarrow> (m, s) \<in> set ?c" for m s
    using dc mc by (metis map_of_eq_Some_iff)
  show v: "\<forall>p \<in> set ps. map_of z (snd p) = Some (fst p) \<and> fst p \<le> mx"
    using set mem by auto
  show "set (map snd ps) = {m. \<exists>s. map_of z m = Some s \<and> s \<le> mx}"
    using set mem by (force simp: image_iff)
  have "map (\<lambda>m. (the (map_of z m), m)) (map snd ps) = map (\<lambda>p. p) ps"
    using v by (simp add: map_idI)
  then show "sorted (map (\<lambda>m. (the (map_of z m), m)) (map snd ps))" by (simp add: ps_def)
qed

lemma mem_conforms: "redis_conforms mem_exec id"
proof -
  have doc: "redis_doc c ks r ks'" if "mem_exec c ks = (r, ks')" "r \<noteq> Err" for c ks r ks'
  proof (cases c)
    case (ZRANGEBYSCORE k mx n)
    have "the_zset k ks \<noteq> None" using that ZRANGEBYSCORE by (auto simp: mem_exec_def split: option.splits)
    then obtain z where z: "the_zset k ks = Some z" by blast
    define ps where "ps = sort (map (\<lambda>(m, s). (s, m)) (filter (\<lambda>(m, s). s \<le> mx) (AList.clearjunk z)))"
    note ok = mem_range_ok [where z = z and mx = mx, folded ps_def]
    define ms where "ms = (if n \<le> 0 then map snd ps else take (nat n) (map snd ps))"
    have r: "r = Members ms" "ks' = ks"
      using that z ZRANGEBYSCORE by (auto simp: mem_exec_def Let_def ps_def ms_def)
    have "sorted (map (\<lambda>m. (the (map_of z m), m)) ms)"
      using ok(4) by (auto simp: ms_def take_map [symmetric] intro: sorted_wrt_take)
    moreover have "distinct ms" using ok(1) by (simp add: ms_def)
    moreover have "set ms \<subseteq> set (map snd ps)" by (auto simp: ms_def dest: in_set_takeD)
    moreover have "set ms = set (map snd ps)" if "n \<le> 0 \<or> int (length ms) < n"
    proof (cases "n \<le> 0")
      case False
      then have "length (take (nat n) (map snd ps)) < nat n" using that by (simp add: ms_def split: if_splits)
      then have "length (map snd ps) \<le> nat n" by simp
      then show ?thesis using False by (simp add: ms_def)
    qed (simp add: ms_def)
    moreover have "0 < n \<longrightarrow> int (length ms) \<le> n" by (auto simp: ms_def)
    ultimately show ?thesis using z r ZRANGEBYSCORE ok(3) by auto
  next
    case (HGETALL k)
    then show ?thesis using that
      by (auto simp: mem_exec_def distinct_clearjunk map_of_clearjunk split: option.splits)
  qed (use that in \<open>auto simp: mem_exec_def split: option.splits rval.splits\<close>)
  moreover have "ks' = ks" if "mem_exec c ks = (Err, ks')" for c ks ks'
    using that by (cases c) (auto simp: mem_exec_def Let_def split: option.splits prod.splits)
  ultimately show ?thesis by (auto simp: redis_conforms_def)
qed

end
