(* ===== verification/AIRelay.thy ===== *)
theory AIRelay
  imports Redis Threads
begin

text \<open>
  \<open>internal/transport/webrtc/ai_relay.go\<close>: the copy of a candidate's video that is sent to the AI service over a second peer
  connection.  Construction, the signaling request and the reading of feedback are functions; \<open>Enqueue\<close>, \<open>writeLoop\<close>, the
  signaling goroutine, \<open>Close\<close> and \<open>deleteConnection\<close> are goroutines over the relay's state.  The WebRTC library, the HTTP
  round trip and RTP parsing are parameters or the environment's choice.
\<close>

section \<open>Construction\<close>

definition defaultRelayQueueSize :: int where "defaultRelayQueueSize = 256"
definition relaySignalTimeout :: duration where "relaySignalTimeout = 10 * second"

record AIRelayOptions =
  ro_Enabled :: bool
  ro_URL :: string
  ro_QueueSize :: int

record RelayMeta =
  rm_ScheduleID :: string
  rm_SessionID :: string
  rm_ParticipantID :: string
  rm_StreamID :: string
  rm_StreamType :: string

text \<open>\<open>strings.TrimRight(s, "/")\<close>.\<close>

definition trim_slashes :: "string \<Rightarrow> string" where
  "trim_slashes s = rev (dropWhile (\<lambda>c. c = CHR ''/'') (rev s))"

text \<open>The library calls of \<open>NewAIRelay\<close>, each of which may fail.\<close>

record relayCalls =
  registerCodecOk :: bool
  newConnectionOk :: bool
  newTrackOk :: bool
  addTrackOk :: bool

datatype relayError = EmptyBaseURL | RegisterCodec | NewConnection | NewTrack | AddTrack

record relaySetup =
  queueSize :: int
  baseURL :: string
  trackStream :: string

text \<open>The result and the number of peer connections left open.\<close>

definition NewAIRelay :: "relayCalls \<Rightarrow> string \<Rightarrow> int \<Rightarrow> RelayMeta \<Rightarrow> (relayError + relaySetup) \<times> nat" where
  "NewAIRelay calls base qsize meta =
     (if base = [] then (Inl EmptyBaseURL, 0)
      else if \<not> registerCodecOk calls then (Inl RegisterCodec, 0)
      else if \<not> newConnectionOk calls then (Inl NewConnection, 0)
      else if \<not> newTrackOk calls then (Inl NewTrack, 0)
      else if \<not> addTrackOk calls then (Inl AddTrack, 0)
      else (Inr \<lparr>queueSize = (if qsize \<le> 0 then defaultRelayQueueSize else qsize), baseURL = trim_slashes base,
              trackStream = ''vox-relay-'' @ rm_StreamID meta\<rparr>, 1))"

text \<open>What \<open>handleVideoTrack\<close> sets up: nothing for a codec other than H.264, else the recording's sink and perhaps the relay's.\<close>

datatype videoSetup = NoVideo | Video (rawSink: bool) (relay: "relaySetup option")

definition mimeH264 :: string where "mimeH264 = ''video/H264''"

definition handleVideoTrack_setup :: "relayCalls \<Rightarrow> string \<Rightarrow> bool \<Rightarrow> AIRelayOptions \<Rightarrow> RelayMeta \<Rightarrow> videoSetup" where
  "handleVideoTrack_setup calls mime ingest opts meta =
     (if mime \<noteq> mimeH264 then NoVideo
      else Video ingest
        (if ro_Enabled opts \<and> ro_URL opts \<noteq> []
         then (case fst (NewAIRelay calls (ro_URL opts) (ro_QueueSize opts) meta) of Inl _ \<Rightarrow> None | Inr r \<Rightarrow> Some r)
         else None))"

lemma NewAIRelay_no_leak: "fst (NewAIRelay calls base qsize meta) = Inl e \<Longrightarrow> snd (NewAIRelay calls base qsize meta) = 0"
  by (auto simp: NewAIRelay_def split: if_splits)

lemma relay_queue_positive: "fst (NewAIRelay calls base qsize meta) = Inr r \<Longrightarrow> 0 < queueSize r"
  by (auto simp: NewAIRelay_def defaultRelayQueueSize_def split: if_splits)

text \<open>The recording is set up whatever becomes of the relay.\<close>

lemma relay_optional:
  "handleVideoTrack_setup calls mime ingest opts meta = NoVideo \<longleftrightarrow> mime \<noteq> mimeH264"
  "mime = mimeH264 \<Longrightarrow> rawSink (handleVideoTrack_setup calls mime ingest opts meta) = ingest"
  by (auto simp: handleVideoTrack_setup_def)

section \<open>Signaling\<close>

definition enc_offer :: "RelayMeta \<Rightarrow> string \<Rightarrow> json" where
  "enc_offer m sdp = JObj [(''sdp'', JStr sdp), (''type'', JStr ''offer''), (''scheduleId'', JStr (rm_ScheduleID m)),
     (''sessionId'', JStr (rm_SessionID m)), (''participantId'', JStr (rm_ParticipantID m)), (''streamId'', JStr (rm_StreamID m)),
     (''streamType'', JStr (rm_StreamType m))]"

record aiOfferResponse =
  or_SDP :: string
  or_Type :: string
  or_ConnectionID :: string

definition dec_answer :: "json \<Rightarrow> aiOfferResponse option" where
  "dec_answer j = (case (dec_str ''sdp'' j, dec_str ''type'' j, dec_str ''connectionId'' j) of
       (Some a, Some b, Some c) \<Rightarrow> Some \<lparr>or_SDP = a, or_Type = b, or_ConnectionID = c\<rparr> | _ \<Rightarrow> None)"

record httpRequest =
  hr_Method :: string
  hr_URL :: string
  hr_Body :: "json option"

record httpResponse =
  hp_Status :: int
  hp_Body :: sval

datatype offerError = BadRequest | PostFailed | OfferStatus int | DecodeAnswer | EmptySDP

text \<open>\<open>http\<close> is the round trip, \<open>url_ok\<close> whether \<open>http.NewRequest\<close> accepts the address.\<close>

type_synonym 'w http = "httpRequest \<Rightarrow> 'w \<Rightarrow> httpResponse option \<times> 'w"

definition offer_url :: "string \<Rightarrow> string" where "offer_url base = base @ ''/webrtc/offer''"
definition connection_url :: "string \<Rightarrow> string \<Rightarrow> string" where "connection_url base i = base @ ''/webrtc/connections/'' @ i"

definition read_answer :: "httpResponse \<Rightarrow> offerError + (string \<times> string)" where
  "read_answer resp = (if hp_Status resp \<noteq> 200 then Inl (OfferStatus (hp_Status resp))
     else (case Option.bind (as_json (hp_Body resp)) dec_answer of
        None \<Rightarrow> Inl DecodeAnswer
      | Some out \<Rightarrow> if or_SDP out = [] then Inl EmptySDP else Inr (or_SDP out, or_ConnectionID out)))"

definition postOffer :: "(string \<Rightarrow> bool) \<Rightarrow> 'w http \<Rightarrow> relaySetup \<Rightarrow> RelayMeta \<Rightarrow> string \<Rightarrow> 'w \<Rightarrow> (offerError + (string \<times> string)) \<times> 'w" where
  "postOffer url_ok http r meta sdp w =
     (if \<not> url_ok (offer_url (baseURL r)) then (Inl BadRequest, w)
      else (case http \<lparr>hr_Method = ''POST'', hr_URL = offer_url (baseURL r), hr_Body = Some (enc_offer meta sdp)\<rparr> w of
          (None, w') \<Rightarrow> (Inl PostFailed, w')
        | (Some resp, w') \<Rightarrow> (read_answer resp, w')))"

definition deleteConnection :: "(string \<Rightarrow> bool) \<Rightarrow> 'w http \<Rightarrow> relaySetup \<Rightarrow> string \<Rightarrow> 'w \<Rightarrow> 'w" where
  "deleteConnection url_ok http r i w =
     (if \<not> url_ok (connection_url (baseURL r) i) then w
      else snd (http \<lparr>hr_Method = ''DELETE'', hr_URL = connection_url (baseURL r) i, hr_Body = None\<rparr> w))"

text \<open>The service reads back the identity it is sent: the ids of its alerts are those of the stream.\<close>

lemma offer_identity:
  "dec_str ''sdp'' (enc_offer m sdp) = Some sdp" "dec_str ''scheduleId'' (enc_offer m sdp) = Some (rm_ScheduleID m)"
  "dec_str ''sessionId'' (enc_offer m sdp) = Some (rm_SessionID m)" "dec_str ''participantId'' (enc_offer m sdp) = Some (rm_ParticipantID m)"
  "dec_str ''streamId'' (enc_offer m sdp) = Some (rm_StreamID m)" "dec_str ''streamType'' (enc_offer m sdp) = Some (rm_StreamType m)"
  by (simp_all add: enc_offer_def dec_str_def jget_def)

lemma answer_read:
  "read_answer resp = Inr (sdp, i) \<longleftrightarrow> hp_Status resp = 200 \<and> sdp \<noteq> []
     \<and> (\<exists>j ty. hp_Body resp = Doc j \<and> dec_answer j = Some \<lparr>or_SDP = sdp, or_Type = ty, or_ConnectionID = i\<rparr>)"
  (is "?L \<longleftrightarrow> ?R")
proof
  assume ?L
  then obtain out where "Option.bind (as_json (hp_Body resp)) dec_answer = Some out" "or_SDP out = sdp" "or_ConnectionID out = i"
      "sdp \<noteq> []" "hp_Status resp = 200"
    by (auto simp: read_answer_def split: option.splits if_splits)
  then show ?R by (cases out) (auto simp: as_json_def bind_eq_Some_conv split: sval.splits)
next
  assume ?R then show ?L by (auto simp: read_answer_def as_json_def)
qed

section \<open>Feedback\<close>

text \<open>\<open>drainRTCP\<close>: every PLI or FIR of a readable compound packet asks the browser for a key frame; an unreadable one is skipped, a
  failed read (\<^const>\<open>None\<close>) ends the loop.\<close>

datatype feedback = PLI | FIR | OtherFeedback

fun drainRTCP :: "(string \<Rightarrow> feedback list option) \<Rightarrow> string option list \<Rightarrow> nat" where
  "drainRTCP parse [] = 0"
| "drainRTCP parse (None # rs) = 0"
| "drainRTCP parse (Some raw # rs) =
     (case parse raw of None \<Rightarrow> 0 | Some pkts \<Rightarrow> length (filter (\<lambda>p. p = PLI \<or> p = FIR) pkts)) + drainRTCP parse rs"


section \<open>The running relay\<close>

text \<open>
  \<open>rl_dropped\<close> is the \<open>atomic.Uint64\<close>.  Histories: \<open>rl_offered\<close> counts the calls of \<open>Enqueue\<close>, \<open>rl_accepted\<close> is what went into the
  queue, \<open>rl_taken\<close> what \<open>writeLoop\<close> took out, \<open>rl_sent\<close> what it wrote to the track; \<open>rl_remote\<close> are the connections the AI service holds for this
  relay, \<open>rl_closeID\<close> the id \<open>Close\<close> read and \<open>rl_deletes\<close> the ids it asked the service to delete.
\<close>

record relayState =
  rl_queue :: "string list"
  rl_dropped :: "64 word"
  rl_done :: bool
  rl_once :: bool
  rl_pcClosed :: bool
  rl_connID :: string
  rl_offered :: nat
  rl_accepted :: "string list"
  rl_taken :: "string list"
  rl_sent :: "string list"
  rl_remote :: "string list"
  rl_closeID :: "string option"
  rl_deletes :: "string list"

definition relay_start :: relayState where
  "relay_start = \<lparr>rl_queue = [], rl_dropped = 0, rl_done = False, rl_once = False, rl_pcClosed = False, rl_connID = [],
     rl_offered = 0, rl_accepted = [], rl_taken = [], rl_sent = [], rl_remote = [], rl_closeID = None, rl_deletes = []\<rparr>"

text \<open>
  \<open>Post\<close> is the exchange of \<open>postOffer\<close>: the service may hold a connection under the id it chose even when the answer does not
  reach the relay.  \<open>CloseCall\<close> comes from the peer, from a failed signaling or from the connection's state callback.
\<close>

datatype relayRoutine = EnqueueCall string | WriteWait | WriteOne string
  | Gather | Post | SetConn string | SetRemote | NegotiateFailed
  | CloseCall | CloseRead | CloseDelete string | ClosePc | Delete string

definition Enqueue :: "nat \<Rightarrow> string \<Rightarrow> relayState \<Rightarrow> relayState" where
  "Enqueue cap raw s =
     (let s1 = s\<lparr>rl_offered := rl_offered s + 1\<rparr> in
      if length (rl_queue s) < cap then s1\<lparr>rl_queue := rl_queue s @ [raw], rl_accepted := rl_accepted s @ [raw]\<rparr>
      else s1\<lparr>rl_dropped := rl_dropped s + 1\<rparr>)"

text \<open>\<open>parses\<close>: does \<open>rtp.Packet.Unmarshal\<close> accept the bytes; a write succeeds, fails for good or fails this once.\<close>

fun relay_write_act :: "(string \<Rightarrow> bool) \<Rightarrow> (relayState, relayRoutine) action" where
  "relay_write_act parses s WriteWait =
     (if rl_done s then [(s, [])] else [])
     @ (case rl_queue s of [] \<Rightarrow> [] | raw # rest \<Rightarrow> [(s\<lparr>rl_queue := rest, rl_taken := rl_taken s @ [raw]\<rparr>, [WriteOne raw])])"
| "relay_write_act parses s (WriteOne raw) =
     (if parses raw then [(s\<lparr>rl_sent := rl_sent s @ [raw]\<rparr>, [WriteWait]), (s, []), (s, [WriteWait])] else [(s, [WriteWait])])"
| "relay_write_act parses s _ = []"

text \<open>\<open>ids\<close>: the connection ids the service may choose.\<close>

fun relay_negotiate_act :: "string list \<Rightarrow> (relayState, relayRoutine) action" where
  "relay_negotiate_act ids s Gather = [(s, [Post]), (s, [NegotiateFailed])]"
| "relay_negotiate_act ids s Post =
     (s, [NegotiateFailed]) # map (\<lambda>i. (s\<lparr>rl_remote := i # rl_remote s\<rparr>, [SetConn i])) ids
       @ map (\<lambda>i. (s\<lparr>rl_remote := i # rl_remote s\<rparr>, [NegotiateFailed])) ids"
| "relay_negotiate_act ids s (SetConn i) = [(s\<lparr>rl_connID := i\<rparr>, [SetRemote])]"
| "relay_negotiate_act ids s SetRemote = [(s, []), (s, [NegotiateFailed])]"
| "relay_negotiate_act ids s NegotiateFailed = [(s, [CloseCall])]"
| "relay_negotiate_act ids s _ = []"

text \<open>\<open>Delete\<close> reaches the service or does not.\<close>

fun relay_close_act :: "(relayState, relayRoutine) action" where
  "relay_close_act s CloseCall = (if rl_once s then [(s, [])] else [(s\<lparr>rl_once := True, rl_done := True\<rparr>, [CloseRead])])"
| "relay_close_act s CloseRead =
     [(s\<lparr>rl_closeID := Some (rl_connID s)\<rparr>, if rl_connID s = [] then [ClosePc] else [CloseDelete (rl_connID s)])]"
| "relay_close_act s (CloseDelete i) = [(s, [ClosePc, Delete i])]"
| "relay_close_act s ClosePc = [(s\<lparr>rl_pcClosed := True\<rparr>, [])]"
| "relay_close_act s (Delete i) =
     [(s\<lparr>rl_deletes := rl_deletes s @ [i], rl_remote := remove1 i (rl_remote s)\<rparr>, []), (s\<lparr>rl_deletes := rl_deletes s @ [i]\<rparr>, [])]"
| "relay_close_act s _ = []"

fun relay_act :: "nat \<Rightarrow> (string \<Rightarrow> bool) \<Rightarrow> string list \<Rightarrow> (relayState, relayRoutine) action" where
  "relay_act cap parses ids s (EnqueueCall raw) = [(Enqueue cap raw s, [])]"
| "relay_act cap parses ids s WriteWait = relay_write_act parses s WriteWait"
| "relay_act cap parses ids s (WriteOne raw) = relay_write_act parses s (WriteOne raw)"
| "relay_act cap parses ids s Gather = relay_negotiate_act ids s Gather"
| "relay_act cap parses ids s Post = relay_negotiate_act ids s Post"
| "relay_act cap parses ids s (SetConn i) = relay_negotiate_act ids s (SetConn i)"
| "relay_act cap parses ids s SetRemote = relay_negotiate_act ids s SetRemote"
| "relay_act cap parses ids s NegotiateFailed = relay_negotiate_act ids s NegotiateFailed"
| "relay_act cap parses ids s t = relay_close_act s t"

fun relay_arrives :: "relayRoutine \<Rightarrow> bool" where
  "relay_arrives (EnqueueCall raw) = True"
| "relay_arrives CloseCall = True"
| "relay_arrives _ = False"

definition relay_routines :: "relayRoutine list" where "relay_routines = [WriteWait, Gather]"

section \<open>The relay never slows the recording down\<close>

fun writing :: "relayRoutine \<Rightarrow> nat" where
  "writing WriteWait = 1"
| "writing (WriteOne raw) = 1"
| "writing _ = 0"

fun closing :: "relayRoutine \<Rightarrow> nat" where
  "closing CloseRead = 1"
| "closing (CloseDelete i) = 1"
| "closing ClosePc = 1"
| "closing _ = 0"

fun to_read :: "relayRoutine \<Rightarrow> nat" where
  "to_read CloseRead = 1"
| "to_read _ = 0"

fun deleting :: "relayRoutine \<Rightarrow> nat" where
  "deleting (CloseDelete i) = 1"
| "deleting (Delete i) = 1"
| "deleting _ = 0"

text \<open>What is in hand at the moment: sent in order, or the one being written.\<close>

fun in_hand :: "relayState \<Rightarrow> relayRoutine \<Rightarrow> bool" where
  "in_hand s WriteWait = subseq (rl_sent s) (rl_taken s)"
| "in_hand s (WriteOne raw) = (\<exists>ys. rl_taken s = ys @ [raw] \<and> subseq (rl_sent s) ys)"
| "in_hand s (CloseDelete i) = (rl_closeID s = Some i)"
| "in_hand s (Delete i) = (rl_closeID s = Some i)"
| "in_hand s _ = True"

definition to_delete :: "relayState \<Rightarrow> nat" where
  "to_delete s = (case rl_closeID s of None \<Rightarrow> 0 | Some i \<Rightarrow> if i = [] then 0 else 1)"

definition relay_ok :: "nat \<Rightarrow> relayState \<Rightarrow> relayRoutine multiset \<Rightarrow> bool" where
  "relay_ok cap s ts \<longleftrightarrow>
     length (rl_queue s) \<le> cap \<and> rl_accepted s = rl_taken s @ rl_queue s
     \<and> of_nat (rl_offered s) = of_nat (length (rl_accepted s)) + rl_dropped s
     \<and> subseq (rl_sent s) (rl_taken s) \<and> tally writing ts \<le> 1 \<and> (\<forall>t \<in># ts. in_hand s t)
     \<and> tally closing ts + of_bool (rl_pcClosed s) = of_bool (rl_once s) \<and> rl_done s = rl_once s
     \<and> tally to_read ts = of_bool (rl_once s \<and> rl_closeID s = None) \<and> (rl_closeID s \<noteq> None \<longrightarrow> rl_once s)
     \<and> length (rl_deletes s) + tally deleting ts = to_delete s
     \<and> (\<forall>i \<in> set (rl_deletes s). rl_closeID s = Some i)"


lemma in_hand_others:
  assumes "in_hand s t" and "writing t = 0" and "rl_closeID s \<noteq> None \<longrightarrow> rl_closeID s' = rl_closeID s"
  shows "in_hand s' t"
  using assms by (cases t) auto

lemma in_hand_kept:
  assumes "in_hand s t" and "rl_sent s' = rl_sent s" and "rl_taken s' = rl_taken s"
    and "rl_closeID s \<noteq> None \<longrightarrow> rl_closeID s' = rl_closeID s"
  shows "in_hand s' t"
  using assms by (cases t) auto

lemma relay_ok_hand: "relay_ok cap s ts \<Longrightarrow> t \<in># ts \<Longrightarrow> in_hand s t"
  by (simp add: relay_ok_def)

lemma relay_enqueue:
  assumes "relay_ok cap s (add_mset (EnqueueCall raw) ts)"
  shows "relay_ok cap (Enqueue cap raw s) ts"
proof -
  have "in_hand (Enqueue cap raw s) t" if "t \<in># ts" for t
    by (rule in_hand_kept [of s t]) (use relay_ok_hand [OF assms, of t] that in \<open>simp_all add: Enqueue_def Let_def\<close>)
  then show ?thesis using assms by (auto simp: relay_ok_def Enqueue_def Let_def to_delete_def)
qed

lemma relay_write:
  assumes "relay_ok cap s (add_mset t ts)" and "(s', new) \<in> set (relay_write_act parses s t)"
  shows "relay_ok cap s' (mset new + ts)"
proof (cases "writing t")
  case 0
  then have "relay_write_act parses s t = []" by (cases t) auto
  with assms(2) show ?thesis by simp
next
  case (Suc k)
  have w: "\<forall>u \<in># ts. writing u = 0"
    using assms(1) Suc tally_zero [of writing ts] by (auto simp: relay_ok_def simp del: sum_mset_0_iff)
  have rest: "in_hand s'' u" if "u \<in># ts" "rl_closeID s'' = rl_closeID s" for s'' u
    by (rule in_hand_others [of s u]) (use relay_ok_hand [OF assms(1), of u] that w in simp_all)
  show ?thesis
  proof (cases t)
    case WriteWait
    with assms(2) consider "s' = s" "new = []"
      | raw q where "rl_queue s = raw # q" "s' = s\<lparr>rl_queue := q, rl_taken := rl_taken s @ [raw]\<rparr>" "new = [WriteOne raw]"
      by (cases "rl_queue s") (auto split: if_splits)
    then show ?thesis
    proof cases
      case 1
      then show ?thesis using assms(1) WriteWait by (auto simp: relay_ok_def simp del: sum_mset_0_iff)
    next
      case 2
      then show ?thesis using assms(1) WriteWait rest [of _ s'] by (auto simp: relay_ok_def to_delete_def)
    qed
  next
    case (WriteOne raw)
    then obtain ys where ys: "rl_taken s = ys @ [raw]" "subseq (rl_sent s) ys" using assms(1) by (auto simp: relay_ok_def)
    have m: "(s', new) \<in> {(s, [WriteWait]), (s, []), (s\<lparr>rl_sent := rl_sent s @ [raw]\<rparr>, [WriteWait])}"
      using assms(2) unfolding WriteOne relay_write_act.simps by (cases "parses raw") (simp_all only: if_True if_False set_simps insert_iff empty_iff, blast+)
    from m consider (wait) "s' = s" "new = [WriteWait]" | (gone) "s' = s" "new = []"
      | (sent) "s' = s\<lparr>rl_sent := rl_sent s @ [raw]\<rparr>" "new = [WriteWait]"
      by (simp only: insert_iff empty_iff prod.inject) blast
    then show ?thesis
    proof cases
      case sent
      have "subseq (rl_sent s @ [raw]) (rl_taken s)" using ys by (simp add: subseq_append)
      with sent show ?thesis using assms(1) WriteOne rest [of _ s'] by (auto simp: relay_ok_def to_delete_def)
    qed (use assms(1) WriteOne in \<open>auto simp: relay_ok_def simp del: sum_mset_0_iff\<close>)
  qed (use Suc in auto)
qed

lemma relay_negotiate:
  assumes "relay_ok cap s (add_mset t ts)" and "(s', new) \<in> set (relay_negotiate_act ids s t)"
  shows "relay_ok cap s' (mset new + ts)"
proof -
  have rest: "in_hand s' u" if "u \<in># ts" "rl_sent s' = rl_sent s" "rl_taken s' = rl_taken s" "rl_closeID s' = rl_closeID s" for u
    by (rule in_hand_kept [of s u]) (use relay_ok_hand [OF assms(1), of u] that in simp_all)
  show ?thesis
  proof (cases t)
    case Gather
    then show ?thesis using assms by (auto simp: relay_ok_def)
  next
    case Post
    from assms(2) Post consider "s' = s" "new = [NegotiateFailed]"
      | i where "s' = s\<lparr>rl_remote := i # rl_remote s\<rparr>" "new = [SetConn i]"
      | i where "s' = s\<lparr>rl_remote := i # rl_remote s\<rparr>" "new = [NegotiateFailed]" by auto
    then show ?thesis using assms(1) Post rest by cases (auto simp: relay_ok_def to_delete_def)
  next
    case (SetConn i)
    then show ?thesis using assms rest by (auto simp: relay_ok_def to_delete_def)
  next
    case SetRemote
    then show ?thesis using assms by (auto simp: relay_ok_def)
  next
    case NegotiateFailed
    then show ?thesis using assms by (auto simp: relay_ok_def)
  qed (use assms(2) in simp_all)
qed

lemma relay_close:
  assumes "relay_ok cap s (add_mset t ts)" and "(s', new) \<in> set (relay_close_act s t)"
  shows "relay_ok cap s' (mset new + ts)"
proof -
  have rest: "in_hand s' u" if "u \<in># ts" "rl_sent s' = rl_sent s" "rl_taken s' = rl_taken s"
      "rl_closeID s \<noteq> None \<longrightarrow> rl_closeID s' = rl_closeID s" for u
    by (rule in_hand_kept [of s u]) (use relay_ok_hand [OF assms(1), of u] that in simp_all)
  show ?thesis
  proof (cases t)
    case CloseCall
    then show ?thesis using assms rest by (cases "rl_once s") (auto simp: relay_ok_def to_delete_def split: option.splits)
  next
    case CloseRead
    then have n: "rl_closeID s = None" "rl_once s" using assms(1) by (auto simp: relay_ok_def split: if_splits)
    with CloseRead show ?thesis using assms rest
      by (cases "rl_connID s = []") (auto simp: relay_ok_def to_delete_def)
  next
    case (CloseDelete i)
    then show ?thesis using assms by (auto simp: relay_ok_def)
  next
    case ClosePc
    then have s': "s' = s\<lparr>rl_pcClosed := True\<rparr>" "new = []" using assms(2) by auto
    have "\<forall>u \<in># ts. in_hand s' u" using rest s' by simp
    moreover have "Suc (tally closing ts + of_bool (rl_pcClosed s)) = of_bool (rl_once s)"
      using assms(1) ClosePc by (simp add: relay_ok_def)
    then have "tally closing ts = 0" "rl_once s" by (cases "rl_once s"; simp del: sum_mset_0_iff)+
    ultimately show ?thesis using assms(1) ClosePc s' by (simp add: relay_ok_def to_delete_def)
  next
    case (Delete i)
    have "s' = s\<lparr>rl_deletes := rl_deletes s @ [i], rl_remote := rl_remote s'\<rparr>" and n: "new = []"
      using assms(2) Delete by auto
    then obtain rm where s': "s' = s\<lparr>rl_deletes := rl_deletes s @ [i], rl_remote := rm\<rparr>" by blast
    have "\<forall>u \<in># ts. in_hand s' u" using rest s' by simp
    moreover have "rl_closeID s = Some i" using relay_ok_hand [OF assms(1), of t] Delete by simp
    ultimately show ?thesis using assms(1) Delete s' n by (simp add: relay_ok_def to_delete_def)
  qed (use assms(2) in simp_all)
qed

lemma relay_step:
  assumes "relay_ok cap s (add_mset t ts)" and "(s', new) \<in> set (relay_act cap parses ids s t)"
  shows "relay_ok cap s' (mset new + ts)"
proof (cases "\<exists>raw. t = EnqueueCall raw")
  case True
  then show ?thesis using assms relay_enqueue by auto
next
  case False
  then have "(s', new) \<in> set (relay_write_act parses s t) \<or> (s', new) \<in> set (relay_negotiate_act ids s t) \<or> (s', new) \<in> set (relay_close_act s t)"
    using assms(2) by (cases t) auto
  then show ?thesis using relay_write [OF assms(1)] relay_negotiate [OF assms(1)] relay_close [OF assms(1)] by blast
qed

lemma relay_arrival: "relay_ok cap s ts \<Longrightarrow> relay_arrives t \<Longrightarrow> relay_ok cap s (add_mset t ts)"
  by (cases t) (auto simp: relay_ok_def)

interpretation relaying: interleaving "relay_act cap parses ids" relay_arrives "relay_ok cap" for cap parses ids
  by unfold_locales (auto intro: relay_step relay_arrival)

lemma relay_init: "relay_ok cap relay_start (mset relay_routines)"
  by (auto simp: relay_ok_def relay_start_def relay_routines_def to_delete_def)

abbreviation relay_reaches :: "nat \<Rightarrow> (string \<Rightarrow> bool) \<Rightarrow> string list \<Rightarrow> relayState \<times> relayRoutine multiset \<Rightarrow> bool" where
  "relay_reaches cap parses ids \<equiv> reach (relay_act cap parses ids) relay_arrives (relay_start, mset relay_routines)"



text \<open>The queue is full: the third packet is dropped, the others arrive in order.\<close>

definition busy_relay :: "relayRoutine move list" where
  "busy_relay = [Arrive (EnqueueCall ''a''), Act 2 0, Arrive (EnqueueCall ''b''), Act 2 0, Arrive (EnqueueCall ''c''), Act 2 0,
     Act 0 0, Act 0 0, Act 0 0, Act 0 0]"

lemma busy_relay_run:
  "play (relay_act 2 (\<lambda>_. True) [''c1'']) relay_arrives (relay_start, relay_routines) busy_relay
     = Some (relay_start\<lparr>rl_offered := 3, rl_dropped := 1, rl_accepted := [''a'', ''b''], rl_taken := [''a'', ''b''], rl_sent := [''a'', ''b'']\<rparr>,
         [WriteWait, Gather])"
  by (simp add: busy_relay_def relay_start_def relay_routines_def Enqueue_def Let_def)


section \<open>Connections left at the service\<close>

text \<open>
  \<open>Close\<close> reads the connection id once.  When it runs while the offer is with the service, the id is not known yet: whatever arrives
  later, nobody asks the service to drop the connection.  The same happens when the answer is lost or unreadable.
\<close>

definition close_during_offer :: "relayRoutine move list" where
  "close_during_offer = [Act 1 0, Arrive CloseCall, Act 2 0, Act 2 0, Act 2 0, Act 1 1, Act 1 0, Act 1 0, Act 0 0]"

definition leaked_relay :: relayState where
  "leaked_relay = relay_start\<lparr>rl_done := True, rl_once := True, rl_pcClosed := True, rl_connID := ''c1'', rl_remote := [''c1''],
     rl_closeID := Some []\<rparr>"

lemma close_during_offer_run:
  "play (relay_act 2 (\<lambda>_. True) [''c1'']) relay_arrives (relay_start, relay_routines) close_during_offer = Some (leaked_relay, [])"
  by (simp add: close_during_offer_def leaked_relay_def relay_start_def relay_routines_def)

lemma connection_leaked:
  "relay_reaches 2 (\<lambda>_. True) [''c1''] (leaked_relay, {#})" "rl_done leaked_relay" "rl_remote leaked_relay = [''c1'']"
  "rl_deletes leaked_relay = []"
  using play_reach [OF close_during_offer_run, of "(relay_start, mset relay_routines)"]
  by (simp_all add: reach.start leaked_relay_def relay_start_def)

text \<open>An id known when \<open>Close\<close> runs is deleted, exactly once.\<close>

lemma known_connection_deleted:
  assumes "relay_reaches cap parses ids (s, ts)" and "rl_closeID s = Some i" and "i \<noteq> []" and "tally deleting ts = 0"
  shows "rl_deletes s = [i]"
proof -
  have ok: "relay_ok cap s ts" using relaying.ok_reachable [OF assms(1) relay_init] .
  then have "length (rl_deletes s) = 1" "\<forall>j \<in> set (rl_deletes s). j = i"
    using assms(2-4) by (auto simp: relay_ok_def to_delete_def simp del: sum_mset_0_iff)
  then show ?thesis by (cases "rl_deletes s") auto
qed

end
