(* ===== verification/Ports.thy ===== *)
theory Ports
  imports GoStd "HOL-Library.Multiset"
begin

text \<open>
  The ffmpeg ingest bridge of \<open>internal/recorder\<close>: \<open>port_allocator.go\<close>, \<open>sdp.go\<close> and the resource
  handling of \<open>session.go\<close> (what \<open>StartSession\<close> acquires, on each failure path releases, and
  \<open>Close\<close> gives back).  The mutex makes each allocator operation atomic, so it is a function on
  the free list.
\<close>

section \<open>Port allocator\<close>

definition portsPerStream :: int where "portsPerStream = 4"

record allocatedPorts =
  videoRTP :: int
  videoRTCP :: int
  audioRTP :: int
  audioRTCP :: int

type_synonym PortAllocator = "int list"

datatype portError = InvalidRange int int | RangeTooSmall int int | NoFreePorts

text \<open>The loop \<open>for p := rangeStart; p+3 <= rangeEnd; p += 4\<close>.\<close>

function port_groups :: "int \<Rightarrow> int \<Rightarrow> int list" where
  "port_groups p rangeEnd =
     (if p + portsPerStream - 1 \<le> rangeEnd then p # port_groups (p + portsPerStream) rangeEnd else [])"
  by pat_completeness auto
termination
  by (relation "measure (\<lambda>(p, e). nat (e - p + 1))") (auto simp: portsPerStream_def)

declare port_groups.simps [simp del]

definition NewPortAllocator :: "int \<Rightarrow> int \<Rightarrow> portError + PortAllocator" where
  "NewPortAllocator rangeStart rangeEnd =
     (if rangeEnd \<le> rangeStart then Inl (InvalidRange rangeStart rangeEnd)
      else let free = port_groups rangeStart rangeEnd
        in if free = [] then Inl (RangeTooSmall rangeStart rangeEnd) else Inr free)"

definition ports_at :: "int \<Rightarrow> allocatedPorts" where
  "ports_at base = \<lparr>videoRTP = base, videoRTCP = base + 1, audioRTP = base + 2, audioRTCP = base + 3\<rparr>"

definition Allocate :: "PortAllocator \<Rightarrow> (portError + allocatedPorts) \<times> PortAllocator" where
  "Allocate free = (if free = [] then (Inl NoFreePorts, free)
                    else (Inr (ports_at (last free)), butlast free))"

definition Release :: "PortAllocator \<Rightarrow> allocatedPorts \<Rightarrow> PortAllocator" where
  "Release free p = free @ [videoRTP p]"

definition port_set :: "allocatedPorts \<Rightarrow> int set" where
  "port_set p = {videoRTP p, videoRTCP p, audioRTP p, audioRTCP p}"

text \<open>A history of takes and returns, with the grants outstanding.\<close>

inductive pool_reach :: "('p \<Rightarrow> ('e + 'g) \<times> 'p) \<Rightarrow> ('p \<Rightarrow> 'g \<Rightarrow> 'p) \<Rightarrow> 'p \<Rightarrow> 'p \<Rightarrow> 'g list \<Rightarrow> bool"
  for take_one give p where
  start: "pool_reach take_one give p p []"
| got: "pool_reach take_one give p p1 gs \<Longrightarrow> take_one p1 = (Inr g, p2) \<Longrightarrow>
        pool_reach take_one give p p2 (g # gs)"
| refused: "pool_reach take_one give p p1 gs \<Longrightarrow> take_one p1 = (Inl e, p2) \<Longrightarrow>
        pool_reach take_one give p p2 gs"
| returned: "pool_reach take_one give p p1 (xs @ g # ys) \<Longrightarrow>
        pool_reach take_one give p (give p1 g) (xs @ ys)"

text \<open>
  A pool of exclusive resources: taking one removes it from the free multiset, giving it back
  returns it.  \<open>avail\<close> is what is free, \<open>key\<close> what a grant takes.
\<close>

locale resource_pool =
  fixes take_one :: "'p \<Rightarrow> ('e + 'g) \<times> 'p" and give :: "'p \<Rightarrow> 'g \<Rightarrow> 'p"
    and avail :: "'p \<Rightarrow> int multiset" and key :: "'g \<Rightarrow> int"
  assumes take_some: "take_one p = (Inr g, p') \<Longrightarrow> avail p = add_mset (key g) (avail p')"
    and take_none: "take_one p = (Inl e, p') \<Longrightarrow> avail p = {#} \<and> p' = p"
    and give_back: "avail (give p g) = add_mset (key g) (avail p)"
begin

lemma conserved:
  "pool_reach take_one give p p' gs \<Longrightarrow> avail p' + image_mset key (mset gs) = avail p"
  by (induction rule: pool_reach.induct) (auto dest: take_some take_none simp: give_back)

lemma exclusive:
  assumes "pool_reach take_one give p p' gs" and "\<And>k. Multiset.count (avail p) k \<le> 1"
  shows "distinct (map key gs)" and "\<forall>g \<in> set gs. key g \<in># avail p"
proof -
  from conserved [OF assms(1)] have c: "avail p' + mset (map key gs) = avail p" by simp
  have le: "Multiset.count (mset (map key gs)) k \<le> 1" for k
    using assms(2) [of k] c by (metis add_leD2 count_union)
  show "distinct (map key gs)"
    unfolding distinct_count_atmost_1
  proof
    fix k show "Multiset.count (mset (map key gs)) k = (if k \<in> set (map key gs) then 1 else 0)"
      using le [of k] by (metis count_greater_zero_iff le_antisym less_one linorder_not_le not_in_iff set_mset_mset)
  qed
  show "\<forall>g \<in> set gs. key g \<in># avail p"
    unfolding c [symmetric] by auto
qed

lemma refused_exhausted:
  assumes "pool_reach take_one give p p' gs" and "take_one p' = (Inl e, q)"
  shows "length gs = size (avail p)"
proof -
  have "avail p' = {#}" using take_none [OF assms(2)] by simp
  with conserved [OF assms(1)] have "image_mset key (mset gs) = avail p" by simp
  then show ?thesis by (metis size_image_mset size_mset)
qed

end

lemma mset_butlast: "l \<noteq> [] \<Longrightarrow> mset l = add_mset (last l) (mset (butlast l))"
  by (cases l rule: rev_cases) simp_all

interpretation ports: resource_pool Allocate Release mset videoRTP
  by unfold_locales
     (auto simp: Allocate_def Release_def ports_at_def split: if_splits intro: mset_butlast)

lemma port_groups_mem:
  "p \<in> set (port_groups a e) \<longleftrightarrow> a \<le> p \<and> p + 3 \<le> e \<and> 4 dvd (p - a)"
proof (induction a e rule: port_groups.induct)
  case (1 a e)
  show ?case
  proof (cases "a + 3 \<le> e")
    case True
    then have "p \<in> set (port_groups a e) \<longleftrightarrow> p = a \<or> p \<in> set (port_groups (a + 4) e)"
      by (subst port_groups.simps) (auto simp: portsPerStream_def)
    also have "\<dots> \<longleftrightarrow> p = a \<or> a + 4 \<le> p \<and> p + 3 \<le> e \<and> 4 dvd (p - (a + 4))"
      using 1 True by (simp add: portsPerStream_def)
    also have "\<dots> \<longleftrightarrow> a \<le> p \<and> p + 3 \<le> e \<and> 4 dvd (p - a)" using True by presburger
    finally show ?thesis .
  next
    case False
    then show ?thesis by (subst port_groups.simps) (auto simp: portsPerStream_def)
  qed
qed

lemma port_groups_distinct: "distinct (port_groups a e)"
proof (induction a e rule: port_groups.induct)
  case (1 a e)
  then show ?case
    by (subst port_groups.simps) (auto simp: port_groups_mem portsPerStream_def)
qed

lemma granted_shape:
  "pool_reach Allocate Release free0 free gs \<Longrightarrow> \<forall>g \<in> set gs. g = ports_at (videoRTP g)"
  by (induction rule: pool_reach.induct) (auto simp: Allocate_def ports_at_def split: if_splits)

lemma port_set_at: "port_set (ports_at x) = {x..x + 3}"
  by (auto simp: port_set_def ports_at_def)

text \<open>
  C40.  Port groups are exclusive: whatever sequence of \<open>Allocate\<close> and \<open>Release\<close> calls follows
  \<open>NewPortAllocator(a, b)\<close>, in which only granted groups are released, the groups outstanding use
  pairwise disjoint ports inside \<open>[a, b]\<close>, and \<open>Allocate\<close> refuses only when every group of the
  range is outstanding.
\<close>

theorem ports_exclusive:
  assumes "NewPortAllocator a b = Inr free0" and "pool_reach Allocate Release free0 free gs"
  shows "(\<forall>i < length gs. \<forall>j < length gs. i \<noteq> j \<longrightarrow> port_set (gs ! i) \<inter> port_set (gs ! j) = {})
     \<and> (\<forall>g \<in> set gs. port_set g \<subseteq> {a..b})
     \<and> (\<forall>e free'. Allocate free = (Inl e, free') \<longrightarrow> length gs = length free0)"
proof -
  have f0: "free0 = port_groups a b" using assms(1) by (auto simp: NewPortAllocator_def Let_def split: if_splits)
  have "Multiset.count (mset free0) k \<le> 1" for k
    using port_groups_distinct [of a b] f0 by (metis distinct_count_atmost_1 le_refl zero_le)
  note ex = ports.exclusive [OF assms(2) this]
  have mem: "a \<le> videoRTP g \<and> videoRTP g + 3 \<le> b \<and> 4 dvd (videoRTP g - a)" if "g \<in> set gs" for g
    using ex(2) that f0 port_groups_mem [of "videoRTP g" a b] by auto
  have ps: "port_set g = {videoRTP g .. videoRTP g + 3}" if "g \<in> set gs" for g
    using granted_shape [OF assms(2)] that port_set_at by metis
  have "port_set (gs ! i) \<inter> port_set (gs ! j) = {}" if "i < length gs" "j < length gs" "i \<noteq> j" for i j
  proof -
    let ?x = "videoRTP (gs ! i)" and ?y = "videoRTP (gs ! j)"
    have "?x \<noteq> ?y" using ex(1) that by (auto simp: distinct_conv_nth)
    moreover have "4 dvd (?x - a)" "4 dvd (?y - a)" using mem that by auto
    ultimately have "?x + 4 \<le> ?y \<or> ?y + 4 \<le> ?x" by presburger
    then show ?thesis using ps that by auto
  qed
  moreover have "length gs = length free0" if "Allocate free = (Inl e, free')" for e free'
    using ports.refused_exhausted [OF assms(2) that] by simp
  ultimately show ?thesis using mem ps by fastforce
qed

lemma ports_exclusive_witness:
  "\<exists>free gs. pool_reach Allocate Release [100, 104] free gs \<and> length gs = 2
     \<and> port_set (gs ! 0) \<inter> port_set (gs ! 1) = {}"
proof -
  have n: "NewPortAllocator 100 107 = Inr [100, 104]"
    by (simp add: NewPortAllocator_def port_groups.simps portsPerStream_def)
  have r: "pool_reach Allocate Release [100, 104] [] [ports_at 100, ports_at 104]"
  proof -
    have "pool_reach Allocate Release [100, 104] [100] [ports_at 104]"
      by (rule pool_reach.got [OF pool_reach.start]) (simp add: Allocate_def)
    then show ?thesis by (rule pool_reach.got) (simp add: Allocate_def)
  qed
  from ports_exclusive [OF n r] have "port_set ([ports_at 100, ports_at 104] ! 0)
      \<inter> port_set ([ports_at 100, ports_at 104] ! 1) = {}" by force
  with r show ?thesis by force
qed

section \<open>SDP\<close>

record negotiatedCodec =
  payloadType :: nat
  clockRate :: nat
  channels :: nat
  fmtp :: string

definition crlf :: string where "crlf = [CHR 0x0D, CHR 0x0A]"

text \<open>The description line by line; the Go format string is their concatenation, each closed by CRLF.\<close>

definition sdp_lines :: "negotiatedCodec \<Rightarrow> negotiatedCodec \<Rightarrow> allocatedPorts \<Rightarrow> string list" where
  "sdp_lines video audio ports =
     (let ch = (if channels audio = 0 then 2 else channels audio);
          n = (\<lambda>x. itoa_nat x); i = (\<lambda>x. Itoa x)
      in [''v=0'', ''o=- 0 0 IN IP4 127.0.0.1'', ''s=vox-ffmpeg-ingest'', ''c=IN IP4 127.0.0.1'', ''t=0 0'',
          ''m=video '' @ i (videoRTP ports) @ '' RTP/AVP '' @ n (payloadType video),
          ''a=rtcp:'' @ i (videoRTCP ports) @ '' IN IP4 127.0.0.1'',
          ''a=rtpmap:'' @ n (payloadType video) @ '' H264/'' @ n (clockRate video)]
         @ (if fmtp video \<noteq> [] then [''a=fmtp:'' @ n (payloadType video) @ '' '' @ fmtp video] else [])
         @ [''a=recvonly'',
          ''m=audio '' @ i (audioRTP ports) @ '' RTP/AVP '' @ n (payloadType audio),
          ''a=rtcp:'' @ i (audioRTCP ports) @ '' IN IP4 127.0.0.1'',
          ''a=rtpmap:'' @ n (payloadType audio) @ '' opus/'' @ n (clockRate audio) @ ''/'' @ n ch,
          ''a=recvonly''])"

definition buildSDP :: "negotiatedCodec \<Rightarrow> negotiatedCodec \<Rightarrow> allocatedPorts \<Rightarrow> string" where
  "buildSDP video audio ports = concat (map (\<lambda>l. l @ crlf) (sdp_lines video audio ports))"

record track =
  MimeType :: string
  tr_PayloadType :: nat
  ClockRate :: nat
  Channels :: nat
  SDPFmtpLine :: string

definition codecFromTrack :: "track \<Rightarrow> negotiatedCodec" where
  "codecFromTrack t = (if EqualFold (MimeType t) ''audio/opus''
     then \<lparr>payloadType = tr_PayloadType t mod 256, clockRate = ClockRate t,
           channels = Channels t mod 65536, fmtp = []\<rparr>
     else \<lparr>payloadType = tr_PayloadType t mod 256, clockRate = ClockRate t, channels = 0,
           fmtp = SDPFmtpLine t\<rparr>)"

section \<open>Session resources\<close>

text \<open>
  What the outside world answers to the system calls of \<open>StartSession\<close>, in order: creating the
  directory, writing the SDP file, dialling the two UDP connections.
\<close>

record sessionEnv =
  mkdirOk :: bool
  writeOk :: bool
  dialVideoOk :: bool
  dialAudioOk :: bool

text \<open>The resources the bridge owns: free ports, files on disk, open connections.\<close>

record resources =
  freePorts :: PortAllocator
  files :: "string set"
  conns :: "int multiset"

datatype sessionError = CreateTempDir | AllocatePorts portError | WriteSDP | DialVideo | DialAudio

record session =
  ports :: allocatedPorts
  sdpPath :: string

definition StartSession :: "sessionEnv \<Rightarrow> string \<Rightarrow> string \<Rightarrow> resources \<Rightarrow> (sessionError + session) \<times> resources" where
  "StartSession env tempDir uuid r =
     (if \<not> mkdirOk env then (Inl CreateTempDir, r)
      else (case Allocate (freePorts r) of
          (Inl e, fp) \<Rightarrow> (Inl (AllocatePorts e), r\<lparr>freePorts := fp\<rparr>)
        | (Inr p, fp) \<Rightarrow>
           (let r1 = r\<lparr>freePorts := fp\<rparr>;
                path = path_join tempDir (''ffmpeg-ingest-'' @ uuid @ ''.sdp'')
            in if \<not> writeOk env then (Inl WriteSDP, r1\<lparr>freePorts := Release (freePorts r1) p\<rparr>)
               else let r2 = r1\<lparr>files := insert path (files r1)\<rparr> in
                 if \<not> dialVideoOk env then
                   (Inl DialVideo, r2\<lparr>freePorts := Release (freePorts r2) p, files := files r2 - {path}\<rparr>)
                 else let r3 = r2\<lparr>conns := add_mset (videoRTP p) (conns r2)\<rparr> in
                   if \<not> dialAudioOk env then
                     (let r4 = r3\<lparr>conns := conns r3 - {#videoRTP p#}\<rparr>
                      in (Inl DialAudio, r4\<lparr>freePorts := Release (freePorts r4) p, files := files r4 - {path}\<rparr>))
                   else (Inr \<lparr>ports = p, sdpPath = path\<rparr>,
                         r3\<lparr>conns := add_mset (audioRTP p) (conns r3)\<rparr>))))"

definition CloseSession :: "session \<Rightarrow> resources \<Rightarrow> resources" where
  "CloseSession s r = r\<lparr>conns := conns r - {#videoRTP (ports s)#} - {#audioRTP (ports s)#},
     freePorts := Release (freePorts r) (ports s), files := files r - {sdpPath s}\<rparr>"

definition same_resources :: "resources \<Rightarrow> resources \<Rightarrow> bool" where
  "same_resources r r' \<longleftrightarrow> mset (freePorts r') = mset (freePorts r) \<and> files r' = files r \<and> conns r' = conns r"

text \<open>
  \<open>StartSession\<close> leaks nothing: on every error path the ports, the SDP file and the connections
  are what they were, and a session that started gives everything back in \<open>Close\<close> (the UUID in the
  file name being fresh).
\<close>

theorem session_no_leak:
  assumes "path_join tempDir (''ffmpeg-ingest-'' @ uuid @ ''.sdp'') \<notin> files r"
    and "StartSession env tempDir uuid r = (res, r1)"
  shows "case res of Inl e \<Rightarrow> same_resources r r1
     | Inr s \<Rightarrow> same_resources r (CloseSession s r1) \<and> Suc (length (freePorts r1)) = length (freePorts r)"
proof (cases "freePorts r = []")
  case True
  then show ?thesis using assms(2)
    by (auto simp: StartSession_def Allocate_def same_resources_def split: if_splits)
next
  case False
  then have "mset (freePorts r) = add_mset (last (freePorts r)) (mset (butlast (freePorts r)))"
    by (rule mset_butlast)
  then show ?thesis using assms False
    by (auto simp: StartSession_def Allocate_def Release_def same_resources_def CloseSession_def
        ports_at_def Let_def split: if_splits)
qed

lemma session_no_leak_witness:
  "case StartSession \<lparr>mkdirOk = True, writeOk = True, dialVideoOk = True, dialAudioOk = False\<rparr> ''/t'' ''u''
      \<lparr>freePorts = [100], files = {}, conns = {#}\<rparr> of
     (Inl e, r1) \<Rightarrow> same_resources \<lparr>freePorts = [100], files = {}, conns = {#}\<rparr> r1 | _ \<Rightarrow> False"
proof -
  obtain res r1 where e: "StartSession \<lparr>mkdirOk = True, writeOk = True, dialVideoOk = True, dialAudioOk = False\<rparr> ''/t'' ''u''
      \<lparr>freePorts = [100], files = {}, conns = {#}\<rparr> = (res, r1)" by fastforce
  then have "\<exists>e. res = Inl e" by (auto simp: StartSession_def Allocate_def Let_def)
  with session_no_leak [OF _ e] e show ?thesis by auto
qed

end
