(* ===== verification/Bridge.thy ===== *)
theory Bridge
  imports Ports Threads
begin

text \<open>
  The running bridge session: the RTP forwarding, background goroutines and \<open>Close\<close> of \<open>internal/recorder/session.go\<close>, \<open>forwardRTCP\<close> of
  \<open>forward.go\<close>, and their callers in \<open>internal/transport/webrtc/peer.go\<close> (\<open>forwardVideo\<close>, \<open>forwardAudio\<close>, \<open>handleAudioTrack\<close>).  The
  session's creation and its resources are in \<open>Ports\<close>.
\<close>

section \<open>Forwarding sender reports\<close>

datatype rtcpRead = DeadlineFailed | ReadTimeout bool | ReadFailed | ReadPackets "bool list" "string option" bool

datatype forwardEnd = ForwardRunning | ForwardDeadline | ForwardCancelled | ForwardRead | ForwardWrite

text \<open>
  \<open>ReadTimeout d\<close>: the read timed out, with the context done or not; \<open>ReadPackets srs raw ok\<close>: which packets are sender reports, what marshaling
  gives, whether the write succeeds.
\<close>

fun forwardRTCP :: "rtcpRead list \<Rightarrow> string list \<times> forwardEnd" where
  "forwardRTCP [] = ([], ForwardRunning)"
| "forwardRTCP (DeadlineFailed # rs) = ([], ForwardDeadline)"
| "forwardRTCP (ReadTimeout d # rs) = (if d then ([], ForwardCancelled) else forwardRTCP rs)"
| "forwardRTCP (ReadFailed # rs) = ([], ForwardRead)"
| "forwardRTCP (ReadPackets srs raw ok # rs) =
     (if \<not> list_ex (\<lambda>b. b) srs then forwardRTCP rs
      else (case raw of None \<Rightarrow> forwardRTCP rs
        | Some bytes \<Rightarrow> if \<not> ok then ([], ForwardWrite) else (case forwardRTCP rs of (sent, e) \<Rightarrow> (bytes # sent, e))))"

lemma forwards_reports_only:
  "raw \<in> set (fst (forwardRTCP rs)) \<Longrightarrow> \<exists>srs. ReadPackets srs (Some raw) True \<in> set rs \<and> True \<in> set srs"
  by (induction rs rule: forwardRTCP.induct) (auto simp: list_ex_iff split: if_splits option.splits prod.splits)

lemma forwarding_goes_on:
  assumes "\<And>r. r \<in> set rs \<Longrightarrow> r = ReadTimeout False \<or> (\<exists>srs raw. r = ReadPackets srs raw True)"
  shows "snd (forwardRTCP rs) = ForwardRunning"
  using assms
proof (induction rs)
  case (Cons r rs)
  then have i: "snd (forwardRTCP rs) = ForwardRunning" by simp
  from Cons.prems [of r] consider "r = ReadTimeout False" | srs raw where "r = ReadPackets srs raw True" by auto
  then show ?case using i by cases (auto split: option.split prod.split)
qed simp

section \<open>When the forwarding loop notices the cancellation\<close>

text \<open>
  The same loop in time, over the arrivals of RTCP packets: the context is looked at only when a read has timed out, that is after
  \<open>readDeadline\<close> without a packet.  The result is the instant the loop returns.
\<close>

definition readDeadline :: duration where "readDeadline = 500 * millisecond"

function rtcp_end :: "instant \<Rightarrow> instant \<Rightarrow> instant list \<Rightarrow> instant" where
  "rtcp_end now cancel [] = (if cancel \<le> now + readDeadline then now + readDeadline else rtcp_end (now + readDeadline) cancel [])"
| "rtcp_end now cancel (a # as) =
     (if a \<le> now + readDeadline then rtcp_end (max now a) cancel as
      else if cancel \<le> now + readDeadline then now + readDeadline
      else rtcp_end (now + readDeadline) cancel (a # as))"
  by pat_completeness auto

termination
  by (relation "measures [\<lambda>(now, cancel, as). length as, \<lambda>(now, cancel, as). nat (cancel - now)]") (auto simp: readDeadline_def millisecond_def)

declare rtcp_end.simps [simp del]

text \<open>A sender that never pauses for longer than the deadline, starting from \<open>t\<close>.\<close>

fun steady :: "instant \<Rightarrow> instant list \<Rightarrow> bool" where
  "steady t [] = True"
| "steady t (a # as) = (t \<le> a \<and> a \<le> t + readDeadline \<and> steady a as)"

lemma readDeadline_pos: "0 < readDeadline"
  by (simp add: readDeadline_def millisecond_def)

lemma rtcp_end_after: "now + readDeadline \<le> rtcp_end now cancel as"
proof (induction now cancel as rule: rtcp_end.induct)
  case (1 now cancel)
  then show ?case using readDeadline_pos rtcp_end.simps(1) [of now cancel] by (cases "cancel \<le> now + readDeadline") simp_all
next
  case (2 now cancel a as)
  then show ?case using readDeadline_pos rtcp_end.simps(2) [of now cancel a as]
    by (cases "a \<le> now + readDeadline"; cases "cancel \<le> now + readDeadline") simp_all
qed

lemma steady_last: "steady t as \<Longrightarrow> t \<le> last (t # as)"
  by (induction as arbitrary: t) (auto split: if_splits, force)

lemma rtcp_end_steady:
  assumes "steady now as"
  shows "rtcp_end now cancel (as @ bs) = rtcp_end (last (now # as)) cancel bs"
  using assms by (induction as arbitrary: now) (auto simp: max_def rtcp_end.simps(2))

lemma rtcp_end_bound:
  assumes "sorted (now # as)"
  shows "rtcp_end now cancel as \<le> max cancel (last (now # as)) + readDeadline"
  using assms
proof (induction now cancel as rule: rtcp_end.induct)
  case (1 now cancel)
  then show ?case using readDeadline_pos rtcp_end.simps(1) [of now cancel] by (cases "cancel \<le> now + readDeadline") simp_all
next
  case (2 now cancel a as)
  consider (packet) "a \<le> now + readDeadline" | (stop) "\<not> a \<le> now + readDeadline" "cancel \<le> now + readDeadline"
    | (idle) "\<not> a \<le> now + readDeadline" "\<not> cancel \<le> now + readDeadline" by blast
  then show ?case
  proof cases
    case packet
    then have "max now a = a" using "2.prems" by simp
    with packet "2.IH"(1) [OF packet] "2.prems" show ?thesis by (simp add: rtcp_end.simps(2))
  next
    case stop
    have "a \<le> last (a # as)" using "2.prems" by (cases as rule: rev_cases) auto
    moreover have "now \<le> a" using stop readDeadline_pos by simp
    ultimately show ?thesis using stop by (auto simp: rtcp_end.simps(2))
  next
    case idle
    have "sorted ((now + readDeadline) # a # as)" using "2.prems" idle by auto
    with "2.IH"(2) [OF idle this] idle show ?thesis by (simp add: rtcp_end.simps(2))
  qed
qed

text \<open>
  C16.  Closing the bridge waits for the sender to fall silent.  As long as RTCP packets keep coming at intervals of at most half a second the loop does not see
  that it has been cancelled, so that it returns half a second after the last of them at the earliest, however long ago the
  cancellation was; and it does return, at most half a second after both the cancellation and the last packet.
\<close>

theorem close_waits_for_silence:
  assumes "sorted (now # as)"
  shows "rtcp_end now cancel as \<le> max cancel (last (now # as)) + readDeadline
    \<and> (steady now as \<longrightarrow> last (now # as) + readDeadline \<le> rtcp_end now cancel as)"
  using rtcp_end_bound [OF assms] rtcp_end_steady [of now as cancel "[]"] rtcp_end_after [of "last (now # as)" cancel "[]"] by auto

text \<open>A sender report every 200 ms for two seconds, the session closed at once.\<close>

lemma close_waits_for_silence_witness:
  "2500 * millisecond \<le> rtcp_end 0 0 (map (\<lambda>i. 200 * i * millisecond) [1, 2, 3, 4, 5, 6, 7, 8, 9, 10])"
  using close_waits_for_silence [of 0 "map (\<lambda>i. 200 * i * millisecond) [1, 2, 3, 4, 5, 6, 7, 8, 9, 10]" 0]
  by (simp add: millisecond_def readDeadline_def)


section \<open>The session while it runs and closes\<close>

text \<open>
  One medium's socket and counters.  \<open>br_delivered\<close> and \<open>br_stray\<close> are histories: datagrams sent to the session's ports while it owned them, and after it had given
  them back to the allocator.  \<open>br_wait\<close> is the counter of the \<open>sync.WaitGroup\<close>, \<open>br_released\<close>: the ports are back.
\<close>

record mediaPath =
  mp_open :: bool
  mp_packets :: "64 word"
  mp_errors :: "64 word"
  mp_delivered :: nat

record bridgeState =
  br_video :: mediaPath
  br_audio :: mediaPath
  br_cancelled :: bool
  br_wait :: nat
  br_released :: bool
  br_reports :: nat
  br_stray :: nat

definition path_start :: mediaPath where
  "path_start = \<lparr>mp_open = True, mp_packets = 0, mp_errors = 0, mp_delivered = 0\<rparr>"

definition bridge_start :: bridgeState where
  "bridge_start = \<lparr>br_video = path_start, br_audio = path_start, br_cancelled = False, br_wait = 3, br_released = False, br_reports = 0, br_stray = 0\<rparr>"

text \<open>
  A packet handed over by the track's goroutine, which had read \<open>st.session\<close> before; the two report loops; the statistics; and \<open>Close\<close>.
  The Boolean says whether it is video.
\<close>

datatype bridgeRoutine = ForwardRTP bool | WriteRTP bool | ReportLoop bool | ReportSend bool | StatsLoop
  | CloseSessionCall | CloseWait | CloseVideo | CloseAudio | ReleasePorts

definition path_of :: "bool \<Rightarrow> bridgeState \<Rightarrow> mediaPath" where "path_of video s = (if video then br_video s else br_audio s)"

definition on_path :: "bool \<Rightarrow> (mediaPath \<Rightarrow> mediaPath) \<Rightarrow> bridgeState \<Rightarrow> bridgeState" where
  "on_path video f s = (if video then s\<lparr>br_video := f (br_video s)\<rparr> else s\<lparr>br_audio := f (br_audio s)\<rparr>)"

definition count_packet :: "mediaPath \<Rightarrow> mediaPath" where "count_packet m = m\<lparr>mp_packets := mp_packets m + 1\<rparr>"

text \<open>A write on a closed socket fails; on an open one it may.\<close>

definition write_ok :: "mediaPath \<Rightarrow> mediaPath" where "write_ok m = m\<lparr>mp_delivered := mp_delivered m + 1\<rparr>"
definition write_failed :: "mediaPath \<Rightarrow> mediaPath" where "write_failed m = m\<lparr>mp_errors := mp_errors m + 1\<rparr>"

definition sent_now :: "bridgeState \<Rightarrow> bridgeState" where
  "sent_now s = (if br_released s then s\<lparr>br_stray := br_stray s + 1\<rparr> else s)"

definition done_one :: "bridgeState \<Rightarrow> bridgeState" where "done_one s = s\<lparr>br_wait := br_wait s - 1\<rparr>"

fun bridge_act :: "(bridgeState, bridgeRoutine) action" where
  "bridge_act s (ForwardRTP v) = [(on_path v count_packet s, [WriteRTP v])]"
| "bridge_act s (WriteRTP v) =
     (if mp_open (path_of v s) then [(sent_now (on_path v write_ok s), []), (on_path v write_failed s, [])]
      else [(on_path v write_failed s, [])])"
| "bridge_act s (ReportLoop v) =
     (if br_cancelled s then [(done_one s, [])] else []) @ [(s, [ReportLoop v]), (s, [ReportSend v]), (done_one s, [])]"
| "bridge_act s (ReportSend v) = [(sent_now (s\<lparr>br_reports := br_reports s + 1\<rparr>), [ReportLoop v]), (done_one s, [])]"
| "bridge_act s StatsLoop = (if br_cancelled s then [(done_one s, [])] else [(s, [StatsLoop])])"
| "bridge_act s CloseSessionCall = [(s\<lparr>br_cancelled := True\<rparr>, [CloseWait])]"
| "bridge_act s CloseWait = (if br_wait s = 0 then [(s, [CloseVideo])] else [])"
| "bridge_act s CloseVideo = [(on_path True (mp_open_update (\<lambda>_. False)) s, [CloseAudio])]"
| "bridge_act s CloseAudio = [(on_path False (mp_open_update (\<lambda>_. False)) s, [ReleasePorts])]"
| "bridge_act s ReleasePorts = [(s\<lparr>br_released := True\<rparr>, [])]"

fun bridge_arrives :: "bridgeRoutine \<Rightarrow> bool" where
  "bridge_arrives (ForwardRTP v) = True"
| "bridge_arrives _ = False"

definition bridge_routines :: "bridgeRoutine list" where
  "bridge_routines = [ReportLoop True, ReportLoop False, StatsLoop, CloseSessionCall]"

fun background :: "bridgeRoutine \<Rightarrow> nat" where
  "background (ReportLoop v) = 1"
| "background (ReportSend v) = 1"
| "background StatsLoop = 1"
| "background _ = 0"

fun closer :: "bridgeRoutine \<Rightarrow> nat" where
  "closer CloseSessionCall = 1"
| "closer CloseWait = 1"
| "closer CloseVideo = 1"
| "closer CloseAudio = 1"
| "closer ReleasePorts = 1"
| "closer _ = 0"

fun closer_ok :: "bridgeState \<Rightarrow> bridgeRoutine \<Rightarrow> bool" where
  "closer_ok s CloseVideo = (br_wait s = 0)"
| "closer_ok s CloseAudio = (br_wait s = 0 \<and> \<not> mp_open (br_video s))"
| "closer_ok s ReleasePorts = (br_wait s = 0 \<and> \<not> mp_open (br_video s) \<and> \<not> mp_open (br_audio s))"
| "closer_ok s _ = True"

fun writing_on :: "bool \<Rightarrow> bridgeRoutine \<Rightarrow> nat" where
  "writing_on v (WriteRTP w) = of_bool (v = w)"
| "writing_on v _ = 0"

definition path_ok :: "nat \<Rightarrow> mediaPath \<Rightarrow> bool" where
  "path_ok k m \<longleftrightarrow> mp_packets m = of_nat (mp_delivered m) + mp_errors m + of_nat k"

definition bridge_ok :: "bridgeState \<Rightarrow> bridgeRoutine multiset \<Rightarrow> bool" where
  "bridge_ok s ts \<longleftrightarrow> br_wait s = tally background ts \<and> tally closer ts + of_bool (br_released s) = 1
     \<and> (\<forall>t \<in># ts. closer_ok s t)
     \<and> (br_released s \<longrightarrow> br_wait s = 0 \<and> \<not> mp_open (br_video s) \<and> \<not> mp_open (br_audio s))
     \<and> path_ok (tally (writing_on True) ts) (br_video s) \<and> path_ok (tally (writing_on False) ts) (br_audio s)
     \<and> br_stray s = 0"

lemma closer_ok_mono:
  assumes "closer_ok s t" and "br_wait s' \<le> br_wait s" and "mp_open (br_video s') \<longrightarrow> mp_open (br_video s)"
    and "mp_open (br_audio s') \<longrightarrow> mp_open (br_audio s)"
  shows "closer_ok s' t"
  using assms by (cases t) auto

lemmas bridge_defs = on_path_def path_of_def count_packet_def write_ok_def write_failed_def sent_now_def done_one_def path_ok_def

lemma bridge_hand: "bridge_ok s ts \<Longrightarrow> t \<in># ts \<Longrightarrow> closer_ok s t"
  by (simp add: bridge_ok_def)

lemma bridge_kept:
  assumes "bridge_ok s (add_mset t ts)" and "br_wait s' \<le> br_wait s" and "mp_open (br_video s') \<longrightarrow> mp_open (br_video s)"
    and "mp_open (br_audio s') \<longrightarrow> mp_open (br_audio s)"
  shows "\<forall>u \<in># ts. closer_ok s' u"
  using assms closer_ok_mono [of s _ s'] bridge_hand [OF assms(1)] by (metis union_iff add_mset_add_single)

lemma not_released:
  assumes "bridge_ok s (add_mset t ts)" and "background t = 1"
  shows "\<not> br_released s"
  using assms by (auto simp: bridge_ok_def simp del: sum_mset_0_iff)

lemma open_not_released: "bridge_ok s ts \<Longrightarrow> mp_open (path_of v s) \<Longrightarrow> \<not> br_released s"
  by (cases v) (auto simp: bridge_ok_def path_of_def)

lemma bridge_done:
  assumes "bridge_ok s (add_mset t ts)" and "background t = 1" and "closer t = 0" and "writing_on True t = 0" and "writing_on False t = 0"
  shows "bridge_ok (done_one s) ts"
proof -
  have "\<forall>u \<in># ts. closer_ok (done_one s) u" by (rule bridge_kept [OF assms(1)]) (auto simp: done_one_def)
  with assms show ?thesis by (auto simp: bridge_ok_def done_one_def simp del: sum_mset_0_iff)
qed

lemma bridge_step:
  assumes ok: "bridge_ok s (add_mset t ts)" and act: "(s', new) \<in> set (bridge_act s t)"
  shows "bridge_ok s' (mset new + ts)"
proof (cases t)
  case (ForwardRTP v)
  with act have s': "s' = on_path v count_packet s" "new = [WriteRTP v]" by auto
  have "\<forall>u \<in># ts. closer_ok s' u" by (rule bridge_kept [OF ok]) (auto simp: s' bridge_defs)
  with ok ForwardRTP s' show ?thesis by (cases v) (auto simp: bridge_ok_def bridge_defs simp del: sum_mset_0_iff)
next
  case (WriteRTP v)
  from act WriteRTP consider (sent) "mp_open (path_of v s)" "s' = sent_now (on_path v write_ok s)" "new = []"
    | (failed) "s' = on_path v write_failed s" "new = []"
    by (cases "mp_open (path_of v s)") auto
  then show ?thesis
  proof cases
    case sent
    have n: "\<not> br_released s" using open_not_released [OF ok sent(1)] .
    then have s': "s' = on_path v write_ok s" using sent by (cases v) (auto simp: bridge_defs)
    have "\<forall>u \<in># ts. closer_ok s' u" by (rule bridge_kept [OF ok]) (auto simp: s' bridge_defs)
    with ok WriteRTP s' sent(3) show ?thesis by (cases v) (auto simp: bridge_ok_def bridge_defs simp del: sum_mset_0_iff)
  next
    case failed
    have "\<forall>u \<in># ts. closer_ok s' u" by (rule bridge_kept [OF ok]) (auto simp: failed bridge_defs)
    with ok WriteRTP failed show ?thesis by (cases v) (auto simp: bridge_ok_def bridge_defs simp del: sum_mset_0_iff)
  qed
next
  case (ReportLoop v)
  from act ReportLoop consider "s' = s" "new = [ReportLoop v]" | "s' = s" "new = [ReportSend v]" | "s' = done_one s" "new = []"
    by (cases "br_cancelled s") auto
  then show ?thesis
    using ok ReportLoop bridge_done [OF ok] by cases (auto simp: bridge_ok_def simp del: sum_mset_0_iff)
next
  case (ReportSend v)
  have n: "\<not> br_released s" using not_released [OF ok] ReportSend by simp
  from act ReportSend consider "s' = sent_now (s\<lparr>br_reports := br_reports s + 1\<rparr>)" "new = [ReportLoop v]" | "s' = done_one s" "new = []" by auto
  then show ?thesis
  proof cases
    case 1
    have s': "s' = s\<lparr>br_reports := br_reports s + 1\<rparr>" using 1 n by (simp add: sent_now_def)
    have "\<forall>u \<in># ts. closer_ok s' u" by (rule bridge_kept [OF ok]) (auto simp: s')
    with ok ReportSend s' 1(2) show ?thesis by (auto simp: bridge_ok_def simp del: sum_mset_0_iff)
  next
    case 2
    then show ?thesis using bridge_done [OF ok] ReportSend by simp
  qed
next
  case StatsLoop
  from act StatsLoop consider "s' = s" "new = [StatsLoop]" | "s' = done_one s" "new = []" by (cases "br_cancelled s") auto
  then show ?thesis using ok StatsLoop bridge_done [OF ok] by cases (auto simp: bridge_ok_def simp del: sum_mset_0_iff)
next
  case CloseSessionCall
  with act have s': "s' = s\<lparr>br_cancelled := True\<rparr>" "new = [CloseWait]" by auto
  have "\<forall>u \<in># ts. closer_ok s' u" by (rule bridge_kept [OF ok]) (auto simp: s')
  with ok CloseSessionCall s' show ?thesis by (auto simp: bridge_ok_def simp del: sum_mset_0_iff)
next
  case CloseWait
  then have "s' = s" "new = [CloseVideo]" "br_wait s = 0" using act by (auto split: if_splits)
  then show ?thesis using ok CloseWait by (auto simp: bridge_ok_def simp del: sum_mset_0_iff)
next
  case CloseVideo
  with act have s': "s' = on_path True (mp_open_update (\<lambda>_. False)) s" "new = [CloseAudio]" by auto
  have "\<forall>u \<in># ts. closer_ok s' u" by (rule bridge_kept [OF ok]) (auto simp: s' bridge_defs)
  with ok CloseVideo s' show ?thesis by (auto simp: bridge_ok_def bridge_defs simp del: sum_mset_0_iff)
next
  case CloseAudio
  with act have s': "s' = on_path False (mp_open_update (\<lambda>_. False)) s" "new = [ReleasePorts]" by auto
  have "\<forall>u \<in># ts. closer_ok s' u" by (rule bridge_kept [OF ok]) (auto simp: s' bridge_defs)
  with ok CloseAudio s' show ?thesis by (auto simp: bridge_ok_def bridge_defs simp del: sum_mset_0_iff)
next
  case ReleasePorts
  with act have s': "s' = s\<lparr>br_released := True\<rparr>" "new = []" by auto
  have "\<forall>u \<in># ts. closer_ok s' u" by (rule bridge_kept [OF ok]) (auto simp: s')
  with ok ReleasePorts s' show ?thesis by (auto simp: bridge_ok_def simp del: sum_mset_0_iff split: if_splits)
qed

lemma bridge_arrival: "bridge_ok s ts \<Longrightarrow> bridge_arrives t \<Longrightarrow> bridge_ok s (add_mset t ts)"
  by (cases t) (auto simp: bridge_ok_def)

interpretation bridging: interleaving bridge_act bridge_arrives bridge_ok
  by unfold_locales (auto intro: bridge_step bridge_arrival)

lemma bridge_init: "bridge_ok bridge_start (mset bridge_routines)"
  by (auto simp: bridge_ok_def bridge_start_def bridge_routines_def path_ok_def path_start_def)

text \<open>
  C17.  However forwarding and closing interleave, no datagram of a stream is sent to its ports after they have been given back, so that the next stream's
  recorder, which may get the same ports, never hears it; and at rest every packet counted was sent or counted as an error.
\<close>

theorem no_stray_packets:
  assumes "reach bridge_act bridge_arrives (bridge_start, mset bridge_routines) (s, ts)"
  shows "br_stray s = 0
    \<and> (br_released s \<longrightarrow> \<not> mp_open (br_video s) \<and> \<not> mp_open (br_audio s) \<and> tally background ts = 0)
    \<and> (tally (writing_on v) ts = 0 \<longrightarrow> mp_packets (path_of v s) = of_nat (mp_delivered (path_of v s)) + mp_errors (path_of v s))"
proof -
  have ok: "bridge_ok s ts" by (rule bridging.ok_reachable [OF assms bridge_init])
  have "tally (writing_on v) ts = 0 \<longrightarrow> mp_packets (path_of v s) = of_nat (mp_delivered (path_of v s)) + mp_errors (path_of v s)"
  proof
    assume z: "tally (writing_on v) ts = 0"
    have "path_ok (tally (writing_on v) ts) (path_of v s)" using ok by (cases v) (simp_all add: bridge_ok_def path_of_def)
    then show "mp_packets (path_of v s) = of_nat (mp_delivered (path_of v s)) + mp_errors (path_of v s)"
      unfolding z by (simp add: path_ok_def)
  qed
  with ok show ?thesis by (auto simp: bridge_ok_def simp del: sum_mset_0_iff)
qed

text \<open>A packet is handed over while the session closes: it is written after the socket is gone, and counted as an error.\<close>

definition late_packet :: "bridgeRoutine move list" where
  "late_packet = [Arrive (ForwardRTP True), Act 4 0, Act 3 0, Act 0 0, Act 0 0, Act 0 0, Act 0 0, Act 0 0, Act 0 0, Act 0 0, Act 0 0]"

definition late_bridge :: bridgeState where
  "late_bridge = \<lparr>br_video = \<lparr>mp_open = False, mp_packets = 1, mp_errors = 1, mp_delivered = 0\<rparr>,
     br_audio = \<lparr>mp_open = False, mp_packets = 0, mp_errors = 0, mp_delivered = 0\<rparr>,
     br_cancelled = True, br_wait = 0, br_released = True, br_reports = 0, br_stray = 0\<rparr>"

lemma late_packet_run: "play bridge_act bridge_arrives (bridge_start, bridge_routines) late_packet = Some (late_bridge, [])"
  by (simp add: late_packet_def bridge_start_def bridge_routines_def late_bridge_def path_start_def bridge_defs)

lemma no_stray_packets_witness: "br_stray late_bridge = 0 \<and> mp_packets (br_video late_bridge) = mp_errors (br_video late_bridge)"
proof -
  have r: "reach bridge_act bridge_arrives (bridge_start, mset bridge_routines) (late_bridge, {#})"
    using play_reach [OF late_packet_run, of "(bridge_start, mset bridge_routines)"] by (simp add: reach.start)
  show ?thesis using no_stray_packets [OF r, of True] by (simp add: path_of_def late_bridge_def)
qed

end
