(* ===== verification/Reorder.thy ===== *)
theory Reorder
  imports Prelude
begin

text \<open>
  The RTP reorder buffer of \<open>internal/recorder/frame_extractor.go\<close> (\<open>reorderBuffer\<close>,
  \<open>push\<close>, \<open>giveUpAndDrain\<close>).  The Go map \<open>pending\<close> is an association list with distinct
  keys (a nil map is the empty list), sequence numbers are 16-bit words, and the clock is the
  argument \<open>now\<close>: one reading per call of \<open>push\<close>.
\<close>

section \<open>State\<close>

record packet =
  SequenceNumber :: "16 word"
  Timestamp :: "32 word"
  Marker :: bool
  Payload :: "8 word list"

record reorderBuffer =
  pending :: "(16 word \<times> packet) list"
  nextSeq :: "16 word"
  hasNext :: bool
  gapSince :: instant

definition empty_reorder :: reorderBuffer where
  "empty_reorder = \<lparr>pending = [], nextSeq = 0, hasNext = False, gapSince = zero_time\<rparr>"

definition reorderMaxWait :: duration where "reorderMaxWait = 120 * millisecond"
definition reorderMaxHold :: nat where "reorderMaxHold = 64"

section \<open>Operations\<close>

text \<open>The loop shared by \<open>push\<close> and \<open>giveUpAndDrain\<close>: emit while the next number is buffered.\<close>

function drain :: "reorderBuffer \<Rightarrow> packet list \<times> reorderBuffer" where
  "drain rb = (case map_of (pending rb) (nextSeq rb) of
      None \<Rightarrow> ([], rb)
    | Some p \<Rightarrow>
        (let (out, rb') = drain (rb\<lparr>pending := AList.delete (nextSeq rb) (pending rb),
                                    nextSeq := nextSeq rb + 1\<rparr>)
         in (p # out, rb')))"
  by pat_completeness auto
termination
  by (relation "measure (length \<circ> pending)") (auto dest: length_delete_lt)

declare drain.simps [simp del]

definition giveUpAndDrain :: "instant \<Rightarrow> reorderBuffer \<Rightarrow> packet list \<times> reorderBuffer" where
  "giveUpAndDrain now rb =
     (let (out, rb1) = drain (rb\<lparr>nextSeq := nextSeq rb + 1\<rparr>)
      in (out, if pending rb1 \<noteq> [] then rb1\<lparr>gapSince := now\<rparr> else rb1))"

text \<open>\<open>int32(int16(a - b))\<close>: the signed 16-bit distance.\<close>

definition seq_delta :: "16 word \<Rightarrow> 16 word \<Rightarrow> int" where
  "seq_delta a b = sint (a - b)"

definition push :: "instant \<Rightarrow> reorderBuffer \<Rightarrow> packet \<Rightarrow> packet list \<times> reorderBuffer" where
  "push now rb0 pkt =
     (let rb = (if hasNext rb0 then rb0
                else rb0\<lparr>nextSeq := SequenceNumber pkt, hasNext := True\<rparr>);
          delta = seq_delta (SequenceNumber pkt) (nextSeq rb)
      in if delta < 0 then ([], rb)
         else if delta > 0 then
           (let rb1 = (if pending rb = [] then rb\<lparr>gapSince := now\<rparr> else rb);
                rb2 = rb1\<lparr>pending := AList.update (SequenceNumber pkt) pkt (pending rb1)\<rparr>
            in if reorderMaxHold \<le> length (pending rb2)
                  \<or> reorderMaxWait \<le> time_sub now (gapSince rb2)
               then giveUpAndDrain now rb2
               else ([], rb2))
         else
           (let (out, rb1) = drain (rb\<lparr>nextSeq := nextSeq rb + 1\<rparr>)
            in (pkt # out, rb1)))"

text \<open>A whole arrival sequence, each packet with the clock reading of its arrival.\<close>

definition push_at :: "reorderBuffer \<Rightarrow> instant \<times> packet \<Rightarrow> packet list \<times> reorderBuffer" where
  "push_at rb tp = push (fst tp) rb (snd tp)"

abbreviation push_all :: "reorderBuffer \<Rightarrow> (instant \<times> packet) list \<Rightarrow> packet list \<times> reorderBuffer"
  where "push_all \<equiv> feed push_at"

section \<open>Invariant\<close>

text \<open>
  Every buffered packet is filed under its own number, the keys are distinct, and each lies
  strictly ahead of \<open>nextSeq\<close> in 16-bit distance: no deliverable packet is withheld.
\<close>

definition filed :: "(16 word \<times> packet) list \<Rightarrow> bool" where
  "filed al \<longleftrightarrow> distinct (map fst al) \<and> (\<forall>(k, p) \<in> set al. SequenceNumber p = k)"

definition ahead :: "16 word \<Rightarrow> (16 word \<times> packet) list \<Rightarrow> bool" where
  "ahead n al \<longleftrightarrow> (\<forall>k \<in> fst ` set al. 0 < seq_delta k n)"

definition reorder_inv :: "reorderBuffer \<Rightarrow> bool" where
  "reorder_inv rb \<longleftrightarrow> filed (pending rb) \<and> ahead (nextSeq rb) (pending rb)
     \<and> (\<not> hasNext rb \<longrightarrow> pending rb = [])"

lemma filed_delete [inv_intro]: "filed al \<Longrightarrow> filed (AList.delete k al)"
  using set_delete_subset [of k al] by (auto simp: filed_def)

lemma filed_update [inv_intro]:
  "filed al \<Longrightarrow> filed (AList.update (SequenceNumber p) p al)"
  using set_update_subset [of "SequenceNumber p" p al]
  by (auto simp: filed_def distinct_update)

lemma filed_lookup: "filed al \<Longrightarrow> map_of al k = Some p \<Longrightarrow> SequenceNumber p = k"
  by (auto simp: filed_def dest: map_of_SomeD)

lemma seq_delta_self [simp]: "seq_delta a a = 0"
  by (simp add: seq_delta_def)

lemma seq_delta_zero: "seq_delta a b = 0 \<Longrightarrow> a = b"
proof -
  assume "seq_delta a b = 0"
  then have "sint (a - b) = sint (0 :: 16 word)" by (simp add: seq_delta_def)
  then have "a - b = 0" by (rule signed_word_eqI)
  then show "a = b" by simp
qed

lemma seq_delta_range: "- 32768 \<le> seq_delta a b" "seq_delta a b \<le> 32767"
  using sint_greater_eq [of "a - b"] sint_less [of "a - b"] by (simp_all add: seq_delta_def)

text \<open>Moving the window forward by one lowers a positive distance by exactly one.\<close>

lemma seq_delta_step:
  assumes "0 < seq_delta k n"
  shows "seq_delta k (n + 1) = seq_delta k n - 1"
proof -
  have e: "k - (n + 1) = (k - n) - 1" by simp
  have "sint ((k - n) - 1) = sint (k - n) - 1"
    using assms seq_delta_range [of k n] unfolding seq_delta_def
    by (simp add: sint_word_ariths signed_take_bit_int_eq_self)
  then show ?thesis unfolding seq_delta_def by (simp only: e)
qed

lemma ahead_step:
  assumes "ahead n al" and "n + 1 \<notin> fst ` set al"
  shows "ahead (n + 1) al"
  unfolding ahead_def
proof
  fix k assume k: "k \<in> fst ` set al"
  with assms(1) have pos: "0 < seq_delta k n" by (auto simp: ahead_def)
  from k assms(2) have "k \<noteq> n + 1" by blast
  then have "seq_delta k (n + 1) \<noteq> 0" using seq_delta_zero by blast
  with pos seq_delta_step [OF pos] show "0 < seq_delta k (n + 1)" by linarith
qed

lemma ahead_empty [simp]: "ahead n []"
  by (simp add: ahead_def)

text \<open>Draining from \<open>n + 1\<close> when everything is ahead of \<open>n\<close>.\<close>

lemma drain_spec:
  assumes "filed (pending rb)" and "ahead n (pending rb)" and "nextSeq rb = n + 1"
    and "drain rb = (out, rb')"
  shows "filed (pending rb') \<and> ahead (nextSeq rb') (pending rb')
    \<and> hasNext rb' = hasNext rb \<and> gapSince rb' = gapSince rb
    \<and> nextSeq rb' = nextSeq rb + of_nat (length out)
    \<and> map SequenceNumber out = map (\<lambda>i. nextSeq rb + of_nat i) [0..<length out]
    \<and> set (map snd (pending rb)) = set out \<union> set (map snd (pending rb'))
    \<and> length (pending rb) = length out + length (pending rb')"
  using assms
proof (induction rb arbitrary: n out rb' rule: drain.induct)
  case (1 rb)
  show ?case
  proof (cases "map_of (pending rb) (nextSeq rb)")
    case None
    then have "nextSeq rb \<notin> fst ` set (pending rb)" by (simp add: map_of_eq_None_iff)
    with "1.prems" None show ?thesis
      by (auto simp: drain.simps [of rb] intro: ahead_step)
  next
    case (Some p)
    let ?rb1 = "rb\<lparr>pending := AList.delete (nextSeq rb) (pending rb), nextSeq := nextSeq rb + 1\<rparr>"
    obtain out1 where out: "out = p # out1" and rec: "drain ?rb1 = (out1, rb')"
      using "1.prems"(4) Some by (auto simp: drain.simps [of rb] split: prod.splits)
    have num: "SequenceNumber p = nextSeq rb"
      using "1.prems"(1) Some by (rule filed_lookup)
    have a1: "ahead (nextSeq rb) (pending ?rb1)"
      unfolding ahead_def
    proof
      fix k assume "k \<in> fst ` set (pending ?rb1)"
      then have k: "k \<in> fst ` set (pending rb)" and ne: "k \<noteq> nextSeq rb" by auto
      then have pos: "0 < seq_delta k n" using "1.prems"(2) by (auto simp: ahead_def)
      have "seq_delta k (nextSeq rb) \<noteq> 0" using ne seq_delta_zero by blast
      with seq_delta_step [OF pos] pos "1.prems"(3) show "0 < seq_delta k (nextSeq rb)" by simp
    qed
    have f1: "filed (pending ?rb1)" using "1.prems"(1) by (simp add: filed_delete)
    have dist: "distinct (map fst (pending rb))" using "1.prems"(1) by (simp add: filed_def)
    have len: "length (pending rb) = Suc (length (pending ?rb1))"
      and mem: "set (map snd (pending rb)) = insert p (set (map snd (pending ?rb1)))"
      using perm_delete [OF dist Some] by simp_all
    from "1.IH" [OF Some f1 a1 _ rec] have IH:
      "filed (pending rb')" "ahead (nextSeq rb') (pending rb')"
      "hasNext rb' = hasNext rb" "gapSince rb' = gapSince rb"
      "nextSeq rb' = nextSeq rb + 1 + of_nat (length out1)"
      "map SequenceNumber out1 = map (\<lambda>i. nextSeq rb + 1 + of_nat i) [0..<length out1]"
      "set (map snd (pending ?rb1)) = set out1 \<union> set (map snd (pending rb'))"
      "length (pending ?rb1) = length out1 + length (pending rb')"
      by auto
    have "map SequenceNumber out = map (\<lambda>i. nextSeq rb + of_nat i) [0..<length out]"
      using IH(6) num out by (simp add: upt_conv_Cons map_Suc_upt [symmetric] add.assoc comp_def del: upt_Suc)
    with IH out mem len show ?thesis by (simp add: add.assoc)
  qed
qed

abbreviation held :: "reorderBuffer \<Rightarrow> packet set" where
  "held rb \<equiv> set (map snd (pending rb))"

lemma reorder_inv_empty [simp, inv_intro]: "reorder_inv empty_reorder"
  by (simp add: reorder_inv_def empty_reorder_def filed_def)

lemma giveUp_spec:
  assumes "filed (pending rb)" and "ahead (nextSeq rb) (pending rb)"
    and "giveUpAndDrain now rb = (out, rb')"
  shows "filed (pending rb') \<and> ahead (nextSeq rb') (pending rb') \<and> hasNext rb' = hasNext rb
    \<and> nextSeq rb' = nextSeq rb + 1 + of_nat (length out)
    \<and> map SequenceNumber out = map (\<lambda>i. nextSeq rb + 1 + of_nat i) [0..<length out]
    \<and> held rb = set out \<union> held rb'
    \<and> length (pending rb) = length out + length (pending rb')"
proof -
  let ?rb1 = "rb\<lparr>nextSeq := nextSeq rb + 1\<rparr>"
  obtain o1 r1 where d: "drain ?rb1 = (o1, r1)" by fastforce
  have "filed (pending ?rb1)" "ahead (nextSeq rb) (pending ?rb1)" "nextSeq ?rb1 = nextSeq rb + 1"
    using assms by simp_all
  from drain_spec [OF this d] assms(3) d show ?thesis
    by (auto simp: giveUpAndDrain_def split: if_splits)
qed

lemma seq_delta_update_ahead:
  assumes "ahead n al" and "0 < seq_delta k n"
  shows "ahead n (AList.update k v al)"
  using assms by (auto simp: ahead_def)

lemma held_update: "set (map snd (AList.update k p al)) \<subseteq> insert p (set (map snd al))"
  using set_update_subset [of k p al] by force

text \<open>What one call of \<open>push\<close> does to the buffer, on every branch.\<close>

lemma push_spec:
  assumes "reorder_inv rb" and "push now rb pkt = (out, rb')"
  shows "reorder_inv rb' \<and> hasNext rb'
    \<and> map SequenceNumber out
        = map (\<lambda>i. nextSeq rb' - of_nat (length out) + of_nat i) [0..<length out]
    \<and> set out \<union> held rb' \<subseteq> insert pkt (held rb)"
proof -
  define r0 where "r0 = (if hasNext rb then rb
                         else rb\<lparr>nextSeq := SequenceNumber pkt, hasNext := True\<rparr>)"
  define d where "d = seq_delta (SequenceNumber pkt) (nextSeq r0)"
  define r1 where "r1 = (if pending r0 = [] then r0\<lparr>gapSince := now\<rparr> else r0)"
  define r2 where "r2 = r1\<lparr>pending := AList.update (SequenceNumber pkt) pkt (pending r1)\<rparr>"
  have i0: "filed (pending r0)" "ahead (nextSeq r0) (pending r0)" "hasNext r0"
      "pending r0 = pending rb"
    using assms(1) by (auto simp: r0_def reorder_inv_def)
  consider (past) "d < 0" | (due) "d = 0" | (future) "0 < d" by linarith
  then show ?thesis
  proof cases
    case past
    with assms(2) i0 show ?thesis
      by (auto simp: push_def Let_def r0_def [symmetric] d_def [symmetric] reorder_inv_def)
  next
    case due
    let ?r = "r0\<lparr>nextSeq := nextSeq r0 + 1\<rparr>"
    have num: "SequenceNumber pkt = nextSeq r0" using due by (intro seq_delta_zero) (simp add: d_def)
    obtain o1 where o1: "drain ?r = (o1, rb')" "out = pkt # o1"
      using assms(2) due
      by (auto simp: push_def Let_def r0_def [symmetric] d_def [symmetric] split: prod.splits)
    from drain_spec [OF _ _ _ o1(1), of "nextSeq r0"] i0
    have s: "filed (pending rb')" "ahead (nextSeq rb') (pending rb')" "hasNext rb'"
      "nextSeq rb' = nextSeq r0 + 1 + of_nat (length o1)"
      "map SequenceNumber o1 = map (\<lambda>i. nextSeq r0 + 1 + of_nat i) [0..<length o1]"
      "held r0 = set o1 \<union> held rb'"
      by auto
    have "map SequenceNumber out = map (\<lambda>i. nextSeq r0 + of_nat i) [0..<length out]"
      using s(5) num o1(2)
      by (simp add: upt_conv_Cons map_Suc_upt [symmetric] add.assoc comp_def del: upt_Suc)
    moreover have "nextSeq rb' - of_nat (length out) = nextSeq r0" using s(4) o1(2) by simp
    ultimately show ?thesis using s i0 o1(2) by (auto simp: reorder_inv_def)
  next
    case future
    have p2: "pending r2 = AList.update (SequenceNumber pkt) pkt (pending rb)"
        "nextSeq r2 = nextSeq r0" "hasNext r2"
      using i0 by (simp_all add: r2_def r1_def)
    have i2: "filed (pending r2)" "ahead (nextSeq r2) (pending r2)"
        "held r2 \<subseteq> insert pkt (held rb)"
      unfolding p2 using i0 future held_update [of "SequenceNumber pkt" pkt "pending rb"]
      by (simp_all add: d_def filed_update seq_delta_update_ahead)
    have e: "push now rb pkt =
        (if reorderMaxHold \<le> length (pending r2) \<or> reorderMaxWait \<le> time_sub now (gapSince r2)
         then giveUpAndDrain now r2 else ([], r2))"
      unfolding push_def Let_def r0_def [symmetric] d_def [symmetric]
        r1_def [symmetric] r2_def [symmetric]
      using future by simp
    show ?thesis
    proof (cases "push now rb pkt = ([], r2)")
      case True
      with assms(2) i2 p2 show ?thesis by (auto simp: reorder_inv_def)
    next
      case False
      with e assms(2) have g: "giveUpAndDrain now r2 = (out, rb')" by (auto split: if_splits)
      from giveUp_spec [OF i2(1,2) g] i2(3) p2(3) show ?thesis by (auto simp: reorder_inv_def)
    qed
  qed
qed


section \<open>A repaired burst comes out in order\<close>

lemma seq_delta_of_nat:
  assumes "i < 32768" and "j < 32768"
  shows "seq_delta (n + of_nat i) (n + of_nat j) = int i - int j"
proof -
  have "n + of_nat i - (n + of_nat j) = (of_int (int i - int j) :: 16 word)" by simp
  moreover have "sint (of_int (int i - int j) :: 16 word) = int i - int j"
    using assms by (simp add: sint_sbintrunc' signed_take_bit_int_eq_self del: of_int_diff)
  ultimately show ?thesis by (simp only: seq_delta_def)
qed

lemma seq_inject:
  assumes "i < 32768" and "j < 32768"
  shows "n + of_nat i = (n + of_nat j :: 16 word) \<longleftrightarrow> i = j"
proof
  assume "n + of_nat i = (n + of_nat j :: 16 word)"
  then have "seq_delta (n + of_nat i) (n + of_nat j) = 0" by simp
  then show "i = j" using seq_delta_of_nat [OF assms, of n] by simp
qed simp

lemma keys_numbers: "filed al \<Longrightarrow> fst ` set al = SequenceNumber ` set (map snd al)"
  by (force simp: filed_def image_iff)

text \<open>
  State of a burst \<open>n, n+1, ..., n+m-1\<close> of which the first \<open>e\<close> are emitted and the numbers
  \<open>K\<close> are held back.
\<close>

definition burst :: "16 word \<Rightarrow> nat \<Rightarrow> instant \<Rightarrow> nat \<Rightarrow> nat set \<Rightarrow> reorderBuffer \<Rightarrow> bool" where
  "burst n m t0 e K rb \<longleftrightarrow> hasNext rb \<and> nextSeq rb = n + of_nat e \<and> filed (pending rb)
     \<and> fst ` set (pending rb) = (\<lambda>i. n + of_nat i) ` K \<and> K \<subseteq> {e<..<m} \<and> e \<le> m
     \<and> (pending rb \<noteq> [] \<longrightarrow> t0 \<le> gapSince rb)"

lemma burst_length:
  assumes "burst n m t0 e K rb" and "m \<le> 32768"
  shows "length (pending rb) = card K" and "finite K" and "ahead (nextSeq rb) (pending rb)"
proof -
  from assms(1) have K: "K \<subseteq> {e<..<m}" and em: "e \<le> m" by (auto simp: burst_def)
  then show fin: "finite K" using finite_subset by blast
  have "length (pending rb) = card (fst ` set (pending rb))"
    using assms(1) by (metis burst_def filed_def distinct_card length_map list.set_map)
  also have "\<dots> = card ((\<lambda>i. n + of_nat i :: 16 word) ` K)" using assms(1) by (simp add: burst_def)
  also have "\<dots> = card K"
    using K assms(2) by (intro card_image inj_onI) (subst (asm) seq_inject, auto)
  finally show "length (pending rb) = card K" .
  show "ahead (nextSeq rb) (pending rb)"
    unfolding ahead_def
  proof
    fix k assume "k \<in> fst ` set (pending rb)"
    then obtain i where i: "i \<in> K" "k = n + of_nat i" using assms(1) by (auto simp: burst_def)
    then have "e < i" "i < m" using K by auto
    then show "0 < seq_delta k (nextSeq rb)"
      using assms i by (simp add: burst_def seq_delta_of_nat)
  qed
qed

lemma burst_hold:
  assumes "burst n m t0 e K rb" and "m \<le> 64" and "e < i" "i < m" "i \<notin> K"
    and "SequenceNumber p = n + of_nat i" and "t0 \<le> t" "t < t0 + reorderMaxWait"
  shows "\<exists>rb'. push t rb p = ([], rb') \<and> burst n m t0 e (insert i K) rb'
           \<and> held rb' = insert p (held rb)"
proof -
  note B = burst_length [OF assms(1)]
  have b: "hasNext rb" "nextSeq rb = n + of_nat e" "K \<subseteq> {e<..<m}"
      "fst ` set (pending rb) = (\<lambda>i. n + of_nat i) ` K" "filed (pending rb)"
    using assms(1) by (auto simp: burst_def)
  have d: "seq_delta (SequenceNumber p) (nextSeq rb) = int i - int e"
    using assms b(2) by (simp add: seq_delta_of_nat)
  have new: "SequenceNumber p \<notin> fst ` set (pending rb)"
  proof
    assume "SequenceNumber p \<in> fst ` set (pending rb)"
    then obtain j where "j \<in> K" "n + of_nat i = (n + of_nat j :: 16 word)"
      using b(4) assms(6) by auto
    then show False using seq_inject [of i j n] b(3) assms(2,4,5) by auto
  qed
  let ?r1 = "if pending rb = [] then rb\<lparr>gapSince := t\<rparr> else rb"
  let ?r2 = "?r1\<lparr>pending := AList.update (SequenceNumber p) p (pending rb)\<rparr>"
  have "insert i K \<subseteq> {e<..<m}" using b(3) assms by auto
  then have "card (insert i K) \<le> card {e<..<m}" by (intro card_mono) auto
  then have "card (insert i K) < 64" using assms by simp
  then have len: "length (pending ?r2) < reorderMaxHold"
    using new B assms by (simp add: length_update_new reorderMaxHold_def)
  have gap: "t0 \<le> gapSince ?r2" using assms(1,7) by (simp add: burst_def)
  then have wait: "time_sub t (gapSince ?r2) < reorderMaxWait"
    using assms(8) by (simp add: time_sub_def reorderMaxWait_def millisecond_def max_dur_def min_dur_def)
  have "push t rb p = ([], ?r2)"
    using len wait d b(1) assms(3) by (auto simp: push_def Let_def reorderMaxHold_def)
  moreover have "burst n m t0 e (insert i K) ?r2"
    using assms(1,3,4,6,7) filed_update [of "pending rb" p] by (auto simp: burst_def)
  moreover have "held ?r2 = insert p (held rb)"
    using new by (simp add: snd_update_new)
  ultimately show ?thesis by blast
qed

lemma burst_emit:
  assumes "burst n m t0 e K rb" and "m \<le> 64" and "e < m" and "SequenceNumber p = n + of_nat e"
  shows "\<exists>out rb' e' K'. push t rb p = (out, rb') \<and> burst n m t0 e' K' rb' \<and> e \<le> e'
           \<and> {..<e'} \<union> K' = insert e ({..<e} \<union> K)
           \<and> map SequenceNumber out = map (\<lambda>j. n + of_nat j) [e..<e']
           \<and> set out \<union> held rb' = insert p (held rb)"
proof -
  note B = burst_length [OF assms(1)]
  have b: "hasNext rb" "nextSeq rb = n + of_nat e" "K \<subseteq> {e<..<m}"
      "fst ` set (pending rb) = (\<lambda>i. n + of_nat i) ` K" "filed (pending rb)"
    using assms(1) by (auto simp: burst_def)
  let ?r = "rb\<lparr>nextSeq := nextSeq rb + 1\<rparr>"
  obtain o1 rb' where d: "drain ?r = (o1, rb')" by fastforce
  have push: "push t rb p = (p # o1, rb')"
    using d b(1,2) assms(4) by (simp add: push_def Let_def)
  define e' where "e' = e + 1 + length o1"
  define K' where "K' = {j \<in> K. e' \<le> j}"
  have ah: "ahead (nextSeq rb) (pending ?r)" and "filed (pending ?r)" using B b assms(2) by auto
  from drain_spec [OF this(2,1) _ d]
  have s: "filed (pending rb')" "ahead (nextSeq rb') (pending rb')" "hasNext rb'"
      "gapSince rb' = gapSince rb" "nextSeq rb' = nextSeq rb + 1 + of_nat (length o1)"
      "map SequenceNumber o1 = map (\<lambda>i. nextSeq rb + 1 + of_nat i) [0..<length o1]"
      "held rb = set o1 \<union> held rb'" "length (pending rb) = length o1 + length (pending rb')"
    using b(1) by auto
  have next': "nextSeq rb' = n + of_nat e'" using s(5) b(2) by (simp add: e'_def add.assoc)
  have "card K \<le> card {e<..<m}" using b(3) by (intro card_mono) auto
  then have small: "e' \<le> 128" using s(8) B(1) assms(2,3) by (simp add: e'_def)
  have ons: "map SequenceNumber o1 = map (\<lambda>j. n + of_nat j) [e + 1..<e']"
    unfolding e'_def map_upt_shift s(6) b(2) by (simp add: add.assoc)
  have "[e..<e'] = e # [e + 1..<e']" by (simp add: e'_def upt_conv_Cons del: upt_Suc)
  with ons have nums: "map SequenceNumber (p # o1) = map (\<lambda>j. n + of_nat j) [e..<e']"
    using assms(4) by simp
  have keys: "(\<lambda>i. n + of_nat i) ` K = SequenceNumber ` set o1 \<union> fst ` set (pending rb')"
    using s(1,7) b(4,5) by (simp add: keys_numbers image_Un)
  have oset: "SequenceNumber ` set o1 = (\<lambda>j. n + of_nat j) ` {e + 1..<e'}"
    using arg_cong [OF ons, of set] by simp
  have inj: "n + of_nat i = (n + of_nat j :: 16 word) \<longleftrightarrow> i = j" if "i < 128" "j < 128" for i j
    using that by (intro seq_inject) simp_all
  have Ksmall: "j < 128" if "j \<in> K" for j using that b(3) assms(2) by auto
  have run: "{e + 1..<e'} \<subseteq> K"
  proof
    fix j assume j: "j \<in> {e + 1..<e'}"
    then have "n + of_nat j \<in> SequenceNumber ` set o1" unfolding oset by (rule imageI)
    then have "n + of_nat j \<in> (\<lambda>i. n + of_nat i :: 16 word) ` K" unfolding keys by simp
    then obtain i where "i \<in> K" "n + of_nat j = (n + of_nat i :: 16 word)" by blast
    then show "j \<in> K" using inj [of j i] Ksmall j small by auto
  qed
  have le: "e' \<le> m"
  proof (cases "e' = e + 1")
    case False
    then have "e' - 1 \<in> {e + 1..<e'}" by (cases o1) (auto simp: e'_def)
    then have "e' - 1 \<in> {e<..<m}" using run b(3) by blast
    then show ?thesis by auto
  qed (use assms(3) in simp)
  have keys': "fst ` set (pending rb') = (\<lambda>i. n + of_nat i) ` K'"
  proof (intro equalityI subsetI)
    fix k assume k: "k \<in> fst ` set (pending rb')"
    then obtain i where i: "i \<in> K" "k = n + of_nat i" using keys by blast
    have "0 < seq_delta k (nextSeq rb')" using k s(2) by (auto simp: ahead_def)
    then have "e' \<le> i" using i Ksmall [OF i(1)] small next' by (simp add: seq_delta_of_nat)
    then show "k \<in> (\<lambda>i. n + of_nat i) ` K'" using i by (auto simp: K'_def)
  next
    fix k assume "k \<in> (\<lambda>i. n + of_nat i) ` K'"
    then obtain i where i: "i \<in> K" "e' \<le> i" "k = n + of_nat i" by (auto simp: K'_def)
    have "k \<notin> SequenceNumber ` set o1"
    proof
      assume "k \<in> SequenceNumber ` set o1"
      then obtain j where "j < e'" "n + of_nat i = (n + of_nat j :: 16 word)"
        unfolding oset using i(3) by auto
      then show False using inj [OF Ksmall [OF i(1)], of j] small i(2) by simp
    qed
    then show "k \<in> fst ` set (pending rb')" using keys i by blast
  qed
  have "e' \<notin> K'"
  proof
    assume "e' \<in> K'"
    then have "nextSeq rb' \<in> fst ` set (pending rb')" using keys' next' by simp
    then show False using s(2) by (auto simp: ahead_def)
  qed
  then have K': "K' \<subseteq> {e'<..<m}" using b(3) by (auto simp: K'_def order.order_iff_strict)
  have "pending rb' \<noteq> [] \<longrightarrow> t0 \<le> gapSince rb'"
    using s(4,8) assms(1) by (auto simp: burst_def)
  with s(1,3) next' keys' K' le have "burst n m t0 e' K' rb'" by (simp add: burst_def)
  moreover have "{..<e'} \<union> K' = insert e ({..<e} \<union> K)"
  proof -
    have "{..<e'} = {..<e} \<union> {e} \<union> {e + 1..<e'}" by (auto simp: e'_def)
    moreover have "K = {j \<in> K. j < e'} \<union> K'" by (auto simp: K'_def)
    moreover have "{j \<in> K. j < e'} \<subseteq> {e + 1..<e'}" using b(3) by auto
    ultimately show ?thesis using run by blast
  qed
  moreover have "set (p # o1) \<union> held rb' = insert p (held rb)" using s(7) by auto
  moreover have "e \<le> e'" by (simp add: e'_def)
  ultimately show ?thesis using push nums by blast
qed

lemma burst_feed:
  assumes "burst n m t0 e K rb" and "m \<le> 64"
    and "\<forall>(t, p) \<in> set arr. t0 \<le> t \<and> t < t0 + reorderMaxWait
           \<and> (\<exists>i<m. i \<notin> {..<e} \<union> K \<and> SequenceNumber p = n + of_nat i)"
    and "distinct (map (SequenceNumber \<circ> snd) arr)"
  shows "\<exists>out rb' e' K'. push_all rb arr = (out, rb') \<and> burst n m t0 e' K' rb' \<and> e \<le> e'
           \<and> {..<e'} \<union> K' = {..<e} \<union> K \<union> {i. i < m \<and> n + of_nat i \<in> (SequenceNumber \<circ> snd) ` set arr}
           \<and> map SequenceNumber out = map (\<lambda>j. n + of_nat j) [e..<e']
           \<and> set out \<union> held rb' = held rb \<union> snd ` set arr"
  using assms
proof (induction arr arbitrary: e K rb)
  case (Cons x arr)
  obtain t p where x: "x = (t, p)" by fastforce
  from Cons.prems(3) x obtain i where i: "i < m" "i \<notin> {..<e} \<union> K" "SequenceNumber p = n + of_nat i"
    and t: "t0 \<le> t" "t < t0 + reorderMaxWait" by auto
  have Km: "e \<le> i" using i by auto
  have "\<exists>out rb' e' K'. push t rb p = (out, rb') \<and> burst n m t0 e' K' rb' \<and> e \<le> e'
           \<and> {..<e'} \<union> K' = insert i ({..<e} \<union> K)
           \<and> map SequenceNumber out = map (\<lambda>j. n + of_nat j) [e..<e']
           \<and> set out \<union> held rb' = insert p (held rb)"
  proof (cases "i = e")
    case True
    from burst_emit [OF Cons.prems(1,2)] i(1,3) True show ?thesis by blast
  next
    case False
    with Km i have "e < i" "i \<notin> K" by auto
    from burst_hold [OF Cons.prems(1,2) this(1) i(1) this(2) i(3) t] obtain r where
      "push t rb p = ([], r)" "burst n m t0 e (insert i K) r" "held r = insert p (held rb)" by blast
    then show ?thesis by (intro exI [of _ "[]"] exI [of _ r] exI [of _ e] exI [of _ "insert i K"]) auto
  qed
  then obtain o1 r1 e1 K1 where s: "push t rb p = (o1, r1)" "burst n m t0 e1 K1 r1" "e \<le> e1"
      "{..<e1} \<union> K1 = insert i ({..<e} \<union> K)"
      "map SequenceNumber o1 = map (\<lambda>j. n + of_nat j) [e..<e1]"
      "set o1 \<union> held r1 = insert p (held rb)" by blast
  have side: "\<forall>(t, q) \<in> set arr. t0 \<le> t \<and> t < t0 + reorderMaxWait
           \<and> (\<exists>j<m. j \<notin> {..<e1} \<union> K1 \<and> SequenceNumber q = n + of_nat j)"
  proof (intro ballI, clarify)
    fix u q assume m: "(u, q) \<in> set arr"
    with Cons.prems(3) obtain j where j: "t0 \<le> u" "u < t0 + reorderMaxWait" "j < m"
      "j \<notin> {..<e} \<union> K" "SequenceNumber q = n + of_nat j" by fastforce
    have "SequenceNumber q \<noteq> SequenceNumber p" using Cons.prems(4) m x by force
    then have "j \<noteq> i" using j(5) i(3) by auto
    with j s(4) show "t0 \<le> u \<and> u < t0 + reorderMaxWait
        \<and> (\<exists>j<m. j \<notin> {..<e1} \<union> K1 \<and> SequenceNumber q = n + of_nat j)" by auto
  qed
  have dist: "distinct (map (SequenceNumber \<circ> snd) arr)" using Cons.prems(4) by (simp add: comp_def)
  from Cons.IH [OF s(2) Cons.prems(2) side dist] obtain o2 r2 e2 K2 where r:
      "push_all r1 arr = (o2, r2)" "burst n m t0 e2 K2 r2" "e1 \<le> e2"
      "{..<e2} \<union> K2 = {..<e1} \<union> K1 \<union> {i. i < m \<and> n + of_nat i \<in> (SequenceNumber \<circ> snd) ` set arr}"
      "map SequenceNumber o2 = map (\<lambda>j. n + of_nat j) [e1..<e2]"
      "set o2 \<union> held r2 = held r1 \<union> snd ` set arr"
    by (elim exE conjE) (rule that; assumption)
  have f: "push_all rb (x # arr) = (o1 @ o2, r2)" using s(1) r(1) x by (simp add: push_at_def)
  have ns: "map SequenceNumber (o1 @ o2) = map (\<lambda>j. n + of_nat j) [e..<e2]"
    using s(5) r(5) upt_add_eq_append [of e e1 "e2 - e1"] s(3) r(3) by simp
  have hs: "set (o1 @ o2) \<union> held r2 = held rb \<union> snd ` set (x # arr)"
  proof -
    have "set (o1 @ o2) \<union> held r2 = set o1 \<union> (set o2 \<union> held r2)" by auto
    also have "\<dots> = (set o1 \<union> held r1) \<union> snd ` set arr" by (simp only: r(6) Un_assoc)
    also have "\<dots> = held rb \<union> snd ` set (x # arr)" unfolding s(6) using x by auto
    finally show ?thesis .
  qed
  have "{j. j < m \<and> n + of_nat j \<in> (SequenceNumber \<circ> snd) ` set (x # arr)}
      = insert i {j. j < m \<and> n + of_nat j \<in> (SequenceNumber \<circ> snd) ` set arr}"
    using i x seq_inject [of _ i n] Cons.prems(2) by auto
  then have un: "{..<e2} \<union> K2
      = {..<e} \<union> K \<union> {j. j < m \<and> n + of_nat j \<in> (SequenceNumber \<circ> snd) ` set (x # arr)}"
    using r(4) s(4) by simp
  have le: "e \<le> e2" using r(3) s(3) by simp
  show ?case
  proof (intro exI conjI)
    show "push_all rb (x # arr) = (o1 @ o2, r2)" by (rule f)
    show "burst n m t0 e2 K2 r2" by (rule r(2))
  qed (rule le, rule un, rule ns, rule hs)
next
  case Nil
  then show ?case
    by (intro exI [of _ "[]"] exI [of _ rb] exI [of _ e] exI [of _ K]) simp
qed

section \<open>The buffer as a forwarding stage\<close>

interpretation rs: forwarding_stage push_at reorder_inv held snd
  by unfold_locales (use push_spec in \<open>auto simp: push_at_def\<close>)

text \<open>
  C38.  Re-sequencing is exact inside one wait budget: if the next expected number is \<open>n\<close>, nothing
  is pending, and the at most 64 packets \<open>n, n+1, ..., n+m-1\<close> (16-bit wrap-around included) arrive
  in any order within \<open>reorderMaxWait\<close>, then \<open>push\<close> emits exactly those packets, in sequence
  order, and holds nothing back.
\<close>

theorem reorder_restores:
  assumes "m \<le> 64" and "hasNext rb" and "nextSeq rb = n" and "pending rb = []"
    and "mset (map (SequenceNumber \<circ> snd) arr) = mset (map (\<lambda>i. n + of_nat i) [0..<m])"
    and "\<forall>(t, p) \<in> set arr. t0 \<le> t \<and> t < t0 + reorderMaxWait"
  shows "\<exists>out rb'. push_all rb arr = (out, rb') \<and> pending rb' = [] \<and> set out = snd ` set arr
           \<and> map SequenceNumber out = map (\<lambda>i. n + of_nat i) [0..<m]"
proof -
  have inj: "distinct (map (\<lambda>i. n + of_nat i :: 16 word) [0..<m])"
  proof -
    have "x = y" if "x < m" "y < m" "n + of_nat x = (n + of_nat y :: 16 word)" for x y
      using seq_inject [of x y n] that assms(1) by simp
    then show ?thesis by (simp add: distinct_map inj_on_def)
  qed
  then have dist: "distinct (map (SequenceNumber \<circ> snd) arr)"
    using assms(5) mset_eq_imp_distinct_iff by blast
  have nums: "(SequenceNumber \<circ> snd) ` set arr = (\<lambda>i. n + of_nat i) ` {..<m}"
    using arg_cong [OF assms(5), of set_mset] by (auto simp: lessThan_atLeast0)
  have b: "burst n m t0 0 {} rb" using assms(2-4) by (simp add: burst_def filed_def)
  have side: "\<forall>(t, p) \<in> set arr. t0 \<le> t \<and> t < t0 + reorderMaxWait
           \<and> (\<exists>i<m. i \<notin> {..<0} \<union> {} \<and> SequenceNumber p = n + of_nat i)"
  proof (intro ballI, clarify)
    fix t p assume a: "(t, p) \<in> set arr"
    then have "SequenceNumber p \<in> (\<lambda>i. n + of_nat i) ` {..<m}" unfolding nums [symmetric] by force
    then show "t0 \<le> t \<and> t < t0 + reorderMaxWait
        \<and> (\<exists>i<m. i \<notin> {..<0} \<union> {} \<and> SequenceNumber p = n + of_nat i)"
      using assms(6) a by auto
  qed
  from burst_feed [OF b assms(1) side dist] obtain out rb' e' K' where f:
      "push_all rb arr = (out, rb')" "burst n m t0 e' K' rb'"
      "{..<e'} \<union> K' = {..<0} \<union> {} \<union> {i. i < m \<and> n + of_nat i \<in> (SequenceNumber \<circ> snd) ` set arr}"
      "map SequenceNumber out = map (\<lambda>j. n + of_nat j) [0..<e']"
      "set out \<union> held rb' = held rb \<union> snd ` set arr"
    by (elim exE conjE) (rule that; assumption)
  have cover: "{..<e'} \<union> K' = {..<m}" using f(3) unfolding nums by auto
  have K: "K' \<subseteq> {e'<..<m}" "e' \<le> m" using f(2) by (auto simp: burst_def)
  have "e' = m"
  proof (rule ccontr)
    assume "e' \<noteq> m"
    then have "e' \<in> {..<e'} \<union> K'" using K cover by auto
    then show False using K by auto
  qed
  moreover from this have "K' = {}" using K by auto
  moreover have "pending rb' = []" using f(2) \<open>K' = {}\<close> by (simp add: burst_def)
  ultimately show ?thesis using f(1,4,5) assms(4) by simp
qed

definition mk_pkt :: "16 word \<Rightarrow> packet" where
  "mk_pkt n = \<lparr>SequenceNumber = n, Timestamp = 0, Marker = False, Payload = []\<rparr>"

lemma reorder_restores_witness:
  "\<exists>out rb'. push_all (empty_reorder\<lparr>hasNext := True, nextSeq := 65535\<rparr>)
      [(5 :: int, mk_pkt 0), (6, mk_pkt 1), (7, mk_pkt 65535)] = (out, rb') \<and> pending rb' = []
      \<and> set out = snd ` set [(5 :: int, mk_pkt 0), (6, mk_pkt 1), (7, mk_pkt 65535)]
      \<and> map SequenceNumber out = map (\<lambda>i. 65535 + of_nat i) [0..<3]"
proof -
  have w: "(65536 :: 16 word) = 0" "(65537 :: 16 word) = 1" by simp_all
  then show ?thesis
    by (intro reorder_restores [where m = 3 and ?t0.0 = 0])
       (simp_all add: empty_reorder_def mk_pkt_def reorderMaxWait_def millisecond_def
          upt_conv_Cons add_mset_commute w)
qed

text \<open>
  Over any arrival sequence, with any clock: the buffer keeps its invariant (each held packet
  strictly ahead of the expected number, so nothing deliverable is withheld) and never emits or
  holds a packet that did not arrive.
\<close>

theorem reorder_forwards:
  assumes "push_all empty_reorder arr = (out, rb')"
  shows "reorder_inv rb' \<and> set out \<union> held rb' \<subseteq> snd ` set arr"
  using rs.feed_inv [OF reorder_inv_empty assms] rs.feed_items [OF reorder_inv_empty assms]
  by (simp add: empty_reorder_def)

lemma reorder_forwards_witness:
  "reorder_inv (snd (push_all empty_reorder [(0, mk_pkt 3), (1, mk_pkt 5)]))
    \<and> set (fst (push_all empty_reorder [(0, mk_pkt 3), (1, mk_pkt 5)])) \<subseteq> {mk_pkt 3, mk_pkt 5}"
  using reorder_forwards [of "[(0, mk_pkt 3), (1, mk_pkt 5)]", OF surjective_pairing] by auto

section \<open>The hold limit does not bound the buffer\<close>

text \<open>
  A packet beyond a gap of more than one number always stays: giving up skips a single number.
\<close>

lemma push_far:
  assumes "hasNext rb" and "1 < seq_delta (SequenceNumber p) (nextSeq rb)"
    and "SequenceNumber p \<notin> fst ` set (pending rb)" and "nextSeq rb + 1 \<notin> fst ` set (pending rb)"
  shows "\<exists>rb'. push t rb p = ([], rb') \<and> hasNext rb'
           \<and> (nextSeq rb' = nextSeq rb \<or> nextSeq rb' = nextSeq rb + 1)
           \<and> fst ` set (pending rb') = insert (SequenceNumber p) (fst ` set (pending rb))
           \<and> length (pending rb') = Suc (length (pending rb))"
proof -
  let ?r1 = "if pending rb = [] then rb\<lparr>gapSince := t\<rparr> else rb"
  define r2 where "r2 = ?r1\<lparr>pending := AList.update (SequenceNumber p) p (pending ?r1)\<rparr>"
  have r2: "pending r2 = AList.update (SequenceNumber p) p (pending rb)" "nextSeq r2 = nextSeq rb"
    "hasNext r2" using assms(1) by (simp_all add: r2_def)
  have ne: "SequenceNumber p \<noteq> nextSeq rb + 1"
  proof
    assume "SequenceNumber p = nextSeq rb + 1"
    then have "seq_delta (SequenceNumber p) (nextSeq rb) = 1" by (simp add: seq_delta_def)
    then show False using assms(2) by simp
  qed
  then have "map_of (pending r2) (nextSeq r2 + 1) = None"
    using assms(4) r2 by (simp add: map_of_eq_None_iff)
  then have dr: "drain (r2\<lparr>nextSeq := nextSeq r2 + 1\<rparr>) = ([], r2\<lparr>nextSeq := nextSeq r2 + 1\<rparr>)"
    by (subst drain.simps) simp
  have e: "push t rb p =
        (if reorderMaxHold \<le> length (pending r2) \<or> reorderMaxWait \<le> time_sub t (gapSince r2)
         then giveUpAndDrain t r2 else ([], r2))"
    unfolding push_def Let_def r2_def using assms(1,2) by simp
  show ?thesis
  proof (cases "push t rb p = ([], r2)")
    case True
    then show ?thesis using r2 assms(3) by (simp add: length_update_new)
  next
    case False
    then have "push t rb p = giveUpAndDrain t r2" using e by (auto split: if_splits)
    then show ?thesis
      using dr r2 assms(3) by (simp add: giveUpAndDrain_def length_update_new)
  qed
qed

lemma push_far_run:
  assumes "h \<le> 16000"
  shows "\<exists>rb a. push_all empty_reorder
            ((0, mk_pkt 0) # map (\<lambda>i. (0, mk_pkt (of_nat (16100 + i)))) [0..<h]) = ([mk_pkt 0], rb)
      \<and> hasNext rb \<and> nextSeq rb = of_nat (1 + a) \<and> a \<le> h
      \<and> fst ` set (pending rb) = (\<lambda>i. of_nat (16100 + i)) ` {..<h} \<and> length (pending rb) = h"
  using assms
proof (induction h)
  case 0
  have "push 0 empty_reorder (mk_pkt 0) = ([mk_pkt 0], empty_reorder\<lparr>hasNext := True, nextSeq := 1\<rparr>)"
    by (simp add: push_def empty_reorder_def mk_pkt_def drain.simps)
  then show ?case by (intro exI [of _ "empty_reorder\<lparr>hasNext := True, nextSeq := 1\<rparr>"] exI [of _ 0])
      (simp add: push_at_def empty_reorder_def)
next
  case (Suc h)
  let ?arr = "\<lambda>h. (0, mk_pkt 0) # map (\<lambda>i. (0, mk_pkt (of_nat (16100 + i)))) [0..<h]"
  from Suc obtain rb a where IH: "push_all empty_reorder (?arr h) = ([mk_pkt 0], rb)"
      "hasNext rb" "nextSeq rb = of_nat (1 + a)" "a \<le> h"
      "fst ` set (pending rb) = (\<lambda>i. of_nat (16100 + i)) ` {..<h}" "length (pending rb) = h"
    by auto
  let ?p = "mk_pkt (of_nat (16100 + h))"
  have num: "SequenceNumber ?p = of_nat (16100 + h)" by (simp add: mk_pkt_def)
  have "seq_delta (SequenceNumber ?p) (nextSeq rb) = int (16100 + h) - int (1 + a)"
    using seq_delta_of_nat [of "16100 + h" "1 + a" 0] Suc.prems IH(4) by (simp add: mk_pkt_def IH(3))
  then have d: "1 < seq_delta (SequenceNumber ?p) (nextSeq rb)" using IH(4) Suc.prems by simp
  have inj: "of_nat (16100 + i) = (of_nat j :: 16 word) \<longleftrightarrow> 16100 + i = j"
    if "i \<le> h" "j < 32768" for i j
    using seq_inject [of "16100 + i" j 0] that Suc.prems by simp
  have n1: "SequenceNumber ?p \<notin> fst ` set (pending rb)"
    unfolding IH(5) num
  proof
    assume "of_nat (16100 + h) \<in> (\<lambda>i. of_nat (16100 + i) :: 16 word) ` {..<h}"
    then obtain i where "i < h" "of_nat (16100 + h) = (of_nat (16100 + i) :: 16 word)" by blast
    then show False using inj [of h "16100 + i"] Suc.prems by simp
  qed
  have n2: "nextSeq rb + 1 \<notin> fst ` set (pending rb)"
  proof
    assume "nextSeq rb + 1 \<in> fst ` set (pending rb)"
    then obtain i where i: "i < h" "of_nat (16100 + i) = (nextSeq rb + 1 :: 16 word)"
      unfolding IH(5) by force
    have "nextSeq rb + 1 = of_nat (2 + a)" unfolding IH(3) by simp
    with i(2) have "of_nat (16100 + i) = (of_nat (2 + a) :: 16 word)" by (rule trans)
    then show False using inj [of i "2 + a"] i(1) IH(4) Suc.prems by simp
  qed
  from push_far [OF IH(2) d n1 n2] obtain rb' where p: "push 0 rb ?p = ([], rb')" "hasNext rb'"
      "nextSeq rb' = nextSeq rb \<or> nextSeq rb' = nextSeq rb + 1"
      "fst ` set (pending rb') = insert (SequenceNumber ?p) (fst ` set (pending rb))"
      "length (pending rb') = Suc (length (pending rb))" by blast
  have f: "push_all empty_reorder (?arr (Suc h)) = ([mk_pkt 0], rb')"
  proof -
    have e: "?arr (Suc h) = ?arr h @ [(0, ?p)]" by simp
    show ?thesis unfolding e feed_append IH(1) using p(1) by (simp add: push_at_def)
  qed
  have k: "fst ` set (pending rb') = (\<lambda>i. of_nat (16100 + i)) ` {..<Suc h}"
    unfolding p(4) IH(5) num lessThan_Suc by simp
  obtain b where "nextSeq rb' = of_nat (1 + b)" "b \<le> Suc h"
    using p(3) IH(3,4) that [of a] that [of "Suc a"] by (auto simp: add.commute)
  with f k p(2,5) IH(6) show ?case by (intro exI [of _ rb'] exI [of _ b]) simp
qed

text \<open>
  \<open>reorderMaxHold\<close> (64, "bound memory under pathological loss bursts") bounds nothing when the
  gap is longer than one packet: for every \<open>h\<close> up to 16000 there is an arrival sequence after which
  \<open>h\<close> packets are pending, because each overflow skips one number and drains nothing.
\<close>

theorem reorder_hold_exceeded:
  assumes "h \<le> 16000"
  shows "\<exists>arr. length arr = Suc h \<and> length (pending (snd (push_all empty_reorder arr))) = h"
  using push_far_run [OF assms]
  by (intro exI [of _ "(0, mk_pkt 0) # map (\<lambda>i. (0, mk_pkt (of_nat (16100 + i)))) [0..<h]"]) auto

lemma reorder_hold_exceeded_witness:
  "\<exists>arr. length arr = Suc 1000 \<and> length (pending (snd (push_all empty_reorder arr))) = 1000"
  by (rule reorder_hold_exceeded) simp

end
