(* ===== verification/FrameExtractor.thy ===== *)
theory FrameExtractor
  imports Reorder
begin

text \<open>
  \<open>FrameExtractor\<close> of \<open>internal/recorder/frame_extractor.go\<close>: RTP depacketisation (single NAL,
  STAP-A, FU-A), picture assembly, loss detection, throttled key-frame requests and key-frame
  capture.  An operation that can hit a Go index panic returns \<^typ>\<open>'a option\<close>, \<^const>\<open>None\<close>
  being the panic.  \<open>pliLog\<close> records the instants at which a PLI is handed to the peer
  connection; the \<open>idrCh\<close> channel of capacity one is the flag telling whether it is full.
\<close>

unbundle bit_operations_syntax

type_synonym bytes = "8 word list"

section \<open>State\<close>

record frameExtractor =
  sps :: bytes
  pps :: bytes
  idrNALs :: "bytes list"
  idrReady :: bool
  idrCh :: bool
  fua :: "bytes option"
  picBuf :: "bytes list"
  picTS :: "32 word"
  prevSeq :: "16 word"
  hasPrevSeq :: bool
  lostPackets :: "64 word"
  pictureCorrupted :: bool
  lastRecoveryPLI :: instant
  reorder :: reorderBuffer
  pliLog :: "instant list"

definition NewFrameExtractor :: frameExtractor where
  "NewFrameExtractor = \<lparr>sps = [], pps = [], idrNALs = [], idrReady = False, idrCh = False,
     fua = None, picBuf = [], picTS = 0, prevSeq = 0, hasPrevSeq = False, lostPackets = 0,
     pictureCorrupted = False, lastRecoveryPLI = zero_time, reorder = empty_reorder, pliLog = []\<rparr>"

definition nalTypeSPS :: "8 word" where "nalTypeSPS = 7"
definition nalTypePPS :: "8 word" where "nalTypePPS = 8"
definition nalTypeIDR :: "8 word" where "nalTypeIDR = 5"
definition rtpNALTypeSTAPA :: "8 word" where "rtpNALTypeSTAPA = 24"
definition rtpNALTypeFUA :: "8 word" where "rtpNALTypeFUA = 28"
definition minPLIInterval :: duration where "minPLIInterval = 2 * second"
definition annexBStartCode :: bytes where "annexBStartCode = [0, 0, 0, 1]"

abbreviation nal_type :: "8 word \<Rightarrow> 8 word" where "nal_type b \<equiv> b AND 0x1F"

section \<open>Operations\<close>

definition RequestKeyFrame :: "instant \<Rightarrow> frameExtractor \<Rightarrow> frameExtractor" where
  "RequestKeyFrame now fe =
     (let sinceLast = time_sub now (lastRecoveryPLI fe)
      in if sinceLast < minPLIInterval then fe
         else fe\<lparr>lastRecoveryPLI := now, pliLog := pliLog fe @ [now]\<rparr>)"

definition checkSeqGap :: "packet \<Rightarrow> frameExtractor \<Rightarrow> bool \<times> frameExtractor" where
  "checkSeqGap pkt fe =
     (if \<not> hasPrevSeq fe then (False, fe\<lparr>prevSeq := SequenceNumber pkt, hasPrevSeq := True\<rparr>)
      else let delta = seq_delta (SequenceNumber pkt) (prevSeq fe)
        in if delta = 1 then (False, fe\<lparr>prevSeq := SequenceNumber pkt\<rparr>)
           else if delta > 1 then
             (True, fe\<lparr>lostPackets := lostPackets fe + of_int (delta - 1),
                       prevSeq := SequenceNumber pkt\<rparr>)
           else (True, fe))"

definition is_idr :: "bytes \<Rightarrow> bool" where
  "is_idr n \<longleftrightarrow> (case n of [] \<Rightarrow> False | b # _ \<Rightarrow> nal_type b = nalTypeIDR)"

definition commitPicture :: "instant \<Rightarrow> frameExtractor \<Rightarrow> frameExtractor" where
  "commitPicture now fe =
     (if picBuf fe = [] then fe
      else if pictureCorrupted fe then
        RequestKeyFrame now (fe\<lparr>pictureCorrupted := False, picBuf := []\<rparr>)
      else let hasIDR = list_ex is_idr (picBuf fe);
               fe1 = (if hasIDR then fe\<lparr>idrNALs := picBuf fe, idrReady := True, idrCh := True\<rparr> else fe)
        in fe1\<lparr>picBuf := []\<rparr>)"

text \<open>\<open>addNAL\<close> up to its final commit: buffer the NAL and remember parameter sets.\<close>

definition storeNAL :: "8 word \<Rightarrow> bytes \<Rightarrow> frameExtractor \<Rightarrow> frameExtractor" where
  "storeNAL b nal fe =
     (let fe1 = fe\<lparr>picBuf := picBuf fe @ [nal]\<rparr>
      in if nal_type b = nalTypeSPS then fe1\<lparr>sps := nal\<rparr>
         else if nal_type b = nalTypePPS then fe1\<lparr>pps := nal\<rparr> else fe1)"

definition addNAL :: "instant \<Rightarrow> bytes \<Rightarrow> bool \<Rightarrow> frameExtractor \<Rightarrow> frameExtractor option" where
  "addNAL now raw marker fe = (case raw of
       [] \<Rightarrow> None
     | b # _ \<Rightarrow>
        (let fe1 = storeNAL b raw fe in Some (if marker then commitPicture now fe1 else fe1)))"

definition stap_size :: "8 word \<Rightarrow> 8 word \<Rightarrow> nat" where
  "stap_size hi lo = (push_bit 8 (unat hi)) OR unat lo"

fun stapa_loop :: "instant \<Rightarrow> bytes \<Rightarrow> frameExtractor \<Rightarrow> frameExtractor option" where
  "stapa_loop now (hi # lo # p) fe =
     (let size = stap_size hi lo
      in if length p < size then Some fe
         else (case addNAL now (take size p) False fe of
                 None \<Rightarrow> None
               | Some fe1 \<Rightarrow> stapa_loop now (drop size p) fe1))"
| "stapa_loop now _ fe = Some fe"

definition ingestSTAPA :: "instant \<Rightarrow> bytes \<Rightarrow> bool \<Rightarrow> frameExtractor \<Rightarrow> frameExtractor option" where
  "ingestSTAPA now p marker fe =
     map_option (\<lambda>fe1. if marker then commitPicture now fe1 else fe1) (stapa_loop now p fe)"

definition ingestFUA :: "instant \<Rightarrow> bytes \<Rightarrow> bool \<Rightarrow> frameExtractor \<Rightarrow> frameExtractor option" where
  "ingestFUA now p marker fe = (case p of
       p0 # fuHeader # payload \<Rightarrow>
         (let startBit = (fuHeader AND 0x80 \<noteq> 0);
              endBit = (fuHeader AND 0x40 \<noteq> 0);
              fuNALType = fuHeader AND 0x1F;
              fe1 = (if startBit then fe\<lparr>fua := Some [(p0 AND 0xE0) OR fuNALType]\<rparr> else fe)
          in (case fua fe1 of
                None \<Rightarrow> Some fe1
              | Some data \<Rightarrow>
                  (let complete = data @ payload
                   in if endBit then addNAL now complete marker (fe1\<lparr>fua := None\<rparr>)
                      else Some (fe1\<lparr>fua := Some complete\<rparr>))))
     | _ \<Rightarrow> Some fe)"

text \<open>\<open>ingestOrdered\<close> up to the dispatch on the payload: gap detection and bookkeeping.\<close>

definition noteGap :: "packet \<Rightarrow> frameExtractor \<Rightarrow> frameExtractor" where
  "noteGap pkt fe =
     (let (gap, fe1) = checkSeqGap pkt fe;
          fe2 = (if gap \<and> (picBuf fe1 \<noteq> [] \<or> fua fe1 \<noteq> None)
                 then fe1\<lparr>pictureCorrupted := True\<rparr> else fe1)
      in fe2\<lparr>picTS := Timestamp pkt\<rparr>)"

definition ingestOrdered :: "instant \<Rightarrow> packet \<Rightarrow> frameExtractor \<Rightarrow> frameExtractor option" where
  "ingestOrdered now pkt fe =
     (let fe1 = noteGap pkt fe
      in (case Payload pkt of
            [] \<Rightarrow> Some fe1
          | b # rest \<Rightarrow>
             (let nalType = nal_type b
              in if 1 \<le> nalType \<and> nalType \<le> 23 then addNAL now (b # rest) (Marker pkt) fe1
                 else if nalType = rtpNALTypeSTAPA then ingestSTAPA now rest (Marker pkt) fe1
                 else if nalType = rtpNALTypeFUA then ingestFUA now (b # rest) (Marker pkt) fe1
                 else Some fe1)))"

fun ingest_all :: "instant \<Rightarrow> packet list \<Rightarrow> frameExtractor \<Rightarrow> frameExtractor option" where
  "ingest_all now [] fe = Some fe"
| "ingest_all now (p # ps) fe =
     (case ingestOrdered now p fe of None \<Rightarrow> None | Some fe1 \<Rightarrow> ingest_all now ps fe1)"

definition ingest :: "instant \<Rightarrow> packet \<Rightarrow> frameExtractor \<Rightarrow> frameExtractor option" where
  "ingest now pkt fe =
     (let (ordered, rb) = push now (reorder fe) pkt in ingest_all now ordered (fe\<lparr>reorder := rb\<rparr>))"

text \<open>
  One iteration of \<open>ReadLoop\<close>: the context state seen by the \<open>select\<close>, and the result of
  \<open>track.Read\<close> (\<^const>\<open>None\<close> for an error).  \<open>rawOut\<close> and \<open>rtpOut\<close> collect what the sinks
  receive, when they are set; RTP parsing is the parameter \<open>unmarshal\<close>.
\<close>

record loopState =
  fx :: frameExtractor
  rawOut :: "bytes list option"
  rtpOut :: "packet list option"

fun ReadLoop :: "(bytes \<Rightarrow> packet option) \<Rightarrow> (instant \<times> bool \<times> bytes option) list
    \<Rightarrow> loopState \<Rightarrow> loopState option" where
  "ReadLoop unmarshal [] st = Some st"
| "ReadLoop unmarshal ((now, ctxDone, rd) # reads) st =
     (if ctxDone then Some st
      else (case rd of
          None \<Rightarrow> Some st
        | Some buf \<Rightarrow>
            (let st1 = st\<lparr>rawOut := map_option (\<lambda>l. l @ [buf]) (rawOut st)\<rparr>
             in (case unmarshal buf of
                   None \<Rightarrow> ReadLoop unmarshal reads st1
                 | Some pkt \<Rightarrow>
                    (let st2 = st1\<lparr>rtpOut := map_option (\<lambda>l. l @ [pkt]) (rtpOut st1)\<rparr>
                     in (case ingest now pkt (fx st2) of
                           None \<Rightarrow> None
                         | Some fe \<Rightarrow> ReadLoop unmarshal reads (st2\<lparr>fx := fe\<rparr>)))))))"

text \<open>The Annex-B buffer both capture functions build.\<close>

definition annexB :: "frameExtractor \<Rightarrow> bytes" where
  "annexB fe = (if sps fe \<noteq> [] then annexBStartCode @ sps fe else [])
     @ (if pps fe \<noteq> [] then annexBStartCode @ pps fe else [])
     @ concat (map (\<lambda>n. annexBStartCode @ n) (idrNALs fe))"

definition CaptureKeyFrame :: "frameExtractor \<Rightarrow> bytes" where
  "CaptureKeyFrame fe = (if \<not> idrReady fe \<or> idrNALs fe = [] then [] else annexB fe)"

datatype jpegError = FfmpegFailed string | EmptyOutput

definition h264ToJPEG :: "(bytes \<Rightarrow> string + bytes) \<Rightarrow> bytes \<Rightarrow> jpegError + bytes" where
  "h264ToJPEG ffmpeg h264Data = (case ffmpeg h264Data of
       Inl err \<Rightarrow> Inl (FfmpegFailed err)
     | Inr out \<Rightarrow> if out = [] then Inl EmptyOutput else Inr out)"

definition CaptureJPEG :: "(bytes \<Rightarrow> string + bytes) \<Rightarrow> frameExtractor \<Rightarrow> jpegError + bytes" where
  "CaptureJPEG ffmpeg fe = (if \<not> idrReady fe then Inr [] else h264ToJPEG ffmpeg (annexB fe))"

section \<open>Invariant\<close>

text \<open>
  What the extractor stores is what the field comments promise: non-empty NALs only, parameter sets
  of their type, a complete key frame behind \<open>idrReady\<close>, and PLI requests spaced by the interval.
\<close>

definition spaced :: "instant list \<Rightarrow> bool" where
  "spaced ts \<longleftrightarrow> sorted_wrt (\<lambda>a b. minPLIInterval \<le> b - a) ts"

definition stored_ok :: "frameExtractor \<Rightarrow> bool" where
  "stored_ok fe \<longleftrightarrow> (\<forall>n \<in> set (picBuf fe) \<union> set (idrNALs fe). n \<noteq> []) \<and> fua fe \<noteq> Some []
     \<and> (sps fe \<noteq> [] \<longrightarrow> nal_type (hd (sps fe)) = nalTypeSPS)
     \<and> (pps fe \<noteq> [] \<longrightarrow> nal_type (hd (pps fe)) = nalTypePPS)
     \<and> (idrReady fe \<longleftrightarrow> list_ex is_idr (idrNALs fe))"

definition pli_ok :: "frameExtractor \<Rightarrow> bool" where
  "pli_ok fe \<longleftrightarrow> spaced (pliLog fe) \<and> (pliLog fe \<noteq> [] \<longrightarrow> lastRecoveryPLI fe = last (pliLog fe))"

definition fe_inv :: "frameExtractor \<Rightarrow> bool" where
  "fe_inv fe \<longleftrightarrow> stored_ok fe \<and> pli_ok fe"

lemma minPLI_pos: "0 < minPLIInterval" "minPLIInterval \<le> max_dur" "min_dur < minPLIInterval"
  by (simp_all add: minPLIInterval_def second_def max_dur_def min_dur_def)

lemma spaced_snoc:
  assumes "spaced ts" and "ts \<noteq> []" and "minPLIInterval \<le> t - last ts"
  shows "spaced (ts @ [t])"
proof -
  have "minPLIInterval \<le> t - a" if "a \<in> set ts" for a
  proof (cases "a = last ts")
    case False
    have "ts = butlast ts @ [last ts]" using assms(2) by simp
    with assms(1) have w: "sorted_wrt (\<lambda>a b. minPLIInterval \<le> b - a) (butlast ts @ [last ts])"
      by (simp add: spaced_def)
    have "a \<in> set (butlast ts)" using that False assms(2) by (metis UnE append_butlast_last_id empty_iff empty_set insert_iff list.simps(15) set_append)
    then have "minPLIInterval \<le> last ts - a" using w by (simp add: sorted_wrt_append)
    with assms(3) minPLI_pos show ?thesis by linarith
  qed (use assms(3) in simp)
  then show ?thesis using assms(1) by (simp add: spaced_def sorted_wrt_append)
qed

lemma pli_ok_request [inv_intro]: "pli_ok fe \<Longrightarrow> pli_ok (RequestKeyFrame now fe)"
proof (cases "time_sub now (lastRecoveryPLI fe) < minPLIInterval")
  case False
  assume ok: "pli_ok fe"
  from False have "minPLIInterval \<le> now - lastRecoveryPLI fe"
    using minPLI_pos by (auto simp: time_sub_def)
  then show ?thesis
    using ok False spaced_snoc [of "pliLog fe" now]
    by (cases "pliLog fe = []") (auto simp: pli_ok_def RequestKeyFrame_def spaced_def)
qed (simp add: RequestKeyFrame_def)

lemma request_frame [simp]:
  "picBuf (RequestKeyFrame now fe) = picBuf fe" "idrNALs (RequestKeyFrame now fe) = idrNALs fe"
  "sps (RequestKeyFrame now fe) = sps fe" "pps (RequestKeyFrame now fe) = pps fe"
  "fua (RequestKeyFrame now fe) = fua fe" "idrReady (RequestKeyFrame now fe) = idrReady fe"
  "stored_ok (RequestKeyFrame now fe) = stored_ok fe"
  by (simp_all add: RequestKeyFrame_def stored_ok_def Let_def)

lemma fe_inv_request [inv_intro]: "fe_inv fe \<Longrightarrow> fe_inv (RequestKeyFrame now fe)"
  by (simp add: fe_inv_def pli_ok_request)

lemma commit_cases:
  "commitPicture now fe = fe
   \<or> pictureCorrupted fe \<and> commitPicture now fe
       = RequestKeyFrame now (fe\<lparr>pictureCorrupted := False, picBuf := []\<rparr>)
   \<or> \<not> pictureCorrupted fe \<and> list_ex is_idr (picBuf fe) \<and> commitPicture now fe
       = fe\<lparr>idrNALs := picBuf fe, idrReady := True, idrCh := True, picBuf := []\<rparr>
   \<or> \<not> pictureCorrupted fe \<and> \<not> list_ex is_idr (picBuf fe) \<and> commitPicture now fe = fe\<lparr>picBuf := []\<rparr>"
  by (simp add: commitPicture_def Let_def)

lemma fe_inv_commit [inv_intro]:
  assumes "fe_inv fe"
  shows "fe_inv (commitPicture now fe)"
proof -
  have "fe_inv (fe\<lparr>pictureCorrupted := False, picBuf := []\<rparr>)" "fe_inv (fe\<lparr>picBuf := []\<rparr>)"
    "list_ex is_idr (picBuf fe) \<Longrightarrow>
       fe_inv (fe\<lparr>idrNALs := picBuf fe, idrReady := True, idrCh := True, picBuf := []\<rparr>)"
    using assms by (auto simp: fe_inv_def stored_ok_def pli_ok_def)
  then show ?thesis using commit_cases [of now fe] assms fe_inv_request by metis
qed

lemma fe_inv_store [inv_intro]: "fe_inv fe \<Longrightarrow> fe_inv (storeNAL b (b # l) fe)"
proof -
  assume i: "fe_inv fe"
  let ?f1 = "fe\<lparr>picBuf := picBuf fe @ [b # l]\<rparr>"
  have i1: "fe_inv ?f1" using i by (simp add: fe_inv_def stored_ok_def pli_ok_def ball_Un)
  consider "nal_type b = nalTypeSPS" | "nal_type b \<noteq> nalTypeSPS" "nal_type b = nalTypePPS"
    | "nal_type b \<noteq> nalTypeSPS" "nal_type b \<noteq> nalTypePPS" by blast
  then show ?thesis
    using i1 by cases (simp_all add: storeNAL_def fe_inv_def stored_ok_def pli_ok_def)
qed

lemma fe_inv_addNAL [inv_intro]:
  assumes "addNAL now raw marker fe = Some fe'" and "fe_inv fe"
  shows "fe_inv fe'"
proof (cases raw)
  case (Cons b l)
  then have "fe_inv (storeNAL b raw fe)" using assms(2) by (simp add: fe_inv_store)
  then show ?thesis using assms(1) Cons fe_inv_commit by (auto simp: addNAL_def Let_def)
qed (use assms in \<open>simp add: addNAL_def\<close>)

lemma fe_inv_stapa_loop [inv_intro]:
  "stapa_loop now p fe = Some fe' \<Longrightarrow> fe_inv fe \<Longrightarrow> fe_inv fe'"
  by (induction now p fe rule: stapa_loop.induct)
     (auto simp: Let_def split: if_splits option.splits dest: fe_inv_addNAL)

lemma fe_inv_STAPA [inv_intro]:
  assumes "ingestSTAPA now p marker fe = Some fe'" and "fe_inv fe"
  shows "fe_inv fe'"
proof -
  obtain z where "stapa_loop now p fe = Some z" "fe' = (if marker then commitPicture now z else z)"
    using assms(1) by (auto simp: ingestSTAPA_def)
  with fe_inv_stapa_loop [of now p fe z] assms(2) show ?thesis by (simp add: fe_inv_commit)
qed

lemma fe_inv_fua_upd: "fe_inv fe \<Longrightarrow> d \<noteq> Some [] \<Longrightarrow> fe_inv (fe\<lparr>fua := d\<rparr>)"
  by (auto simp: fe_inv_def stored_ok_def pli_ok_def)

lemma fe_inv_FUA [inv_intro]:
  assumes "ingestFUA now p marker fe = Some fe'" and "fe_inv fe"
  shows "fe_inv fe'"
proof (cases p rule: remdups_adj.cases)
  case (3 p0 h payload)
  define fe1 where "fe1 = (if h AND 0x80 \<noteq> 0 then fe\<lparr>fua := Some [(p0 AND 0xE0) OR (h AND 0x1F)]\<rparr> else fe)"
  have i: "fe_inv fe1" using assms(2) by (simp add: fe1_def fe_inv_fua_upd)
  show ?thesis
  proof (cases "fua fe1")
    case None
    then show ?thesis using assms(1) 3 i by (simp add: ingestFUA_def fe1_def [symmetric])
  next
    case (Some data)
    then have "data \<noteq> []" using i by (auto simp: fe_inv_def stored_ok_def)
    then show ?thesis using assms(1) 3 i Some fe_inv_addNAL [of now "data @ payload" marker "fe1\<lparr>fua := None\<rparr>" fe']
      by (auto simp: ingestFUA_def fe1_def [symmetric] Let_def fe_inv_fua_upd split: if_splits)
  qed
qed (use assms in \<open>auto simp: ingestFUA_def\<close>)

lemma fe_inv_updates [simp]:
  "fe_inv (fe\<lparr>pictureCorrupted := c\<rparr>) = fe_inv fe" "fe_inv (fe\<lparr>picTS := t\<rparr>) = fe_inv fe"
  "fe_inv (fe\<lparr>prevSeq := q\<rparr>) = fe_inv fe" "fe_inv (fe\<lparr>hasPrevSeq := h\<rparr>) = fe_inv fe"
  "fe_inv (fe\<lparr>lostPackets := l\<rparr>) = fe_inv fe" "fe_inv (fe\<lparr>reorder := r\<rparr>) = fe_inv fe"
  by (simp_all add: fe_inv_def stored_ok_def pli_ok_def)

lemma fe_inv_updates2 [simp]:
  "fe_inv (fe\<lparr>prevSeq := q, hasPrevSeq := h\<rparr>) = fe_inv fe"
  "fe_inv (fe\<lparr>prevSeq := q, lostPackets := l\<rparr>) = fe_inv fe"
  by (simp_all add: fe_inv_def stored_ok_def pli_ok_def)

lemma checkSeqGap_frame:
  assumes "checkSeqGap pkt fe = (g, fe1)"
  shows "fe_inv fe1 = fe_inv fe" "picBuf fe1 = picBuf fe" "fua fe1 = fua fe"
    "pictureCorrupted fe1 = pictureCorrupted fe" "idrNALs fe1 = idrNALs fe"
  using assms by (auto simp: checkSeqGap_def Let_def split: if_splits)

lemma noteGap_frame [simp]:
  "fe_inv (noteGap pkt fe) = fe_inv fe" "picBuf (noteGap pkt fe) = picBuf fe"
  "fua (noteGap pkt fe) = fua fe" "idrNALs (noteGap pkt fe) = idrNALs fe"
proof -
  obtain g fe1 where c: "checkSeqGap pkt fe = (g, fe1)" by fastforce
  note f = checkSeqGap_frame [OF c]
  show "fe_inv (noteGap pkt fe) = fe_inv fe" using c f(1)
    by (cases "g \<and> (picBuf fe1 \<noteq> [] \<or> fua fe1 \<noteq> None)") (simp_all add: noteGap_def)
  show "picBuf (noteGap pkt fe) = picBuf fe" "fua (noteGap pkt fe) = fua fe"
    "idrNALs (noteGap pkt fe) = idrNALs fe"
    using c f by (simp_all add: noteGap_def)
qed

lemma ingestOrdered_Cons:
  assumes "Payload pkt = b # rest"
  shows "ingestOrdered now pkt fe =
     (if 1 \<le> nal_type b \<and> nal_type b \<le> 23 then addNAL now (b # rest) (Marker pkt) (noteGap pkt fe)
      else if nal_type b = rtpNALTypeSTAPA then ingestSTAPA now rest (Marker pkt) (noteGap pkt fe)
      else if nal_type b = rtpNALTypeFUA then ingestFUA now (b # rest) (Marker pkt) (noteGap pkt fe)
      else Some (noteGap pkt fe))"
  by (simp only: ingestOrdered_def Let_def assms list.case)

lemma fe_inv_ordered [inv_intro]:
  assumes "ingestOrdered now pkt fe = Some fe'" and "fe_inv fe"
  shows "fe_inv fe'"
proof -
  have i: "fe_inv (noteGap pkt fe)" using assms(2) by simp
  show ?thesis
  proof (cases "Payload pkt")
    case Nil
    then show ?thesis using assms(1) i by (simp add: ingestOrdered_def)
  next
    case (Cons b rest)
    from assms(1) [unfolded ingestOrdered_Cons [OF Cons]] show ?thesis
      by (simp only: split: if_splits)
         (erule fe_inv_addNAL [OF _ i] fe_inv_STAPA [OF _ i] fe_inv_FUA [OF _ i] | use i in simp)+
  qed
qed

lemma fe_inv_all: "ingest_all now ps fe = Some fe' \<Longrightarrow> fe_inv fe \<Longrightarrow> fe_inv fe'"
  by (induction ps arbitrary: fe) (auto split: option.splits intro: fe_inv_ordered)

lemma fe_inv_ingest [inv_intro]:
  assumes "ingest now pkt fe = Some fe'" and "fe_inv fe"
  shows "fe_inv fe'"
proof -
  obtain out rb where p: "push now (reorder fe) pkt = (out, rb)" by fastforce
  have "fe_inv (fe\<lparr>reorder := rb\<rparr>)" using assms(2) by (simp add: fe_inv_def stored_ok_def pli_ok_def)
  then show ?thesis using assms(1) p fe_inv_all by (simp add: ingest_def)
qed

lemma fe_inv_new: "fe_inv NewFrameExtractor"
  by (simp add: NewFrameExtractor_def fe_inv_def stored_ok_def pli_ok_def spaced_def)

section \<open>Aggregation packets: round trip and panic\<close>

definition stap_unit :: "bytes \<Rightarrow> bytes" where
  "stap_unit u = word_of_nat (length u div 256) # word_of_nat (length u mod 256) # u"

lemma stap_size_eq:
  assumes "n < 65536"
  shows "stap_size (word_of_nat (n div 256)) (word_of_nat (n mod 256)) = n"
proof -
  have h: "unat (word_of_nat (n div 256) :: 8 word) = n div 256"
    and l: "unat (word_of_nat (n mod 256) :: 8 word) = n mod 256"
    using assms by (simp_all add: unat_of_nat)
  have m: "n mod 256 = take_bit 8 n" and d: "n div 256 = drop_bit 8 n"
    by (simp_all add: take_bit_eq_mod drop_bit_eq_div)
  have "push_bit 8 (drop_bit 8 n) OR take_bit 8 n = n"
    by (rule bit_eqI) (auto simp: bit_simps)
  then have "push_bit 8 (n div 256) OR (n mod 256) = n" by (simp only: m d)
  then show ?thesis by (simp only: stap_size_def h l)
qed

lemma stapa_loop_unit:
  assumes "length u < 65536"
  shows "stapa_loop now (stap_unit u @ p) fe =
    (case addNAL now u False fe of None \<Rightarrow> None | Some fe1 \<Rightarrow> stapa_loop now p fe1)"
  using assms by (simp add: stap_unit_def stap_size_eq split: option.split)

lemma addNAL_open:
  "u \<noteq> [] \<Longrightarrow> addNAL now u False fe = Some (storeNAL (hd u) u fe)"
  by (cases u) (simp_all add: addNAL_def)

lemma storeNAL_frame [simp]:
  "picBuf (storeNAL b u fe) = picBuf fe @ [u]" "idrNALs (storeNAL b u fe) = idrNALs fe"
  "pliLog (storeNAL b u fe) = pliLog fe" "fua (storeNAL b u fe) = fua fe"
  "pictureCorrupted (storeNAL b u fe) = pictureCorrupted fe"
  "idrReady (storeNAL b u fe) = idrReady fe"
  by (simp_all add: storeNAL_def Let_def)

text \<open>
  C39.  STAP-A de-aggregation inverts aggregation (RFC 6184 5.7.1), and a zero-size unit is the one
  thing that makes it panic: for units of fewer than 65536 bytes, the loop of \<open>ingestSTAPA\<close> panics
  (\<open>nal[0]\<close> on an empty slice in \<open>addNAL\<close>) exactly when some unit is empty, and otherwise appends
  the units, in order and unchanged, to the picture being assembled.
\<close>

theorem stapa_roundtrip:
  assumes "\<forall>u \<in> set us. length u < 65536"
  shows "map_option picBuf (stapa_loop now (concat (map stap_unit us)) fe) =
           (if [] \<in> set us then None else Some (picBuf fe @ us))"
  using assms
proof (induction us arbitrary: fe)
  case (Cons u us)
  then have s: "stapa_loop now (concat (map stap_unit (u # us))) fe =
      (case addNAL now u False fe of None \<Rightarrow> None
       | Some fe1 \<Rightarrow> stapa_loop now (concat (map stap_unit us)) fe1)"
    using stapa_loop_unit [of u now "concat (map stap_unit us)" fe] by simp
  show ?case
  proof (cases "u = []")
    case True
    then show ?thesis unfolding s by (simp add: addNAL_def)
  next
    case False
    then show ?thesis unfolding s using Cons by (simp add: addNAL_open eq_commute [of "[]"])
  qed
qed simp

lemma stapa_roundtrip_witness:
  "map_option picBuf (stapa_loop 0 (concat (map stap_unit [[0x67, 1], []])) NewFrameExtractor) = None
   \<and> map_option picBuf (stapa_loop 0 (concat (map stap_unit [[0x67, 1], [0x68]])) NewFrameExtractor)
      = Some [[0x67, 1], [0x68]]"
  using stapa_roundtrip [of "[[0x67, 1], []]" 0 NewFrameExtractor]
    stapa_roundtrip [of "[[0x67, 1], [0x68]]" 0 NewFrameExtractor]
  by (simp add: NewFrameExtractor_def)

text \<open>
  That panic is reachable from the network, and nothing else is: handling one in-order packet
  panics only on a STAP-A payload whose loop meets an empty unit, and the three-byte payload
  \<open>0x78 0x00 0x00\<close> does so in every state.
\<close>

theorem ingest_panic:
  assumes "fe_inv fe"
  shows "(ingestOrdered now pkt fe = None \<longrightarrow>
            (\<exists>b rest. Payload pkt = b # rest \<and> nal_type b = rtpNALTypeSTAPA
               \<and> stapa_loop now rest (noteGap pkt fe) = None))
         \<and> ingestOrdered now (pkt\<lparr>Payload := [0x78, 0, 0]\<rparr>) fe = None"
proof (intro conjI impI)
  assume n: "ingestOrdered now pkt fe = None"
  then obtain b rest where c: "Payload pkt = b # rest"
    by (cases "Payload pkt") (auto simp: ingestOrdered_def)
  have i: "fe_inv (noteGap pkt fe)" using assms by simp
  have a: "addNAL now (x # l) m f \<noteq> None" for x l m f by (simp add: addNAL_def Let_def)
  have u: "ingestFUA now (b # rest) (Marker pkt) (noteGap pkt fe) \<noteq> None"
  proof (cases rest)
    case (Cons h payload)
    have ad: "addNAL now (d @ payload) m f \<noteq> None" if "d \<noteq> []" for d m f
      using that a by (cases d) simp_all
    define f1 where "f1 = (if h AND 0x80 \<noteq> 0
        then (noteGap pkt fe)\<lparr>fua := Some [(b AND 0xE0) OR (h AND 0x1F)]\<rparr> else noteGap pkt fe)"
    have "fua f1 \<noteq> Some []"
      using i by (auto simp: f1_def fe_inv_def stored_ok_def)
    then show ?thesis using Cons ad
      by (cases "fua f1") (auto simp: ingestFUA_def Let_def f1_def [symmetric])
  qed (simp add: ingestFUA_def)
  have "nal_type b = rtpNALTypeSTAPA \<and> ingestSTAPA now rest (Marker pkt) (noteGap pkt fe) = None"
    using n [unfolded ingestOrdered_Cons [OF c]] a u by (simp only: split: if_splits) simp_all
  then show "\<exists>b rest. Payload pkt = b # rest \<and> nal_type b = rtpNALTypeSTAPA
       \<and> stapa_loop now rest (noteGap pkt fe) = None"
    using c by (auto simp: ingestSTAPA_def)
next
  let ?p = "pkt\<lparr>Payload := [0x78, 0, 0]\<rparr>"
  have c: "Payload ?p = 0x78 # [0, 0]" by simp
  have "stapa_loop now [0, 0] f = None" for f by (simp add: stap_size_def addNAL_def)
  then show "ingestOrdered now ?p fe = None"
    unfolding ingestOrdered_Cons [OF c] by (simp add: rtpNALTypeSTAPA_def ingestSTAPA_def)
qed

lemma ingest_panic_witness:
  "ingestOrdered 0 (mk_pkt 9\<lparr>Payload := [0x78, 0, 0]\<rparr>) NewFrameExtractor = None"
  using ingest_panic [OF fe_inv_new] by simp

section \<open>Fragmentation units: round trip\<close>

text \<open>The FU-A payloads of a NAL: indicator, FU header with start and end bits, fragment.\<close>

definition fu_payload :: "8 word \<Rightarrow> bool \<Rightarrow> bool \<Rightarrow> bytes \<Rightarrow> bytes" where
  "fu_payload hdr s e frag =
     ((hdr AND 0xE0) OR 28) #
     ((if s then 0x80 else 0) OR (if e then 0x40 else 0) OR (hdr AND 0x1F)) # frag"

fun fu_rest :: "8 word \<Rightarrow> bytes list \<Rightarrow> bytes list" where
  "fu_rest hdr [] = []"
| "fu_rest hdr [f] = [fu_payload hdr False True f]"
| "fu_rest hdr (f # fs) = fu_payload hdr False False f # fu_rest hdr fs"

fun fua_all :: "instant \<Rightarrow> bytes list \<Rightarrow> frameExtractor \<Rightarrow> frameExtractor option" where
  "fua_all now [] fe = Some fe"
| "fua_all now (p # ps) fe =
     (case ingestFUA now p False fe of None \<Rightarrow> None | Some fe1 \<Rightarrow> fua_all now ps fe1)"

lemma fu_bits:
  "((if s then 0x80 else 0) OR (if e then 0x40 else 0) OR (hdr AND 0x1F)) AND 0x80 \<noteq> (0 :: 8 word) \<longleftrightarrow> s"
  "((if s then 0x80 else 0) OR (if e then 0x40 else 0) OR (hdr AND 0x1F)) AND 0x40 \<noteq> (0 :: 8 word) \<longleftrightarrow> e"
  "((if s then 0x80 else 0) OR (if e then 0x40 else 0) OR (hdr AND 0x1F)) AND 0x1F = (hdr AND 0x1F :: 8 word)"
  by (auto simp: word_ao_dist word_ao_dist2 word_bw_assocs)

lemma fu_header:
  "(((hdr AND 0xE0) OR 28) AND 0xE0) OR (hdr AND 0x1F) = (hdr :: 8 word)"
proof -
  have e: "(((hdr AND 0xE0) OR 28) AND 0xE0) = hdr AND 0xE0"
    by (simp add: word_ao_dist word_bw_assocs)
  have m: "(0xE0 OR 0x1F :: 8 word) = -1" by simp
  show ?thesis unfolding e word_ao_dist2 [symmetric] m by simp
qed

lemma ingestFUA_unit:
  "ingestFUA now (fu_payload hdr s e frag) marker fe =
     (let fe1 = (if s then fe\<lparr>fua := Some [hdr]\<rparr> else fe)
      in case fua fe1 of None \<Rightarrow> Some fe1
         | Some data \<Rightarrow> if e then addNAL now (data @ frag) marker (fe1\<lparr>fua := None\<rparr>)
                       else Some (fe1\<lparr>fua := Some (data @ frag)\<rparr>))"
  unfolding ingestFUA_def fu_payload_def list.case Let_def fu_bits fu_header by (rule refl)

lemma fua_rest_run:
  assumes "fs \<noteq> []" and "fua fe = Some d" and "d \<noteq> []"
  shows "\<exists>fe'. fua_all now (fu_rest hdr fs) fe = Some fe' \<and> fua fe' = None
           \<and> picBuf fe' = picBuf fe @ [d @ concat fs]"
  using assms
proof (induction hdr fs arbitrary: fe d rule: fu_rest.induct)
  case (2 hdr f)
  then show ?case
    by (simp add: ingestFUA_unit addNAL_open [of "d @ f"])
next
  case (3 hdr f g fs)
  have "ingestFUA now (fu_payload hdr False False f) False fe = Some (fe\<lparr>fua := Some (d @ f)\<rparr>)"
    using "3.prems" by (simp add: ingestFUA_unit)
  with "3.IH" [of "fe\<lparr>fua := Some (d @ f)\<rparr>" "d @ f"] "3.prems" show ?case by simp
qed simp

text \<open>
  FU-A reassembly inverts fragmentation (RFC 6184 5.8): whatever was left of an earlier unit,
  feeding the fragments of the NAL \<open>hdr # body\<close>, cut anywhere into two or more pieces, appends
  exactly that NAL to the picture and leaves no reassembly open.
\<close>

theorem fua_roundtrip:
  assumes "fs \<noteq> []"
  shows "\<exists>fe'. fua_all now (fu_payload hdr True False f # fu_rest hdr fs) fe = Some fe' \<and> fua fe' = None
           \<and> picBuf fe' = picBuf fe @ [hdr # f @ concat fs]"
proof -
  let ?f1 = "fe\<lparr>fua := Some (hdr # f)\<rparr>"
  have "ingestFUA now (fu_payload hdr True False f) False fe = Some ?f1" by (simp add: ingestFUA_unit)
  with fua_rest_run [OF assms, of ?f1 "hdr # f" now hdr] show ?thesis by simp
qed

lemma fua_roundtrip_witness:
  "\<exists>fe'. fua_all 0 (fu_payload 0x65 True False [1, 2] # fu_rest 0x65 [[3], [4, 5]]) NewFrameExtractor = Some fe'
     \<and> fua fe' = None \<and> picBuf fe' = picBuf NewFrameExtractor @ [0x65 # [1, 2] @ concat [[3], [4, 5]]]"
  by (rule fua_roundtrip) simp

section \<open>Loss and key frames\<close>

text \<open>
  A loss inside an open picture never reaches the captured key frame: when the closing packet
  of a picture (a single NAL with the marker) arrives after a sequence gap, the picture is thrown
  away, the captured key frame is what it was, and a PLI is sent unless one was sent within the
  last two seconds.
\<close>

theorem gap_drops_picture:
  assumes "hasPrevSeq fe" and "1 < seq_delta (SequenceNumber pkt) (prevSeq fe)"
    and "picBuf fe \<noteq> []" and "Payload pkt = b # rest" and "1 \<le> nal_type b" and "nal_type b \<le> 23"
    and "Marker pkt"
  shows "\<exists>fe'. ingestOrdered now pkt fe = Some fe' \<and> picBuf fe' = [] \<and> \<not> pictureCorrupted fe'
           \<and> idrNALs fe' = idrNALs fe \<and> idrReady fe' = idrReady fe
           \<and> pliLog fe' = pliLog fe @ (if time_sub now (lastRecoveryPLI fe) < minPLIInterval then [] else [now])"
proof -
  define f1 where "f1 = noteGap pkt fe"
  define f2 where "f2 = storeNAL b (b # rest) f1"
  have "checkSeqGap pkt fe = (True, fe\<lparr>lostPackets := lostPackets fe
            + of_int (seq_delta (SequenceNumber pkt) (prevSeq fe) - 1), prevSeq := SequenceNumber pkt\<rparr>)"
    using assms(1,2) by (simp add: checkSeqGap_def)
  then have f1: "pictureCorrupted f1" "pliLog f1 = pliLog fe" "lastRecoveryPLI f1 = lastRecoveryPLI fe"
      "idrNALs f1 = idrNALs fe" "idrReady f1 = idrReady fe"
    using assms(3) by (simp_all add: f1_def noteGap_def)
  have last: "lastRecoveryPLI f2 = lastRecoveryPLI f1" by (simp add: f2_def storeNAL_def Let_def)
  have "ingestOrdered now pkt fe = Some (commitPicture now f2)"
    unfolding ingestOrdered_Cons [OF assms(4)]
    using assms(5-7) by (simp add: addNAL_def f1_def f2_def)
  moreover have "commitPicture now f2 = RequestKeyFrame now (f2\<lparr>pictureCorrupted := False, picBuf := []\<rparr>)"
    using f1(1) by (simp add: commitPicture_def f2_def)
  ultimately show ?thesis
    using f1 last by (simp add: RequestKeyFrame_def Let_def f2_def)
qed

definition mk_nal :: "16 word \<Rightarrow> bool \<Rightarrow> bytes \<Rightarrow> packet" where
  "mk_nal n mk p = \<lparr>SequenceNumber = n, Timestamp = 0, Marker = mk, Payload = p\<rparr>"

lemma gap_drops_picture_witness:
  "\<exists>fe'. ingestOrdered 0 (mk_nal 9 True [0x65, 1])
        (NewFrameExtractor\<lparr>hasPrevSeq := True, prevSeq := 5, picBuf := [[0x65]]\<rparr>) = Some fe'
     \<and> picBuf fe' = [] \<and> idrNALs fe' = []"
  using gap_drops_picture [of "NewFrameExtractor\<lparr>hasPrevSeq := True, prevSeq := 5, picBuf := [[0x65]]\<rparr>"
      "mk_nal 9 True [0x65, 1]" "0x65" "[1]" 0]
  by (auto simp: mk_nal_def seq_delta_def NewFrameExtractor_def)

text \<open>
  A loss at a picture boundary goes unnoticed: with no NAL buffered and no fragment open, an
  IDR slice that arrives after any number of lost packets is captured as the complete key frame,
  though the earlier slices of its picture may be among the lost ones.
\<close>

theorem boundary_gap_captured:
  assumes "hasPrevSeq fe" and "1 < seq_delta (SequenceNumber pkt) (prevSeq fe)"
    and "picBuf fe = []" and "fua fe = None" and "\<not> pictureCorrupted fe"
    and "Payload pkt = b # rest" and "nal_type b = nalTypeIDR" and "Marker pkt"
  shows "\<exists>fe'. ingestOrdered now pkt fe = Some fe' \<and> idrNALs fe' = [b # rest] \<and> idrReady fe'
           \<and> pliLog fe' = pliLog fe
           \<and> lostPackets fe' = lostPackets fe + of_int (seq_delta (SequenceNumber pkt) (prevSeq fe) - 1)"
proof -
  define f1 where "f1 = noteGap pkt fe"
  have "checkSeqGap pkt fe = (True, fe\<lparr>lostPackets := lostPackets fe
            + of_int (seq_delta (SequenceNumber pkt) (prevSeq fe) - 1), prevSeq := SequenceNumber pkt\<rparr>)"
    using assms(1,2) by (simp add: checkSeqGap_def)
  then have f1: "\<not> pictureCorrupted f1" "pliLog f1 = pliLog fe" "picBuf f1 = []"
      "lostPackets f1 = lostPackets fe + of_int (seq_delta (SequenceNumber pkt) (prevSeq fe) - 1)"
    using assms(3-5) by (simp_all add: f1_def noteGap_def)
  have "ingestOrdered now pkt fe = Some (commitPicture now (storeNAL b (b # rest) f1))"
    unfolding ingestOrdered_Cons [OF assms(6)]
    using assms(7,8) by (simp add: addNAL_def f1_def nalTypeIDR_def)
  then show ?thesis using f1 assms(7)
    by (simp add: commitPicture_def storeNAL_def is_idr_def nalTypeIDR_def nalTypeSPS_def nalTypePPS_def)
qed

lemma boundary_gap_captured_witness:
  "\<exists>fe'. ingestOrdered 0 (mk_nal 9 True [0x65, 1])
        (NewFrameExtractor\<lparr>hasPrevSeq := True, prevSeq := 5\<rparr>) = Some fe'
     \<and> idrNALs fe' = [[0x65, 1]] \<and> lostPackets fe' = 3"
  using boundary_gap_captured [of "NewFrameExtractor\<lparr>hasPrevSeq := True, prevSeq := 5\<rparr>"
      "mk_nal 9 True [0x65, 1]" "0x65" "[1]" 0]
  by (auto simp: mk_nal_def seq_delta_def NewFrameExtractor_def nalTypeIDR_def)

lemma fe_inv_loop:
  "ReadLoop unmarshal reads st = Some st' \<Longrightarrow> fe_inv (fx st) \<Longrightarrow> fe_inv (fx st')"
proof (induction reads arbitrary: st)
  case (Cons r reads)
  obtain now ctxDone rd where r: "r = (now, ctxDone, rd)" by (cases r)
  show ?case
  proof (cases "ctxDone \<or> rd = None")
    case False
    then obtain buf where rd: "\<not> ctxDone" "rd = Some buf" by auto
    let ?s1 = "st\<lparr>rawOut := map_option (\<lambda>l. l @ [buf]) (rawOut st)\<rparr>"
    show ?thesis
    proof (cases "unmarshal buf")
      case None
      then show ?thesis using Cons.IH [of ?s1] Cons.prems r rd by simp
    next
      case (Some pkt)
      let ?s2 = "?s1\<lparr>rtpOut := map_option (\<lambda>l. l @ [pkt]) (rtpOut st)\<rparr>"
      show ?thesis
      proof (cases "ingest now pkt (fx st)")
        case (Some fe)
        have "fe_inv fe" by (rule fe_inv_ingest [OF Some Cons.prems(2)])
        then show ?thesis using Cons.IH [of "?s2\<lparr>fx := fe\<rparr>"] Cons.prems(1) r rd Some \<open>unmarshal buf = Some pkt\<close>
          by simp
      qed (use Cons.prems r rd Some in simp)
    qed
  qed (use Cons.prems r in \<open>auto split: option.splits\<close>)
qed simp

lemma annexB_has:
  assumes "n \<in> set (idrNALs fe)"
  shows "\<exists>pre post. annexB fe = pre @ annexBStartCode @ n @ post"
proof -
  from split_list [OF assms] obtain xs ys where "idrNALs fe = xs @ n # ys" by blast
  then have "annexB fe = ((if sps fe \<noteq> [] then annexBStartCode @ sps fe else [])
     @ (if pps fe \<noteq> [] then annexBStartCode @ pps fe else [])
     @ concat (map (\<lambda>n. annexBStartCode @ n) xs))
     @ annexBStartCode @ n @ concat (map (\<lambda>n. annexBStartCode @ n) ys)"
    by (simp add: annexB_def)
  then show ?thesis by blast
qed

text \<open>
  Whatever the network delivers, whenever the read loop returns: PLI requests are at least two
  seconds apart, the stored parameter sets have their NAL type, and \<open>CaptureKeyFrame\<close> returns
  nothing before the first key frame and afterwards a buffer holding, behind a start code, an IDR NAL.
\<close>

theorem read_loop_capture:
  assumes "ReadLoop unmarshal reads \<lparr>fx = NewFrameExtractor, rawOut = ro, rtpOut = po\<rparr> = Some st"
  shows "fe_inv (fx st) \<and> spaced (pliLog (fx st))
     \<and> (CaptureKeyFrame (fx st) \<noteq> [] \<longleftrightarrow> idrReady (fx st))
     \<and> (idrReady (fx st) \<longrightarrow> (\<exists>pre n post. is_idr n \<and>
           CaptureKeyFrame (fx st) = pre @ annexBStartCode @ n @ post))"
proof -
  have i: "fe_inv (fx st)" using fe_inv_loop [OF assms] fe_inv_new by simp
  have c: "\<exists>pre n post. is_idr n \<and> CaptureKeyFrame (fx st) = pre @ annexBStartCode @ n @ post"
    if "idrReady (fx st)"
  proof -
    from that i obtain n where n: "n \<in> set (idrNALs (fx st))" "is_idr n"
      by (auto simp: fe_inv_def stored_ok_def list_ex_iff)
    from annexB_has [OF n(1)] obtain pre post
      where "annexB (fx st) = pre @ annexBStartCode @ n @ post" by blast
    moreover have "CaptureKeyFrame (fx st) = annexB (fx st)"
      using that n by (auto simp: CaptureKeyFrame_def)
    ultimately show ?thesis using n(2) by metis
  qed
  moreover have "CaptureKeyFrame (fx st) = []" if "\<not> idrReady (fx st)"
    using that by (simp add: CaptureKeyFrame_def)
  moreover have "CaptureKeyFrame (fx st) \<noteq> []" if "idrReady (fx st)"
    using c [OF that] by (auto simp: annexBStartCode_def)
  moreover have "spaced (pliLog (fx st))" using i by (simp add: fe_inv_def pli_ok_def)
  ultimately show ?thesis using i by blast
qed

lemma read_loop_capture_witness:
  "\<exists>st. ReadLoop (\<lambda>b. Some (mk_nal 1 True b)) [(0, False, Some [0x65, 7]), (1, True, None)]
      \<lparr>fx = NewFrameExtractor, rawOut = Some [], rtpOut = None\<rparr> = Some st
    \<and> spaced (pliLog (fx st))"
proof -
  have "ReadLoop (\<lambda>b. Some (mk_nal 1 True b)) [(0, False, Some [0x65, 7]), (1, True, None)]
      \<lparr>fx = NewFrameExtractor, rawOut = Some [], rtpOut = None\<rparr> \<noteq> None"
    by (simp add: mk_nal_def NewFrameExtractor_def ingest_def push_def empty_reorder_def drain.simps
        ingestOrdered_def noteGap_def checkSeqGap_def addNAL_def)
  then obtain st where "ReadLoop (\<lambda>b. Some (mk_nal 1 True b)) [(0, False, Some [0x65, 7]), (1, True, None)]
      \<lparr>fx = NewFrameExtractor, rawOut = Some [], rtpOut = None\<rparr> = Some st" by blast
  with read_loop_capture [OF this] show ?thesis by blast
qed

end
