(* ===== verification/Media.thy ===== *)
theory Media
  imports Redis
begin

text \<open>
  \<open>internal/media/probe.go\<close>: reading what ffprobe and ffmpeg say about a file.  The two programs are
  parameters: they get their arguments and return the exit status with the error output or the
  standard output, as a JSON document for ffprobe (\<^const>\<open>None\<close> when it does not parse).  A
  \<open>float64\<close> is an exact rational, an infinity or NaN; \<open>strconv.ParseFloat\<close> reads decimals with an
  optional fraction and exponent and the special names (hexadecimal floats, underscores and
  overflow are outside the model).
\<close>

section \<open>float64\<close>

datatype float64 = Fin rat | PosInf | NegInf | NaN

text \<open>The comparison \<open><=\<close>: false on NaN.\<close>

definition fle :: "float64 \<Rightarrow> float64 \<Rightarrow> bool" where
  "fle a b = (case (a, b) of (NaN, _) \<Rightarrow> False | (_, NaN) \<Rightarrow> False | (NegInf, _) \<Rightarrow> True | (_, PosInf) \<Rightarrow> True
     | (Fin x, Fin y) \<Rightarrow> x \<le> y | _ \<Rightarrow> False)"

text \<open>Division; a finite value over zero is excluded by the callers.\<close>

definition fdiv :: "float64 \<Rightarrow> float64 \<Rightarrow> float64" where
  "fdiv a b = (case (a, b) of
     (Fin x, Fin y) \<Rightarrow> Fin (x / y)
   | (Fin x, PosInf) \<Rightarrow> Fin 0 | (Fin x, NegInf) \<Rightarrow> Fin 0
   | (PosInf, Fin y) \<Rightarrow> (if 0 \<le> y then PosInf else NegInf)
   | (NegInf, Fin y) \<Rightarrow> (if 0 \<le> y then NegInf else PosInf)
   | _ \<Rightarrow> NaN)"

definition strip_sign :: "string \<Rightarrow> bool \<times> bool \<times> string" where
  "strip_sign s = (case s of [] \<Rightarrow> (False, False, [])
     | c # cs \<Rightarrow> if c = CHR ''-'' then (True, True, cs) else if c = CHR ''+'' then (True, False, cs)
                 else (False, False, s))"

definition parse_exp :: "string \<Rightarrow> int option" where
  "parse_exp s = (let (_, neg, ds) = strip_sign s in
     if ds = [] \<or> \<not> list_all is_digit ds then None
     else Some (if neg then - int (digits_val ds) else int (digits_val ds)))"

definition pow10 :: "int \<Rightarrow> rat" where
  "pow10 e = (if 0 \<le> e then 10 ^ nat e else 1 / 10 ^ nat (- e))"

definition ParseFloat :: "string \<Rightarrow> float64 option" where
  "ParseFloat s =
     (let (signed, neg, u) = strip_sign s; lo = ToLower u in
      if lo = ''inf'' \<or> lo = ''infinity'' then Some (if neg then NegInf else PosInf)
      else if lo = ''nan'' \<and> \<not> signed then Some NaN
      else
        let is_e = (\<lambda>c. c = CHR ''e'' \<or> c = CHR ''E'');
            mant = takeWhile (\<lambda>c. \<not> is_e c) u; rest = dropWhile (\<lambda>c. \<not> is_e c) u;
            (ip, fp) = (case split_on CHR ''.'' mant of [a] \<Rightarrow> (a, []) | [a, b] \<Rightarrow> (a, b) | _ \<Rightarrow> (''x'', []))
        in if ip @ fp = [] \<or> \<not> list_all is_digit (ip @ fp) then None
           else (case (if rest = [] then Some 0 else parse_exp (tl rest)) of
                   None \<Rightarrow> None
                 | Some e \<Rightarrow> (let v = rat_of_nat (digits_val (ip @ fp)) * pow10 (e - int (length fp))
                             in Some (Fin (if neg then - v else v)))))"

text \<open>The value of \<open>strconv.ParseInt(s, 10, 64)\<close> when its error is dropped: 0 on a malformed text, the
  nearest bound out of range.\<close>

definition ParseInt_value :: "string \<Rightarrow> int" where
  "ParseInt_value s = (case Atoi s of Some v \<Rightarrow> v
     | None \<Rightarrow> (let (_, neg, ds) = strip_sign s in
         if ds = [] \<or> \<not> list_all is_digit ds then 0 else if neg then min_dur else max_int64))"

fun Cut :: "string \<Rightarrow> string \<Rightarrow> (string \<times> string) option" where
  "Cut sep [] = (if sep = [] then Some ([], []) else None)"
| "Cut sep (c # cs) =
     (if prefix sep (c # cs) then Some ([], drop (length sep) (c # cs))
      else map_option (\<lambda>(a, b). (c # a, b)) (Cut sep cs))"

section \<open>Reports\<close>

record VideoTrack =
  v_Present :: bool
  v_Codec :: string
  v_Width :: int
  v_Height :: int
  v_AvgFrameRate :: float64
  v_Frames :: int

record AudioTrack =
  a_Present :: bool
  a_Codec :: string

record ProbeReport =
  pr_DurationSecs :: float64
  pr_Video :: VideoTrack
  pr_Audio :: AudioTrack

record AudioLevel =
  MeanDBFS :: float64
  PeakDBFS :: float64

definition SilentPeakDBFS :: float64 where "SilentPeakDBFS = Fin (- 50)"

definition Silent :: "AudioLevel \<Rightarrow> bool" where "Silent l = fle (PeakDBFS l) SilentPeakDBFS"

datatype mediaError = ProbeExec string | ProbeParse | CountExec string | CountParse | NoVideoStream
  | NotANumber string | LevelExec string | NoMaxVolume

section \<open>Reading ffprobe\<close>

text \<open>An array of structs: absent and null are empty, a null element is the zero struct.\<close>

definition dec_list :: "string \<Rightarrow> (json \<Rightarrow> 'a option) \<Rightarrow> json \<Rightarrow> 'a list option" where
  "dec_list f dec j = (case jget f j of None \<Rightarrow> Some [] | Some JNull \<Rightarrow> Some []
     | Some (JArr js) \<Rightarrow> those (map dec js) | _ \<Rightarrow> None)"

definition is_struct :: "json \<Rightarrow> bool" where
  "is_struct j = (case j of JObj _ \<Rightarrow> True | JNull \<Rightarrow> True | _ \<Rightarrow> False)"

definition dec_packets :: "json \<Rightarrow> string option" where
  "dec_packets j = (if is_struct j then dec_str ''nb_read_packets'' j else None)"

definition parsePacketCount :: "json option \<Rightarrow> mediaError + int" where
  "parsePacketCount data =
     (case Option.bind data (\<lambda>j. if is_struct j then dec_list ''streams'' dec_packets j else None) of
        None \<Rightarrow> Inl CountParse
      | Some [] \<Rightarrow> Inl NoVideoStream
      | Some (n # _) \<Rightarrow> (case Atoi n of None \<Rightarrow> Inl (NotANumber n) | Some c \<Rightarrow> Inr c))"

record probeStream =
  ps_CodecType :: string
  ps_CodecName :: string
  ps_Width :: int
  ps_Height :: int
  ps_AvgFrameRate :: string
  ps_NbFrames :: string

definition dec_stream :: "json \<Rightarrow> probeStream option" where
  "dec_stream j = (if \<not> is_struct j then None else
     Option.bind (dec_str ''codec_type'' j) (\<lambda>a. Option.bind (dec_str ''codec_name'' j) (\<lambda>b.
     Option.bind (dec_int ''width'' j) (\<lambda>c. Option.bind (dec_int ''height'' j) (\<lambda>d.
     Option.bind (dec_str ''avg_frame_rate'' j) (\<lambda>e. Option.bind (dec_str ''nb_frames'' j) (\<lambda>f.
       Some \<lparr>ps_CodecType = a, ps_CodecName = b, ps_Width = c, ps_Height = d, ps_AvgFrameRate = e,
             ps_NbFrames = f\<rparr>)))))))"

definition dec_format :: "json \<Rightarrow> string option" where
  "dec_format j = (case jget ''format'' j of None \<Rightarrow> Some [] | Some k \<Rightarrow>
     if is_struct k then dec_str ''duration'' k else None)"

definition dec_probe :: "json \<Rightarrow> (probeStream list \<times> string) option" where
  "dec_probe j = (if \<not> is_struct j then None else
     Option.bind (dec_list ''streams'' dec_stream j) (\<lambda>ss. Option.bind (dec_format j) (\<lambda>d. Some (ss, d))))"

definition parseRational :: "string \<Rightarrow> float64" where
  "parseRational v =
     (case Cut ''/'' v of
        None \<Rightarrow> (case ParseFloat v of None \<Rightarrow> Fin 0 | Some f \<Rightarrow> f)
      | Some (num, den) \<Rightarrow>
          (case ParseFloat num of None \<Rightarrow> Fin 0
           | Some n \<Rightarrow> (case ParseFloat den of None \<Rightarrow> Fin 0
              | Some d \<Rightarrow> if d = Fin 0 then Fin 0 else fdiv n d)))"

definition no_video :: VideoTrack where
  "no_video = \<lparr>v_Present = False, v_Codec = [], v_Width = 0, v_Height = 0, v_AvgFrameRate = Fin 0, v_Frames = 0\<rparr>"
definition no_audio :: AudioTrack where "no_audio = \<lparr>a_Present = False, a_Codec = []\<rparr>"
definition no_report :: ProbeReport where
  "no_report = \<lparr>pr_DurationSecs = Fin 0, pr_Video = no_video, pr_Audio = no_audio\<rparr>"

definition video_of :: "probeStream \<Rightarrow> VideoTrack" where
  "video_of s = \<lparr>v_Present = True, v_Codec = ps_CodecName s, v_Width = ps_Width s, v_Height = ps_Height s,
     v_AvgFrameRate = parseRational (ps_AvgFrameRate s), v_Frames = ParseInt_value (ps_NbFrames s)\<rparr>"

definition add_stream :: "ProbeReport \<Rightarrow> probeStream \<Rightarrow> ProbeReport" where
  "add_stream r s =
     (if ps_CodecType s = ''video'' then
        (if v_Present (pr_Video r) then r else r\<lparr>pr_Video := video_of s\<rparr>)
      else if ps_CodecType s = ''audio'' then
        (if a_Present (pr_Audio r) then r
         else r\<lparr>pr_Audio := \<lparr>a_Present = True, a_Codec = ps_CodecName s\<rparr>\<rparr>)
      else r)"

definition parseProbeJSON :: "json option \<Rightarrow> mediaError + ProbeReport" where
  "parseProbeJSON data =
     (case Option.bind data dec_probe of
        None \<Rightarrow> Inl ProbeParse
      | Some (ss, d) \<Rightarrow>
          (let r0 = (case ParseFloat d of None \<Rightarrow> no_report | Some secs \<Rightarrow> no_report\<lparr>pr_DurationSecs := secs\<rparr>)
           in Inr (foldl add_stream r0 ss)))"

section \<open>Reading volumedetect\<close>

definition parseDB :: "string \<Rightarrow> string \<Rightarrow> float64 option" where
  "parseDB line label =
     (case Cut label line of
        None \<Rightarrow> None
      | Some (_, after) \<Rightarrow>
          (let field = TrimSpace (TrimSuffix (TrimSpace after) ''dB'')
           in if EqualFold field ''-inf'' then Some NegInf else ParseFloat field))"

definition mean_label :: string where "mean_label = ''mean_volume:''"
definition max_label :: string where "max_label = ''max_volume:''"

definition contains :: "string \<Rightarrow> string \<Rightarrow> bool" where "contains s p \<longleftrightarrow> Cut p s \<noteq> None"

definition volume_line :: "AudioLevel \<times> bool \<Rightarrow> string \<Rightarrow> AudioLevel \<times> bool" where
  "volume_line = (\<lambda>(level, foundPeak) line.
     (if contains line mean_label then
        (case parseDB line mean_label of None \<Rightarrow> (level, foundPeak) | Some v \<Rightarrow> (level\<lparr>MeanDBFS := v\<rparr>, foundPeak))
      else if contains line max_label then
        (case parseDB line max_label of None \<Rightarrow> (level, foundPeak) | Some v \<Rightarrow> (level\<lparr>PeakDBFS := v\<rparr>, True))
      else (level, foundPeak)))"

definition parseVolumeDetect :: "string \<Rightarrow> mediaError + AudioLevel" where
  "parseVolumeDetect stderr =
     (let (level, foundPeak) = foldl volume_line (\<lparr>MeanDBFS = NegInf, PeakDBFS = NegInf\<rparr>, False)
            (split_on CHR 0x0A stderr)
      in if \<not> foundPeak then Inl NoMaxVolume else Inr level)"

section \<open>Running the programs\<close>

text \<open>\<open>ffprobe args\<close> and \<open>ffmpeg args\<close>: \<^const>\<open>Inl\<close> the error output of a failed run.  A null-output run of
  ffmpeg returns its error output too.\<close>

definition probe_args :: "string \<Rightarrow> string list" where
  "probe_args path = [''-hide_banner'', ''-loglevel'', ''error'', ''-print_format'', ''json'',
     ''-show_format'', ''-show_streams'', path]"

definition Probe :: "(string list \<Rightarrow> 'o \<Rightarrow> (string + json option) \<times> 'o) \<Rightarrow> string \<Rightarrow> (mediaError, ProbeReport, 'o) fallible" where
  "Probe ffprobe path w =
     (case ffprobe (probe_args path) w of
        (Inl e, w1) \<Rightarrow> (Inl (ProbeExec (TrimSpace e)), w1)
      | (Inr out, w1) \<Rightarrow> (parseProbeJSON out, w1))"

definition volume_args :: "string \<Rightarrow> string list" where
  "volume_args path = [''-hide_banner'', ''-nostats'', ''-i'', path, ''-vn'', ''-af'', ''volumedetect'',
     ''-f'', ''null'', ''-'']"

definition MeasureAudioLevel :: "(string list \<Rightarrow> 'o \<Rightarrow> (string + string) \<times> 'o) \<Rightarrow> string \<Rightarrow> (mediaError, AudioLevel, 'o) fallible" where
  "MeasureAudioLevel ffmpeg path w =
     (case ffmpeg (volume_args path) w of
        (Inl e, w1) \<Rightarrow> (Inl (LevelExec (TrimSpace e)), w1)
      | (Inr err, w1) \<Rightarrow> (parseVolumeDetect err, w1))"

definition count_args :: "string \<Rightarrow> string list" where
  "count_args path = [''-hide_banner'', ''-loglevel'', ''error'', ''-select_streams'', ''v:0'', ''-count_packets'',
     ''-show_entries'', ''stream=nb_read_packets'', ''-print_format'', ''json'', path]"

definition CountPackets :: "(string list \<Rightarrow> 'o \<Rightarrow> (string + json option) \<times> 'o) \<Rightarrow> string \<Rightarrow> (mediaError, int, 'o) fallible" where
  "CountPackets ffprobe path w =
     (case ffprobe (count_args path) w of
        (Inl e, w1) \<Rightarrow> (Inl (CountExec (TrimSpace e)), w1)
      | (Inr out, w1) \<Rightarrow> (parsePacketCount out, w1))"

section \<open>First track wins\<close>

lemma add_streams_video:
  "pr_Video (foldl add_stream r ss) =
     (if v_Present (pr_Video r) then pr_Video r
      else case find (\<lambda>s. ps_CodecType s = ''video'') ss of None \<Rightarrow> pr_Video r | Some s \<Rightarrow> video_of s)"
  by (induction ss arbitrary: r) (auto simp: add_stream_def video_of_def split: option.splits)

lemma add_streams_audio:
  "pr_Audio (foldl add_stream r ss) =
     (if a_Present (pr_Audio r) then pr_Audio r
      else case find (\<lambda>s. ps_CodecType s = ''audio'') ss of None \<Rightarrow> pr_Audio r
        | Some s \<Rightarrow> \<lparr>a_Present = True, a_Codec = ps_CodecName s\<rparr>)"
  by (induction ss arbitrary: r) (auto simp: add_stream_def split: option.splits)

lemma add_streams_duration: "pr_DurationSecs (foldl add_stream r ss) = pr_DurationSecs r"
  by (induction ss arbitrary: r) (auto simp: add_stream_def)

text \<open>
  Reading ffprobe: the output is refused exactly when it does not decode; otherwise the report
  describes the first video and the first audio stream, whatever streams follow, marks a kind of
  track absent exactly when no stream has that type, and takes 0 for a duration that does not parse.
\<close>

theorem probe_first_tracks:
  "parseProbeJSON data = (case Option.bind data dec_probe of None \<Rightarrow> Inl ProbeParse
     | Some (ss, d) \<Rightarrow> Inr
        \<lparr>pr_DurationSecs = (case ParseFloat d of None \<Rightarrow> Fin 0 | Some secs \<Rightarrow> secs),
         pr_Video = (case find (\<lambda>s. ps_CodecType s = ''video'') ss of None \<Rightarrow> no_video | Some s \<Rightarrow> video_of s),
         pr_Audio = (case find (\<lambda>s. ps_CodecType s = ''audio'') ss of None \<Rightarrow> no_audio
           | Some s \<Rightarrow> \<lparr>a_Present = True, a_Codec = ps_CodecName s\<rparr>)\<rparr>)"
proof (cases "Option.bind data dec_probe")
  case (Some p)
  obtain ss d where p: "p = (ss, d)" by (cases p)
  let ?r0 = "case ParseFloat d of None \<Rightarrow> no_report | Some secs \<Rightarrow> no_report\<lparr>pr_DurationSecs := secs\<rparr>"
  have r0: "\<not> v_Present (pr_Video ?r0)" "pr_Video ?r0 = no_video" "\<not> a_Present (pr_Audio ?r0)" "pr_Audio ?r0 = no_audio"
    "pr_DurationSecs ?r0 = (case ParseFloat d of None \<Rightarrow> Fin 0 | Some secs \<Rightarrow> secs)"
    by (simp_all add: no_report_def no_video_def no_audio_def split: option.splits)
  define r where "r = ?r0"
  have "parseProbeJSON data = Inr (foldl add_stream r ss)"
    unfolding parseProbeJSON_def Some p option.case prod.case Let_def r_def ..
  then show ?thesis
    unfolding Some p option.case prod.case using r0 [folded r_def]
    by (simp add: add_streams_video add_streams_audio add_streams_duration split: option.splits)
qed (simp add: parseProbeJSON_def)

section \<open>Levels\<close>

lemma volume_fold:
  "foldl volume_line (level, found) ls =
     (let means = List.map_filter (\<lambda>l. parseDB l mean_label) (filter (\<lambda>l. contains l mean_label) ls);
          peaks = List.map_filter (\<lambda>l. parseDB l max_label)
            (filter (\<lambda>l. \<not> contains l mean_label \<and> contains l max_label) ls)
      in (\<lparr>MeanDBFS = (if means = [] then MeanDBFS level else last means),
           PeakDBFS = (if peaks = [] then PeakDBFS level else last peaks)\<rparr>, found \<or> peaks \<noteq> []))"
  by (induction ls arbitrary: level found)
    (auto simp: volume_line_def Let_def List.map_filter_def split: option.splits)

lemma prefix_upto_colon:
  assumes "CHR '':'' \<notin> set l" and "CHR '':'' \<notin> set u"
  shows "prefix (l @ '':'') (u @ CHR '':'' # t) \<longleftrightarrow> u = l"
proof
  assume "prefix (l @ '':'') (u @ CHR '':'' # t)"
  then obtain z where "l @ CHR '':'' # z = u @ CHR '':'' # t" by (auto simp: prefix_def)
  moreover have "takeWhile (\<lambda>c. c \<noteq> CHR '':'') (l @ CHR '':'' # z) = l"
    using assms(1) by (subst takeWhile_append2) auto
  moreover have "takeWhile (\<lambda>c. c \<noteq> CHR '':'') (u @ CHR '':'' # t) = u"
    using assms(2) by (subst takeWhile_append2) auto
  ultimately show "u = l" by simp
qed simp

lemma no_colon_no_label: "CHR '':'' \<notin> set s \<Longrightarrow> Cut (l @ '':'') s = None"
proof (induction s)
  case (Cons c cs)
  then show ?case using set_mono_prefix [of "l @ '':''" "c # cs"] by auto
qed simp

lemma Cut_label:
  assumes "CHR '':'' \<notin> set l" and "CHR '':'' \<notin> set u" and "CHR '':'' \<notin> set t"
  shows "Cut (l @ '':'') (u @ CHR '':'' # t) =
     (if suffix l u then Some (take (length u - length l) u, t) else None)"
  using assms(2)
proof (induction u)
  case Nil
  then show ?case using prefix_upto_colon [of l "[]" t] no_colon_no_label [OF assms(3), of l] assms(1) by auto
next
  case (Cons c u)
  have p: "prefix (l @ '':'') (c # u @ CHR '':'' # t) \<longleftrightarrow> c # u = l"
    using prefix_upto_colon [OF assms(1) Cons.prems, of t] by simp
  show ?case
  proof (cases "c # u = l")
    case True
    have "Cut (l @ '':'') ((c # u) @ CHR '':'' # t) = Some ([], drop (length l + 1) ((c # u) @ CHR '':'' # t))"
      using p [THEN iffD2, OF True] by simp
    then show ?thesis unfolding True by simp
  next
    case False
    then have "suffix l (c # u) \<longleftrightarrow> suffix l u" by (auto simp: suffix_Cons)
    moreover have "suffix l u \<Longrightarrow> Suc (length u) - length l = Suc (length u - length l)"
      using suffix_length_le [of l u] by linarith
    ultimately show ?thesis using Cons False p by simp
  qed
qed

text \<open>How ffmpeg prints a level: tenths of a decibel.\<close>

definition print_tenths :: "int \<Rightarrow> string" where
  "print_tenths k = (if k < 0 then ''-'' else []) @ itoa_nat (nat \<bar>k\<bar> div 10) @ ''.'' @ [digit (nat \<bar>k\<bar> mod 10)]"

definition level_line :: "string \<Rightarrow> string \<Rightarrow> int \<Rightarrow> string" where
  "level_line p label k = p @ label @ '' '' @ print_tenths k @ '' dB''"

lemma digit_no_space: "is_digit c \<Longrightarrow> \<not> is_space c" and minus_no_space: "\<not> is_space CHR ''-''"
  by (auto simp: is_digit_def is_space_def)

lemma TrimSpace_id:
  assumes "s \<noteq> []" and "\<not> is_space (hd s)" and "\<not> is_space (last s)"
  shows "TrimSpace s = s"
  using assms by (cases s) (auto simp: TrimSpace_def hd_rev [symmetric] dropWhile_eq_self_iff)

lemma TrimSpace_Cons: "is_space c \<Longrightarrow> TrimSpace (c # s) = TrimSpace s"
  by (simp add: TrimSpace_def)

lemma TrimSpace_snoc: "s \<noteq> [] \<Longrightarrow> \<not> is_space (hd s) \<Longrightarrow> is_space c \<Longrightarrow> TrimSpace (s @ [c]) = TrimSpace s"
  by (cases s) (simp_all add: TrimSpace_def)

lemma itoa_nat_chars: "c \<in> set (itoa_nat n) \<Longrightarrow> is_digit c"
  using itoa_nat_digits [of n] by (auto simp: list_all_iff)

lemma itoa_nat_hd: "is_digit (hd (itoa_nat n))"
  by (rule itoa_nat_chars [OF hd_in_set [OF itoa_nat_nonempty]])

lemma not_digits: "\<not> is_digit CHR ''.''" "\<not> is_digit CHR ''e''" "\<not> is_digit CHR ''E''" "\<not> is_digit CHR '':''"
  by (simp_all add: is_digit_def)

lemma print_tenths_ends:
  "print_tenths k \<noteq> []" "last (print_tenths k) = digit (nat \<bar>k\<bar> mod 10)"
  "\<not> is_space (hd (print_tenths k))" "\<not> is_space (last (print_tenths k))"
proof -
  show "\<not> is_space (hd (print_tenths k))"
    by (simp add: print_tenths_def digit_no_space minus_no_space itoa_nat_hd)
qed (simp_all add: print_tenths_def digit_no_space)

lemma print_tenths_chars: "c \<in> set (print_tenths k) \<Longrightarrow> is_digit c \<or> c = CHR ''-'' \<or> c = CHR ''.''"
  by (auto simp: print_tenths_def dest: itoa_nat_chars)

lemma lower_digit: "is_digit c \<Longrightarrow> lower_char c = c"
  by (simp add: lower_char_def is_digit_def)

lemma lower_last_digit:
  assumes "s \<noteq> []" and "is_digit (last s)" and "\<not> is_digit (last t)"
  shows "ToLower s \<noteq> t"
  using assms by (metis ToLower_def last_map lower_digit)

lemma split_decimal:
  "split_on CHR ''.'' (itoa_nat n @ ''.'' @ [digit (m mod 10)]) = [itoa_nat n, [digit (m mod 10)]]"
proof -
  have i: "CHR ''.'' \<notin> set (itoa_nat n)" using itoa_nat_chars [of "CHR ''.''" n] by (auto simp: is_digit_def)
  have d: "CHR ''.'' \<notin> set [digit (m mod 10)]" using digit_facts(1) [of "m mod 10"] not_digits(1) by fastforce
  show ?thesis using split_on_append [OF i, of "[digit (m mod 10)]"] split_on_free [OF d] by simp
qed

lemma ParseFloat_tenths: "ParseFloat (print_tenths k) = Some (Fin (rat_of_int k / 10))"
proof -
  define m where "m = nat \<bar>k\<bar>"
  define u where "u = itoa_nat (m div 10) @ ''.'' @ [digit (m mod 10)]"
  have pt: "print_tenths k = (if k < 0 then CHR ''-'' # u else u)"
    by (simp add: print_tenths_def u_def m_def)
  have uc: "c \<in> set u \<Longrightarrow> is_digit c \<or> c = CHR ''.''" for c by (auto simp: u_def dest: itoa_nat_chars)
  have hd_u: "u \<noteq> []" "is_digit (hd u)" by (simp_all add: u_def itoa_nat_hd)
  have last_u: "is_digit (last u)" by (simp add: u_def)
  have sgn: "strip_sign (print_tenths k) = (k < 0, k < 0, u)"
    using hd_u unfolding pt by (cases u) (auto simp: strip_sign_def is_digit_def)
  have lo: "ToLower u \<noteq> ''inf''" "ToLower u \<noteq> ''infinity''" "ToLower u \<noteq> ''nan''"
    by (rule lower_last_digit [OF hd_u(1) last_u], simp add: is_digit_def)+
  have ne: "\<forall>c \<in> set u. \<not> (c = CHR ''e'' \<or> c = CHR ''E'')" using uc not_digits by fastforce
  have tw: "takeWhile (\<lambda>c. \<not> (c = CHR ''e'' \<or> c = CHR ''E'')) u = u"
    "dropWhile (\<lambda>c. \<not> (c = CHR ''e'' \<or> c = CHR ''E'')) u = []"
    using ne by (simp_all add: takeWhile_eq_all_conv dropWhile_eq_Nil_conv)
  have sp: "split_on CHR ''.'' u = [itoa_nat (m div 10), [digit (m mod 10)]]"
    unfolding u_def by (rule split_decimal)
  have dv: "digits_val (itoa_nat (m div 10) @ [digit (m mod 10)]) = m" by simp
  have km: "rat_of_int k = (if k < 0 then - rat_of_nat m else rat_of_nat m)"
    by (simp add: m_def)
  have "ParseFloat (print_tenths k) =
    Some (Fin (if k < 0 then - (rat_of_nat m * pow10 (0 - 1)) else rat_of_nat m * pow10 (0 - 1)))"
    unfolding ParseFloat_def sgn Let_def prod.case tw sp list.case
    using lo dv by simp
  then show ?thesis using km by (simp add: pow10_def)
qed

lemma parseDB_level:
  assumes "CHR '':'' \<notin> set p" and "CHR '':'' \<notin> set l"
  shows "parseDB (level_line p (l @ '':'') k) (l @ '':'') = Some (Fin (rat_of_int k / 10))"
proof -
  let ?n = "print_tenths k"
  have "CHR '':'' \<notin> set ?n" using print_tenths_chars [of "CHR '':''" k] by (auto simp: is_digit_def)
  then have "Cut (l @ '':'') ((p @ l) @ CHR '':'' # ('' '' @ ?n @ '' dB'')) = Some (p, '' '' @ ?n @ '' dB'')"
    using assms by (subst Cut_label) (auto simp: suffix_def)
  then have c: "Cut (l @ '':'') (level_line p (l @ '':'') k) = Some (p, '' '' @ ?n @ '' dB'')"
    by (simp add: level_line_def)
  have "TrimSpace (?n @ '' dB'') = ?n @ '' dB''"
    using print_tenths_ends [of k] by (intro TrimSpace_id) (auto simp: is_space_def)
  then have 1: "TrimSpace ('' '' @ ?n @ '' dB'') = (?n @ '' '') @ ''dB''"
    using TrimSpace_Cons [of "CHR '' ''" "?n @ '' dB''"] by (simp add: is_space_def)
  have 2: "TrimSuffix ((?n @ '' '') @ ''dB'') ''dB'' = ?n @ '' ''" by (rule TrimSuffix_append)
  have 3: "TrimSpace (?n @ '' '') = ?n"
    using TrimSpace_snoc [of ?n "CHR '' ''"] TrimSpace_id [of ?n] print_tenths_ends [of k]
    by (simp add: is_space_def)
  have 4: "\<not> EqualFold ?n ''-inf''"
    using lower_last_digit [of ?n "ToLower ''-inf''"] print_tenths_ends [of k]
    by (simp add: EqualFold_def ToLower_def lower_char_def is_digit_def)
  show ?thesis
    unfolding parseDB_def c option.case prod.case Let_def 1 2 3 using 4 ParseFloat_tenths by simp
qed

lemma contains_level:
  assumes "CHR '':'' \<notin> set p" and "CHR '':'' \<notin> set l" and "CHR '':'' \<notin> set l'"
  shows "contains (level_line p (l @ '':'') k) (l' @ '':'') \<longleftrightarrow> suffix l' (p @ l)"
proof -
  have "CHR '':'' \<notin> set (print_tenths k)" using print_tenths_chars [of "CHR '':''" k] by (auto simp: is_digit_def)
  then have "Cut (l' @ '':'') ((p @ l) @ CHR '':'' # ('' '' @ print_tenths k @ '' dB''))
    = (if suffix l' (p @ l) then Some (take (length (p @ l) - length l') (p @ l), '' '' @ print_tenths k @ '' dB'') else None)"
    using assms by (subst Cut_label) auto
  then show ?thesis by (simp add: contains_def level_line_def)
qed

lemma level_line_no_newline:
  "CHR 0x0A \<notin> set p \<Longrightarrow> CHR 0x0A \<notin> set l \<Longrightarrow> CHR 0x0A \<notin> set (level_line p (l @ '':'') k)"
  using print_tenths_chars [of "CHR 0x0A" k] by (auto simp: level_line_def is_digit_def)

text \<open>
  Reading volumedetect inverts its printing: from the two lines ffmpeg writes, each with any
  prefix that holds no colon or newline, \<open>parseVolumeDetect\<close> recovers both levels to the tenth
  of a decibel, and the recording counts as silent exactly when the peak, not the mean, is at most
  -50 dB.  Without a readable peak line it is an error, never a silent recording.
\<close>

theorem volume_detect_roundtrip:
  fixes m k :: int
  assumes "CHR '':'' \<notin> set p" "CHR '':'' \<notin> set q" "CHR 0x0A \<notin> set p" "CHR 0x0A \<notin> set q"
  shows "(\<exists>lv. parseVolumeDetect (level_line p mean_label m @ [CHR 0x0A] @ level_line q max_label k @ [CHR 0x0A]) = Inr lv
      \<and> MeanDBFS lv = Fin (rat_of_int m / 10) \<and> PeakDBFS lv = Fin (rat_of_int k / 10)
      \<and> (Silent lv \<longleftrightarrow> k \<le> -500))
    \<and> parseVolumeDetect (level_line p mean_label m @ [CHR 0x0A]) = Inl NoMaxVolume"
proof -
  have lab: "mean_label = ''mean_volume'' @ '':''" "max_label = ''max_volume'' @ '':''"
    by (simp_all add: mean_label_def max_label_def)
  let ?l1 = "level_line p mean_label m" and ?l2 = "level_line q max_label k"
  have nl: "CHR 0x0A \<notin> set ?l1" "CHR 0x0A \<notin> set ?l2"
    unfolding lab using assms by (intro level_line_no_newline; simp)+
  have sp: "split_on CHR 0x0A (?l1 @ [CHR 0x0A] @ ?l2 @ [CHR 0x0A]) = [?l1, ?l2, []]"
    "split_on CHR 0x0A (?l1 @ [CHR 0x0A]) = [?l1, []]"
    using split_on_append [OF nl(1), of "?l2 @ [CHR 0x0A]"] split_on_append [OF nl(2), of "[]"]
      split_on_append [OF nl(1), of "[]"] by simp_all
  have "\<not> suffix ''mean_volume'' (q @ ''max_volume'')"
    by (auto simp: suffix_def append_eq_append_conv2 Cons_eq_append_conv)
  then have c: "contains ?l1 mean_label" "\<not> contains ?l2 mean_label" "contains ?l2 max_label"
    unfolding lab using assms by (simp_all add: contains_level suffix_def del: append_Cons append_Nil)
  have d: "parseDB ?l1 mean_label = Some (Fin (rat_of_int m / 10))" "parseDB ?l2 max_label = Some (Fin (rat_of_int k / 10))"
    unfolding lab using assms by (intro parseDB_level; simp)+
  have e: "\<not> contains [] mean_label" "\<not> contains [] max_label"
    by (simp_all add: contains_def mean_label_def max_label_def)
  have "parseVolumeDetect (?l1 @ [CHR 0x0A] @ ?l2 @ [CHR 0x0A])
      = Inr \<lparr>MeanDBFS = Fin (rat_of_int m / 10), PeakDBFS = Fin (rat_of_int k / 10)\<rparr>"
    unfolding parseVolumeDetect_def sp using c d e by (simp add: volume_line_def)
  moreover have "parseVolumeDetect (?l1 @ [CHR 0x0A]) = Inl NoMaxVolume"
    unfolding parseVolumeDetect_def sp using c d e by (simp add: volume_line_def)
  moreover have "fle (Fin (rat_of_int k / 10)) SilentPeakDBFS \<longleftrightarrow> k \<le> -500"
    by (simp add: fle_def SilentPeakDBFS_def divide_le_eq) (use of_int_le_iff [of k "-500", where 'a = rat] in simp)
  ultimately show ?thesis by (simp add: Silent_def)
qed

lemma volume_detect_roundtrip_witness:
  "\<exists>lv. parseVolumeDetect (level_line ''[Parsed_volumedetect_0 @ 0x5] '' mean_label (-397) @ [CHR 0x0A]
       @ level_line ''[Parsed_volumedetect_0 @ 0x5] '' max_label (-109) @ [CHR 0x0A]) = Inr lv \<and> \<not> Silent lv"
  using volume_detect_roundtrip [of "''[Parsed_volumedetect_0 @ 0x5] ''" "''[Parsed_volumedetect_0 @ 0x5] ''" "-397" "-109"]
  by auto

end
