(* ===== verification/Coverage.thy ===== *)
theory Coverage
  imports GoStd
begin

text \<open>
  \<open>internal/stream\<close>: comparing what a client declared with what arrived (\<open>coverage.go\<close>, \<open>gap.go\<close>),
  over the metadata records of \<open>internal/infrastructure/cache\<close>.  A nil inventory is \<^const>\<open>None\<close>;
  frame rates, \<open>float64\<close> in the code, are exact rationals; the printed detail of an anomaly is a
  datatype carrying the values it prints.
\<close>

section \<open>Data\<close>

record SegmentMeta =
  sm_Seq :: int
  sm_S3Key :: string
  sm_SHA256 :: string
  sm_StartedAt :: instant
  sm_EndedAt :: instant
  sm_SizeBytes :: int
  sm_UploadedAt :: instant

record DeclaredSegment =
  ds_Seq :: int
  ds_StartedAt :: instant
  ds_EndedAt :: instant
  ds_SHA256 :: string
  ds_SizeBytes :: int
  ds_FramesWritten :: int

record StreamInventory =
  inv_StreamID :: string
  inv_Complete :: bool
  inv_DeclaredAt :: instant
  inv_Segments :: "DeclaredSegment list"

record SegmentGap =
  FromSeq :: int
  ToSeq :: int
  Missing :: duration

datatype anomalyKind = AnomalyMissing | AnomalyNotCaptured | AnomalyLowFrameRate | AnomalyEmpty

datatype anomalyDetail = Unaccounted duration int int | NeverReached | ZeroBytes
  | NoFrames duration | FpsAgainst rat rat

record CoverageAnomaly =
  an_Seq :: int
  Kind :: anomalyKind
  Detail :: anomalyDetail

record StreamCoverage =
  DeclaredSegments :: int
  ReceivedSegments :: int
  MissingSeqs :: "int list"
  Anomalies :: "CoverageAnomaly list"
  HasInventory :: bool
  ClientComplete :: bool
  DeclaredFrames :: int

definition HasGaps :: "StreamCoverage \<Rightarrow> bool" where
  "HasGaps c \<longleftrightarrow> 0 < length (MissingSeqs c)"

section \<open>Gaps between received segments\<close>

fun audit_loop :: "SegmentMeta option \<Rightarrow> SegmentMeta list \<Rightarrow> SegmentGap list \<times> duration" where
  "audit_loop prev [] = ([], 0)"
| "audit_loop prev (m # ms) =
     (let (gaps, tot) = audit_loop (Some m) ms;
          own = time_sub (sm_EndedAt m) (sm_StartedAt m);
          here = (case prev of None \<Rightarrow> []
            | Some p \<Rightarrow> (let gap = time_sub (sm_StartedAt m) (sm_EndedAt p)
                in if 2 * second < gap
                   then [\<lparr>FromSeq = sm_Seq p, ToSeq = sm_Seq m, Missing = gap\<rparr>] else []))
      in (here @ gaps, own + tot))"

definition AuditGaps :: "SegmentMeta list \<Rightarrow> SegmentGap list \<times> duration" where
  "AuditGaps metas = audit_loop None metas"

section \<open>Capture anomalies\<close>

definition ds_span :: "DeclaredSegment \<Rightarrow> duration" where
  "ds_span d = time_sub (ds_EndedAt d) (ds_StartedAt d)"

text \<open>\<open>float64(FramesWritten) / duration.Seconds()\<close>.\<close>

definition frame_rate :: "DeclaredSegment \<Rightarrow> rat" where
  "frame_rate d = of_int (ds_FramesWritten d) * of_int second / of_int (ds_span d)"

definition rates :: "DeclaredSegment list \<Rightarrow> rat list" where
  "rates declared = map frame_rate (filter (\<lambda>d. \<not> (ds_span d \<le> 0 \<or> ds_FramesWritten d \<le> 0)) declared)"

definition medianFrameRate :: "DeclaredSegment list \<Rightarrow> rat" where
  "medianFrameRate declared =
     (let rs = sort (rates declared); middle = length rs div 2
      in if rs = [] then 0
         else if length rs mod 2 = 1 then rs ! middle
         else (rs ! (middle - 1) + rs ! middle) / 2)"

definition lowFrameRateFraction :: rat where "lowFrameRateFraction = 1 / 2"

definition segment_anomaly :: "rat \<Rightarrow> DeclaredSegment \<Rightarrow> CoverageAnomaly list" where
  "segment_anomaly baseline d =
     (if ds_SizeBytes d = 0 then [\<lparr>an_Seq = ds_Seq d, Kind = AnomalyEmpty, Detail = ZeroBytes\<rparr>]
      else if ds_span d \<le> 0 then []
      else if ds_FramesWritten d = 0 then
        [\<lparr>an_Seq = ds_Seq d, Kind = AnomalyNotCaptured, Detail = NoFrames (ds_span d)\<rparr>]
      else if baseline \<le> 0 then []
      else if frame_rate d < baseline * lowFrameRateFraction then
        [\<lparr>an_Seq = ds_Seq d, Kind = AnomalyLowFrameRate, Detail = FpsAgainst (frame_rate d) baseline\<rparr>]
      else [])"

definition captureAnomalies :: "DeclaredSegment list \<Rightarrow> CoverageAnomaly list" where
  "captureAnomalies declared = concat (map (segment_anomaly (medianFrameRate declared)) declared)"

section \<open>Reconciliation\<close>

definition gap_anomaly :: "SegmentGap \<Rightarrow> CoverageAnomaly" where
  "gap_anomaly g = \<lparr>an_Seq = ToSeq g, Kind = AnomalyMissing,
     Detail = Unaccounted (Missing g) (FromSeq g) (ToSeq g)\<rparr>"

definition Reconcile :: "StreamInventory option \<Rightarrow> SegmentMeta list \<Rightarrow> StreamCoverage" where
  "Reconcile inventory received =
     (let receivedSeqs = set (map sm_Seq received);
          c0 = \<lparr>DeclaredSegments = 0, ReceivedSegments = int (length received), MissingSeqs = [],
                Anomalies = [], HasInventory = False, ClientComplete = False, DeclaredFrames = 0\<rparr>;
          fallback = (let gaps = fst (AuditGaps received)
             in c0\<lparr>Anomalies := map gap_anomaly gaps, MissingSeqs := map ToSeq gaps\<rparr>)
      in (case inventory of
            None \<Rightarrow> fallback
          | Some i \<Rightarrow>
              if inv_Segments i = [] then fallback
              else let missing = filter (\<lambda>d. ds_Seq d \<notin> receivedSeqs) (inv_Segments i);
                       arrived = filter (\<lambda>d. ds_Seq d \<in> receivedSeqs) (inv_Segments i)
                in c0\<lparr>HasInventory := True, ClientComplete := inv_Complete i,
                     DeclaredSegments := int (length (inv_Segments i)),
                     DeclaredFrames := sum_list (map ds_FramesWritten arrived),
                     MissingSeqs := sort (map ds_Seq missing),
                     Anomalies := map (\<lambda>d. \<lparr>an_Seq = ds_Seq d, Kind = AnomalyMissing, Detail = NeverReached\<rparr>) missing
                       @ captureAnomalies (inv_Segments i)\<rparr>))"

definition RecordedDuration :: "StreamInventory option \<Rightarrow> SegmentMeta list \<Rightarrow> duration" where
  "RecordedDuration inventory received =
     (let over_received = (if received = [] then 0
            else time_sub (sm_EndedAt (last received)) (sm_StartedAt (hd received)))
      in (case inventory of
            None \<Rightarrow> over_received
          | Some i \<Rightarrow> if inv_Segments i = [] then over_received
              else time_sub (ds_EndedAt (last (inv_Segments i))) (ds_StartedAt (hd (inv_Segments i)))))"

section \<open>Properties\<close>

lemma mset_map_filter:
  "mset (map f (filter (\<lambda>x. P (f x)) xs)) = filter_mset P (mset (map f xs))"
  by (induction xs) simp_all

lemma sort_Nil_iff [simp]: "sort xs = [] \<longleftrightarrow> xs = []"
  by (metis length_0_conv length_sort)

text \<open>
  C35.  With an inventory, gap detection is a set difference on sequence numbers: the missing numbers
  are, sorted and with multiplicity, exactly the declared ones that did not arrive; gaps are
  reported exactly when some declared segment is missing, a lost head or tail included; and the
  frame total counts the declared segments that arrived.
\<close>

theorem reconcile_exact:
  assumes "inv_Segments i \<noteq> []"
  shows "sorted (MissingSeqs (Reconcile (Some i) received))
    \<and> mset (MissingSeqs (Reconcile (Some i) received))
        = filter_mset (\<lambda>q. q \<notin> sm_Seq ` set received) (mset (map ds_Seq (inv_Segments i)))
    \<and> (HasGaps (Reconcile (Some i) received)
        \<longleftrightarrow> \<not> ds_Seq ` set (inv_Segments i) \<subseteq> sm_Seq ` set received)
    \<and> DeclaredFrames (Reconcile (Some i) received)
        = (\<Sum>d \<leftarrow> inv_Segments i. if ds_Seq d \<in> sm_Seq ` set received then ds_FramesWritten d else 0)"
proof -
  let ?miss = "filter (\<lambda>d. ds_Seq d \<notin> sm_Seq ` set received) (inv_Segments i)"
  have r: "MissingSeqs (Reconcile (Some i) received) = sort (map ds_Seq ?miss)"
    "DeclaredFrames (Reconcile (Some i) received)
       = sum_list (map ds_FramesWritten (filter (\<lambda>d. ds_Seq d \<in> sm_Seq ` set received) (inv_Segments i)))"
    using assms by (simp_all add: Reconcile_def Let_def)
  have f: "sum_list (map ds_FramesWritten (filter P xs)) = (\<Sum>d \<leftarrow> xs. if P d then ds_FramesWritten d else 0)" for P xs
    by (induction xs) simp_all
  have g: "HasGaps (Reconcile (Some i) received) \<longleftrightarrow> ?miss \<noteq> []"
    by (simp add: HasGaps_def r del: filter_empty_conv)
  show ?thesis
    unfolding r g f mset_sort mset_map_filter [of ds_Seq "\<lambda>q. q \<notin> sm_Seq ` set received"]
    by (auto simp: filter_empty_conv)
qed

definition mk_declared :: "int \<Rightarrow> int \<Rightarrow> DeclaredSegment" where
  "mk_declared q frames = \<lparr>ds_Seq = q, ds_StartedAt = q * 10 * second, ds_EndedAt = (q + 1) * 10 * second,
     ds_SHA256 = [], ds_SizeBytes = 1500000, ds_FramesWritten = frames\<rparr>"

definition mk_received :: "int \<Rightarrow> SegmentMeta" where
  "mk_received q = \<lparr>sm_Seq = q, sm_S3Key = [], sm_SHA256 = [], sm_StartedAt = q * 10 * second,
     sm_EndedAt = (q + 1) * 10 * second, sm_SizeBytes = 1, sm_UploadedAt = 0\<rparr>"

definition mk_inventory :: "DeclaredSegment list \<Rightarrow> StreamInventory" where
  "mk_inventory ds = \<lparr>inv_StreamID = ''s'', inv_Complete = True, inv_DeclaredAt = 0, inv_Segments = ds\<rparr>"

lemma reconcile_exact_witness:
  "HasGaps (Reconcile (Some (mk_inventory [mk_declared 0 300, mk_declared 1 300, mk_declared 2 300]))
     [mk_received 0, mk_received 1])"
  using reconcile_exact [of "mk_inventory [mk_declared 0 300, mk_declared 1 300, mk_declared 2 300]"
     "[mk_received 0, mk_received 1]"]
  by (simp add: mk_inventory_def mk_declared_def mk_received_def)

lemma audit_loop_seqs:
  "fst (audit_loop prev ms) = gs \<Longrightarrow> ToSeq ` set gs \<subseteq> sm_Seq ` set ms"
  by (induction prev ms arbitrary: gs rule: audit_loop.induct)
     (auto simp: Let_def split_beta image_subset_iff split: option.splits if_splits)

lemma audit_prefix:
  "prefix (fst (audit_loop prev xs)) (fst (audit_loop prev (xs @ ys)))"
  by (induction prev xs rule: audit_loop.induct) (auto simp: Let_def split_beta)

lemma audit_drop_head:
  "fst (audit_loop prev ms) = [] \<Longrightarrow> fst (audit_loop None ms) = []"
  by (cases ms) (auto simp: Let_def split_beta)

lemma audit_suffix_free:
  "fst (audit_loop prev (xs @ ys)) = [] \<Longrightarrow> fst (audit_loop None ys) = []"
proof (induction prev xs rule: audit_loop.induct)
  case (1 prev)
  then show ?case by (simp add: audit_drop_head)
next
  case (2 prev m ms)
  then show ?case by (simp add: Let_def split_beta)
qed

text \<open>
  Without an inventory the fallback is blind and mislabels: any contiguous part of a gap-free
  recording (its head or tail lost) is reported without gaps, and whatever it does report as
  "missing" is the number of a segment that arrived, the one after the gap.
\<close>

theorem reconcile_fallback:
  shows "(\<not> HasGaps (Reconcile None (xs @ ys @ zs)) \<longrightarrow> \<not> HasGaps (Reconcile None ys))
    \<and> set (MissingSeqs (Reconcile None received)) \<subseteq> sm_Seq ` set received"
proof (intro conjI impI)
  have h: "HasGaps (Reconcile None l) \<longleftrightarrow> fst (audit_loop None l) \<noteq> []" for l
    by (simp add: HasGaps_def Reconcile_def AuditGaps_def Let_def)
  assume "\<not> HasGaps (Reconcile None (xs @ ys @ zs))"
  then have "fst (audit_loop None (xs @ ys @ zs)) = []" by (simp add: h)
  then have "fst (audit_loop None (ys @ zs)) = []" by (rule audit_suffix_free)
  then have "fst (audit_loop None ys) = []" using audit_prefix [of None ys zs] by simp
  then show "\<not> HasGaps (Reconcile None ys)" by (simp add: h)
next
  show "set (MissingSeqs (Reconcile None received)) \<subseteq> sm_Seq ` set received"
    using audit_loop_seqs [of None received, OF refl] by (simp add: Reconcile_def AuditGaps_def Let_def)
qed

lemma reconcile_fallback_witness:
  "\<not> HasGaps (Reconcile None [mk_received 1])"
  using reconcile_fallback [of "[mk_received 0]" "[mk_received 1]" "[mk_received 2]"]
  by (simp add: HasGaps_def Reconcile_def AuditGaps_def Let_def mk_received_def time_sub_def
      second_def max_dur_def min_dur_def)

text \<open>The median of a sorted list bounds how many elements lie below half of it.\<close>

lemma below_middle:
  fixes rs :: "'a :: linorder list"
  assumes "sorted rs" and "rs \<noteq> []"
  shows "length (filter (\<lambda>r. r < rs ! (length rs div 2)) rs) \<le> length rs div 2"
proof -
  let ?m = "length rs div 2"
  have ml: "?m < length rs" using assms(2) by simp
  have s: "rs = take ?m rs @ drop ?m rs" by simp
  have "\<not> r < rs ! ?m" if "r \<in> set (drop ?m rs)" for r
  proof -
    from that obtain j where "j < length (drop ?m rs)" "r = drop ?m rs ! j" by (metis in_set_conv_nth)
    then have "r = rs ! (?m + j)" "?m + j < length rs" using ml by auto
    then show ?thesis using assms(1) by (auto simp: sorted_iff_nth_mono not_less)
  qed
  then have "filter (\<lambda>r. r < rs ! ?m) (drop ?m rs) = []" by (simp add: filter_empty_conv)
  then have "filter (\<lambda>r. r < rs ! ?m) rs = filter (\<lambda>r. r < rs ! ?m) (take ?m rs)"
    by (metis append_Nil2 filter_append s)
  then show ?thesis by (metis length_filter_le length_take min.cobounded2 order_trans)
qed

lemma median_le_middle:
  assumes "rates ds \<noteq> []"
  shows "medianFrameRate ds \<le> sort (rates ds) ! (length (rates ds) div 2)"
proof (cases "length (rates ds) mod 2 = 1")
  case True
  then show ?thesis using assms by (simp add: medianFrameRate_def Let_def)
next
  case False
  let ?rs = "sort (rates ds)" and ?m = "length (rates ds) div 2"
  have "?rs ! (?m - 1) \<le> ?rs ! ?m" using assms by (intro sorted_nth_mono) auto
  then have "(?rs ! (?m - 1) + ?rs ! ?m) / 2 \<le> ?rs ! ?m" by simp
  then show ?thesis using False assms by (simp add: medianFrameRate_def Let_def)
qed

lemma rate_pos: "0 < ds_span d \<Longrightarrow> 0 < ds_FramesWritten d \<Longrightarrow> 0 < frame_rate d"
  by (simp add: frame_rate_def second_def)

definition low_rate :: "DeclaredSegment list \<Rightarrow> DeclaredSegment \<Rightarrow> bool" where
  "low_rate ds d \<longleftrightarrow> (\<exists>a \<in> set (segment_anomaly (medianFrameRate ds) d). Kind a = AnomalyLowFrameRate)"

lemma low_rate_iff:
  "low_rate ds d \<longleftrightarrow> ds_SizeBytes d \<noteq> 0 \<and> 0 < ds_span d \<and> ds_FramesWritten d \<noteq> 0
     \<and> 0 < medianFrameRate ds \<and> frame_rate d < medianFrameRate ds / 2"
  by (auto simp: low_rate_def segment_anomaly_def lowFrameRateFraction_def)

text \<open>
  The frame-rate check calibrates itself to the stream: at most half of the segments that hold
  frames can be flagged as low, and a stream of uniform rate, however slow, has none flagged.
\<close>

theorem low_rate_minority:
  assumes "\<forall>d \<in> set ds. 0 \<le> ds_FramesWritten d"
  shows "2 * length (filter (low_rate ds) ds) \<le> length (rates ds)
    \<and> ((\<forall>r \<in> set (rates ds). r = r0) \<longrightarrow> filter (low_rate ds) ds = [])"
proof (cases "rates ds = []")
  case True
  then have "medianFrameRate ds = 0" by (simp add: medianFrameRate_def)
  then show ?thesis by (simp add: low_rate_iff)
next
  case False
  let ?rs = "sort (rates ds)" and ?m = "length (rates ds) div 2"
  let ?ok = "\<lambda>d. \<not> (ds_span d \<le> 0 \<or> ds_FramesWritten d \<le> 0)"
  have mid: "medianFrameRate ds \<le> ?rs ! ?m" using False by (rule median_le_middle)
  have low: "?ok d \<and> frame_rate d < ?rs ! ?m" if "d \<in> set ds" "low_rate ds d" for d
    using that assms mid by (force simp: low_rate_iff)
  have sub: "length (filter P l) \<le> length (filter Q (filter R l))"
    if "\<And>x. x \<in> set l \<Longrightarrow> P x \<Longrightarrow> R x \<and> Q x" for P Q R and l :: "DeclaredSegment list"
    using that
  proof (induction l)
    case (Cons a l)
    have "length (filter P l) \<le> length (filter Q (filter R l))" using Cons by simp
    then show ?case using Cons.prems [of a] by auto
  qed simp
  have "length (filter (low_rate ds) ds) \<le> length (filter (\<lambda>d. frame_rate d < ?rs ! ?m) (filter ?ok ds))"
    by (rule sub) (rule low)
  also have "\<dots> = length (filter (\<lambda>r. r < ?rs ! ?m) (rates ds))"
    by (simp add: rates_def filter_map comp_def)
  also have "\<dots> = length (filter (\<lambda>r. r < ?rs ! ?m) ?rs)"
    by (metis mset_filter mset_sort size_mset)
  also have "\<dots> \<le> ?m" using below_middle [of ?rs] False by simp
  finally have "2 * length (filter (low_rate ds) ds) \<le> length (rates ds)" by simp
  moreover have "filter (low_rate ds) ds = []" if u: "\<forall>r \<in> set (rates ds). r = r0"
  proof -
    have "?rs ! ?m \<in> set (rates ds)" using False by (metis div_less_dividend length_greater_0_conv length_sort nth_mem one_less_numeral_iff semiring_norm(76) set_sort)
    then have "?rs ! ?m = r0" using u by blast
    moreover have "frame_rate d = r0" if "d \<in> set ds" "?ok d" for d
      using u that by (auto simp: rates_def)
    ultimately show ?thesis using low by (fastforce simp: filter_empty_conv)
  qed
  ultimately show ?thesis by blast
qed

lemma low_rate_minority_witness:
  "2 * length (filter (low_rate [mk_declared 0 300, mk_declared 1 20, mk_declared 2 300])
      [mk_declared 0 300, mk_declared 1 20, mk_declared 2 300])
     \<le> length (rates [mk_declared 0 300, mk_declared 1 20, mk_declared 2 300])"
  using low_rate_minority [of "[mk_declared 0 300, mk_declared 1 20, mk_declared 2 300]" 0]
  by (simp add: mk_declared_def)

end
