(* ===== verification/LiveManifest.thy ===== *)
theory LiveManifest
  imports GoStd
begin

text \<open>
  \<open>internal/transport/webrtc/live_manifest.go\<close>: the HLS playlist of the live-rewind window and the
  asset names it uses.  A playlist is its list of lines; \<open>assetURI\<close> is the caller's function, and
  the wall-clock rendering of \<open>time.Format\<close> is the parameter \<open>fmtDate\<close>.
\<close>

section \<open>Data\<close>

record HLSInitMeta =
  ini_Epoch :: int
  ini_S3Key :: string
  ini_UploadedAt :: instant

record HLSFragmentMeta =
  Seq :: int
  frag_Epoch :: int
  frag_S3Key :: string
  StartedAt :: instant
  EndedAt :: instant
  frag_SizeBytes :: int
  frag_UploadedAt :: instant

definition frag_span :: "HLSFragmentMeta \<Rightarrow> duration" where
  "frag_span f = time_sub (EndedAt f) (StartedAt f)"

section \<open>Asset names\<close>

definition hlsInitAssetName :: "int \<Rightarrow> string" where
  "hlsInitAssetName epoch = ''init-'' @ pad_int 2 epoch @ ''.mp4''"

definition hlsFragmentAssetName :: "int \<Rightarrow> string" where
  "hlsFragmentAssetName seq = ''seg-'' @ pad_int 6 seq @ ''.m4s''"

datatype assetError = InvalidInit string | InvalidFragment string | UnknownAsset string
datatype hlsAssetRef = InitRef int | FragRef int

definition parseHLSAssetName :: "string \<Rightarrow> assetError + hlsAssetRef" where
  "parseHLSAssetName name =
     (if HasPrefix name ''init-'' \<and> HasSuffix name ''.mp4'' then
        (case Atoi (TrimSuffix (TrimPrefix name ''init-'') ''.mp4'') of
           None \<Rightarrow> Inl (InvalidInit name)
         | Some epoch \<Rightarrow> if epoch < 0 then Inl (InvalidInit name) else Inr (InitRef epoch))
      else if HasPrefix name ''seg-'' \<and> HasSuffix name ''.m4s'' then
        (case Atoi (TrimSuffix (TrimPrefix name ''seg-'') ''.m4s'') of
           None \<Rightarrow> Inl (InvalidFragment name)
         | Some seq \<Rightarrow> if seq < 0 then Inl (InvalidFragment name) else Inr (FragRef seq))
      else Inl (UnknownAsset name))"

section \<open>The window\<close>

text \<open>The backward loop: \<open>rest\<close> is what is not yet looked at, newest first.\<close>

fun window_loop :: "duration \<Rightarrow> HLSFragmentMeta list \<Rightarrow> duration \<Rightarrow> HLSFragmentMeta list \<Rightarrow> HLSFragmentMeta list" where
  "window_loop window [] tot acc = acc"
| "window_loop window (f # rest) tot acc =
     (if window \<le> tot + frag_span f then f # acc
      else window_loop window rest (tot + frag_span f) (f # acc))"

definition windowFragments :: "HLSFragmentMeta list \<Rightarrow> duration \<Rightarrow> HLSFragmentMeta list" where
  "windowFragments frags window =
     (if window \<le> 0 then frags else window_loop window (rev frags) 0 [])"

fun disc_loop :: "HLSFragmentMeta list \<Rightarrow> int \<Rightarrow> int \<Rightarrow> int \<Rightarrow> int \<times> int" where
  "disc_loop [] s prevEpoch cnt = (cnt, prevEpoch)"
| "disc_loop (f # fs) s prevEpoch cnt =
     (if s \<le> Seq f then (cnt, prevEpoch)
      else disc_loop fs s (frag_Epoch f)
             (if prevEpoch \<noteq> -1 \<and> frag_Epoch f \<noteq> prevEpoch then cnt + 1 else cnt))"

definition discontinuitiesBefore :: "HLSFragmentMeta list \<Rightarrow> int \<Rightarrow> int" where
  "discontinuitiesBefore frags s =
     (let (cnt, prevEpoch) = disc_loop frags s (-1) 0
      in if prevEpoch = -1 then cnt
         else (case find (\<lambda>f. Seq f = s) frags of
                 None \<Rightarrow> cnt
               | Some f \<Rightarrow> if frag_Epoch f \<noteq> prevEpoch then cnt + 1 else cnt))"

section \<open>The playlist\<close>

datatype playlistLine =
    EXTM3U | VERSION int | TARGETDURATION int | MEDIA_SEQUENCE int | DISCONTINUITY_SEQUENCE int
  | DISCONTINUITY | MAP string | PROGRAM_DATE_TIME string | EXTINF duration string | ENDLIST

datatype manifestError = NoFragments | MissingInit int

text \<open>\<open>initByEpoch\<close>: later entries win, as in the Go map.\<close>

definition initByEpoch :: "HLSInitMeta list \<Rightarrow> int \<Rightarrow> HLSInitMeta option" where
  "initByEpoch inits e = find (\<lambda>i. ini_Epoch i = e) (rev inits)"

text \<open>\<open>int(math.Ceil(max))\<close> of the spans in seconds, at least 0.\<close>

definition ceil_secs :: "duration \<Rightarrow> int" where
  "ceil_secs d = - ((- d) div second)"

definition targetDuration :: "HLSFragmentMeta list \<Rightarrow> duration" where
  "targetDuration fs = foldl (\<lambda>t f. if t < frag_span f then frag_span f else t) 0 fs"

fun frag_lines :: "(int \<Rightarrow> HLSInitMeta option) \<Rightarrow> (instant \<Rightarrow> string) \<Rightarrow> (string \<Rightarrow> string) \<Rightarrow> int
    \<Rightarrow> HLSFragmentMeta list \<Rightarrow> manifestError + playlistLine list" where
  "frag_lines initOf fmtDate assetURI prevEpoch [] = Inr []"
| "frag_lines initOf fmtDate assetURI prevEpoch (f # fs) =
     (let inf = EXTINF (frag_span f) (assetURI (hlsFragmentAssetName (Seq f))) in
      if frag_Epoch f \<noteq> prevEpoch then
        (case initOf (frag_Epoch f) of
           None \<Rightarrow> Inl (MissingInit (frag_Epoch f))
         | Some i \<Rightarrow>
            (case frag_lines initOf fmtDate assetURI (frag_Epoch f) fs of
               Inl e \<Rightarrow> Inl e
             | Inr ls \<Rightarrow> Inr ((if prevEpoch \<noteq> -1 then [DISCONTINUITY] else [])
                 @ [MAP (assetURI (hlsInitAssetName (ini_Epoch i))),
                    PROGRAM_DATE_TIME (fmtDate (StartedAt f)), inf] @ ls)))
      else (case frag_lines initOf fmtDate assetURI prevEpoch fs of
              Inl e \<Rightarrow> Inl e | Inr ls \<Rightarrow> Inr (inf # ls)))"

definition buildLiveManifest :: "(instant \<Rightarrow> string) \<Rightarrow> HLSInitMeta list \<Rightarrow> HLSFragmentMeta list \<Rightarrow> duration
    \<Rightarrow> bool \<Rightarrow> (string \<Rightarrow> string) \<Rightarrow> manifestError + playlistLine list" where
  "buildLiveManifest fmtDate inits frags window ended assetURI =
     (if frags = [] then Inl NoFragments
      else let w0 = windowFragments frags window;
               windowed = (if w0 = [] then [last frags] else w0)
        in (case frag_lines (initByEpoch inits) fmtDate assetURI (-1) windowed of
              Inl e \<Rightarrow> Inl e
            | Inr body \<Rightarrow> Inr ([EXTM3U, VERSION 7,
                TARGETDURATION (ceil_secs (targetDuration windowed)),
                MEDIA_SEQUENCE (Seq (hd windowed)),
                DISCONTINUITY_SEQUENCE (discontinuitiesBefore frags (Seq (hd windowed)))]
                @ body @ (if ended then [ENDLIST] else []))))"

section \<open>Asset names round trip\<close>

text \<open>A name scheme and its parser: every admissible identifier is read back from its name.\<close>

locale asset_codec =
  fixes enc :: "'i \<Rightarrow> string" and dec :: "string \<Rightarrow> 'e + 'r" and ref :: "'i \<Rightarrow> 'r" and ok :: "'i \<Rightarrow> bool"
  assumes dec_enc: "ok i \<Longrightarrow> dec (enc i) = Inr (ref i)"
    and ref_inj: "ref i = ref j \<Longrightarrow> i = j"
begin

lemma enc_inj: "ok i \<Longrightarrow> ok j \<Longrightarrow> enc i = enc j \<Longrightarrow> i = j"
  using dec_enc [of i] dec_enc [of j] ref_inj by simp

end

definition int64_id :: "int \<Rightarrow> bool" where
  "int64_id i \<longleftrightarrow> 0 \<le> i \<and> i \<le> max_int64"

lemma Atoi_pad: "int64_id i \<Longrightarrow> Atoi (pad_int w i) = Some i"
  by (simp add: int64_id_def pad_int_def Atoi_digits)

lemma trim_name: "TrimSuffix (TrimPrefix (p @ n @ s) p) s = n"
  by simp

lemma name_affixes: "prefix p (p @ n @ s) \<and> suffix s (p @ n @ s)"
  by (simp add: suffix_def)

lemma parse_init_name: "int64_id i \<Longrightarrow> parseHLSAssetName (hlsInitAssetName i) = Inr (InitRef i)"
  unfolding parseHLSAssetName_def hlsInitAssetName_def trim_name
  using Atoi_pad [of i 2] name_affixes [of "''init-''" "pad_int 2 i" "''.mp4''"]
  by (simp add: int64_id_def del: append.simps)

lemma parse_frag_name: "int64_id i \<Longrightarrow> parseHLSAssetName (hlsFragmentAssetName i) = Inr (FragRef i)"
proof -
  assume i: "int64_id i"
  have "\<not> prefix ''init-'' (hlsFragmentAssetName i)" by (simp add: hlsFragmentAssetName_def)
  then show ?thesis
    unfolding parseHLSAssetName_def
    using i Atoi_pad [of i 6] name_affixes [of "''seg-''" "pad_int 6 i" "''.m4s''"]
    by (simp add: int64_id_def hlsFragmentAssetName_def trim_name del: append.simps)
qed

interpretation initName: asset_codec hlsInitAssetName parseHLSAssetName InitRef int64_id
  by unfold_locales (simp_all add: parse_init_name)

interpretation fragName: asset_codec hlsFragmentAssetName parseHLSAssetName FragRef int64_id
  by unfold_locales (simp_all add: parse_frag_name)

text \<open>
  Asset names are a faithful, collision-free naming: every epoch and sequence number that fits
  an \<open>int64\<close> and is not negative is read back from its name, and init and fragment names never clash.
\<close>

theorem asset_names_roundtrip:
  assumes "int64_id i" and "int64_id j"
  shows "parseHLSAssetName (hlsInitAssetName i) = Inr (InitRef i)
    \<and> parseHLSAssetName (hlsFragmentAssetName i) = Inr (FragRef i)
    \<and> (hlsInitAssetName i = hlsInitAssetName j \<longleftrightarrow> i = j)
    \<and> (hlsFragmentAssetName i = hlsFragmentAssetName j \<longleftrightarrow> i = j)
    \<and> hlsInitAssetName i \<noteq> hlsFragmentAssetName j"
  using initName.dec_enc [OF assms(1)] fragName.dec_enc [OF assms(1)]
    initName.enc_inj [OF assms] fragName.enc_inj [OF assms]
  by (auto simp: hlsInitAssetName_def hlsFragmentAssetName_def)

lemma asset_names_roundtrip_witness:
  "parseHLSAssetName (hlsInitAssetName 3) = Inr (InitRef 3) \<and> hlsInitAssetName 3 \<noteq> hlsFragmentAssetName 1234567"
  using asset_names_roundtrip [of 3 1234567] by (simp add: int64_id_def max_int64_def)

section \<open>What the window holds\<close>

definition spans :: "HLSFragmentMeta list \<Rightarrow> duration" where
  "spans fs = sum_list (map frag_span fs)"

lemma window_loop_spec:
  assumes "tot < window"
  shows "\<exists>a b. rest = a @ b \<and> window_loop window rest tot acc = rev a @ acc
           \<and> (window \<le> tot + spans a \<and> a \<noteq> [] \<and> tot + spans (butlast a) < window \<or> b = [])"
  using assms
proof (induction rest arbitrary: tot acc)
  case (Cons f rest)
  show ?case
  proof (cases "window \<le> tot + frag_span f")
    case True
    then show ?thesis using Cons.prems
      by (intro exI [of _ "[f]"] exI [of _ rest]) (simp add: spans_def)
  next
    case False
    then obtain a b where "rest = a @ b"
        "window_loop window rest (tot + frag_span f) (f # acc) = rev a @ f # acc"
        "window \<le> tot + frag_span f + spans a \<and> a \<noteq> [] \<and> tot + frag_span f + spans (butlast a) < window \<or> b = []"
      using Cons.IH [of "tot + frag_span f" "f # acc"] by auto
    then show ?thesis using False
      by (intro exI [of _ "f # a"] exI [of _ b]) (auto simp: spans_def)
  qed
qed (simp add: spans_def)

text \<open>
  \<open>windowFragments\<close> returns a suffix of the fragments: all of them if the window is not
  positive, and otherwise either all of them or the shortest suffix whose combined span reaches
  the window (dropping its oldest fragment falls below it), so the span is at least the window
  and not, as the comment says, at most the window.
\<close>

theorem windowFragments_spec:
  "\<exists>pre. frags = pre @ windowFragments frags window \<and>
     (pre \<noteq> [] \<longrightarrow> 0 < window \<and> windowFragments frags window \<noteq> []
        \<and> window \<le> spans (windowFragments frags window)
        \<and> spans (tl (windowFragments frags window)) < window)"
proof (cases "window \<le> 0")
  case False
  have "\<exists>a b. rev frags = a @ b \<and> window_loop window (rev frags) 0 [] = rev a
      \<and> (window \<le> spans a \<and> a \<noteq> [] \<and> spans (butlast a) < window \<or> b = [])"
    using window_loop_spec [of 0 window "rev frags" "[]"] False by simp
  then obtain a b where w: "rev frags = a @ b" "window_loop window (rev frags) 0 [] = rev a"
      "window \<le> spans a \<and> a \<noteq> [] \<and> spans (butlast a) < window \<or> b = []" by blast
  then have f: "frags = rev b @ rev a" by (metis rev_append rev_rev_ident)
  have r: "windowFragments frags window = rev a" using w False by (simp add: windowFragments_def)
  have sr: "spans (rev l) = spans l" for l by (simp add: spans_def rev_map [symmetric] sum_list_rev)
  have tl: "tl (rev a) = rev (butlast a)" by (cases a rule: rev_cases) simp_all
  have "window \<le> spans (rev a) \<and> rev a \<noteq> [] \<and> spans (tl (rev a)) < window \<or> rev b = []"
    using w(3) by (simp add: sr tl)
  with f False show ?thesis unfolding r by (intro exI [of _ "rev b"]) linarith
qed (simp add: windowFragments_def)

lemma windowFragments_nonempty:
  "frags \<noteq> [] \<Longrightarrow> windowFragments frags window \<noteq> []"
proof -
  assume ne: "frags \<noteq> []"
  have "window_loop w (f # fs) t acc \<noteq> []" for w f fs t acc
  proof -
    have "acc \<noteq> [] \<Longrightarrow> window_loop w fs t acc \<noteq> []" for fs t acc
      by (induction fs arbitrary: t acc) auto
    then show ?thesis by simp
  qed
  moreover obtain f fs where "rev frags = f # fs" using ne by (cases "rev frags") auto
  ultimately show ?thesis using ne by (simp only: windowFragments_def split: if_splits) simp
qed

section \<open>Discontinuities\<close>

text \<open>Epoch changes along a fragment list entered with epoch \<open>p\<close> (-1: none yet).\<close>

fun changes_from :: "int \<Rightarrow> HLSFragmentMeta list \<Rightarrow> int" where
  "changes_from p [] = 0"
| "changes_from p (f # fs) =
     (if p \<noteq> -1 \<and> frag_Epoch f \<noteq> p then 1 else 0) + changes_from (frag_Epoch f) fs"

definition last_epoch :: "int \<Rightarrow> HLSFragmentMeta list \<Rightarrow> int" where
  "last_epoch p fs = (if fs = [] then p else frag_Epoch (last fs))"

lemma changes_append:
  "changes_from p (xs @ ys) = changes_from p xs + changes_from (last_epoch p xs) ys"
  by (induction xs arbitrary: p) (auto simp: last_epoch_def)

lemma disc_loop_spec:
  assumes "\<forall>f \<in> set pre. Seq f < s" and "w = [] \<or> s \<le> Seq (hd w)"
  shows "disc_loop (pre @ w) s p c = (c + changes_from p pre, last_epoch p pre)"
  using assms
proof (induction pre arbitrary: p c)
  case Nil
  then show ?case by (cases w) (auto simp: last_epoch_def)
qed (auto simp: last_epoch_def)

lemma find_window_head:
  assumes "\<forall>f \<in> set pre. Seq f < Seq (hd w)" and "w \<noteq> []"
  shows "find (\<lambda>f. Seq f = Seq (hd w)) (pre @ w) = Some (hd w)"
  using assms
proof (induction pre)
  case Nil
  then show ?case by (cases w) auto
qed auto

lemma disc_before_spec:
  assumes "\<forall>f \<in> set pre. Seq f < Seq (hd w)" and "w \<noteq> []"
  shows "discontinuitiesBefore (pre @ w) (Seq (hd w)) + changes_from (-1) w = changes_from (-1) (pre @ w)"
proof -
  obtain f fs where w: "w = f # fs" using assms(2) by (cases w) auto
  have "disc_loop (pre @ w) (Seq (hd w)) (-1) 0 = (changes_from (-1) pre, last_epoch (-1) pre)"
    using disc_loop_spec [of pre "Seq (hd w)" w "-1" 0] assms(1) by simp
  then show ?thesis
    using find_window_head [OF assms] w by (simp add: discontinuitiesBefore_def changes_append)
qed

lemma frag_lines_disc:
  "frag_lines io fd uri p fs = Inr ls \<Longrightarrow> int (length (filter (\<lambda>l. l = DISCONTINUITY) ls)) = changes_from p fs"
  by (induction fs arbitrary: p ls) (auto simp: Let_def split: if_splits option.splits sum.splits)

definition is_extinf :: "playlistLine \<Rightarrow> bool" where
  "is_extinf l \<longleftrightarrow> (case l of EXTINF _ _ \<Rightarrow> True | _ \<Rightarrow> False)"

lemma is_extinf_simps [simp]:
  "is_extinf (EXTINF d s)" "\<not> is_extinf (MAP s)" "\<not> is_extinf (PROGRAM_DATE_TIME s)"
  "\<not> is_extinf DISCONTINUITY" "\<not> is_extinf ENDLIST" "\<not> is_extinf EXTM3U" "\<not> is_extinf (VERSION n)"
  "\<not> is_extinf (TARGETDURATION n)" "\<not> is_extinf (MEDIA_SEQUENCE n)" "\<not> is_extinf (DISCONTINUITY_SEQUENCE n)"
  by (simp_all add: is_extinf_def)

lemma frag_lines_extinf:
  "frag_lines io fd uri p fs = Inr ls \<Longrightarrow>
     filter is_extinf ls = map (\<lambda>f. EXTINF (frag_span f) (uri (hlsFragmentAssetName (Seq f)))) fs
     \<and> ENDLIST \<notin> set ls"
  by (induction fs arbitrary: p ls) (auto simp: Let_def split: if_splits option.splits sum.splits)

lemma frag_lines_error:
  "frag_lines io fd uri p fs = Inl e \<Longrightarrow> \<exists>f \<in> set fs. e = MissingInit (frag_Epoch f) \<and> io (frag_Epoch f) = None"
  by (induction fs arbitrary: p) (auto simp: Let_def split: if_splits option.splits sum.splits)

lemma target_ge:
  "\<forall>f \<in> set fs. frag_span f \<le> targetDuration fs"
proof -
  have "t \<le> foldl (\<lambda>t f. if t < frag_span f then frag_span f else t) t fs
      \<and> (\<forall>f \<in> set fs. frag_span f \<le> foldl (\<lambda>t f. if t < frag_span f then frag_span f else t) t fs)" for t
  proof (induction fs arbitrary: t)
    case (Cons f fs)
    from Cons.IH [of "if t < frag_span f then frag_span f else t"] show ?case by (auto split: if_splits)
  qed simp
  then show ?thesis unfolding targetDuration_def by blast
qed

lemma ceil_secs_ge: "d \<le> ceil_secs d * second"
proof -
  have "(- d) div second * second \<le> - d"
    using minus_mod_eq_div_mult [of "- d" second] pos_mod_sign [of second "- d"] by (simp add: second_def)
  then show ?thesis by (simp add: ceil_secs_def)
qed

text \<open>The playlist of a run, in terms of the window.\<close>

lemma build_shape:
  assumes "buildLiveManifest fmtDate inits frags window ended uri = Inr ls"
  obtains pre w body where "frags = pre @ w" and "w \<noteq> []" and "w = windowFragments frags window"
    and "frag_lines (initByEpoch inits) fmtDate uri (-1) w = Inr body"
    and "ls = [EXTM3U, VERSION 7, TARGETDURATION (ceil_secs (targetDuration w)), MEDIA_SEQUENCE (Seq (hd w)),
          DISCONTINUITY_SEQUENCE (discontinuitiesBefore frags (Seq (hd w)))] @ body @ (if ended then [ENDLIST] else [])"
proof -
  from assms have ne: "frags \<noteq> []" by (auto simp: buildLiveManifest_def)
  let ?w = "windowFragments frags window"
  have wn: "?w \<noteq> []" using ne by (rule windowFragments_nonempty)
  obtain pre where "frags = pre @ ?w" using windowFragments_spec [of frags window] by blast
  with that [OF this wn refl] assms ne wn show thesis
    by (auto simp: buildLiveManifest_def Let_def split: sum.splits)
qed

text \<open>
  Discontinuity accounting is exact: for fragments in strictly increasing \<open>Seq\<close> order, the
  \<open>#EXT-X-DISCONTINUITY-SEQUENCE\<close> number plus the \<open>#EXT-X-DISCONTINUITY\<close> tags of the playlist is the
  number of epoch changes over the whole stream, whatever the window trims, so a client that joins
  late counts the same discontinuities as one that saw them all.
\<close>

theorem manifest_discontinuities:
  assumes "buildLiveManifest fmtDate inits frags window ended uri = Inr ls"
    and "sorted_wrt (\<lambda>f g. Seq f < Seq g) frags"
  shows "\<exists>n. DISCONTINUITY_SEQUENCE n \<in> set ls
     \<and> n + int (length (filter (\<lambda>l. l = DISCONTINUITY) ls)) = changes_from (-1) frags"
proof -
  from build_shape [OF assms(1)] obtain pre w body where b: "frags = pre @ w" "w \<noteq> []"
      "frag_lines (initByEpoch inits) fmtDate uri (-1) w = Inr body"
      "ls = [EXTM3U, VERSION 7, TARGETDURATION (ceil_secs (targetDuration w)), MEDIA_SEQUENCE (Seq (hd w)),
          DISCONTINUITY_SEQUENCE (discontinuitiesBefore frags (Seq (hd w)))] @ body @ (if ended then [ENDLIST] else [])"
    by metis
  have "\<forall>f \<in> set pre. Seq f < Seq (hd w)"
    using assms(2) b(1,2) by (simp add: sorted_wrt_append)
  from disc_before_spec [OF this b(2)] frag_lines_disc [OF b(3)] b(1,4)
  show ?thesis by (intro exI [of _ "discontinuitiesBefore frags (Seq (hd w))"]) auto
qed

definition demo_frags :: "HLSFragmentMeta list" where
  "demo_frags = map (\<lambda>(s, e, a, b). \<lparr>Seq = s, frag_Epoch = e, frag_S3Key = [], StartedAt = a * second,
     EndedAt = b * second, frag_SizeBytes = 1, frag_UploadedAt = 0\<rparr>)
     [(0, 1, 0, 4), (1, 1, 4, 8), (2, 2, 20, 24), (3, 3, 30, 34)]"

definition demo_inits :: "HLSInitMeta list" where
  "demo_inits = map (\<lambda>e. \<lparr>ini_Epoch = e, ini_S3Key = [], ini_UploadedAt = 0\<rparr>) [1, 2, 3]"

lemmas demo_simps = demo_frags_def demo_inits_def buildLiveManifest_def windowFragments_def
  frag_span_def time_sub_def max_dur_def min_dur_def second_def initByEpoch_def Let_def

lemma demo_builds:
  "\<exists>ls. buildLiveManifest (\<lambda>_. []) demo_inits demo_frags (8 * second) True id = Inr ls"
  by (simp add: demo_simps)

lemma manifest_discontinuities_witness:
  "\<exists>ls n. buildLiveManifest (\<lambda>_. []) demo_inits demo_frags (8 * second) True id = Inr ls
     \<and> DISCONTINUITY_SEQUENCE n \<in> set ls \<and> n + int (length (filter (\<lambda>l. l = DISCONTINUITY) ls)) = 2"
proof -
  obtain ls where l: "buildLiveManifest (\<lambda>_. []) demo_inits demo_frags (8 * second) True id = Inr ls"
    using demo_builds by blast
  have "changes_from (-1) demo_frags = 2" "sorted_wrt (\<lambda>f g. Seq f < Seq g) demo_frags"
    by (simp_all add: demo_frags_def)
  with manifest_discontinuities [OF l] l show ?thesis by metis
qed

text \<open>
  A playlist is produced exactly when there are fragments and every fragment of the window has
  an init segment; it lists the windowed fragments once each, in order, under their own span and
  name, no span exceeds the announced target duration, its media sequence number is that of the
  first listed fragment, and it is closed by \<open>#EXT-X-ENDLIST\<close> exactly when the stream has ended.
\<close>

theorem manifest_playlist:
  "case buildLiveManifest fmtDate inits frags window ended uri of
     Inl NoFragments \<Rightarrow> frags = []
   | Inl (MissingInit e) \<Rightarrow>
       (\<exists>f \<in> set (windowFragments frags window). e = frag_Epoch f \<and> initByEpoch inits e = None)
   | Inr ls \<Rightarrow> (\<exists>T. TARGETDURATION T \<in> set ls
        \<and> (\<forall>f \<in> set (windowFragments frags window). frag_span f \<le> T * second))
      \<and> filter is_extinf ls = map (\<lambda>f. EXTINF (frag_span f) (uri (hlsFragmentAssetName (Seq f))))
           (windowFragments frags window)
      \<and> MEDIA_SEQUENCE (Seq (hd (windowFragments frags window))) \<in> set ls
      \<and> (ENDLIST \<in> set ls \<longleftrightarrow> ended)"
proof (cases "buildLiveManifest fmtDate inits frags window ended uri")
  case (Inl e)
  show ?thesis
  proof (cases "frags = []")
    case False
    have wn: "windowFragments frags window \<noteq> []" using False by (rule windowFragments_nonempty)
    with Inl False have "frag_lines (initByEpoch inits) fmtDate uri (-1) (windowFragments frags window) = Inl e"
      by (auto simp: buildLiveManifest_def Let_def split: sum.splits)
    from frag_lines_error [OF this] Inl show ?thesis by auto
  qed (use Inl in \<open>auto simp: buildLiveManifest_def\<close>)
next
  case (Inr ls)
  from build_shape [OF Inr] obtain pre w body where b: "w = windowFragments frags window"
      "frag_lines (initByEpoch inits) fmtDate uri (-1) w = Inr body"
      "ls = [EXTM3U, VERSION 7, TARGETDURATION (ceil_secs (targetDuration w)), MEDIA_SEQUENCE (Seq (hd w)),
          DISCONTINUITY_SEQUENCE (discontinuitiesBefore frags (Seq (hd w)))] @ body @ (if ended then [ENDLIST] else [])"
    by metis
  have "frag_span f \<le> ceil_secs (targetDuration w) * second" if "f \<in> set w" for f
    using that target_ge [of w] ceil_secs_ge [of "targetDuration w"] by force
  then have t: "\<exists>T. TARGETDURATION T \<in> set ls \<and> (\<forall>f \<in> set w. frag_span f \<le> T * second)"
    using b(3) by (intro exI [of _ "ceil_secs (targetDuration w)"]) auto
  show ?thesis
    using t frag_lines_extinf [OF b(2)] b(3) unfolding Inr b(1) [symmetric] by auto
qed

lemma demo_window: "windowFragments demo_frags (8 * second) = drop 2 demo_frags"
  by (simp add: demo_simps)

lemma windowFragments_spec_witness:
  "\<exists>pre. demo_frags = pre @ windowFragments demo_frags (8 * second) \<and> pre \<noteq> []
     \<and> 8 * second \<le> spans (windowFragments demo_frags (8 * second))
     \<and> spans (tl (windowFragments demo_frags (8 * second))) < 8 * second"
proof -
  obtain pre where p: "demo_frags = pre @ windowFragments demo_frags (8 * second)"
    "pre \<noteq> [] \<longrightarrow> 0 < 8 * second \<and> windowFragments demo_frags (8 * second) \<noteq> []
        \<and> 8 * second \<le> spans (windowFragments demo_frags (8 * second))
        \<and> spans (tl (windowFragments demo_frags (8 * second))) < 8 * second"
    using windowFragments_spec [of demo_frags "8 * second"] by blast
  moreover have "pre \<noteq> []" using p(1) demo_window by (auto simp: demo_frags_def)
  ultimately show ?thesis by blast
qed

lemma manifest_playlist_witness:
  "\<exists>ls. buildLiveManifest (\<lambda>_. []) demo_inits demo_frags (8 * second) True id = Inr ls
     \<and> ENDLIST \<in> set ls \<and> length (filter is_extinf ls) = 2"
proof -
  obtain ls where l: "buildLiveManifest (\<lambda>_. []) demo_inits demo_frags (8 * second) True id = Inr ls"
    using demo_builds by blast
  from manifest_playlist [where fmtDate = "\<lambda>_. []" and inits = demo_inits and frags = demo_frags
    and window = "8 * second" and ended = True and uri = id] l
  show ?thesis by (simp add: demo_window) (simp add: demo_frags_def)
qed

end
