(* ===== verification/Registries.thy ===== *)
theory Registries
  imports Redis Coverage LiveManifest
begin

text \<open>
  \<open>internal/infrastructure/cache\<close>: the segment, inventory, HLS, schedule and pending-assembly
  registries over the Redis parameter.  Every operation returns its result and the new world.
  The hash-backed registries share one scheme (store a document under its number, read one,
  list all in order), stated as a locale and interpreted for each of them.
\<close>

datatype regError = RedisError | DecodeError

type_synonym ('a, 'w) op = "'w \<Rightarrow> (regError + 'a) \<times> 'w"

definition segmentTTL :: duration where "segmentTTL = 24 * hour"

section \<open>Encoders and decoders\<close>

definition enc_segment :: "SegmentMeta \<Rightarrow> json" where
  "enc_segment m = JObj [(''seq'', JNum (sm_Seq m)), (''s3Key'', JStr (sm_S3Key m)),
     (''sha256'', JStr (sm_SHA256 m)), (''startedAt'', JTime (sm_StartedAt m)),
     (''endedAt'', JTime (sm_EndedAt m)), (''sizeBytes'', JNum (sm_SizeBytes m)),
     (''uploadedAt'', JTime (sm_UploadedAt m))]"

definition dec_segment :: "json \<Rightarrow> SegmentMeta option" where
  "dec_segment j = Option.bind (dec_int ''seq'' j) (\<lambda>q. Option.bind (dec_str ''s3Key'' j) (\<lambda>k.
     Option.bind (dec_str ''sha256'' j) (\<lambda>h. Option.bind (dec_time ''startedAt'' j) (\<lambda>a.
     Option.bind (dec_time ''endedAt'' j) (\<lambda>b. Option.bind (dec_int ''sizeBytes'' j) (\<lambda>n.
     Option.bind (dec_time ''uploadedAt'' j) (\<lambda>u.
       Some \<lparr>sm_Seq = q, sm_S3Key = k, sm_SHA256 = h, sm_StartedAt = a, sm_EndedAt = b,
             sm_SizeBytes = n, sm_UploadedAt = u\<rparr>)))))))"

definition enc_init :: "HLSInitMeta \<Rightarrow> json" where
  "enc_init m = JObj [(''epoch'', JNum (ini_Epoch m)), (''s3Key'', JStr (ini_S3Key m)),
     (''uploadedAt'', JTime (ini_UploadedAt m))]"

definition dec_init :: "json \<Rightarrow> HLSInitMeta option" where
  "dec_init j = Option.bind (dec_int ''epoch'' j) (\<lambda>e. Option.bind (dec_str ''s3Key'' j) (\<lambda>k.
     Option.bind (dec_time ''uploadedAt'' j) (\<lambda>u.
       Some \<lparr>ini_Epoch = e, ini_S3Key = k, ini_UploadedAt = u\<rparr>)))"

definition enc_fragment :: "HLSFragmentMeta \<Rightarrow> json" where
  "enc_fragment m = JObj [(''seq'', JNum (Seq m)), (''epoch'', JNum (frag_Epoch m)),
     (''s3Key'', JStr (frag_S3Key m)), (''startedAt'', JTime (StartedAt m)),
     (''endedAt'', JTime (EndedAt m)), (''sizeBytes'', JNum (frag_SizeBytes m)),
     (''uploadedAt'', JTime (frag_UploadedAt m))]"

definition dec_fragment :: "json \<Rightarrow> HLSFragmentMeta option" where
  "dec_fragment j = Option.bind (dec_int ''seq'' j) (\<lambda>q. Option.bind (dec_int ''epoch'' j) (\<lambda>e.
     Option.bind (dec_str ''s3Key'' j) (\<lambda>k. Option.bind (dec_time ''startedAt'' j) (\<lambda>a.
     Option.bind (dec_time ''endedAt'' j) (\<lambda>b. Option.bind (dec_int ''sizeBytes'' j) (\<lambda>n.
     Option.bind (dec_time ''uploadedAt'' j) (\<lambda>u.
       Some \<lparr>Seq = q, frag_Epoch = e, frag_S3Key = k, StartedAt = a, EndedAt = b,
             frag_SizeBytes = n, frag_UploadedAt = u\<rparr>)))))))"

record ScheduleStream =
  ss_StreamID :: string
  ss_ScheduleID :: string
  ss_SessionID :: string
  ss_ParticipantID :: string
  ss_StreamType :: string
  ss_StartedAt :: instant
  ss_EndedAt :: "instant option"

definition enc_schedule_stream :: "ScheduleStream \<Rightarrow> json" where
  "enc_schedule_stream s = JObj ([(''streamId'', JStr (ss_StreamID s)), (''scheduleId'', JStr (ss_ScheduleID s)),
     (''sessionId'', JStr (ss_SessionID s)), (''participantId'', JStr (ss_ParticipantID s)),
     (''streamType'', JStr (ss_StreamType s)), (''startedAt'', JTime (ss_StartedAt s))]
     @ (case ss_EndedAt s of None \<Rightarrow> [] | Some t \<Rightarrow> [(''endedAt'', JTime t)]))"

definition dec_schedule_stream :: "json \<Rightarrow> ScheduleStream option" where
  "dec_schedule_stream j = Option.bind (dec_str ''streamId'' j) (\<lambda>a. Option.bind (dec_str ''scheduleId'' j) (\<lambda>b.
     Option.bind (dec_str ''sessionId'' j) (\<lambda>c. Option.bind (dec_str ''participantId'' j) (\<lambda>d.
     Option.bind (dec_str ''streamType'' j) (\<lambda>e. Option.bind (dec_time ''startedAt'' j) (\<lambda>f.
     Option.bind (dec_time_opt ''endedAt'' j) (\<lambda>g.
       Some \<lparr>ss_StreamID = a, ss_ScheduleID = b, ss_SessionID = c, ss_ParticipantID = d,
             ss_StreamType = e, ss_StartedAt = f, ss_EndedAt = g\<rparr>)))))))"

lemma codecs [simp]:
  "dec_segment (enc_segment m) = Some m" "dec_init (enc_init i) = Some i"
  "dec_fragment (enc_fragment f) = Some f" "dec_schedule_stream (enc_schedule_stream s) = Some s"
  by (simp_all add: dec_segment_def enc_segment_def dec_init_def enc_init_def dec_fragment_def
      enc_fragment_def dec_schedule_stream_def enc_schedule_stream_def dec_defs split: option.splits)

section \<open>Hash-backed registries\<close>

text \<open>The three access patterns; the error results follow the order of the calls.\<close>

definition hash_add :: "'w redis \<Rightarrow> duration \<Rightarrow> string \<Rightarrow> string \<Rightarrow> json \<Rightarrow> (unit, 'w) op" where
  "hash_add exec ttl key field doc w =
     (let (ok, w1) = pipeline exec [HSET key field (Doc doc), EXPIRE key ttl] w
      in (if ok then Inr () else Inl RedisError, w1))"

definition hash_get :: "'w redis \<Rightarrow> (json \<Rightarrow> 'a option) \<Rightarrow> string \<Rightarrow> string \<Rightarrow> ('a option, 'w) op" where
  "hash_get exec dec key field w =
     (case exec (HGET key field) w of
        (Nil, w1) \<Rightarrow> (Inr None, w1)
      | (Val v, w1) \<Rightarrow> (case Option.bind (as_json v) dec of
            None \<Rightarrow> (Inl DecodeError, w1) | Some m \<Rightarrow> (Inr (Some m), w1))
      | (_, w1) \<Rightarrow> (Inl RedisError, w1))"

text \<open>Undecodable entries are skipped; the rest is sorted by the key function (a stable sort).\<close>

definition decode_all :: "(json \<Rightarrow> 'a option) \<Rightarrow> (string \<times> sval) list \<Rightarrow> 'a list" where
  "decode_all dec ps = List.map_filter (\<lambda>p. Option.bind (as_json (snd p)) dec) ps"

definition hash_list :: "'w redis \<Rightarrow> (json \<Rightarrow> 'a option) \<Rightarrow> ('a \<Rightarrow> 'k :: linorder) \<Rightarrow> string \<Rightarrow> ('a list, 'w) op" where
  "hash_list exec dec ord key w =
     (case exec (HGETALL key) w of
        (Pairs ps, w1) \<Rightarrow> (Inr (sort_key ord (decode_all dec ps)), w1)
      | (_, w1) \<Rightarrow> (Inl RedisError, w1))"

section \<open>SegmentRegistry\<close>

definition segmentKey :: "string \<Rightarrow> string" where "segmentKey streamID = ''stream:'' @ streamID @ '':segments''"
definition completeKey :: "string \<Rightarrow> string" where "completeKey streamID = ''stream:'' @ streamID @ '':complete''"

definition SegmentAdd :: "'w redis \<Rightarrow> string \<Rightarrow> SegmentMeta \<Rightarrow> (unit, 'w) op" where
  "SegmentAdd exec streamID m = hash_add exec segmentTTL (segmentKey streamID) (Itoa (sm_Seq m)) (enc_segment m)"

definition SegmentGet :: "'w redis \<Rightarrow> string \<Rightarrow> int \<Rightarrow> (SegmentMeta option, 'w) op" where
  "SegmentGet exec streamID seq = hash_get exec dec_segment (segmentKey streamID) (Itoa seq)"

definition SegmentList :: "'w redis \<Rightarrow> string \<Rightarrow> (SegmentMeta list, 'w) op" where
  "SegmentList exec streamID = hash_list exec dec_segment sm_Seq (segmentKey streamID)"

definition MarkComplete :: "'w redis \<Rightarrow> string \<Rightarrow> (unit, 'w) op" where
  "MarkComplete exec streamID w =
     (case exec (SET (completeKey streamID) (Txt ''1'') (TTL segmentTTL)) w of
        (Err, w1) \<Rightarrow> (Inl RedisError, w1) | (_, w1) \<Rightarrow> (Inr (), w1))"

definition IsComplete :: "'w redis \<Rightarrow> string \<Rightarrow> (bool, 'w) op" where
  "IsComplete exec streamID w =
     (case exec (EXISTS (completeKey streamID)) w of
        (IntR n, w1) \<Rightarrow> (Inr (0 < n), w1) | (_, w1) \<Rightarrow> (Inl RedisError, w1))"

section \<open>HLSFragmentRegistry\<close>

definition hlsFragmentTTL :: duration where "hlsFragmentTTL = 24 * hour"
definition hlsInitRegistryKey :: "string \<Rightarrow> string" where "hlsInitRegistryKey s = ''stream:'' @ s @ '':hls-inits''"
definition hlsFragmentRegistryKey :: "string \<Rightarrow> string" where "hlsFragmentRegistryKey s = ''stream:'' @ s @ '':hls-fragments''"

definition AddInit :: "'w redis \<Rightarrow> string \<Rightarrow> HLSInitMeta \<Rightarrow> (unit, 'w) op" where
  "AddInit exec s m = hash_add exec hlsFragmentTTL (hlsInitRegistryKey s) (Itoa (ini_Epoch m)) (enc_init m)"

definition AddFragment :: "'w redis \<Rightarrow> string \<Rightarrow> HLSFragmentMeta \<Rightarrow> (unit, 'w) op" where
  "AddFragment exec s m = hash_add exec hlsFragmentTTL (hlsFragmentRegistryKey s) (Itoa (Seq m)) (enc_fragment m)"

definition GetInit :: "'w redis \<Rightarrow> string \<Rightarrow> int \<Rightarrow> (HLSInitMeta option, 'w) op" where
  "GetInit exec s epoch = hash_get exec dec_init (hlsInitRegistryKey s) (Itoa epoch)"

definition GetFragment :: "'w redis \<Rightarrow> string \<Rightarrow> int \<Rightarrow> (HLSFragmentMeta option, 'w) op" where
  "GetFragment exec s seq = hash_get exec dec_fragment (hlsFragmentRegistryKey s) (Itoa seq)"

definition ListInits :: "'w redis \<Rightarrow> string \<Rightarrow> (HLSInitMeta list, 'w) op" where
  "ListInits exec s = hash_list exec dec_init ini_Epoch (hlsInitRegistryKey s)"

definition ListFragments :: "'w redis \<Rightarrow> string \<Rightarrow> (HLSFragmentMeta list, 'w) op" where
  "ListFragments exec s = hash_list exec dec_fragment Seq (hlsFragmentRegistryKey s)"

section \<open>ScheduleStreamRegistry\<close>

definition scheduleStreamTTL :: duration where "scheduleStreamTTL = hlsFragmentTTL"
definition scheduleStreamKey :: "string \<Rightarrow> string" where "scheduleStreamKey s = ''schedule:'' @ s @ '':streams''"

definition Record :: "'w redis \<Rightarrow> ScheduleStream \<Rightarrow> (unit, 'w) op" where
  "Record exec st = hash_add exec scheduleStreamTTL (scheduleStreamKey (ss_ScheduleID st)) (ss_StreamID st)
     (enc_schedule_stream st)"

definition MarkEnded :: "'w redis \<Rightarrow> string \<Rightarrow> string \<Rightarrow> instant \<Rightarrow> (unit, 'w) op" where
  "MarkEnded exec scheduleID streamID endAt w =
     (case hash_get exec dec_schedule_stream (scheduleStreamKey scheduleID) streamID w of
        (Inl e, w1) \<Rightarrow> (Inl e, w1)
      | (Inr None, w1) \<Rightarrow> (Inr (), w1)
      | (Inr (Some st), w1) \<Rightarrow>
          if ss_EndedAt st \<noteq> None then (Inr (), w1)
          else Record exec (st\<lparr>ss_EndedAt := Some endAt\<rparr>) w1)"

definition ListStreams :: "'w redis \<Rightarrow> string \<Rightarrow> (ScheduleStream list, 'w) op" where
  "ListStreams exec scheduleID =
     hash_list exec dec_schedule_stream (\<lambda>s. (ss_StartedAt s, ss_StreamID s)) (scheduleStreamKey scheduleID)"

section \<open>InventoryRegistry\<close>

definition inventoryKey :: "string \<Rightarrow> string" where "inventoryKey s = ''stream:'' @ s @ '':inventory''"

definition enc_declared :: "DeclaredSegment \<Rightarrow> json" where
  "enc_declared d = JObj [(''seq'', JNum (ds_Seq d)), (''startedAt'', JTime (ds_StartedAt d)),
     (''endedAt'', JTime (ds_EndedAt d)), (''sha256'', JStr (ds_SHA256 d)),
     (''sizeBytes'', JNum (ds_SizeBytes d)), (''framesWritten'', JNum (ds_FramesWritten d))]"

definition dec_declared :: "json \<Rightarrow> DeclaredSegment option" where
  "dec_declared j = Option.bind (dec_int ''seq'' j) (\<lambda>q. Option.bind (dec_time ''startedAt'' j) (\<lambda>a.
     Option.bind (dec_time ''endedAt'' j) (\<lambda>b. Option.bind (dec_str ''sha256'' j) (\<lambda>h.
     Option.bind (dec_int ''sizeBytes'' j) (\<lambda>n. Option.bind (dec_int ''framesWritten'' j) (\<lambda>f.
       Some \<lparr>ds_Seq = q, ds_StartedAt = a, ds_EndedAt = b, ds_SHA256 = h, ds_SizeBytes = n, ds_FramesWritten = f\<rparr>))))))"

definition enc_inventory :: "StreamInventory \<Rightarrow> json" where
  "enc_inventory i = JObj [(''streamId'', JStr (inv_StreamID i)), (''complete'', JBool (inv_Complete i)),
     (''declaredAt'', JTime (inv_DeclaredAt i)), (''segments'', JArr (map enc_declared (inv_Segments i)))]"

definition dec_segments :: "json \<Rightarrow> DeclaredSegment list option" where
  "dec_segments j = (case jget ''segments'' j of None \<Rightarrow> Some [] | Some JNull \<Rightarrow> Some []
     | Some (JArr js) \<Rightarrow> those (map dec_declared js) | _ \<Rightarrow> None)"

definition dec_inventory :: "json \<Rightarrow> StreamInventory option" where
  "dec_inventory j = Option.bind (dec_str ''streamId'' j) (\<lambda>s. Option.bind (dec_bool ''complete'' j) (\<lambda>c.
     Option.bind (dec_time ''declaredAt'' j) (\<lambda>t. Option.bind (dec_segments j) (\<lambda>g.
       Some \<lparr>inv_StreamID = s, inv_Complete = c, inv_DeclaredAt = t, inv_Segments = g\<rparr>))))"

lemma codec_declared [simp]: "dec_declared (enc_declared d) = Some d"
  by (simp add: dec_declared_def enc_declared_def dec_defs)

lemma those_map_Some [simp]: "those (map Some xs) = Some xs"
  by (induction xs) simp_all

lemma codec_inventory [simp]: "dec_inventory (enc_inventory i) = Some i"
  by (simp add: dec_inventory_def enc_inventory_def dec_segments_def dec_defs comp_def)

definition InventoryGet :: "'w redis \<Rightarrow> string \<Rightarrow> (StreamInventory option, 'w) op" where
  "InventoryGet exec streamID w =
     (case exec (GET (inventoryKey streamID)) w of
        (Nil, w1) \<Rightarrow> (Inr None, w1)
      | (Val v, w1) \<Rightarrow> (case Option.bind (as_json v) dec_inventory of
            None \<Rightarrow> (Inl DecodeError, w1) | Some i \<Rightarrow> (Inr (Some i), w1))
      | (_, w1) \<Rightarrow> (Inl RedisError, w1))"

text \<open>\<open>Put\<close> is a read followed by a guarded write; nothing makes the two atomic.\<close>

definition InventoryPutWrite :: "'w redis \<Rightarrow> StreamInventory \<Rightarrow> StreamInventory option \<Rightarrow> (unit, 'w) op" where
  "InventoryPutWrite exec decl existing w1 =
     (if (case existing of None \<Rightarrow> False | Some i \<Rightarrow> inv_DeclaredAt decl < inv_DeclaredAt i)
      then (Inr (), w1)
      else (case exec (SET (inventoryKey (inv_StreamID decl)) (Doc (enc_inventory decl)) (TTL segmentTTL)) w1 of
              (Err, w2) \<Rightarrow> (Inl RedisError, w2) | (_, w2) \<Rightarrow> (Inr (), w2)))"

definition InventoryPut :: "'w redis \<Rightarrow> StreamInventory \<Rightarrow> (unit, 'w) op" where
  "InventoryPut exec decl w =
     (case InventoryGet exec (inv_StreamID decl) w of
        (Inl e, w1) \<Rightarrow> (Inl e, w1)
      | (Inr existing, w1) \<Rightarrow> InventoryPutWrite exec decl existing w1)"

section \<open>PendingAssemblyRegistry\<close>

record PendingAssembly =
  pa_StreamID :: string
  pa_ScheduleID :: string
  pa_SessionID :: string
  pa_ParticipantID :: string
  pa_StreamType :: string
  DueAt :: instant
  Attempts :: int
  Source :: string

definition AssemblySourceWatchdog :: string where "AssemblySourceWatchdog = ''SERVER_WATCHDOG''"
definition AssemblySourceWebRTC :: string where "AssemblySourceWebRTC = ''SERVER_WEBRTC''"

definition AssemblySource :: "PendingAssembly \<Rightarrow> string" where
  "AssemblySource p = (if Source p = [] then AssemblySourceWatchdog else Source p)"

definition pendingAssemblyTTL :: duration where "pendingAssemblyTTL = segmentTTL"
definition pendingAssemblyDueKey :: string where "pendingAssemblyDueKey = ''assembly-pending:due''"
definition pendingAssemblyKey :: "string \<Rightarrow> string" where "pendingAssemblyKey s = ''assembly-pending:'' @ s"

definition enc_pending :: "PendingAssembly \<Rightarrow> json" where
  "enc_pending p = JObj ([(''streamId'', JStr (pa_StreamID p)), (''scheduleId'', JStr (pa_ScheduleID p)),
     (''sessionId'', JStr (pa_SessionID p)), (''participantId'', JStr (pa_ParticipantID p)),
     (''streamType'', JStr (pa_StreamType p)), (''dueAt'', JTime (DueAt p)), (''attempts'', JNum (Attempts p))]
     @ (if Source p = [] then [] else [(''source'', JStr (Source p))]))"

definition dec_pending :: "json \<Rightarrow> PendingAssembly option" where
  "dec_pending j = Option.bind (dec_str ''streamId'' j) (\<lambda>a. Option.bind (dec_str ''scheduleId'' j) (\<lambda>b.
     Option.bind (dec_str ''sessionId'' j) (\<lambda>c. Option.bind (dec_str ''participantId'' j) (\<lambda>d.
     Option.bind (dec_str ''streamType'' j) (\<lambda>e. Option.bind (dec_time ''dueAt'' j) (\<lambda>t.
     Option.bind (dec_int ''attempts'' j) (\<lambda>n. Option.bind (dec_str ''source'' j) (\<lambda>s.
       Some \<lparr>pa_StreamID = a, pa_ScheduleID = b, pa_SessionID = c, pa_ParticipantID = d,
             pa_StreamType = e, DueAt = t, Attempts = n, Source = s\<rparr>))))))))"

lemma codec_pending [simp]: "dec_pending (enc_pending p) = Some p"
  by (simp add: dec_pending_def enc_pending_def dec_defs)

definition Schedule :: "'w redis \<Rightarrow> PendingAssembly \<Rightarrow> (unit, 'w) op" where
  "Schedule exec p w =
     (let (ok, w1) = pipeline exec
        [ZADD pendingAssemblyDueKey (unix_secs (DueAt p)) (pa_StreamID p),
         EXPIRE pendingAssemblyDueKey pendingAssemblyTTL,
         SET (pendingAssemblyKey (pa_StreamID p)) (Doc (enc_pending p)) (TTL pendingAssemblyTTL)] w
      in (if ok then Inr () else Inl RedisError, w1))"

definition Cancel :: "'w redis \<Rightarrow> string \<Rightarrow> (unit, 'w) op" where
  "Cancel exec streamID w =
     (let (ok, w1) = pipeline exec [ZREM pendingAssemblyDueKey streamID, DEL (pendingAssemblyKey streamID)] w
      in (if ok then Inr () else Inl RedisError, w1))"

fun due_loop :: "'w redis \<Rightarrow> string list \<Rightarrow> (PendingAssembly list, 'w) op" where
  "due_loop exec [] w = (Inr [], w)"
| "due_loop exec (s # ss) w =
     (case exec (GET (pendingAssemblyKey s)) w of
        (Nil, w1) \<Rightarrow> due_loop exec ss (snd (exec (ZREM pendingAssemblyDueKey s) w1))
      | (Val v, w1) \<Rightarrow>
          (case Option.bind (as_json v) dec_pending of
             None \<Rightarrow> due_loop exec ss (snd (Cancel exec s w1))
           | Some p \<Rightarrow> (case due_loop exec ss w1 of
                 (Inl e, w2) \<Rightarrow> (Inl e, w2) | (Inr ps, w2) \<Rightarrow> (Inr (p # ps), w2)))
      | (_, w1) \<Rightarrow> (Inl RedisError, w1))"

definition Due :: "'w redis \<Rightarrow> instant \<Rightarrow> int \<Rightarrow> (PendingAssembly list, 'w) op" where
  "Due exec now limit w =
     (case exec (ZRANGEBYSCORE pendingAssemblyDueKey (unix_secs now) limit) w of
        (Members ms, w1) \<Rightarrow> due_loop exec ms w1
      | (_, w1) \<Rightarrow> (Inl RedisError, w1))"

section \<open>What the registries promise\<close>

lemma hash_add_spec:
  assumes "redis_conforms exec view" and "hash_add exec ttl key f doc w = (Inr (), w1)"
  shows "\<exists>h. the_hash key (view w) = Some h \<and> the_hash key (view w1) = Some (AList.update f (Doc doc) h)
           \<and> (\<forall>k. k \<noteq> key \<longrightarrow> view w1 k = view w k)"
proof -
  obtain r1 u1 r2 u2 where e: "exec (HSET key f (Doc doc)) w = (r1, u1)" "exec (EXPIRE key ttl) u1 = (r2, u2)"
    by (metis surj_pair)
  with assms(2) have ok: "r1 \<noteq> Err" "r2 \<noteq> Err" "w1 = u2"
    by (auto simp: hash_add_def Let_def split: if_splits)
  from conformsD [OF assms(1) e(1) ok(1)] obtain h where h: "the_hash key (view w) = Some h"
    "view u1 = put_hash key (AList.update f (Doc doc) h) (view w)" by (auto split: option.splits)
  from conformsD [OF assms(1) e(2) ok(2)] h
  have "the_hash key (view u2) = Some (AList.update f (Doc doc) h) \<and> (\<forall>k. k \<noteq> key \<longrightarrow> view u2 k = view w k)"
    by (auto simp: put_hash_def the_hash_def split: option.splits)
  with h(1) ok(3) show ?thesis by blast
qed

definition stored :: "(json \<Rightarrow> 'a option) \<Rightarrow> keyspace \<Rightarrow> string \<Rightarrow> string \<Rightarrow> 'a option" where
  "stored dec ks key f =
     Option.bind (the_hash key ks) (\<lambda>h. Option.bind (map_of h f) (\<lambda>v. Option.bind (as_json v) dec))"

lemma hash_get_spec:
  assumes "redis_conforms exec view" and "hash_get exec dec key f w = (Inr r, w1)"
  shows "r = stored dec (view w) key f \<and> view w1 = view w"
proof -
  obtain rep u where e: "exec (HGET key f) w = (rep, u)" by fastforce
  with assms(2) have ok: "rep \<noteq> Err" "w1 = u"
    by (auto simp: hash_get_def split: reply.splits option.splits)
  from conformsD [OF assms(1) e ok(1)] assms(2) e show ?thesis
    by (auto simp: hash_get_def stored_def ok(2) split: option.splits)
qed

text \<open>
  A numbered store over Redis: an add that reports success replaces exactly the entry under the
  item's number, and a read that reports success returns the entry and changes nothing.
  \<open>good\<close> says the server conforms.
\<close>

locale numbered_store =
  fixes good :: bool and add :: "string \<Rightarrow> 'm \<Rightarrow> 'w \<Rightarrow> (regError + unit) \<times> 'w"
    and get :: "string \<Rightarrow> 'k \<Rightarrow> 'w \<Rightarrow> (regError + 'm option) \<times> 'w"
    and entry :: "'w \<Rightarrow> string \<Rightarrow> 'k \<Rightarrow> 'm option" and num :: "'m \<Rightarrow> 'k"
  assumes add_entry: "good \<Longrightarrow> add s m w = (Inr (), w1) \<Longrightarrow>
      entry w1 s k = (if k = num m then Some m else entry w s k)"
    and get_entry: "good \<Longrightarrow> get s k w = (Inr r, w1) \<Longrightarrow> r = entry w s k \<and> entry w1 s' k' = entry w s' k'"
begin

text \<open>The last successful add under a number is what every later successful read returns.\<close>

inductive later :: "'k \<Rightarrow> string \<Rightarrow> 'w \<Rightarrow> 'w \<Rightarrow> bool" for k s where
  refl: "later k s w w"
| read: "later k s w w1 \<Longrightarrow> get s' k' w1 = (Inr r, w2) \<Longrightarrow> later k s w w2"
| other: "later k s w w1 \<Longrightarrow> num m \<noteq> k \<Longrightarrow> add s m w1 = (Inr (), w2) \<Longrightarrow> later k s w w2"

lemma later_entry: "later k s w w1 \<Longrightarrow> good \<Longrightarrow> entry w1 s k = entry w s k"
proof (induction rule: later.induct)
  case (read w w1 s' k' r w2)
  then show ?case using get_entry [OF \<open>good\<close> read(2), of s k] by simp
next
  case (other w w1 m w2)
  then show ?case using add_entry [OF \<open>good\<close> other(3), of k] by simp
qed simp

lemma read_your_write:
  assumes "good" and "add s m w = (Inr (), w1)" and "later (num m) s w1 w2"
    and "get s (num m) w2 = (Inr r, w3)"
  shows "r = Some m"
  using get_entry [OF assms(1,4)] later_entry [OF assms(3,1)] add_entry [OF assms(1,2)] by simp

end

lemma store_laws:
  assumes "redis_conforms exec view" and "dec (enc m) = Some m" and "\<And>a b. fld a = fld b \<Longrightarrow> a = b"
  shows "hash_add exec ttl (kf s) (fld (nm m)) (enc m) w = (Inr (), w1) \<Longrightarrow>
      stored dec (view w1) (kf s) (fld k) = (if k = nm m then Some m else stored dec (view w) (kf s) (fld k))"
proof -
  assume "hash_add exec ttl (kf s) (fld (nm m)) (enc m) w = (Inr (), w1)"
  from hash_add_spec [OF assms(1) this] obtain h where
    "the_hash (kf s) (view w) = Some h" "the_hash (kf s) (view w1) = Some (AList.update (fld (nm m)) (Doc (enc m)) h)"
    by blast
  then show ?thesis using assms(2,3) by (auto simp: stored_def update_conv as_json_def)
qed

lemma segment_add_law:
  "redis_conforms exec view \<Longrightarrow> SegmentAdd exec s m w = (Inr (), w1) \<Longrightarrow>
   stored dec_segment (view w1) (segmentKey s) (Itoa k) =
     (if k = sm_Seq m then Some m else stored dec_segment (view w) (segmentKey s) (Itoa k))"
  unfolding SegmentAdd_def by (rule store_laws [OF _ _ Itoa_inject]) simp_all

lemma init_add_law:
  "redis_conforms exec view \<Longrightarrow> AddInit exec s m w = (Inr (), w1) \<Longrightarrow>
   stored dec_init (view w1) (hlsInitRegistryKey s) (Itoa k) =
     (if k = ini_Epoch m then Some m else stored dec_init (view w) (hlsInitRegistryKey s) (Itoa k))"
  unfolding AddInit_def by (rule store_laws [OF _ _ Itoa_inject]) simp_all

lemma fragment_add_law:
  "redis_conforms exec view \<Longrightarrow> AddFragment exec s m w = (Inr (), w1) \<Longrightarrow>
   stored dec_fragment (view w1) (hlsFragmentRegistryKey s) (Itoa k) =
     (if k = Seq m then Some m else stored dec_fragment (view w) (hlsFragmentRegistryKey s) (Itoa k))"
  unfolding AddFragment_def by (rule store_laws [OF _ _ Itoa_inject]) simp_all

interpretation segStore: numbered_store "redis_conforms exec view" "SegmentAdd exec" "SegmentGet exec"
    "\<lambda>w s k. stored dec_segment (view w) (segmentKey s) (Itoa k)" sm_Seq
  by unfold_locales (simp_all add: segment_add_law SegmentGet_def hash_get_spec)

interpretation initStore: numbered_store "redis_conforms exec view" "AddInit exec" "GetInit exec"
    "\<lambda>w s k. stored dec_init (view w) (hlsInitRegistryKey s) (Itoa k)" ini_Epoch
  by unfold_locales (simp_all add: init_add_law GetInit_def hash_get_spec)

interpretation fragStore: numbered_store "redis_conforms exec view" "AddFragment exec" "GetFragment exec"
    "\<lambda>w s k. stored dec_fragment (view w) (hlsFragmentRegistryKey s) (Itoa k)" Seq
  by unfold_locales (simp_all add: fragment_add_law GetFragment_def hash_get_spec)

text \<open>
  Registry writes are read back: with a conforming server, a successful \<open>Add\<close> of a segment,
  init segment or fragment is what a later successful \<open>Get\<close> under its number returns, every other
  number still reads as before, and reading changes nothing.
\<close>

theorem registry_read_back:
  assumes "redis_conforms exec view"
  shows "(SegmentAdd exec s m w = (Inr (), w1) \<and> SegmentGet exec s k w1 = (Inr r, w2) \<longrightarrow>
            r = (if k = sm_Seq m then Some m else stored dec_segment (view w) (segmentKey s) (Itoa k)))
    \<and> (AddInit exec s i w = (Inr (), w1) \<and> GetInit exec s k w1 = (Inr ri, w2) \<longrightarrow>
            ri = (if k = ini_Epoch i then Some i else stored dec_init (view w) (hlsInitRegistryKey s) (Itoa k)))
    \<and> (AddFragment exec s f w = (Inr (), w1) \<and> GetFragment exec s k w1 = (Inr rf, w2) \<longrightarrow>
            rf = (if k = Seq f then Some f else stored dec_fragment (view w) (hlsFragmentRegistryKey s) (Itoa k)))
    \<and> (SegmentGet exec s k w = (Inr r, w1) \<longrightarrow> view w1 = view w)"
proof -
  have a: "r = (if k = sm_Seq m then Some m else stored dec_segment (view w) (segmentKey s) (Itoa k))"
    if "SegmentAdd exec s m w = (Inr (), w1)" "SegmentGet exec s k w1 = (Inr r, w2)"
    using segStore.add_entry [OF assms that(1)] segStore.get_entry [OF assms that(2)] by simp
  have b: "ri = (if k = ini_Epoch i then Some i else stored dec_init (view w) (hlsInitRegistryKey s) (Itoa k))"
    if "AddInit exec s i w = (Inr (), w1)" "GetInit exec s k w1 = (Inr ri, w2)"
    using initStore.add_entry [OF assms that(1)] initStore.get_entry [OF assms that(2)] by simp
  have c: "rf = (if k = Seq f then Some f else stored dec_fragment (view w) (hlsFragmentRegistryKey s) (Itoa k))"
    if "AddFragment exec s f w = (Inr (), w1)" "GetFragment exec s k w1 = (Inr rf, w2)"
    using fragStore.add_entry [OF assms that(1)] fragStore.get_entry [OF assms that(2)] by simp
  have d: "view w1 = view w" if "SegmentGet exec s k w = (Inr r, w1)"
    using hash_get_spec [OF assms that [unfolded SegmentGet_def]] by blast
  show ?thesis using a b c d by blast
qed

lemma registry_read_back_witness:
  "\<exists>w1. SegmentAdd mem_exec ''s'' (mk_received 3) Map.empty = (Inr (), w1)
     \<and> SegmentGet mem_exec ''s'' 3 w1 = (Inr (Some (mk_received 3)), w1)"
proof -
  obtain w1 where a: "SegmentAdd mem_exec ''s'' (mk_received 3) Map.empty = (Inr (), w1)"
    by (simp add: SegmentAdd_def hash_add_def mem_exec_def the_hash_def put_hash_def Let_def mk_received_def)
  then have h: "the_hash (segmentKey ''s'') w1 = Some [(Itoa 3, Doc (enc_segment (mk_received 3)))]"
    by (auto simp: SegmentAdd_def hash_add_def mem_exec_def the_hash_def put_hash_def Let_def mk_received_def)
  then have g: "SegmentGet mem_exec ''s'' 3 w1 = (Inr (Some (mk_received 3)), w1)"
    by (simp add: SegmentGet_def hash_get_def mem_exec_def as_json_def)
  have "Some (mk_received 3) = (if 3 = sm_Seq (mk_received 3) then Some (mk_received 3)
      else stored dec_segment (id Map.empty) (segmentKey ''s'') (Itoa 3))"
    using registry_read_back [OF mem_conforms] a g by blast
  with a g show ?thesis by blast
qed

text \<open>Listing a registry: every decodable entry, in order, nothing else.\<close>

lemma set_decode_all:
  "set (decode_all dec ps) = {m. \<exists>f v. (f, v) \<in> set ps \<and> Option.bind (as_json v) dec = Some m}"
proof (induction ps)
  case (Cons p ps)
  obtain f v where p: "p = (f, v)" by fastforce
  show ?case
  proof (cases "Option.bind (as_json v) dec")
    case None
    with Cons p show ?thesis by (auto simp: decode_all_def List.map_filter_simps)
  next
    case (Some m)
    then have "set (decode_all dec (p # ps)) = insert m (set (decode_all dec ps))"
      using p by (simp add: decode_all_def List.map_filter_simps)
    with Some p Cons show ?thesis by auto
  qed
qed (simp add: decode_all_def List.map_filter_simps)

lemma hash_list_spec:
  assumes "redis_conforms exec view" and "hash_list exec dec ord key w = (Inr ms, w1)"
  shows "sorted (map ord ms) \<and> set ms = {m. \<exists>f. stored dec (view w) key f = Some m} \<and> view w1 = view w"
proof -
  obtain ps where e: "exec (HGETALL key) w = (Pairs ps, w1)" "ms = sort_key ord (decode_all dec ps)"
    using assms(2) by (auto simp: hash_list_def split: prod.splits reply.splits)
  from conformsD [OF assms(1) e(1)] obtain h where h: "the_hash key (view w) = Some h"
    "distinct (map fst ps)" "map_of ps = map_of h" "view w1 = view w" by (auto split: option.splits)
  have "(f, v) \<in> set ps \<longleftrightarrow> map_of h f = Some v" for f v
    using h(2,3) by (metis map_of_eq_Some_iff)
  then show ?thesis using e(2) h(1,4)
    by (auto simp: set_decode_all stored_def bind_eq_Some_conv)
qed

text \<open>
  \<open>List\<close> is complete and ordered: with a conforming server a successful \<open>SegmentRegistry.List\<close>,
  \<open>ListFragments\<close> or \<open>ScheduleStreamRegistry.List\<close> returns exactly the decodable entries, segments
  and fragments by number and streams by start time, then id (one bad record hides no other).
\<close>

theorem registry_lists:
  assumes "redis_conforms exec view"
  shows "(SegmentList exec s w = (Inr ms, w1) \<longrightarrow> sorted (map sm_Seq ms)
            \<and> set ms = {m. \<exists>f. stored dec_segment (view w) (segmentKey s) f = Some m})
    \<and> (ListFragments exec s w = (Inr fs, w1) \<longrightarrow> sorted (map Seq fs)
            \<and> set fs = {m. \<exists>f. stored dec_fragment (view w) (hlsFragmentRegistryKey s) f = Some m})
    \<and> (ListStreams exec s w = (Inr ss, w1) \<longrightarrow> sorted (map (\<lambda>x. (ss_StartedAt x, ss_StreamID x)) ss)
            \<and> set ss = {m. \<exists>f. stored dec_schedule_stream (view w) (scheduleStreamKey s) f = Some m})"
  unfolding SegmentList_def ListFragments_def ListStreams_def
  using hash_list_spec [OF assms, of dec_segment sm_Seq "segmentKey s" w ms w1]
    hash_list_spec [OF assms, of dec_fragment Seq "hlsFragmentRegistryKey s" w fs w1]
    hash_list_spec [OF assms, of dec_schedule_stream "\<lambda>x. (ss_StartedAt x, ss_StreamID x)" "scheduleStreamKey s" w ss w1]
  by blast

lemma registry_lists_witness:
  "SegmentList mem_exec ''s'' Map.empty = (Inr [], Map.empty)"
proof -
  obtain ms where l: "SegmentList mem_exec ''s'' Map.empty = (Inr ms, Map.empty)"
    by (simp add: SegmentList_def hash_list_def mem_exec_def the_hash_def)
  with registry_lists [OF mem_conforms] have "set ms = {m. \<exists>f. stored dec_segment (id Map.empty) (segmentKey ''s'') f = Some m}"
    by blast
  then have "ms = []" by (simp add: stored_def the_hash_def)
  with l show ?thesis by simp
qed

lemma schedule_record_spec:
  assumes "redis_conforms exec view" and "Record exec st w = (Inr (), w1)"
  shows "stored dec_schedule_stream (view w1) (scheduleStreamKey (ss_ScheduleID st)) (ss_StreamID st) = Some st"
  using hash_add_spec [OF assms(1) assms(2) [unfolded Record_def]]
  by (auto simp: stored_def update_conv as_json_def)

text \<open>
  The first end wins: after a stream was recorded as running, a successful \<open>MarkEnded\<close> stamps its
  end time, keeps every identifier, and any later successful \<open>MarkEnded\<close> leaves the stamp alone.
\<close>

theorem first_end_wins:
  assumes "redis_conforms exec view" and "ss_EndedAt st = None" and "Record exec st w = (Inr (), w1)"
    and "MarkEnded exec (ss_ScheduleID st) (ss_StreamID st) t1 w1 = (Inr (), w2)"
    and "MarkEnded exec (ss_ScheduleID st) (ss_StreamID st) t2 w2 = (Inr (), w3)"
  shows "stored dec_schedule_stream (view w3) (scheduleStreamKey (ss_ScheduleID st)) (ss_StreamID st)
           = Some (st\<lparr>ss_EndedAt := Some t1\<rparr>)"
proof -
  let ?key = "scheduleStreamKey (ss_ScheduleID st)" and ?id = "ss_StreamID st"
  obtain r u where g1: "hash_get exec dec_schedule_stream ?key ?id w1 = (Inr r, u)"
    using assms(4) by (auto simp: MarkEnded_def split: prod.splits sum.splits)
  from hash_get_spec [OF assms(1) g1] schedule_record_spec [OF assms(1,3)]
  have "r = Some st" by simp
  with assms(2,4) g1 have "Record exec (st\<lparr>ss_EndedAt := Some t1\<rparr>) u = (Inr (), w2)"
    by (simp add: MarkEnded_def)
  from schedule_record_spec [OF assms(1) this]
  have s2: "stored dec_schedule_stream (view w2) ?key ?id = Some (st\<lparr>ss_EndedAt := Some t1\<rparr>)" by simp
  obtain r2 u2 where g2: "hash_get exec dec_schedule_stream ?key ?id w2 = (Inr r2, u2)"
    using assms(5) by (auto simp: MarkEnded_def split: prod.splits sum.splits)
  from hash_get_spec [OF assms(1) g2] s2 have r2: "r2 = Some (st\<lparr>ss_EndedAt := Some t1\<rparr>)" "view u2 = view w2"
    by simp_all
  with assms(5) g2 have "w3 = u2" by (simp add: MarkEnded_def)
  with s2 r2(2) show ?thesis by simp
qed

definition demo_stream :: ScheduleStream where
  "demo_stream = \<lparr>ss_StreamID = ''a'', ss_ScheduleID = ''x'', ss_SessionID = ''y'', ss_ParticipantID = ''p'',
     ss_StreamType = ''camera'', ss_StartedAt = 0, ss_EndedAt = None\<rparr>"

lemma first_end_wins_witness:
  "\<exists>w3. stored dec_schedule_stream w3 (scheduleStreamKey ''x'') ''a'' = Some (demo_stream\<lparr>ss_EndedAt := Some 5\<rparr>)"
proof -
  note defs = MarkEnded_def Record_def hash_add_def hash_get_def mem_exec_def the_hash_def put_hash_def
    Let_def demo_stream_def as_json_def update_conv
  obtain w1 where a: "Record mem_exec demo_stream Map.empty = (Inr (), w1)" by (simp add: defs)
  then have h1: "the_hash (scheduleStreamKey ''x'') w1 = Some [(''a'', Doc (enc_schedule_stream demo_stream))]"
    by (auto simp: defs)
  obtain w2 where b: "MarkEnded mem_exec ''x'' ''a'' 5 w1 = (Inr (), w2)"
  proof -
    have "fst (MarkEnded mem_exec ''x'' ''a'' 5 w1) = Inr ()"
      using h1 by (simp add: MarkEnded_def Record_def hash_add_def hash_get_def mem_exec_def as_json_def
          demo_stream_def Let_def put_hash_def split: option.splits prod.splits)
    then show thesis using that by (metis prod.collapse)
  qed
  have e: "ss_ScheduleID demo_stream = ''x''" "ss_StreamID demo_stream = ''a''" "ss_EndedAt demo_stream = None"
    by (simp_all add: demo_stream_def)
  obtain h2 where h2: "the_hash (scheduleStreamKey ''x'') w2 = Some h2"
      "map_of h2 ''a'' = Some (Doc (enc_schedule_stream (demo_stream\<lparr>ss_EndedAt := Some 5\<rparr>)))"
    using b h1 by (auto simp: MarkEnded_def Record_def hash_add_def hash_get_def mem_exec_def as_json_def
        demo_stream_def Let_def put_hash_def the_hash_def split: option.splits prod.splits if_splits)
  then have c: "MarkEnded mem_exec ''x'' ''a'' 9 w2 = (Inr (), w2)"
    by (simp add: MarkEnded_def hash_get_def mem_exec_def as_json_def)
  from first_end_wins [OF mem_conforms e(3) a, unfolded e, OF b c] show ?thesis by auto
qed

section \<open>Inventory: newest declaration\<close>

definition inventory_of :: "keyspace \<Rightarrow> string \<Rightarrow> StreamInventory option" where
  "inventory_of ks s = (case ks (inventoryKey s) of Some (RString v, _) \<Rightarrow> Option.bind (as_json v) dec_inventory | _ \<Rightarrow> None)"

lemma inventory_get_spec:
  assumes "redis_conforms exec view" and "InventoryGet exec s w = (Inr r, w1)"
  shows "r = inventory_of (view w) s \<and> view w1 = view w"
proof -
  obtain rep u where e: "exec (GET (inventoryKey s)) w = (rep, u)" by fastforce
  with assms(2) have ok: "rep \<noteq> Err" "w1 = u"
    by (auto simp: InventoryGet_def split: reply.splits option.splits)
  from conformsD [OF assms(1) e ok(1)] assms(2) e ok(2) show ?thesis
    by (auto simp: InventoryGet_def inventory_of_def split: option.splits rval.splits)
qed

lemma inventory_write_spec:
  assumes "redis_conforms exec view" and "InventoryPutWrite exec d existing w = (Inr (), w1)"
  shows "inventory_of (view w1) (inv_StreamID d) =
    (if (case existing of None \<Rightarrow> False | Some i \<Rightarrow> inv_DeclaredAt d < inv_DeclaredAt i)
     then inventory_of (view w) (inv_StreamID d) else Some d)"
proof (cases "case existing of None \<Rightarrow> False | Some i \<Rightarrow> inv_DeclaredAt d < inv_DeclaredAt i")
  case False
  obtain rep u where e: "exec (SET (inventoryKey (inv_StreamID d)) (Doc (enc_inventory d)) (TTL segmentTTL)) w = (rep, u)"
    by fastforce
  with assms(2) False have ok: "rep \<noteq> Err" "w1 = u" by (auto simp: InventoryPutWrite_def split: reply.splits)
  from conformsD [OF assms(1) e ok(1)] ok(2) False show ?thesis
    by (simp add: inventory_of_def as_json_def)
qed (use assms in \<open>auto simp: InventoryPutWrite_def\<close>)

text \<open>
  C1.  Inventory declarations: applied one after the other, the one with the latest \<open>DeclaredAt\<close>
  stands (an older one changes nothing); but the guard is a read before a separate write, so when
  two first declarations interleave (both read before either writes) the older one written last
  replaces the newer, which the comment on \<open>Put\<close> rules out.
\<close>

theorem inventory_newest_wins:
  assumes "redis_conforms exec view" and "inv_StreamID old = s" and "inv_StreamID new = s"
    and "inv_DeclaredAt old < inv_DeclaredAt new"
  shows "(InventoryPut exec new w = (Inr (), w1) \<and> InventoryPut exec old w1 = (Inr (), w2)
            \<and> inventory_of (view w) s = None \<longrightarrow> inventory_of (view w2) s = Some new)
    \<and> (InventoryGet exec s w = (Inr ra, wa) \<and> InventoryGet exec s wa = (Inr rb, wb)
            \<and> inventory_of (view w) s = None
            \<and> InventoryPutWrite exec new rb wb = (Inr (), wc) \<and> InventoryPutWrite exec old ra wc = (Inr (), wd)
            \<longrightarrow> inventory_of (view wd) s = Some old)"
proof (intro conjI impI)
  assume a: "InventoryPut exec new w = (Inr (), w1) \<and> InventoryPut exec old w1 = (Inr (), w2)
            \<and> inventory_of (view w) s = None"
  obtain r1 u1 where g1: "InventoryGet exec s w = (Inr r1, u1)" "InventoryPutWrite exec new r1 u1 = (Inr (), w1)"
    using a assms(3) by (auto simp: InventoryPut_def split: prod.splits sum.splits)
  have "r1 = None" using inventory_get_spec [OF assms(1) g1(1)] a by simp
  with inventory_write_spec [OF assms(1) g1(2)] assms(3) have n: "inventory_of (view w1) s = Some new" by simp
  obtain r2 u2 where g2: "InventoryGet exec s w1 = (Inr r2, u2)" "InventoryPutWrite exec old r2 u2 = (Inr (), w2)"
    using a assms(2) by (auto simp: InventoryPut_def split: prod.splits sum.splits)
  have "r2 = Some new" "view u2 = view w1" using inventory_get_spec [OF assms(1) g2(1)] n by simp_all
  with inventory_write_spec [OF assms(1) g2(2)] assms(2,4) n show "inventory_of (view w2) s = Some new" by simp
next
  assume a: "InventoryGet exec s w = (Inr ra, wa) \<and> InventoryGet exec s wa = (Inr rb, wb)
            \<and> inventory_of (view w) s = None
            \<and> InventoryPutWrite exec new rb wb = (Inr (), wc) \<and> InventoryPutWrite exec old ra wc = (Inr (), wd)"
  then have "ra = None" using inventory_get_spec [OF assms(1)] by auto
  then show "inventory_of (view wd) s = Some old"
    using a inventory_write_spec [OF assms(1), of old ra wc wd] assms(2) by simp
qed

definition demo_inventory :: "instant \<Rightarrow> StreamInventory" where
  "demo_inventory t = \<lparr>inv_StreamID = ''a'', inv_Complete = False, inv_DeclaredAt = t, inv_Segments = []\<rparr>"

lemma inventory_newest_wins_witness:
  "\<exists>wd. inventory_of wd ''a'' = Some (demo_inventory 1)"
proof -
  let ?s = "''a''"
  have g: "InventoryGet mem_exec ?s Map.empty = (Inr None, Map.empty)"
    by (simp add: InventoryGet_def mem_exec_def)
  obtain wc where c: "InventoryPutWrite mem_exec (demo_inventory 2) None Map.empty = (Inr (), wc)"
    by (simp add: InventoryPutWrite_def mem_exec_def)
  obtain wd where d: "InventoryPutWrite mem_exec (demo_inventory 1) None wc = (Inr (), wd)"
    by (simp add: InventoryPutWrite_def mem_exec_def)
  have e: "inventory_of (id Map.empty) ?s = None" by (simp add: inventory_of_def)
  have "inventory_of (id wd) ?s = Some (demo_inventory 1)"
    using inventory_newest_wins [OF mem_conforms, of "demo_inventory 1" ?s "demo_inventory 2"
        Map.empty undefined undefined None Map.empty None Map.empty wc wd] g c d e
    by (simp add: demo_inventory_def)
  then show ?thesis by auto
qed

section \<open>Pending assemblies come due\<close>

definition pending_of :: "keyspace \<Rightarrow> string \<Rightarrow> PendingAssembly option" where
  "pending_of ks s = (case ks (pendingAssemblyKey s) of Some (RString v, _) \<Rightarrow> Option.bind (as_json v) dec_pending | _ \<Rightarrow> None)"

lemma key_neq: "s \<noteq> ''due'' \<Longrightarrow> pendingAssemblyKey s \<noteq> pendingAssemblyDueKey"
  by (simp add: pendingAssemblyKey_def pendingAssemblyDueKey_def)

lemma key_inj [simp]: "pendingAssemblyKey s = pendingAssemblyKey t \<longleftrightarrow> s = t"
  by (simp add: pendingAssemblyKey_def)

lemma schedule_spec:
  assumes "redis_conforms exec view" and "pa_StreamID p \<noteq> ''due''" and "Schedule exec p w = (Inr (), w1)"
  shows "pending_of (view w1) (pa_StreamID p) = Some p
    \<and> (\<exists>z0 z. the_zset pendingAssemblyDueKey (view w) = Some z0 \<and> the_zset pendingAssemblyDueKey (view w1) = Some z
         \<and> z = AList.update (pa_StreamID p) (unix_secs (DueAt p)) z0)"
proof -
  let ?D = pendingAssemblyDueKey and ?k = "pendingAssemblyKey (pa_StreamID p)"
  obtain r1 u1 r2 u2 r3 u3 where e: "exec (ZADD ?D (unix_secs (DueAt p)) (pa_StreamID p)) w = (r1, u1)"
      "exec (EXPIRE ?D pendingAssemblyTTL) u1 = (r2, u2)"
      "exec (SET ?k (Doc (enc_pending p)) (TTL pendingAssemblyTTL)) u2 = (r3, u3)"
    by (metis surj_pair)
  with assms(3) have ok: "r1 \<noteq> Err" "r2 \<noteq> Err" "r3 \<noteq> Err" "w1 = u3"
    by (auto simp: Schedule_def Let_def split: if_splits)
  from conformsD [OF assms(1) e(1) ok(1)] obtain z0 where z0: "the_zset ?D (view w) = Some z0"
      "view u1 = put_zset ?D (AList.update (pa_StreamID p) (unix_secs (DueAt p)) z0) (view w)"
    by (auto split: option.splits)
  have "AList.update (pa_StreamID p) (unix_secs (DueAt p)) z0 \<noteq> []" by (cases z0) auto
  with z0(2) have "the_zset ?D (view u1) = Some (AList.update (pa_StreamID p) (unix_secs (DueAt p)) z0)"
    by (simp add: put_zset_def the_zset_def)
  with conformsD [OF assms(1) e(2) ok(2)]
  have z2: "the_zset ?D (view u2) = Some (AList.update (pa_StreamID p) (unix_secs (DueAt p)) z0)"
    by (auto simp: the_zset_def split: option.splits rval.splits)
  have v3: "view u3 = (view u2)(?k \<mapsto> (RString (Doc (enc_pending p)), Some pendingAssemblyTTL))"
    using conformsD [OF assms(1) e(3) ok(3)] by (simp add: life_def)
  then have "pending_of (view u3) (pa_StreamID p) = Some p" by (simp add: pending_of_def as_json_def)
  moreover have "the_zset ?D (view u3) = the_zset ?D (view u2)"
    using v3 key_neq [OF assms(2)] by (simp add: the_zset_def)
  ultimately show ?thesis using z0(1) z2 ok(4) by auto
qed

lemma cancel_frame:
  assumes "redis_conforms exec view" and "Cancel exec s w = (r, w1)"
    and "k \<noteq> pendingAssemblyDueKey" and "k \<noteq> pendingAssemblyKey s"
  shows "view w1 k = view w k"
proof -
  obtain r1 u1 r2 u2 where e: "exec (ZREM pendingAssemblyDueKey s) w = (r1, u1)"
      "exec (DEL (pendingAssemblyKey s)) u1 = (r2, u2)" by (metis surj_pair)
  then have "w1 = u2" using assms(2) by (auto simp: Cancel_def Let_def split: if_splits)
  then show ?thesis
    using exec_frame [OF assms(1) e(1), of k] exec_frame [OF assms(1) e(2), of k] assms(3,4) by simp
qed

lemma due_loop_mem:
  assumes "redis_conforms exec view" and "due_loop exec ss w = (Inr ps, w1)"
    and "s \<in> set ss" and "s \<noteq> ''due''" and "pending_of (view w) s = Some p"
  shows "p \<in> set ps"
  using assms(2-)
proof (induction ss arbitrary: w ps)
  case (Cons x ss)
  let ?k = "pendingAssemblyKey s"
  obtain rep u where e: "exec (GET (pendingAssemblyKey x)) w = (rep, u)" by fastforce
  have rep: "rep \<noteq> Err" using Cons.prems(1) e by auto
  note doc = conformsD [OF assms(1) e rep]
  have vu: "view u = view w" using doc by simp
  have pu: "pending_of (view v) s = Some p" if "view v ?k = view w ?k" for v
    using that Cons.prems(4) by (simp add: pending_of_def)
  show ?case
  proof (cases "x = s")
    case True
    obtain v t where kv: "view w ?k = Some (RString v, t)" "Option.bind (as_json v) dec_pending = Some p"
      using Cons.prems(4) by (auto simp: pending_of_def split: option.splits rval.splits prod.splits)
    then have "rep = Val v" using doc True by simp
    then show ?thesis using Cons.prems(1) e kv(2) by (auto split: prod.splits sum.splits)
  next
    case False
    then have s: "s \<in> set ss" using Cons.prems(2) by simp
    from Cons.prems(1) e rep consider
        (gone) "rep = Nil" "due_loop exec ss (snd (exec (ZREM pendingAssemblyDueKey x) u)) = (Inr ps, w1)"
      | (bad) v where "rep = Val v" "due_loop exec ss (snd (Cancel exec x u)) = (Inr ps, w1)"
      | (ok) v q qs where "rep = Val v" "due_loop exec ss u = (Inr qs, w1)" "ps = q # qs"
      by (auto split: reply.splits option.splits prod.splits sum.splits)
    then show ?thesis
    proof cases
      case gone
      obtain r2 u2 where z: "exec (ZREM pendingAssemblyDueKey x) u = (r2, u2)" by fastforce
      have "view u2 ?k = view w ?k"
        using exec_frame [OF assms(1) z] key_neq [OF Cons.prems(3)] vu by simp
      from Cons.IH [OF _ s Cons.prems(3) pu [OF this]] gone(2) z show ?thesis by simp
    next
      case bad
      obtain r2 u2 where z: "Cancel exec x u = (r2, u2)" by fastforce
      have "view u2 ?k = view w ?k"
        using cancel_frame [OF assms(1) z] key_neq [OF Cons.prems(3)] False vu by simp
      from Cons.IH [OF _ s Cons.prems(3) pu [OF this]] bad(2) z show ?thesis by simp
    next
      case ok
      from Cons.IH [OF ok(2) s Cons.prems(3) pu] vu ok(3) show ?thesis by simp
    qed
  qed
qed simp

text \<open>
  The watchdog's set loses no stream: after a successful \<open>Schedule\<close>, a successful \<open>Due\<close> whose
  limit exceeds the number of scheduled streams returns the entry, with all the identifiers it was
  scheduled with, as soon as the clock has reached its due second, whatever expired or undecodable
  entries are cleaned up on the way.
\<close>

theorem scheduled_comes_due:
  assumes "redis_conforms exec view" and "pa_StreamID p \<noteq> ''due''" and "Schedule exec p w = (Inr (), w1)"
    and "Due exec now limit w1 = (Inr ps, w2)" and "unix_secs (DueAt p) \<le> unix_secs now"
    and "the_zset pendingAssemblyDueKey (view w) = Some z0" and "int (length z0) + 1 < limit"
  shows "p \<in> set ps"
proof -
  from schedule_spec [OF assms(1-3)] obtain z where z: "the_zset pendingAssemblyDueKey (view w1) = Some z"
      "z = AList.update (pa_StreamID p) (unix_secs (DueAt p)) z0" "pending_of (view w1) (pa_StreamID p) = Some p"
    using assms(6) by auto
  obtain ms u where e: "exec (ZRANGEBYSCORE pendingAssemblyDueKey (unix_secs now) limit) w1 = (Members ms, u)"
      "due_loop exec ms u = (Inr ps, w2)"
    using assms(4) by (auto simp: Due_def split: prod.splits reply.splits)
  have doc: "redis_doc (ZRANGEBYSCORE pendingAssemblyDueKey (unix_secs now) limit) (view w1) (Members ms) (view u)"
    using conformsD [OF assms(1) e(1)] by simp
  have d: "view u = view w1 \<and> distinct ms
      \<and> (\<forall>m \<in> set ms. \<exists>s. map_of z m = Some s \<and> s \<le> unix_secs now)
      \<and> (limit \<le> 0 \<or> int (length ms) < limit \<longrightarrow> set ms = {m. \<exists>s. map_of z m = Some s \<and> s \<le> unix_secs now})"
    using doc unfolding redis_doc.simps z(1) option.case reply.inject
    by (elim conjE exE) (hypsubst, intro conjI; assumption)
  have "set ms \<subseteq> fst ` set z" 
  proof
    fix m assume "m \<in> set ms"
    with d obtain s where "map_of z m = Some s" by blast
    then show "m \<in> fst ` set z" by (force dest: map_of_SomeD)
  qed
  then have "card (set ms) \<le> length z"
    by (meson card_image_le card_length card_mono finite_imageI finite_set order_trans)
  also have "\<dots> \<le> Suc (length z0)" unfolding z(2) by (rule length_update_le)
  finally have "int (length ms) < limit" using conjunct1 [OF conjunct2 [OF d]] assms(7) by (simp add: distinct_card)
  with conjunct2 [OF conjunct2 [OF conjunct2 [OF d]]]
  have "set ms = {m. \<exists>s. map_of z m = Some s \<and> s \<le> unix_secs now}" by (elim mp) (rule disjI2)
  moreover have "map_of z (pa_StreamID p) = Some (unix_secs (DueAt p))" by (simp add: z(2) update_conv)
  ultimately have "pa_StreamID p \<in> set ms" using assms(5) by simp
  from due_loop_mem [OF assms(1) e(2) this assms(2)] conjunct1 [OF d] z(3) show ?thesis by simp
qed

definition demo_pending :: PendingAssembly where
  "demo_pending = \<lparr>pa_StreamID = ''a'', pa_ScheduleID = ''x'', pa_SessionID = ''y'', pa_ParticipantID = ''p'',
     pa_StreamType = ''camera'', DueAt = 5 * second, Attempts = 0, Source = []\<rparr>"

lemma scheduled_comes_due_witness:
  "\<exists>w1 ps w2. Due mem_exec (6 * second) 20 w1 = (Inr ps, w2) \<and> demo_pending \<in> set ps"
proof -
  have e: "pa_StreamID demo_pending = ''a''" "unix_secs (DueAt demo_pending) = 5"
    by (simp_all add: demo_pending_def unix_secs_def second_def)
  define w1 :: keyspace where "w1 = (Map.empty(pendingAssemblyDueKey \<mapsto> (RZSet [(''a'', 5)], Some pendingAssemblyTTL)))
      (pendingAssemblyKey ''a'' \<mapsto> (RString (Doc (enc_pending demo_pending)), Some pendingAssemblyTTL))"
  have s: "Schedule mem_exec demo_pending Map.empty = (Inr (), w1)"
    by (simp add: Schedule_def mem_exec_def the_zset_def put_zset_def Let_def e life_def w1_def)
  have w1: "w1 pendingAssemblyDueKey = Some (RZSet [(''a'', 5)], Some pendingAssemblyTTL)"
      "w1 (pendingAssemblyKey ''a'') = Some (RString (Doc (enc_pending demo_pending)), Some pendingAssemblyTTL)"
    using key_neq [of "''a''"] by (auto simp: w1_def)
  have d: "Due mem_exec (6 * second) 20 w1 = (Inr [demo_pending], w1)"
    using w1 by (simp add: Due_def mem_exec_def the_zset_def as_json_def unix_secs_def second_def)
  have "demo_pending \<in> set [demo_pending]"
    by (rule scheduled_comes_due [OF mem_conforms _ s d, of "[]"])
       (simp_all add: demo_pending_def unix_secs_def second_def the_zset_def)
  with d show ?thesis by blast
qed

end
