(* ===== verification/Sessions.thy ===== *)
theory Sessions
  imports Registries
begin

text \<open>
  \<open>internal/infrastructure/cache/session.go\<close>: live session registrations and upload sessions,
  with the two Lua scripts.  Redis runs a script atomically, so a script is the sequence of its
  commands; \<open>cjson.decode\<close> and \<open>cjson.encode\<close> act on the JSON tree.
\<close>

section \<open>Live sessions\<close>

definition sessionTTL :: duration where "sessionTTL = 5 * minute"

record SessionInfo =
  si_InstanceID :: string
  si_ScheduleID :: string
  si_SessionID :: string
  si_StreamID :: string
  si_ParticipantID :: string
  si_StreamType :: string
  si_StartedAt :: instant

definition enc_session_info :: "SessionInfo \<Rightarrow> json" where
  "enc_session_info s = JObj [(''instanceId'', JStr (si_InstanceID s)), (''scheduleId'', JStr (si_ScheduleID s)),
     (''sessionId'', JStr (si_SessionID s)), (''streamId'', JStr (si_StreamID s)),
     (''participantId'', JStr (si_ParticipantID s)), (''streamType'', JStr (si_StreamType s)),
     (''startedAt'', JTime (si_StartedAt s))]"

definition dec_session_info :: "json \<Rightarrow> SessionInfo option" where
  "dec_session_info j = Option.bind (dec_str ''instanceId'' j) (\<lambda>a. Option.bind (dec_str ''scheduleId'' j) (\<lambda>b.
     Option.bind (dec_str ''sessionId'' j) (\<lambda>c. Option.bind (dec_str ''streamId'' j) (\<lambda>d.
     Option.bind (dec_str ''participantId'' j) (\<lambda>e. Option.bind (dec_str ''streamType'' j) (\<lambda>f.
     Option.bind (dec_time ''startedAt'' j) (\<lambda>t.
       Some \<lparr>si_InstanceID = a, si_ScheduleID = b, si_SessionID = c, si_StreamID = d,
             si_ParticipantID = e, si_StreamType = f, si_StartedAt = t\<rparr>)))))))"

lemma codec_session_info [simp]: "dec_session_info (enc_session_info s) = Some s"
  by (simp add: dec_session_info_def enc_session_info_def dec_defs)

definition sessionKey :: "string \<Rightarrow> string \<Rightarrow> string \<Rightarrow> string \<Rightarrow> string" where
  "sessionKey scheduleID sessionID participantID streamType =
     ''streaming-session:'' @ scheduleID @ '':'' @ sessionID @ '':'' @ participantID @ '':'' @ streamType"

datatype sessError = SessRedis | SessDecode | SessNil | ErrUploadSessionNotFound | ErrUploadSessionExpired

type_synonym ('a, 'w) sop = "'w \<Rightarrow> (sessError + 'a) \<times> 'w"

definition Register :: "'w redis \<Rightarrow> string \<Rightarrow> string \<Rightarrow> string \<Rightarrow> string \<Rightarrow> string \<Rightarrow> string \<Rightarrow> instant \<Rightarrow> (unit, 'w) sop" where
  "Register exec instanceID scheduleID sessionID participantID streamType streamID startedAt w =
     (let s = \<lparr>si_InstanceID = instanceID, si_ScheduleID = scheduleID, si_SessionID = sessionID,
               si_StreamID = streamID, si_ParticipantID = participantID, si_StreamType = streamType,
               si_StartedAt = startedAt\<rparr>
      in (case exec (SET (sessionKey scheduleID sessionID participantID streamType)
                       (Doc (enc_session_info s)) (TTL sessionTTL)) w of
            (Err, w1) \<Rightarrow> (Inl SessRedis, w1) | (_, w1) \<Rightarrow> (Inr (), w1)))"

definition Unregister :: "'w redis \<Rightarrow> string \<Rightarrow> string \<Rightarrow> string \<Rightarrow> string \<Rightarrow> (unit, 'w) sop" where
  "Unregister exec scheduleID sessionID participantID streamType w =
     (case exec (DEL (sessionKey scheduleID sessionID participantID streamType)) w of
        (Err, w1) \<Rightarrow> (Inl SessRedis, w1) | (_, w1) \<Rightarrow> (Inr (), w1))"

definition Refresh :: "'w redis \<Rightarrow> string \<Rightarrow> string \<Rightarrow> string \<Rightarrow> string \<Rightarrow> (unit, 'w) sop" where
  "Refresh exec scheduleID sessionID participantID streamType w =
     (case exec (EXPIRE (sessionKey scheduleID sessionID participantID streamType) sessionTTL) w of
        (Err, w1) \<Rightarrow> (Inl SessRedis, w1) | (_, w1) \<Rightarrow> (Inr (), w1))"

definition Lookup :: "'w redis \<Rightarrow> string \<Rightarrow> string \<Rightarrow> string \<Rightarrow> string \<Rightarrow> (SessionInfo, 'w) sop" where
  "Lookup exec scheduleID sessionID participantID streamType w =
     (case exec (GET (sessionKey scheduleID sessionID participantID streamType)) w of
        (Val v, w1) \<Rightarrow> (case Option.bind (as_json v) dec_session_info of
            None \<Rightarrow> (Inl SessDecode, w1) | Some i \<Rightarrow> (Inr i, w1))
      | (Nil, w1) \<Rightarrow> (Inl SessNil, w1)
      | (_, w1) \<Rightarrow> (Inl SessRedis, w1))"

section \<open>Upload sessions\<close>

record UploadSession =
  us_StreamID :: string
  us_CandidateID :: string
  us_SessionID :: string
  us_ScheduleID :: string
  us_StreamType :: string
  us_CreatedAt :: instant
  us_ExpiresAt :: instant
  us_Completed :: bool
  us_UploadTokenHash :: string
  us_StopReason :: string

definition enc_upload :: "UploadSession \<Rightarrow> json" where
  "enc_upload s = JObj ([(''streamId'', JStr (us_StreamID s)), (''candidateId'', JStr (us_CandidateID s)),
     (''sessionId'', JStr (us_SessionID s)), (''scheduleId'', JStr (us_ScheduleID s)),
     (''streamType'', JStr (us_StreamType s)), (''createdAt'', JTime (us_CreatedAt s)),
     (''expiresAt'', JTime (us_ExpiresAt s)), (''completed'', JBool (us_Completed s)),
     (''uploadTokenHash'', JStr (us_UploadTokenHash s))]
     @ (if us_StopReason s = [] then [] else [(''stopReason'', JStr (us_StopReason s))]))"

definition dec_upload :: "json \<Rightarrow> UploadSession option" where
  "dec_upload j = Option.bind (dec_str ''streamId'' j) (\<lambda>a. Option.bind (dec_str ''candidateId'' j) (\<lambda>b.
     Option.bind (dec_str ''sessionId'' j) (\<lambda>c. Option.bind (dec_str ''scheduleId'' j) (\<lambda>d.
     Option.bind (dec_str ''streamType'' j) (\<lambda>e. Option.bind (dec_time ''createdAt'' j) (\<lambda>f.
     Option.bind (dec_time ''expiresAt'' j) (\<lambda>g. Option.bind (dec_bool ''completed'' j) (\<lambda>h.
     Option.bind (dec_str ''uploadTokenHash'' j) (\<lambda>i. Option.bind (dec_str ''stopReason'' j) (\<lambda>k.
       Some \<lparr>us_StreamID = a, us_CandidateID = b, us_SessionID = c, us_ScheduleID = d, us_StreamType = e,
             us_CreatedAt = f, us_ExpiresAt = g, us_Completed = h, us_UploadTokenHash = i, us_StopReason = k\<rparr>))))))))))"

definition uploadSessionKey :: "string \<Rightarrow> string" where "uploadSessionKey streamID = ''upload-session:'' @ streamID"

definition uploadSessionIndexKey :: "UploadSession \<Rightarrow> string" where
  "uploadSessionIndexKey s = ''upload-session-index:'' @ us_ScheduleID s @ '':'' @ us_SessionID s @ '':''
     @ us_CandidateID s @ '':'' @ us_StreamType s"

lemma upload_keys_neq [simp]:
  "uploadSessionKey a \<noteq> uploadSessionIndexKey s" "uploadSessionIndexKey s \<noteq> uploadSessionKey a"
  "uploadSessionKey a = uploadSessionKey b \<longleftrightarrow> a = b"
  by (simp_all add: uploadSessionKey_def uploadSessionIndexKey_def)

text \<open>The Lua truth of a field: absent, null and false are false.\<close>

definition lua_true :: "string \<Rightarrow> json \<Rightarrow> bool" where
  "lua_true f j = (case jget f j of None \<Rightarrow> False | Some JNull \<Rightarrow> False | Some (JBool b) \<Rightarrow> b | _ \<Rightarrow> True)"

definition jget0 :: "string \<Rightarrow> json \<Rightarrow> json" where
  "jget0 f j = (case jget f j of None \<Rightarrow> JNull | Some v \<Rightarrow> v)"

text \<open>The tail of \<open>registerUploadScript\<close>: store the session and the index entry pointing to it.\<close>

definition register_fresh :: "'w redis \<Rightarrow> string \<Rightarrow> string \<Rightarrow> json \<Rightarrow> duration \<Rightarrow> 'w \<Rightarrow> json option \<times> 'w" where
  "register_fresh exec k1 k2 arg px w =
     (case exec (SET k2 (Doc arg) (TTL px)) w of
        (Err, w1) \<Rightarrow> (None, w1)
      | (_, w1) \<Rightarrow> (case exec (SET k1 (Txt k2) (TTL px)) w1 of
          (Err, w2) \<Rightarrow> (None, w2) | (_, w2) \<Rightarrow> (Some arg, w2)))"

definition register_replace :: "'w redis \<Rightarrow> string \<Rightarrow> string \<Rightarrow> json \<Rightarrow> duration \<Rightarrow> 'w \<Rightarrow> json option \<times> 'w" where
  "register_replace exec k1 k2 arg px w =
     (case exec (DEL k1) w of (Err, w1) \<Rightarrow> (None, w1) | (_, w1) \<Rightarrow> register_fresh exec k1 k2 arg px w1)"

definition registerUploadScript :: "'w redis \<Rightarrow> string \<Rightarrow> string \<Rightarrow> json \<Rightarrow> duration \<Rightarrow> 'w \<Rightarrow> json option \<times> 'w" where
  "registerUploadScript exec k1 k2 arg px w =
     (case exec (GET k1) w of
        (Nil, w1) \<Rightarrow> register_fresh exec k1 k2 arg px w1
      | (Val (Txt existingKey), w1) \<Rightarrow>
          (case exec (GET existingKey) w1 of
             (Nil, w2) \<Rightarrow> register_replace exec k1 k2 arg px w2
           | (Val (Doc existing), w2) \<Rightarrow>
               if \<not> lua_true ''completed'' existing then
                 (let refreshed = jset ''expiresAt'' (jget0 ''expiresAt'' arg)
                        (jset ''uploadTokenHash'' (jget0 ''uploadTokenHash'' arg) existing)
                  in (case exec (SET existingKey (Doc refreshed) (TTL px)) w2 of
                        (Err, w3) \<Rightarrow> (None, w3)
                      | (_, w3) \<Rightarrow> (case exec (SET k1 (Txt existingKey) (TTL px)) w3 of
                          (Err, w4) \<Rightarrow> (None, w4) | (_, w4) \<Rightarrow> (Some refreshed, w4))))
               else register_replace exec k1 k2 arg px w2
           | (_, w2) \<Rightarrow> (None, w2))
      | (_, w1) \<Rightarrow> (None, w1))"

definition RegisterOrGetUpload :: "'w redis \<Rightarrow> instant \<Rightarrow> UploadSession \<Rightarrow> (UploadSession \<times> bool, 'w) sop" where
  "RegisterOrGetUpload exec now s w =
     (let ttl = time_sub (us_ExpiresAt s) now
      in if ttl \<le> 0 then (Inl ErrUploadSessionExpired, w)
         else (case registerUploadScript exec (uploadSessionIndexKey s) (uploadSessionKey (us_StreamID s))
                      (enc_upload s) (ttl div millisecond * millisecond) w of
                 (None, w1) \<Rightarrow> (Inl SessRedis, w1)
               | (Some j, w1) \<Rightarrow> (case dec_upload j of
                     None \<Rightarrow> (Inl SessDecode, w1)
                   | Some r \<Rightarrow> (Inr (r, us_StreamID r = us_StreamID s), w1))))"

definition LookupUpload :: "'w redis \<Rightarrow> instant \<Rightarrow> string \<Rightarrow> (UploadSession, 'w) sop" where
  "LookupUpload exec now streamID w =
     (case exec (GET (uploadSessionKey streamID)) w of
        (Nil, w1) \<Rightarrow> (Inl ErrUploadSessionNotFound, w1)
      | (Val v, w1) \<Rightarrow> (case Option.bind (as_json v) dec_upload of
            None \<Rightarrow> (Inl SessDecode, w1)
          | Some s \<Rightarrow> if \<not> now < us_ExpiresAt s
              then (Inl ErrUploadSessionExpired, snd (exec (DEL (uploadSessionKey streamID)) w1))
              else (Inr s, w1))
      | (_, w1) \<Rightarrow> (Inl SessRedis, w1))"

definition lua_empty :: "string \<Rightarrow> json \<Rightarrow> bool" where
  "lua_empty f j = (case jget f j of None \<Rightarrow> True | Some (JStr s) \<Rightarrow> s = [] | _ \<Rightarrow> False)"

definition markUploadCompleteScript :: "'w redis \<Rightarrow> string \<Rightarrow> string \<Rightarrow> 'w \<Rightarrow> int option \<times> 'w" where
  "markUploadCompleteScript exec k1 reason w =
     (case exec (GET k1) w of
        (Nil, w1) \<Rightarrow> (Some (-1), w1)
      | (Val (Doc session), w1) \<Rightarrow>
          (let already = lua_true ''completed'' session;
               s1 = (if reason \<noteq> [] \<and> lua_empty ''stopReason'' session
                     then jset ''stopReason'' (JStr reason) session else session);
               s2 = jset ''completed'' (JBool True) s1
           in (case exec (SET k1 (Doc s2) KeepTTL) w1 of
                 (Err, w2) \<Rightarrow> (None, w2)
               | (_, w2) \<Rightarrow> (Some (if already then 0 else 1), w2)))
      | (_, w1) \<Rightarrow> (None, w1))"

definition MarkUploadComplete :: "'w redis \<Rightarrow> string \<Rightarrow> string \<Rightarrow> (bool, 'w) sop" where
  "MarkUploadComplete exec streamID stopReason w =
     (case markUploadCompleteScript exec (uploadSessionKey streamID) stopReason w of
        (None, w1) \<Rightarrow> (Inl SessRedis, w1)
      | (Some n, w1) \<Rightarrow> if n = -1 then (Inl ErrUploadSessionNotFound, w1) else (Inr (n = 1), w1))"

section \<open>Field updates on encoded sessions\<close>

text \<open>
  A stored session is any document that decodes to it; the scripts' field updates act on the
  decoded session as record updates.
\<close>

definition is_obj :: "json \<Rightarrow> bool" where "is_obj j \<longleftrightarrow> (\<exists>kvs. j = JObj kvs)"

lemma is_obj_jset [simp]: "is_obj (jset f v j) = is_obj j"
  by (cases j) (auto simp: is_obj_def jset_def)

lemma jget_jset: "is_obj j \<Longrightarrow> jget f (jset g v j) = (if f = g then Some v else jget f j)"
  by (auto simp: is_obj_def jget_def jset_def update_conv')

lemma dec_jset_other:
  "is_obj j \<Longrightarrow> f \<noteq> g \<Longrightarrow> dec_str f (jset g v j) = dec_str f j"
  "is_obj j \<Longrightarrow> f \<noteq> g \<Longrightarrow> dec_time f (jset g v j) = dec_time f j"
  "is_obj j \<Longrightarrow> f \<noteq> g \<Longrightarrow> dec_bool f (jset g v j) = dec_bool f j"
  by (simp_all add: dec_str_def dec_time_def dec_bool_def jget_jset)

lemma dec_jset_same:
  "is_obj j \<Longrightarrow> dec_str f (jset f (JStr x) j) = Some x"
  "is_obj j \<Longrightarrow> dec_time f (jset f (JTime t) j) = Some t"
  "is_obj j \<Longrightarrow> dec_bool f (jset f (JBool b) j) = Some b"
  by (simp_all add: dec_str_def dec_time_def dec_bool_def jget_jset)

lemma dec_upload_iff:
  "dec_upload j = Some s \<longleftrightarrow>
     dec_str ''streamId'' j = Some (us_StreamID s) \<and> dec_str ''candidateId'' j = Some (us_CandidateID s)
     \<and> dec_str ''sessionId'' j = Some (us_SessionID s) \<and> dec_str ''scheduleId'' j = Some (us_ScheduleID s)
     \<and> dec_str ''streamType'' j = Some (us_StreamType s) \<and> dec_time ''createdAt'' j = Some (us_CreatedAt s)
     \<and> dec_time ''expiresAt'' j = Some (us_ExpiresAt s) \<and> dec_bool ''completed'' j = Some (us_Completed s)
     \<and> dec_str ''uploadTokenHash'' j = Some (us_UploadTokenHash s)
     \<and> dec_str ''stopReason'' j = Some (us_StopReason s)"
  by (auto simp: dec_upload_def bind_eq_Some_conv)

definition doc_of :: "UploadSession \<Rightarrow> json \<Rightarrow> bool" where
  "doc_of s j \<longleftrightarrow> is_obj j \<and> dec_upload j = Some s \<and> lua_true ''completed'' j = us_Completed s
     \<and> lua_empty ''stopReason'' j = (us_StopReason s = [])"

lemma doc_of_enc: "doc_of s (enc_upload s)"
  by (cases "us_StopReason s = []")
     (simp_all add: doc_of_def is_obj_def enc_upload_def dec_upload_iff dec_defs lua_true_def lua_empty_def)

lemma doc_of_refresh:
  assumes "doc_of s j"
  shows "doc_of (s\<lparr>us_UploadTokenHash := h, us_ExpiresAt := t\<rparr>)
    (jset ''expiresAt'' (JTime t) (jset ''uploadTokenHash'' (JStr h) j))"
  using assms
  by (simp add: doc_of_def dec_upload_iff dec_jset_other dec_jset_same lua_true_def lua_empty_def jget_jset)

definition completed_with :: "string \<Rightarrow> UploadSession \<Rightarrow> UploadSession" where
  "completed_with r s = s\<lparr>us_Completed := True,
     us_StopReason := (if r \<noteq> [] \<and> us_StopReason s = [] then r else us_StopReason s)\<rparr>"

lemma doc_of_complete:
  assumes "doc_of s j"
  shows "doc_of (completed_with r s)
     (jset ''completed'' (JBool True)
        (if r \<noteq> [] \<and> lua_empty ''stopReason'' j then jset ''stopReason'' (JStr r) j else j))"
  using assms
  by (auto simp: doc_of_def completed_with_def dec_upload_iff dec_jset_other dec_jset_same lua_true_def
      lua_empty_def jget_jset)

section \<open>One active upload per candidate, exam and stream type\<close>

text \<open>The session held under a stream id, and the stream the index points to.\<close>

definition holds :: "keyspace \<Rightarrow> UploadSession \<Rightarrow> bool" where
  "holds ks s \<longleftrightarrow> (\<exists>j t. ks (uploadSessionKey (us_StreamID s)) = Some (RString (Doc j), t) \<and> doc_of s j)"

definition indexed :: "keyspace \<Rightarrow> UploadSession \<Rightarrow> string \<Rightarrow> bool" where
  "indexed ks s sid \<longleftrightarrow> (\<exists>t. ks (uploadSessionIndexKey s) = Some (RString (Txt (uploadSessionKey sid)), t))"

lemma exec_get:
  assumes "redis_conforms exec view" and "exec (GET k) w = (r, w1)" and "r \<noteq> Err"
  shows "view w1 = view w" and "view w k = None \<Longrightarrow> r = Nil"
    and "view w k = Some (RString v, t) \<Longrightarrow> r = Val v"
  using conformsD [OF assms] by simp_all

lemma exec_set:
  assumes "redis_conforms exec view" and "exec (SET k v t) w = (r, w1)" and "r \<noteq> Err"
  shows "view w1 = (view w)(k \<mapsto> (RString v, life t k (view w)))"
  using conformsD [OF assms] by simp

lemma register_fresh_spec:
  assumes "redis_conforms exec view"
    and "register_fresh exec (uploadSessionIndexKey s) (uploadSessionKey (us_StreamID s)) (enc_upload s) px w = (Some j, w1)"
  shows "j = enc_upload s \<and> holds (view w1) s \<and> indexed (view w1) s (us_StreamID s)"
proof -
  let ?k1 = "uploadSessionIndexKey s" and ?k2 = "uploadSessionKey (us_StreamID s)"
  obtain r1 u1 r2 u2 where e: "exec (SET ?k2 (Doc (enc_upload s)) (TTL px)) w = (r1, u1)"
      "exec (SET ?k1 (Txt ?k2) (TTL px)) u1 = (r2, u2)" by (metis surj_pair)
  with assms(2) have ok: "r1 \<noteq> Err" "r2 \<noteq> Err" "w1 = u2" "j = enc_upload s"
    by (auto simp: register_fresh_def split: reply.splits)
  from exec_set [OF assms(1) e(1) ok(1)] exec_set [OF assms(1) e(2) ok(2)]
  show ?thesis using ok doc_of_enc by (auto simp: holds_def indexed_def)
qed

text \<open>What a successful registration leaves behind, by what the index pointed to before.\<close>

lemma register_spec:
  assumes "redis_conforms exec view" and "RegisterOrGetUpload exec now s w = (Inr (r, fresh), w1)"
  shows "(view w (uploadSessionIndexKey s) = None \<longrightarrow>
            r = s \<and> fresh \<and> holds (view w1) s \<and> indexed (view w1) s (us_StreamID s))
    \<and> (\<forall>a. indexed (view w) s (us_StreamID a) \<and> holds (view w) a \<longrightarrow>
          (if us_Completed a
           then r = s \<and> fresh \<and> holds (view w1) s \<and> indexed (view w1) s (us_StreamID s)
           else r = a\<lparr>us_UploadTokenHash := us_UploadTokenHash s, us_ExpiresAt := us_ExpiresAt s\<rparr>
              \<and> fresh = (us_StreamID a = us_StreamID s) \<and> holds (view w1) r \<and> indexed (view w1) s (us_StreamID a)))"
proof -
  let ?k1 = "uploadSessionIndexKey s" and ?k2 = "uploadSessionKey (us_StreamID s)"
  let ?px = "time_sub (us_ExpiresAt s) now div millisecond * millisecond"
  have dec: "dec_upload (enc_upload s) = Some s" using doc_of_enc by (simp add: doc_of_def)
  obtain j where sc: "registerUploadScript exec ?k1 ?k2 (enc_upload s) ?px w = (Some j, w1)"
      "dec_upload j = Some r" "fresh = (us_StreamID r = us_StreamID s)"
    using assms(2) by (auto simp: RegisterOrGetUpload_def Let_def split: if_splits prod.splits option.splits)
  obtain r1 u1 where g1: "exec (GET ?k1) w = (r1, u1)" by fastforce
  have n1: "r1 \<noteq> Err" using sc(1) g1 by (auto simp: registerUploadScript_def)
  note v1 = exec_get [OF assms(1) g1 n1]
  have fr: "r = s \<and> fresh \<and> holds (view w1) s \<and> indexed (view w1) s (us_StreamID s)"
    if "register_fresh exec ?k1 ?k2 (enc_upload s) ?px u = (Some j, w1)" for u
    using register_fresh_spec [OF assms(1) that] sc dec by auto
  have first: "r = s \<and> fresh \<and> holds (view w1) s \<and> indexed (view w1) s (us_StreamID s)"
    if "view w ?k1 = None"
    using v1(2) [OF that] sc(1) g1 by (intro fr [of u1]) (simp add: registerUploadScript_def)
  moreover have "if us_Completed a
           then r = s \<and> fresh \<and> holds (view w1) s \<and> indexed (view w1) s (us_StreamID s)
           else r = a\<lparr>us_UploadTokenHash := us_UploadTokenHash s, us_ExpiresAt := us_ExpiresAt s\<rparr>
              \<and> fresh = (us_StreamID a = us_StreamID s) \<and> holds (view w1) r \<and> indexed (view w1) s (us_StreamID a)"
    if ix: "indexed (view w) s (us_StreamID a)" and ho: "holds (view w) a" for a
  proof -
    let ?ka = "uploadSessionKey (us_StreamID a)"
    have r1: "r1 = Val (Txt ?ka)" using ix v1(3) by (auto simp: indexed_def)
    obtain ja t where ja: "view w ?ka = Some (RString (Doc ja), t)" "doc_of a ja"
      using ho by (auto simp: holds_def)
    obtain r2 u2 where g2: "exec (GET ?ka) u1 = (r2, u2)" by fastforce
    have n2: "r2 \<noteq> Err" using sc(1) g1 g2 r1 by (auto simp: registerUploadScript_def)
    have r2: "r2 = Val (Doc ja)" "view u2 = view w"
      using exec_get [OF assms(1) g2 n2] ja(1) v1(1) by auto
    have lt: "lua_true ''completed'' ja = us_Completed a" using ja(2) by (simp add: doc_of_def)
    show ?thesis
    proof (cases "us_Completed a")
      case True
      then have "register_replace exec ?k1 ?k2 (enc_upload s) ?px u2 = (Some j, w1)"
        using sc(1) g1 g2 r1 r2 lt by (simp add: registerUploadScript_def)
      then obtain u3 where "register_fresh exec ?k1 ?k2 (enc_upload s) ?px u3 = (Some j, w1)"
        by (auto simp: register_replace_def split: prod.splits reply.splits)
      from fr [OF this] True show ?thesis by simp
    next
      case False
      let ?ref = "jset ''expiresAt'' (JTime (us_ExpiresAt s)) (jset ''uploadTokenHash'' (JStr (us_UploadTokenHash s)) ja)"
      have arg: "jget0 ''expiresAt'' (enc_upload s) = JTime (us_ExpiresAt s)"
        "jget0 ''uploadTokenHash'' (enc_upload s) = JStr (us_UploadTokenHash s)"
        by (simp_all add: jget0_def jget_def enc_upload_def)
      obtain r3 u3 r4 u4 where e: "exec (SET ?ka (Doc ?ref) (TTL ?px)) u2 = (r3, u3)"
          "exec (SET ?k1 (Txt ?ka) (TTL ?px)) u3 = (r4, u4)" by (metis surj_pair)
      have ok: "r3 \<noteq> Err" "r4 \<noteq> Err" "w1 = u4" "j = ?ref"
        using sc(1) g1 g2 r1 r2 lt False e
        by (auto simp: registerUploadScript_def arg Let_def split: reply.splits)
      note d = doc_of_refresh [OF ja(2), where h = "us_UploadTokenHash s" and t = "us_ExpiresAt s"]
      have r: "r = a\<lparr>us_UploadTokenHash := us_UploadTokenHash s, us_ExpiresAt := us_ExpiresAt s\<rparr>"
        using sc(2) d ok(4) by (simp add: doc_of_def)
      from exec_set [OF assms(1) e(1) ok(1)] exec_set [OF assms(1) e(2) ok(2)] d ok(3) r sc(3) False
      show ?thesis by (auto simp: holds_def indexed_def)
    qed
  qed
  ultimately show ?thesis by blast
qed

lemma complete_spec:
  assumes "redis_conforms exec view" and "holds (view w) s"
    and "MarkUploadComplete exec (us_StreamID s) reason w = (Inr first, w1)"
  shows "first = (\<not> us_Completed s) \<and> holds (view w1) (completed_with reason s)
    \<and> (\<forall>x sid. indexed (view w) x sid \<longrightarrow> indexed (view w1) x sid)"
proof -
  let ?k = "uploadSessionKey (us_StreamID s)"
  obtain j t where j: "view w ?k = Some (RString (Doc j), t)" "doc_of s j" using assms(2) by (auto simp: holds_def)
  obtain r1 u1 where g: "exec (GET ?k) w = (r1, u1)" by fastforce
  have n: "r1 \<noteq> Err" using assms(3) g by (auto simp: MarkUploadComplete_def markUploadCompleteScript_def)
  have r1: "r1 = Val (Doc j)" "view u1 = view w" using exec_get [OF assms(1) g n] j(1) by auto
  let ?new = "jset ''completed'' (JBool True)
        (if reason \<noteq> [] \<and> lua_empty ''stopReason'' j then jset ''stopReason'' (JStr reason) j else j)"
  obtain r2 u2 where e: "exec (SET ?k (Doc ?new) KeepTTL) u1 = (r2, u2)" by fastforce
  have ok: "r2 \<noteq> Err" "w1 = u2" "first = (\<not> lua_true ''completed'' j)"
    using assms(3) g r1(1) e
    by (auto simp: MarkUploadComplete_def markUploadCompleteScript_def Let_def split: reply.splits if_splits)
  have "us_StreamID (completed_with reason s) = us_StreamID s" by (simp add: completed_with_def)
  with exec_set [OF assms(1) e ok(1)] doc_of_complete [OF j(2), of reason] ok r1(2) j(2)
  show ?thesis by (auto simp: holds_def indexed_def doc_of_def)
qed

text \<open>
  C34.  One active upload stream per candidate, exam session and stream type: after a first
  successful registration, registering again under the same index resumes the same stream with the
  new token and expiry (all else unchanged) as long as it is not completed, and after
  \<open>MarkUploadComplete\<close> starts the new stream; the first reported stop reason is the one kept.
\<close>

theorem upload_session_lifecycle:
  assumes "redis_conforms exec view" and "view w (uploadSessionIndexKey a) = None"
    and "uploadSessionIndexKey b = uploadSessionIndexKey a" and "uploadSessionIndexKey c = uploadSessionIndexKey a"
    and "us_StreamID b \<noteq> us_StreamID a" and "us_Completed a = False"
    and "RegisterOrGetUpload exec t1 a w = (Inr (ra, fa), w1)"
    and "RegisterOrGetUpload exec t2 b w1 = (Inr (rb, fb), w2)"
    and "MarkUploadComplete exec (us_StreamID a) r1 w2 = (Inr m1, w3)"
    and "MarkUploadComplete exec (us_StreamID a) r2 w3 = (Inr m2, w4)"
    and "RegisterOrGetUpload exec t3 c w4 = (Inr (rc, fc), w5)"
  shows "ra = a \<and> fa
    \<and> rb = a\<lparr>us_UploadTokenHash := us_UploadTokenHash b, us_ExpiresAt := us_ExpiresAt b\<rparr> \<and> \<not> fb
    \<and> m1 \<and> \<not> m2
    \<and> holds (view w4) (completed_with r2 (completed_with r1 rb))
    \<and> rc = c \<and> fc"
proof -
  have ix: "indexed ks a x = indexed ks b x" "indexed ks a x = indexed ks c x" for ks x
    using assms(3,4) by (simp_all add: indexed_def)
  from register_spec [OF assms(1,7)] assms(2) have A: "ra = a" "fa" "holds (view w1) a" "indexed (view w1) a (us_StreamID a)"
    by auto
  from register_spec [OF assms(1,8)] A(3,4) ix(1) assms(5,6)
  have B: "rb = a\<lparr>us_UploadTokenHash := us_UploadTokenHash b, us_ExpiresAt := us_ExpiresAt b\<rparr>" "\<not> fb"
      "holds (view w2) rb" "indexed (view w2) a (us_StreamID a)"
    by (metis (full_types))+
  have ids: "us_StreamID rb = us_StreamID a" "us_Completed rb = False" using B(1) assms(6) by simp_all
  from complete_spec [OF assms(1) B(3)] assms(9) ids B(4)
  have M1: "m1" "holds (view w3) (completed_with r1 rb)" "indexed (view w3) a (us_StreamID a)" by auto
  have ids1: "us_StreamID (completed_with r1 rb) = us_StreamID a" "us_Completed (completed_with r1 rb)"
    using ids by (simp_all add: completed_with_def)
  from complete_spec [OF assms(1) M1(2)] assms(10) ids1 M1(3)
  have M2: "\<not> m2" "holds (view w4) (completed_with r2 (completed_with r1 rb))" "indexed (view w4) a (us_StreamID a)" by auto
  have ids2: "us_StreamID (completed_with r2 (completed_with r1 rb)) = us_StreamID a"
      "us_Completed (completed_with r2 (completed_with r1 rb))"
    using ids by (simp_all add: completed_with_def)
  have "indexed (view w4) c (us_StreamID (completed_with r2 (completed_with r1 rb)))"
    using M2(3) ix(2) ids2(1) by simp
  with register_spec [OF assms(1,11)] M2(2) ids2(2) have "rc = c \<and> fc" by (metis (full_types))
  with A B M1 M2 show ?thesis by blast
qed

lemma mem_register_total:
  assumes "0 < time_sub (us_ExpiresAt s) now"
    and "ks (uploadSessionIndexKey s) = None \<or> (\<exists>a. indexed ks s (us_StreamID a) \<and> holds ks a)"
  shows "\<exists>r f w1. RegisterOrGetUpload mem_exec now s ks = (Inr (r, f), w1)"
proof -
  have fresh: "\<exists>w1. register_fresh mem_exec k1 k2 j px u = (Some j, w1)" for k1 k2 j px u
    by (simp add: register_fresh_def mem_exec_def)
  have rep: "\<exists>w1. register_replace mem_exec k1 k2 j px u = (Some j, w1)" for k1 k2 j px u
    using fresh by (simp add: register_replace_def mem_exec_def)
  have dec: "dec_upload (enc_upload s) = Some s" using doc_of_enc by (simp add: doc_of_def)
  let ?sc = "registerUploadScript mem_exec (uploadSessionIndexKey s) (uploadSessionKey (us_StreamID s)) (enc_upload s)
      (time_sub (us_ExpiresAt s) now div millisecond * millisecond) ks"
  have "\<exists>j w1. ?sc = (Some j, w1) \<and> dec_upload j \<noteq> None"
    using assms(2)
  proof
    assume "ks (uploadSessionIndexKey s) = None"
    then show ?thesis using fresh dec by (simp add: registerUploadScript_def mem_exec_def) metis
  next
    assume "\<exists>a. indexed ks s (us_StreamID a) \<and> holds ks a"
    then obtain a ja t1 t2 where a: "ks (uploadSessionIndexKey s) = Some (RString (Txt (uploadSessionKey (us_StreamID a))), t1)"
        "ks (uploadSessionKey (us_StreamID a)) = Some (RString (Doc ja), t2)" "doc_of a ja"
      by (auto simp: indexed_def holds_def)
    show ?thesis
    proof (cases "us_Completed a")
      case True
      then have "lua_true ''completed'' ja" using a(3) by (simp add: doc_of_def)
      then have "?sc = register_replace mem_exec (uploadSessionIndexKey s) (uploadSessionKey (us_StreamID s)) (enc_upload s)
          (time_sub (us_ExpiresAt s) now div millisecond * millisecond) ks"
        using a(1,2) by (simp add: registerUploadScript_def mem_exec_def)
      then show ?thesis using rep dec by fastforce
    next
      case False
      have arg: "jget0 ''expiresAt'' (enc_upload s) = JTime (us_ExpiresAt s)"
        "jget0 ''uploadTokenHash'' (enc_upload s) = JStr (us_UploadTokenHash s)"
        by (simp_all add: jget0_def jget_def enc_upload_def)
      have "\<not> lua_true ''completed'' ja" using a(3) False by (simp add: doc_of_def)
      moreover have "dec_upload (jset ''expiresAt'' (JTime (us_ExpiresAt s))
          (jset ''uploadTokenHash'' (JStr (us_UploadTokenHash s)) ja)) \<noteq> None"
        using doc_of_refresh [OF a(3)] by (simp add: doc_of_def)
      ultimately show ?thesis using a(1,2)
        by (simp add: registerUploadScript_def mem_exec_def arg Let_def)
    qed
  qed
  then show ?thesis using assms(1) by (auto simp: RegisterOrGetUpload_def Let_def)
qed

lemma mem_complete_total:
  "holds ks s \<Longrightarrow> \<exists>f w1. MarkUploadComplete mem_exec (us_StreamID s) reason ks = (Inr f, w1)"
  by (auto simp: holds_def MarkUploadComplete_def markUploadCompleteScript_def mem_exec_def Let_def)

definition demo_upload :: "string \<Rightarrow> UploadSession" where
  "demo_upload sid = \<lparr>us_StreamID = sid, us_CandidateID = ''c'', us_SessionID = ''e'', us_ScheduleID = ''x'',
     us_StreamType = ''camera'', us_CreatedAt = 0, us_ExpiresAt = 100 * second, us_Completed = False,
     us_UploadTokenHash = sid, us_StopReason = []\<rparr>"

lemma upload_session_lifecycle_witness:
  "\<exists>w4 w5 rc. RegisterOrGetUpload mem_exec 3 (demo_upload ''c'') w4 = (Inr (demo_upload ''c'', True), w5)
     \<and> holds w4 ((demo_upload ''a'')\<lparr>us_UploadTokenHash := ''b'', us_Completed := True, us_StopReason := ''done''\<rparr>)"
proof -
  let ?a = "demo_upload ''a''" and ?b = "demo_upload ''b''" and ?c = "demo_upload ''c''"
  have live: "0 < time_sub (us_ExpiresAt (demo_upload x)) t" if "t < 4" for x t
    using that by (simp add: demo_upload_def time_sub_pos_iff second_def)
  have key: "uploadSessionIndexKey (demo_upload x) = uploadSessionIndexKey ?a" for x
    by (simp add: demo_upload_def uploadSessionIndexKey_def)
  have ix: "indexed ks ?b y = indexed ks ?a y" "indexed ks ?c y = indexed ks ?a y" for ks y
    unfolding indexed_def using key [of "''b''"] key [of "''c''"] by simp_all
  note S = register_spec [OF mem_conforms, simplified] and C = complete_spec [OF mem_conforms, simplified]
  obtain ra fa w1 where A: "RegisterOrGetUpload mem_exec 1 ?a Map.empty = (Inr (ra, fa), w1)"
    using mem_register_total [OF live [of 1 "''a''"], where ks = Map.empty] by auto
  have A1: "holds w1 ?a" "indexed w1 ?a (us_StreamID ?a)" using S [OF A] by simp_all
  obtain rb fb w2 where B: "RegisterOrGetUpload mem_exec 2 ?b w1 = (Inr (rb, fb), w2)"
  proof -
    have "indexed w1 ?b (us_StreamID ?a)" using A1(2) ix by simp
    then have "\<exists>r f u. RegisterOrGetUpload mem_exec 2 ?b w1 = (Inr (r, f), u)"
      using A1(1) by (intro mem_register_total live) auto
    then show thesis using that by blast
  qed
  have nc: "us_Completed ?a = False" by (simp add: demo_upload_def)
  have B0: "rb = ?a\<lparr>us_UploadTokenHash := us_UploadTokenHash ?b, us_ExpiresAt := us_ExpiresAt ?b\<rparr>
      \<and> fb = (us_StreamID ?a = us_StreamID ?b) \<and> holds w2 rb \<and> indexed w2 ?a (us_StreamID ?a)"
    using mp [OF spec [OF conjunct2 [OF register_spec [OF mem_conforms B]], of ?a,
        unfolded ix(1) nc if_False id_apply]] A1 by blast
  have B1: "rb = ?a\<lparr>us_UploadTokenHash := us_UploadTokenHash ?b, us_ExpiresAt := us_ExpiresAt ?b\<rparr>"
      "holds w2 rb" "indexed w2 ?a (us_StreamID ?a)"
    using B0 by blast+
  have id: "us_StreamID rb = us_StreamID ?a" using B1(1) by simp
  obtain m1 w3 where M: "MarkUploadComplete mem_exec (us_StreamID ?a) ''done'' w2 = (Inr m1, w3)"
    using mem_complete_total [OF B1(2)] id by metis
  have M1: "holds w3 (completed_with ''done'' rb)" "indexed w3 ?a (us_StreamID ?a)"
    using C [OF B1(2), unfolded id, OF M] B1(3) by auto
  have id1: "us_StreamID (completed_with ''done'' rb) = us_StreamID ?a" using id by (simp add: completed_with_def)
  obtain m2 w4 where N: "MarkUploadComplete mem_exec (us_StreamID ?a) ''crash'' w3 = (Inr m2, w4)"
    using mem_complete_total [OF M1(1)] id1 by metis
  have N1: "holds w4 (completed_with ''crash'' (completed_with ''done'' rb))" "indexed w4 ?a (us_StreamID ?a)"
    using C [OF M1(1), unfolded id1, OF N] M1(2) by auto
  have id2: "us_StreamID (completed_with ''crash'' (completed_with ''done'' rb)) = us_StreamID ?a"
    using id1 by (simp add: completed_with_def)
  obtain rc fc w5 where D: "RegisterOrGetUpload mem_exec 3 ?c w4 = (Inr (rc, fc), w5)"
  proof -
    have "indexed w4 ?c (us_StreamID (completed_with ''crash'' (completed_with ''done'' rb)))"
      using N1(2) id2 ix by simp
    then have "\<exists>r f u. RegisterOrGetUpload mem_exec 3 ?c w4 = (Inr (r, f), u)"
      using N1(1) by (intro mem_register_total live) auto
    then show thesis using that by blast
  qed
  have ne: "us_StreamID ?b \<noteq> us_StreamID ?a" by (simp add: demo_upload_def)
  have em: "id Map.empty (uploadSessionIndexKey ?a) = None" by simp
  note L = upload_session_lifecycle [OF mem_conforms em key key ne nc A B M N D]
  then have "rc = ?c" "fc" by blast+
  moreover have "completed_with ''crash'' (completed_with ''done'' rb)
      = ?a\<lparr>us_UploadTokenHash := ''b'', us_Completed := True, us_StopReason := ''done''\<rparr>"
    using B1(1) by (simp add: completed_with_def demo_upload_def)
  ultimately show ?thesis using D N1(1) by auto
qed

end
