(* ===== verification/Quality.thy ===== *)
theory Quality
  imports Media Sessions
begin

text \<open>
  The quality checks of \<open>internal/usecase/assembler_usecase.go\<close>: \<open>inspectRecording\<close> with its frame
  and window checks, and the stored report.  Floats as in \<open>Media\<close>; products and quotients of
  floats are exact, and converting a float outside \<open>int64\<close> to a duration gives the smallest
  duration, as on amd64.  What the code logs at warn and error level is returned as a list.
\<close>

section \<open>Data\<close>

record RecordingQuality =
  q_Probed :: bool
  q_DurationSecs :: float64
  q_HasVideo :: bool
  q_HasAudio :: bool
  q_AudioMeasured :: bool
  q_AudioPeakDBFS :: float64
  q_AudioMeanDBFS :: float64
  q_Silent :: bool
  q_FramesCompared :: bool
  q_DeclaredFrames :: int
  q_ActualPackets :: int
  q_WindowKnown :: bool
  q_WindowSecs :: float64
  q_OverrunsWindow :: bool

definition no_quality :: RecordingQuality where
  "no_quality = \<lparr>q_Probed = False, q_DurationSecs = Fin 0, q_HasVideo = False, q_HasAudio = False,
     q_AudioMeasured = False, q_AudioPeakDBFS = Fin 0, q_AudioMeanDBFS = Fin 0, q_Silent = False,
     q_FramesCompared = False, q_DeclaredFrames = 0, q_ActualPackets = 0,
     q_WindowKnown = False, q_WindowSecs = Fin 0, q_OverrunsWindow = False\<rparr>"

datatype qualityLog = WarnProbe | WarnNoVideo | WarnNoDuration | WarnPacketCount | WarnShortfall int int
  | WarnOverrun | ErrorNoAudio | WarnLevel | ErrorSilent

section \<open>The checks\<close>

definition frameShortfallTolerance :: rat where "frameShortfallTolerance = 1 / 10"
definition durationOverrunGrace :: duration where "durationOverrunGrace = 60 * second"
definition durationUnderrunNotice :: rat where "durationUnderrunNotice = 1 / 2"

definition checkFrameCount :: "(string list \<Rightarrow> 'o \<Rightarrow> (string + json option) \<times> 'o) \<Rightarrow> string \<Rightarrow> StreamCoverage
    \<Rightarrow> RecordingQuality \<Rightarrow> 'o \<Rightarrow> (RecordingQuality \<times> qualityLog list) \<times> 'o" where
  "checkFrameCount ffprobe path coverage quality w =
     (if DeclaredFrames coverage \<le> 0 then ((quality, []), w)
      else (case CountPackets ffprobe path w of
        (Inl _, w1) \<Rightarrow> ((quality, [WarnPacketCount]), w1)
      | (Inr packets, w1) \<Rightarrow>
          (let q1 = quality\<lparr>q_FramesCompared := True, q_DeclaredFrames := DeclaredFrames coverage,
                            q_ActualPackets := packets\<rparr>;
               shortfall = rat_of_int (DeclaredFrames coverage - packets) / rat_of_int (DeclaredFrames coverage)
           in ((q1, if frameShortfallTolerance < shortfall
                    then [WarnShortfall (DeclaredFrames coverage) packets] else []), w1))))"

text \<open>\<open>time.Duration(secs * float64(time.Second))\<close>.\<close>

definition to_duration :: "float64 \<Rightarrow> duration" where
  "to_duration f = (case f of
     Fin r \<Rightarrow> (let x = r * of_int second; v = (if x < 0 then - \<lfloor>- x\<rfloor> else \<lfloor>x\<rfloor>)
              in if min_dur \<le> v \<and> v \<le> max_dur then v else min_dur)
   | _ \<Rightarrow> min_dur)"

definition secs_of :: "duration \<Rightarrow> float64" where "secs_of d = Fin (of_int d / of_int second)"

definition checkDurationWindow :: "UploadSession option \<Rightarrow> RecordingQuality \<Rightarrow> RecordingQuality \<times> qualityLog list" where
  "checkDurationWindow session quality =
     (case session of None \<Rightarrow> (quality, [])
      | Some s \<Rightarrow>
          if us_CreatedAt s = zero_time \<or> us_ExpiresAt s = zero_time then (quality, [])
          else let window = time_sub (us_ExpiresAt s) (us_CreatedAt s) in
            if window \<le> 0 then (quality, [])
            else let q1 = quality\<lparr>q_WindowKnown := True, q_WindowSecs := secs_of window\<rparr>;
                     recorded = to_duration (q_DurationSecs quality)
              in if window + durationOverrunGrace < recorded
                 then (q1\<lparr>q_OverrunsWindow := True\<rparr>, [WarnOverrun]) else (q1, []))"

text \<open>The audio part of \<open>inspectRecording\<close>.\<close>

definition inspectAudio :: "(string list \<Rightarrow> 'o \<Rightarrow> (string + string) \<times> 'o) \<Rightarrow> string \<Rightarrow> bool
    \<Rightarrow> RecordingQuality \<Rightarrow> 'o \<Rightarrow> (RecordingQuality \<times> qualityLog list) \<times> 'o" where
  "inspectAudio volume path present quality w =
     (if \<not> present then ((quality, [ErrorNoAudio]), w)
      else (case MeasureAudioLevel volume path w of
        (Inl _, w1) \<Rightarrow> ((quality, [WarnLevel]), w1)
      | (Inr level, w1) \<Rightarrow>
          (let q1 = quality\<lparr>q_AudioMeasured := True, q_AudioPeakDBFS := PeakDBFS level,
                            q_AudioMeanDBFS := MeanDBFS level, q_Silent := Silent level\<rparr>
           in ((q1, if Silent level then [ErrorSilent] else []), w1))))"

definition inspectRecording :: "(string list \<Rightarrow> 'o \<Rightarrow> (string + json option) \<times> 'o)
    \<Rightarrow> (string list \<Rightarrow> 'o \<Rightarrow> (string + string) \<times> 'o) \<Rightarrow> string \<Rightarrow> StreamCoverage \<Rightarrow> UploadSession option
    \<Rightarrow> 'o \<Rightarrow> (RecordingQuality \<times> qualityLog list) \<times> 'o" where
  "inspectRecording ffprobe volume path coverage session w =
     (case Probe ffprobe path w of
        (Inl _, w1) \<Rightarrow> ((no_quality, [WarnProbe]), w1)
      | (Inr report, w1) \<Rightarrow>
          (let q0 = no_quality\<lparr>q_Probed := True, q_DurationSecs := pr_DurationSecs report,
                 q_HasVideo := v_Present (pr_Video report), q_HasAudio := a_Present (pr_Audio report)\<rparr>;
               l0 = (if \<not> v_Present (pr_Video report) then [WarnNoVideo] else [])
                    @ (if fle (pr_DurationSecs report) (Fin 0) then [WarnNoDuration] else []);
               ((q1, l1), w2) = checkFrameCount ffprobe path coverage q0 w1;
               (q2, l2) = checkDurationWindow session q1;
               ((q3, l3), w3) = inspectAudio volume path (a_Present (pr_Audio report)) q2 w2
           in ((q3, l0 @ l1 @ l2 @ l3), w3)))"

section \<open>The stored report\<close>

record RecordingAssemblyRequestedEvent =
  rq_EventID :: string
  rq_StreamID :: string
  rq_ScheduleID :: string
  rq_SessionID :: string
  rq_ParticipantID :: string
  rq_StreamType :: string
  rq_Source :: string
  rq_RequestedAt :: instant

record RecordingQualityReport =
  r_SchemaVersion :: int
  r_MeasuredAt :: instant
  r_StreamID :: string
  r_ScheduleID :: string
  r_SessionID :: string
  r_StreamType :: string
  r_Source :: string
  r_RecordingKey :: string
  r_StopReason :: string
  r_Probed :: bool
  r_DurationSecs :: "float64 option"
  r_HasVideo :: bool
  r_HasAudio :: bool
  r_AudioMeasured :: bool
  r_AudioPeakDBFS :: "float64 option"
  r_AudioMeanDBFS :: "float64 option"
  r_Silent :: bool
  r_SilenceThresholdDBFS :: float64
  r_FramesCompared :: bool
  r_DeclaredFrames :: int
  r_ActualPackets :: int
  r_WindowKnown :: bool
  r_WindowSecs :: "float64 option"
  r_OverrunsWindow :: bool
  r_Coverage :: StreamCoverage

definition qualityReportSchemaVersion :: int where "qualityReportSchemaVersion = 1"

definition jsonFloat :: "float64 \<Rightarrow> float64 option" where
  "jsonFloat v = (case v of PosInf \<Rightarrow> None | NegInf \<Rightarrow> None | NaN \<Rightarrow> None | Fin _ \<Rightarrow> Some v)"

definition newQualityReport :: "RecordingAssemblyRequestedEvent \<Rightarrow> string \<Rightarrow> RecordingQuality \<Rightarrow> StreamCoverage
    \<Rightarrow> UploadSession option \<Rightarrow> instant \<Rightarrow> RecordingQualityReport" where
  "newQualityReport event recordingKey quality coverage session measuredAt =
     \<lparr>r_SchemaVersion = qualityReportSchemaVersion, r_MeasuredAt = measuredAt,
      r_StreamID = rq_StreamID event, r_ScheduleID = rq_ScheduleID event, r_SessionID = rq_SessionID event,
      r_StreamType = rq_StreamType event, r_Source = rq_Source event, r_RecordingKey = recordingKey,
      r_StopReason = (case session of None \<Rightarrow> [] | Some s \<Rightarrow> us_StopReason s),
      r_Probed = q_Probed quality,
      r_DurationSecs = (if q_Probed quality then jsonFloat (q_DurationSecs quality) else None),
      r_HasVideo = q_HasVideo quality, r_HasAudio = q_HasAudio quality,
      r_AudioMeasured = q_AudioMeasured quality,
      r_AudioPeakDBFS = (if q_AudioMeasured quality then jsonFloat (q_AudioPeakDBFS quality) else None),
      r_AudioMeanDBFS = (if q_AudioMeasured quality then jsonFloat (q_AudioMeanDBFS quality) else None),
      r_Silent = q_Silent quality, r_SilenceThresholdDBFS = SilentPeakDBFS,
      r_FramesCompared = q_FramesCompared quality, r_DeclaredFrames = q_DeclaredFrames quality,
      r_ActualPackets = q_ActualPackets quality,
      r_WindowKnown = q_WindowKnown quality,
      r_WindowSecs = (if q_WindowKnown quality then jsonFloat (q_WindowSecs quality) else None),
      r_OverrunsWindow = q_OverrunsWindow quality, r_Coverage = coverage\<rparr>"

text \<open>\<open>encoding/json\<close> refuses a document with an infinity or NaN in it.\<close>

definition is_finite :: "float64 \<Rightarrow> bool" where
  "is_finite v = (case v of Fin _ \<Rightarrow> True | _ \<Rightarrow> False)"

definition encodable :: "RecordingQualityReport \<Rightarrow> bool" where
  "encodable r \<longleftrightarrow> list_all (\<lambda>v. case v of None \<Rightarrow> True | Some x \<Rightarrow> is_finite x)
     [r_DurationSecs r, r_AudioPeakDBFS r, r_AudioMeanDBFS r, r_WindowSecs r, Some (r_SilenceThresholdDBFS r)]"

lemma encodable_report: "encodable (newQualityReport event key quality coverage session t)"
  by (simp add: encodable_def newQualityReport_def jsonFloat_def is_finite_def SilentPeakDBFS_def
      split: float64.splits)

section \<open>What the verdicts mean\<close>

lemma checkFrameCount_spec:
  assumes "checkFrameCount ffprobe path coverage quality w = ((q, l), w1)"
  shows "q_Probed q = q_Probed quality" "q_DurationSecs q = q_DurationSecs quality"
    "q_HasVideo q = q_HasVideo quality" "q_HasAudio q = q_HasAudio quality"
    "q_AudioMeasured q = q_AudioMeasured quality" "q_Silent q = q_Silent quality"
    "q_WindowKnown q = q_WindowKnown quality" "q_OverrunsWindow q = q_OverrunsWindow quality"
    "ErrorNoAudio \<notin> set l" "ErrorSilent \<notin> set l" "WarnOverrun \<notin> set l" "WarnProbe \<notin> set l"
  using assms by (auto simp: checkFrameCount_def Let_def split: if_splits prod.splits sum.splits)

lemma checkDurationWindow_spec:
  assumes "checkDurationWindow session quality = (q, l)"
  shows "q_Probed q = q_Probed quality" "q_DurationSecs q = q_DurationSecs quality"
    "q_HasVideo q = q_HasVideo quality" "q_HasAudio q = q_HasAudio quality"
    "q_AudioMeasured q = q_AudioMeasured quality" "q_Silent q = q_Silent quality"
    "set l \<subseteq> {WarnOverrun}"
    "\<not> q_OverrunsWindow quality \<Longrightarrow> q_OverrunsWindow q \<longleftrightarrow> WarnOverrun \<in> set l"
    "\<not> q_OverrunsWindow quality \<Longrightarrow> q_OverrunsWindow q \<longleftrightarrow> (\<exists>s. session = Some s
       \<and> us_CreatedAt s \<noteq> zero_time \<and> us_ExpiresAt s \<noteq> zero_time \<and> us_CreatedAt s < us_ExpiresAt s
       \<and> time_sub (us_ExpiresAt s) (us_CreatedAt s) + durationOverrunGrace < to_duration (q_DurationSecs quality))"
  using assms time_sub_pos_iff [of "us_ExpiresAt (the session)" "us_CreatedAt (the session)"]
  by (auto simp: checkDurationWindow_def Let_def split: option.splits if_splits)

lemma inspectAudio_spec:
  assumes "inspectAudio volume path present quality w = ((q, l), w1)"
  shows "q_Probed q = q_Probed quality" "q_HasAudio q = q_HasAudio quality"
    "q_HasVideo q = q_HasVideo quality" "q_OverrunsWindow q = q_OverrunsWindow quality"
    "WarnOverrun \<notin> set l" "WarnProbe \<notin> set l"
    "ErrorNoAudio \<in> set l \<longleftrightarrow> \<not> present"
    "\<not> q_Silent quality \<Longrightarrow> q_Silent q \<longleftrightarrow> ErrorSilent \<in> set l"
    "\<not> q_AudioMeasured quality \<Longrightarrow> \<not> q_Silent quality \<Longrightarrow> q_Silent q \<longleftrightarrow> q_AudioMeasured q \<and> fle (q_AudioPeakDBFS q) SilentPeakDBFS"
    "q_AudioMeasured q \<Longrightarrow> \<not> q_AudioMeasured quality \<Longrightarrow> present"
  using assms by (auto simp: inspectAudio_def Let_def Silent_def split: if_splits prod.splits sum.splits)

text \<open>
  The verdicts of an inspected recording: a silence verdict is only given on a measured audio
  track, and exactly when its peak is at most the threshold; the two error-level logs are written
  exactly for a probed recording without audio and for a silent one; an overrun is reported exactly
  when the probed length exceeds a known upload window by more than a minute; a recording that
  could not be probed gets no verdict at all; and the report of it can always be stored, however
  infinite its levels are.
\<close>

theorem inspect_verdicts:
  "case inspectRecording ffprobe volume path coverage session w of ((q, l), w') \<Rightarrow>
     (q_Silent q \<longleftrightarrow> q_AudioMeasured q \<and> fle (q_AudioPeakDBFS q) SilentPeakDBFS)
   \<and> (q_AudioMeasured q \<longrightarrow> q_HasAudio q \<and> q_Probed q)
   \<and> (ErrorSilent \<in> set l \<longleftrightarrow> q_Silent q)
   \<and> (ErrorNoAudio \<in> set l \<longleftrightarrow> q_Probed q \<and> \<not> q_HasAudio q)
   \<and> (q_OverrunsWindow q \<longleftrightarrow> q_Probed q \<and> (\<exists>s. session = Some s
       \<and> us_CreatedAt s \<noteq> zero_time \<and> us_ExpiresAt s \<noteq> zero_time \<and> us_CreatedAt s < us_ExpiresAt s
       \<and> time_sub (us_ExpiresAt s) (us_CreatedAt s) + durationOverrunGrace < to_duration (q_DurationSecs q)))
   \<and> (\<not> q_Probed q \<longrightarrow> q = no_quality \<and> l = [WarnProbe])
   \<and> encodable (newQualityReport event key q coverage session t)"
proof (cases "Probe ffprobe path w")
  case (Pair r w1)
  show ?thesis
  proof (cases r)
    case (Inl e)
    then show ?thesis using Pair
      by (simp add: inspectRecording_def no_quality_def encodable_report)
  next
    case (Inr report)
    let ?q0 = "no_quality\<lparr>q_Probed := True, q_DurationSecs := pr_DurationSecs report,
       q_HasVideo := v_Present (pr_Video report), q_HasAudio := a_Present (pr_Audio report)\<rparr>"
    let ?l0 = "(if \<not> v_Present (pr_Video report) then [WarnNoVideo] else [])
       @ (if fle (pr_DurationSecs report) (Fin 0) then [WarnNoDuration] else [])"
    obtain q1 l1 w2 where f: "checkFrameCount ffprobe path coverage ?q0 w1 = ((q1, l1), w2)"
      by (metis prod.exhaust)
    obtain q2 l2 where d: "checkDurationWindow session q1 = (q2, l2)" by (metis prod.exhaust)
    obtain q3 l3 w3 where a: "inspectAudio volume path (a_Present (pr_Audio report)) q2 w2 = ((q3, l3), w3)"
      by (metis prod.exhaust)
    have e: "inspectRecording ffprobe volume path coverage session w = ((q3, ?l0 @ l1 @ l2 @ l3), w3)"
      using f d a Pair Inr by (simp add: inspectRecording_def Let_def)
    have dur: "q_DurationSecs q3 = q_DurationSecs q2"
      using a by (auto simp: inspectAudio_def Let_def split: if_splits prod.splits sum.splits)
    note fs = checkFrameCount_spec [OF f] and ds = checkDurationWindow_spec [OF d] and as = inspectAudio_spec [OF a]
    have z: "\<not> q_Silent ?q0" "\<not> q_AudioMeasured ?q0" "\<not> q_OverrunsWindow ?q0" "q_Probed ?q0"
      by (simp_all add: no_quality_def)
    have s2: "\<not> q_Silent q2" "\<not> q_AudioMeasured q2" "\<not> q_OverrunsWindow q1" "q_Probed q2"
      "q_HasAudio q2 = a_Present (pr_Audio report)"
      using z fs ds by simp_all
    have l0: "ErrorSilent \<notin> set ?l0" "ErrorNoAudio \<notin> set ?l0" by simp_all
    have l2: "ErrorSilent \<notin> set l2" "ErrorNoAudio \<notin> set l2" using ds(7) by auto
    have v: "q_Silent q3 \<longleftrightarrow> q_AudioMeasured q3 \<and> fle (q_AudioPeakDBFS q3) SilentPeakDBFS"
      using as(9) s2 by simp
    have m: "q_AudioMeasured q3 \<longrightarrow> q_HasAudio q3 \<and> q_Probed q3" using as s2 by simp
    have es: "ErrorSilent \<in> set (?l0 @ l1 @ l2 @ l3) \<longleftrightarrow> q_Silent q3"
      using as(8) s2 l0 l2 fs(10) by auto
    have en: "ErrorNoAudio \<in> set (?l0 @ l1 @ l2 @ l3) \<longleftrightarrow> q_Probed q3 \<and> \<not> q_HasAudio q3"
      using as(1,2,7) s2 l0 l2 fs(9) by auto
    have p3: "q_Probed q3" using as(1) s2(4) by simp
    show ?thesis
      unfolding e prod.case using v m es en p3 as(4) ds(9) s2(3) dur ds(2) by (simp add: encodable_report)
  qed
qed

definition demo_ffprobe :: "string list \<Rightarrow> unit \<Rightarrow> (string + json option) \<times> unit" where
  "demo_ffprobe args w =
     (Inr (Some (JObj [(''streams'', JArr [JObj [(''codec_type'', JStr ''audio''), (''codec_name'', JStr ''aac'')]]),
        (''format'', JObj [])])), w)"

definition demo_volume :: "string list \<Rightarrow> unit \<Rightarrow> (string + string) \<times> unit" where
  "demo_volume args w = (Inr ''[Parsed_volumedetect_0] max_volume: -inf dB'', w)"

definition no_coverage :: StreamCoverage where
  "no_coverage = \<lparr>DeclaredSegments = 0, ReceivedSegments = 0, MissingSeqs = [], Anomalies = [], HasInventory = False,
     ClientComplete = False, DeclaredFrames = 0\<rparr>"

lemma demo_inspect:
  "fst (inspectRecording demo_ffprobe demo_volume ''r.mp4'' no_coverage None ()) =
     (no_quality\<lparr>q_Probed := True, q_HasAudio := True, q_AudioMeasured := True,
        q_AudioPeakDBFS := NegInf, q_AudioMeanDBFS := NegInf, q_Silent := True\<rparr>, [WarnNoVideo, WarnNoDuration, ErrorSilent])"
  by code_simp

lemma inspect_verdicts_witness:
  "case inspectRecording demo_ffprobe demo_volume ''r.mp4'' no_coverage None () of ((q, l), w') \<Rightarrow>
     q_Silent q \<and> q_HasAudio q \<and> ErrorSilent \<in> set l \<and> \<not> q_OverrunsWindow q"
  using inspect_verdicts [where ffprobe = demo_ffprobe and volume = demo_volume and path = "''r.mp4''"
    and coverage = no_coverage and session = None and w = "()"] demo_inspect
  by (auto split: prod.splits simp: fle_def SilentPeakDBFS_def)

end
