(* ===== verification/Storage.thy ===== *)
theory Storage
  imports GoStd
begin

text \<open>
  \<open>internal/infrastructure/storage\<close>: the object keys, the bucket configuration and the object
  operations of \<open>client.go\<close>.  The S3 service and its SDK are the parameter \<open>send\<close>, which answers
  a request and moves the service's state; presigning is a parameter too.  \<open>logged\<close> instruments
  any \<open>send\<close> with the list of the requests it was given; \<open>s3_conforms\<close> is the documented
  behaviour of the object operations.
\<close>

section \<open>Requests and replies\<close>

datatype s3err = S3NotFound | S3NoSuchBucket | S3Api string | S3Transport

text \<open>\<open>ErrorCode()\<close> of a \<open>smithy.APIError\<close>; a transport error is none.\<close>

definition err_code :: "s3err \<Rightarrow> string option" where
  "err_code e = (case e of S3NotFound \<Rightarrow> Some ''NotFound'' | S3NoSuchBucket \<Rightarrow> Some ''NoSuchBucket''
     | S3Api c \<Rightarrow> Some c | S3Transport \<Rightarrow> None)"

datatype ruleFilter = PrefixFilter string | TagFilter string string

record lifecycleRule =
  rl_ID :: string
  rl_Filter :: ruleFilter
  rl_Days :: int

record corsRule =
  AllowedMethods :: "string list"
  AllowedOrigins :: "string list"
  AllowedHeaders :: "string list"
  MaxAgeSeconds :: int

record putInput =
  put_Bucket :: string
  put_Key :: string
  put_ContentType :: string
  put_Tagging :: "string option"

datatype 'b s3req = HeadBucket string | CreateBucket string "string option"
  | PutLifecycle string "lifecycleRule list" | PutCors string corsRule
  | PutObject putInput 'b | GetObject string string | HeadObject string string

datatype 'b s3reply = S3Err s3err | S3Ok | S3Body 'b

type_synonym ('b, 's) s3 = "'b s3req \<Rightarrow> 's \<Rightarrow> 'b s3reply \<times> 's"

record storageConfig =
  Endpoint :: string
  UseSSL :: bool
  Region :: string
  FrameBucket :: string
  RecordingBucket :: string
  cfg_PresignExpiry :: duration

definition DefaultConfig :: "string \<Rightarrow> storageConfig" where
  "DefaultConfig endpoint = \<lparr>Endpoint = endpoint, UseSSL = False, Region = ''ap-southeast-2'',
     FrameBucket = ''vox-frames'', RecordingBucket = ''vox-recordings'', cfg_PresignExpiry = 15 * minute\<rparr>"

text \<open>The endpoint options of \<open>NewClient\<close>: base endpoint and path style.\<close>

definition clientEndpoint :: "storageConfig \<Rightarrow> (string \<times> bool) option" where
  "clientEndpoint cfg =
     (let scheme = if UseSSL cfg then ''https'' else ''http''
      in if Endpoint cfg \<noteq> [] then Some (scheme @ ''://'' @ Endpoint cfg, True) else None)"

definition PresignExpiry :: "storageConfig \<Rightarrow> duration" where "PresignExpiry cfg = cfg_PresignExpiry cfg"

datatype storageError = AccessDenied string | CheckBucketFailed string s3err
  | CreateBucketFailed string s3err | UploadFailed string s3err | PresignFailed string
  | GetFailed s3err | CheckExistenceFailed s3err | CreateDstFailed | WriteDstFailed | PingFailed s3err

section \<open>Object keys\<close>

definition streamPrefix :: "string \<Rightarrow> string \<Rightarrow> string \<Rightarrow> string" where
  "streamPrefix scheduleID sessionID streamID =
     ''schedules/'' @ scheduleID @ ''/sessions/'' @ sessionID @ ''/streams/'' @ streamID @ ''/''"

definition frameKey :: "string \<Rightarrow> string \<Rightarrow> int \<Rightarrow> string" where
  "frameKey scheduleID streamID seq =
     ''schedules/'' @ scheduleID @ ''/streams/'' @ streamID @ ''/'' @ pad_int 10 seq @ ''.264''"

definition frameJPEGKey :: "string \<Rightarrow> string \<Rightarrow> int \<Rightarrow> string" where
  "frameJPEGKey scheduleID streamID seq =
     ''schedules/'' @ scheduleID @ ''/streams/'' @ streamID @ ''/'' @ pad_int 10 seq @ ''.jpg''"

definition objSegmentKey :: "string \<Rightarrow> string \<Rightarrow> string \<Rightarrow> int \<Rightarrow> string" where
  "objSegmentKey a b c seq = streamPrefix a b c @ ''segments/'' @ pad_int 4 seq @ ''.mp4''"

definition serverSegmentKey :: "string \<Rightarrow> string \<Rightarrow> string \<Rightarrow> int \<Rightarrow> string" where
  "serverSegmentKey a b c seq = streamPrefix a b c @ ''server-segments/'' @ pad_int 4 seq @ ''.mp4''"

definition ffmpegSegmentKey :: "string \<Rightarrow> string \<Rightarrow> string \<Rightarrow> int \<Rightarrow> string" where
  "ffmpegSegmentKey a b c seq = streamPrefix a b c @ ''ffmpeg-segments/'' @ pad_int 4 seq @ ''.mp4''"

definition hlsInitKey :: "string \<Rightarrow> string \<Rightarrow> string \<Rightarrow> int \<Rightarrow> string" where
  "hlsInitKey a b c epoch = streamPrefix a b c @ ''hls/init-'' @ pad_int 2 epoch @ ''.mp4''"

definition hlsFragmentKey :: "string \<Rightarrow> string \<Rightarrow> string \<Rightarrow> int \<Rightarrow> string" where
  "hlsFragmentKey a b c seq = streamPrefix a b c @ ''hls/'' @ pad_int 6 seq @ ''.m4s''"

definition FinalRecordingKey :: "string \<Rightarrow> string \<Rightarrow> string \<Rightarrow> string" where
  "FinalRecordingKey a b c = streamPrefix a b c @ ''recording.mp4''"

definition QualityReportKey :: "string \<Rightarrow> string \<Rightarrow> string \<Rightarrow> string" where
  "QualityReportKey a b c = streamPrefix a b c @ ''quality.json''"

section \<open>Bucket configuration\<close>

definition liveAssetTagKey :: string where "liveAssetTagKey = ''class''"
definition liveAssetTagValue :: string where "liveAssetTagValue = ''live''"
definition liveAssetRetentionDays :: int where "liveAssetRetentionDays = 3"
definition recordingRetentionDays :: int where "recordingRetentionDays = 365"
definition frameRetentionDays :: int where "frameRetentionDays = 7"
definition liveAssetTagging :: string where
  "liveAssetTagging = liveAssetTagKey @ ''='' @ liveAssetTagValue"

definition bucketRules :: "int \<Rightarrow> bool \<Rightarrow> lifecycleRule list" where
  "bucketRules retentionDays expireLiveAssets =
     [\<lparr>rl_ID = ''auto-expire'', rl_Filter = PrefixFilter [], rl_Days = retentionDays\<rparr>]
     @ (if expireLiveAssets
        then [\<lparr>rl_ID = ''expire-live-assets'', rl_Filter = TagFilter liveAssetTagKey liveAssetTagValue,
               rl_Days = liveAssetRetentionDays\<rparr>] else [])"

definition corsForBrowsers :: corsRule where
  "corsForBrowsers = \<lparr>AllowedMethods = [''GET'', ''HEAD''], AllowedOrigins = [''*''],
     AllowedHeaders = [''Range''], MaxAgeSeconds = 3600\<rparr>"

text \<open>The part of \<open>ensureBucket\<close> after the bucket is known to exist; both failures are only logged.\<close>

definition configureBucket :: "('b, 's) s3 \<Rightarrow> string \<Rightarrow> int \<Rightarrow> bool \<Rightarrow> bool \<Rightarrow> (storageError, unit, 's) fallible" where
  "configureBucket send bucket retentionDays browserFetched expireLiveAssets w =
     (let (_, w1) = send (PutLifecycle bucket (bucketRules retentionDays expireLiveAssets)) w;
          (_, w2) = (if browserFetched then send (PutCors bucket corsForBrowsers) w1 else (S3Ok, w1))
      in (Inr (), w2))"

definition createLocation :: "storageConfig \<Rightarrow> string option" where
  "createLocation cfg = (if Region cfg \<noteq> [] \<and> Region cfg \<noteq> ''us-east-1'' then Some (Region cfg) else None)"

definition ensureBucket :: "('b, 's) s3 \<Rightarrow> storageConfig \<Rightarrow> string \<Rightarrow> int \<Rightarrow> bool \<Rightarrow> bool \<Rightarrow> (storageError, unit, 's) fallible" where
  "ensureBucket send cfg bucket retentionDays browserFetched expireLiveAssets w =
     (case send (HeadBucket bucket) w of
        (S3Err e, w1) \<Rightarrow>
          (if err_code e = Some ''403'' then (Inl (AccessDenied bucket), w1)
           else if e \<noteq> S3NotFound \<and> e \<noteq> S3NoSuchBucket then (Inl (CheckBucketFailed bucket e), w1)
           else (case send (CreateBucket bucket (createLocation cfg)) w1 of
                   (S3Err e', w2) \<Rightarrow> (Inl (CreateBucketFailed bucket e'), w2)
                 | (_, w2) \<Rightarrow> configureBucket send bucket retentionDays browserFetched expireLiveAssets w2))
      | (_, w1) \<Rightarrow> configureBucket send bucket retentionDays browserFetched expireLiveAssets w1)"

definition bucketSpecs :: "storageConfig \<Rightarrow> (string \<times> int \<times> bool \<times> bool) list" where
  "bucketSpecs cfg = [(FrameBucket cfg, frameRetentionDays, False, False),
     (RecordingBucket cfg, recordingRetentionDays, True, True)]"

fun ensure_loop :: "('b, 's) s3 \<Rightarrow> storageConfig \<Rightarrow> (string \<times> int \<times> bool \<times> bool) list \<Rightarrow> (storageError, unit, 's) fallible" where
  "ensure_loop send cfg [] w = (Inr (), w)"
| "ensure_loop send cfg ((b, d, bf, el) # sps) w =
     bindE (ensureBucket send cfg b d bf el) (\<lambda>_. ensure_loop send cfg sps) w"

definition EnsureBuckets :: "('b, 's) s3 \<Rightarrow> storageConfig \<Rightarrow> (storageError, unit, 's) fallible" where
  "EnsureBuckets send cfg = ensure_loop send cfg (bucketSpecs cfg)"

section \<open>Object operations\<close>

definition put_as :: "('b, 's) s3 \<Rightarrow> string \<Rightarrow> putInput \<Rightarrow> 'b \<Rightarrow> (storageError, string, 's) fallible" where
  "put_as send what input body w =
     (case send (PutObject input body) w of
        (S3Err e, w1) \<Rightarrow> (Inl (UploadFailed what e), w1) | (_, w1) \<Rightarrow> (Inr (put_Key input), w1))"

definition UploadFrame :: "('b, 's) s3 \<Rightarrow> storageConfig \<Rightarrow> string \<Rightarrow> string \<Rightarrow> int \<Rightarrow> 'b \<Rightarrow> (storageError, string, 's) fallible" where
  "UploadFrame send cfg scheduleID streamID seq frameData =
     put_as send ''upload frame'' \<lparr>put_Bucket = FrameBucket cfg, put_Key = frameKey scheduleID streamID seq,
       put_ContentType = ''video/h264'', put_Tagging = None\<rparr> frameData"

definition UploadFrameJPEG :: "('b, 's) s3 \<Rightarrow> storageConfig \<Rightarrow> string \<Rightarrow> string \<Rightarrow> int \<Rightarrow> 'b \<Rightarrow> (storageError, string, 's) fallible" where
  "UploadFrameJPEG send cfg scheduleID streamID seq body =
     put_as send ''upload frame jpeg'' \<lparr>put_Bucket = FrameBucket cfg, put_Key = frameJPEGKey scheduleID streamID seq,
       put_ContentType = ''image/jpeg'', put_Tagging = None\<rparr> body"

definition UploadSegment :: "('b, 's) s3 \<Rightarrow> storageConfig \<Rightarrow> string \<Rightarrow> string \<Rightarrow> string \<Rightarrow> int \<Rightarrow> 'b \<Rightarrow> (storageError, string, 's) fallible" where
  "UploadSegment send cfg a b c seq body =
     put_as send ''upload segment'' \<lparr>put_Bucket = RecordingBucket cfg, put_Key = objSegmentKey a b c seq,
       put_ContentType = ''video/mp4'', put_Tagging = None\<rparr> body"

definition UploadServerSegment :: "('b, 's) s3 \<Rightarrow> storageConfig \<Rightarrow> string \<Rightarrow> string \<Rightarrow> string \<Rightarrow> int \<Rightarrow> 'b \<Rightarrow> (storageError, string, 's) fallible" where
  "UploadServerSegment send cfg a b c seq body =
     put_as send ''upload server segment'' \<lparr>put_Bucket = RecordingBucket cfg, put_Key = serverSegmentKey a b c seq,
       put_ContentType = ''video/mp4'', put_Tagging = None\<rparr> body"

definition UploadFFmpegSegment :: "('b, 's) s3 \<Rightarrow> storageConfig \<Rightarrow> string \<Rightarrow> string \<Rightarrow> string \<Rightarrow> int \<Rightarrow> 'b \<Rightarrow> (storageError, string, 's) fallible" where
  "UploadFFmpegSegment send cfg a b c seq body =
     put_as send ''upload ffmpeg segment'' \<lparr>put_Bucket = RecordingBucket cfg, put_Key = ffmpegSegmentKey a b c seq,
       put_ContentType = ''video/mp4'', put_Tagging = None\<rparr> body"

definition UploadHLSInit :: "('b, 's) s3 \<Rightarrow> storageConfig \<Rightarrow> string \<Rightarrow> string \<Rightarrow> string \<Rightarrow> int \<Rightarrow> 'b \<Rightarrow> (storageError, string, 's) fallible" where
  "UploadHLSInit send cfg a b c epoch body =
     put_as send ''upload hls init segment'' \<lparr>put_Bucket = RecordingBucket cfg, put_Key = hlsInitKey a b c epoch,
       put_ContentType = ''video/mp4'', put_Tagging = Some liveAssetTagging\<rparr> body"

definition UploadHLSFragment :: "('b, 's) s3 \<Rightarrow> storageConfig \<Rightarrow> string \<Rightarrow> string \<Rightarrow> string \<Rightarrow> int \<Rightarrow> 'b \<Rightarrow> (storageError, string, 's) fallible" where
  "UploadHLSFragment send cfg a b c seq body =
     put_as send ''upload hls fragment'' \<lparr>put_Bucket = RecordingBucket cfg, put_Key = hlsFragmentKey a b c seq,
       put_ContentType = ''video/iso.segment'', put_Tagging = Some liveAssetTagging\<rparr> body"

definition UploadQualityReport :: "('b, 's) s3 \<Rightarrow> storageConfig \<Rightarrow> string \<Rightarrow> string \<Rightarrow> string \<Rightarrow> 'b \<Rightarrow> (storageError, string, 's) fallible" where
  "UploadQualityReport send cfg a b c report =
     put_as send ''upload quality report'' \<lparr>put_Bucket = RecordingBucket cfg, put_Key = QualityReportKey a b c,
       put_ContentType = ''application/json'', put_Tagging = None\<rparr> report"

definition UploadFinalRecording :: "('b, 's) s3 \<Rightarrow> storageConfig \<Rightarrow> string \<Rightarrow> string \<Rightarrow> string \<Rightarrow> 'b \<Rightarrow> (storageError, string, 's) fallible" where
  "UploadFinalRecording send cfg a b c body =
     put_as send ''upload final recording'' \<lparr>put_Bucket = RecordingBucket cfg, put_Key = FinalRecordingKey a b c,
       put_ContentType = ''video/mp4'', put_Tagging = None\<rparr> body"

definition RecordingExists :: "('b, 's) s3 \<Rightarrow> storageConfig \<Rightarrow> string \<Rightarrow> string \<Rightarrow> string \<Rightarrow> (storageError, bool, 's) fallible" where
  "RecordingExists send cfg a b c w =
     (case send (HeadObject (RecordingBucket cfg) (FinalRecordingKey a b c)) w of
        (S3Err e, w1) \<Rightarrow> (if err_code e = Some ''NotFound'' \<or> err_code e = Some ''NoSuchKey''
                          then (Inr False, w1) else (Inl (CheckExistenceFailed e), w1))
      | (_, w1) \<Rightarrow> (Inr True, w1))"

definition Ping :: "('b, 's) s3 \<Rightarrow> storageConfig \<Rightarrow> (storageError, unit, 's) fallible" where
  "Ping send cfg w =
     (case send (HeadBucket (FrameBucket cfg)) w of
        (S3Err e, w1) \<Rightarrow> (if err_code e = Some ''403'' then (Inr (), w1) else (Inl (PingFailed e), w1))
      | (_, w1) \<Rightarrow> (Inr (), w1))"

text \<open>Reading a body to its end may break off: \<open>readAll\<close>.\<close>

definition DownloadFrame :: "('b, 's) s3 \<Rightarrow> ('s \<Rightarrow> bool \<times> 's) \<Rightarrow> storageConfig \<Rightarrow> string \<Rightarrow> string \<Rightarrow> int \<Rightarrow> (storageError, 'b, 's) fallible" where
  "DownloadFrame send readAll cfg scheduleID streamID seq w =
     (case send (GetObject (FrameBucket cfg) (frameKey scheduleID streamID seq)) w of
        (S3Err e, w1) \<Rightarrow> (Inl (GetFailed e), w1)
      | (S3Ok, w1) \<Rightarrow> (Inl (GetFailed S3Transport), w1)
      | (S3Body b, w1) \<Rightarrow> (let (ok, w2) = readAll w1 in (if ok then Inr b else Inl (GetFailed S3Transport), w2)))"

definition PresignFrame :: "(string \<Rightarrow> string \<Rightarrow> duration \<Rightarrow> string option) \<Rightarrow> storageConfig \<Rightarrow> string \<Rightarrow> duration \<Rightarrow> storageError + string" where
  "PresignFrame presign cfg key expiry =
     (case presign (FrameBucket cfg) key expiry of None \<Rightarrow> Inl (PresignFailed ''presign frame'') | Some u \<Rightarrow> Inr u)"

definition PresignRecording :: "(string \<Rightarrow> string \<Rightarrow> duration \<Rightarrow> string option) \<Rightarrow> storageConfig \<Rightarrow> string \<Rightarrow> duration \<Rightarrow> storageError + string" where
  "PresignRecording presign cfg key expiry =
     (case presign (RecordingBucket cfg) key expiry of None \<Rightarrow> Inl (PresignFailed ''presign recording'') | Some u \<Rightarrow> Inr u)"

text \<open>What a file on disk holds: a downloaded or produced blob, a text written by the program, or
  the start of a blob whose transfer broke off.\<close>

datatype 'b dfile = Blob 'b | Lines "string list" | Partial

text \<open>The local side of a download: \<open>os.Create\<close> and \<open>io.Copy\<close> may fail; the second component of the
  result is what is now at the destination.\<close>

record 'o fsOps =
  fs_create :: "'o \<Rightarrow> bool \<times> 'o"
  fs_copy :: "'o \<Rightarrow> bool \<times> 'o"

definition DownloadSegmentToFile :: "('b, 's) s3 \<Rightarrow> 'o fsOps \<Rightarrow> storageConfig \<Rightarrow> string \<Rightarrow> 's \<times> 'o
    \<Rightarrow> (storageError + unit) \<times> 'b dfile option \<times> 's \<times> 'o" where
  "DownloadSegmentToFile send fs cfg key = (\<lambda>(w, ow).
     (case send (GetObject (RecordingBucket cfg) key) w of
        (S3Body b, w1) \<Rightarrow>
          (let (created, ow1) = fs_create fs ow
           in if \<not> created then (Inl CreateDstFailed, None, w1, ow1)
              else let (copied, ow2) = fs_copy fs ow1
                in if copied then (Inr (), Some (Blob b), w1, ow2)
                   else (Inl WriteDstFailed, Some Partial, w1, ow2))
      | (S3Err e, w1) \<Rightarrow> (Inl (GetFailed e), None, w1, ow)
      | (S3Ok, w1) \<Rightarrow> (Inl (GetFailed S3Transport), None, w1, ow)))"

section \<open>The service\<close>

text \<open>Any service with the list of requests it was sent.\<close>

definition logged :: "('b, 's) s3 \<Rightarrow> ('b, 's \<times> 'b s3req list) s3" where
  "logged send r = (\<lambda>(w, l). (case send r w of (rep, w1) \<Rightarrow> (rep, w1, l @ [r])))"

lemma logged_simp: "logged send r (w, l) = (fst (send r w), snd (send r w), l @ [r])"
  by (simp add: logged_def split_beta)

type_synonym 'b objects = "string \<times> string \<Rightarrow> ('b \<times> string option) option"

text \<open>
  Documented behaviour of the object operations: an acknowledged write is stored, a failed one may
  have been; reads do not change anything, return what is stored, and report a missing object
  only when it is missing.
\<close>

definition stored_as :: "putInput \<Rightarrow> 'b \<Rightarrow> 'b objects \<Rightarrow> 'b objects" where
  "stored_as i b m = m((put_Bucket i, put_Key i) \<mapsto> (b, put_Tagging i))"

definition s3_doc :: "'b s3req \<Rightarrow> 'b objects \<Rightarrow> 'b s3reply \<Rightarrow> 'b objects \<Rightarrow> bool" where
  "s3_doc r m rep m' \<longleftrightarrow> (case r of
     PutObject i b \<Rightarrow> (case rep of S3Err _ \<Rightarrow> m' = m \<or> m' = stored_as i b m | _ \<Rightarrow> m' = stored_as i b m)
   | GetObject bk k \<Rightarrow> m' = m \<and> (case rep of S3Err _ \<Rightarrow> True | S3Ok \<Rightarrow> False
        | S3Body b \<Rightarrow> (\<exists>t. m (bk, k) = Some (b, t)))
   | HeadObject bk k \<Rightarrow> m' = m \<and> (case rep of S3Body _ \<Rightarrow> False | S3Ok \<Rightarrow> m (bk, k) \<noteq> None
        | S3Err e \<Rightarrow> (err_code e = Some ''NotFound'' \<or> err_code e = Some ''NoSuchKey'' \<longrightarrow> m (bk, k) = None))
   | _ \<Rightarrow> m' = m)"

definition s3_conforms :: "('b, 's) s3 \<Rightarrow> ('s \<Rightarrow> 'b objects) \<Rightarrow> bool" where
  "s3_conforms send view \<longleftrightarrow> (\<forall>r w. s3_doc r (view w) (fst (send r w)) (view (snd (send r w))))"

text \<open>An always available store in memory.\<close>

definition mem_s3 :: "('b, 'b objects) s3" where
  "mem_s3 r m = (case r of PutObject i b \<Rightarrow> (S3Ok, stored_as i b m)
     | GetObject bk k \<Rightarrow> (case m (bk, k) of None \<Rightarrow> (S3Err S3NotFound, m) | Some (b, _) \<Rightarrow> (S3Body b, m))
     | HeadObject bk k \<Rightarrow> ((case m (bk, k) of None \<Rightarrow> S3Err S3NotFound | Some _ \<Rightarrow> S3Ok), m)
     | _ \<Rightarrow> (S3Ok, m))"

lemma mem_s3_conforms: "s3_conforms mem_s3 (\<lambda>m. m)"
  unfolding s3_conforms_def
proof (intro allI)
  fix r :: "'b s3req" and w
  show "s3_doc r w (fst (mem_s3 r w)) (snd (mem_s3 r w))"
    by (cases r) (auto simp: s3_doc_def mem_s3_def err_code_def split: option.splits)
qed

lemma s3_conformsD:
  "s3_conforms send view \<Longrightarrow> send r w = (rep, w') \<Longrightarrow> s3_doc r (view w) rep (view w')"
  by (metis fst_conv s3_conforms_def snd_conv)

lemma put_as_spec:
  assumes "s3_conforms send view" and "put_as send what i b w = (r, w')"
  shows "r = Inr k \<Longrightarrow> k = put_Key i \<and> view w' = stored_as i b (view w)"
    and "r = Inl e \<Longrightarrow> view w' = view w \<or> view w' = stored_as i b (view w)"
proof -
  obtain rep w1 where s: "send (PutObject i b) w = (rep, w1)" by (cases "send (PutObject i b) w")
  note d = s3_conformsD [OF assms(1) s]
  { assume "r = Inr k"
    with assms(2) s d show "k = put_Key i \<and> view w' = stored_as i b (view w)"
      by (cases rep) (auto simp: put_as_def s3_doc_def)
  next
    assume "r = Inl e"
    with assms(2) s d show "view w' = view w \<or> view w' = stored_as i b (view w)"
      by (cases rep) (auto simp: put_as_def s3_doc_def) }
qed

lemma recording_exists_spec:
  assumes "s3_conforms send view" and "RecordingExists send cfg a b c w = (r, w')"
  shows "view w' = view w"
    and "r = Inr x \<Longrightarrow> x \<longleftrightarrow> view w (RecordingBucket cfg, FinalRecordingKey a b c) \<noteq> None"
proof -
  let ?r = "HeadObject (RecordingBucket cfg) (FinalRecordingKey a b c)"
  obtain rep w1 where s: "send ?r w = (rep, w1)" by (cases "send ?r w")
  note d = s3_conformsD [OF assms(1) s]
  have k: "w' = w1" using assms(2) s by (auto simp: RecordingExists_def split: s3reply.splits if_splits)
  then show "view w' = view w" using d by (simp add: s3_doc_def)
  assume "r = Inr x"
  with assms(2) s d show "x \<longleftrightarrow> view w (RecordingBucket cfg, FinalRecordingKey a b c) \<noteq> None"
    by (cases rep) (auto simp: RecordingExists_def s3_doc_def split: if_splits)
qed

section \<open>Retention\<close>

text \<open>Which rules select an object, and the days after which it expires: the earliest of them.\<close>

definition rule_matches :: "string \<Rightarrow> string option \<Rightarrow> lifecycleRule \<Rightarrow> bool" where
  "rule_matches key tagging rl = (case rl_Filter rl of PrefixFilter p \<Rightarrow> HasPrefix key p
     | TagFilter k v \<Rightarrow> tagging = Some (k @ ''='' @ v))"

definition expiry_days :: "lifecycleRule list \<Rightarrow> string \<Rightarrow> string option \<Rightarrow> int option" where
  "expiry_days rules key tagging =
     (let ds = map rl_Days (filter (rule_matches key tagging) rules)
      in if ds = [] then None else Some (Min (set ds)))"

definition lifecycles :: "'b s3req list \<Rightarrow> (string \<times> lifecycleRule list) list" where
  "lifecycles l = List.map_filter (\<lambda>r. case r of PutLifecycle b rs \<Rightarrow> Some (b, rs) | _ \<Rightarrow> None) l"

definition puts :: "'b s3req list \<Rightarrow> putInput list" where
  "puts l = List.map_filter (\<lambda>r. case r of PutObject i _ \<Rightarrow> Some i | _ \<Rightarrow> None) l"

lemma log_append [simp]:
  "lifecycles (l @ l') = lifecycles l @ lifecycles l'" "puts (l @ l') = puts l @ puts l'"
  by (simp_all add: lifecycles_def puts_def List.map_filter_def)

lemma log_Cons [simp]:
  "lifecycles (HeadBucket b # l) = lifecycles l" "lifecycles (CreateBucket b loc # l) = lifecycles l"
  "lifecycles (PutLifecycle b rs # l) = (b, rs) # lifecycles l" "lifecycles (PutCors b c # l) = lifecycles l"
  "lifecycles [] = []" "puts (PutObject i x # l) = i # puts l" "puts [] = []"
  by (simp_all add: lifecycles_def puts_def List.map_filter_def)

lemma configureBucket_log:
  assumes "configureBucket (logged send) b d bf el (w, l) = (r, w', l')"
  shows "r = Inr ()" and "lifecycles l' = lifecycles l @ [(b, bucketRules d el)]"
  using assms by (auto simp: configureBucket_def logged_simp Let_def split: if_splits)

lemma ensureBucket_log:
  assumes "ensureBucket (logged send) cfg b d bf el (w, l) = (Inr u, w', l')"
  shows "lifecycles l' = lifecycles l @ [(b, bucketRules d el)]"
  using assms
  by (auto simp: ensureBucket_def logged_simp split: s3reply.splits prod.splits if_splits
      dest!: configureBucket_log(2))

lemma put_as_log: "puts (snd (snd (put_as (logged send) what i b (w, l)))) = puts l @ [i]"
  by (cases "fst (send (PutObject i b) w)") (simp_all add: put_as_def logged_simp)

lemma expiry_bucketRules:
  "expiry_days (bucketRules d el) key tagging =
     Some (if el \<and> tagging = Some liveAssetTagging then min d liveAssetRetentionDays else d)"
  by (cases el; cases "tagging = Some liveAssetTagging")
    (simp_all add: expiry_days_def bucketRules_def rule_matches_def liveAssetTagging_def Let_def)

text \<open>
  When \<open>EnsureBuckets\<close> succeeds it has sent one lifecycle configuration to each bucket, and
  under those rules a live HLS asset expires after 3 days, every other object of the recording
  bucket after 365 and a frame after 7; the tag that selects the short rule is put on by the two
  HLS uploads and by no other upload.
\<close>

theorem evidence_retention:
  assumes "EnsureBuckets (logged send) cfg (w, []) = (Inr (), w', l)"
  shows "(\<exists>fr rr. lifecycles l = [(FrameBucket cfg, fr), (RecordingBucket cfg, rr)]
      \<and> expiry_days fr key tagging = Some 7
      \<and> expiry_days rr key tagging = Some (if tagging = Some liveAssetTagging then 3 else 365))
    \<and> map (\<lambda>i. (put_Bucket i, put_Tagging i))
        (puts (snd (snd (UploadHLSInit (logged send) cfg a b c e body (w, []))))
         @ puts (snd (snd (UploadHLSFragment (logged send) cfg a b c q body (w, []))))
         @ puts (snd (snd (UploadSegment (logged send) cfg a b c q body (w, []))))
         @ puts (snd (snd (UploadServerSegment (logged send) cfg a b c q body (w, []))))
         @ puts (snd (snd (UploadFFmpegSegment (logged send) cfg a b c q body (w, []))))
         @ puts (snd (snd (UploadQualityReport (logged send) cfg a b c body (w, []))))
         @ puts (snd (snd (UploadFinalRecording (logged send) cfg a b c body (w, []))))
         @ puts (snd (snd (UploadFrame (logged send) cfg a c q body (w, []))))
         @ puts (snd (snd (UploadFrameJPEG (logged send) cfg a c q body (w, [])))))
      = replicate 2 (RecordingBucket cfg, Some liveAssetTagging)
        @ replicate 5 (RecordingBucket cfg, None) @ replicate 2 (FrameBucket cfg, None)"
    (is "?rules \<and> ?uploads")
proof
  from assms obtain w1 l1 where
    e1: "ensureBucket (logged send) cfg (FrameBucket cfg) 7 False False (w, []) = (Inr (), w1, l1)"
    and e2: "ensureBucket (logged send) cfg (RecordingBucket cfg) 365 True True (w1, l1) = (Inr (), w', l)"
    by (auto simp: EnsureBuckets_def bucketSpecs_def frameRetentionDays_def recordingRetentionDays_def
        bindE_Inr_iff)
  have "lifecycles l = [(FrameBucket cfg, bucketRules 7 False), (RecordingBucket cfg, bucketRules 365 True)]"
    using ensureBucket_log [OF e1] ensureBucket_log [OF e2] by simp
  then show ?rules by (simp add: expiry_bucketRules liveAssetRetentionDays_def)
  show ?uploads
    by (simp add: UploadHLSInit_def UploadHLSFragment_def UploadSegment_def UploadServerSegment_def
        UploadFFmpegSegment_def UploadQualityReport_def UploadFinalRecording_def UploadFrame_def
        UploadFrameJPEG_def put_as_log numeral_eq_Suc)
qed

lemma evidence_retention_witness:
  "\<exists>l fr rr. snd (snd (EnsureBuckets (logged mem_s3) (DefaultConfig []) (Map.empty, []))) = (l :: string s3req list)
     \<and> lifecycles l = [(''vox-frames'', fr), (''vox-recordings'', rr)]
     \<and> expiry_days rr ''k'' (Some liveAssetTagging) = Some 3 \<and> expiry_days rr ''k'' None = Some 365"
proof -
  let ?x = "EnsureBuckets (logged mem_s3) (DefaultConfig []) (Map.empty :: string objects, [])"
  have "fst ?x = Inr ()"
    by (simp add: EnsureBuckets_def bucketSpecs_def DefaultConfig_def bindE_def ensureBucket_def
        logged_simp mem_s3_def configureBucket_def)
  then have "?x = (Inr (), fst (snd ?x), snd (snd ?x))" by (simp add: prod_eq_iff)
  from evidence_retention [OF this, of "''k''" None] evidence_retention [OF this, of "''k''" "Some liveAssetTagging"]
  show ?thesis by (auto simp: DefaultConfig_def)
qed

section \<open>Keys never clash\<close>

datatype objectRef = SegmentObj int | ServerSegmentObj int | FFmpegSegmentObj int | InitObj int
  | FragmentObj int | RecordingObj | QualityObj

definition assetKey :: "string \<Rightarrow> string \<Rightarrow> string \<Rightarrow> objectRef \<Rightarrow> string" where
  "assetKey a b c r = (case r of SegmentObj q \<Rightarrow> objSegmentKey a b c q
     | ServerSegmentObj q \<Rightarrow> serverSegmentKey a b c q | FFmpegSegmentObj q \<Rightarrow> ffmpegSegmentKey a b c q
     | InitObj e \<Rightarrow> hlsInitKey a b c e | FragmentObj q \<Rightarrow> hlsFragmentKey a b c q
     | RecordingObj \<Rightarrow> FinalRecordingKey a b c | QualityObj \<Rightarrow> QualityReportKey a b c)"

definition objectName :: "objectRef \<Rightarrow> string" where
  "objectName r = (case r of SegmentObj q \<Rightarrow> ''segments/'' @ pad_int 4 q @ ''.mp4''
     | ServerSegmentObj q \<Rightarrow> ''server-segments/'' @ pad_int 4 q @ ''.mp4''
     | FFmpegSegmentObj q \<Rightarrow> ''ffmpeg-segments/'' @ pad_int 4 q @ ''.mp4''
     | InitObj e \<Rightarrow> ''hls/init-'' @ pad_int 2 e @ ''.mp4''
     | FragmentObj q \<Rightarrow> ''hls/'' @ pad_int 6 q @ ''.m4s''
     | RecordingObj \<Rightarrow> ''recording.mp4'' | QualityObj \<Rightarrow> ''quality.json'')"

lemma assetKey_eq: "assetKey a b c r = streamPrefix a b c @ objectName r"
  by (cases r) (simp_all add: assetKey_def objectName_def objSegmentKey_def serverSegmentKey_def
      ffmpegSegmentKey_def hlsInitKey_def hlsFragmentKey_def FinalRecordingKey_def QualityReportKey_def)

definition slash_free :: "string \<Rightarrow> bool" where "slash_free s \<longleftrightarrow> CHR ''/'' \<notin> set s"

lemma split_at_slash:
  assumes "slash_free s" and "slash_free t" and "s @ CHR ''/'' # x = t @ CHR ''/'' # y"
  shows "s = t \<and> x = y"
proof -
  have "takeWhile (\<lambda>c. c \<noteq> CHR ''/'') (s @ CHR ''/'' # x) = s"
    using assms(1) by (subst takeWhile_append2) (auto simp: slash_free_def)
  moreover have "takeWhile (\<lambda>c. c \<noteq> CHR ''/'') (t @ CHR ''/'' # y) = t"
    using assms(2) by (subst takeWhile_append2) (auto simp: slash_free_def)
  ultimately show ?thesis using assms(3) by simp
qed

lemma streamPrefix_inject:
  assumes "slash_free a" "slash_free b" "slash_free c" "slash_free a'" "slash_free b'" "slash_free c'"
    and "streamPrefix a b c @ x = streamPrefix a' b' c' @ y"
  shows "a = a' \<and> b = b' \<and> c = c' \<and> x = y"
proof -
  from assms(7) have "a @ CHR ''/'' # ''sessions/'' @ b @ ''/streams/'' @ c @ ''/'' @ x
      = a' @ CHR ''/'' # ''sessions/'' @ b' @ ''/streams/'' @ c' @ ''/'' @ y"
    by (simp add: streamPrefix_def)
  from split_at_slash [OF assms(1,4) this]
  have a: "a = a'" and "b @ CHR ''/'' # ''streams/'' @ c @ ''/'' @ x
      = b' @ CHR ''/'' # ''streams/'' @ c' @ ''/'' @ y" by simp_all
  from split_at_slash [OF assms(2,5) this(2)]
  have b: "b = b'" and "c @ CHR ''/'' # x = c' @ CHR ''/'' # y" by simp_all
  from split_at_slash [OF assms(3,6) this(2)] a b show ?thesis by simp
qed

lemma pad_int_hd: "hd (pad_int w i @ t) \<noteq> CHR ''i''"
  using pad_int_chars [of "hd (pad_int w i)" w i] by (auto simp: is_digit_def hd_append)

lemma pad_int_not_init: "pad_int w i @ t \<noteq> CHR ''i'' # u" "CHR ''i'' # u \<noteq> pad_int w i @ t"
  using pad_int_hd [of w i t] by (metis list.sel(1))+

lemma objectName_inject: "objectName r = objectName r' \<longleftrightarrow> r = r'"
  by (cases r; cases r') (auto simp: objectName_def pad_int_not_init dest: pad_int_inject)

text \<open>
  The keys of the recording bucket never clash: over ids without a slash, two objects that
  share a key are the same object of the same stream, for uploaded, server-made and ffmpeg-made
  segments, live init segments and fragments, the recording and its quality report.
\<close>

theorem object_keys_distinct:
  assumes "\<forall>s \<in> {a, b, c, a', b', c'}. slash_free s"
  shows "assetKey a b c r = assetKey a' b' c' r' \<longleftrightarrow> a = a' \<and> b = b' \<and> c = c' \<and> r = r'"
  using assms streamPrefix_inject [of a b c a' b' c' "objectName r" "objectName r'"]
  by (auto simp: assetKey_eq objectName_inject)

lemma object_keys_distinct_witness:
  "objSegmentKey ''x'' ''y'' ''s'' 1 \<noteq> ffmpegSegmentKey ''x'' ''y'' ''s'' 1
     \<and> hlsFragmentKey ''x'' ''y'' ''s'' 1 \<noteq> hlsFragmentKey ''x'' ''y'' ''s'' 2"
  using object_keys_distinct [of "''x''" "''y''" "''s''" "''x''" "''y''" "''s''" "SegmentObj 1" "FFmpegSegmentObj 1"]
    object_keys_distinct [of "''x''" "''y''" "''s''" "''x''" "''y''" "''s''" "FragmentObj 1" "FragmentObj 2"]
  by (simp add: slash_free_def assetKey_def)

end
