(* ===== verification/Assembler.thy ===== *)
theory Assembler
  imports Quality Storage
begin

text \<open>
  \<open>AssemblerUseCase\<close> of \<open>internal/usecase/assembler_usecase.go\<close>: joining the segments of a stream into
  its recording.

  The environment record holds what the code calls and does not contain: Redis, S3, the
  publisher, the clock, the operating system and the ffmpeg programs.  The state record holds the
  set of streams in flight, the listing of each job directory, the worlds of the three services
  and the events the publisher acknowledged.  An error keeps the wrapping the code gives it.  Downloads
  run concurrently in the code and write disjoint files: \<open>e_order n\<close> is the order in which the \<open>n\<close>
  downloads take place, and the first failure ends the step (what the others still write goes with
  the job directory).  Job directory paths are taken to hold no glob characters.
\<close>

section \<open>Events and errors\<close>

record StreamEndedEvent =
  se_EventID :: string
  se_ScheduleID :: string
  se_SessionID :: string
  se_ParticipantID :: string
  se_StreamID :: string
  se_StreamType :: string
  se_SegmentKeys :: "string list"
  se_Duration :: int
  se_EndedAt :: instant

datatype pubError = UuidFailed | PublisherRefused

datatype asmError = ListSegmentsFailed regError | NoSegmentsUploaded string | CtxDone
  | CheckExistingFailed storageError | StatePublishFailed pubError | CreateJobDirFailed
  | DiskSpaceShort int int | DownloadFailed storageError | NoSegmentsDownloaded string
  | ConcatListFailed | FfmpegFailed string | OpenOutputFailed | UploadRecordingFailed storageError
  | FailurePublishFailed asmError pubError | CompletenessFailed regError | ScheduleFailed regError

text \<open>\<open>rp_ErrorMessage\<close> stands for the text of the error; \<^const>\<open>None\<close> is the empty message.\<close>

record RecordingPartChangedEvent =
  rp_EventID :: string
  rp_StreamID :: string
  rp_ScheduleID :: string
  rp_SessionID :: string
  rp_ParticipantID :: string
  rp_StreamType :: string
  rp_Source :: string
  rp_Status :: string
  rp_ObjectKey :: string
  rp_DurationSecs :: int
  rp_HasGaps :: bool
  rp_ErrorMessage :: "asmError option"
  rp_OccurredAt :: instant

section \<open>Environment and state\<close>

type_synonym 'b listing = "(string \<times> 'b dfile) list"

record ('r, 's, 'o, 'b) asmEnv =
  e_exec :: "'r redis"
  e_send :: "('b, 's) s3"
  e_cfg :: storageConfig
  e_fs :: "'o fsOps"
  e_workDir :: string
  e_gracePeriod :: duration
  e_now :: "'o \<Rightarrow> instant \<times> 'o"
  e_uuid :: "'o \<Rightarrow> string option \<times> 'o"
  e_publish :: "RecordingPartChangedEvent \<Rightarrow> 'o \<Rightarrow> bool \<times> 'o"
  e_acquire :: "'o \<Rightarrow> bool \<times> 'o"
  e_mkdirAll :: "'o \<Rightarrow> bool \<times> 'o"
  e_removeAll :: "'o \<Rightarrow> bool \<times> 'o"
  e_open :: "'o \<Rightarrow> bool \<times> 'o"
  e_diskFree :: "'o \<Rightarrow> int option \<times> 'o"
  e_order :: "nat \<Rightarrow> nat list"
  e_ffprobe :: "'b listing \<Rightarrow> string list \<Rightarrow> 'o \<Rightarrow> (string + json option) \<times> 'o"
  e_volume :: "'b listing \<Rightarrow> string list \<Rightarrow> 'o \<Rightarrow> (string + string) \<times> 'o"
  e_ffmpeg :: "'b listing \<Rightarrow> string list \<Rightarrow> 'o \<Rightarrow> (string \<times> bool + 'b) \<times> 'o"
  e_render :: "RecordingQualityReport \<Rightarrow> 'b"

record ('r, 's, 'o, 'b) asmState =
  inFlight :: "string set"
  jobs :: "string \<Rightarrow> 'b listing"
  redisW :: 'r
  s3W :: 's
  osW :: 'o
  published :: "RecordingPartChangedEvent list"

text \<open>Running an operation of one service inside the state.\<close>

definition on_os :: "('o \<Rightarrow> 'a \<times> 'o) \<Rightarrow> ('r, 's, 'o, 'b) asmState \<Rightarrow> 'a \<times> ('r, 's, 'o, 'b) asmState" where
  "on_os f s = (case f (osW s) of (x, ow) \<Rightarrow> (x, s\<lparr>osW := ow\<rparr>))"
definition on_s3 :: "('s \<Rightarrow> 'a \<times> 's) \<Rightarrow> ('r, 's, 'o, 'b) asmState \<Rightarrow> 'a \<times> ('r, 's, 'o, 'b) asmState" where
  "on_s3 f s = (case f (s3W s) of (x, w) \<Rightarrow> (x, s\<lparr>s3W := w\<rparr>))"
definition on_redis :: "('r \<Rightarrow> 'a \<times> 'r) \<Rightarrow> ('r, 's, 'o, 'b) asmState \<Rightarrow> 'a \<times> ('r, 's, 'o, 'b) asmState" where
  "on_redis f s = (case f (redisW s) of (x, w) \<Rightarrow> (x, s\<lparr>redisW := w\<rparr>))"

definition okOr :: "'e \<Rightarrow> ('s \<Rightarrow> bool \<times> 's) \<Rightarrow> ('e, unit, 's) fallible" where
  "okOr e f s = (case f s of (ok, s1) \<Rightarrow> (if ok then Inr () else Inl e, s1))"

definition wrap :: "('e \<Rightarrow> 'f) \<Rightarrow> ('e, 'a, 's) fallible \<Rightarrow> ('f, 'a, 's) fallible" where
  "wrap h f s = (case f s of (r, s1) \<Rightarrow> (mapErr h r, s1))"

type_synonym ('a, 'r, 's, 'o, 'b) asm = "(asmError, 'a, ('r, 's, 'o, 'b) asmState) fallible"

section \<open>Summary and publication\<close>

definition assemblyAudioBitrateK :: int where "assemblyAudioBitrateK = 128"

definition recordingStatus :: "bool \<Rightarrow> string" where
  "recordingStatus hasGaps = (if hasGaps then ''PARTIAL'' else ''READY'')"

definition recordingSummary :: "StreamInventory option \<Rightarrow> SegmentMeta list \<Rightarrow> int \<times> bool \<times> StreamCoverage" where
  "recordingSummary inventory metas =
     (let coverage = Reconcile inventory metas
      in (trunc_secs (RecordedDuration inventory metas), HasGaps coverage, coverage))"

definition loadSummary :: "('r, 's, 'o, 'b) asmEnv \<Rightarrow> string \<Rightarrow> SegmentMeta list \<Rightarrow> ('r, 's, 'o, 'b) asmState
    \<Rightarrow> (int \<times> bool \<times> StreamCoverage) \<times> ('r, 's, 'o, 'b) asmState" where
  "loadSummary env streamID metas s =
     (case on_redis (InventoryGet (e_exec env) streamID) s of
        (Inl _, s1) \<Rightarrow> (recordingSummary None metas, s1)
      | (Inr inventory, s1) \<Rightarrow> (recordingSummary inventory metas, s1))"

definition partChanged :: "RecordingAssemblyRequestedEvent \<Rightarrow> string \<Rightarrow> string \<Rightarrow> int \<Rightarrow> bool \<Rightarrow> asmError option
    \<Rightarrow> string \<Rightarrow> instant \<Rightarrow> RecordingPartChangedEvent" where
  "partChanged rq status objectKey durationSecs hasGaps msg eventID t =
     \<lparr>rp_EventID = eventID, rp_StreamID = rq_StreamID rq, rp_ScheduleID = rq_ScheduleID rq,
      rp_SessionID = rq_SessionID rq, rp_ParticipantID = rq_ParticipantID rq, rp_StreamType = rq_StreamType rq,
      rp_Source = rq_Source rq, rp_Status = status, rp_ObjectKey = objectKey, rp_DurationSecs = durationSecs,
      rp_HasGaps = hasGaps, rp_ErrorMessage = msg, rp_OccurredAt = t\<rparr>"

definition publishRecordingState :: "('r, 's, 'o, 'b) asmEnv \<Rightarrow> RecordingAssemblyRequestedEvent \<Rightarrow> string \<Rightarrow> string
    \<Rightarrow> int \<Rightarrow> bool \<Rightarrow> asmError option \<Rightarrow> (pubError, unit, ('r, 's, 'o, 'b) asmState) fallible" where
  "publishRecordingState env rq status objectKey durationSecs hasGaps msg s =
     (case on_os (e_uuid env) s of
        (None, s1) \<Rightarrow> (Inl UuidFailed, s1)
      | (Some eventID, s1) \<Rightarrow>
          (let (t, s2) = on_os (e_now env) s1;
               ev = partChanged rq status objectKey durationSecs hasGaps msg eventID t;
               (ok, s3) = on_os (e_publish env ev) s2
           in if ok then (Inr (), s3\<lparr>published := published s3 @ [ev]\<rparr>) else (Inl PublisherRefused, s3)))"

definition recordingRequestFromStreamEnded :: "StreamEndedEvent \<Rightarrow> RecordingAssemblyRequestedEvent" where
  "recordingRequestFromStreamEnded ev =
     \<lparr>rq_EventID = se_EventID ev, rq_StreamID = se_StreamID ev, rq_ScheduleID = se_ScheduleID ev,
      rq_SessionID = se_SessionID ev, rq_ParticipantID = se_ParticipantID ev, rq_StreamType = se_StreamType ev,
      rq_Source = ''SERVER_WEBRTC'', rq_RequestedAt = se_EndedAt ev\<rparr>"

section \<open>The steps on the job directory\<close>

definition jobDir :: "('r, 's, 'o, 'b) asmEnv \<Rightarrow> string \<Rightarrow> string" where
  "jobDir env streamID = path_join (e_workDir env) streamID"

definition set_file :: "string \<Rightarrow> string \<Rightarrow> 'b dfile \<Rightarrow> ('r, 's, 'o, 'b) asmState \<Rightarrow> ('r, 's, 'o, 'b) asmState" where
  "set_file dir name x s = s\<lparr>jobs := (jobs s)(dir := AList.update name x (jobs s dir))\<rparr>"

definition checkDiskSpace :: "('r, 's, 'o, 'b) asmEnv \<Rightarrow> int \<Rightarrow> (unit, 'r, 's, 'o, 'b) asm" where
  "checkDiskSpace env required s =
     (case on_os (e_diskFree env) s of
        (None, s1) \<Rightarrow> (Inr (), s1)
      | (Some available, s1) \<Rightarrow>
          (if available < required then Inl (DiskSpaceShort (required div 1048576) (available div 1048576))
           else Inr (), s1))"

definition segment_file :: "nat \<Rightarrow> string" where "segment_file i = pad0 4 i @ ''.mp4''"

definition download_one :: "('r, 's, 'o, 'b) asmEnv \<Rightarrow> string \<Rightarrow> nat \<Rightarrow> string \<Rightarrow> (storageError, unit, ('r, 's, 'o, 'b) asmState) fallible" where
  "download_one env key i dir s =
     (case DownloadSegmentToFile (e_send env) (e_fs env) (e_cfg env) key (s3W s, osW s) of
        (r, written, w, ow) \<Rightarrow>
          (let s1 = s\<lparr>s3W := w, osW := ow\<rparr>
           in (r, case written of None \<Rightarrow> s1 | Some x \<Rightarrow> set_file dir (segment_file i) x s1)))"

fun download_all :: "('r, 's, 'o, 'b) asmEnv \<Rightarrow> string list \<Rightarrow> string \<Rightarrow> nat list
    \<Rightarrow> (storageError, unit, ('r, 's, 'o, 'b) asmState) fallible" where
  "download_all env keys dir [] s = (Inr (), s)"
| "download_all env keys dir (i # is) s =
     bindE (download_one env (keys ! i) i dir) (\<lambda>_. download_all env keys dir is) s"

definition downloadSegments :: "('r, 's, 'o, 'b) asmEnv \<Rightarrow> string list \<Rightarrow> string
    \<Rightarrow> (storageError, unit, ('r, 's, 'o, 'b) asmState) fallible" where
  "downloadSegments env keys dir = download_all env keys dir (e_order env (length keys))"

definition needsAudioTranscode :: "string \<Rightarrow> bool" where
  "needsAudioTranscode codec \<longleftrightarrow> codec \<noteq> [] \<and> \<not> EqualFold codec ''aac''"

definition concat_args :: "string \<Rightarrow> string \<Rightarrow> string \<Rightarrow> string list" where
  "concat_args concatPath outputPath audioCodec =
     [''-hide_banner'', ''-loglevel'', ''error'', ''-f'', ''concat'', ''-safe'', ''0'', ''-i'', concatPath, ''-c'', ''copy'']
     @ (if needsAudioTranscode audioCodec
        then [''-c:a'', ''aac'', ''-b:a'', Itoa assemblyAudioBitrateK @ ''k''] else [])
     @ [''-movflags'', ''faststart'', ''-y'', outputPath]"

definition concat_run :: "('r, 's, 'o, 'b) asmEnv \<Rightarrow> string \<Rightarrow> string \<Rightarrow> ('b, 'r, 's, 'o, 'b) asm" where
  "concat_run env dir audioCodec s =
     (let args = concat_args (path_join dir ''concat_list.txt'') (path_join dir ''recording.mp4'') audioCodec
      in (case on_os (e_ffmpeg env (jobs s dir) args) s of
        (Inl (err, left), s1) \<Rightarrow>
          (Inl (FfmpegFailed err), if left then set_file dir ''recording.mp4'' Partial s1 else s1)
      | (Inr out, s1) \<Rightarrow> (Inr out, set_file dir ''recording.mp4'' (Blob out) s1)))"

text \<open>\<open>writeConcatList\<close>: one line per file, the base name with its quotes escaped.\<close>

fun escape_quotes :: "string \<Rightarrow> string" where
  "escape_quotes [] = []"
| "escape_quotes (c # cs) =
     (if c = CHR 0x27 then [CHR 0x27, CHR 0x5C, CHR 0x27, CHR 0x27] else [c]) @ escape_quotes cs"

definition concat_line :: "string \<Rightarrow> string" where
  "concat_line f = ''file '' @ [CHR 0x27] @ escape_quotes (path_base f) @ [CHR 0x27]"

definition writeConcatList :: "('r, 's, 'o, 'b) asmEnv \<Rightarrow> string \<Rightarrow> string list \<Rightarrow> (unit, 'r, 's, 'o, 'b) asm" where
  "writeConcatList env dir files =
     bindE (okOr ConcatListFailed (on_os (fs_create (e_fs env))))
       (\<lambda>_ s. (Inr (), set_file dir ''concat_list.txt'' (Lines (map concat_line files)) s))"

definition glob_mp4 :: "string \<Rightarrow> 'b listing \<Rightarrow> string list" where
  "glob_mp4 dir l = map (path_join dir) (filter (\<lambda>n. HasSuffix n ''.mp4'') (map fst l))"

text \<open>The audio codec of the first input, empty when it cannot be probed.\<close>

definition inputCodec :: "('r, 's, 'o, 'b) asmEnv \<Rightarrow> string \<Rightarrow> string \<Rightarrow> ('r, 's, 'o, 'b) asmState \<Rightarrow> string \<times> ('r, 's, 'o, 'b) asmState" where
  "inputCodec env dir path s =
     (case on_os (Probe (e_ffprobe env (jobs s dir)) path) s of
        (Inl _, s1) \<Rightarrow> ([], s1) | (Inr report, s1) \<Rightarrow> (a_Codec (pr_Audio report), s1))"

definition lookupSession :: "('r, 's, 'o, 'b) asmEnv \<Rightarrow> string \<Rightarrow> ('r, 's, 'o, 'b) asmState
    \<Rightarrow> UploadSession option \<times> ('r, 's, 'o, 'b) asmState" where
  "lookupSession env streamID s =
     (let (t, s1) = on_os (e_now env) s
      in (case on_redis (LookupUpload (e_exec env) t streamID) s1 of
            (Inl _, s2) \<Rightarrow> (None, s2) | (Inr u, s2) \<Rightarrow> (Some u, s2)))"

definition storeQualityReport :: "('r, 's, 'o, 'b) asmEnv \<Rightarrow> RecordingAssemblyRequestedEvent \<Rightarrow> string
    \<Rightarrow> RecordingQuality \<Rightarrow> StreamCoverage \<Rightarrow> UploadSession option \<Rightarrow> ('r, 's, 'o, 'b) asmState \<Rightarrow> ('r, 's, 'o, 'b) asmState" where
  "storeQualityReport env rq recordingKey quality coverage session s =
     (let (t, s1) = on_os (e_now env) s;
          report = newQualityReport rq recordingKey quality coverage session t
      in if \<not> encodable report then s1
         else snd (on_s3 (UploadQualityReport (e_send env) (e_cfg env) (rq_ScheduleID rq) (rq_SessionID rq)
                    (rq_StreamID rq) (e_render env report)) s1))"

section \<open>assemble\<close>

text \<open>From the upload of the joined file to the end; the report is best effort.\<close>

definition uploadAndAnnounce :: "('r, 's, 'o, 'b) asmEnv \<Rightarrow> RecordingAssemblyRequestedEvent \<Rightarrow> int \<times> bool \<times> StreamCoverage
    \<Rightarrow> UploadSession option \<Rightarrow> RecordingQuality \<Rightarrow> 'b \<Rightarrow> (unit, 'r, 's, 'o, 'b) asm" where
  "uploadAndAnnounce env rq summary session quality out =
     bindE (wrap UploadRecordingFailed (on_s3 (UploadFinalRecording (e_send env) (e_cfg env)
              (rq_ScheduleID rq) (rq_SessionID rq) (rq_StreamID rq) out)))
       (\<lambda>recordingKey s. (case summary of (durationSecs, hasGaps, coverage) \<Rightarrow>
          wrap StatePublishFailed
            (publishRecordingState env rq (recordingStatus hasGaps) recordingKey durationSecs hasGaps None)
            (storeQualityReport env rq recordingKey quality coverage session s)))"

definition runJob :: "('r, 's, 'o, 'b) asmEnv \<Rightarrow> RecordingAssemblyRequestedEvent \<Rightarrow> SegmentMeta list
    \<Rightarrow> int \<times> bool \<times> StreamCoverage \<Rightarrow> (unit, 'r, 's, 'o, 'b) asm" where
  "runJob env rq metas summary =
     (let dir = jobDir env (rq_StreamID rq); keys = map sm_S3Key metas in
      bindE (checkDiskSpace env (int (length metas) * 20 * 1024 * 1024 * 2 mod 2 ^ 64)) (\<lambda>_.
      bindE (wrap DownloadFailed (downloadSegments env keys dir)) (\<lambda>_ s.
        (let localFiles = sort (glob_mp4 dir (jobs s dir)) in
         if localFiles = [] then (Inl (NoSegmentsDownloaded (rq_StreamID rq)), s)
         else bindE (writeConcatList env dir localFiles) (\<lambda>_ s1.
           (case inputCodec env dir (hd localFiles) s1 of (audioCodec, s2) \<Rightarrow>
              bindE (concat_run env dir audioCodec) (\<lambda>out s3.
                (let (session, s4) = lookupSession env (rq_StreamID rq) s3;
                     ((quality, _), s5) = on_os (inspectRecording (e_ffprobe env (jobs s4 dir)) (e_volume env (jobs s4 dir))
                        (path_join dir ''recording.mp4'') (snd (snd summary)) session) s4
                 in bindE (okOr OpenOutputFailed (on_os (e_open env)))
                      (\<lambda>_. uploadAndAnnounce env rq summary session quality out) s5)) s2)) s))))"

text \<open>The deferred \<open>os.RemoveAll(jobDir)\<close>.\<close>

definition removeJobDir :: "('r, 's, 'o, 'b) asmEnv \<Rightarrow> string \<Rightarrow> ('r, 's, 'o, 'b) asmState \<Rightarrow> ('r, 's, 'o, 'b) asmState" where
  "removeJobDir env dir s =
     (case on_os (e_removeAll env) s of (ok, s1) \<Rightarrow> if ok then s1\<lparr>jobs := (jobs s1)(dir := [])\<rparr> else s1)"

definition assembleJob :: "('r, 's, 'o, 'b) asmEnv \<Rightarrow> RecordingAssemblyRequestedEvent \<Rightarrow> SegmentMeta list
    \<Rightarrow> int \<times> bool \<times> StreamCoverage \<Rightarrow> (unit, 'r, 's, 'o, 'b) asm" where
  "assembleJob env rq metas summary =
     bindE (okOr CreateJobDirFailed (on_os (e_mkdirAll env)))
       (\<lambda>_ s. (case runJob env rq metas summary s of
          (r, s1) \<Rightarrow> (r, removeJobDir env (jobDir env (rq_StreamID rq)) s1)))"

definition assembleBody :: "('r, 's, 'o, 'b) asmEnv \<Rightarrow> RecordingAssemblyRequestedEvent \<Rightarrow> (unit, 'r, 's, 'o, 'b) asm" where
  "assembleBody env rq =
     bindE (wrap ListSegmentsFailed (on_redis (SegmentList (e_exec env) (rq_StreamID rq)))) (\<lambda>metas s.
       if metas = [] then (Inl (NoSegmentsUploaded (rq_StreamID rq)), s)
       else bindE (okOr CtxDone (on_os (e_acquire env))) (\<lambda>_.
         bindE (wrap CheckExistingFailed (on_s3 (RecordingExists (e_send env) (e_cfg env)
                  (rq_ScheduleID rq) (rq_SessionID rq) (rq_StreamID rq)))) (\<lambda>existing s1.
           (case loadSummary env (rq_StreamID rq) metas s1 of (summary, s2) \<Rightarrow>
              if existing
              then wrap StatePublishFailed (publishRecordingState env rq (recordingStatus (fst (snd summary)))
                     (FinalRecordingKey (rq_ScheduleID rq) (rq_SessionID rq) (rq_StreamID rq))
                     (fst summary) (fst (snd summary)) None) s2
              else assembleJob env rq metas summary s2))) s)"

definition assemble :: "('r, 's, 'o, 'b) asmEnv \<Rightarrow> RecordingAssemblyRequestedEvent \<Rightarrow> (unit, 'r, 's, 'o, 'b) asm" where
  "assemble env rq s =
     (if rq_StreamID rq \<in> inFlight s then (Inr (), s)
      else (case assembleBody env rq (s\<lparr>inFlight := insert (rq_StreamID rq) (inFlight s)\<rparr>) of
              (r, s1) \<Rightarrow> (r, s1\<lparr>inFlight := inFlight s1 - {rq_StreamID rq}\<rparr>)))"

definition AssembleRequested :: "('r, 's, 'o, 'b) asmEnv \<Rightarrow> RecordingAssemblyRequestedEvent \<Rightarrow> (unit, 'r, 's, 'o, 'b) asm" where
  "AssembleRequested env rq s =
     (case assemble env rq s of
        (Inr _, s1) \<Rightarrow> (Inr (), s1)
      | (Inl (StatePublishFailed e), s1) \<Rightarrow> (Inl (StatePublishFailed e), s1)
      | (Inl err, s1) \<Rightarrow>
          (case publishRecordingState env rq ''FAILED'' [] 0 False (Some err) s1 of
             (Inl perr, s2) \<Rightarrow> (Inl (FailurePublishFailed err perr), s2)
           | (Inr _, s2) \<Rightarrow> (Inl err, s2)))"

definition Assemble :: "('r, 's, 'o, 'b) asmEnv \<Rightarrow> string \<Rightarrow> string \<Rightarrow> string \<Rightarrow> (unit, 'r, 's, 'o, 'b) asm" where
  "Assemble env scheduleID sessionID streamID s =
     (let (session, s1) = lookupSession env streamID s;
          (t, s2) = on_os (e_now env) s1;
          ev = \<lparr>rq_EventID = [], rq_StreamID = streamID, rq_ScheduleID = scheduleID, rq_SessionID = sessionID,
                rq_ParticipantID = (case session of None \<Rightarrow> [] | Some u \<Rightarrow> us_CandidateID u),
                rq_StreamType = (case session of None \<Rightarrow> [] | Some u \<Rightarrow> us_StreamType u),
                rq_Source = ''DESKTOP_SEGMENT_UPLOAD'', rq_RequestedAt = t\<rparr>
      in AssembleRequested env ev s2)"

definition disarmWatchdog :: "('r, 's, 'o, 'b) asmEnv \<Rightarrow> string \<Rightarrow> ('r, 's, 'o, 'b) asmState \<Rightarrow> ('r, 's, 'o, 'b) asmState" where
  "disarmWatchdog env streamID s = snd (on_redis (Cancel (e_exec env) streamID) s)"

definition OnStreamEnded :: "('r, 's, 'o, 'b) asmEnv \<Rightarrow> StreamEndedEvent \<Rightarrow> (unit, 'r, 's, 'o, 'b) asm" where
  "OnStreamEnded env ev =
     bindE (wrap CompletenessFailed (on_redis (IsComplete (e_exec env) (se_StreamID ev)))) (\<lambda>complete s.
       if complete
       then bindE (AssembleRequested env (recordingRequestFromStreamEnded ev))
              (\<lambda>_ s1. (Inr (), disarmWatchdog env (se_StreamID ev) s1)) s
       else (case on_os (e_now env) s of (t, s1) \<Rightarrow>
              wrap ScheduleFailed (on_redis (Schedule (e_exec env)
                \<lparr>pa_StreamID = se_StreamID ev, pa_ScheduleID = se_ScheduleID ev, pa_SessionID = se_SessionID ev,
                 pa_ParticipantID = se_ParticipantID ev, pa_StreamType = se_StreamType ev,
                 DueAt = t + e_gracePeriod env, Attempts = 0, Source = AssemblySourceWebRTC\<rparr>)) s1))"

section \<open>What each step leaves alone\<close>

text \<open>Between two states nothing was published, no stream entered or left, and no object changed.\<close>

definition quiet :: "('r, 's, 'o, 'b) asmState \<Rightarrow> ('r, 's, 'o, 'b) asmState \<Rightarrow> bool" where
  "quiet s s' \<longleftrightarrow> published s' = published s \<and> inFlight s' = inFlight s"

definition calm :: "('s \<Rightarrow> 'b objects) \<Rightarrow> ('r, 's, 'o, 'b) asmState \<Rightarrow> ('r, 's, 'o, 'b) asmState \<Rightarrow> bool" where
  "calm view s s' \<longleftrightarrow> quiet s s' \<and> view (s3W s') = view (s3W s)"

lemma calm_refl [simp]: "calm view s s" "quiet s s" by (simp_all add: calm_def quiet_def)
lemma calm_trans: "calm view a b \<Longrightarrow> calm view b c \<Longrightarrow> calm view a c" by (simp add: calm_def quiet_def)
lemma calm_quiet: "calm view a b \<Longrightarrow> quiet a b" by (simp add: calm_def)
lemma quiet_trans: "quiet a b \<Longrightarrow> quiet b c \<Longrightarrow> quiet a c" by (simp add: quiet_def)

lemma keepsD: "keeps R f \<Longrightarrow> f s = (r, s') \<Longrightarrow> R s s'"
  by (metis keeps_def snd_conv)

lemma calm_on [simp]:
  "keeps (calm view) (on_os f)" "keeps (calm view) (on_redis g)"
  by (simp_all add: keeps_def calm_def quiet_def on_os_def on_redis_def split_beta)

lemma calm_on_s3: "(\<And>w. view (snd (h w)) = view w) \<Longrightarrow> keeps (calm view) (on_s3 h)"
  by (simp add: keeps_def calm_def quiet_def on_s3_def split_beta)

lemma calm_okOr [simp]: "keeps (calm view) f \<Longrightarrow> keeps (calm view) (okOr e f)"
  by (simp add: keeps_def okOr_def split_beta)

lemma calm_wrap [simp]: "keeps (calm view) f \<Longrightarrow> keeps (calm view) (wrap h f)"
  by (simp add: keeps_def wrap_def split_beta)

lemma calm_set_file [simp]: "calm view s (set_file d n x t) \<longleftrightarrow> calm view s t"
  by (simp add: calm_def quiet_def set_file_def)

lemma calm_bindE: "keeps (calm view) f \<Longrightarrow> (\<And>x. keeps (calm view) (g x)) \<Longrightarrow> keeps (calm view) (bindE f g)"
  by (rule keeps_bindE [OF calm_trans])

lemma calm_osD: "on_os f s = (x, s') \<Longrightarrow> calm view s s'"
  by (rule keepsD [OF calm_on(1)])

lemma calm_redisD: "on_redis g s = (y, s') \<Longrightarrow> calm view s s'"
  by (rule keepsD [OF calm_on(2)])

lemma calm_checkDiskSpace: "keeps (calm view) (checkDiskSpace env n)"
  by (auto dest: calm_osD simp: keeps_def checkDiskSpace_def split: prod.splits option.splits)

lemma download_one_calm:
  fixes env :: "('r, 's, 'o, 'b) asmEnv"
  assumes "s3_conforms (e_send env) view"
  shows "keeps (calm view) (download_one env key i dir)"
  unfolding keeps_def
proof
  fix s :: "('r, 's, 'o, 'b) asmState"
  obtain r f w ow where d: "DownloadSegmentToFile (e_send env) (e_fs env) (e_cfg env) key (s3W s, osW s) = (r, f, w, ow)"
    by (metis prod.exhaust)
  obtain rep w1 where g: "e_send env (GetObject (RecordingBucket (e_cfg env)) key) (s3W s) = (rep, w1)"
    by (metis prod.exhaust)
  have "w = w1" using d g by (auto simp: DownloadSegmentToFile_def Let_def split: s3reply.splits prod.splits if_splits)
  then have "view w = view (s3W s)" using s3_conformsD [OF assms g] by (simp add: s3_doc_def)
  then show "calm view s (snd (download_one env key i dir s))"
    using d by (auto simp: download_one_def Let_def calm_def quiet_def set_file_def split: option.splits)
qed

lemma download_all_calm:
  assumes "s3_conforms (e_send env) view"
  shows "keeps (calm view) (download_all env keys dir is)"
proof (induction "is")
  case (Cons i "is")
  have "download_all env keys dir (i # is) =
    bindE (download_one env (keys ! i) i dir) (\<lambda>_. download_all env keys dir is)" by (rule ext) simp
  then show ?case using calm_bindE [OF download_one_calm [OF assms] Cons] by simp
qed (simp add: keeps_def)

lemma calm_writeConcatList: "keeps (calm view) (writeConcatList env dir files)"
  unfolding writeConcatList_def by (rule calm_bindE) (simp, simp add: keeps_def)

lemma calm_concat_run:
  fixes env :: "('r, 's, 'o, 'b) asmEnv"
  shows "keeps (calm view) (concat_run env dir codec)"
  unfolding keeps_def
proof
  fix s :: "('r, 's, 'o, 'b) asmState"
  obtain r t where o: "on_os (e_ffmpeg env (jobs s dir) (concat_args (path_join dir ''concat_list.txt'')
      (path_join dir ''recording.mp4'') codec)) s = (r, t)" by (metis prod.exhaust)
  from calm_osD [OF o] show "calm view s (snd (concat_run env dir codec s))"
    by (auto simp: concat_run_def o Let_def split: sum.splits prod.splits)
qed

lemma calm_inputCodec: "inputCodec env dir path s = (c, s') \<Longrightarrow> calm view s s'"
  by (auto dest: calm_osD simp: inputCodec_def split: prod.splits sum.splits)

lemma calm_lookupSession: "lookupSession env sid s = (u, s') \<Longrightarrow> calm view s s'"
  unfolding lookupSession_def Let_def
  by (auto split: prod.splits sum.splits dest!: calm_osD [where view = view] calm_redisD [where view = view]
      intro: calm_trans)

lemma calm_loadSummary: "loadSummary env sid metas s = (x, s') \<Longrightarrow> calm view s s'"
  unfolding loadSummary_def
  by (auto split: prod.splits sum.splits dest!: calm_redisD [where view = view])

lemma quiet_removeJobDir: "calm view s (removeJobDir env dir s)"
  unfolding removeJobDir_def
  by (auto split: prod.splits dest!: calm_osD [where view = view]) (simp add: calm_def quiet_def)

section \<open>Publication and the job\<close>

lemma publish_spec:
  assumes "publishRecordingState env rq st key d g msg s = (r, s')"
  shows "inFlight s' = inFlight s" "s3W s' = s3W s" "redisW s' = redisW s" "jobs s' = jobs s"
    "r = Inl e \<Longrightarrow> published s' = published s"
    "r = Inr u \<Longrightarrow> \<exists>i t. published s' = published s @ [partChanged rq st key d g msg i t]"
  using assms by (auto simp: publishRecordingState_def on_os_def Let_def split: prod.splits option.splits if_splits) blast

lemma wrap_eq: "wrap h f s = (r, s') \<longleftrightarrow> (\<exists>r0. f s = (r0, s') \<and> r = mapErr h r0)"
  by (auto simp: wrap_def split: prod.splits)

definition final_of :: "('r, 's, 'o, 'b) asmEnv \<Rightarrow> RecordingAssemblyRequestedEvent \<Rightarrow> string \<times> string" where
  "final_of env rq = (RecordingBucket (e_cfg env), FinalRecordingKey (rq_ScheduleID rq) (rq_SessionID rq) (rq_StreamID rq))"

lemma storeQualityReport_spec:
  fixes env :: "('r, 's, 'o, 'b) asmEnv"
  assumes "s3_conforms (e_send env) view"
  shows "quiet s (storeQualityReport env rq key q c u s)"
    and "view (s3W (storeQualityReport env rq key q c u s)) (final_of env rq) = view (s3W s) (final_of env rq)"
proof -
  obtain t s1 where n: "on_os (e_now env) s = (t, s1)" by (metis prod.exhaust)
  have c1: "calm view s s1" using n by (rule calm_osD)
  let ?b = "e_render env (newQualityReport rq key q c u t)"
  obtain r w where u: "UploadQualityReport (e_send env) (e_cfg env) (rq_ScheduleID rq) (rq_SessionID rq)
      (rq_StreamID rq) ?b (s3W s1) = (r, w)" by (metis prod.exhaust)
  have e: "storeQualityReport env rq key q c u s = s1\<lparr>s3W := w\<rparr>"
    using n u by (simp add: storeQualityReport_def Let_def encodable_report on_s3_def)
  show "quiet s (storeQualityReport env rq key q c u s)"
    using c1 e by (simp add: calm_def quiet_def)
  have ne: "final_of env rq \<noteq> (RecordingBucket (e_cfg env), QualityReportKey (rq_ScheduleID rq) (rq_SessionID rq) (rq_StreamID rq))"
    by (simp add: final_of_def FinalRecordingKey_def QualityReportKey_def)
  have "view w (final_of env rq) = view (s3W s1) (final_of env rq)"
  proof (cases r)
    case (Inl x)
    from put_as_spec(2) [OF assms u [unfolded UploadQualityReport_def] Inl] ne show ?thesis
      by (auto simp: stored_as_def)
  next
    case (Inr x)
    from put_as_spec(1) [OF assms u [unfolded UploadQualityReport_def] Inr] ne show ?thesis
      by (auto simp: stored_as_def)
  qed
  then show "view (s3W (storeQualityReport env rq key q c u s)) (final_of env rq) = view (s3W s) (final_of env rq)"
    using c1 e by (simp add: calm_def)
qed

lemma uploadAndAnnounce_spec:
  fixes env :: "('r, 's, 'o, 'b) asmEnv"
  assumes "s3_conforms (e_send env) view"
    and "uploadAndAnnounce env rq (d, g, c) u q out s = (r, s')"
  shows "inFlight s' = inFlight s" "r = Inl e \<Longrightarrow> published s' = published s"
    "r = Inr () \<Longrightarrow> view (s3W s') (final_of env rq) = Some (out, None)"
    "r = Inr () \<Longrightarrow> \<exists>i t. published s' = published s
       @ [partChanged rq (recordingStatus g) (snd (final_of env rq)) d g None i t]"
proof -
  let ?up = "UploadFinalRecording (e_send env) (e_cfg env) (rq_ScheduleID rq) (rq_SessionID rq) (rq_StreamID rq) out"
  obtain ru w where u: "?up (s3W s) = (ru, w)" by (metis prod.exhaust)
  let ?s1 = "s\<lparr>s3W := w\<rparr>"
  have o: "on_s3 ?up s = (ru, ?s1)" using u by (simp add: on_s3_def)
  have "inFlight s' = inFlight s \<and> (r = Inl e \<longrightarrow> published s' = published s)
    \<and> (r = Inr () \<longrightarrow> view (s3W s') (final_of env rq) = Some (out, None)
       \<and> (\<exists>i t. published s' = published s @ [partChanged rq (recordingStatus g) (snd (final_of env rq)) d g None i t]))"
  proof (cases ru)
    case (Inl x)
    then have "s' = ?s1" "r = Inl (UploadRecordingFailed x)"
      using assms(2) o by (auto simp: uploadAndAnnounce_def bindE_def wrap_def)
    then show ?thesis by simp
  next
    case (Inr key)
    from put_as_spec(1) [OF assms(1) u [unfolded UploadFinalRecording_def] Inr]
    have k: "key = snd (final_of env rq)" and v: "view w (final_of env rq) = Some (out, None)"
      by (simp_all add: final_of_def stored_as_def)
    let ?s2 = "storeQualityReport env rq key q c u ?s1"
    from assms(2) o Inr obtain r0 where
      p: "publishRecordingState env rq (recordingStatus g) key d g None ?s2 = (r0, s')" "r = mapErr StatePublishFailed r0"
      by (auto simp: uploadAndAnnounce_def bindE_def wrap_def split: prod.splits)
    have qs: "quiet s ?s2" using storeQualityReport_spec(1) [OF assms(1), of ?s1] by (simp add: quiet_def)
    have vs: "view (s3W ?s2) (final_of env rq) = Some (out, None)"
      using storeQualityReport_spec(2) [OF assms(1), of rq key q c u ?s1] v by simp
    show ?thesis using publish_spec [OF p(1)] p(2) qs vs k by (cases r0) (auto simp: quiet_def)
  qed
  then show "inFlight s' = inFlight s" "r = Inl e \<Longrightarrow> published s' = published s"
    "r = Inr () \<Longrightarrow> view (s3W s') (final_of env rq) = Some (out, None)"
    "r = Inr () \<Longrightarrow> \<exists>i t. published s' = published s
       @ [partChanged rq (recordingStatus g) (snd (final_of env rq)) d g None i t]" by auto
qed

text \<open>A job that ends without an error, step by step; an error leaves nothing published.\<close>

lemma download_calm:
  assumes "s3_conforms (e_send env) view" and "downloadSegments env keys dir s = (r, s')"
  shows "calm view s s'"
  using assms(2) keepsD [OF download_all_calm [OF assms(1)]] by (metis downloadSegments_def)

lemma runJob_success:
  fixes env :: "('r, 's, 'o, 'b) asmEnv"
  assumes "s3_conforms (e_send env) view"
    and "runJob env rq metas (d, g, c) s = (Inr (), s')"
  obtains sa sd s1 codec s2 out s3 u q s6 where
    "calm view s sa" "jobs sa = jobs s"
    "downloadSegments env (map sm_S3Key metas) (jobDir env (rq_StreamID rq)) sa = (Inr (), sd)"
    "writeConcatList env (jobDir env (rq_StreamID rq))
       (sort (glob_mp4 (jobDir env (rq_StreamID rq)) (jobs sd (jobDir env (rq_StreamID rq))))) sd = (Inr (), s1)"
    "jobs s2 = jobs s1"
    "concat_run env (jobDir env (rq_StreamID rq)) codec s2 = (Inr out, s3)"
    "calm view sd s6" "uploadAndAnnounce env rq (d, g, c) u q out s6 = (Inr (), s')"
proof -
  let ?dir = "jobDir env (rq_StreamID rq)"
  from assms(2) obtain sa sd s1 where
    1: "checkDiskSpace env (int (length metas) * 20 * 1024 * 1024 * 2 mod 2 ^ 64) s = (Inr (), sa)"
    and 2: "downloadSegments env (map sm_S3Key metas) ?dir sa = (Inr (), sd)"
    and 3: "writeConcatList env ?dir (sort (glob_mp4 ?dir (jobs sd ?dir))) sd = (Inr (), s1)"
    and rest: "(case inputCodec env ?dir (hd (sort (glob_mp4 ?dir (jobs sd ?dir)))) s1 of (audioCodec, s2) \<Rightarrow>
          bindE (concat_run env ?dir audioCodec) (\<lambda>out s3.
            (let (session, s4) = lookupSession env (rq_StreamID rq) s3;
                 ((quality, _), s5) = on_os (inspectRecording (e_ffprobe env (jobs s4 ?dir)) (e_volume env (jobs s4 ?dir))
                    (path_join ?dir ''recording.mp4'') c session) s4
             in bindE (okOr OpenOutputFailed (on_os (e_open env)))
                  (\<lambda>_. uploadAndAnnounce env rq (d, g, c) session quality out) s5)) s2) = (Inr (), s')"
    by (auto simp: runJob_def Let_def bindE_Inr_iff wrap_eq split: if_splits)
  obtain codec s2 where 4: "inputCodec env ?dir (hd (sort (glob_mp4 ?dir (jobs sd ?dir)))) s1 = (codec, s2)"
    by (metis prod.exhaust)
  from rest 4 obtain out s3 where 5: "concat_run env ?dir codec s2 = (Inr out, s3)"
    and rest2: "(let (session, s4) = lookupSession env (rq_StreamID rq) s3;
                 ((quality, _), s5) = on_os (inspectRecording (e_ffprobe env (jobs s4 ?dir)) (e_volume env (jobs s4 ?dir))
                    (path_join ?dir ''recording.mp4'') c session) s4
             in bindE (okOr OpenOutputFailed (on_os (e_open env)))
                  (\<lambda>_. uploadAndAnnounce env rq (d, g, c) session quality out) s5) = (Inr (), s')"
    by (auto simp: bindE_Inr_iff)
  obtain u s4 where 6: "lookupSession env (rq_StreamID rq) s3 = (u, s4)" by (metis prod.exhaust)
  obtain q l s5 where 7: "on_os (inspectRecording (e_ffprobe env (jobs s4 ?dir)) (e_volume env (jobs s4 ?dir))
      (path_join ?dir ''recording.mp4'') c u) s4 = ((q, l), s5)" by (metis prod.exhaust)
  from rest2 6 7 obtain s6 where 8: "okOr OpenOutputFailed (on_os (e_open env)) s5 = (Inr (), s6)"
    and 9: "uploadAndAnnounce env rq (d, g, c) u q out s6 = (Inr (), s')"
    by (auto simp: bindE_Inr_iff)
  have j: "jobs sa = jobs s" using 1
    by (auto simp: checkDiskSpace_def on_os_def split: prod.splits option.splits if_splits)
  have j2: "jobs s2 = jobs s1" using 4
    by (auto simp: inputCodec_def on_os_def split: prod.splits sum.splits)
  have "calm view sd s6"
    by (rule calm_trans [OF keepsD [OF calm_writeConcatList 3] calm_trans [OF calm_inputCodec [OF 4]
        calm_trans [OF keepsD [OF calm_concat_run 5] calm_trans [OF calm_lookupSession [OF 6]
        calm_trans [OF calm_osD [OF 7] keepsD [OF calm_okOr [OF calm_on(1)] 8]]]]]])
  with that keepsD [OF calm_checkDiskSpace 1] j 2 3 j2 5 9 show thesis by blast
qed

lemma runJob_failure:
  fixes env :: "('r, 's, 'o, 'b) asmEnv"
  assumes "s3_conforms (e_send env) view"
    and "runJob env rq metas (d, g, c) s = (Inl e, s')"
  shows "quiet s s'"
proof -
  let ?dir = "jobDir env (rq_StreamID rq)"
  have fin: "quiet a b" if "uploadAndAnnounce env rq (d, g, c) u qq out a = (Inl x, b)" for u qq out a x b
    using uploadAndAnnounce_spec(1,2) [OF assms(1) that] by (simp add: quiet_def)
  show ?thesis
    using assms(2) unfolding runJob_def Let_def
    by (auto split: prod.splits if_splits simp: wrap_eq calm_def quiet_def elim!: bindE_InlE
        dest!: keepsD [OF calm_checkDiskSpace [where view = view]] download_calm [OF assms(1)]
          keepsD [OF calm_writeConcatList [where view = view]] calm_inputCodec [where view = view]
          keepsD [OF calm_concat_run [where view = view]] calm_lookupSession [where view = view]
          calm_osD [where view = view] keepsD [OF calm_okOr [OF calm_on(1) [where view = view]]] fin)
qed

section \<open>What assemble promises\<close>

lemma assembleJob_eq:
  assumes "assembleJob env rq metas summary s = (r, s')"
  obtains "okOr CreateJobDirFailed (on_os (e_mkdirAll env)) s = (Inl CreateJobDirFailed, s')" "r = Inl CreateJobDirFailed"
  | s1 s2 where "okOr CreateJobDirFailed (on_os (e_mkdirAll env)) s = (Inr (), s1)"
      "runJob env rq metas summary s1 = (r, s2)" "s' = removeJobDir env (jobDir env (rq_StreamID rq)) s2"
  using assms by (auto simp: assembleJob_def bindE_def okOr_def split: prod.splits if_splits)

lemma assembleJob_spec:
  fixes env :: "('r, 's, 'o, 'b) asmEnv"
  assumes c: "s3_conforms (e_send env) view"
    and a: "assembleJob env rq metas (d, g, cv) s = (r, s')"
  shows "inFlight s' = inFlight s" "r = Inl e \<Longrightarrow> published s' = published s"
    "r = Inr () \<Longrightarrow> view (s3W s') (final_of env rq) \<noteq> None
       \<and> (\<exists>i t. published s' = published s
            @ [partChanged rq (recordingStatus g) (snd (final_of env rq)) d g None i t])"
proof -
  have "inFlight s' = inFlight s \<and> (r = Inl e \<longrightarrow> published s' = published s)
    \<and> (r = Inr () \<longrightarrow> view (s3W s') (final_of env rq) \<noteq> None \<and> (\<exists>i t. published s' = published s
            @ [partChanged rq (recordingStatus g) (snd (final_of env rq)) d g None i t]))"
    using a
  proof (cases rule: assembleJob_eq)
    case 1
    from keepsD [OF calm_okOr [OF calm_on(1) [where view = view]] 1(1)] 1(2) show ?thesis
      by (simp add: calm_def quiet_def)
  next
    case (2 s1 s2)
    from keepsD [OF calm_okOr [OF calm_on(1) [where view = view]] 2(1)]
    have q1: "published s1 = published s" "inFlight s1 = inFlight s" by (simp_all add: calm_def quiet_def)
    from quiet_removeJobDir [of view s2 env "jobDir env (rq_StreamID rq)"] 2(3)
    have q2: "published s' = published s2" "inFlight s' = inFlight s2" "view (s3W s') = view (s3W s2)"
      by (simp_all add: calm_def quiet_def)
    show ?thesis
    proof (cases r)
      case (Inl x)
      with runJob_failure [OF c, of rq metas d g cv s1 x s2] 2(2) q1 q2 show ?thesis by (simp add: quiet_def)
    next
      case (Inr x)
      with 2(2) have "runJob env rq metas (d, g, cv) s1 = (Inr (), s2)" by simp
      from c this obtain sa sd u q out s6 where
        r: "calm view s1 sa" "downloadSegments env (map sm_S3Key metas) (jobDir env (rq_StreamID rq)) sa = (Inr (), sd)"
          "calm view sd s6" "uploadAndAnnounce env rq (d, g, cv) u q out s6 = (Inr (), s2)"
        by (rule runJob_success)
      have p: "published s6 = published s1" "inFlight s6 = inFlight s1"
        using r(1) download_calm [OF c r(2)] r(3) by (simp_all add: calm_def quiet_def)
      from uploadAndAnnounce_spec [OF c r(4)] p q1 q2 Inr show ?thesis by simp
    qed
  qed
  then show "inFlight s' = inFlight s" "r = Inl e \<Longrightarrow> published s' = published s"
    "r = Inr () \<Longrightarrow> view (s3W s') (final_of env rq) \<noteq> None
       \<and> (\<exists>i t. published s' = published s
            @ [partChanged rq (recordingStatus g) (snd (final_of env rq)) d g None i t])" by auto
qed

lemma assembleBody_spec:
  fixes env :: "('r, 's, 'o, 'b) asmEnv"
  assumes c: "s3_conforms (e_send env) view"
    and a: "assembleBody env rq s = (r, s')"
  shows "inFlight s' = inFlight s \<and> (\<forall>e. r = Inl e \<longrightarrow> published s' = published s)
    \<and> (r = Inr () \<longrightarrow> view (s3W s') (final_of env rq) \<noteq> None
       \<and> (\<exists>inv metas i t. metas \<noteq> [] \<and> published s' = published s
            @ [partChanged rq (recordingStatus (HasGaps (Reconcile inv metas))) (snd (final_of env rq))
                 (trunc_secs (RecordedDuration inv metas)) (HasGaps (Reconcile inv metas)) None i t]))"
proof -
  obtain rm s1 where l: "on_redis (SegmentList (e_exec env) (rq_StreamID rq)) s = (rm, s1)" by (metis prod.exhaust)
  note c1 = calm_redisD [OF l, of view]
  show ?thesis
  proof (cases rm)
    case (Inl x)
    then show ?thesis using a l c1 by (auto simp: assembleBody_def bindE_def wrap_def calm_def quiet_def)
  next
    case (Inr metas)
    show ?thesis
    proof (cases "metas = []")
      case True
      then show ?thesis using a l c1 Inr by (auto simp: assembleBody_def bindE_def wrap_def calm_def quiet_def)
    next
      case False
      obtain ra s2 where q: "okOr CtxDone (on_os (e_acquire env)) s1 = (ra, s2)" by (metis prod.exhaust)
      note c2 = keepsD [OF calm_okOr [OF calm_on(1) [where view = view]] q]
      show ?thesis
      proof (cases ra)
        case (Inl x)
        then show ?thesis using a l Inr False q c1 c2
          by (auto simp: assembleBody_def bindE_def wrap_def calm_def quiet_def)
      next
        case R2: (Inr x)
        obtain rx w where e: "RecordingExists (e_send env) (e_cfg env) (rq_ScheduleID rq) (rq_SessionID rq)
            (rq_StreamID rq) (s3W s2) = (rx, w)" by (metis prod.exhaust)
        let ?s3 = "s2\<lparr>s3W := w\<rparr>"
        have vw: "view w = view (s3W s2)" using recording_exists_spec(1) [OF c e] .
        have o: "on_s3 (RecordingExists (e_send env) (e_cfg env) (rq_ScheduleID rq) (rq_SessionID rq)
            (rq_StreamID rq)) s2 = (rx, ?s3)" using e by (simp add: on_s3_def)
        show ?thesis
        proof (cases rx)
          case (Inl y)
          then show ?thesis using a l Inr False q R2 o c1 c2
            by (auto simp: assembleBody_def bindE_def wrap_def calm_def quiet_def)
        next
          case R3: (Inr existing)
          obtain summary s4 where ls: "loadSummary env (rq_StreamID rq) metas ?s3 = (summary, s4)" by (metis prod.exhaust)
          note c4 = calm_loadSummary [OF ls, of view]
          obtain i where sm: "summary = recordingSummary i metas"
            using ls by (auto simp: loadSummary_def split: prod.splits sum.splits)
          let ?cv = "Reconcile i metas" and ?d = "trunc_secs (RecordedDuration i metas)"
          have sm': "summary = (?d, HasGaps ?cv, ?cv)" by (simp add: sm recordingSummary_def Let_def)
          have base: "published s4 = published s" "inFlight s4 = inFlight s"
            using c1 c2 c4 by (simp_all add: calm_def quiet_def)
          have a': "(if existing then wrap StatePublishFailed (publishRecordingState env rq (recordingStatus (HasGaps ?cv))
                     (snd (final_of env rq)) ?d (HasGaps ?cv) None) s4
                   else assembleJob env rq metas summary s4) = (r, s')"
            using a l Inr False q R2 o R3 ls
            by (simp add: assembleBody_def bindE_def wrap_def sm' final_of_def split: if_splits)
          show ?thesis
          proof (cases existing)
            case True
            with a' obtain r0 where p: "publishRecordingState env rq (recordingStatus (HasGaps ?cv))
               (snd (final_of env rq)) ?d (HasGaps ?cv) None s4 = (r0, s')" "r = mapErr StatePublishFailed r0"
              by (auto simp: wrap_eq)
            have "view (s3W s') (final_of env rq) \<noteq> None"
              using publish_spec(2) [OF p(1)] recording_exists_spec(2) [OF c e, of existing] True R3 vw c4
              by (simp add: calm_def final_of_def)
            then show ?thesis using publish_spec [OF p(1)] p(2) base False by (cases r0) (simp_all, blast)
          next
            case no: False
            with a' have j: "assembleJob env rq metas (?d, HasGaps ?cv, ?cv) s4 = (r, s')" by (simp add: sm')
            show ?thesis
            proof (cases r)
              case (Inl y)
              then show ?thesis using assembleJob_spec(1,2) [OF c j] base by simp
            next
              case (Inr y)
              then have "r = Inr ()" by simp
              from assembleJob_spec(1) [OF c j] assembleJob_spec(3) [OF c j this] base False Inr show ?thesis
                by simp blast
            qed
          qed
        qed
      qed
    qed
  qed
qed

lemma assemble_spec:
  fixes env :: "('r, 's, 'o, 'b) asmEnv"
  assumes c: "s3_conforms (e_send env) view" and n: "rq_StreamID rq \<notin> inFlight s"
    and a: "assemble env rq s = (r, s')"
  shows "inFlight s' = inFlight s \<and> (\<forall>e. r = Inl e \<longrightarrow> published s' = published s)
    \<and> (r = Inr () \<longrightarrow> view (s3W s') (final_of env rq) \<noteq> None
       \<and> (\<exists>inv metas i t. metas \<noteq> [] \<and> published s' = published s
            @ [partChanged rq (recordingStatus (HasGaps (Reconcile inv metas))) (snd (final_of env rq))
                 (trunc_secs (RecordedDuration inv metas)) (HasGaps (Reconcile inv metas)) None i t]))"
proof -
  obtain s1 where b: "assembleBody env rq (s\<lparr>inFlight := insert (rq_StreamID rq) (inFlight s)\<rparr>) = (r, s1)"
    and s': "s' = s1\<lparr>inFlight := inFlight s1 - {rq_StreamID rq}\<rparr>"
    using a n by (auto simp: assemble_def split: prod.splits)
  from assembleBody_spec [OF c b] n show ?thesis by (simp add: s')
qed

text \<open>
  C12.  What a request to assemble promises, for a stream no other run owns: success means that the
  recording object is stored and exactly one event was published, READY or, when the reconciliation
  of the segments found gaps, PARTIAL, naming that object; failure means that exactly one FAILED event
  carrying the error was published, unless publishing itself is what failed; either way the stream
  is released.
\<close>

theorem assembly_outcome:
  fixes env :: "('r, 's, 'o, 'b) asmEnv"
  assumes "s3_conforms (e_send env) view" and "rq_StreamID rq \<notin> inFlight s"
    and "AssembleRequested env rq s = (r, s')"
  shows "inFlight s' = inFlight s
    \<and> (case r of
         Inr _ \<Rightarrow> view (s3W s') (RecordingBucket (e_cfg env),
              FinalRecordingKey (rq_ScheduleID rq) (rq_SessionID rq) (rq_StreamID rq)) \<noteq> None
           \<and> (\<exists>inv metas i t. metas \<noteq> [] \<and> published s' = published s
               @ [partChanged rq (if HasGaps (Reconcile inv metas) then ''PARTIAL'' else ''READY'')
                    (FinalRecordingKey (rq_ScheduleID rq) (rq_SessionID rq) (rq_StreamID rq))
                    (trunc_secs (RecordedDuration inv metas)) (HasGaps (Reconcile inv metas)) None i t])
       | Inl e \<Rightarrow> (\<exists>p. e = StatePublishFailed p) \<and> published s' = published s
           \<or> (\<exists>e0 p. e = FailurePublishFailed e0 p) \<and> published s' = published s
           \<or> (\<exists>i t. published s' = published s @ [partChanged rq ''FAILED'' [] 0 False (Some e) i t]))"
proof -
  obtain ra s1 where a: "assemble env rq s = (ra, s1)" by (metis prod.exhaust)
  note sp = assemble_spec [OF assms(1,2) a]
  show ?thesis
  proof (cases ra)
    case (Inr u)
    then have "r = Inr ()" "s' = s1" using assms(3) a by (simp_all add: AssembleRequested_def)
    then show ?thesis using sp Inr by (simp add: final_of_def recordingStatus_def)
  next
    case (Inl e)
    show ?thesis
    proof (cases "\<exists>p. e = StatePublishFailed p")
      case True
      then have "r = Inl e" "s' = s1" using assms(3) a Inl by (auto simp: AssembleRequested_def)
      then show ?thesis using sp Inl True by simp
    next
      case False
      obtain rp s2 where p: "publishRecordingState env rq ''FAILED'' [] 0 False (Some e) s1 = (rp, s2)"
        by (metis prod.exhaust)
      have e: "r = (case rp of Inl perr \<Rightarrow> Inl (FailurePublishFailed e perr) | Inr _ \<Rightarrow> Inl e)" "s' = s2"
        using assms(3) a Inl False p by (auto simp: AssembleRequested_def split: asmError.splits sum.splits)
      show ?thesis using publish_spec [OF p] sp Inl e by (cases rp) simp_all
    qed
  qed
qed

section \<open>The order of the numbered files\<close>

lemma append_less_iff [simp]: "(p @ x < p @ y) \<longleftrightarrow> x < (y :: string)"
  by (induction p) simp_all

lemma append_le_iff [simp]: "(p @ x \<le> p @ y) \<longleftrightarrow> x \<le> (y :: string)"
  by (simp add: le_less)

lemma digits_val_Cons: "digits_val (c # s) = digit_val c * 10 ^ length s + digits_val s"
proof (induction s rule: rev_induct)
  case Nil
  then show ?case by (simp add: digits_val_def)
next
  case (snoc x xs)
  then have "digits_val ((c # xs) @ [x]) = (digit_val c * 10 ^ length xs + digits_val xs) * 10 + digit_val x"
    by (subst digits_val_append) simp
  then show ?case by (simp add: algebra_simps)
qed

lemma digits_val_bound: "list_all is_digit s \<Longrightarrow> digits_val s < 10 ^ length s"
proof (induction s)
  case (Cons c s)
  then have "digit_val c \<le> 9" "digits_val s < 10 ^ length s" by (auto simp: is_digit_def digit_val_def)
  then have "digit_val c * 10 ^ length s + digits_val s < 9 * 10 ^ length s + 10 ^ length s"
    by (intro add_le_less_mono) auto
  then show ?case by (simp add: digits_val_Cons)
qed simp

lemma digits_less:
  assumes "list_all is_digit s" "list_all is_digit t" "length s = length t" "digits_val s < digits_val t"
  shows "s @ x < t @ (y :: string)"
  using assms
proof (induction s arbitrary: t)
  case (Cons c s)
  then obtain d u where t: "t = d # u" by (cases t) auto
  have l: "length s = length u" using Cons.prems(3) t by simp
  consider "digit_val c < digit_val d" | "digit_val c = digit_val d" | "digit_val d < digit_val c" by linarith
  then show ?case
  proof cases
    case 1
    then have "c < d" using Cons.prems(1,2) t by (auto simp: less_char_def is_digit_def digit_val_def)
    then show ?thesis by (simp add: t)
  next
    case 2
    have "48 \<le> (of_char c :: nat)" "48 \<le> (of_char d :: nat)"
      using Cons.prems(1,2) t by (auto simp: is_digit_def)
    then have "(of_char c :: nat) = of_char d" using 2 unfolding digit_val_def by linarith
    then have "c = d" by simp
    then show ?thesis using Cons t 2 by (simp add: digits_val_Cons)
  next
    case 3
    then have "Suc (digit_val d) * 10 ^ length u \<le> digit_val c * 10 ^ length u" by (intro mult_le_mono1) simp
    moreover have "digits_val u < 10 ^ length u" using Cons.prems(2) t by (intro digits_val_bound) simp
    ultimately show ?thesis using Cons.prems(4) t l by (simp add: digits_val_Cons)
  qed
qed simp

lemma itoa_nat_length: "n < 10 ^ Suc k \<Longrightarrow> length (itoa_nat n) \<le> Suc k"
proof (induction k arbitrary: n)
  case 0
  then show ?case by (subst itoa_nat.simps) simp
next
  case (Suc k)
  have "n div 10 < 10 ^ Suc k" using Suc.prems by (simp add: less_mult_imp_div_less)
  from Suc.IH [OF this] show ?case by (subst itoa_nat.simps) simp
qed

lemma pad0_length: "n < 10 ^ Suc k \<Longrightarrow> length (pad0 (Suc k) n) = Suc k"
  using itoa_nat_length [of n k] by (simp add: pad0_def)

lemma segment_file_less: "i < j \<Longrightarrow> j < 10000 \<Longrightarrow> segment_file i < segment_file j"
  unfolding segment_file_def by (rule digits_less) (simp_all add: pad0_length [of _ 3, simplified])

lemma segment_file_inject: "segment_file i = segment_file j \<Longrightarrow> i = j"
  by (simp add: segment_file_def pad0_inject)

lemma segment_files_sorted: "n \<le> 10000 \<Longrightarrow> sorted (map segment_file [0..<n])"
  using segment_file_less by (auto simp: sorted_iff_nth_mono_less intro: less_imp_le)

lemma segment_file_10000: "segment_file 10000 < segment_file 9999"
  by (simp add: segment_file_def pad0_def itoa_nat.simps less_char_def digit_def)

text \<open>
  The numbered names the downloads get, \<open>%04d.mp4\<close>, sort in the order of their numbers exactly
  up to 10000 segments; with one more the sorted concat list puts segment 10000 before segment
  1001.
\<close>

theorem numbering_limit: "sorted (map segment_file [0..<n]) \<longleftrightarrow> n \<le> 10000"
proof
  assume s: "sorted (map segment_file [0..<n])"
  show "n \<le> 10000"
  proof (rule ccontr)
    assume "\<not> n \<le> 10000"
    then have "map segment_file [0..<n] ! 9999 \<le> map segment_file [0..<n] ! 10000"
      by (intro sorted_nth_mono [OF s]) simp_all
    with \<open>\<not> n \<le> 10000\<close> have "segment_file 9999 \<le> segment_file 10000" by simp
    with segment_file_10000 show False by simp
  qed
qed (rule segment_files_sorted)

section \<open>What the recording holds\<close>

lemma download_one_file:
  fixes env :: "('r, 's, 'o, 'b) asmEnv"
  assumes "s3_conforms (e_send env) view" and "download_one env key i dir s = (Inr u, s')"
  shows "\<exists>b t. view (s3W s) (RecordingBucket (e_cfg env), key) = Some (b, t)
     \<and> jobs s' = (jobs s)(dir := AList.update (segment_file i) (Blob b) (jobs s dir))"
proof -
  obtain rep w1 where g: "e_send env (GetObject (RecordingBucket (e_cfg env)) key) (s3W s) = (rep, w1)"
    by (metis prod.exhaust)
  note d = s3_conformsD [OF assms(1) g]
  show ?thesis
    using assms(2) g d
    by (cases rep) (auto simp: download_one_def DownloadSegmentToFile_def Let_def set_file_def s3_doc_def
        split: prod.splits if_splits)
qed

lemma download_all_files:
  fixes env :: "('r, 's, 'o, 'b) asmEnv"
  assumes c: "s3_conforms (e_send env) view"
    and "download_all env keys dir is s = (Inr u, s')" and "distinct is" and "distinct (map fst (jobs s dir))"
  shows "(\<forall>i \<in> set is. \<exists>b t. view (s3W s) (RecordingBucket (e_cfg env), keys ! i) = Some (b, t)
        \<and> map_of (jobs s' dir) (segment_file i) = Some (Blob b))
    \<and> (\<forall>n. n \<notin> segment_file ` set is \<longrightarrow> map_of (jobs s' dir) n = map_of (jobs s dir) n)
    \<and> fst ` set (jobs s' dir) = fst ` set (jobs s dir) \<union> segment_file ` set is
    \<and> distinct (map fst (jobs s' dir))"
  using assms(2-)
proof (induction "is" arbitrary: s)
  case (Cons i "is")
  obtain v s1 where o: "download_one env (keys ! i) i dir s = (Inr v, s1)"
    and r: "download_all env keys dir is s1 = (Inr u, s')"
    using Cons.prems(1) by (auto simp: bindE_Inr_iff)
  obtain b t where b: "view (s3W s) (RecordingBucket (e_cfg env), keys ! i) = Some (b, t)"
    "jobs s1 dir = AList.update (segment_file i) (Blob b) (jobs s dir)"
    using download_one_file [OF c o] by auto
  have v: "view (s3W s1) = view (s3W s)" using keepsD [OF download_one_calm [OF c] o] by (simp add: calm_def)
  have ds: "distinct (map fst (jobs s1 dir))" using Cons.prems(3) b(2) by (simp add: distinct_update)
  have ni: "segment_file i \<notin> segment_file ` set is" using Cons.prems(2) segment_file_inject by auto
  note ih = Cons.IH [OF r _ ds]
  from ih Cons.prems(2) v b ni show ?case by (auto simp: update_conv)
qed simp

text \<open>
  ffmpeg's concat demuxer and muxer: when the list names plain files of the directory and the run
  succeeds, the output joins them in the order of the list; \<open>cat\<close> is that join, with or without
  transcoding the audio.
\<close>

definition plain_name :: "string \<Rightarrow> bool" where
  "plain_name n \<longleftrightarrow> set n \<inter> {CHR 0x27, CHR 0x5C, CHR ''/'', CHR 0x0A} = {} \<and> n \<noteq> []"

definition ffmpeg_concat_doc :: "('b listing \<Rightarrow> string list \<Rightarrow> 'o \<Rightarrow> (string \<times> bool + 'b) \<times> 'o)
    \<Rightarrow> (bool \<Rightarrow> 'b list \<Rightarrow> 'b) \<Rightarrow> bool" where
  "ffmpeg_concat_doc ff cat \<longleftrightarrow> (\<forall>l dir codec names bs ow out ow'.
     map_of l ''concat_list.txt'' = Some (Lines (map (\<lambda>n. ''file '' @ [CHR 0x27] @ n @ [CHR 0x27]) names))
     \<and> list_all plain_name names \<and> ''recording.mp4'' \<notin> set names
     \<and> list_all2 (\<lambda>n b. map_of l n = Some (Blob b)) names bs
     \<and> ff l (concat_args (path_join dir ''concat_list.txt'') (path_join dir ''recording.mp4'') codec) ow = (Inr out, ow')
     \<longrightarrow> out = cat (needsAudioTranscode codec) bs)"

lemma escape_plain: "CHR 0x27 \<notin> set n \<Longrightarrow> escape_quotes n = n"
  by (induction n) auto

lemma segment_file_chars: "c \<in> set (segment_file i) \<Longrightarrow> is_digit c \<or> c \<in> {CHR ''.'', CHR ''m'', CHR ''p'', CHR ''4''}"
  by (auto simp: segment_file_def dest: pad0_chars)

lemma segment_file_plain: "plain_name (segment_file i)" "segment_file i \<noteq> ''recording.mp4''"
  "segment_file i \<noteq> ''concat_list.txt''"
proof -
  show "plain_name (segment_file i)"
  proof -
    have "CHR 0x27 \<notin> set (segment_file i)" "CHR 0x5C \<notin> set (segment_file i)" "CHR ''/'' \<notin> set (segment_file i)"
      "CHR 0x0A \<notin> set (segment_file i)"
      using segment_file_chars [of "CHR 0x27" i] segment_file_chars [of "CHR 0x5C" i]
        segment_file_chars [of "CHR ''/''" i] segment_file_chars [of "CHR 0x0A" i]
      by (auto simp: is_digit_def)
    moreover have "segment_file i \<noteq> []" by (simp add: segment_file_def)
    ultimately show ?thesis by (simp add: plain_name_def)
  qed
  have "is_digit (hd (segment_file i))"
    using pad0_chars [of "hd (pad0 4 i)" 4 i] by (simp add: segment_file_def)
  then show "segment_file i \<noteq> ''recording.mp4''" "segment_file i \<noteq> ''concat_list.txt''"
    by (auto simp: is_digit_def)
qed

lemma concat_line_segment:
  assumes "dir \<noteq> []"
  shows "concat_line (path_join dir (segment_file i)) = ''file '' @ [CHR 0x27] @ segment_file i @ [CHR 0x27]"
proof -
  have p: "plain_name (segment_file i)" by (rule segment_file_plain)
  then have "path_base (path_join dir (segment_file i)) = segment_file i"
    using assms by (intro path_base_join) (auto simp: plain_name_def)
  with p show ?thesis by (simp add: concat_line_def escape_plain plain_name_def)
qed

lemma sorted_segment_paths:
  assumes "dir \<noteq> []" and "n \<le> 10000" and "distinct ns" and "set ns = segment_file ` {..<n}"
  shows "sort (map (path_join dir) ns) = map (path_join dir) (map segment_file [0..<n])"
proof -
  have j: "x \<noteq> [] \<Longrightarrow> path_join dir x = dir @ ''/'' @ x" for x using assms(1) by (simp add: path_join_def)
  have ne: "segment_file i \<noteq> []" for i by (simp add: segment_file_def)
  have srt: "sorted (map (path_join dir) (map segment_file [0..<n]))"
    using segment_files_sorted [OF assms(2)]
    by (auto simp: sorted_iff_nth_mono j ne)
  have "inj_on (path_join dir) (set ns)" using assms(4) j ne by (auto simp: inj_on_def)
  then have d: "distinct (map (path_join dir) ns)" using assms(3) by (simp add: distinct_map)
  have d2: "distinct (map (path_join dir) (map segment_file [0..<n]))"
    using j ne segment_file_inject by (auto simp: distinct_map inj_on_def)
  have "set (sort (map (path_join dir) ns)) = set (map (path_join dir) (map segment_file [0..<n]))"
    using assms(4) by (simp add: lessThan_atLeast0 image_image)
  then show ?thesis using d d2 srt by (intro sorted_distinct_set_unique) simp_all
qed

lemma path_join_suffix:
  assumes "dir \<noteq> []" and "n \<noteq> []"
  shows "path_join dir n = dir @ ''/'' @ n"
  using assms by (simp add: path_join_def)

lemma concat_run_output:
  assumes "concat_run env dir codec s = (Inr out, s')"
  shows "\<exists>ow ow'. e_ffmpeg env (jobs s dir) (concat_args (path_join dir ''concat_list.txt'')
      (path_join dir ''recording.mp4'') codec) ow = (Inr out, ow')"
  using assms by (auto simp: concat_run_def Let_def on_os_def split: prod.splits sum.splits)

lemma writeConcatList_jobs:
  assumes "writeConcatList env dir files s = (Inr (), s')"
  shows "jobs s' dir = AList.update ''concat_list.txt'' (Lines (map concat_line files)) (jobs s dir)"
  using assms by (auto simp: writeConcatList_def bindE_Inr_iff okOr_def on_os_def set_file_def split: prod.splits if_splits)

text \<open>The listing after the downloads, when no earlier run left a recording or segment behind.\<close>

lemma downloads_listing:
  fixes env :: "('r, 's, 'o, 'b) asmEnv"
  assumes c: "s3_conforms (e_send env) view"
    and d: "downloadSegments env keys dir s = (Inr (), s')"
    and o: "distinct (e_order env (length keys))" "set (e_order env (length keys)) = {..<length keys}"
    and clean: "jobs s dir = []" and ne: "dir \<noteq> []" and small: "length keys \<le> 10000"
  shows "sort (glob_mp4 dir (jobs s' dir)) = map (path_join dir) (map segment_file [0..<length keys])"
    and "\<forall>i < length keys. \<exists>b t. view (s3W s) (RecordingBucket (e_cfg env), keys ! i) = Some (b, t)
        \<and> map_of (jobs s' dir) (segment_file i) = Some (Blob b)"
proof -
  have a: "download_all env keys dir (e_order env (length keys)) s = (Inr (), s')"
    using d by (simp add: downloadSegments_def)
  have "distinct (map fst (jobs s dir))" using clean by simp
  note f = download_all_files [OF c a o(1) this]
  from f o(2) show "\<forall>i < length keys. \<exists>b t. view (s3W s) (RecordingBucket (e_cfg env), keys ! i) = Some (b, t)
        \<and> map_of (jobs s' dir) (segment_file i) = Some (Blob b)" by auto
  from f o(2) clean have names: "fst ` set (jobs s' dir) = segment_file ` {..<length keys}"
    and dn: "distinct (map fst (jobs s' dir))" by auto
  let ?ns = "filter (\<lambda>n. HasSuffix n ''.mp4'') (map fst (jobs s' dir))"
  have suf: "HasSuffix (segment_file i) ''.mp4''" for i by (simp add: segment_file_def suffix_def)
  have "set ?ns = segment_file ` {..<length keys}" using names suf by auto
  moreover have "distinct ?ns" using dn by simp
  ultimately show "sort (glob_mp4 dir (jobs s' dir)) = map (path_join dir) (map segment_file [0..<length keys])"
    unfolding glob_mp4_def using sorted_segment_paths [OF ne small] by blast
qed

lemma SegmentList_sorted: "SegmentList exec sid w = (Inr metas, w') \<Longrightarrow> sorted (map sm_Seq metas)"
  by (auto simp: SegmentList_def hash_list_def split: prod.splits reply.splits)

lemma runJob_content:
  fixes env :: "('r, 's, 'o, 'b) asmEnv"
  assumes c: "s3_conforms (e_send env) view" and ff: "ffmpeg_concat_doc (e_ffmpeg env) cat"
    and o: "\<And>n. distinct (e_order env n) \<and> set (e_order env n) = {..<n}"
    and run: "runJob env rq metas (d, g, cv) s = (Inr (), s')"
    and clean: "jobs s (jobDir env (rq_StreamID rq)) = []" and ne: "jobDir env (rq_StreamID rq) \<noteq> []"
    and small: "length metas \<le> 10000"
  shows "\<exists>codec bs. list_all2 (\<lambda>m b. \<exists>t. view (s3W s) (RecordingBucket (e_cfg env), sm_S3Key m) = Some (b, t)) metas bs
     \<and> view (s3W s') (final_of env rq) = Some (cat (needsAudioTranscode codec) bs, None)"
proof -
  let ?dir = "jobDir env (rq_StreamID rq)" and ?keys = "map sm_S3Key metas"
  from c run obtain sa sd s1 codec s2 out s3 u q s6 where
    r: "calm view s sa" "jobs sa = jobs s" "downloadSegments env ?keys ?dir sa = (Inr (), sd)"
      "writeConcatList env ?dir (sort (glob_mp4 ?dir (jobs sd ?dir))) sd = (Inr (), s1)" "jobs s2 = jobs s1"
      "concat_run env ?dir codec s2 = (Inr out, s3)" "uploadAndAnnounce env rq (d, g, cv) u q out s6 = (Inr (), s')"
    by (rule runJob_success)
  have k: "length ?keys \<le> 10000" using small by simp
  have cl: "jobs sa ?dir = []" using r(2) clean by simp
  note L = downloads_listing [OF c r(3) _ _ cl ne k]
  have srt: "sort (glob_mp4 ?dir (jobs sd ?dir)) = map (path_join ?dir) (map segment_file [0..<length metas])"
    using L(1) o by simp
  have fs: "\<exists>b. \<exists>t. view (s3W s) (RecordingBucket (e_cfg env), ?keys ! i) = Some (b, t)
      \<and> map_of (jobs sd ?dir) (segment_file i) = Some (Blob b)" if "i < length metas" for i
    using L(2) o that r(1) by (simp add: calm_def)
  then obtain blob where bl: "\<And>i. i < length metas \<Longrightarrow> \<exists>t. view (s3W s) (RecordingBucket (e_cfg env), ?keys ! i) = Some (blob i, t)"
    "\<And>i. i < length metas \<Longrightarrow> map_of (jobs sd ?dir) (segment_file i) = Some (Blob (blob i))" by metis
  let ?names = "map segment_file [0..<length metas]" and ?bs = "map blob [0..<length metas]"
  have j1: "jobs s2 ?dir = AList.update ''concat_list.txt'' (Lines (map (\<lambda>n. ''file '' @ [CHR 0x27] @ n @ [CHR 0x27]) ?names))
      (jobs sd ?dir)"
    using writeConcatList_jobs [OF r(4)] r(5) concat_line_segment [OF ne] by (simp add: srt comp_def)
  have doc: "map_of (jobs s2 ?dir) ''concat_list.txt'' = Some (Lines (map (\<lambda>n. ''file '' @ [CHR 0x27] @ n @ [CHR 0x27]) ?names))"
    "list_all plain_name ?names"
    "list_all2 (\<lambda>n b. map_of (jobs s2 ?dir) n = Some (Blob b)) ?names ?bs"
    using bl(2) segment_file_plain by (auto simp: j1 update_conv list_all_iff list_all2_conv_all_nth)
  moreover have "''recording.mp4'' \<notin> set ?names" using segment_file_plain(2) by (auto dest: sym)
  moreover obtain ow ow' where "e_ffmpeg env (jobs s2 ?dir) (concat_args (path_join ?dir ''concat_list.txt'')
      (path_join ?dir ''recording.mp4'') codec) ow = (Inr out, ow')"
    using concat_run_output [OF r(6)] by blast
  ultimately have out: "out = cat (needsAudioTranscode codec) ?bs"
    using ff unfolding ffmpeg_concat_doc_def by blast
  have "list_all2 (\<lambda>m b. \<exists>t. view (s3W s) (RecordingBucket (e_cfg env), sm_S3Key m) = Some (b, t)) metas ?bs"
    using bl(1) by (simp add: list_all2_conv_all_nth)
  then show ?thesis using uploadAndAnnounce_spec(3) [OF c r(7)] out by blast
qed

text \<open>
  C1.  The recording is the stream: when a run that owns the stream succeeds on a stream of at most
  10000 segments that had no recording, with a job directory no earlier run left files in, the stored
  recording is the ffmpeg join of the stored segment objects, each once, in the order of their
  sequence numbers -- whatever order the concurrent downloads took.
\<close>

theorem assembled_content:
  fixes env :: "('r, 's, 'o, 'b) asmEnv"
  assumes "s3_conforms (e_send env) view" and "ffmpeg_concat_doc (e_ffmpeg env) cat"
    and "\<And>n. distinct (e_order env n) \<and> set (e_order env n) = {..<n}"
    and "rq_StreamID rq \<notin> inFlight s" and "assemble env rq s = (Inr (), s')"
    and "fst (SegmentList (e_exec env) (rq_StreamID rq) (redisW s)) = Inr metas" and "length metas \<le> 10000"
    and "view (s3W s) (RecordingBucket (e_cfg env),
           FinalRecordingKey (rq_ScheduleID rq) (rq_SessionID rq) (rq_StreamID rq)) = None"
    and "jobs s (jobDir env (rq_StreamID rq)) = []" and "jobDir env (rq_StreamID rq) \<noteq> []"
  shows "sorted (map sm_Seq metas) \<and> (\<exists>codec bs.
     list_all2 (\<lambda>m b. \<exists>t. view (s3W s) (RecordingBucket (e_cfg env), sm_S3Key m) = Some (b, t)) metas bs
     \<and> view (s3W s') (RecordingBucket (e_cfg env),
           FinalRecordingKey (rq_ScheduleID rq) (rq_SessionID rq) (rq_StreamID rq))
         = Some (cat (needsAudioTranscode codec) bs, None))"
proof -
  let ?s0 = "s\<lparr>inFlight := insert (rq_StreamID rq) (inFlight s)\<rparr>"
  obtain rw where l: "SegmentList (e_exec env) (rq_StreamID rq) (redisW s) = (Inr metas, rw)"
    using assms(6) by (metis prod.collapse)
  let ?s1 = "?s0\<lparr>redisW := rw\<rparr>"
  have lo: "on_redis (SegmentList (e_exec env) (rq_StreamID rq)) ?s0 = (Inr metas, ?s1)"
    using l by (simp add: on_redis_def)
  from assms(4,5) obtain sb where b: "assembleBody env rq ?s0 = (Inr (), sb)" "s3W s' = s3W sb"
    by (auto simp: assemble_def split: prod.splits)
  obtain s2 ex s3 where q: "okOr CtxDone (on_os (e_acquire env)) ?s1 = (Inr (), s2)"
    and e: "on_s3 (RecordingExists (e_send env) (e_cfg env) (rq_ScheduleID rq) (rq_SessionID rq) (rq_StreamID rq)) s2 = (Inr ex, s3)"
    and body: "(case loadSummary env (rq_StreamID rq) metas s3 of (summary, s2) \<Rightarrow>
              if ex then wrap StatePublishFailed (publishRecordingState env rq (recordingStatus (fst (snd summary)))
                     (FinalRecordingKey (rq_ScheduleID rq) (rq_SessionID rq) (rq_StreamID rq))
                     (fst summary) (fst (snd summary)) None) s2
              else assembleJob env rq metas summary s2) = (Inr (), sb)"
    using b(1) lo by (auto simp: assembleBody_def bindE_Inr_iff wrap_eq split: if_splits)
  obtain w where ew: "RecordingExists (e_send env) (e_cfg env) (rq_ScheduleID rq) (rq_SessionID rq) (rq_StreamID rq) (s3W s2)
      = (Inr ex, w)" "s3 = s2\<lparr>s3W := w\<rparr>" using e by (auto simp: on_s3_def split: prod.splits)
  have v2: "view (s3W s2) = view (s3W s)"
    using keepsD [OF calm_okOr [OF calm_on(1) [where view = view]] q] by (simp add: calm_def)
  have v3: "view (s3W s3) = view (s3W s)" using recording_exists_spec(1) [OF assms(1) ew(1)] ew(2) v2 by simp
  have "\<not> ex" using recording_exists_spec(2) [OF assms(1) ew(1), of ex] v2 assms(8) by simp
  obtain sm s4 where ls: "loadSummary env (rq_StreamID rq) metas s3 = (sm, s4)" by (metis prod.exhaust)
  obtain d g cv where sm: "sm = (d, g, cv)" by (metis prod.exhaust)
  have j: "assembleJob env rq metas (d, g, cv) s4 = (Inr (), sb)" using body ls \<open>\<not> ex\<close> sm by simp
  from assembleJob_eq [OF j] obtain s5 s6 where
    k: "okOr CreateJobDirFailed (on_os (e_mkdirAll env)) s4 = (Inr (), s5)" "runJob env rq metas (d, g, cv) s5 = (Inr (), s6)"
      "sb = removeJobDir env (jobDir env (rq_StreamID rq)) s6" by auto
  have v5: "view (s3W s5) = view (s3W s)"
    using keepsD [OF calm_okOr [OF calm_on(1) [where view = view]] k(1)] calm_loadSummary [OF ls, of view] v3
    by (simp add: calm_def)
  have "jobs s5 = jobs s4" "jobs s4 = jobs s3" "jobs s3 = jobs s2" "jobs s2 = jobs s"
    using k(1) ls ew(2) q by (auto simp: okOr_def on_os_def loadSummary_def on_redis_def split: prod.splits sum.splits if_splits)
  then have "jobs s5 (jobDir env (rq_StreamID rq)) = []" using assms(9) by simp
  from runJob_content [OF assms(1-3) k(2) this assms(10,7)] v5
  obtain codec bs where "list_all2 (\<lambda>m b. \<exists>t. view (s3W s) (RecordingBucket (e_cfg env), sm_S3Key m) = Some (b, t)) metas bs"
    "view (s3W s6) (final_of env rq) = Some (cat (needsAudioTranscode codec) bs, None)" by auto
  moreover have "view (s3W s') = view (s3W s6)"
    using quiet_removeJobDir [of view s6 env] k(3) b(2) by (simp add: calm_def)
  ultimately show ?thesis using SegmentList_sorted [OF l] unfolding final_of_def by auto
qed

section \<open>A second trigger while a run is under way\<close>

text \<open>
  A completion that arrives while another run owns the stream returns at once and disarms the
  watchdog: nothing is published, no object is touched, the job directory is left to its owner,
  and the pending entry is cancelled although no recording exists yet.
\<close>

theorem ended_while_running:
  assumes "se_StreamID ev \<in> inFlight s"
    and "IsComplete (e_exec env) (se_StreamID ev) (redisW s) = (Inr True, rw)"
  shows "OnStreamEnded env ev s = (Inr (), s\<lparr>redisW := snd (Cancel (e_exec env) (se_StreamID ev) rw)\<rparr>)"
  using assms
  by (simp add: OnStreamEnded_def bindE_def wrap_def on_redis_def AssembleRequested_def assemble_def
      recordingRequestFromStreamEnded_def disarmWatchdog_def split_beta)

section \<open>A run in memory\<close>

definition demo_meta :: "int \<Rightarrow> SegmentMeta" where
  "demo_meta q = \<lparr>sm_Seq = q, sm_S3Key = ''k'' @ Itoa q, sm_SHA256 = [], sm_StartedAt = q * second,
     sm_EndedAt = (q + 1) * second, sm_SizeBytes = 1, sm_UploadedAt = 0\<rparr>"

definition demo_redis :: keyspace where
  "demo_redis = snd (SegmentAdd mem_exec ''a'' (demo_meta 1) (snd (SegmentAdd mem_exec ''a'' (demo_meta 2) Map.empty)))"

definition demo_objects :: "string objects" where
  "demo_objects = [(''vox-recordings'', ''k1'') \<mapsto> (''one'', None), (''vox-recordings'', ''k2'') \<mapsto> (''two'', None)]"

text \<open>An ffmpeg that joins the listed files by appending them.\<close>

definition demo_ffmpeg :: "string listing \<Rightarrow> string list \<Rightarrow> unit \<Rightarrow> (string \<times> bool + string) \<times> unit" where
  "demo_ffmpeg l args w =
     (let names = (case map_of l ''concat_list.txt'' of Some (Lines ls) \<Rightarrow> map (\<lambda>x. butlast (drop 6 x)) ls | _ \<Rightarrow> []);
          blobs = map (\<lambda>n. case map_of l n of Some (Blob b) \<Rightarrow> b | _ \<Rightarrow> []) names
      in (Inr (concat blobs), w))"

definition demo_env :: "(keyspace, string objects, unit, string) asmEnv" where
  "demo_env = \<lparr>e_exec = mem_exec, e_send = mem_s3, e_cfg = DefaultConfig [],
     e_fs = \<lparr>fs_create = Pair True, fs_copy = Pair True\<rparr>, e_workDir = ''/w'', e_gracePeriod = minute,
     e_now = Pair 0, e_uuid = Pair (Some ''u''), e_publish = (\<lambda>_. Pair True), e_acquire = Pair True,
     e_mkdirAll = Pair True, e_removeAll = Pair True, e_open = Pair True, e_diskFree = Pair None,
     e_order = (\<lambda>n. rev [0..<n]), e_ffprobe = (\<lambda>_ _. Pair (Inl [])), e_volume = (\<lambda>_ _. Pair (Inl [])),
     e_ffmpeg = demo_ffmpeg, e_render = (\<lambda>_. ''{}'')\<rparr>"

definition demo_request :: RecordingAssemblyRequestedEvent where
  "demo_request = \<lparr>rq_EventID = ''e'', rq_StreamID = ''a'', rq_ScheduleID = ''x'', rq_SessionID = ''y'',
     rq_ParticipantID = ''p'', rq_StreamType = ''camera'', rq_Source = ''SERVER_WEBRTC'', rq_RequestedAt = 0\<rparr>"

definition demo_state :: "(keyspace, string objects, unit, string) asmState" where
  "demo_state = \<lparr>inFlight = {}, jobs = (\<lambda>_. []), redisW = demo_redis, s3W = demo_objects, osW = (), published = []\<rparr>"

lemma demo_env_ok:
  "s3_conforms (e_send demo_env) (\<lambda>m. m)"
  "ffmpeg_concat_doc (e_ffmpeg demo_env) (\<lambda>_. concat)"
  "\<And>n. distinct (e_order demo_env n) \<and> set (e_order demo_env n) = {..<n}"
proof -
  show "s3_conforms (e_send demo_env) (\<lambda>m. m)" by (simp add: demo_env_def mem_s3_conforms)
  show "distinct (e_order demo_env n) \<and> set (e_order demo_env n) = {..<n}" for n
    by (simp add: demo_env_def lessThan_atLeast0)
  have b: "map (\<lambda>n. case map_of l n of Some (Blob b) \<Rightarrow> b | _ \<Rightarrow> []) names = bs"
    if "list_all2 (\<lambda>n b. map_of l n = Some (Blob b)) names bs" for l :: "string listing" and names bs
    using that by (induction rule: list_all2_induct) simp_all
  show "ffmpeg_concat_doc (e_ffmpeg demo_env) (\<lambda>_. concat)"
    unfolding ffmpeg_concat_doc_def by (auto simp: demo_env_def demo_ffmpeg_def comp_def b)
qed

lemma demo_list: "fst (SegmentList mem_exec ''a'' demo_redis) = Inr [demo_meta 1, demo_meta 2]"
  by code_simp

lemma demo_run: "fst (assemble demo_env demo_request demo_state) = Inr ()"
  by code_simp

lemma demo_run_state:
  obtains s' where "assemble demo_env demo_request demo_state = (Inr (), s')"
  using demo_run by (metis prod.collapse)

lemma demo_idle: "rq_StreamID demo_request \<notin> inFlight demo_state"
  by (simp add: demo_state_def)

lemma assembled_content_witness:
  "\<exists>s' codec bs. assemble demo_env demo_request demo_state = (Inr (), s')
     \<and> s3W s' (''vox-recordings'', ''schedules/x/sessions/y/streams/a/recording.mp4'') = Some (concat bs, None)
     \<and> bs = [''one'', ''two''] \<and> codec = needsAudioTranscode []"
proof -
  obtain s' where r: "assemble demo_env demo_request demo_state = (Inr (), s')" by (rule demo_run_state)
  have pre: "fst (SegmentList (e_exec demo_env) (rq_StreamID demo_request) (redisW demo_state)) = Inr [demo_meta 1, demo_meta 2]"
    "length [demo_meta 1, demo_meta 2] \<le> 10000"
    "s3W demo_state (RecordingBucket (e_cfg demo_env), FinalRecordingKey (rq_ScheduleID demo_request)
        (rq_SessionID demo_request) (rq_StreamID demo_request)) = None"
    "jobs demo_state (jobDir demo_env (rq_StreamID demo_request)) = []" "jobDir demo_env (rq_StreamID demo_request) \<noteq> []"
    using demo_list by (simp_all add: demo_env_def demo_request_def demo_state_def demo_objects_def FinalRecordingKey_def
        streamPrefix_def jobDir_def path_join_def)
  note assembled_content [OF demo_env_ok(1) demo_env_ok(2) demo_env_ok(3) demo_idle r pre]
  moreover have "sm_S3Key (demo_meta 1) = ''k1''" "sm_S3Key (demo_meta 2) = ''k2''" by code_simp+
  ultimately show ?thesis using r
    by (auto simp: demo_state_def demo_objects_def demo_env_def demo_request_def DefaultConfig_def
        FinalRecordingKey_def streamPrefix_def list_all2_Cons1)
qed

lemma assembly_outcome_witness:
  "\<exists>s' ev. AssembleRequested demo_env demo_request demo_state = (Inr (), s')
     \<and> published s' = [ev] \<and> rp_Status ev \<in> {''READY'', ''PARTIAL''} \<and> inFlight s' = {}"
proof -
  obtain s' where r: "assemble demo_env demo_request demo_state = (Inr (), s')" by (rule demo_run_state)
  then have a: "AssembleRequested demo_env demo_request demo_state = (Inr (), s')"
    by (simp add: AssembleRequested_def)
  from assembly_outcome [OF demo_env_ok(1) demo_idle a] a show ?thesis
    by (auto simp: demo_state_def partChanged_def)
qed

lemma ended_while_running_witness:
  "published (snd (OnStreamEnded (demo_env\<lparr>e_exec := (\<lambda>c w. (IntR 1, w))\<rparr>)
      \<lparr>se_EventID = ''e'', se_ScheduleID = ''x'', se_SessionID = ''y'', se_ParticipantID = ''p'', se_StreamID = ''a'',
       se_StreamType = ''camera'', se_SegmentKeys = [], se_Duration = 0, se_EndedAt = 0\<rparr>
      (demo_state\<lparr>inFlight := {''a''}\<rparr>))) = []"
  by (subst ended_while_running) (simp_all add: demo_env_def demo_state_def IsComplete_def)

text \<open>Files an earlier run left in the job directory go into the list of a later run.\<close>

lemma leftover_listed:
  fixes env :: "('r, 's, 'o, 'b) asmEnv"
  assumes "s3_conforms (e_send env) view" and "downloadSegments env keys dir s = (Inr (), s')"
    and "distinct (e_order env (length keys))" and "distinct (map fst (jobs s dir))"
    and "n \<in> fst ` set (jobs s dir)" and "HasSuffix n ''.mp4''"
  shows "path_join dir n \<in> set (sort (glob_mp4 dir (jobs s' dir)))"
proof -
  have "n \<in> fst ` set (jobs s' dir)"
    using download_all_files [OF assms(1) assms(2) [unfolded downloadSegments_def] assms(3,4)] assms(5) by auto
  then show ?thesis using assms(6) by (auto simp: glob_mp4_def)
qed

end
