(* ===== verification/Domain.thy ===== *)
theory Domain
  imports Assembler
begin

text \<open>
  \<open>internal/domain/events.go\<close>: the topics, the events published on them with their JSON encoding,
  and the level of an alert.  \<open>StreamEndedEvent\<close>, \<open>RecordingAssemblyRequestedEvent\<close> and
  \<open>RecordingPartChangedEvent\<close> are declared with the assembler; the text of an assembly error is the
  parameter \<open>errText\<close>.  Strings are taken to be valid UTF-8, which \<open>encoding/json\<close> keeps as it is;
  a nil slice and an empty one are not told apart.
\<close>

section \<open>Topics and events\<close>

definition TopicFrameReady :: string where "TopicFrameReady = ''exam.frame.ready''"
definition TopicStreamStarted :: string where "TopicStreamStarted = ''exam.stream.started''"
definition TopicStreamEnded :: string where "TopicStreamEnded = ''exam.stream.ended''"
definition TopicRecordingAssemblyRequested :: string where
  "TopicRecordingAssemblyRequested = ''exam.recording.assembly.requested''"
definition TopicRecordingPartChanged :: string where "TopicRecordingPartChanged = ''exam.recording.part.changed''"
definition TopicScheduleClosed :: string where "TopicScheduleClosed = ''exam.schedule.closed''"
definition TopicAlertRaised :: string where "TopicAlertRaised = ''exam.alert.raised''"

lemmas topic_defs = TopicFrameReady_def TopicStreamStarted_def TopicStreamEnded_def
  TopicRecordingAssemblyRequested_def TopicRecordingPartChanged_def TopicScheduleClosed_def TopicAlertRaised_def

record FrameReadyEvent =
  fr_EventID :: string
  fr_ScheduleID :: string
  fr_SessionID :: string
  fr_ParticipantID :: string
  fr_StreamID :: string
  fr_StreamType :: string
  fr_FrameURL :: string
  fr_CapturedAt :: instant
  fr_SequenceNo :: int

record StreamStartedEvent =
  ss_EventID :: string
  ss_ScheduleID :: string
  ss_SessionID :: string
  ss_ParticipantID :: string
  ss_StreamID :: string
  ss_StreamType :: string
  ss_StartedAt :: instant

record ScheduleClosedEvent =
  sc_EventID :: string
  sc_ScheduleID :: string
  sc_ExamID :: string
  sc_ClosedAt :: instant
  sc_Reason :: string

record ParticipantEvent =
  pe_Type :: string
  pe_SessionID :: string
  pe_ParticipantID :: string
  pe_StreamID :: string
  pe_StreamType :: string
  pe_At :: instant

definition ParticipantJoined :: string where "ParticipantJoined = ''joined''"
definition ParticipantLeft :: string where "ParticipantLeft = ''left''"
definition ParticipantDisconnected :: string where "ParticipantDisconnected = ''disconnected''"
definition ParticipantReconnected :: string where "ParticipantReconnected = ''reconnected''"

section \<open>Alerts\<close>

datatype AlertLevel = AlertLevelInfo | AlertLevelWarning | AlertLevelCritical

definition level_text :: "AlertLevel \<Rightarrow> string" where
  "level_text l = (case l of AlertLevelCritical \<Rightarrow> ''CRITICAL'' | AlertLevelWarning \<Rightarrow> ''WARNING'' | AlertLevelInfo \<Rightarrow> ''INFO'')"

definition AlertSourceAI :: string where "AlertSourceAI = ''ai''"
definition AlertSourceStreaming :: string where "AlertSourceStreaming = ''streaming''"

definition AlertPhoneDetected :: string where "AlertPhoneDetected = ''PHONE_DETECTED''"
definition AlertMultiplePersons :: string where "AlertMultiplePersons = ''MULTIPLE_PERSONS''"
definition AlertProhibitedObject :: string where "AlertProhibitedObject = ''PROHIBITED_OBJECT''"
definition AlertPersonMissing :: string where "AlertPersonMissing = ''PERSON_MISSING''"
definition AlertWindowFocusLost :: string where "AlertWindowFocusLost = ''WINDOW_FOCUS_LOST''"
definition AlertCameraSignalLost :: string where "AlertCameraSignalLost = ''CAMERA_SIGNAL_LOST''"
definition AlertCameraSignalRestored :: string where "AlertCameraSignalRestored = ''CAMERA_SIGNAL_RESTORED''"
definition AlertUncooperativeCandidate :: string where "AlertUncooperativeCandidate = ''UNCOOPERATIVE_CANDIDATE''"
definition AlertRecordingTruncated :: string where "AlertRecordingTruncated = ''RECORDING_TRUNCATED''"
definition AlertStreamDropped :: string where "AlertStreamDropped = ''STREAM_DROPPED''"
definition AlertRecordingIncomplete :: string where "AlertRecordingIncomplete = ''RECORDING_INCOMPLETE''"

lemmas alert_defs = AlertPhoneDetected_def AlertMultiplePersons_def AlertProhibitedObject_def AlertPersonMissing_def
  AlertWindowFocusLost_def AlertCameraSignalLost_def AlertCameraSignalRestored_def AlertUncooperativeCandidate_def
  AlertRecordingTruncated_def AlertStreamDropped_def AlertRecordingIncomplete_def

definition DefaultAlertLevel :: "string \<Rightarrow> AlertLevel" where
  "DefaultAlertLevel alertType =
     (if alertType \<in> {AlertPhoneDetected, AlertProhibitedObject} then AlertLevelCritical
      else if alertType \<in> {AlertPersonMissing, AlertWindowFocusLost, AlertUncooperativeCandidate,
        AlertCameraSignalLost, AlertStreamDropped, AlertRecordingIncomplete, AlertMultiplePersons} then AlertLevelWarning
      else if alertType \<in> {AlertRecordingTruncated, AlertCameraSignalRestored} then AlertLevelInfo
      else AlertLevelInfo)"

text \<open>\<open>AlertRaisedEvent\<close> embeds \<open>AlertEvent\<close>: one record, extended by \<open>RaisedAt\<close>.  A level not set is \<^const>\<open>None\<close>.\<close>

record AlertEvent =
  al_EventID :: string
  al_Source :: string
  al_SessionID :: string
  al_ParticipantID :: string
  al_StreamID :: string
  al_StreamType :: string
  al_AlertType :: string
  al_Detail :: string
  al_Confidence :: float64
  al_SequenceNo :: int
  al_Level :: "AlertLevel option"
  al_CapturedAt :: instant

record AlertRaisedEvent = AlertEvent +
  ar_RaisedAt :: instant

instantiation AlertLevel :: linorder
begin

definition level_rank :: "AlertLevel \<Rightarrow> nat" where
  "level_rank l = (case l of AlertLevelInfo \<Rightarrow> 0 | AlertLevelWarning \<Rightarrow> 1 | AlertLevelCritical \<Rightarrow> 2)"

definition less_eq_AlertLevel :: "AlertLevel \<Rightarrow> AlertLevel \<Rightarrow> bool" where
  "less_eq_AlertLevel a b \<longleftrightarrow> level_rank a \<le> level_rank b"

definition less_AlertLevel :: "AlertLevel \<Rightarrow> AlertLevel \<Rightarrow> bool" where
  "less_AlertLevel a b \<longleftrightarrow> level_rank a < level_rank b"

instance
  by standard (auto simp: less_eq_AlertLevel_def less_AlertLevel_def level_rank_def split: AlertLevel.splits)

end

section \<open>JSON encoding\<close>

definition enc_frame_ready :: "FrameReadyEvent \<Rightarrow> json" where
  "enc_frame_ready e = JObj [(''eventId'', JStr (fr_EventID e)), (''scheduleId'', JStr (fr_ScheduleID e)),
     (''sessionId'', JStr (fr_SessionID e)), (''participantId'', JStr (fr_ParticipantID e)), (''streamId'', JStr (fr_StreamID e)),
     (''streamType'', JStr (fr_StreamType e)), (''frameUrl'', JStr (fr_FrameURL e)), (''capturedAt'', JTime (fr_CapturedAt e)),
     (''sequenceNo'', JNum (fr_SequenceNo e))]"

definition enc_stream_started :: "StreamStartedEvent \<Rightarrow> json" where
  "enc_stream_started e = JObj [(''eventId'', JStr (ss_EventID e)), (''scheduleId'', JStr (ss_ScheduleID e)),
     (''sessionId'', JStr (ss_SessionID e)), (''participantId'', JStr (ss_ParticipantID e)), (''streamId'', JStr (ss_StreamID e)),
     (''streamType'', JStr (ss_StreamType e)), (''startedAt'', JTime (ss_StartedAt e))]"

definition enc_stream_ended :: "StreamEndedEvent \<Rightarrow> json" where
  "enc_stream_ended e = JObj [(''eventId'', JStr (se_EventID e)), (''scheduleId'', JStr (se_ScheduleID e)),
     (''sessionId'', JStr (se_SessionID e)), (''participantId'', JStr (se_ParticipantID e)), (''streamId'', JStr (se_StreamID e)),
     (''streamType'', JStr (se_StreamType e)), (''segmentKeys'', JArr (map JStr (se_SegmentKeys e))),
     (''durationSecs'', JNum (se_Duration e)), (''endedAt'', JTime (se_EndedAt e))]"

definition enc_schedule_closed :: "ScheduleClosedEvent \<Rightarrow> json" where
  "enc_schedule_closed e = JObj [(''eventId'', JStr (sc_EventID e)), (''scheduleId'', JStr (sc_ScheduleID e)),
     (''examId'', JStr (sc_ExamID e)), (''closedAt'', JTime (sc_ClosedAt e)), (''reason'', JStr (sc_Reason e))]"

definition enc_assembly_requested :: "RecordingAssemblyRequestedEvent \<Rightarrow> json" where
  "enc_assembly_requested e = JObj [(''eventId'', JStr (rq_EventID e)), (''streamId'', JStr (rq_StreamID e)),
     (''scheduleId'', JStr (rq_ScheduleID e)), (''sessionId'', JStr (rq_SessionID e)), (''participantId'', JStr (rq_ParticipantID e)),
     (''streamType'', JStr (rq_StreamType e)), (''source'', JStr (rq_Source e)), (''requestedAt'', JTime (rq_RequestedAt e))]"

text \<open>An \<open>omitempty\<close> field is left out when it has its zero value.\<close>

definition omit_str :: "string \<Rightarrow> string \<Rightarrow> (string \<times> json) list" where
  "omit_str f s = (if s = [] then [] else [(f, JStr s)])"

definition omit_int :: "string \<Rightarrow> int \<Rightarrow> (string \<times> json) list" where
  "omit_int f n = (if n = 0 then [] else [(f, JNum n)])"

definition enc_part_changed :: "(asmError \<Rightarrow> string) \<Rightarrow> RecordingPartChangedEvent \<Rightarrow> json" where
  "enc_part_changed errText e = JObj ([(''eventId'', JStr (rp_EventID e)), (''streamId'', JStr (rp_StreamID e)),
     (''scheduleId'', JStr (rp_ScheduleID e)), (''sessionId'', JStr (rp_SessionID e)), (''participantId'', JStr (rp_ParticipantID e)),
     (''streamType'', JStr (rp_StreamType e)), (''source'', JStr (rp_Source e)), (''status'', JStr (rp_Status e))]
     @ omit_str ''objectKey'' (rp_ObjectKey e) @ omit_int ''durationSecs'' (rp_DurationSecs e)
     @ [(''hasGaps'', JBool (rp_HasGaps e))]
     @ omit_str ''errorMessage'' (case rp_ErrorMessage e of None \<Rightarrow> [] | Some x \<Rightarrow> errText x)
     @ [(''occurredAt'', JTime (rp_OccurredAt e))])"

text \<open>A float that is not finite cannot be encoded.\<close>

definition enc_alert_raised :: "AlertRaisedEvent \<Rightarrow> json option" where
  "enc_alert_raised e = (case al_Confidence e of Fin c \<Rightarrow>
     Some (JObj [(''raisedAt'', JTime (ar_RaisedAt e)), (''eventId'', JStr (al_EventID e)), (''source'', JStr (al_Source e)),
       (''sessionId'', JStr (al_SessionID e)), (''participantId'', JStr (al_ParticipantID e)), (''streamId'', JStr (al_StreamID e)),
       (''streamType'', JStr (al_StreamType e)), (''alertType'', JStr (al_AlertType e)), (''detail'', JStr (al_Detail e)),
       (''confidence'', JFloat c), (''sequenceNo'', JNum (al_SequenceNo e)), (''level'', JStr (case al_Level e of None \<Rightarrow> [] | Some l \<Rightarrow> level_text l)),
       (''capturedAt'', JTime (al_CapturedAt e))]) | _ \<Rightarrow> None)"

end
