(* ===== verification/Auth.thy ===== *)
theory Auth
  imports Redis
begin

text \<open>
  \<open>pkg/auth\<close> (\<open>jwt.go\<close>, \<open>assetsig.go\<close>) and the API-key check of \<open>internal/transport/grpc/server/config.go\<close>.
  The JWT library is the parameter \<open>jwtParse\<close> of type \<open>jwtLib\<close>; \<open>jwt_doc\<close> is what its documentation promises of a token it accepts.
  UUID parsing (\<open>uuid_ok\<close>), and HMAC-SHA256 truncated and base64-encoded (\<open>hmac16\<close>), are parameters too.
\<close>

section \<open>Claims\<close>

datatype Role = RoleTeacher | RoleSchoolAdmin

definition role_text :: "Role \<Rightarrow> string" where
  "role_text r = (case r of RoleTeacher \<Rightarrow> ''TEACHER'' | RoleSchoolAdmin \<Rightarrow> ''SCHOOL_ADMIN'')"

definition TokenUseStream :: string where "TokenUseStream = ''stream''"
definition TokenUseMonitor :: string where "TokenUseMonitor = ''monitor''"

definition MonitorScopeSchoolAdmin :: string where "MonitorScopeSchoolAdmin = ''SCHOOL_ADMIN''"
definition MonitorScopeExamChair :: string where "MonitorScopeExamChair = ''EXAM_CHAIR''"
definition MonitorScopeScheduleProctor :: string where "MonitorScopeScheduleProctor = ''SCHEDULE_PROCTOR''"

text \<open>The registered claims the code reads: expiry, subject and token id.\<close>

record RegisteredClaims =
  rc_ExpiresAt :: "instant option"
  rc_Subject :: string
  rc_ID :: string

record StreamClaims = RegisteredClaims +
  st_CandidateID :: string
  st_SessionID :: string
  st_ScheduleID :: string
  st_ExamID :: string
  st_StreamTypes :: "string list"
  st_TokenUse :: string
  st_ScheduleEndAt :: int

record MonitorClaims = RegisteredClaims +
  mc_UserID :: string
  mc_SchoolID :: string
  mc_MonitorScope :: string
  mc_ScheduleIDs :: "string list"
  mc_ExamID :: string
  mc_Roles :: "string list"
  mc_TokenUse :: string

definition CanStream :: "StreamClaims \<Rightarrow> string \<Rightarrow> bool" where
  "CanStream c streamType \<longleftrightarrow> streamType \<in> set (st_StreamTypes c)"

definition CanAccess :: "StreamClaims \<Rightarrow> string \<Rightarrow> string \<Rightarrow> bool" where
  "CanAccess c scheduleID streamType \<longleftrightarrow> st_ScheduleID c = scheduleID \<and> CanStream c streamType"

definition ScheduleEnd :: "StreamClaims \<Rightarrow> instant option" where
  "ScheduleEnd c = (if st_ScheduleEndAt c \<le> 0 then None else Some (st_ScheduleEndAt c * second))"

definition hasRole :: "MonitorClaims \<Rightarrow> Role \<Rightarrow> bool" where
  "hasRole c target \<longleftrightarrow> list_ex (\<lambda>r. r = role_text target) (mc_Roles c)"

definition HasMonitorRole :: "MonitorClaims \<Rightarrow> bool" where
  "HasMonitorRole c \<longleftrightarrow> hasRole c RoleTeacher \<or> hasRole c RoleSchoolAdmin"

definition HasValidScopeRole :: "MonitorClaims \<Rightarrow> bool" where
  "HasValidScopeRole c \<longleftrightarrow>
     (if mc_MonitorScope c = MonitorScopeSchoolAdmin then hasRole c RoleSchoolAdmin
      else if mc_MonitorScope c \<in> {MonitorScopeExamChair, MonitorScopeScheduleProctor} then hasRole c RoleTeacher
      else False)"

definition CanMonitorSchedule :: "MonitorClaims \<Rightarrow> string \<Rightarrow> bool" where
  "CanMonitorSchedule c scheduleID \<longleftrightarrow>
     (if \<not> HasValidScopeRole c then False else scheduleID \<in> set (mc_ScheduleIDs c))"

section \<open>Decoding claims\<close>

definition dec_strings :: "string \<Rightarrow> json \<Rightarrow> string list option" where
  "dec_strings f j = (case jget f j of None \<Rightarrow> Some [] | Some JNull \<Rightarrow> Some []
     | Some (JArr js) \<Rightarrow> those (map (\<lambda>x. case x of JStr s \<Rightarrow> Some s | JNull \<Rightarrow> Some [] | _ \<Rightarrow> None) js) | _ \<Rightarrow> None)"

text \<open>\<open>jwt.NumericDate\<close>, to the second.\<close>

definition dec_exp :: "json \<Rightarrow> instant option option" where
  "dec_exp j = (case jget ''exp'' j of None \<Rightarrow> Some None | Some JNull \<Rightarrow> Some None
     | Some (JNum n) \<Rightarrow> Some (Some (n * second)) | _ \<Rightarrow> None)"

definition dec_registered :: "json \<Rightarrow> RegisteredClaims option" where
  "dec_registered j = (case (dec_exp j, dec_str ''sub'' j, dec_str ''jti'' j) of
     (Some e, Some s, Some i) \<Rightarrow> Some \<lparr>rc_ExpiresAt = e, rc_Subject = s, rc_ID = i\<rparr> | _ \<Rightarrow> None)"

definition dec_stream_claims :: "json \<Rightarrow> StreamClaims option" where
  "dec_stream_claims j = Option.bind (dec_registered j) (\<lambda>rc.
     Option.bind (dec_str ''candidateId'' j) (\<lambda>a. Option.bind (dec_str ''sessionId'' j) (\<lambda>b.
     Option.bind (dec_str ''scheduleId'' j) (\<lambda>c. Option.bind (dec_str ''examId'' j) (\<lambda>d.
     Option.bind (dec_strings ''streamTypes'' j) (\<lambda>e. Option.bind (dec_str ''tokenUse'' j) (\<lambda>f.
     Option.bind (dec_int ''scheduleEndAt'' j) (\<lambda>g.
       Some (RegisteredClaims.extend rc (StreamClaims.fields a b c d e f g))))))))))"

definition dec_monitor_claims :: "json \<Rightarrow> MonitorClaims option" where
  "dec_monitor_claims j = Option.bind (dec_registered j) (\<lambda>rc.
     Option.bind (dec_str ''userId'' j) (\<lambda>a. Option.bind (dec_str ''schoolId'' j) (\<lambda>b.
     Option.bind (dec_str ''monitorScope'' j) (\<lambda>c. Option.bind (dec_strings ''scheduleIds'' j) (\<lambda>d.
     Option.bind (dec_str ''examId'' j) (\<lambda>e. Option.bind (dec_strings ''roles'' j) (\<lambda>f.
     Option.bind (dec_str ''tokenUse'' j) (\<lambda>g.
       Some (RegisteredClaims.extend rc (MonitorClaims.fields a b c d e f g))))))))))"

section \<open>Validation\<close>

datatype sigMethod = HMAC string | OtherMethod string

text \<open>
  \<open>jwt.ParseWithClaims\<close> with \<open>WithExpirationRequired\<close>: the key function, the time, the token; the result is
  an error, or the claims and whether the token is valid.
\<close>

type_synonym jwtLib = "(sigMethod \<Rightarrow> string option) \<Rightarrow> instant \<Rightarrow> string \<Rightarrow> string + json \<times> bool"

text \<open>\<open>signedBy m key claims tok\<close> is the meaning of a signature: \<open>tok\<close> carries \<open>claims\<close> signed by \<open>m\<close> with \<open>key\<close>.\<close>

definition jwt_doc :: "jwtLib \<Rightarrow> (sigMethod \<Rightarrow> string \<Rightarrow> json \<Rightarrow> string \<Rightarrow> bool) \<Rightarrow> bool" where
  "jwt_doc jwtParse signedBy \<longleftrightarrow>
     (\<forall>keyfunc t tok claims. jwtParse keyfunc t tok = Inr (claims, True) \<longrightarrow>
        (\<exists>m key. keyfunc m = Some key \<and> signedBy m key claims tok) \<and> (\<exists>e. dec_exp claims = Some (Some e) \<and> t < e))"

datatype authError = MissingToken | ParseToken string | InvalidToken | InvalidTokenUse | MissingClaim string
  | UnsupportedStreamType string | SubjectMismatch | MissingMonitorRole | InvalidUUID string | DuplicateSchedule

definition hmac_only :: "string \<Rightarrow> sigMethod \<Rightarrow> string option" where
  "hmac_only secret m = (case m of HMAC _ \<Rightarrow> Some secret | OtherMethod _ \<Rightarrow> None)"

text \<open>The library decodes into the claims struct; a claim of the wrong type is a parse error.\<close>

definition parse :: "jwtLib \<Rightarrow> string \<Rightarrow> (json \<Rightarrow> 'c option) \<Rightarrow> instant \<Rightarrow> string \<Rightarrow> authError + 'c" where
  "parse jwtParse secret dec t tokenStr =
     (if tokenStr = [] then Inl MissingToken
      else (case jwtParse (hmac_only secret) t tokenStr of
         Inl e \<Rightarrow> Inl (ParseToken e)
       | Inr (claims, valid) \<Rightarrow>
           (case dec claims of None \<Rightarrow> Inl (ParseToken ''claims'')
            | Some c \<Rightarrow> if \<not> valid then Inl InvalidToken else Inr c)))"

definition ValidateStream :: "jwtLib \<Rightarrow> string \<Rightarrow> instant \<Rightarrow> string \<Rightarrow> authError + StreamClaims" where
  "ValidateStream jwtParse secret t tokenStr =
     (case parse jwtParse secret dec_stream_claims t tokenStr of
        Inl e \<Rightarrow> Inl e
      | Inr c \<Rightarrow>
          if st_TokenUse c \<noteq> TokenUseStream then Inl InvalidTokenUse
          else if st_CandidateID c = [] then Inl (MissingClaim ''candidateId'')
          else if st_SessionID c = [] then Inl (MissingClaim ''sessionId'')
          else if st_ScheduleID c = [] then Inl (MissingClaim ''scheduleId'')
          else if st_ExamID c = [] then Inl (MissingClaim ''examId'')
          else if st_StreamTypes c = [] then Inl (MissingClaim ''streamTypes'')
          else (case find (\<lambda>s. s \<noteq> ''camera'' \<and> s \<noteq> ''screen'') (st_StreamTypes c) of
             Some s \<Rightarrow> Inl (UnsupportedStreamType s)
           | None \<Rightarrow> Inr c))"

fun check_schedules :: "(string \<Rightarrow> bool) \<Rightarrow> string set \<Rightarrow> string list \<Rightarrow> authError option" where
  "check_schedules uuid_ok seen [] = None"
| "check_schedules uuid_ok seen (s # ss) =
     (if \<not> uuid_ok s then Some (InvalidUUID ''scheduleId'')
      else if s \<in> seen then Some DuplicateSchedule
      else check_schedules uuid_ok (insert s seen) ss)"

definition ValidateMonitor :: "jwtLib \<Rightarrow> (string \<Rightarrow> bool) \<Rightarrow> string \<Rightarrow> instant \<Rightarrow> string \<Rightarrow> authError + MonitorClaims" where
  "ValidateMonitor jwtParse uuid_ok secret t tokenStr =
     (case parse jwtParse secret dec_monitor_claims t tokenStr of
        Inl e \<Rightarrow> Inl e
      | Inr c \<Rightarrow>
          if mc_TokenUse c \<noteq> TokenUseMonitor then Inl InvalidTokenUse
          else if mc_UserID c = [] then Inl (MissingClaim ''userId'')
          else if rc_Subject c \<noteq> mc_UserID c then Inl SubjectMismatch
          else if mc_SchoolID c = [] then Inl (MissingClaim ''schoolId'')
          else if mc_ExamID c = [] then Inl (MissingClaim ''examId'')
          else if mc_ScheduleIDs c = [] then Inl (MissingClaim ''scheduleIds'')
          else if rc_ID c = [] then Inl (MissingClaim ''jti'')
          else if \<not> HasMonitorRole c then Inl MissingMonitorRole
          else if \<not> uuid_ok (mc_UserID c) then Inl (InvalidUUID ''userId'')
          else if \<not> uuid_ok (mc_SchoolID c) then Inl (InvalidUUID ''schoolId'')
          else if \<not> uuid_ok (mc_ExamID c) then Inl (InvalidUUID ''examId'')
          else (case check_schedules uuid_ok {} (mc_ScheduleIDs c) of Some e \<Rightarrow> Inl e | None \<Rightarrow> Inr c))"

lemma check_schedules_None:
  "check_schedules uuid_ok seen ss = None \<longleftrightarrow> (\<forall>s \<in> set ss. uuid_ok s) \<and> distinct ss \<and> set ss \<inter> seen = {}"
  by (induction ss arbitrary: seen) auto

lemma parse_Inr:
  assumes "jwt_doc jwtParse signedBy" and "parse jwtParse secret dec t tok = Inr c"
  shows "tok \<noteq> [] \<and> (\<exists>alg claims e. signedBy (HMAC alg) secret claims tok \<and> dec claims = Some c \<and> dec_exp claims = Some (Some e) \<and> t < e)"
proof -
  obtain claims where c: "tok \<noteq> []" "jwtParse (hmac_only secret) t tok = Inr (claims, True)" "dec claims = Some c"
    using assms(2) by (auto simp: parse_def split: if_splits sum.splits option.splits prod.splits)
  obtain m key e where d: "hmac_only secret m = Some key" "signedBy m key claims tok" "dec_exp claims = Some (Some e)" "t < e"
    using assms(1) c(2) unfolding jwt_doc_def by meson
  with c show ?thesis by (cases m) (auto simp: hmac_only_def)
qed

lemma stream_claims_exp: "dec_stream_claims j = Some c \<Longrightarrow> dec_exp j = Some e \<Longrightarrow> rc_ExpiresAt c = e"
  by (auto simp: dec_stream_claims_def dec_registered_def bind_eq_Some_conv RegisteredClaims.extend_def split: option.splits)


text \<open>A library that accepts the one token \<open>good\<close>, whose claims are those of a candidate.\<close>

definition demo_claims :: json where
  "demo_claims = JObj [(''exp'', JNum 2000), (''candidateId'', JStr ''c''), (''sessionId'', JStr ''s''), (''scheduleId'', JStr ''d''),
     (''examId'', JStr ''x''), (''streamTypes'', JArr [JStr ''camera'']), (''tokenUse'', JStr ''stream''), (''scheduleEndAt'', JNum 3000)]"

definition demo_jwt :: jwtLib where
  "demo_jwt keyfunc t tok =
     (if tok = ''good'' \<and> keyfunc (HMAC ''HS256'') \<noteq> None \<and> t < 2000 * second then Inr (demo_claims, True) else Inl ''rejected'')"

definition demo_signed :: "sigMethod \<Rightarrow> string \<Rightarrow> json \<Rightarrow> string \<Rightarrow> bool" where
  "demo_signed m key claims tok \<longleftrightarrow> tok = ''good'' \<and> claims = demo_claims"

lemma demo_jwt_doc: "jwt_doc demo_jwt demo_signed"
  by (auto simp: jwt_doc_def demo_jwt_def demo_signed_def demo_claims_def dec_exp_def jget_def split: if_splits)

lemma demo_validates:
  "\<exists>c. ValidateStream demo_jwt key 0 ''good'' = Inr c \<and> rc_ExpiresAt c = Some (2000 * second) \<and> st_ScheduleEndAt c = 3000
     \<and> st_StreamTypes c = [''camera''] \<and> st_ScheduleID c = ''d'' \<and> st_SessionID c = ''s'' \<and> st_CandidateID c = ''c''"
  by (simp add: ValidateStream_def parse_def demo_jwt_def hmac_only_def demo_claims_def dec_stream_claims_def dec_registered_def
      dec_exp_def dec_defs dec_strings_def second_def TokenUseStream_def RegisteredClaims.extend_def StreamClaims.fields_def)


section \<open>Asset signatures\<close>

definition assetSigBytes :: nat where "assetSigBytes = 16"
definition AssetSignatureTTL :: duration where "AssetSignatureTTL = 30 * minute"
definition assetSignatureBucket :: duration where "assetSignatureBucket = 10 * minute"

text \<open>\<open>t.Truncate(d)\<close> rounds down to a multiple of \<open>d\<close> since the zero time.\<close>

definition Truncate :: "instant \<Rightarrow> duration \<Rightarrow> instant" where
  "Truncate t d = (if d \<le> 0 then t else t - (t - zero_time) mod d)"

text \<open>What the MAC is computed over.\<close>

definition mac_input :: "string \<Rightarrow> int \<Rightarrow> string" where
  "mac_input streamID expiry = ''live-asset'' @ CHR 0x00 # Itoa (int (length streamID)) @ CHR 0x00 # streamID @ CHR 0x00 # Itoa expiry"

text \<open>\<open>hmac16 secret\<close> is HMAC-SHA256 cut to \<^const>\<open>assetSigBytes\<close> bytes, in unpadded URL-safe base64.\<close>

definition assetMAC :: "(string \<Rightarrow> string \<Rightarrow> string) \<Rightarrow> string \<Rightarrow> string \<Rightarrow> int \<Rightarrow> string" where
  "assetMAC hmac16 secret streamID expiry = hmac16 secret (mac_input streamID expiry)"

definition SignAsset :: "(string \<Rightarrow> string \<Rightarrow> string) \<Rightarrow> string \<Rightarrow> instant \<Rightarrow> string \<Rightarrow> string" where
  "SignAsset hmac16 secret now streamID =
     (let expiry = unix_secs (Truncate now assetSignatureBucket + AssetSignatureTTL)
      in Itoa expiry @ ''.'' @ assetMAC hmac16 secret streamID expiry)"

text \<open>\<open>strings.Cut\<close> at a one-byte separator.\<close>

definition cut_at :: "char \<Rightarrow> string \<Rightarrow> (string \<times> string) option" where
  "cut_at c s = (if c \<in> set s then Some (takeWhile (\<lambda>x. x \<noteq> c) s, tl (dropWhile (\<lambda>x. x \<noteq> c) s)) else None)"

datatype assetError = MalformedSignature | MalformedExpiry | BadSignature | SignatureExpired

definition VerifyAsset :: "(string \<Rightarrow> string \<Rightarrow> string) \<Rightarrow> string \<Rightarrow> instant \<Rightarrow> string \<Rightarrow> string \<Rightarrow> assetError + unit" where
  "VerifyAsset hmac16 secret now streamID signature =
     (case cut_at (CHR ''.'') signature of None \<Rightarrow> Inl MalformedSignature | Some (rawExp, mac) \<Rightarrow>
     (case Atoi rawExp of None \<Rightarrow> Inl MalformedExpiry | Some expiry \<Rightarrow>
       if mac \<noteq> assetMAC hmac16 secret streamID expiry then Inl BadSignature
       else if expiry < unix_secs now then Inl SignatureExpired else Inr ()))"

lemma cut_at_append: "c \<notin> set a \<Longrightarrow> cut_at c (a @ c # b) = Some (a, b)"
  by (induction a) (auto simp: cut_at_def)

lemma Itoa_chars: "c \<in> set (Itoa i) \<Longrightarrow> is_digit c \<or> c = CHR ''-''"
  using itoa_nat_digits by (auto simp: Itoa_def list_all_iff split: if_splits)

lemma Itoa_no [simp]: "CHR ''.'' \<notin> set (Itoa i)" "CHR 0x00 \<notin> set (Itoa i)"
  using Itoa_chars [of "CHR ''.''" i] Itoa_chars [of "CHR 0x00" i] by (auto simp: is_digit_def)

lemma Atoi_Itoa: "0 \<le> i \<Longrightarrow> i \<le> max_int64 \<Longrightarrow> Atoi (Itoa i) = Some i"
  by (simp add: Itoa_def Atoi_digits)

text \<open>The MAC input determines stream and expiry, whatever bytes the stream id has.\<close>

lemma mac_input_inject: "mac_input s e = mac_input s' e' \<longleftrightarrow> s = s' \<and> e = e'"
proof
  assume "mac_input s e = mac_input s' e'"
  then have eq: "Itoa (int (length s)) @ CHR 0x00 # s @ CHR 0x00 # Itoa e = Itoa (int (length s')) @ CHR 0x00 # s' @ CHR 0x00 # Itoa e'"
    by (simp add: mac_input_def)
  from arg_cong [OF eq, of "cut_at (CHR 0x00)"]
  have "Itoa (int (length s)) = Itoa (int (length s'))" and r: "s @ CHR 0x00 # Itoa e = s' @ CHR 0x00 # Itoa e'"
    by (simp_all add: cut_at_append)
  then have "length s = length s'" by (auto dest: Itoa_inject)
  with r show "s = s' \<and> e = e'" by (auto dest: Itoa_inject)
qed simp

lemma signed_assets:
  assumes "0 \<le> now" and "now \<le> 9000000000 * second"
  shows "(now \<le> later \<and> later \<le> now + 20 * minute \<longrightarrow> VerifyAsset hmac16 secret later streamID (SignAsset hmac16 secret now streamID) = Inr ())
    \<and> (now + 30 * minute + second \<le> later \<longrightarrow> VerifyAsset hmac16 secret later streamID (SignAsset hmac16 secret now streamID) = Inl SignatureExpired)
    \<and> (now' div (10 * minute) = now div (10 * minute) \<longrightarrow> SignAsset hmac16 secret now' streamID = SignAsset hmac16 secret now streamID)
    \<and> (VerifyAsset hmac16 secret later other (SignAsset hmac16 secret now streamID) = Inr () \<longrightarrow> other = streamID
        \<or> (\<exists>x y. x \<noteq> y \<and> hmac16 secret x = hmac16 secret y))"
proof -
  have b: "assetSignatureBucket = 600000000000" by (simp add: assetSignatureBucket_def minute_def second_def)
  have trunc: "Truncate t assetSignatureBucket = (t div assetSignatureBucket) * assetSignatureBucket" for t
  proof -
    have "t - zero_time = t + 103559328 * assetSignatureBucket" by (simp add: b zero_time_def second_def)
    then have "(t - zero_time) mod assetSignatureBucket = t mod assetSignatureBucket" by (simp only: mod_mult_self1)
    then show ?thesis by (simp add: Truncate_def b minus_mod_eq_div_mult)
  qed
  let ?exp = "\<lambda>t. unix_secs (Truncate t assetSignatureBucket + AssetSignatureTTL)"
  have exp: "?exp t = (t div 600000000000) * 600 + 1800" for t
    unfolding trunc unfolding b unix_secs_def AssetSignatureTTL_def minute_def second_def by simp
  have nn: "now - now mod 600000000000 = (now div 600000000000) * 600000000000" by (simp add: minus_mod_eq_div_mult)
  have r: "0 \<le> ?exp now" "?exp now \<le> max_int64"
    using assms by (auto simp: exp max_int64_def second_def pos_imp_zdiv_nonneg_iff intro: order_trans)
  have v: "VerifyAsset hmac16 secret t s (SignAsset hmac16 secret now streamID) =
      (if assetMAC hmac16 secret streamID (?exp now) \<noteq> assetMAC hmac16 secret s (?exp now) then Inl BadSignature
       else if ?exp now < unix_secs t then Inl SignatureExpired else Inr ())" for t s
    using Atoi_Itoa [OF r] by (simp add: VerifyAsset_def SignAsset_def Let_def cut_at_append)
  define q where "q = now div 600000000000"
  have q: "q * 600000000000 \<le> now" "now < q * 600000000000 + 600000000000"
    using nn pos_mod_sign [of 600000000000 now] pos_mod_bound [of 600000000000 now] unfolding q_def [symmetric] by linarith+
  have e: "?exp now = q * 600 + 1800" by (simp only: exp q_def)
  have lo: "unix_secs t \<le> ?exp now" if "t \<le> now + 20 * minute" for t
  proof -
    have "t \<le> (q * 600 + 1800) * 1000000000" using that q by (simp add: minute_def second_def)
    from zdiv_mono1 [OF this, of 1000000000] show ?thesis unfolding e unfolding unix_secs_def second_def by simp
  qed
  have hi: "?exp now < unix_secs t" if "now + 30 * minute + second \<le> t" for t
  proof -
    have "(q * 600 + 1801) * 1000000000 \<le> t" using that q by (simp add: minute_def second_def)
    from zdiv_mono1 [OF this, of 1000000000] show ?thesis unfolding e unfolding unix_secs_def second_def by simp
  qed
  have "other = streamID \<or> (\<exists>x y. x \<noteq> y \<and> hmac16 secret x = hmac16 secret y)"
    if "VerifyAsset hmac16 secret later other (SignAsset hmac16 secret now streamID) = Inr ()"
    using that mac_input_inject [of streamID "?exp now" other "?exp now"] unfolding v
    by (auto simp: assetMAC_def split: if_splits)
  moreover have "SignAsset hmac16 secret now' streamID = SignAsset hmac16 secret now streamID"
    if "now' div (10 * minute) = now div (10 * minute)"
  proof -
    have "?exp now' = ?exp now" using that by (simp add: exp minute_def second_def)
    then show ?thesis by (simp add: SignAsset_def Let_def)
  qed
  ultimately show ?thesis using v [of later streamID] lo [of later] hi [of later] by auto
qed

text \<open>Asset signatures.  A signature made at \<open>now\<close> is accepted for its stream as long as at least up to 20
  minutes later, and never after more than 30 minutes; within a bucket of ten minutes signing gives the
  same string; for another stream it is accepted only if the MACs of two different inputs coincide.\<close>

theorem asset_signature:
  assumes "0 \<le> now" and "now \<le> 9000000000 * second"
  shows "(now \<le> later \<and> later \<le> now + 20 * minute \<longrightarrow> VerifyAsset hmac16 secret later streamID (SignAsset hmac16 secret now streamID) = Inr ())
    \<and> (now + 30 * minute + second \<le> later \<longrightarrow> VerifyAsset hmac16 secret later streamID (SignAsset hmac16 secret now streamID) = Inl SignatureExpired)
    \<and> (now' div (10 * minute) = now div (10 * minute) \<longrightarrow> SignAsset hmac16 secret now' streamID = SignAsset hmac16 secret now streamID)
    \<and> (VerifyAsset hmac16 secret later other (SignAsset hmac16 secret now streamID) = Inr () \<longrightarrow> other = streamID
        \<or> (\<exists>x y. x \<noteq> y \<and> hmac16 secret x = hmac16 secret y))"
  using assms by (rule signed_assets)

theorem asset_signature_witness:
  "VerifyAsset (\<lambda>k m. k @ m) ''key'' (25 * minute) ''s1'' (SignAsset (\<lambda>k m. k @ m) ''key'' (7 * minute) ''s1'') = Inr ()
   \<and> SignAsset (\<lambda>k m. k @ m) ''key'' (9 * minute) ''s1'' = SignAsset (\<lambda>k m. k @ m) ''key'' (7 * minute) ''s1''
   \<and> VerifyAsset (\<lambda>k m. k @ m) ''key'' (40 * minute) ''s1'' (SignAsset (\<lambda>k m. k @ m) ''key'' (7 * minute) ''s1'') = Inl SignatureExpired"
proof -
  have r: "0 \<le> 7 * minute" "7 * minute \<le> 9000000000 * second" by (simp_all add: minute_def second_def)
  note sig = asset_signature [OF r, where ?hmac16.0 = "\<lambda>k m. k @ m" and secret = "''key''" and streamID = "''s1''"
      and now' = "9 * minute" and other = "''s2''"]
  have t: "7 * minute \<le> 25 * minute \<and> 25 * minute \<le> 7 * minute + 20 * minute" "7 * minute + 30 * minute + second \<le> 40 * minute"
    "9 * minute div (10 * minute) = 7 * minute div (10 * minute)" by (simp_all add: minute_def second_def)
  have 1: "VerifyAsset (\<lambda>k m. k @ m) ''key'' (25 * minute) ''s1'' (SignAsset (\<lambda>k m. k @ m) ''key'' (7 * minute) ''s1'') = Inr ()"
    using sig [where later = "25 * minute"] t(1) by blast
  have 2: "VerifyAsset (\<lambda>k m. k @ m) ''key'' (40 * minute) ''s1'' (SignAsset (\<lambda>k m. k @ m) ''key'' (7 * minute) ''s1'') = Inl SignatureExpired"
    using sig [where later = "40 * minute"] t(2) by blast
  have "SignAsset (\<lambda>k m. k @ m) ''key'' (9 * minute) ''s1'' = SignAsset (\<lambda>k m. k @ m) ''key'' (7 * minute) ''s1''"
    using sig [where later = 0] t(3) by blast
  with 1 2 show ?thesis by blast
qed

section \<open>The API key of the gRPC server\<close>

datatype grpcCode = Unauthenticated | PermissionDenied

text \<open>
  The interceptor on the incoming metadata: \<^const>\<open>None\<close> when there is none, otherwise the values of the
  \<open>authorization\<close> header; \<open>Inr ()\<close> lets the call through.
\<close>

definition apiKeyInterceptor :: "string \<Rightarrow> string list option \<Rightarrow> grpcCode + unit" where
  "apiKeyInterceptor expectedKey md =
     (case md of None \<Rightarrow> Inl Unauthenticated | Some [] \<Rightarrow> Inl Unauthenticated
      | Some (v # _) \<Rightarrow> if TrimPrefix v ''Bearer '' \<noteq> expectedKey then Inl PermissionDenied else Inr ())"

text \<open>The check is installed only when a key is configured; the scheme in front of the key is optional.\<close>

lemma api_key_accepts:
  "apiKeyInterceptor key md = Inr () \<longleftrightarrow> (\<exists>v vs. md = Some (v # vs) \<and> (v = ''Bearer '' @ key \<or> v = key \<and> \<not> prefix ''Bearer '' v))"
  by (cases md) (auto simp: apiKeyInterceptor_def TrimPrefix_def prefix_def split: list.splits if_splits)

end
