(* ===== verification/Live.thy ===== *)
theory Live
  imports Domain Auth "HOL-Library.Sublist"
begin

text \<open>
  What a monitor sees: the scans of \<open>internal/infrastructure/cache/session.go\<close>,
  \<open>internal/usecase/monitor_usecase.go\<close>, the alert service of \<open>internal/transport/grpc/server/alert.go\<close>,
  \<open>internal/transport/webrtc/broadcaster.go\<close> and \<open>internal/transport/webrtc/session.go\<close>.  \<open>SCAN\<close>, \<open>MGET\<close> and publish/subscribe are
  parameters; \<open>scan_doc\<close> and \<open>mget_doc\<close> state their documented behaviour.  Log lines are left out.
\<close>

section \<open>Environment\<close>

record 'w liveEnv =
  l_scan :: "string \<Rightarrow> 'w \<Rightarrow> string list option \<times> 'w"
  l_mget :: "string list \<Rightarrow> 'w \<Rightarrow> sval option list option \<times> 'w"
  l_publish :: "string \<Rightarrow> json \<Rightarrow> 'w \<Rightarrow> bool \<times> 'w"
  l_numsub :: "string \<Rightarrow> 'w \<Rightarrow> (string \<times> int) list option \<times> 'w"
  l_now :: "'w \<Rightarrow> instant \<times> 'w"
  l_uuid :: "'w \<Rightarrow> string \<times> 'w"
  l_alertPublisher :: "(AlertRaisedEvent \<Rightarrow> 'w \<Rightarrow> bool \<times> 'w) option"

text \<open>Redis patterns made of literal characters and \<open>*\<close>.\<close>

fun glob :: "string \<Rightarrow> string \<Rightarrow> bool" where
  "glob [] k = (k = [])"
| "glob (c # p) [] = (c = CHR ''*'' \<and> glob p [])"
| "glob (c # p) (x # k) = (if c = CHR ''*'' then glob p (x # k) \<or> glob (c # p) k else c = x \<and> glob p k)"

definition plain_pattern :: "string \<Rightarrow> bool" where
  "plain_pattern p \<longleftrightarrow> set p \<inter> {CHR ''?'', CHR ''['', CHR 0x5C} = {}"

text \<open>A full iteration returns every matching key that was there all along, possibly more than once.\<close>

definition scan_doc :: "(string \<Rightarrow> 'w \<Rightarrow> string list option \<times> 'w) \<Rightarrow> ('w \<Rightarrow> keyspace) \<Rightarrow> bool" where
  "scan_doc scan view \<longleftrightarrow> (\<forall>p w keys w1. scan p w = (Some keys, w1) \<longrightarrow>
     view w1 = view w \<and> (plain_pattern p \<longrightarrow> set keys = {k. view w k \<noteq> None \<and> glob p k}))"

definition string_at :: "keyspace \<Rightarrow> string \<Rightarrow> sval option" where
  "string_at ks k = (case ks k of Some (RString v, _) \<Rightarrow> Some v | _ \<Rightarrow> None)"

definition mget_doc :: "(string list \<Rightarrow> 'w \<Rightarrow> sval option list option \<times> 'w) \<Rightarrow> ('w \<Rightarrow> keyspace) \<Rightarrow> bool" where
  "mget_doc mget view \<longleftrightarrow> (\<forall>keys w vals w1. mget keys w = (Some vals, w1) \<longrightarrow>
     view w1 = view w \<and> vals = map (string_at (view w)) keys)"

section \<open>Scanning the session registry\<close>

datatype scanError = ScanFailed | MGetFailed

definition scanByPattern :: "'w liveEnv \<Rightarrow> string \<Rightarrow> (scanError, SessionInfo list, 'w) fallible" where
  "scanByPattern env pattern w =
     (case l_scan env pattern w of
        (None, w1) \<Rightarrow> (Inl ScanFailed, w1)
      | (Some keys, w1) \<Rightarrow>
          if keys = [] then (Inr [], w1)
          else (case l_mget env keys w1 of
             (None, w2) \<Rightarrow> (Inl MGetFailed, w2)
           | (Some vals, w2) \<Rightarrow>
               (Inr (List.map_filter (\<lambda>v. Option.bind (Option.bind v as_json) dec_session_info) vals), w2)))"

definition ScanSchedule :: "'w liveEnv \<Rightarrow> string \<Rightarrow> (scanError, SessionInfo list, 'w) fallible" where
  "ScanSchedule env scheduleID = scanByPattern env (''streaming-session:'' @ scheduleID @ '':*'')"

definition ScanAll :: "'w liveEnv \<Rightarrow> (scanError, SessionInfo list, 'w) fallible" where
  "ScanAll env = scanByPattern env ''streaming-session:*''"

definition ScanSession :: "'w liveEnv \<Rightarrow> string \<Rightarrow> (scanError, SessionInfo list, 'w) fallible" where
  "ScanSession env sessionID w =
     (if sessionID = [] then (Inr [], w) else scanByPattern env (''streaming-session:*:'' @ sessionID @ '':*'') w)"

section \<open>The monitor use case\<close>

record StreamInfo =
  in_SessionID :: string
  in_ParticipantID :: string
  in_StreamID :: string
  in_StreamType :: string
  in_StartedAt :: instant

record ScheduleSummary =
  sum_ScheduleID :: string
  ActiveCount :: int
  Streams :: "StreamInfo list"

definition stream_info :: "SessionInfo \<Rightarrow> StreamInfo" where
  "stream_info s = \<lparr>in_SessionID = si_SessionID s, in_ParticipantID = si_ParticipantID s, in_StreamID = si_StreamID s,
     in_StreamType = si_StreamType s, in_StartedAt = si_StartedAt s\<rparr>"

definition GetScheduleSnapshot :: "'w liveEnv \<Rightarrow> string \<Rightarrow> (scanError, StreamInfo list, 'w) fallible" where
  "GetScheduleSnapshot env scheduleID = bindE (ScanSchedule env scheduleID) (\<lambda>sessions w. (Inr (map stream_info sessions), w))"

text \<open>
  The map from schedules to their streams as an association list; the code walks it in an
  order the language leaves open.
\<close>

definition add_stream_info :: "string list \<Rightarrow> SessionInfo \<Rightarrow> (string \<times> StreamInfo list) list \<Rightarrow> (string \<times> StreamInfo list) list" where
  "add_stream_info allowed s m =
     (if si_ScheduleID s \<notin> set allowed then m
      else AList.update (si_ScheduleID s)
             ((case map_of m (si_ScheduleID s) of None \<Rightarrow> [] | Some l \<Rightarrow> l) @ [stream_info s]) m)"

definition GetActiveSchedules :: "'w liveEnv \<Rightarrow> string list \<Rightarrow> (scanError, ScheduleSummary list, 'w) fallible" where
  "GetActiveSchedules env allowedScheduleIDs = bindE (ScanAll env) (\<lambda>sessions w.
     (Inr (map (\<lambda>(k, v). \<lparr>sum_ScheduleID = k, ActiveCount = int (length v), Streams = v\<rparr>)
            (fold (add_stream_info allowedScheduleIDs) sessions [])), w))"

definition FindLiveStream :: "'w liveEnv \<Rightarrow> string \<Rightarrow> string \<Rightarrow> (scanError, SessionInfo option, 'w) fallible" where
  "FindLiveStream env scheduleID streamID =
     bindE (ScanSchedule env scheduleID) (\<lambda>sessions w. (Inr (find (\<lambda>s. si_StreamID s = streamID) sessions), w))"


section \<open>Publishing\<close>

record FrameNotification =
  fn_StreamID :: string
  fn_StreamType :: string
  fn_FrameURL :: string
  fn_SequenceNo :: int

definition enc_frame_notification :: "FrameNotification \<Rightarrow> json" where
  "enc_frame_notification n = JObj [(''streamId'', JStr (fn_StreamID n)), (''streamType'', JStr (fn_StreamType n)),
     (''frameUrl'', JStr (fn_FrameURL n)), (''sequenceNo'', JNum (fn_SequenceNo n))]"

definition dec_frame_notification :: "json \<Rightarrow> FrameNotification option" where
  "dec_frame_notification j = Option.bind (dec_str ''streamId'' j) (\<lambda>a. Option.bind (dec_str ''streamType'' j) (\<lambda>b.
     Option.bind (dec_str ''frameUrl'' j) (\<lambda>c. Option.bind (dec_int ''sequenceNo'' j) (\<lambda>n.
       Some \<lparr>fn_StreamID = a, fn_StreamType = b, fn_FrameURL = c, fn_SequenceNo = n\<rparr>))))"

definition enc_participant :: "ParticipantEvent \<Rightarrow> json" where
  "enc_participant e = JObj [(''type'', JStr (pe_Type e)), (''sessionId'', JStr (pe_SessionID e)),
     (''participantId'', JStr (pe_ParticipantID e)), (''streamId'', JStr (pe_StreamID e)),
     (''streamType'', JStr (pe_StreamType e)), (''at'', JTime (pe_At e))]"

definition dec_participant :: "json \<Rightarrow> ParticipantEvent option" where
  "dec_participant j = Option.bind (dec_str ''type'' j) (\<lambda>a. Option.bind (dec_str ''sessionId'' j) (\<lambda>b.
     Option.bind (dec_str ''participantId'' j) (\<lambda>c. Option.bind (dec_str ''streamId'' j) (\<lambda>d.
     Option.bind (dec_str ''streamType'' j) (\<lambda>e. Option.bind (dec_time ''at'' j) (\<lambda>t.
       Some \<lparr>pe_Type = a, pe_SessionID = b, pe_ParticipantID = c, pe_StreamID = d, pe_StreamType = e, pe_At = t\<rparr>))))))"

definition enc_alert :: "AlertEvent \<Rightarrow> json option" where
  "enc_alert e = (case al_Confidence e of Fin c \<Rightarrow>
     Some (JObj [(''eventId'', JStr (al_EventID e)), (''source'', JStr (al_Source e)),
       (''sessionId'', JStr (al_SessionID e)), (''participantId'', JStr (al_ParticipantID e)), (''streamId'', JStr (al_StreamID e)),
       (''streamType'', JStr (al_StreamType e)), (''alertType'', JStr (al_AlertType e)), (''detail'', JStr (al_Detail e)),
       (''confidence'', JFloat c), (''sequenceNo'', JNum (al_SequenceNo e)), (''level'', JStr (case al_Level e of None \<Rightarrow> [] | Some l \<Rightarrow> level_text l)),
       (''capturedAt'', JTime (al_CapturedAt e))]) | _ \<Rightarrow> None)"

definition scheduleChannel :: "string \<Rightarrow> string" where
  "scheduleChannel scheduleID = ''schedule:'' @ scheduleID @ '':frames''"

definition scheduleEventsChannel :: "string \<Rightarrow> string" where
  "scheduleEventsChannel scheduleID = ''schedule:'' @ scheduleID @ '':events''"

definition sessionAlertsChannel :: "string \<Rightarrow> string" where
  "sessionAlertsChannel sessionID = ''session:'' @ sessionID @ '':alerts''"

definition Publish :: "'w liveEnv \<Rightarrow> string \<Rightarrow> FrameNotification \<Rightarrow> 'w \<Rightarrow> 'w" where
  "Publish env scheduleID notif w = snd (l_publish env (scheduleChannel scheduleID) (enc_frame_notification notif) w)"

definition PublishFrameURL :: "'w liveEnv \<Rightarrow> string \<Rightarrow> string \<Rightarrow> string \<Rightarrow> string \<Rightarrow> int \<Rightarrow> 'w \<Rightarrow> 'w" where
  "PublishFrameURL env scheduleID streamID streamType frameURL seq =
     Publish env scheduleID \<lparr>fn_StreamID = streamID, fn_StreamType = streamType, fn_FrameURL = frameURL, fn_SequenceNo = seq\<rparr>"

definition PublishParticipantEvent :: "'w liveEnv \<Rightarrow> string \<Rightarrow> ParticipantEvent \<Rightarrow> 'w \<Rightarrow> 'w" where
  "PublishParticipantEvent env scheduleID event w = snd (l_publish env (scheduleEventsChannel scheduleID) (enc_participant event) w)"

datatype alertError = MarshalAlert | RedisPublish | AlertDeliveryFailed

definition PublishAlertEvent :: "'w liveEnv \<Rightarrow> string \<Rightarrow> AlertEvent \<Rightarrow> (alertError, unit, 'w) fallible" where
  "PublishAlertEvent env sessionID alert w =
     (case enc_alert alert of
        None \<Rightarrow> (Inl MarshalAlert, w)
      | Some data \<Rightarrow> (case l_publish env (sessionAlertsChannel sessionID) data w of
           (False, w1) \<Rightarrow> (Inl RedisPublish, w1) | (True, w1) \<Rightarrow> (Inr (), w1)))"

text \<open>An error of the query is answered like the absence of a monitor.\<close>

definition HasMonitor :: "'w liveEnv \<Rightarrow> string \<Rightarrow> (alertError, bool, 'w) fallible" where
  "HasMonitor env scheduleID w =
     (case l_numsub env (scheduleChannel scheduleID) w of
        (None, w1) \<Rightarrow> (Inr False, w1)
      | (Some res, w1) \<Rightarrow> (Inr ((case map_of res (scheduleChannel scheduleID) of None \<Rightarrow> 0 | Some n \<Rightarrow> n) > 0), w1))"

definition notifyParticipant :: "'w liveEnv \<Rightarrow> string \<Rightarrow> string \<Rightarrow> string \<Rightarrow> string \<Rightarrow> string \<Rightarrow> string \<Rightarrow> 'w \<Rightarrow> 'w" where
  "notifyParticipant env eventType scheduleID sessionID participantID streamID streamType w =
     (case l_now env w of (t, w1) \<Rightarrow>
        PublishParticipantEvent env scheduleID
          \<lparr>pe_Type = eventType, pe_SessionID = sessionID, pe_ParticipantID = participantID, pe_StreamID = streamID,
           pe_StreamType = streamType, pe_At = t\<rparr> w1)"

definition NotifyJoined :: "'w liveEnv \<Rightarrow> string \<Rightarrow> string \<Rightarrow> string \<Rightarrow> string \<Rightarrow> string \<Rightarrow> 'w \<Rightarrow> 'w" where
  "NotifyJoined env = notifyParticipant env ParticipantJoined"

definition NotifyLeft :: "'w liveEnv \<Rightarrow> string \<Rightarrow> string \<Rightarrow> string \<Rightarrow> string \<Rightarrow> string \<Rightarrow> 'w \<Rightarrow> 'w" where
  "NotifyLeft env = notifyParticipant env ParticipantLeft"

definition NotifyDisconnected :: "'w liveEnv \<Rightarrow> string \<Rightarrow> string \<Rightarrow> string \<Rightarrow> string \<Rightarrow> string \<Rightarrow> 'w \<Rightarrow> 'w" where
  "NotifyDisconnected env = notifyParticipant env ParticipantDisconnected"

definition NotifyReconnected :: "'w liveEnv \<Rightarrow> string \<Rightarrow> string \<Rightarrow> string \<Rightarrow> string \<Rightarrow> string \<Rightarrow> 'w \<Rightarrow> 'w" where
  "NotifyReconnected env = notifyParticipant env ParticipantReconnected"

section \<open>Alerts\<close>

definition needsParticipant :: "AlertEvent \<Rightarrow> bool" where
  "needsParticipant a \<longleftrightarrow> al_ParticipantID a = [] \<or> al_ParticipantID a = al_SessionID a"

definition needsStream :: "AlertEvent \<Rightarrow> bool" where
  "needsStream a \<longleftrightarrow> al_StreamID a = [] \<or> al_StreamID a = al_SessionID a"

text \<open>The registration an alert is credited to: the first of its stream type, otherwise the first.\<close>

definition best_match :: "AlertEvent \<Rightarrow> SessionInfo list \<Rightarrow> SessionInfo" where
  "best_match a sessions =
     (case find (\<lambda>s. al_StreamType a \<noteq> [] \<and> si_StreamType s = al_StreamType a) sessions of
        Some s \<Rightarrow> s | None \<Rightarrow> hd sessions)"

definition fill_identity :: "AlertEvent \<Rightarrow> SessionInfo \<Rightarrow> AlertEvent" where
  "fill_identity a s =
     a\<lparr>al_ParticipantID := (if needsParticipant a then si_ParticipantID s else al_ParticipantID a),
       al_StreamID := (if needsStream a then si_StreamID s else al_StreamID a),
       al_StreamType := (if al_StreamType a = [] then si_StreamType s else al_StreamType a)\<rparr>"

definition enrichAlertIdentity :: "'w liveEnv \<Rightarrow> AlertEvent \<Rightarrow> 'w \<Rightarrow> AlertEvent \<times> 'w" where
  "enrichAlertIdentity env alert w =
     (if al_SessionID alert = [] \<or> (\<not> needsParticipant alert \<and> \<not> needsStream alert) then (alert, w)
      else (case ScanSession env (al_SessionID alert) w of
          (Inl _, w1) \<Rightarrow> (alert, w1)
        | (Inr sessions, w1) \<Rightarrow> if sessions = [] then (alert, w1) else (fill_identity alert (best_match alert sessions), w1)))"

text \<open>Everything \<open>PublishAlert\<close> does to the alert before it is sent.\<close>

definition complete_alert :: "'w liveEnv \<Rightarrow> AlertEvent \<Rightarrow> string \<Rightarrow> 'w \<Rightarrow> AlertEvent \<times> 'w" where
  "complete_alert env alert eventID w =
     (let (eid, w1) = (if eventID = [] then l_uuid env w else (eventID, w));
          (a, w2) = enrichAlertIdentity env (alert\<lparr>al_EventID := eid\<rparr>) w1;
          b = (if al_Level a = None then a\<lparr>al_Level := Some (DefaultAlertLevel (al_AlertType a))\<rparr> else a)
      in if al_CapturedAt b = zero_time then (case l_now env w2 of (t, w3) \<Rightarrow> (b\<lparr>al_CapturedAt := t\<rparr>, w3)) else (b, w2))"

definition raised :: "AlertEvent \<Rightarrow> instant \<Rightarrow> AlertRaisedEvent" where
  "raised a t = AlertEvent.extend a \<lparr>ar_RaisedAt = t\<rparr>"

text \<open>The durable branch: no publisher configured counts as success.\<close>

definition publish_durable :: "'w liveEnv \<Rightarrow> AlertEvent \<Rightarrow> 'w \<Rightarrow> bool \<times> 'w" where
  "publish_durable env a w =
     (case l_alertPublisher env of None \<Rightarrow> (True, w)
      | Some pub \<Rightarrow> (case l_now env w of (t, w1) \<Rightarrow> pub (raised a t) w1))"

definition PublishAlert :: "'w liveEnv \<Rightarrow> AlertEvent \<Rightarrow> string \<Rightarrow> (alertError, unit, 'w) fallible" where
  "PublishAlert env alert eventID w =
     (case complete_alert env alert eventID w of (a, w1) \<Rightarrow>
      case PublishAlertEvent env (al_SessionID a) a w1 of (liveErr, w2) \<Rightarrow>
      case publish_durable env a w2 of (durOk, w3) \<Rightarrow>
        (if liveErr \<noteq> Inr () \<and> \<not> durOk then Inl AlertDeliveryFailed else Inr (), w3))"

section \<open>The alert service\<close>

record PushAlertRequest =
  pa_SessionId :: string
  pa_ParticipantId :: string
  pa_StreamId :: string
  pa_StreamType :: string
  pa_AlertType :: string
  pa_Detail :: string
  pa_Confidence :: float64
  pa_SequenceNo :: int
  pa_CapturedAtMs :: int
  pa_EventId :: string

datatype pushCode = InvalidArgument | Unavailable

definition request_alert :: "PushAlertRequest \<Rightarrow> instant \<Rightarrow> AlertEvent" where
  "request_alert req capturedAt =
     \<lparr>al_EventID = [], al_Source = AlertSourceAI, al_SessionID = pa_SessionId req, al_ParticipantID = pa_ParticipantId req,
      al_StreamID = pa_StreamId req, al_StreamType = pa_StreamType req, al_AlertType = pa_AlertType req, al_Detail = pa_Detail req,
      al_Confidence = pa_Confidence req, al_SequenceNo = pa_SequenceNo req, al_Level = None, al_CapturedAt = capturedAt\<rparr>"

definition PushAlert :: "'w liveEnv \<Rightarrow> PushAlertRequest \<Rightarrow> (pushCode, bool, 'w) fallible" where
  "PushAlert env req w =
     (if pa_SessionId req = [] \<or> pa_AlertType req = [] then (Inl InvalidArgument, w)
      else (case l_now env w of (t, w1) \<Rightarrow>
        case PublishAlert env (request_alert req (if pa_CapturedAtMs req > 0 then pa_CapturedAtMs req * millisecond else t))
               (pa_EventId req) w1 of
          (Inl _, w2) \<Rightarrow> (Inl Unavailable, w2) | (Inr _, w2) \<Rightarrow> (Inr True, w2)))"


section \<open>Subscriptions\<close>

text \<open>
  A subscriber goroutine and the channel it fills.  \<open>Deliver\<close> is a message of the channel,
  \<open>RecvFailed\<close> an error of \<open>ReceiveMessage\<close> (the cancelled context among them), \<open>Taken\<close> the monitor reading one item.
  A message that cannot be decoded is skipped; one that finds the buffer full is dropped.
\<close>

record 'a subscriber =
  sub_buf :: "'a list"
  sub_running :: bool

datatype sub_event = Deliver sval | RecvFailed | Taken

definition sub_start :: "'a subscriber" where "sub_start = \<lparr>sub_buf = [], sub_running = True\<rparr>"

definition forward_message :: "nat \<Rightarrow> (json \<Rightarrow> 'a option) \<Rightarrow> sval \<Rightarrow> 'a subscriber \<Rightarrow> 'a subscriber" where
  "forward_message cap dec v s =
     (case Option.bind (as_json v) dec of
        None \<Rightarrow> s
      | Some x \<Rightarrow> if length (sub_buf s) < cap then s\<lparr>sub_buf := sub_buf s @ [x]\<rparr> else s)"

definition sub_step :: "nat \<Rightarrow> (json \<Rightarrow> 'a option) \<Rightarrow> 'a subscriber \<Rightarrow> sub_event \<Rightarrow> 'a list \<times> 'a subscriber" where
  "sub_step cap dec s e = (case e of
     Deliver v \<Rightarrow> ([], if sub_running s then forward_message cap dec v s else s)
   | RecvFailed \<Rightarrow> ([], s\<lparr>sub_running := False\<rparr>)
   | Taken \<Rightarrow> (case sub_buf s of [] \<Rightarrow> ([], s) | x # xs \<Rightarrow> ([x], s\<lparr>sub_buf := xs\<rparr>)))"

definition Subscribe :: "FrameNotification subscriber \<Rightarrow> sub_event \<Rightarrow> FrameNotification list \<times> FrameNotification subscriber" where
  "Subscribe = sub_step 32 dec_frame_notification"

definition SubscribeEvents :: "ParticipantEvent subscriber \<Rightarrow> sub_event \<Rightarrow> ParticipantEvent list \<times> ParticipantEvent subscriber" where
  "SubscribeEvents = sub_step 16 dec_participant"

fun sent :: "(json \<Rightarrow> 'a option) \<Rightarrow> sub_event list \<Rightarrow> 'a list" where
  "sent dec [] = []"
| "sent dec (Deliver v # es) = (case Option.bind (as_json v) dec of None \<Rightarrow> [] | Some x \<Rightarrow> [x]) @ sent dec es"
| "sent dec (_ # es) = sent dec es"

lemma codec_frame_notification [simp]: "dec_frame_notification (enc_frame_notification n) = Some n"
  by (simp add: dec_frame_notification_def enc_frame_notification_def dec_defs)

lemma codec_participant [simp]: "dec_participant (enc_participant e) = Some e"
  by (simp add: dec_participant_def enc_participant_def dec_defs)

lemma sub_step_bounded:
  assumes "length (sub_buf s) \<le> cap" and "sub_step cap dec s e = (out, s')"
  shows "length (sub_buf s') \<le> cap"
  using assms by (auto simp: sub_step_def forward_message_def split: sub_event.splits option.splits list.splits if_splits)

lemma sub_step_prefix:
  "sub_step cap dec s e = (out, s') \<Longrightarrow> subseq (out @ sub_buf s') (sub_buf s @ sent dec [e])"
  by (auto simp: sub_step_def forward_message_def split: sub_event.splits option.splits list.splits if_splits)

lemma sent_Cons: "sent dec (e # es) = sent dec [e] @ sent dec es"
  by (cases e) auto

text \<open>Whatever the pace of the monitor: items come in the order sent, none is invented, and the buffer stays bounded.\<close>

lemma sub_feed:
  assumes "feed (sub_step cap dec) s es = (out, s')" and "length (sub_buf s) \<le> cap"
  shows "subseq (out @ sub_buf s') (sub_buf s @ sent dec es)" and "length (sub_buf s') \<le> cap"
proof -
  have "subseq (out @ sub_buf s') (sub_buf s @ sent dec es) \<and> length (sub_buf s') \<le> cap"
    using assms
  proof (induction es arbitrary: s out)
    case (Cons e es)
    obtain o1 s1 o2 where f: "sub_step cap dec s e = (o1, s1)" "feed (sub_step cap dec) s1 es = (o2, s')" "out = o1 @ o2"
      using Cons.prems(1) by (auto simp: Let_def split: prod.splits)
    have ih: "subseq (o2 @ sub_buf s') (sub_buf s1 @ sent dec es)" "length (sub_buf s') \<le> cap"
      using Cons.IH [OF f(2) sub_step_bounded [OF Cons.prems(2) f(1)]] by auto
    have "subseq (o1 @ o2 @ sub_buf s') (o1 @ sub_buf s1 @ sent dec es)" using ih(1) by (simp only: subseq_append')
    also have "subseq \<dots> (sub_buf s @ sent dec [e] @ sent dec es)"
      using list_emb_append_mono [OF sub_step_prefix [OF f(1)], of "sent dec es" "sent dec es"] by simp
    finally show ?case using ih(2) f(3) by (simp add: sent_Cons [of dec e es])
  qed simp
  then show "subseq (out @ sub_buf s') (sub_buf s @ sent dec es)" and "length (sub_buf s') \<le> cap" by auto
qed

text \<open>What a monitor reads from a participant subscription is a subsequence, in order, of the events published on the
  channel, and at most sixteen are ever held back for it: a slow monitor loses events, it never sees an
  invented, reordered or duplicated one.\<close>

lemma subscriber_in_order:
  assumes "feed SubscribeEvents sub_start es = (out, s')"
  shows "subseq out (sent dec_participant es)" and "length (sub_buf s') \<le> 16"
proof -
  note f = sub_feed [OF assms [unfolded SubscribeEvents_def]]
  have "subseq (out @ sub_buf s') (sent dec_participant es)" and b: "length (sub_buf s') \<le> 16"
    using f by (simp_all add: sub_start_def)
  moreover have "subseq out (out @ sub_buf s')" by (rule prefix_imp_subseq) simp
  ultimately show "subseq out (sent dec_participant es)" by (blast intro: subseq_order.trans)
  show "length (sub_buf s') \<le> 16" by (rule b)
qed


definition demo_event :: ParticipantEvent where
  "demo_event = \<lparr>pe_Type = ParticipantJoined, pe_SessionID = ''ss'', pe_ParticipantID = ''p1'', pe_StreamID = ''s1'',
     pe_StreamType = ''camera'', pe_At = 0\<rparr>"

lemma demo_subscription:
  "feed SubscribeEvents sub_start [Deliver (Txt ''x''), Deliver (Doc (enc_participant demo_event)), Taken, RecvFailed] =
     ([demo_event], \<lparr>sub_buf = [], sub_running = False\<rparr>)"
  by (simp add: SubscribeEvents_def sub_start_def sub_step_def forward_message_def as_json_def)

lemma subscriber_in_order_witness:
  "subseq [demo_event] (sent dec_participant [Deliver (Txt ''x''), Deliver (Doc (enc_participant demo_event)), Taken, RecvFailed])"
  by (rule subscriber_in_order(1) [OF demo_subscription])

section \<open>What a scan returns\<close>

definition no_colon :: "string \<Rightarrow> bool" where "no_colon s \<longleftrightarrow> CHR '':'' \<notin> set s"

text \<open>An identifier with no separator and no character special in a pattern.\<close>

definition literal :: "string \<Rightarrow> bool" where
  "literal s \<longleftrightarrow> set s \<inter> {CHR '':'', CHR ''*'', CHR ''?'', CHR ''['', CHR 0x5C} = {}"

lemma glob_all [simp]: "glob ''*'' k"
  by (induction k) auto

lemma glob_star: "glob (CHR ''*'' # p) k \<longleftrightarrow> (\<exists>x y. k = x @ y \<and> glob p y)"
proof (induction k)
  case Nil then show ?case by simp
next
  case (Cons c k)
  have "(\<exists>x y. c # k = x @ y \<and> glob p y) \<longleftrightarrow> glob p (c # k) \<or> (\<exists>x y. k = x @ y \<and> glob p y)"
    by (metis append_Cons append_Nil list.inject neq_Nil_conv)
  with Cons show ?case by simp
qed

lemma glob_literal: "CHR ''*'' \<notin> set l \<Longrightarrow> glob (l @ p) k \<longleftrightarrow> (\<exists>y. k = l @ y \<and> glob p y)"
proof (induction l arbitrary: k)
  case (Cons c l)
  then show ?case by (cases k) auto
qed simp

text \<open>The typing of the session keys: every key under the prefix holds the registration its name spells out.\<close>

definition session_of :: "keyspace \<Rightarrow> string \<Rightarrow> SessionInfo option" where
  "session_of ks k = Option.bind (Option.bind (string_at ks k) as_json) dec_session_info"

definition key_of :: "SessionInfo \<Rightarrow> string" where
  "key_of s = sessionKey (si_ScheduleID s) (si_SessionID s) (si_ParticipantID s) (si_StreamType s)"

definition plain_session :: "SessionInfo \<Rightarrow> bool" where
  "plain_session s \<longleftrightarrow> no_colon (si_ScheduleID s) \<and> no_colon (si_SessionID s) \<and> no_colon (si_ParticipantID s) \<and> no_colon (si_StreamType s)"

definition live_wf :: "keyspace \<Rightarrow> bool" where
  "live_wf ks \<longleftrightarrow> (\<forall>k. prefix ''streaming-session:'' k \<and> ks k \<noteq> None \<longrightarrow>
     (\<exists>s. session_of ks k = Some s \<and> k = key_of s \<and> plain_session s))"

definition registered :: "keyspace \<Rightarrow> SessionInfo \<Rightarrow> bool" where
  "registered ks s \<longleftrightarrow> ks (key_of s) \<noteq> None \<and> session_of ks (key_of s) = Some s"


lemma colon_split:
  "no_colon a \<Longrightarrow> no_colon b \<Longrightarrow> a @ CHR '':'' # r = b @ CHR '':'' # y \<longleftrightarrow> a = b \<and> r = y"
proof (induction a arbitrary: b)
  case Nil then show ?case by (cases b) (auto simp: no_colon_def)
next
  case (Cons c a) then show ?case by (cases b) (auto simp: no_colon_def)
qed

lemma colon_inside:
  assumes "no_colon a"
  shows "(\<exists>x y. a @ CHR '':'' # r = x @ CHR '':'' # t @ y) \<longleftrightarrow> (\<exists>y. r = t @ y) \<or> (\<exists>x y. r = x @ CHR '':'' # t @ y)"
  using assms
proof (induction a)
  case Nil
  show ?case by (simp add: Cons_eq_append_conv) blast
next
  case (Cons c a)
  have c: "c \<noteq> CHR '':''" "no_colon a" using Cons.prems by (auto simp: no_colon_def)
  have "(\<exists>x y. (c # a) @ CHR '':'' # r = x @ CHR '':'' # t @ y) \<longleftrightarrow> (\<exists>x y. a @ CHR '':'' # r = x @ CHR '':'' # t @ y)"
    using c(1) by (auto simp: Cons_eq_append_conv)
  with Cons.IH c(2) show ?case by simp
qed

lemma no_colon_suffix: "no_colon d \<Longrightarrow> d = x @ CHR '':'' # t \<longleftrightarrow> False" "no_colon d \<Longrightarrow> d = x @ b @ CHR '':'' # t \<longleftrightarrow> False"
  by (auto simp: no_colon_def)

lemma literalD: "literal s \<Longrightarrow> no_colon s \<and> CHR ''*'' \<notin> set s"
  by (auto simp: literal_def no_colon_def)

lemma literal_plain: "literal s \<Longrightarrow> plain_pattern (''streaming-session:'' @ s @ '':*'')"
    "literal s \<Longrightarrow> plain_pattern (''streaming-session:*:'' @ s @ '':*'')" "plain_pattern ''streaming-session:*''"
  by (auto simp: literal_def plain_pattern_def)

lemma key_of_prefix [simp]: "prefix ''streaming-session:'' (key_of s)"
  by (simp add: key_of_def sessionKey_def)

lemma glob_schedule:
  assumes "literal sch" and "plain_session s"
  shows "glob (''streaming-session:'' @ sch @ '':*'') (key_of s) \<longleftrightarrow> si_ScheduleID s = sch"
proof -
  have "glob ((''streaming-session:'' @ sch @ '':'') @ ''*'') (key_of s) \<longleftrightarrow>
      (\<exists>y. key_of s = (''streaming-session:'' @ sch @ '':'') @ y \<and> glob ''*'' y)"
    using literalD [OF assms(1)] by (intro glob_literal) auto
  then show ?thesis
    using assms(2) literalD [OF assms(1)]
    by (auto simp: key_of_def sessionKey_def plain_session_def colon_split)
qed

lemma glob_session:
  assumes "literal sid" and "plain_session s"
  shows "glob (''streaming-session:*:'' @ sid @ '':*'') (key_of s) \<longleftrightarrow> si_SessionID s = sid \<or> si_ParticipantID s = sid"
proof -
  let ?r = "si_ScheduleID s @ CHR '':'' # si_SessionID s @ CHR '':'' # si_ParticipantID s @ CHR '':'' # si_StreamType s"
  note l = literalD [OF assms(1)]
  have k: "key_of s = ''streaming-session:'' @ ?r" by (simp add: key_of_def sessionKey_def)
  have "glob (''streaming-session:'' @ CHR ''*'' # CHR '':'' # sid @ '':*'') (key_of s) \<longleftrightarrow> glob (CHR ''*'' # CHR '':'' # sid @ '':*'') ?r"
    by (subst glob_literal) (auto simp: k)
  also have "\<dots> \<longleftrightarrow> (\<exists>x y. ?r = x @ y \<and> glob ((CHR '':'' # sid @ '':'') @ ''*'') y)"
    by (simp add: glob_star)
  also have "\<dots> \<longleftrightarrow> (\<exists>x y. ?r = x @ CHR '':'' # (sid @ '':'') @ y)"
  proof -
    have "glob ((CHR '':'' # sid @ '':'') @ ''*'') y \<longleftrightarrow> (\<exists>z. y = (CHR '':'' # sid @ '':'') @ z)" for y
      using l by (subst glob_literal) auto
    then show ?thesis by (simp only: append_Cons) blast
  qed
  also have "\<dots> \<longleftrightarrow> si_SessionID s = sid \<or> si_ParticipantID s = sid"
  proof -
    have d: "(\<exists>x y. si_StreamType s = x @ CHR '':'' # t @ y) = False" for t
      using assms(2) by (auto simp: plain_session_def no_colon_def)
    have e: "(\<exists>y. a @ CHR '':'' # b = (sid @ '':'') @ y) \<longleftrightarrow> a = sid" if "no_colon a" for a b
      using that l by (simp add: colon_split)
    have f: "(\<exists>y. si_StreamType s = (sid @ '':'') @ y) = False"
      using assms(2) by (auto simp: plain_session_def no_colon_def)
    show ?thesis using assms(2) unfolding plain_session_def by (simp only: colon_inside e d f) simp
  qed
  finally show ?thesis by simp
qed


lemma scan_by_pattern:
  assumes "scan_doc (l_scan env) view" and "mget_doc (l_mget env) view" and "live_wf (view w)"
    and "plain_pattern pat" and "\<And>k. glob pat k \<Longrightarrow> prefix ''streaming-session:'' k"
    and "scanByPattern env pat w = (Inr infos, w')"
  shows "set infos = {s. registered (view w) s \<and> glob pat (key_of s)}" and "view w' = view w"
proof -
  obtain keys w1 where k: "l_scan env pat w = (Some keys, w1)"
    using assms(6) by (auto simp: scanByPattern_def split: prod.splits option.splits)
  have v1: "view w1 = view w" and ks: "set keys = {k. view w k \<noteq> None \<and> glob pat k}"
    using assms(1,4) k unfolding scan_doc_def by blast+
  have r: "infos = List.map_filter (session_of (view w)) keys \<and> view w' = view w"
  proof (cases "keys = []")
    case True then show ?thesis using assms(6) k v1 by (simp add: scanByPattern_def map_filter_simps)
  next
    case False
    obtain vals w2 where m: "l_mget env keys w1 = (Some vals, w2)"
      using assms(6) k False by (auto simp: scanByPattern_def split: prod.splits option.splits)
    then have "view w2 = view w1" "vals = map (string_at (view w1)) keys"
      using assms(2) unfolding mget_doc_def by blast+
    then show ?thesis
      using assms(6) k m v1 False by (auto simp: scanByPattern_def session_of_def map_filter_def comp_def filter_map)
  qed
  then show "view w' = view w" by simp
  have wf: "\<exists>s. session_of (view w) k = Some s \<and> k = key_of s" if "k \<in> set keys" for k
    using that assms(3,5) ks unfolding live_wf_def by blast
  show "set infos = {s. registered (view w) s \<and> glob pat (key_of s)}"
  proof (intro equalityI subsetI)
    fix s assume "s \<in> set infos"
    then obtain k where "k \<in> set keys" "session_of (view w) k = Some s" using r by (auto simp: map_filter_def)
    then show "s \<in> {s. registered (view w) s \<and> glob pat (key_of s)}"
      using wf ks by (fastforce simp: registered_def)
  next
    fix s assume "s \<in> {s. registered (view w) s \<and> glob pat (key_of s)}"
    then have "key_of s \<in> set keys" "session_of (view w) (key_of s) = Some s" using ks by (auto simp: registered_def)
    then show "s \<in> set infos" using r by (force simp: map_filter_def)
  qed
qed

lemma registered_plain: "live_wf ks \<Longrightarrow> registered ks s \<Longrightarrow> plain_session s"
  unfolding live_wf_def registered_def by (metis key_of_prefix option.inject)

lemma glob_prefix: "glob (''streaming-session:'' @ p) k \<Longrightarrow> prefix ''streaming-session:'' k"
  using glob_literal [of "''streaming-session:''" p k] by auto

lemma glob_prefixes:
  "glob (''streaming-session:'' @ s @ '':*'') k \<Longrightarrow> prefix ''streaming-session:'' k"
  "glob (''streaming-session:*:'' @ s @ '':*'') k \<Longrightarrow> prefix ''streaming-session:'' k"
  "glob ''streaming-session:*'' k \<Longrightarrow> prefix ''streaming-session:'' k"
  using glob_prefix [of _ k] by (metis append_assoc) (use glob_prefix [of "''*:'' @ s @ '':*''" k] glob_prefix [of "''*''" k] in simp_all)

lemma scan_schedule:
  assumes "scan_doc (l_scan env) view" and "mget_doc (l_mget env) view" and "live_wf (view w)" and "literal sch"
    and "ScanSchedule env sch w = (Inr infos, w')"
  shows "set infos = {s. registered (view w) s \<and> si_ScheduleID s = sch}" and "view w' = view w"
  using scan_by_pattern [OF assms(1-3) literal_plain(1) [OF assms(4)] glob_prefixes(1) assms(5) [unfolded ScanSchedule_def]]
    glob_schedule [OF assms(4)] registered_plain [OF assms(3)] by auto

lemma scan_session:
  assumes "scan_doc (l_scan env) view" and "mget_doc (l_mget env) view" and "live_wf (view w)" and "literal sid" and "sid \<noteq> []"
    and "ScanSession env sid w = (Inr infos, w')"
  shows "set infos = {s. registered (view w) s \<and> (si_SessionID s = sid \<or> si_ParticipantID s = sid)}" and "view w' = view w"
proof -
  have "scanByPattern env (''streaming-session:*:'' @ sid @ '':*'') w = (Inr infos, w')"
    using assms(5,6) by (simp add: ScanSession_def)
  from scan_by_pattern [OF assms(1-3) literal_plain(2) [OF assms(4)] glob_prefixes(2) this]
  show "set infos = {s. registered (view w) s \<and> (si_SessionID s = sid \<or> si_ParticipantID s = sid)}" and "view w' = view w"
    using glob_session [OF assms(4)] registered_plain [OF assms(3)] by auto
qed

lemma scan_all:
  assumes "scan_doc (l_scan env) view" and "mget_doc (l_mget env) view" and "live_wf (view w)"
    and "ScanAll env w = (Inr infos, w')"
  shows "set infos = {s. registered (view w) s}" and "view w' = view w"
proof -
  have "glob ''streaming-session:*'' (key_of s)" for s
    using glob_literal [of "''streaming-session:''" "''*''" "key_of s"] by (simp add: key_of_def sessionKey_def)
  then show "set infos = {s. registered (view w) s}" and "view w' = view w"
    using scan_by_pattern [OF assms(1-3) literal_plain(3) glob_prefixes(3) assms(4) [unfolded ScanAll_def]] by auto
qed


section \<open>The registrations stay well typed\<close>

lemma live_wf_put:
  assumes "live_wf ks" and "\<And>k. k \<noteq> K \<Longrightarrow> ks' k = ks k"
    and "ks' K \<noteq> None \<Longrightarrow> prefix ''streaming-session:'' K \<Longrightarrow>
      session_of ks' K = session_of ks K \<and> ks K \<noteq> None \<or> (\<exists>s. session_of ks' K = Some s \<and> K = key_of s \<and> plain_session s)"
  shows "live_wf ks'"
  unfolding live_wf_def
proof (intro allI impI)
  fix k assume k: "prefix ''streaming-session:'' k \<and> ks' k \<noteq> None"
  show "\<exists>s. session_of ks' k = Some s \<and> k = key_of s \<and> plain_session s"
  proof (cases "k = K")
    case True
    with assms(3) k consider "session_of ks' k = session_of ks k" "ks k \<noteq> None"
      | "\<exists>s. session_of ks' k = Some s \<and> k = key_of s \<and> plain_session s" by blast
    then show ?thesis using assms(1) k unfolding live_wf_def by cases auto
  next
    case False
    then have "ks' k = ks k" by (rule assms(2))
    moreover from this have "session_of ks' k = session_of ks k" by (simp add: session_of_def string_at_def)
    ultimately show ?thesis using assms(1) k unfolding live_wf_def by auto
  qed
qed

lemma exec_live_wf:
  assumes "redis_conforms exec view" and "live_wf (view w)" and "exec c w = (r, w')"
    and "\<And>r'. redis_doc c (view w) r' (view w') \<Longrightarrow> view w' (cmd_key c) \<noteq> None \<Longrightarrow> prefix ''streaming-session:'' (cmd_key c) \<Longrightarrow>
       session_of (view w') (cmd_key c) = session_of (view w) (cmd_key c) \<and> view w (cmd_key c) \<noteq> None
       \<or> (\<exists>s. session_of (view w') (cmd_key c) = Some s \<and> cmd_key c = key_of s \<and> plain_session s)"
  shows "live_wf (view w')"
  using err_or_doc [OF assms(1,3)]
proof
  assume "view w' = view w" then show ?thesis using assms(2) by simp
next
  assume "\<exists>r'. redis_doc c (view w) r' (view w')"
  then show ?thesis using live_wf_put [OF assms(2) exec_frame [OF assms(1,3)]] assms(4) by blast
qed

lemma registered_doc:
  "session_of (ks(key_of s \<mapsto> (RString (Doc (enc_session_info s)), t))) (key_of s) = Some s"
  by (simp add: session_of_def string_at_def as_json_def)

lemma session_wf_step:
  assumes "redis_conforms exec view" and "live_wf (view w)"
    and "no_colon sch" and "no_colon sid" and "no_colon par" and "no_colon ty"
    and "(r, w') \<in> {Register exec inst sch sid par ty str t w, Unregister exec sch sid par ty w, Refresh exec sch sid par ty w}"
  shows "live_wf (view w')"
proof -
  define s where "s = \<lparr>si_InstanceID = inst, si_ScheduleID = sch, si_SessionID = sid, si_StreamID = str,
    si_ParticipantID = par, si_StreamType = ty, si_StartedAt = t\<rparr>"
  have k: "sessionKey sch sid par ty = key_of s" by (simp add: key_of_def s_def)
  have p: "plain_session s" using assms(3-6) by (simp add: plain_session_def s_def)
  have world: "snd (Register exec inst sch sid par ty str t w) = snd (exec (SET (key_of s) (Doc (enc_session_info s)) (TTL sessionTTL)) w)"
    "snd (Unregister exec sch sid par ty w) = snd (exec (DEL (key_of s)) w)"
    "snd (Refresh exec sch sid par ty w) = snd (exec (EXPIRE (key_of s) sessionTTL) w)"
    by (simp_all add: Register_def Unregister_def Refresh_def Let_def k s_def [symmetric] split: prod.split reply.split)
  have "\<exists>c. c \<in> {SET (key_of s) (Doc (enc_session_info s)) (TTL sessionTTL), DEL (key_of s), EXPIRE (key_of s) sessionTTL}
      \<and> w' = snd (exec c w)"
    using assms(7) world by (metis insert_iff singletonD snd_conv)
  then have "\<exists>c r1. c \<in> {SET (key_of s) (Doc (enc_session_info s)) (TTL sessionTTL), DEL (key_of s), EXPIRE (key_of s) sessionTTL}
      \<and> exec c w = (r1, w')"
    by (metis prod.collapse)
  then obtain c r1 where c: "c \<in> {SET (key_of s) (Doc (enc_session_info s)) (TTL sessionTTL), DEL (key_of s), EXPIRE (key_of s) sessionTTL}"
    and e: "exec c w = (r1, w')" by blast
  have kc: "cmd_key c = key_of s" using c by auto
  show ?thesis
  proof (rule exec_live_wf [OF assms(1,2) e], unfold kc)
    fix r' assume d: "redis_doc c (view w) r' (view w')" and n: "view w' (key_of s) \<noteq> None"
    from c consider "c = SET (key_of s) (Doc (enc_session_info s)) (TTL sessionTTL)" | "c = DEL (key_of s)" | "c = EXPIRE (key_of s) sessionTTL" by blast
    then show "session_of (view w') (key_of s) = session_of (view w) (key_of s) \<and> view w (key_of s) \<noteq> None
        \<or> (\<exists>u. session_of (view w') (key_of s) = Some u \<and> key_of s = key_of u \<and> plain_session u)"
    proof cases
      case 1
      then have "session_of (view w') (key_of s) = Some s" using d by (simp add: registered_doc)
      then show ?thesis using p by blast
    next
      case 2 then show ?thesis using d n by simp
    next
      case 3 then show ?thesis using d n by (auto simp: session_of_def string_at_def split: option.splits rval.splits)
    qed
  qed
qed

lemma Register_wf:
  assumes "redis_conforms exec view" and "live_wf (view w)" and "no_colon sch" and "no_colon sid" and "no_colon par" and "no_colon ty"
    and "Register exec inst sch sid par ty str t w = (r, w')"
  shows "live_wf (view w')"
  using session_wf_step [OF assms(1-6), of r w' inst str t] assms(7) by simp

lemma Unregister_wf:
  assumes "redis_conforms exec view" and "live_wf (view w)" and "no_colon sch" and "no_colon sid" and "no_colon par" and "no_colon ty"
    and "Unregister exec sch sid par ty w = (r, w')"
  shows "live_wf (view w')"
  using session_wf_step [OF assms(1-6), of r w'] assms(7) by simp


lemma demo_live_wf: "live_wf (\<lambda>_. None)"
  by (simp add: live_wf_def)


text \<open>Grouping by schedule: one entry per allowed schedule that occurs, holding its streams in the order scanned.\<close>

definition grouped :: "string list \<Rightarrow> SessionInfo list \<Rightarrow> (string \<times> StreamInfo list) list \<Rightarrow> bool" where
  "grouped allowed ss m \<longleftrightarrow> distinct (map fst m)
     \<and> fst ` set m = si_ScheduleID ` {s \<in> set ss. si_ScheduleID s \<in> set allowed}
     \<and> (\<forall>k v. map_of m k = Some v \<longrightarrow> v = map stream_info (filter (\<lambda>s. si_ScheduleID s = k) ss))"

lemma grouped_step:
  assumes g: "grouped allowed ss m"
  shows "grouped allowed (ss @ [s]) (add_stream_info allowed s m)"
proof (cases "si_ScheduleID s \<in> set allowed")
  case False
  have "k \<noteq> si_ScheduleID s" if "map_of m k = Some v" for k v
  proof -
    have "k \<in> fst ` set m" using that by (metis domI dom_map_of_conv_image_fst)
    then show ?thesis using g False unfolding grouped_def by auto
  qed
  then show ?thesis using g False by (auto simp: add_stream_info_def grouped_def)
next
  case True
  have none: "filter (\<lambda>t. si_ScheduleID t = si_ScheduleID s) ss = []" if "map_of m (si_ScheduleID s) = None"
  proof -
    have "si_ScheduleID s \<notin> fst ` set m" using that by (simp add: map_of_eq_None_iff)
    moreover have "si_ScheduleID t \<in> fst ` set m" if "t \<in> set ss" "si_ScheduleID t = si_ScheduleID s" for t
    proof -
      have "si_ScheduleID t \<in> si_ScheduleID ` {s \<in> set ss. si_ScheduleID s \<in> set allowed}"
        using that True by (intro imageI) simp
      then show ?thesis using g unfolding grouped_def by simp
    qed
    ultimately show ?thesis unfolding filter_empty_conv by (intro ballI) metis
  qed
  let ?l = "(case map_of m (si_ScheduleID s) of None \<Rightarrow> [] | Some l \<Rightarrow> l) @ [stream_info s]"
  have l: "?l = map stream_info (filter (\<lambda>t. si_ScheduleID t = si_ScheduleID s) (ss @ [s]))"
    using g none unfolding grouped_def by (cases "map_of m (si_ScheduleID s)") auto
  define n where "n = AList.update (si_ScheduleID s) ?l m"
  have e: "add_stream_info allowed s m = n" using True by (simp add: add_stream_info_def n_def)
  have "distinct (map fst n)" using g by (simp add: n_def grouped_def distinct_update)
  moreover have "fst ` set n = si_ScheduleID ` {t \<in> set (ss @ [s]). si_ScheduleID t \<in> set allowed}"
  proof -
    have "{t \<in> set (ss @ [s]). si_ScheduleID t \<in> set allowed} = insert s {t \<in> set ss. si_ScheduleID t \<in> set allowed}"
      using True by auto
    then show ?thesis using g by (simp add: n_def grouped_def)
  qed
  moreover have "v = map stream_info (filter (\<lambda>t. si_ScheduleID t = k) (ss @ [s]))" if "map_of n k = Some v" for k v
  proof (cases "k = si_ScheduleID s")
    case True then show ?thesis using that l by (simp add: n_def update_conv')
  next
    case False then show ?thesis using that g by (simp add: n_def update_conv' grouped_def)
  qed
  ultimately show ?thesis unfolding e grouped_def by blast
qed

lemma grouped_streams: "grouped allowed ss (fold (add_stream_info allowed) ss [])"
proof (induction ss rule: rev_induct)
  case Nil show ?case by (simp add: grouped_def)
next
  case (snoc s ss) then show ?case by (simp add: grouped_step)
qed

lemma grouped_view:
  assumes "grouped allowed ss m"
  defines "sm \<equiv> map (\<lambda>(k, v). \<lparr>sum_ScheduleID = k, ActiveCount = int (length v), Streams = v\<rparr>) m"
  shows "distinct (map sum_ScheduleID sm)
      \<and> sum_ScheduleID ` set sm = {si_ScheduleID s | s. s \<in> set ss \<and> si_ScheduleID s \<in> set allowed}
      \<and> (\<forall>e \<in> set sm. set (Streams e) = stream_info ` {s. s \<in> set ss \<and> si_ScheduleID s = sum_ScheduleID e}
           \<and> ActiveCount e = int (length (Streams e)))"
proof -
  have g: "distinct (map fst m)" "fst ` set m = si_ScheduleID ` {s \<in> set ss. si_ScheduleID s \<in> set allowed}"
    "\<And>k v. (k, v) \<in> set m \<Longrightarrow> v = map stream_info (filter (\<lambda>s. si_ScheduleID s = k) ss)"
    using assms(1) by (auto simp: grouped_def)
  have f: "map sum_ScheduleID sm = map fst m" by (simp add: sm_def split_beta)
  have i: "sum_ScheduleID ` set sm = fst ` set m" by (simp add: sm_def image_image split_beta)
  have e: "set (Streams e) = stream_info ` {s. s \<in> set ss \<and> si_ScheduleID s = sum_ScheduleID e} \<and> ActiveCount e = int (length (Streams e))"
    if "e \<in> set sm" for e
  proof -
    obtain k v where kv: "(k, v) \<in> set m" "e = \<lparr>sum_ScheduleID = k, ActiveCount = int (length v), Streams = v\<rparr>"
      using \<open>e \<in> set sm\<close> by (auto simp: sm_def)
    show ?thesis unfolding kv(2) g(3) [OF kv(1)] by simp
  qed
  show ?thesis using f i e g(1,2) by auto
qed

lemma monitor_view:
  assumes "scan_doc (l_scan env) view" and "mget_doc (l_mget env) view" and "live_wf (view w)"
  shows "literal sch \<Longrightarrow> GetScheduleSnapshot env sch w = (Inr infos, w1) \<Longrightarrow>
      set infos = stream_info ` {s. registered (view w) s \<and> si_ScheduleID s = sch}"
    and "GetActiveSchedules env allowed w = (Inr sm, w2) \<Longrightarrow>
      distinct (map sum_ScheduleID sm)
      \<and> sum_ScheduleID ` set sm = {si_ScheduleID s | s. registered (view w) s \<and> si_ScheduleID s \<in> set allowed}
      \<and> (\<forall>e \<in> set sm. set (Streams e) = stream_info ` {s. registered (view w) s \<and> si_ScheduleID s = sum_ScheduleID e}
           \<and> ActiveCount e = int (length (Streams e)))"
proof -
  assume sch: "literal sch" and g: "GetScheduleSnapshot env sch w = (Inr infos, w1)"
  obtain ss where "ScanSchedule env sch w = (Inr ss, w1)" "infos = map stream_info ss"
    using g by (auto simp: GetScheduleSnapshot_def bindE_Inr_iff)
  then show "set infos = stream_info ` {s. registered (view w) s \<and> si_ScheduleID s = sch}"
    using scan_schedule(1) [OF assms sch] by simp
next
  assume g: "GetActiveSchedules env allowed w = (Inr sm, w2)"
  obtain ss where ss: "ScanAll env w = (Inr ss, w2)"
    and sm: "sm = map (\<lambda>(k, v). \<lparr>sum_ScheduleID = k, ActiveCount = int (length v), Streams = v\<rparr>) (fold (add_stream_info allowed) ss [])"
    using g by (auto simp: GetActiveSchedules_def bindE_Inr_iff)
  have all: "s \<in> set ss \<longleftrightarrow> registered (view w) s" for s using scan_all(1) [OF assms ss] by simp
  note m = grouped_streams [of allowed ss]
  show "distinct (map sum_ScheduleID sm)
      \<and> sum_ScheduleID ` set sm = {si_ScheduleID s | s. registered (view w) s \<and> si_ScheduleID s \<in> set allowed}
      \<and> (\<forall>e \<in> set sm. set (Streams e) = stream_info ` {s. registered (view w) s \<and> si_ScheduleID s = sum_ScheduleID e}
           \<and> ActiveCount e = int (length (Streams e)))"
    using grouped_view [OF m] unfolding sm all by simp
qed


section \<open>Whose alert it is\<close>

lemma fill_identity_simps [simp]:
  "al_EventID (fill_identity a s) = al_EventID a" "al_SessionID (fill_identity a s) = al_SessionID a"
  "al_AlertType (fill_identity a s) = al_AlertType a" "al_Level (fill_identity a s) = al_Level a"
  "al_CapturedAt (fill_identity a s) = al_CapturedAt a"
  "al_ParticipantID (fill_identity a s) = (if needsParticipant a then si_ParticipantID s else al_ParticipantID a)"
  "al_StreamID (fill_identity a s) = (if needsStream a then si_StreamID s else al_StreamID a)"
  "al_StreamType (fill_identity a s) = (if al_StreamType a = [] then si_StreamType s else al_StreamType a)"
  by (simp_all add: fill_identity_def)

lemma best_match_in: "ss \<noteq> [] \<Longrightarrow> best_match a ss \<in> set ss"
  by (auto simp: best_match_def find_Some_iff split: option.split)

lemma best_match_type:
  "al_StreamType a \<noteq> [] \<Longrightarrow> s \<in> set ss \<Longrightarrow> si_StreamType s = al_StreamType a \<Longrightarrow> si_StreamType (best_match a ss) = al_StreamType a"
  by (auto simp: best_match_def find_Some_iff find_None_iff split: option.split)

text \<open>The registrations an alert of a session can be credited to.\<close>

definition of_session :: "keyspace \<Rightarrow> string \<Rightarrow> SessionInfo \<Rightarrow> bool" where
  "of_session ks sid s \<longleftrightarrow> registered ks s \<and> (si_SessionID s = sid \<or> si_ParticipantID s = sid)"

lemma enrich_cases:
  assumes "scan_doc (l_scan env) view" and "mget_doc (l_mget env) view" and "live_wf (view w)" and "literal (al_SessionID a)"
    and "enrichAlertIdentity env a w = (b, w')"
  shows "b = a \<or> (\<exists>s. of_session (view w) (al_SessionID a) s \<and> b = fill_identity a s
    \<and> (\<forall>s'. of_session (view w) (al_SessionID a) s' \<and> al_StreamType a \<noteq> [] \<and> si_StreamType s' = al_StreamType a
        \<longrightarrow> si_StreamType s = al_StreamType a))"
proof (cases "b = a")
  case False
  then obtain ss where ss: "al_SessionID a \<noteq> []" "ScanSession env (al_SessionID a) w = (Inr ss, w')" "ss \<noteq> []"
    and b: "b = fill_identity a (best_match a ss)"
    using assms(5) by (auto simp: enrichAlertIdentity_def split: if_splits prod.splits sum.splits)
  have set: "set ss = {s. of_session (view w) (al_SessionID a) s}"
    unfolding of_session_def by (rule scan_session(1) [OF assms(1-4) ss(1,2)])
  show ?thesis using b best_match_in [OF ss(3)] best_match_type set by blast
qed simp

lemma complete_alert_shape:
  assumes "complete_alert env a eid w = (b, w')"
  obtains e w1 c w2 where "(e, w1) = (if eid = [] then l_uuid env w else (eid, w))"
    and "enrichAlertIdentity env (a\<lparr>al_EventID := e\<rparr>) w1 = (c, w2)"
    and "al_EventID b = al_EventID c" and "al_SessionID b = al_SessionID c" and "al_ParticipantID b = al_ParticipantID c"
    and "al_StreamID b = al_StreamID c" and "al_StreamType b = al_StreamType c"
    and "al_Level b = (if al_Level c = None then Some (DefaultAlertLevel (al_AlertType c)) else al_Level c)"
  using assms by (auto simp: complete_alert_def Let_def split: prod.splits if_splits)

lemma needs_event [simp]: "needsParticipant (a\<lparr>al_EventID := e\<rparr>) = needsParticipant a" "needsStream (a\<lparr>al_EventID := e\<rparr>) = needsStream a"
  by (simp_all add: needsParticipant_def needsStream_def)

text \<open>An alert leaves the service with the event id it was given, with a level, and with the right owner: an id the
  producer really knew is never overwritten, and a blank one is filled only from one registration, live at that moment, of the
  very session (or participant) the alert names -- of the alert's own stream type when the session has one registered.\<close>

theorem alert_identity:
  assumes "scan_doc (l_scan env) view" and "mget_doc (l_mget env) view" and "live_wf (view w)"
    and "view (snd (l_uuid env w)) = view w" and "literal (al_SessionID a)"
    and "complete_alert env a eid w = (b, w')"
  shows "al_SessionID b = al_SessionID a \<and> al_EventID b = (if eid = [] then fst (l_uuid env w) else eid)
    \<and> al_Level b = Some (case al_Level a of None \<Rightarrow> DefaultAlertLevel (al_AlertType a) | Some l \<Rightarrow> l)
    \<and> (al_ParticipantID b, al_StreamID b, al_StreamType b) \<in>
        insert (al_ParticipantID a, al_StreamID a, al_StreamType a)
          {(if needsParticipant a then si_ParticipantID s else al_ParticipantID a,
            if needsStream a then si_StreamID s else al_StreamID a,
            if al_StreamType a = [] then si_StreamType s else al_StreamType a) | s.
            of_session (view w) (al_SessionID a) s
            \<and> (al_StreamType a \<in> si_StreamType ` {s'. of_session (view w) (al_SessionID a) s'} - {[]} \<longrightarrow> si_StreamType s = al_StreamType a)}"
proof -
  obtain e w1 c w2 where e: "(e, w1) = (if eid = [] then l_uuid env w else (eid, w))"
    and c: "enrichAlertIdentity env (a\<lparr>al_EventID := e\<rparr>) w1 = (c, w2)"
    and b: "al_EventID b = al_EventID c" "al_SessionID b = al_SessionID c" "al_ParticipantID b = al_ParticipantID c"
      "al_StreamID b = al_StreamID c" "al_StreamType b = al_StreamType c"
      "al_Level b = (if al_Level c = None then Some (DefaultAlertLevel (al_AlertType c)) else al_Level c)"
    by (rule complete_alert_shape [OF assms(6)])
  have v: "view w1 = view w" using e assms(4) by (auto split: if_splits) (metis snd_conv)
  have ev: "e = (if eid = [] then fst (l_uuid env w) else eid)" using e by (auto split: if_splits) (metis fst_conv)
  have "c = a\<lparr>al_EventID := e\<rparr> \<or> (\<exists>s. of_session (view w) (al_SessionID a) s \<and> c = fill_identity (a\<lparr>al_EventID := e\<rparr>) s
    \<and> (\<forall>s'. of_session (view w) (al_SessionID a) s' \<and> al_StreamType a \<noteq> [] \<and> si_StreamType s' = al_StreamType a
        \<longrightarrow> si_StreamType s = al_StreamType a))"
    using enrich_cases [OF assms(1,2) _ _ c] assms(3,5) v by simp
  then show ?thesis
  proof
    assume "c = a\<lparr>al_EventID := e\<rparr>"
    then show ?thesis using b ev by (cases "al_Level a") auto
  next
    assume "\<exists>s. of_session (view w) (al_SessionID a) s \<and> c = fill_identity (a\<lparr>al_EventID := e\<rparr>) s
      \<and> (\<forall>s'. of_session (view w) (al_SessionID a) s' \<and> al_StreamType a \<noteq> [] \<and> si_StreamType s' = al_StreamType a
          \<longrightarrow> si_StreamType s = al_StreamType a)"
    then obtain s where s: "of_session (view w) (al_SessionID a) s" "c = fill_identity (a\<lparr>al_EventID := e\<rparr>) s"
      "\<And>s'. of_session (view w) (al_SessionID a) s' \<Longrightarrow> al_StreamType a \<noteq> [] \<Longrightarrow> si_StreamType s' = al_StreamType a
        \<Longrightarrow> si_StreamType s = al_StreamType a"
      by metis
    have ty: "al_StreamType a \<in> si_StreamType ` {s'. of_session (view w) (al_SessionID a) s'} - {[]} \<longrightarrow> si_StreamType s = al_StreamType a"
    proof
      assume "al_StreamType a \<in> si_StreamType ` {s'. of_session (view w) (al_SessionID a) s'} - {[]}"
      then obtain s' where "of_session (view w) (al_SessionID a) s'" "si_StreamType s' = al_StreamType a" "al_StreamType a \<noteq> []" by auto
      then show "si_StreamType s = al_StreamType a" using s(3) by blast
    qed
    have f: "(al_ParticipantID b, al_StreamID b, al_StreamType b) =
        (if needsParticipant a then si_ParticipantID s else al_ParticipantID a,
         if needsStream a then si_StreamID s else al_StreamID a,
         if al_StreamType a = [] then si_StreamType s else al_StreamType a)"
      using b(3,4,5) s(2) by simp
    have "al_SessionID b = al_SessionID a" "al_EventID b = e" using b(1,2) s(2) by simp_all
    moreover have "al_Level b = Some (case al_Level a of None \<Rightarrow> DefaultAlertLevel (al_AlertType a) | Some l \<Rightarrow> l)"
      using b(6) s(2) by (cases "al_Level a") simp_all
    ultimately show ?thesis unfolding f using s(1) ty ev by blast
  qed
qed


text \<open>A reference environment: the world is the list of the registrations.\<close>

definition demo_view :: "SessionInfo list \<Rightarrow> keyspace" where
  "demo_view ss = map_of (map (\<lambda>s. (key_of s, (RString (Doc (enc_session_info s)), Some sessionTTL))) ss)"

definition demo_live :: "SessionInfo list liveEnv" where
  "demo_live = \<lparr>l_scan = (\<lambda>p w. (Some (filter (glob p) (map key_of w)), w)),
     l_mget = (\<lambda>keys w. (Some (map (string_at (demo_view w)) keys), w)), l_publish = (\<lambda>_ _ w. (True, w)),
     l_numsub = (\<lambda>c w. (Some [(c, 1)], w)), l_now = (\<lambda>w. (0, w)), l_uuid = (\<lambda>w. (''u1'', w)), l_alertPublisher = None\<rparr>"

lemma demo_live_sel [simp]:
  "l_uuid demo_live w = (''u1'', w)" "l_now demo_live w = (0, w)"
  "l_scan demo_live p w = (Some (filter (glob p) (map key_of w)), w)"
  "l_mget demo_live keys w = (Some (map (string_at (demo_view w)) keys), w)"
  by (simp_all add: demo_live_def)

lemma demo_scan_doc: "scan_doc (l_scan demo_live) demo_view" "mget_doc (l_mget demo_live) demo_view"
proof -
  have "demo_view w k \<noteq> None \<longleftrightarrow> k \<in> key_of ` set w" for w k
    by (simp add: demo_view_def map_of_eq_None_iff image_image)
  then show "scan_doc (l_scan demo_live) demo_view" by (auto simp: scan_doc_def)
  show "mget_doc (l_mget demo_live) demo_view" by (auto simp: mget_doc_def)
qed

definition demo_session :: "string \<Rightarrow> string \<Rightarrow> SessionInfo" where
  "demo_session par ty = \<lparr>si_InstanceID = ''i1'', si_ScheduleID = ''e1'', si_SessionID = ''ss'', si_StreamID = ty,
     si_ParticipantID = par, si_StreamType = ty, si_StartedAt = 0\<rparr>"

definition demo_world :: "SessionInfo list" where
  "demo_world = [demo_session ''p1'' ''screen'', demo_session ''p1'' ''camera'']"

lemma demo_keys [simp]: "key_of (demo_session par ty) = ''streaming-session:e1:ss:'' @ par @ '':'' @ ty"
  by (simp add: key_of_def demo_session_def sessionKey_def)

lemma demo_world_wf: "live_wf (demo_view demo_world)"
proof -
  have "plain_session (demo_session ''p1'' ''screen'')" "plain_session (demo_session ''p1'' ''camera'')"
    by (simp_all add: plain_session_def demo_session_def no_colon_def)
  then show ?thesis
    by (auto simp: live_wf_def demo_view_def demo_world_def session_of_def string_at_def as_json_def split: if_splits)
qed

definition demo_alert :: "string \<Rightarrow> AlertEvent" where
  "demo_alert sid = \<lparr>al_EventID = [], al_Source = AlertSourceAI, al_SessionID = sid, al_ParticipantID = [], al_StreamID = sid,
     al_StreamType = ''camera'', al_AlertType = AlertPhoneDetected, al_Detail = [], al_Confidence = Fin 1, al_SequenceNo = 0,
     al_Level = None, al_CapturedAt = 5\<rparr>"

lemma demo_scan_session: "ScanSession demo_live ''ss'' demo_world = (Inr demo_world, demo_world)"
proof -
  have g: "glob ''streaming-session:*:ss:*'' (key_of s)" if "s \<in> set demo_world" for s
    using that glob_session [of "''ss''" s] demo_world_wf
    by (auto simp: demo_world_def literal_def plain_session_def demo_session_def no_colon_def)
  have "filter (glob ''streaming-session:*:ss:*'') (map key_of demo_world) = map key_of demo_world"
    using g by (simp add: filter_id_conv)
  then show ?thesis
    by (simp add: ScanSession_def scanByPattern_def demo_world_def demo_view_def string_at_def as_json_def map_filter_simps)
qed

lemma demo_match:
  "best_match (demo_alert ''ss''\<lparr>al_EventID := e\<rparr>) demo_world = demo_session ''p1'' ''camera''" "demo_world \<noteq> []"
  by (simp_all add: best_match_def demo_world_def demo_session_def demo_alert_def)

lemma demo_enrich:
  "enrichAlertIdentity demo_live (demo_alert ''ss''\<lparr>al_EventID := e\<rparr>) demo_world =
     (fill_identity (demo_alert ''ss''\<lparr>al_EventID := e\<rparr>) (demo_session ''p1'' ''camera''), demo_world)"
proof -
  have "al_SessionID (demo_alert ''ss'') = ''ss''" "needsParticipant (demo_alert ''ss'')"
    by (simp_all add: demo_alert_def needsParticipant_def)
  then show ?thesis by (simp add: enrichAlertIdentity_def demo_scan_session demo_match)
qed

lemma demo_complete:
  "complete_alert demo_live (demo_alert ''ss'') ''ev'' demo_world =
     (demo_alert ''ss''\<lparr>al_EventID := ''ev'', al_ParticipantID := ''p1'', al_StreamID := ''camera'', al_Level := Some AlertLevelCritical\<rparr>, demo_world)"
  by (simp add: complete_alert_def demo_enrich)
    (simp add: demo_alert_def needsParticipant_def needsStream_def fill_identity_def demo_session_def DefaultAlertLevel_def zero_time_def second_def)

lemma alert_identity_witness:
  "al_Level (fst (complete_alert demo_live (demo_alert ''ss'') ''ev'' demo_world)) = Some AlertLevelCritical"
proof -
  have l: "al_Level (demo_alert ''ss'') = None" "al_AlertType (demo_alert ''ss'') = AlertPhoneDetected" "literal (al_SessionID (demo_alert ''ss''))"
    by (simp_all add: demo_alert_def literal_def)
  have u: "demo_view (snd (l_uuid demo_live demo_world)) = demo_view demo_world" by simp
  from alert_identity [OF demo_scan_doc demo_world_wf u l(3) demo_complete, THEN conjunct2, THEN conjunct2, THEN conjunct1]
  show ?thesis by (simp add: demo_complete l DefaultAlertLevel_def)
qed


text \<open>A session id is put into the pattern as it is: an alert for the session \<open>*\<close> is credited to whoever is found first.\<close>

lemma wildcard_session_credited:
  "al_ParticipantID (fst (enrichAlertIdentity demo_live (demo_alert ''*'') demo_world)) = ''p1''"
proof -
  have g: "filter (glob ''streaming-session:*:*:*'') (map key_of demo_world) = map key_of demo_world"
    by (simp add: demo_world_def glob_star)
  have "ScanSession demo_live ''*'' demo_world = (Inr demo_world, demo_world)"
    using g by (simp add: ScanSession_def scanByPattern_def demo_world_def demo_view_def string_at_def as_json_def map_filter_simps)
  moreover have "best_match (demo_alert ''*'') demo_world = demo_session ''p1'' ''camera''"
    by (simp add: best_match_def demo_world_def demo_session_def demo_alert_def)
  moreover have "al_SessionID (demo_alert ''*'') = ''*''" "needsParticipant (demo_alert ''*'')"
    by (simp_all add: demo_alert_def needsParticipant_def)
  ultimately show ?thesis by (simp add: enrichAlertIdentity_def demo_match) (simp add: demo_session_def)
qed

text \<open>A failing query and no monitor are the same answer, never an error.\<close>

lemma HasMonitor_never_fails: "\<exists>b. fst (HasMonitor env scheduleID w) = Inr b"
  "fst (l_numsub env (scheduleChannel scheduleID) w) = None \<Longrightarrow> fst (HasMonitor env scheduleID w) = Inr False"
  by (auto simp: HasMonitor_def split: prod.splits option.splits)

end
