(* ===== verification/Segments.thy ===== *)
theory Segments
  imports Auth Assembler
begin

text \<open>
  The desktop client's upload interface: \<open>internal/usecase/segment_usecase.go\<close>,
  \<open>internal/handler/segment/handler.go\<close> and \<open>internal/stream/audit.go\<close>.  The state is the worlds of Redis, S3
  and of everything else (clock, random numbers, publisher).  SHA-256, UUID syntax, base64, time and media
  type parsing are parameters.  A request is a record of what the handlers read of it; a JSON body is the
  list of documents in it and whether it ends cleanly after them.  Field names are matched exactly.
  Log lines are left out.
\<close>

section \<open>State and environment\<close>

record ('r, 's, 'o) segEnv =
  g_exec :: "'r redis"
  g_send :: "(string, 's) s3"
  g_cfg :: storageConfig
  g_now :: "'o \<Rightarrow> instant \<times> 'o"
  g_uuid :: "'o \<Rightarrow> string option \<times> 'o"
  g_rand :: "'o \<Rightarrow> string option \<times> 'o"
  g_publishRequested :: "RecordingAssemblyRequestedEvent \<Rightarrow> 'o \<Rightarrow> bool \<times> 'o"
  g_publishPart :: "RecordingPartChangedEvent \<Rightarrow> 'o \<Rightarrow> bool \<times> 'o"
  g_sha256 :: "string \<Rightarrow> string"
  g_base64 :: "string \<Rightarrow> string"
  g_uuidOK :: "string \<Rightarrow> bool"
  g_parseTime :: "string \<Rightarrow> instant option"
  g_mediaType :: "string \<Rightarrow> string option"
  g_jwt :: jwtLib
  g_secret :: string

record ('r, 's, 'o) segState =
  sgRedis :: 'r
  sgS3 :: 's
  sgOs :: 'o

datatype ucError = UCSession sessError | UCOwnership | UCCompleted | UCConflict | LookupExistingFailed regError
  | SegmentUploadFailed storageError | UCRegistry regError | MarkSegmentCompleteFailed regError

type_synonym ('a, 'r, 's, 'o) seg = "(ucError, 'a, ('r, 's, 'o) segState) fallible"

definition seg_redis :: "('e \<Rightarrow> ucError) \<Rightarrow> ('r \<Rightarrow> ('e + 'a) \<times> 'r) \<Rightarrow> ('a, 'r, 's, 'o) seg" where
  "seg_redis h f s = (case f (sgRedis s) of (r, w) \<Rightarrow> (mapErr h r, s\<lparr>sgRedis := w\<rparr>))"
definition seg_s3 :: "('e \<Rightarrow> ucError) \<Rightarrow> ('s \<Rightarrow> ('e + 'a) \<times> 's) \<Rightarrow> ('a, 'r, 's, 'o) seg" where
  "seg_s3 h f s = (case f (sgS3 s) of (r, w) \<Rightarrow> (mapErr h r, s\<lparr>sgS3 := w\<rparr>))"
definition seg_os :: "('o \<Rightarrow> 'a \<times> 'o) \<Rightarrow> ('r, 's, 'o) segState \<Rightarrow> 'a \<times> ('r, 's, 'o) segState" where
  "seg_os f s = (case f (sgOs s) of (x, w) \<Rightarrow> (x, s\<lparr>sgOs := w\<rparr>))"
definition seg_time :: "('r, 's, 'o) segEnv \<Rightarrow> (instant, 'r, 's, 'o) seg" where
  "seg_time env s = (case seg_os (g_now env) s of (t, s1) \<Rightarrow> (Inr t, s1))"
definition seg_fail :: "ucError \<Rightarrow> ('a, 'r, 's, 'o) seg" where "seg_fail e s = (Inl e, s)"
definition seg_ok :: "'a \<Rightarrow> ('a, 'r, 's, 'o) seg" where "seg_ok x s = (Inr x, s)"

lemmas seg_defs = seg_redis_def seg_s3_def seg_os_def seg_time_def seg_fail_def seg_ok_def

section \<open>encoding/hex\<close>

definition hex_digit :: "nat \<Rightarrow> char" where
  "hex_digit n = (if n < 10 then char_of (48 + n) else char_of (87 + n))"

definition hex_val :: "char \<Rightarrow> nat option" where
  "hex_val c = (let n = of_char c :: nat in
     if 48 \<le> n \<and> n \<le> 57 then Some (n - 48) else if 97 \<le> n \<and> n \<le> 102 then Some (n - 87)
     else if 65 \<le> n \<and> n \<le> 70 then Some (n - 55) else None)"

fun hex_encode :: "string \<Rightarrow> string" where
  "hex_encode [] = []"
| "hex_encode (c # cs) = (let n = of_char c :: nat in hex_digit (n div 16) # hex_digit (n mod 16) # hex_encode cs)"

fun hex_decode :: "string \<Rightarrow> string option" where
  "hex_decode [] = Some []"
| "hex_decode [_] = None"
| "hex_decode (a # b # cs) = (case (hex_val a, hex_val b, hex_decode cs) of
     (Some x, Some y, Some r) \<Rightarrow> Some (char_of (16 * x + y) # r) | _ \<Rightarrow> None)"

section \<open>The use case\<close>

record SegmentUploadRequest =
  sr_StreamID :: string
  sr_UploadToken :: string
  sr_Seq :: int
  sr_StartedAt :: instant
  sr_EndedAt :: instant
  sr_SHA256 :: string
  sr_Data :: string
  sr_StopReason :: string

record InventoryDeclaration =
  idc_StreamID :: string
  idc_UploadToken :: string
  idc_Complete :: bool
  idc_DeclaredAt :: instant
  idc_Segments :: "DeclaredSegment list"

definition validateUploadOwnership :: "('r, 's, 'o) segEnv \<Rightarrow> UploadSession \<Rightarrow> string \<Rightarrow> string \<Rightarrow> bool" where
  "validateUploadOwnership env session streamID uploadToken =
     (let actual = g_sha256 env uploadToken in
      case hex_decode (us_UploadTokenHash session) of None \<Rightarrow> False
      | Some expected \<Rightarrow> us_StreamID session = streamID \<and> length expected = length actual \<and> expected = actual)"

text \<open>\<open>LookupUpload\<close> followed by the ownership check, the start of every operation.\<close>

definition ownedSession :: "('r, 's, 'o) segEnv \<Rightarrow> string \<Rightarrow> string \<Rightarrow> (UploadSession, 'r, 's, 'o) seg" where
  "ownedSession env streamID uploadToken =
     bindE (seg_time env) (\<lambda>t. bindE (seg_redis UCSession (LookupUpload (g_exec env) t streamID)) (\<lambda>session.
       if validateUploadOwnership env session streamID uploadToken then seg_ok session else seg_fail UCOwnership))"

definition DeclareInventory :: "('r, 's, 'o) segEnv \<Rightarrow> InventoryDeclaration \<Rightarrow> (unit, 'r, 's, 'o) seg" where
  "DeclareInventory env req =
     bindE (ownedSession env (idc_StreamID req) (idc_UploadToken req)) (\<lambda>_.
     bindE (if idc_DeclaredAt req = zero_time then seg_time env else seg_ok (idc_DeclaredAt req)) (\<lambda>declaredAt.
       seg_redis UCRegistry (InventoryPut (g_exec env)
         \<lparr>inv_StreamID = idc_StreamID req, inv_Complete = idc_Complete req, inv_DeclaredAt = declaredAt,
          inv_Segments = idc_Segments req\<rparr>)))"

text \<open>\<open>Upload\<close> up to the decision: nothing to do, or go on under a session.\<close>

definition UploadCheck :: "('r, 's, 'o) segEnv \<Rightarrow> SegmentUploadRequest \<Rightarrow> (UploadSession option, 'r, 's, 'o) seg" where
  "UploadCheck env req =
     bindE (ownedSession env (sr_StreamID req) (sr_UploadToken req)) (\<lambda>session.
     if us_Completed session then seg_fail UCCompleted
     else bindE (seg_redis LookupExistingFailed (SegmentGet (g_exec env) (sr_StreamID req) (sr_Seq req))) (\<lambda>existing.
       case existing of
         Some m \<Rightarrow> if sm_SHA256 m = sr_SHA256 req then seg_ok None else seg_fail UCConflict
       | None \<Rightarrow> seg_ok (Some session)))"

definition UploadStore :: "('r, 's, 'o) segEnv \<Rightarrow> SegmentUploadRequest \<Rightarrow> UploadSession \<Rightarrow> (unit, 'r, 's, 'o) seg" where
  "UploadStore env req session =
     bindE (seg_s3 SegmentUploadFailed (UploadSegment (g_send env) (g_cfg env) (us_ScheduleID session) (us_SessionID session)
              (us_StreamID session) (sr_Seq req) (sr_Data req))) (\<lambda>key.
     bindE (seg_time env) (\<lambda>t.
       seg_redis UCRegistry (SegmentAdd (g_exec env) (sr_StreamID req)
         \<lparr>sm_Seq = sr_Seq req, sm_S3Key = key, sm_SHA256 = sr_SHA256 req, sm_StartedAt = sr_StartedAt req,
          sm_EndedAt = sr_EndedAt req, sm_SizeBytes = int (length (sr_Data req)), sm_UploadedAt = t\<rparr>)))"

definition Upload :: "('r, 's, 'o) segEnv \<Rightarrow> SegmentUploadRequest \<Rightarrow> (unit, 'r, 's, 'o) seg" where
  "Upload env req = bindE (UploadCheck env req) (\<lambda>go. case go of None \<Rightarrow> seg_ok () | Some session \<Rightarrow> UploadStore env req session)"

record StreamAudit =
  au_StreamID :: string
  au_TotalSegments :: int
  au_RecordedDuration :: duration
  au_Gaps :: "SegmentGap list"
  au_HasGaps :: bool
  au_Coverage :: StreamCoverage

definition Audit :: "('r, 's, 'o) segEnv \<Rightarrow> SegmentUploadRequest \<Rightarrow> (StreamAudit, 'r, 's, 'o) seg" where
  "Audit env req =
     bindE (ownedSession env (sr_StreamID req) (sr_UploadToken req)) (\<lambda>_.
     bindE (seg_redis UCRegistry (SegmentList (g_exec env) (sr_StreamID req))) (\<lambda>metas.
     bindE (seg_redis UCRegistry (InventoryGet (g_exec env) (sr_StreamID req))) (\<lambda>inventory.
       seg_ok \<lparr>au_StreamID = sr_StreamID req, au_TotalSegments = int (length metas),
         au_RecordedDuration = RecordedDuration inventory metas,
         au_Gaps = (if metas = [] then [] else fst (AuditGaps metas)),
         au_HasGaps = HasGaps (Reconcile inventory metas), au_Coverage = Reconcile inventory metas\<rparr>)))"

definition MarkStreamComplete :: "('r, 's, 'o) segEnv \<Rightarrow> SegmentUploadRequest \<Rightarrow> (UploadSession \<times> bool, 'r, 's, 'o) seg" where
  "MarkStreamComplete env req =
     bindE (ownedSession env (sr_StreamID req) (sr_UploadToken req)) (\<lambda>session.
     bindE (seg_redis UCSession (MarkUploadComplete (g_exec env) (sr_StreamID req) (sr_StopReason req))) (\<lambda>newlyCompleted.
     bindE (seg_redis MarkSegmentCompleteFailed (MarkComplete (g_exec env) (sr_StreamID req))) (\<lambda>_.
       seg_ok (session\<lparr>us_Completed := True,
         us_StopReason := (if us_StopReason session = [] then sr_StopReason req else us_StopReason session)\<rparr>, newlyCompleted))))"

definition KnownStopReasons :: "string list" where
  "KnownStopReasons = [''Submitted'', ''Expired'', ''UserClosed'', ''ApplicationShutdown'', ''CaptureFailure'', ''RecoveredAfterCrash'']"

definition NormalizeStopReason :: "string \<Rightarrow> string" where
  "NormalizeStopReason reason = (if TrimSpace reason \<in> set KnownStopReasons then TrimSpace reason else [])"

section \<open>The HTTP handlers\<close>

definition maxSegmentSize :: nat where "maxSegmentSize = 52428800"
definition maxSegmentDuration :: duration where "maxSegmentDuration = 2 * minute"
definition maxCreateBodySize :: nat where "maxCreateBodySize = 4096"
definition maxInventoryBodySize :: nat where "maxInventoryBodySize = 2097152"
definition maxInventorySegments :: nat where "maxInventorySegments = 5000"
definition maxCompleteBodySize :: nat where "maxCompleteBodySize = 1024"
definition assemblyWatchdogGrace :: duration where "assemblyWatchdogGrace = 2 * minute"
definition uploadCredentialGrade :: duration where "uploadCredentialGrade = 30 * minute"

text \<open>
  \<open>h_body\<close> is \<^const>\<open>None\<close> when reading fails; \<open>h_docs\<close> are the JSON documents of the body and whether nothing else
  follows them.
\<close>

record httpRequest =
  h_authorization :: string
  h_path :: "string \<Rightarrow> string"
  h_query :: "string \<Rightarrow> string"
  h_contentType :: string
  h_contentLength :: int
  h_checksum :: string
  h_body :: "string option"
  h_docs :: "json list \<times> bool"

record AuditGapResponse =
  ag_FromSeq :: int
  ag_ToSeq :: int
  ag_MissingSecs :: int

record AuditResponse =
  ar_StreamID :: string
  ar_TotalSegments :: int
  ar_RecordedDurationSecs :: int
  ar_HasGaps :: bool
  ar_Gaps :: "AuditGapResponse list"
  ar_Coverage :: StreamCoverage

record CreateSessionResponse =
  cr_StreamID :: string
  cr_StreamType :: string
  cr_ExpiresAt :: instant
  cr_UploadToken :: string

datatype httpBody = NoContent | AuditBody AuditResponse | SessionBody CreateSessionResponse

datatype httpReply = HttpError int string | HttpOK int httpBody | NilPointerPanic

definition bearerToken :: "httpRequest \<Rightarrow> string option" where
  "bearerToken r =
     (let a = h_authorization r in
      if \<not> prefix ''Bearer '' a \<or> TrimSpace (drop 7 a) = [] then None else Some (TrimSpace (drop 7 a)))"

definition writeUseCaseError :: "ucError \<Rightarrow> string \<Rightarrow> httpReply" where
  "writeUseCaseError err fallback =
     (case err of
        UCSession ErrUploadSessionNotFound \<Rightarrow> HttpError 404 ''upload session not found''
      | UCSession ErrUploadSessionExpired \<Rightarrow> HttpError 410 ''upload session expired''
      | UCOwnership \<Rightarrow> HttpError 403 ''forbidden''
      | UCCompleted \<Rightarrow> HttpError 409 ''upload session already completed''
      | UCConflict \<Rightarrow> HttpError 409 ''segment sequence conflict''
      | _ \<Rightarrow> HttpError 500 fallback)"

text \<open>Everything \<open>Upload\<close> checks before the use case: a reply, or the request it goes on with.\<close>

definition uploadRequest :: "('r, 's, 'o) segEnv \<Rightarrow> httpRequest \<Rightarrow> httpReply + SegmentUploadRequest" where
  "uploadRequest env r =
     (case bearerToken r of None \<Rightarrow> Inl (HttpError 401 ''unauthorized'') | Some uploadToken \<Rightarrow>
      let streamID = h_path r ''streamId''; seqStr = h_path r ''seq'';
          startedAtStr = h_query r ''startedAt''; endedAtStr = h_query r ''endedAt'' in
      if \<not> g_uuidOK env streamID then Inl (HttpError 400 ''invalid streamId'')
      else if seqStr = [] \<or> startedAtStr = [] \<or> endedAtStr = [] then Inl (HttpError 400 ''missing required params'')
      else (case Atoi seqStr of None \<Rightarrow> Inl (HttpError 400 ''invalid seq'') | Some seq \<Rightarrow>
        if seq < 0 then Inl (HttpError 400 ''invalid seq'')
      else (case g_parseTime env startedAtStr of None \<Rightarrow> Inl (HttpError 400 ''invalid startedAt'') | Some startedAt \<Rightarrow>
           (case g_parseTime env endedAtStr of None \<Rightarrow> Inl (HttpError 400 ''invalid endedAt'') | Some endedAt \<Rightarrow>
        if \<not> startedAt < endedAt \<or> maxSegmentDuration < time_sub endedAt startedAt then Inl (HttpError 400 ''invalid segment time range'')
        else if g_mediaType env (h_contentType r) \<noteq> Some ''video/mp4'' then Inl (HttpError 415 ''content type must be video/mp4'')
        else if int maxSegmentSize < h_contentLength r then Inl (HttpError 413 ''segment too large'')
        else (case h_body r of None \<Rightarrow> Inl (HttpError 400 ''read body failed'') | Some body \<Rightarrow>
          if maxSegmentSize < length (take (maxSegmentSize + 1) body) then Inl (HttpError 413 ''segment too large'')
          else if body = [] then Inl (HttpError 400 ''empty body'')
          else let checksum = ToLower (TrimSpace (h_checksum r)) in
            (case hex_decode checksum of None \<Rightarrow> Inl (HttpError 400 ''invalid X-Segment-SHA256'') | Some expectedHash \<Rightarrow>
              if length expectedHash \<noteq> 32 then Inl (HttpError 400 ''invalid X-Segment-SHA256'')
              else if \<not> EqualFold checksum (hex_encode (g_sha256 env body)) then Inl (HttpError 422 ''segment checksum mismatch'')
              else Inr \<lparr>sr_StreamID = streamID, sr_UploadToken = uploadToken, sr_Seq = seq, sr_StartedAt = startedAt,
                     sr_EndedAt = endedAt, sr_SHA256 = checksum, sr_Data = body, sr_StopReason = []\<rparr>))))))"

definition UploadHandler :: "('r, 's, 'o) segEnv \<Rightarrow> httpRequest \<Rightarrow> ('r, 's, 'o) segState \<Rightarrow> httpReply \<times> ('r, 's, 'o) segState" where
  "UploadHandler env r s =
     (case uploadRequest env r of Inl rep \<Rightarrow> (rep, s)
      | Inr req \<Rightarrow> (case Upload env req s of
          (Inl e, s1) \<Rightarrow> (writeUseCaseError e ''upload failed'', s1)
        | (Inr _, s1) \<Rightarrow> (HttpOK 204 NoContent, s1)))"


text \<open>A handler as a computation that may end early with its reply.\<close>

type_synonym ('a, 'r, 's, 'o) hnd = "(httpReply, 'a, ('r, 's, 'o) segState) fallible"

definition require :: "httpReply \<Rightarrow> 'a option \<Rightarrow> ('a, 'r, 's, 'o) hnd" where
  "require rep x s = (case x of None \<Rightarrow> (Inl rep, s) | Some y \<Rightarrow> (Inr y, s))"
definition guard :: "httpReply \<Rightarrow> bool \<Rightarrow> (unit, 'r, 's, 'o) hnd" where
  "guard rep b s = ((if b then Inr () else Inl rep), s)"
definition orReply :: "('e \<Rightarrow> httpReply) \<Rightarrow> ('s \<Rightarrow> ('e + 'a) \<times> 's) \<Rightarrow> 's \<Rightarrow> (httpReply + 'a) \<times> 's" where
  "orReply h f s = (case f s of (r, s1) \<Rightarrow> (mapErr h r, s1))"
definition seg_draw :: "httpReply \<Rightarrow> ('o \<Rightarrow> string option \<times> 'o) \<Rightarrow> (string, 'r, 's, 'o) hnd" where
  "seg_draw rep f s = (case seg_os f s of (x, s1) \<Rightarrow> require rep x s1)"
definition seg_send :: "httpReply \<Rightarrow> ('o \<Rightarrow> bool \<times> 'o) \<Rightarrow> (unit, 'r, 's, 'o) hnd" where
  "seg_send rep f s = (case seg_os f s of (b, s1) \<Rightarrow> guard rep b s1)"
definition seg_logged :: "('r \<Rightarrow> ('e + 'a) \<times> 'r) \<Rightarrow> (unit, 'r, 's, 'o) hnd" where
  "seg_logged f s = (Inr (), s\<lparr>sgRedis := snd (f (sgRedis s))\<rparr>)"
definition seg_clock :: "('r, 's, 'o) segEnv \<Rightarrow> (instant, 'r, 's, 'o) hnd" where
  "seg_clock env s = (case seg_os (g_now env) s of (t, s1) \<Rightarrow> (Inr t, s1))"
definition answer :: "('s \<Rightarrow> (httpReply + httpReply) \<times> 's) \<Rightarrow> 's \<Rightarrow> httpReply \<times> 's" where
  "answer f s = (case f s of (Inl r, s1) \<Rightarrow> (r, s1) | (Inr r, s1) \<Rightarrow> (r, s1))"

lemmas hnd_defs = require_def guard_def orReply_def seg_draw_def seg_send_def seg_logged_def seg_clock_def answer_def

text \<open>The start of \<open>Complete\<close>, \<open>DeclareInventory\<close> and \<open>Audit\<close>: the token and the stream id.\<close>

definition credentials :: "('r, 's, 'o) segEnv \<Rightarrow> httpRequest \<Rightarrow> (string \<times> string, 'r, 's, 'o) hnd" where
  "credentials env r =
     bindE (require (HttpError 401 ''unauthorized'') (bearerToken r)) (\<lambda>uploadToken.
     bindE (guard (HttpError 400 ''invalid streamId'') (g_uuidOK env (h_path r ''streamId''))) (\<lambda>_ s.
       (Inr (uploadToken, h_path r ''streamId''), s)))"

definition blankRequest :: "string \<Rightarrow> string \<Rightarrow> string \<Rightarrow> SegmentUploadRequest" where
  "blankRequest streamID uploadToken stopReason = \<lparr>sr_StreamID = streamID, sr_UploadToken = uploadToken, sr_Seq = 0,
     sr_StartedAt = zero_time, sr_EndedAt = zero_time, sr_SHA256 = [], sr_Data = [], sr_StopReason = stopReason\<rparr>"

definition is_struct :: "json \<Rightarrow> bool" where
  "is_struct j = (case j of JObj _ \<Rightarrow> True | JNull \<Rightarrow> True | _ \<Rightarrow> False)"

definition readStopReason :: "httpRequest \<Rightarrow> string" where
  "readStopReason r =
     (case h_body r of None \<Rightarrow> []
      | Some body \<Rightarrow> if maxCompleteBodySize < length body \<or> TrimSpace body = [] then []
          else (case h_docs r of
              ([j], True) \<Rightarrow> (case (if is_struct j then dec_str ''stopReason'' j else None) of
                 None \<Rightarrow> [] | Some reason \<Rightarrow> NormalizeStopReason reason)
            | _ \<Rightarrow> []))"

definition CompleteHandler :: "('r, 's, 'o) segEnv \<Rightarrow> httpRequest \<Rightarrow> ('r, 's, 'o) segState \<Rightarrow> httpReply \<times> ('r, 's, 'o) segState" where
  "CompleteHandler env r = answer
     (bindE (credentials env r) (\<lambda>(uploadToken, streamID).
      bindE (orReply (\<lambda>e. writeUseCaseError e ''mark complete failed'')
               (MarkStreamComplete env (blankRequest streamID uploadToken (readStopReason r)))) (\<lambda>(session, newlyCompleted).
      bindE (seg_draw (HttpError 500 ''cannot create assembly event id'') (g_uuid env)) (\<lambda>eventID.
      bindE (seg_clock env) (\<lambda>t.
      bindE (seg_send (HttpError 503 ''cannot queue recording assembly'') (g_publishRequested env
               \<lparr>rq_EventID = eventID, rq_StreamID = us_StreamID session, rq_ScheduleID = us_ScheduleID session,
                rq_SessionID = us_SessionID session, rq_ParticipantID = us_CandidateID session,
                rq_StreamType = us_StreamType session, rq_Source = ''DESKTOP_SEGMENT_UPLOAD'', rq_RequestedAt = t\<rparr>)) (\<lambda>_.
      bindE (seg_logged (Cancel (g_exec env) streamID)) (\<lambda>_ s.
        (Inr (HttpOK 204 NoContent), s))))))))"

text \<open>
  One document and nothing after it, within the size limit, with known fields and 64-bit numbers only
  (\<open>DisallowUnknownFields\<close>).
\<close>

definition strict_fields :: "string list \<Rightarrow> json \<Rightarrow> bool" where
  "strict_fields known j = (case j of
     JObj kvs \<Rightarrow> list_all (\<lambda>(k, v). k \<in> set known \<and> (case v of JNum n \<Rightarrow> - (2 ^ 63) \<le> n \<and> n < 2 ^ 63 | _ \<Rightarrow> True)) kvs
   | JNull \<Rightarrow> True | _ \<Rightarrow> False)"

definition decodeOne :: "nat \<Rightarrow> (json \<Rightarrow> 'a option) \<Rightarrow> httpRequest \<Rightarrow> 'a option" where
  "decodeOne limit dec r = (case h_body r of None \<Rightarrow> None
     | Some body \<Rightarrow> if limit < length body then None else (case h_docs r of ([j], True) \<Rightarrow> dec j | _ \<Rightarrow> None))"

record inventoryRequest =
  iq_Complete :: bool
  iq_DeclaredAt :: instant
  iq_Segments :: "DeclaredSegment list"

definition dec_inventory_segments :: "json \<Rightarrow> DeclaredSegment list option" where
  "dec_inventory_segments j = (case jget ''segments'' j of None \<Rightarrow> Some [] | Some JNull \<Rightarrow> Some []
     | Some (JArr js) \<Rightarrow> those (map (\<lambda>x. if strict_fields [''seq'', ''startedAt'', ''endedAt'', ''sha256'', ''sizeBytes'', ''framesWritten''] x
                                 then dec_declared x else None) js)
     | _ \<Rightarrow> None)"

definition dec_inventory_request :: "json \<Rightarrow> inventoryRequest option" where
  "dec_inventory_request j =
     (if \<not> strict_fields [''complete'', ''declaredAt'', ''segments''] j then None
      else Option.bind (dec_bool ''complete'' j) (\<lambda>c. Option.bind (dec_time ''declaredAt'' j) (\<lambda>t.
           Option.bind (dec_inventory_segments j) (\<lambda>g. Some \<lparr>iq_Complete = c, iq_DeclaredAt = t, iq_Segments = g\<rparr>))))"

definition DeclareInventoryHandler :: "('r, 's, 'o) segEnv \<Rightarrow> httpRequest \<Rightarrow> ('r, 's, 'o) segState \<Rightarrow> httpReply \<times> ('r, 's, 'o) segState" where
  "DeclareInventoryHandler env r = answer
     (bindE (credentials env r) (\<lambda>(uploadToken, streamID).
      bindE (require (HttpError 400 ''invalid request'') (decodeOne maxInventoryBodySize dec_inventory_request r)) (\<lambda>body.
      bindE (guard (HttpError 413 ''too many segments'') (length (iq_Segments body) \<le> maxInventorySegments)) (\<lambda>_.
      bindE (orReply (\<lambda>e. writeUseCaseError e ''declare inventory failed'') (DeclareInventory env
               \<lparr>idc_StreamID = streamID, idc_UploadToken = uploadToken, idc_Complete = iq_Complete body,
                idc_DeclaredAt = iq_DeclaredAt body, idc_Segments = iq_Segments body\<rparr>)) (\<lambda>_ s.
        (Inr (HttpOK 204 NoContent), s))))))"

definition toAuditResponse :: "StreamAudit \<Rightarrow> AuditResponse" where
  "toAuditResponse audit =
     \<lparr>ar_StreamID = au_StreamID audit, ar_TotalSegments = au_TotalSegments audit,
      ar_RecordedDurationSecs = trunc_secs (au_RecordedDuration audit), ar_HasGaps = au_HasGaps audit,
      ar_Gaps = map (\<lambda>g. \<lparr>ag_FromSeq = FromSeq g, ag_ToSeq = ToSeq g, ag_MissingSecs = trunc_secs (Missing g)\<rparr>) (au_Gaps audit),
      ar_Coverage = au_Coverage audit\<rparr>"

definition AuditHandler :: "('r, 's, 'o) segEnv \<Rightarrow> httpRequest \<Rightarrow> ('r, 's, 'o) segState \<Rightarrow> httpReply \<times> ('r, 's, 'o) segState" where
  "AuditHandler env r = answer
     (bindE (credentials env r) (\<lambda>(uploadToken, streamID).
      bindE (orReply (\<lambda>e. writeUseCaseError e ''audit failed'') (Audit env (blankRequest streamID uploadToken []))) (\<lambda>audit s.
        (Inr (HttpOK 200 (AuditBody (toAuditResponse audit))), s))))"


text \<open>A token and the hash it is stored as.\<close>

definition newUploadToken :: "('r, 's, 'o) segEnv \<Rightarrow> (string \<times> string, 'r, 's, 'o) hnd" where
  "newUploadToken env =
     bindE (seg_draw (HttpError 500 ''cannot create upload credential'') (g_rand env)) (\<lambda>raw s.
       let token = g_base64 env raw in (Inr (token, hex_encode (g_sha256 env token)), s))"

text \<open>Unlike \<open>bearerToken\<close>, the token is handed on untrimmed.\<close>

definition validateStreamToken :: "('r, 's, 'o) segEnv \<Rightarrow> httpRequest \<Rightarrow> (StreamClaims, 'r, 's, 'o) hnd" where
  "validateStreamToken env r =
     (let a = h_authorization r in
      if \<not> prefix ''Bearer '' a \<or> TrimSpace (drop 7 a) = [] then (\<lambda>s. (Inl (HttpError 401 ''unauthorized''), s))
      else bindE (seg_clock env) (\<lambda>t s.
        (mapErr (\<lambda>_. HttpError 401 ''unauthorized'') (ValidateStream (g_jwt env) (g_secret env) t (drop 7 a)), s)))"

definition dec_create_request :: "json \<Rightarrow> string option" where
  "dec_create_request j = (if strict_fields [''streamType''] j then dec_str ''streamType'' j else None)"

text \<open>The end of the upload window: the token's expiry, or the schedule's end where that is later.\<close>

definition uploadWindowEnd :: "StreamClaims \<Rightarrow> instant \<Rightarrow> instant" where
  "uploadWindowEnd claims expiry =
     (case ScheduleEnd claims of None \<Rightarrow> expiry | Some e \<Rightarrow> if expiry < e then e else expiry)"

text \<open>What follows the registration: arm the watchdog, announce the recording, answer.\<close>

definition announceUpload :: "('r, 's, 'o) segEnv \<Rightarrow> string \<Rightarrow> UploadSession \<Rightarrow> bool \<Rightarrow> (httpReply, 'r, 's, 'o) hnd" where
  "announceUpload env uploadToken registered created =
     (bindE (seg_logged (Schedule (g_exec env)
          \<lparr>pa_StreamID = us_StreamID registered, pa_ScheduleID = us_ScheduleID registered,
           pa_SessionID = us_SessionID registered, pa_ParticipantID = us_CandidateID registered,
           pa_StreamType = us_StreamType registered, DueAt = us_ExpiresAt registered + assemblyWatchdogGrace,
           Attempts = 0, Source = []\<rparr>)) (\<lambda>_.
      bindE (seg_draw (HttpError 500 ''cannot create recording state event id'') (g_uuid env)) (\<lambda>stateEventID.
      bindE (seg_clock env) (\<lambda>occurredAt.
      bindE (seg_send (HttpError 503 ''cannot publish recording state'') (g_publishPart env
          \<lparr>rp_EventID = stateEventID, rp_StreamID = us_StreamID registered, rp_ScheduleID = us_ScheduleID registered,
           rp_SessionID = us_SessionID registered, rp_ParticipantID = us_CandidateID registered,
           rp_StreamType = us_StreamType registered, rp_Source = ''DESKTOP_SEGMENT_UPLOAD'', rp_Status = ''UPLOADING'',
           rp_ObjectKey = [], rp_DurationSecs = 0, rp_HasGaps = False, rp_ErrorMessage = None,
           rp_OccurredAt = occurredAt\<rparr>)) (\<lambda>_ s.
        (Inr (HttpOK (if created then 201 else 200) (SessionBody
           \<lparr>cr_StreamID = us_StreamID registered, cr_StreamType = us_StreamType registered,
            cr_ExpiresAt = us_ExpiresAt registered, cr_UploadToken = uploadToken\<rparr>)), s))))))"

text \<open>\<open>CreateSession\<close> once the stream token is accepted.\<close>

definition createUpload :: "('r, 's, 'o) segEnv \<Rightarrow> httpRequest \<Rightarrow> StreamClaims \<Rightarrow> (httpReply, 'r, 's, 'o) hnd" where
  "createUpload env r claims =
     (bindE (require (HttpError 400 ''invalid request'') (decodeOne maxCreateBodySize dec_create_request r)) (\<lambda>streamType.
      bindE (guard (HttpError 400 ''streamType is required'') (TrimSpace streamType \<noteq> [])) (\<lambda>_.
      bindE (guard (HttpError 403 ''forbidden stream type'') (CanStream claims streamType)) (\<lambda>_.
      bindE (seg_draw (HttpError 500 ''cannot create stream id'') (g_uuid env)) (\<lambda>streamID.
      bindE (require NilPointerPanic (rc_ExpiresAt claims)) (\<lambda>expiry.
      bindE (newUploadToken env) (\<lambda>(uploadToken, uploadTokenHash).
      bindE (seg_clock env) (\<lambda>createdAt.
      bindE (seg_clock env) (\<lambda>t.
      bindE (orReply (\<lambda>_. HttpError 500 ''cannot register session'')
          (seg_redis UCSession (RegisterOrGetUpload (g_exec env) t
            \<lparr>us_StreamID = streamID, us_CandidateID = st_CandidateID claims, us_SessionID = st_SessionID claims,
             us_ScheduleID = st_ScheduleID claims, us_StreamType = streamType, us_CreatedAt = createdAt,
             us_ExpiresAt = uploadWindowEnd claims expiry + uploadCredentialGrade, us_Completed = False,
             us_UploadTokenHash = uploadTokenHash, us_StopReason = []\<rparr>))) (\<lambda>(registered, created).
        announceUpload env uploadToken registered created))))))))))"

definition CreateSession :: "('r, 's, 'o) segEnv \<Rightarrow> httpRequest \<Rightarrow> ('r, 's, 'o) segState \<Rightarrow> httpReply \<times> ('r, 's, 'o) segState" where
  "CreateSession env r = answer (bindE (validateStreamToken env r) (createUpload env r))"

section \<open>Hexadecimal digits\<close>

lemma high_nibble: "(of_char c :: nat) div 16 < 16"
  by (rule less_mult_imp_div_less) simp

lemma hex_val_digit: "n < 16 \<Longrightarrow> hex_val (hex_digit n) = Some n"
  by (auto simp: hex_val_def hex_digit_def Let_def of_char_of)

lemma hex_roundtrip [simp]: "hex_decode (hex_encode bs) = Some bs"
proof (induction bs)
  case (Cons c cs)
  show ?case using Cons.IH by (simp add: Let_def hex_val_digit high_nibble)
qed simp


lemma lower_idem [simp]: "lower_char (lower_char c) = lower_char c"
  by (simp add: lower_char_def Let_def)

lemma ToLower_idem [simp]: "ToLower (ToLower s) = ToLower s"
  by (simp add: ToLower_def)

lemma hex_digit_lower: "n < 16 \<Longrightarrow> lower_char (hex_digit n) = hex_digit n"
  by (simp add: lower_char_def hex_digit_def Let_def)

lemma hex_encode_lower [simp]: "ToLower (hex_encode bs) = hex_encode bs"
proof (induction bs)
  case (Cons c cs)
  show ?case using Cons.IH by (simp add: Let_def ToLower_def hex_digit_lower high_nibble)
qed (simp add: ToLower_def)

lemma hex_digit_not_space: "n < 16 \<Longrightarrow> \<not> is_space (hex_digit n)"
  by (auto simp: is_space_def hex_digit_def dest!: arg_cong [where f = "of_char :: char \<Rightarrow> nat"] split: if_splits)

lemma hex_encode_not_space: "c \<in> set (hex_encode bs) \<Longrightarrow> \<not> is_space c"
  by (induction bs) (auto simp: Let_def hex_digit_not_space high_nibble)

lemma TrimSpace_hex [simp]: "TrimSpace (hex_encode bs) = hex_encode bs"
proof (cases bs)
  case (Cons b bs')
  then have "hex_encode bs \<noteq> []" by (simp add: Let_def)
  with hd_in_set last_in_set hex_encode_not_space show ?thesis by (intro TrimSpace_id) blast+
qed (simp add: TrimSpace_def)

section \<open>Looking the session up\<close>

definition session_at :: "keyspace \<Rightarrow> string \<Rightarrow> UploadSession \<Rightarrow> bool" where
  "session_at ks sid u \<longleftrightarrow> (\<exists>j t. ks (uploadSessionKey sid) = Some (RString (Doc j), t) \<and> dec_upload j = Some u)"

lemma lookup_spec:
  assumes "redis_conforms exec view" and "LookupUpload exec t sid w = (Inr u, w1)"
  shows "view w1 = view w \<and> session_at (view w) sid u \<and> t < us_ExpiresAt u"
proof -
  obtain r u1 where g: "exec (GET (uploadSessionKey sid)) w = (r, u1)" by fastforce
  obtain j where j: "r = Val (Doc j)" "dec_upload j = Some u" "w1 = u1" "t < us_ExpiresAt u"
    using assms(2) g by (auto simp: LookupUpload_def as_json_def bind_eq_Some_conv split: reply.splits option.splits if_splits sval.splits)
  from conformsD [OF assms(1) g] j show ?thesis
    by (auto simp: session_at_def split: option.splits prod.splits rval.splits)
qed

lemma lookup_frame:
  assumes "redis_conforms exec view" and "LookupUpload exec t sid w = (r, w1)" and "k \<noteq> uploadSessionKey sid"
  shows "view w1 k = view w k"
proof -
  obtain r1 u1 where g: "exec (GET (uploadSessionKey sid)) w = (r1, u1)" by fastforce
  obtain r2 u2 where d: "exec (DEL (uploadSessionKey sid)) u1 = (r2, u2)" by fastforce
  have "w1 = u1 \<or> w1 = u2" using assms(2) g d
    by (auto simp: LookupUpload_def split: reply.splits option.splits if_splits)
  with exec_frame [OF assms(1) g] exec_frame [OF assms(1) d] assms(3) show ?thesis by auto
qed

lemma owned_spec:
  assumes "redis_conforms (g_exec env) view" and "ownedSession env sid tok s = (Inr u, s1)"
  shows "view (sgRedis s1) = view (sgRedis s) \<and> sgS3 s1 = sgS3 s \<and> session_at (view (sgRedis s)) sid u
    \<and> validateUploadOwnership env u sid tok"
proof -
  from assms(2) obtain t o1 w1 where l: "LookupUpload (g_exec env) t sid (sgRedis s) = (Inr u, w1)"
    and s1: "s1 = s\<lparr>sgOs := o1, sgRedis := w1\<rparr>" and v: "validateUploadOwnership env u sid tok"
    by (auto simp: ownedSession_def bindE_Inr_iff seg_defs split: prod.splits if_splits)
  from lookup_spec [OF assms(1) l] s1 v show ?thesis by simp
qed

lemma owned_frame:
  assumes "redis_conforms (g_exec env) view" and "ownedSession env sid tok s = (r, s1)"
  shows "sgS3 s1 = sgS3 s \<and> (\<forall>k. k \<noteq> uploadSessionKey sid \<longrightarrow> view (sgRedis s1) k = view (sgRedis s) k)"
proof -
  obtain t o1 where t: "g_now env (sgOs s) = (t, o1)" by fastforce
  obtain x w1 where l: "LookupUpload (g_exec env) t sid (sgRedis s) = (x, w1)" by fastforce
  have "s1 = s\<lparr>sgOs := o1, sgRedis := w1\<rparr>"
    using assms(2) t l by (auto simp: ownedSession_def bindE_def seg_defs split: sum.splits if_splits)
  with lookup_frame [OF assms(1) l] show ?thesis by simp
qed


section \<open>Uploads\<close>

abbreviation segment_entry :: "keyspace \<Rightarrow> string \<Rightarrow> int \<Rightarrow> SegmentMeta option" where
  "segment_entry ks sid q \<equiv> stored dec_segment ks (segmentKey sid) (Itoa q)"

lemma upload_check_spec:
  assumes "redis_conforms (g_exec env) view" and "UploadCheck env req s = (Inr go, s1)"
  shows "view (sgRedis s1) = view (sgRedis s) \<and> sgS3 s1 = sgS3 s
    \<and> (case go of
         None \<Rightarrow> \<exists>m. segment_entry (view (sgRedis s)) (sr_StreamID req) (sr_Seq req) = Some m \<and> sm_SHA256 m = sr_SHA256 req
       | Some u \<Rightarrow> segment_entry (view (sgRedis s)) (sr_StreamID req) (sr_Seq req) = None
           \<and> session_at (view (sgRedis s)) (sr_StreamID req) u \<and> us_StreamID u = sr_StreamID req \<and> \<not> us_Completed u)"
proof -
  let ?rest = "\<lambda>u existing. case existing of
      Some m \<Rightarrow> if sm_SHA256 m = sr_SHA256 req then seg_ok None else seg_fail UCConflict | None \<Rightarrow> seg_ok (Some u)"
  from assms(2) obtain u s2 where o: "ownedSession env (sr_StreamID req) (sr_UploadToken req) s = (Inr u, s2)"
    and c: "\<not> us_Completed u"
    and b: "bindE (seg_redis LookupExistingFailed (SegmentGet (g_exec env) (sr_StreamID req) (sr_Seq req))) (?rest u) s2 = (Inr go, s1)"
    by (auto simp: UploadCheck_def bindE_Inr_iff [of "ownedSession _ _ _"] seg_fail_def split: if_splits)
  from b obtain e w3 where g: "SegmentGet (g_exec env) (sr_StreamID req) (sr_Seq req) (sgRedis s2) = (Inr e, w3)"
    and re: "?rest u e (s2\<lparr>sgRedis := w3\<rparr>) = (Inr go, s1)"
    by (auto simp: bindE_Inr_iff seg_redis_def split: prod.splits)
  from re have s1: "s1 = s2\<lparr>sgRedis := w3\<rparr>"
    and r: "case e of None \<Rightarrow> go = Some u | Some m \<Rightarrow> sm_SHA256 m = sr_SHA256 req \<and> go = None"
    by (auto simp: seg_ok_def seg_fail_def split: option.splits if_splits)
  note O = owned_spec [OF assms(1) o]
  from hash_get_spec [OF assms(1) g [unfolded SegmentGet_def]] O s1
  have v: "e = segment_entry (view (sgRedis s)) (sr_StreamID req) (sr_Seq req)" "view (sgRedis s1) = view (sgRedis s)"
      "sgS3 s1 = sgS3 s" by simp_all
  have "us_StreamID u = sr_StreamID req" using O by (auto simp: validateUploadOwnership_def Let_def split: option.splits)
  with O v r c show ?thesis by (auto split: option.splits)
qed

lemma upload_store_spec:
  assumes "redis_conforms (g_exec env) view" and "s3_conforms (g_send env) objs"
    and "UploadStore env req u s = (Inr (), s1)"
  shows "\<exists>m. segment_entry (view (sgRedis s1)) (sr_StreamID req) (sr_Seq req) = Some m
    \<and> sm_SHA256 m = sr_SHA256 req \<and> sm_SizeBytes m = int (length (sr_Data req))
    \<and> sm_S3Key m = objSegmentKey (us_ScheduleID u) (us_SessionID u) (us_StreamID u) (sr_Seq req)
    \<and> objs (sgS3 s1) (RecordingBucket (g_cfg env), sm_S3Key m) = Some (sr_Data req, None)"
proof -
  from assms(3) obtain key w1 t o1 w2 where p: "UploadSegment (g_send env) (g_cfg env) (us_ScheduleID u) (us_SessionID u)
        (us_StreamID u) (sr_Seq req) (sr_Data req) (sgS3 s) = (Inr key, w1)"
    and a: "SegmentAdd (g_exec env) (sr_StreamID req) \<lparr>sm_Seq = sr_Seq req, sm_S3Key = key, sm_SHA256 = sr_SHA256 req,
        sm_StartedAt = sr_StartedAt req, sm_EndedAt = sr_EndedAt req, sm_SizeBytes = int (length (sr_Data req)),
        sm_UploadedAt = t\<rparr> (sgRedis s) = (Inr (), w2)"
    and s1: "s1 = s\<lparr>sgS3 := w1, sgOs := o1, sgRedis := w2\<rparr>"
    by (auto simp: UploadStore_def bindE_Inr_iff seg_defs split: prod.splits)
  from put_as_spec(1) [OF assms(2) p [unfolded UploadSegment_def] refl] segment_add_law [OF assms(1) a, of "sr_Seq req"] s1
  show ?thesis by (simp add: stored_as_def)
qed

lemma upload_request_spec:
  assumes "uploadRequest env r = Inr req"
  shows "h_body r = Some (sr_Data req) \<and> sr_Data req \<noteq> [] \<and> length (sr_Data req) \<le> maxSegmentSize
    \<and> sr_StreamID req = h_path r ''streamId'' \<and> Atoi (h_path r ''seq'') = Some (sr_Seq req) \<and> 0 \<le> sr_Seq req
    \<and> sr_SHA256 req = hex_encode (g_sha256 env (sr_Data req)) \<and> sr_StartedAt req < sr_EndedAt req
    \<and> time_sub (sr_EndedAt req) (sr_StartedAt req) \<le> maxSegmentDuration \<and> bearerToken r = Some (sr_UploadToken req)"
  using assms
  by (auto simp: uploadRequest_def Let_def EqualFold_def min_def split: option.splits if_splits)

lemma use_case_error_reply: "\<exists>c m. writeUseCaseError e f = HttpError c m"
  by (auto simp: writeUseCaseError_def split: ucError.splits sessError.splits)

lemma use_case_error_not_ok [simp]: "writeUseCaseError e f \<noteq> HttpOK c b" "HttpOK c b \<noteq> writeUseCaseError e f"
  using use_case_error_reply [of e f] by auto

text \<open>
  C5.  An accepted upload is the evidence the client sent: when \<open>Upload\<close> answers 204, the body was not empty and
  within the size limit, the segment registry holds an entry under the sequence number whose SHA-256 is the
  body's, and either that entry was there before and nothing was written, or there was none and the body is now
  the object the entry names.
\<close>

theorem upload_accepted:
  assumes "redis_conforms (g_exec env) view" and "s3_conforms (g_send env) objs"
    and "UploadHandler env r s = (HttpOK 204 NoContent, s1)"
  shows "\<exists>body q m. h_body r = Some body \<and> body \<noteq> [] \<and> length body \<le> maxSegmentSize
    \<and> Atoi (h_path r ''seq'') = Some q \<and> 0 \<le> q
    \<and> segment_entry (view (sgRedis s1)) (h_path r ''streamId'') q = Some m
    \<and> sm_SHA256 m = hex_encode (g_sha256 env body)
    \<and> (if segment_entry (view (sgRedis s)) (h_path r ''streamId'') q = None
       then objs (sgS3 s1) (RecordingBucket (g_cfg env), sm_S3Key m) = Some (body, None) \<and> sm_SizeBytes m = int (length body)
       else segment_entry (view (sgRedis s)) (h_path r ''streamId'') q = Some m
         \<and> sgS3 s1 = sgS3 s \<and> view (sgRedis s1) = view (sgRedis s))"
proof -
  obtain req where req: "uploadRequest env r = Inr req" "Upload env req s = (Inr (), s1)"
  proof (cases "uploadRequest env r")
    case (Inl e)
    then have "e = HttpOK 204 NoContent" using assms(3) by (simp add: UploadHandler_def)
    with Inl show ?thesis by (auto simp: uploadRequest_def Let_def split: option.splits if_splits)
  next
    case (Inr q)
    with assms(3) that show ?thesis by (auto simp: UploadHandler_def split: prod.splits sum.splits)
  qed
  note R = upload_request_spec [OF req(1)]
  from req(2) obtain go s2 where c: "UploadCheck env req s = (Inr go, s2)"
    and st: "case go of None \<Rightarrow> s1 = s2 | Some u \<Rightarrow> UploadStore env req u s2 = (Inr (), s1)"
    by (auto simp: Upload_def bindE_Inr_iff seg_ok_def split: option.splits)
  note C = upload_check_spec [OF assms(1) c]
  show ?thesis
  proof (cases go)
    case None
    with C st R show ?thesis by auto
  next
    case (Some u)
    with st have "UploadStore env req u s2 = (Inr (), s1)" by simp
    from upload_store_spec [OF assms(1,2) this] C Some R show ?thesis by auto
  qed
qed


section \<open>Ownership\<close>

definition refused :: "('r \<Rightarrow> keyspace) \<Rightarrow> string \<Rightarrow> ('r, 's, 'o) segState \<Rightarrow> (ucError + 'a) \<times> ('r, 's, 'o) segState \<Rightarrow> bool" where
  "refused view sid s out \<longleftrightarrow> (\<exists>e. fst out = Inl e) \<and> sgS3 (snd out) = sgS3 s
     \<and> (\<forall>k. k \<noteq> uploadSessionKey sid \<longrightarrow> view (sgRedis (snd out)) k = view (sgRedis s) k)"

lemma refused_bind:
  assumes "redis_conforms (g_exec env) view" and "session_at (view (sgRedis s)) sid u"
    and "hex_decode (us_UploadTokenHash u) \<noteq> Some (g_sha256 env tok)"
  shows "refused view sid s (bindE (ownedSession env sid tok) f s)"
proof -
  obtain r s1 where o: "ownedSession env sid tok s = (r, s1)" by fastforce
  obtain e where "r = Inl e"
  proof (cases r)
    case (Inr x)
    from owned_spec [OF assms(1) o [unfolded Inr]] assms(2,3)
    have False by (auto simp: session_at_def validateUploadOwnership_def Let_def split: option.splits)
    then show ?thesis ..
  qed simp
  with owned_frame [OF assms(1) o] o show ?thesis by (simp add: refused_def bindE_def)
qed


section \<open>Completion\<close>

lemma stop_reason_known: "readStopReason r \<in> set KnownStopReasons \<union> {[]}"
  by (auto simp: readStopReason_def NormalizeStopReason_def split: option.splits list.splits bool.splits prod.splits)

lemma owned_stream: "validateUploadOwnership env u sid tok \<Longrightarrow> us_StreamID u = sid"
  by (auto simp: validateUploadOwnership_def Let_def split: option.splits)

lemma complete_frame:
  assumes "redis_conforms exec view" and "MarkUploadComplete exec sid reason w = (r, w1)" and "k \<noteq> uploadSessionKey sid"
  shows "view w1 k = view w k"
proof -
  obtain r1 u1 where g: "exec (GET (uploadSessionKey sid)) w = (r1, u1)" by fastforce
  show ?thesis
  proof (cases "\<exists>j. r1 = Val (Doc j)")
    case True
    then obtain j where j: "r1 = Val (Doc j)" ..
    let ?new = "jset ''completed'' (JBool True)
        (if reason \<noteq> [] \<and> lua_empty ''stopReason'' j then jset ''stopReason'' (JStr reason) j else j)"
    obtain r2 u2 where e: "exec (SET (uploadSessionKey sid) (Doc ?new) KeepTTL) u1 = (r2, u2)" by fastforce
    have "w1 = u2" using assms(2) g j e
      by (auto simp: MarkUploadComplete_def markUploadCompleteScript_def Let_def split: reply.splits if_splits)
    with exec_frame [OF assms(1) g] exec_frame [OF assms(1) e] assms(3) show ?thesis by simp
  next
    case False
    then have "w1 = u1" using assms(2) g
      by (auto simp: MarkUploadComplete_def markUploadCompleteScript_def split: reply.splits sval.splits)
    with exec_frame [OF assms(1) g] assms(3) show ?thesis by simp
  qed
qed

lemma mark_frame:
  assumes "redis_conforms exec view" and "MarkComplete exec sid w = (r, w1)" and "k \<noteq> completeKey sid"
  shows "view w1 k = view w k"
proof -
  obtain r1 u1 where g: "exec (SET (completeKey sid) (Txt ''1'') (TTL segmentTTL)) w = (r1, u1)" by fastforce
  then have "w1 = u1" using assms(2) by (auto simp: MarkComplete_def split: reply.splits)
  with exec_frame [OF assms(1) g] assms(3) show ?thesis by simp
qed

lemma mark_stream_frame:
  assumes "redis_conforms (g_exec env) view" and "MarkStreamComplete env req s = (r, s1)"
    and "k \<noteq> uploadSessionKey (sr_StreamID req)" and "k \<noteq> completeKey (sr_StreamID req)"
  shows "view (sgRedis s1) k = view (sgRedis s) k"
proof -
  let ?sid = "sr_StreamID req"
  obtain r1 s2 where o: "ownedSession env ?sid (sr_UploadToken req) s = (r1, s2)" by fastforce
  obtain r3 w3 where m: "MarkUploadComplete (g_exec env) ?sid (sr_StopReason req) (sgRedis s2) = (r3, w3)" by fastforce
  obtain r4 w4 where c: "MarkComplete (g_exec env) ?sid w3 = (r4, w4)" by fastforce
  have "s1 = s2 \<or> s1 = s2\<lparr>sgRedis := w3\<rparr> \<or> s1 = s2\<lparr>sgRedis := w4\<rparr>"
    using assms(2) o m c by (auto simp: MarkStreamComplete_def bindE_def seg_defs split: sum.splits)
  with owned_frame [OF assms(1) o] complete_frame [OF assms(1) m] mark_frame [OF assms(1) c] assms(3,4)
  show ?thesis by auto
qed

lemma pending_key_apart [simp]:
  "pendingAssemblyDueKey \<noteq> uploadSessionKey a" "pendingAssemblyDueKey \<noteq> completeKey a"
  "pendingAssemblyKey b \<noteq> uploadSessionKey a" "pendingAssemblyKey b \<noteq> completeKey a"
  by (simp_all add: pendingAssemblyDueKey_def pendingAssemblyKey_def uploadSessionKey_def completeKey_def)

text \<open>
  C26.  The watchdog keeps a stream until its assembly is queued: \<open>Complete\<close> answers 204 only when the publisher
  took the assembly request of that very stream, every other answer leaves the watchdog's due list and entry as
  they were, and the stop reason it stores is a known one or none, whatever the body holds.
\<close>

theorem complete_queues_before_disarming:
  assumes "redis_conforms (g_exec env) view" and "CompleteHandler env r s = (rep, s1)"
  shows "(if rep = HttpOK 204 NoContent
     then \<exists>ev o1 o2. g_publishRequested env ev o1 = (True, o2) \<and> rq_StreamID ev = h_path r ''streamId''
            \<and> rq_Source ev = ''DESKTOP_SEGMENT_UPLOAD''
     else view (sgRedis s1) pendingAssemblyDueKey = view (sgRedis s) pendingAssemblyDueKey
        \<and> view (sgRedis s1) (pendingAssemblyKey (h_path r ''streamId'')) = view (sgRedis s) (pendingAssemblyKey (h_path r ''streamId'')))
    \<and> readStopReason r \<in> set KnownStopReasons \<union> {[]}"
proof -
  let ?sid = "h_path r ''streamId''"
  have "if rep = HttpOK 204 NoContent
     then \<exists>ev o1 o2. g_publishRequested env ev o1 = (True, o2) \<and> rq_StreamID ev = ?sid \<and> rq_Source ev = ''DESKTOP_SEGMENT_UPLOAD''
     else \<forall>k \<in> {pendingAssemblyDueKey, pendingAssemblyKey ?sid}. view (sgRedis s1) k = view (sgRedis s) k"
  proof (cases "bearerToken r = None \<or> \<not> g_uuidOK env ?sid")
    case True
    then have "s1 = s \<and> rep \<noteq> HttpOK 204 NoContent" using assms(2)
      by (auto simp: CompleteHandler_def answer_def credentials_def bindE_def require_def guard_def split: option.splits)
    then show ?thesis by simp
  next
    case False
    then obtain tok where tok: "bearerToken r = Some tok" "g_uuidOK env ?sid" by auto
    let ?req = "blankRequest ?sid tok (readStopReason r)"
    obtain m s2 where ms: "MarkStreamComplete env ?req s = (m, s2)" by fastforce
    have fr: "view (sgRedis s2) k = view (sgRedis s) k" if "k \<in> {pendingAssemblyDueKey, pendingAssemblyKey ?sid}" for k
      using mark_stream_frame [OF assms(1) ms, of k] that by (auto simp: blankRequest_def)
    have cr: "credentials env r s = (Inr (tok, ?sid), s)"
      using tok by (simp add: credentials_def bindE_def require_def guard_def)
    show ?thesis
    proof (cases m)
      case (Inl e)
      with assms(2) ms cr have "s1 = s2 \<and> rep \<noteq> HttpOK 204 NoContent"
        by (auto simp: CompleteHandler_def answer_def bindE_def orReply_def)
      with fr show ?thesis by simp
    next
      case (Inr x)
      obtain u nw where x: "x = (u, nw)" by fastforce
      obtain a where o: "us_StreamID u = ?sid"
      proof -
        from ms [unfolded Inr x] obtain v sa where v: "ownedSession env ?sid tok s = (Inr v, sa)" "us_StreamID u = us_StreamID v"
          by (auto simp: MarkStreamComplete_def bindE_Inr_iff seg_ok_def blankRequest_def)
        with owned_spec [OF assms(1) v(1)] owned_stream that show ?thesis by metis
      qed
      obtain ei o1 where ei: "g_uuid env (sgOs s2) = (ei, o1)" by fastforce
      obtain t o2 where t: "g_now env o1 = (t, o2)" by fastforce
      note step = assms(2) ms cr Inr x ei t CompleteHandler_def answer_def bindE_def orReply_def seg_draw_def seg_os_def
        require_def seg_clock_def seg_send_def guard_def seg_logged_def
      show ?thesis
      proof (cases ei)
        case None
        then have "rep \<noteq> HttpOK 204 NoContent \<and> s1 = s2\<lparr>sgOs := o1\<rparr>" using assms(2) by (auto simp: step(2-))
        with fr show ?thesis by simp
      next
        case (Some eid)
        let ?ev = "\<lparr>rq_EventID = eid, rq_StreamID = us_StreamID u, rq_ScheduleID = us_ScheduleID u,
                rq_SessionID = us_SessionID u, rq_ParticipantID = us_CandidateID u,
                rq_StreamType = us_StreamType u, rq_Source = ''DESKTOP_SEGMENT_UPLOAD'', rq_RequestedAt = t\<rparr>"
        obtain b o3 where b: "g_publishRequested env ?ev o2 = (b, o3)" by fastforce
        show ?thesis
        proof (cases b)
          case True
          then have "rep = HttpOK 204 NoContent" using assms(2) Some b by (simp add: step(2-))
          moreover have "\<exists>ev o1 o2. g_publishRequested env ev o1 = (True, o2) \<and> rq_StreamID ev = ?sid
              \<and> rq_Source ev = ''DESKTOP_SEGMENT_UPLOAD''"
            using b True o by (intro exI [of _ ?ev] exI [of _ o2] exI [of _ o3]) simp
          ultimately show ?thesis by simp
        next
          case False
          then have "rep \<noteq> HttpOK 204 NoContent \<and> s1 = s2\<lparr>sgOs := o3\<rparr>" using assms(2) Some b by (auto simp: step(2-))
          with fr show ?thesis by simp
        qed
      qed
    qed
  qed
  then show ?thesis using stop_reason_known by auto
qed


section \<open>Creating a session\<close>

text \<open>An index entry points to a session that is held, or to one that is gone.\<close>

definition index_wf :: "keyspace \<Rightarrow> bool" where
  "index_wf ks \<longleftrightarrow> (\<forall>s. ks (uploadSessionIndexKey s) = None
     \<or> (\<exists>a. indexed ks s (us_StreamID a) \<and> (holds ks a \<or> ks (uploadSessionKey (us_StreamID a)) = None)))"

lemma register_stale:
  assumes "redis_conforms exec view" and "RegisterOrGetUpload exec t s w = (Inr (r, fresh), w1)"
    and "indexed (view w) s x" and "view w (uploadSessionKey x) = None"
  shows "r = s \<and> holds (view w1) s"
proof -
  let ?k1 = "uploadSessionIndexKey s" and ?k2 = "uploadSessionKey (us_StreamID s)"
  let ?px = "time_sub (us_ExpiresAt s) t div millisecond * millisecond"
  obtain j where sc: "registerUploadScript exec ?k1 ?k2 (enc_upload s) ?px w = (Some j, w1)" "dec_upload j = Some r"
    using assms(2) by (auto simp: RegisterOrGetUpload_def Let_def split: if_splits prod.splits option.splits)
  obtain r1 u1 where g1: "exec (GET ?k1) w = (r1, u1)" by fastforce
  have n1: "r1 \<noteq> Err" using sc(1) g1 by (auto simp: registerUploadScript_def)
  note v1 = exec_get [OF assms(1) g1 n1]
  have r1: "r1 = Val (Txt (uploadSessionKey x))" using assms(3) v1(3) by (auto simp: indexed_def)
  obtain r2 u2 where g2: "exec (GET (uploadSessionKey x)) u1 = (r2, u2)" by fastforce
  have n2: "r2 \<noteq> Err" using sc(1) g1 g2 r1 by (auto simp: registerUploadScript_def)
  have "r2 = Nil" using exec_get(2) [OF assms(1) g2 n2] v1(1) assms(4) by simp
  then have "register_replace exec ?k1 ?k2 (enc_upload s) ?px u2 = (Some j, w1)"
    using sc(1) g1 g2 r1 by (simp add: registerUploadScript_def)
  then obtain u3 where "register_fresh exec ?k1 ?k2 (enc_upload s) ?px u3 = (Some j, w1)"
    by (auto simp: register_replace_def split: prod.splits reply.splits)
  from register_fresh_spec [OF assms(1) this] sc(2) doc_of_enc show ?thesis by (auto simp: doc_of_def)
qed

lemma register_credential:
  assumes "redis_conforms exec view" and "index_wf (view w)" and "RegisterOrGetUpload exec t s w = (Inr (r, fresh), w1)"
  shows "holds (view w1) r \<and> us_UploadTokenHash r = us_UploadTokenHash s \<and> us_ExpiresAt r = us_ExpiresAt s"
proof -
  note S = register_spec [OF assms(1,3)]
  from assms(2) consider "view w (uploadSessionIndexKey s) = None"
    | a where "indexed (view w) s (us_StreamID a)" "holds (view w) a"
    | x where "indexed (view w) s x" "view w (uploadSessionKey x) = None"
    unfolding index_wf_def by metis
  then show ?thesis
  proof cases
    case 1
    with S show ?thesis by blast
  next
    case (2 a)
    with S show ?thesis by (cases "us_Completed a") auto
  next
    case (3 x)
    from register_stale [OF assms(1,3) 3] show ?thesis by simp
  qed
qed

lemma schedule_frame:
  assumes "redis_conforms exec view" and "k \<noteq> pendingAssemblyDueKey" and "k \<noteq> pendingAssemblyKey (pa_StreamID p)"
  shows "view (snd (Schedule exec p w)) k = view w k"
proof -
  obtain r1 u1 r2 u2 r3 u3 where e: "exec (ZADD pendingAssemblyDueKey (unix_secs (DueAt p)) (pa_StreamID p)) w = (r1, u1)"
      "exec (EXPIRE pendingAssemblyDueKey pendingAssemblyTTL) u1 = (r2, u2)"
      "exec (SET (pendingAssemblyKey (pa_StreamID p)) (Doc (enc_pending p)) (TTL pendingAssemblyTTL)) u2 = (r3, u3)"
    by (metis surj_pair)
  then have "snd (Schedule exec p w) = u3" by (simp add: Schedule_def)
  with exec_frame [OF assms(1) e(1)] exec_frame [OF assms(1) e(2)] exec_frame [OF assms(1) e(3)] assms(2,3)
  show ?thesis by simp
qed

lemma schedule_holds:
  assumes "redis_conforms exec view" and "holds (view w) u"
  shows "holds (view (snd (Schedule exec p w))) u"
proof -
  have "view (snd (Schedule exec p w)) (uploadSessionKey (us_StreamID u)) = view w (uploadSessionKey (us_StreamID u))"
    by (rule schedule_frame [OF assms(1)]) (metis pending_key_apart)+
  with assms(2) show ?thesis by (simp add: holds_def)
qed

lemma windowEnd_ge: "expiry \<le> uploadWindowEnd claims expiry"
  by (simp add: uploadWindowEnd_def split: option.splits)

lemma fresh_token_owns:
  assumes "newUploadToken env s = (Inr (tok, h), s1)" and "us_UploadTokenHash u = h"
  shows "validateUploadOwnership env u (us_StreamID u) tok \<and> s1 = s\<lparr>sgOs := sgOs s1\<rparr>"
  using assms
  by (auto simp: newUploadToken_def bindE_Inr_iff seg_draw_def seg_os_def require_def validateUploadOwnership_def Let_def
      split: prod.splits option.splits)

lemma stream_token_spec:
  assumes "jwt_doc (g_jwt env) signedBy" and "validateStreamToken env r s = (Inr claims, s1)"
  shows "(\<exists>alg cl. signedBy (HMAC alg) (g_secret env) cl (drop 7 (h_authorization r)) \<and> dec_stream_claims cl = Some claims)
    \<and> (\<exists>t e. rc_ExpiresAt claims = Some e \<and> t < e) \<and> sgRedis s1 = sgRedis s"
proof -
  from assms(2) obtain t o1 where v: "ValidateStream (g_jwt env) (g_secret env) t (drop 7 (h_authorization r)) = Inr claims"
    and s1: "s1 = s\<lparr>sgOs := o1\<rparr>"
    by (auto simp: validateStreamToken_def Let_def bindE_Inr_iff seg_clock_def seg_os_def split: if_splits prod.splits)
  from v have p: "parse (g_jwt env) (g_secret env) dec_stream_claims t (drop 7 (h_authorization r)) = Inr claims"
    by (auto simp: ValidateStream_def split: sum.splits if_splits option.splits)
  from parse_Inr [OF assms(1) p] stream_claims_exp s1 show ?thesis by fastforce
qed


text \<open>Steps that end early with an error reply only.\<close>

definition errs :: "('s \<Rightarrow> (httpReply + 'a) \<times> 's) \<Rightarrow> bool" where
  "errs f \<longleftrightarrow> (\<forall>s e. fst (f s) = Inl e \<longrightarrow> (\<exists>c m. e = HttpError c m))"

lemma errs_bind: "errs f \<Longrightarrow> (\<And>x. errs (g x)) \<Longrightarrow> errs (bindE f g)"
  unfolding errs_def bindE_def by (auto split: prod.splits sum.splits) (metis fst_conv)+

lemma errs_steps:
  "errs (require (HttpError c m) x)" "errs (require rep (Some y))" "errs (guard (HttpError c m) b)"
  "errs (orReply (\<lambda>_. HttpError c m) f)" "errs (seg_draw (HttpError c m) d)" "errs (seg_send (HttpError c m) e)"
  "errs (seg_logged l)" "errs (seg_clock env)" "errs (\<lambda>s. (Inr z, s))" "errs (newUploadToken env)"
  by (auto simp: errs_def require_def guard_def orReply_def seg_draw_def seg_send_def seg_logged_def seg_clock_def
      newUploadToken_def bindE_def Let_def split: option.splits prod.splits sum.splits if_splits)

lemma create_errs: "rc_ExpiresAt claims = Some e \<Longrightarrow> errs (createUpload env r claims)"
  unfolding createUpload_def announceUpload_def by (auto intro!: errs_bind errs_steps split: prod.split)

lemma steps_Inr:
  "require rep x s = (Inr y, s1) \<longleftrightarrow> x = Some y \<and> s1 = s" "guard rep b s = (Inr z, s1) \<longleftrightarrow> b \<and> s1 = s"
  "orReply h f s = (Inr v, s1) \<longleftrightarrow> f s = (Inr v, s1)"
  by (auto simp: require_def guard_def orReply_def split: option.splits prod.splits)

lemma steps_redis:
  "seg_draw rep d s = (Inr x, s1) \<Longrightarrow> sgRedis s1 = sgRedis s" "seg_clock env s = (Inr t, s1) \<Longrightarrow> sgRedis s1 = sgRedis s"
  "seg_send rep e s = (Inr u, s1) \<Longrightarrow> sgRedis s1 = sgRedis s" "newUploadToken env s = (Inr k, s1) \<Longrightarrow> sgRedis s1 = sgRedis s"
  by (auto simp: seg_draw_def seg_clock_def seg_send_def seg_os_def require_def guard_def newUploadToken_def bindE_Inr_iff Let_def
      split: prod.splits option.splits if_splits)

lemma announce_success:
  assumes "announceUpload env tok g fresh s = (Inr rep, s1)"
  shows "\<exists>p code. sgRedis s1 = snd (Schedule (g_exec env) p (sgRedis s))
    \<and> rep = HttpOK code (SessionBody \<lparr>cr_StreamID = us_StreamID g, cr_StreamType = us_StreamType g,
         cr_ExpiresAt = us_ExpiresAt g, cr_UploadToken = tok\<rparr>)"
  using assms unfolding announceUpload_def
  by (auto simp: bindE_Inr_iff seg_logged_def dest!: steps_redis)

lemma create_success:
  assumes "createUpload env r claims s = (Inr rep, s1)" and "rc_ExpiresAt claims = Some expiry"
  shows "\<exists>streamType t x g fresh w1 p tok h sa sb code.
      decodeOne maxCreateBodySize dec_create_request r = Some streamType \<and> CanStream claims streamType
    \<and> us_ExpiresAt x = uploadWindowEnd claims expiry + uploadCredentialGrade \<and> us_UploadTokenHash x = h
    \<and> newUploadToken env sa = (Inr (tok, h), sb)
    \<and> RegisterOrGetUpload (g_exec env) t x (sgRedis s) = (Inr (g, fresh), w1)
    \<and> sgRedis s1 = snd (Schedule (g_exec env) p w1)
    \<and> rep = HttpOK code (SessionBody \<lparr>cr_StreamID = us_StreamID g, cr_StreamType = us_StreamType g,
         cr_ExpiresAt = us_ExpiresAt g, cr_UploadToken = tok\<rparr>)"
proof -
  let ?x = "\<lambda>sid ty cat h. \<lparr>us_StreamID = sid, us_CandidateID = st_CandidateID claims, us_SessionID = st_SessionID claims,
             us_ScheduleID = st_ScheduleID claims, us_StreamType = ty, us_CreatedAt = cat,
             us_ExpiresAt = uploadWindowEnd claims expiry + uploadCredentialGrade, us_Completed = False,
             us_UploadTokenHash = h, us_StopReason = []\<rparr>"
  from assms obtain ty sid sa tok h sb cat sc t sd g fresh se where a: "decodeOne maxCreateBodySize dec_create_request r = Some ty"
    "CanStream claims ty" "seg_draw (HttpError 500 ''cannot create stream id'') (g_uuid env) s = (Inr sid, sa)"
    "newUploadToken env sa = (Inr (tok, h), sb)" "seg_clock env sb = (Inr cat, sc)" "seg_clock env sc = (Inr t, sd)"
    "seg_redis UCSession (RegisterOrGetUpload (g_exec env) t (?x sid ty cat h)) sd = (Inr (g, fresh), se)"
    and rest: "announceUpload env tok g fresh se = (Inr rep, s1)"
    unfolding createUpload_def by (auto simp: bindE_Inr_iff steps_Inr split: prod.splits)
  have v: "sgRedis sd = sgRedis s" using a(3-6) by (metis steps_redis(1,2,4))
  with a(7) obtain w1 where w1: "RegisterOrGetUpload (g_exec env) t (?x sid ty cat h) (sgRedis s) = (Inr (g, fresh), w1)"
    "sgRedis se = w1" by (auto simp: seg_redis_def split: prod.splits)
  from announce_success [OF rest] obtain p d where "sgRedis s1 = snd (Schedule (g_exec env) p w1)" and "rep = HttpOK d (SessionBody
      \<lparr>cr_StreamID = us_StreamID g, cr_StreamType = us_StreamType g, cr_ExpiresAt = us_ExpiresAt g, cr_UploadToken = tok\<rparr>)"
    using w1(2) by blast
  with a(1,2,4) w1(1) show ?thesis by force
qed


text \<open>
  \<open>CreateSession\<close> never panics on a missing expiry, because the JWT library demands one; and when it answers
  with a session, the request carried a stream token signed with the service's secret that allows the stream type
  asked for, the session is stored, the credential handed out is accepted for it, and its window ends half an hour
  after the later of the token's expiry and the end of the schedule.
\<close>

theorem session_credential:
  assumes "redis_conforms (g_exec env) view" and "jwt_doc (g_jwt env) signedBy"
    and "index_wf (view (sgRedis s))" and "CreateSession env r s = (rep, s1)"
  shows "rep \<noteq> NilPointerPanic
    \<and> (case rep of HttpOK code (SessionBody b) \<Rightarrow>
        \<exists>claims expiry alg cl streamType u.
          signedBy (HMAC alg) (g_secret env) cl (drop 7 (h_authorization r)) \<and> dec_stream_claims cl = Some claims
        \<and> decodeOne maxCreateBodySize dec_create_request r = Some streamType \<and> CanStream claims streamType
        \<and> holds (view (sgRedis s1)) u \<and> validateUploadOwnership env u (cr_StreamID b) (cr_UploadToken b)
        \<and> rc_ExpiresAt claims = Some expiry \<and> us_ExpiresAt u = cr_ExpiresAt b
        \<and> cr_ExpiresAt b = uploadWindowEnd claims expiry + uploadCredentialGrade
        \<and> expiry + 30 * minute \<le> cr_ExpiresAt b
       | _ \<Rightarrow> True)"
proof -
  obtain v sa where v: "validateStreamToken env r s = (v, sa)" by fastforce
  show ?thesis
  proof (cases v)
    case (Inl e)
    with v have "e = HttpError 401 ''unauthorized''"
      by (auto simp: validateStreamToken_def Let_def bindE_def seg_clock_def seg_os_def
          split: if_splits prod.splits sum.splits)
    with assms(4) v Inl show ?thesis by (auto simp: CreateSession_def answer_def bindE_def)
  next
    case (Inr claims)
    note T = stream_token_spec [OF assms(2) v [unfolded Inr]]
    then obtain expiry where e: "rc_ExpiresAt claims = Some expiry" by blast
    obtain c sb where c: "createUpload env r claims sa = (c, sb)" by fastforce
    have rep: "rep = (case c of Inl x \<Rightarrow> x | Inr x \<Rightarrow> x)" "s1 = sb"
      using assms(4) v c Inr by (auto simp: CreateSession_def answer_def bindE_def split: sum.splits)
    show ?thesis
    proof (cases c)
      case (Inl x)
      with create_errs [OF e, of env r] c have "\<exists>k m. x = HttpError k m" unfolding errs_def by (metis fst_conv)
      with rep Inl show ?thesis by auto
    next
      case (Inr x)
      from create_success [OF c [unfolded Inr] e] obtain ty t x' g fresh w1 p tok h sc sd code where
        s: "decodeOne maxCreateBodySize dec_create_request r = Some ty" "CanStream claims ty"
        "us_ExpiresAt x' = uploadWindowEnd claims expiry + uploadCredentialGrade" "us_UploadTokenHash x' = h"
        "newUploadToken env sc = (Inr (tok, h), sd)"
        "RegisterOrGetUpload (g_exec env) t x' (sgRedis sa) = (Inr (g, fresh), w1)"
        "sgRedis sb = snd (Schedule (g_exec env) p w1)"
        "x = HttpOK code (SessionBody \<lparr>cr_StreamID = us_StreamID g, cr_StreamType = us_StreamType g,
           cr_ExpiresAt = us_ExpiresAt g, cr_UploadToken = tok\<rparr>)" by blast
      have w: "index_wf (view (sgRedis sa))" using T assms(3) by simp
      from register_credential [OF assms(1) w s(6)] have g: "holds (view w1) g" "us_UploadTokenHash g = h"
        "us_ExpiresAt g = uploadWindowEnd claims expiry + uploadCredentialGrade" using s(3,4) by auto
      have "holds (view (sgRedis s1)) g" using schedule_holds [OF assms(1) g(1)] s(7) rep(2) by simp
      moreover have "validateUploadOwnership env g (us_StreamID g) tok" using fresh_token_owns [OF s(5) g(2)] by simp
      moreover have "expiry + 30 * minute \<le> us_ExpiresAt g"
        using g(3) windowEnd_ge [of expiry claims] by (simp add: uploadCredentialGrade_def)
      moreover obtain alg cl where "signedBy (HMAC alg) (g_secret env) cl (drop 7 (h_authorization r))"
        "dec_stream_claims cl = Some claims" using T by blast
      moreover have "rep = HttpOK code (SessionBody \<lparr>cr_StreamID = us_StreamID g, cr_StreamType = us_StreamType g,
           cr_ExpiresAt = us_ExpiresAt g, cr_UploadToken = tok\<rparr>)" using rep(1) Inr s(8) by simp
      ultimately show ?thesis using s(1,2) g(3) e
        by (simp, intro exI [of _ claims] exI [of _ expiry] exI [of _ alg] exI [of _ cl] exI [of _ ty] exI [of _ g] conjI) simp_all
    qed
  qed
qed

section \<open>A server in memory\<close>

text \<open>
  The environment of the examples: Redis and S3 in memory, a clock that stands at 0, a digest that pads or
  cuts to 32 bytes, and the token library of \<open>Auth\<close>.
\<close>

definition demo_env :: "(keyspace, string objects, unit) segEnv" where
  "demo_env = \<lparr>g_exec = mem_exec, g_send = mem_s3, g_cfg = DefaultConfig [], g_now = (\<lambda>_. (0, ())),
     g_uuid = (\<lambda>_. (Some ''u'', ())), g_rand = (\<lambda>_. (Some ''k'', ())), g_publishRequested = (\<lambda>_ _. (True, ())),
     g_publishPart = (\<lambda>_ _. (True, ())), g_sha256 = (\<lambda>x. take 32 (x @ replicate 32 (CHR ''0''))), g_base64 = (\<lambda>x. x),
     g_uuidOK = slash_free, g_parseTime = Atoi, g_mediaType = (\<lambda>x. Some x), g_jwt = demo_jwt, g_secret = ''key''\<rparr>"

definition demo_session :: UploadSession where
  "demo_session = \<lparr>us_StreamID = ''u'', us_CandidateID = ''c'', us_SessionID = ''s'', us_ScheduleID = ''d'',
     us_StreamType = ''camera'', us_CreatedAt = 0, us_ExpiresAt = 9, us_Completed = False,
     us_UploadTokenHash = hex_encode (g_sha256 demo_env ''k''), us_StopReason = []\<rparr>"

definition demo_world :: "(keyspace, string objects, unit) segState" where
  "demo_world = \<lparr>sgRedis = Map.empty(uploadSessionKey ''u'' \<mapsto> (RString (Doc (enc_upload demo_session)), None)),
     sgS3 = Map.empty, sgOs = ()\<rparr>"

definition demo_request :: httpRequest where
  "demo_request = \<lparr>h_authorization = ''Bearer k'', h_path = (\<lambda>p. if p = ''seq'' then ''7'' else ''u''),
     h_query = (\<lambda>q. if q = ''startedAt'' then ''1'' else ''2''), h_contentType = ''video/mp4'', h_contentLength = 3,
     h_checksum = hex_encode (g_sha256 demo_env ''abc''), h_body = Some ''abc'', h_docs = ([], False)\<rparr>"

lemma demo_env_simps:
  "g_exec demo_env = mem_exec" "g_send demo_env = mem_s3" "g_now demo_env = (\<lambda>_. (0, ()))" "g_cfg demo_env = DefaultConfig []"
  "g_uuid demo_env = (\<lambda>_. (Some ''u'', ()))" "g_publishRequested demo_env ev o1 = (True, ())" "g_rand demo_env = (\<lambda>_. (Some ''k'', ()))"
  "g_publishPart demo_env pe o1 = (True, ())" "g_jwt demo_env = demo_jwt" "g_secret demo_env = ''key''" "g_base64 demo_env raw = raw"
  by (simp_all add: demo_env_def)

lemma demo_session_at: "session_at (sgRedis demo_world) ''u'' demo_session"
  using doc_of_enc by (auto simp: session_at_def demo_world_def doc_of_def)

lemma demo_owned: "ownedSession demo_env ''u'' ''k'' demo_world = (Inr demo_session, demo_world)"
proof -
  have d: "dec_upload (enc_upload demo_session) = Some demo_session" using doc_of_enc by (simp add: doc_of_def)
  have h: "us_UploadTokenHash demo_session = hex_encode (g_sha256 demo_env ''k'')" "us_StreamID demo_session = ''u''"
    "us_ExpiresAt demo_session = 9"
    by (simp_all add: demo_session_def)
  have "validateUploadOwnership demo_env demo_session ''u'' ''k''" by (simp add: validateUploadOwnership_def h)
  then show ?thesis using d h(3)
    by (simp add: ownedSession_def bindE_def seg_defs demo_env_def demo_world_def LookupUpload_def mem_exec_def as_json_def)
qed


lemma demo_upload_request:
  "\<exists>req. uploadRequest demo_env demo_request = Inr req \<and> sr_StreamID req = ''u'' \<and> sr_UploadToken req = ''k'' \<and> sr_Seq req = 7"
proof -
  have t: "TrimSpace ''k'' = ''k''" by code_simp
  have a: "Atoi ''7'' = Some 7" "Atoi ''1'' = Some 1" "Atoi ''2'' = Some 2" by code_simp+
  have p: "g_parseTime demo_env = Atoi" "g_mediaType demo_env = Some" "g_uuidOK demo_env ''u''"
    "length (g_sha256 demo_env y) = 32" for y by (simp_all add: demo_env_def slash_free_def)
  show ?thesis
    by (simp add: uploadRequest_def demo_request_def bearerToken_def t a p Let_def EqualFold_def maxSegmentDuration_def
        maxSegmentSize_def time_sub_def minute_def second_def min_dur_def max_dur_def)
qed

lemma demo_empty_hash: "the_hash (segmentKey x) (sgRedis demo_world) = Some []"
  by (simp add: demo_world_def the_hash_def segmentKey_def uploadSessionKey_def)

lemma demo_stored:
  "\<exists>s1 req. UploadHandler demo_env demo_request demo_world = (HttpOK 204 NoContent, s1)
     \<and> UploadStore demo_env req demo_session demo_world = (Inr (), s1) \<and> sr_StreamID req = ''u'' \<and> sr_Seq req = 7"
proof -
  obtain req where req: "uploadRequest demo_env demo_request = Inr req" "sr_StreamID req = ''u''" "sr_UploadToken req = ''k''"
    "sr_Seq req = 7" using demo_upload_request by blast
  have c: "UploadCheck demo_env req demo_world = (Inr (Some demo_session), demo_world)"
    using demo_empty_hash [of "''u''"]
    by (simp add: UploadCheck_def req bindE_def demo_owned seg_defs SegmentGet_def hash_get_def demo_env_simps mem_exec_def demo_session_def)
  have "\<exists>s1. UploadStore demo_env req demo_session demo_world = (Inr (), s1)"
    using demo_empty_hash [of "''u''"]
    by (simp add: UploadStore_def bindE_def seg_defs req SegmentAdd_def hash_add_def demo_env_simps mem_exec_def UploadSegment_def
        put_as_def mem_s3_def Let_def split: prod.splits option.splits)
  then obtain s1 where "UploadStore demo_env req demo_session demo_world = (Inr (), s1)" ..
  then show ?thesis using req c by (auto simp: UploadHandler_def Upload_def bindE_def)
qed

lemma demo_conforms: "redis_conforms (g_exec demo_env) (\<lambda>ks. ks)" "s3_conforms (g_send demo_env) (\<lambda>m. m)"
  using mem_conforms mem_s3_conforms by (simp_all add: demo_env_simps id_def)

theorem upload_accepted_witness:
  "\<exists>s1 m. UploadHandler demo_env demo_request demo_world = (HttpOK 204 NoContent, s1)
     \<and> segment_entry (sgRedis s1) ''u'' 7 = Some m \<and> sgS3 s1 (''vox-recordings'', sm_S3Key m) = Some (''abc'', None)"
proof -
  obtain s1 where u: "UploadHandler demo_env demo_request demo_world = (HttpOK 204 NoContent, s1)" using demo_stored by blast
  have n: "segment_entry (sgRedis demo_world) ''u'' 7 = None" by (simp add: stored_def demo_empty_hash)
  have d: "h_path demo_request ''streamId'' = ''u''" "Atoi (h_path demo_request ''seq'') = Some 7" "h_body demo_request = Some ''abc''"
    "RecordingBucket (g_cfg demo_env) = ''vox-recordings''"
    by (simp add: demo_request_def, simp add: demo_request_def, code_simp, simp add: demo_request_def, simp add: demo_env_def DefaultConfig_def)
  from upload_accepted [OF demo_conforms u] n show ?thesis unfolding d using u by auto
qed


theorem complete_queues_before_disarming_witness:
  "\<exists>s1 ev o1 o2. CompleteHandler demo_env demo_request demo_world = (HttpOK 204 NoContent, s1)
     \<and> g_publishRequested demo_env ev o1 = (True, o2) \<and> rq_StreamID ev = ''u'' \<and> rq_Source ev = ''DESKTOP_SEGMENT_UPLOAD''"
proof -
  let ?req = "blankRequest ''u'' ''k'' (readStopReason demo_request)"
  have h: "holds (sgRedis demo_world) demo_session"
    using doc_of_enc [of demo_session] by (simp add: holds_def demo_world_def, simp add: demo_session_def)
  have i: "us_StreamID demo_session = ''u''" by (simp add: demo_session_def)
  obtain f w1 where m: "MarkUploadComplete mem_exec ''u'' (readStopReason demo_request) (sgRedis demo_world) = (Inr f, w1)"
    using mem_complete_total [OF h, of "readStopReason demo_request"] unfolding i by blast
  have x: "g_exec demo_env = mem_exec" by (simp add: demo_env_def)
  have "\<exists>v s2. MarkStreamComplete demo_env ?req demo_world = (Inr v, s2)"
    by (simp add: MarkStreamComplete_def blankRequest_def bindE_def demo_owned seg_redis_def x m MarkComplete_def seg_ok_def)
       (simp add: mem_exec_def seg_ok_def)
  then obtain v s2 where ms: "MarkStreamComplete demo_env ?req demo_world = (Inr v, s2)" by blast
  have cr: "credentials demo_env demo_request demo_world = (Inr (''k'', ''u''), demo_world)"
    by (simp add: credentials_def bindE_def require_def guard_def bearerToken_def demo_request_def TrimSpace_def is_space_def demo_env_def slash_free_def Let_def)
  have "\<exists>s1. CompleteHandler demo_env demo_request demo_world = (HttpOK 204 NoContent, s1)"
    by (simp add: CompleteHandler_def answer_def bindE_def cr orReply_def ms hnd_defs seg_os_def demo_env_simps split: prod.splits)
  then obtain s1 where s1: "CompleteHandler demo_env demo_request demo_world = (HttpOK 204 NoContent, s1)" by blast
  have d: "h_path demo_request ''streamId'' = ''u''" by (simp add: demo_request_def)
  from complete_queues_before_disarming [OF demo_conforms(1) s1] s1 show ?thesis unfolding d by auto
qed


definition demo_create :: httpRequest where
  "demo_create = demo_request\<lparr>h_authorization := ''Bearer good'', h_body := Some ''{}'',
     h_docs := ([JObj [(''streamType'', JStr ''camera'')]], True)\<rparr>"

definition empty_world :: "(keyspace, string objects, unit) segState" where
  "empty_world = \<lparr>sgRedis = Map.empty, sgS3 = Map.empty, sgOs = ()\<rparr>"

lemma demo_register:
  assumes "0 < us_ExpiresAt x"
  shows "\<exists>w1. RegisterOrGetUpload mem_exec 0 x Map.empty = (Inr (x, True), w1)"
proof -
  have "dec_upload (enc_upload x) = Some x" using doc_of_enc by (simp add: doc_of_def)
  then show ?thesis using assms
    by (simp add: RegisterOrGetUpload_def Let_def registerUploadScript_def register_fresh_def mem_exec_def
        time_sub_def min_dur_def max_dur_def)
qed

theorem session_credential_witness:
  "\<exists>s1 b u. CreateSession demo_env demo_create empty_world = (HttpOK 201 (SessionBody b), s1)
     \<and> holds (sgRedis s1) u \<and> validateUploadOwnership demo_env u (cr_StreamID b) (cr_UploadToken b)"
proof -
  obtain c where c: "ValidateStream demo_jwt ''key'' 0 ''good'' = Inr c" "rc_ExpiresAt c = Some (2000 * second)"
    "st_ScheduleEndAt c = 3000" "st_StreamTypes c = [''camera'']" using demo_validates by blast
  have "TrimSpace ''good'' = ''good''" by code_simp
  then have v: "validateStreamToken demo_env demo_create empty_world = (Inr c, empty_world)"
    by (simp add: validateStreamToken_def demo_create_def demo_request_def bindE_def seg_clock_def seg_os_def demo_env_simps
        c empty_world_def)
  have ty: "decodeOne maxCreateBodySize dec_create_request demo_create = Some ''camera''" "TrimSpace ''camera'' \<noteq> []"
    by (simp add: decodeOne_def demo_create_def maxCreateBodySize_def dec_create_request_def strict_fields_def dec_str_def jget_def,
        code_simp)
  let ?x = "\<lparr>us_StreamID = ''u'', us_CandidateID = st_CandidateID c, us_SessionID = st_SessionID c,
             us_ScheduleID = st_ScheduleID c, us_StreamType = ''camera'', us_CreatedAt = 0,
             us_ExpiresAt = uploadWindowEnd c (2000 * second) + uploadCredentialGrade, us_Completed = False,
             us_UploadTokenHash = hex_encode (g_sha256 demo_env ''k''), us_StopReason = []\<rparr>"
  have "0 < us_ExpiresAt ?x" using windowEnd_ge [of "2000 * second" c]
    by (simp add: uploadCredentialGrade_def second_def minute_def)
  then obtain w1 where r: "RegisterOrGetUpload mem_exec 0 ?x Map.empty = (Inr (?x, True), w1)" using demo_register by blast
  have "\<exists>b s1. createUpload demo_env demo_create c empty_world = (Inr (HttpOK 201 (SessionBody b)), s1)"
    using r
    by (simp add: createUpload_def announceUpload_def bindE_def require_def ty guard_def CanStream_def c seg_draw_def seg_os_def
        demo_env_simps newUploadToken_def Let_def seg_clock_def orReply_def seg_redis_def empty_world_def seg_logged_def seg_send_def)
  then obtain b s1 where s1: "CreateSession demo_env demo_create empty_world = (HttpOK 201 (SessionBody b), s1)"
    using v by (auto simp: CreateSession_def answer_def bindE_def)
  have k: "redis_conforms (g_exec demo_env) (\<lambda>ks. ks)" "jwt_doc (g_jwt demo_env) demo_signed"
    using mem_conforms demo_jwt_doc by (simp_all add: demo_env_simps id_def)
  have "index_wf (sgRedis empty_world)" by (simp add: index_wf_def empty_world_def)
  from session_credential [OF k this s1] s1 show ?thesis by auto
qed

section \<open>Two uploads at once\<close>

text \<open>
  The check of the registry and the write to it are not one step: two clients that send different bodies under one
  sequence number and both pass the check are both accepted, and the second one's entry and object remain.
\<close>

lemma conflicting_uploads_accepted:
  assumes "redis_conforms (g_exec env) view" and "s3_conforms (g_send env) objs"
    and "UploadCheck env r1 s = (Inr (Some u), s1)" and "UploadCheck env r2 s1 = (Inr (Some v), s2)"
    and "UploadStore env r1 u s2 = (Inr (), s3)" and "UploadStore env r2 v s3 = (Inr (), s4)"
    and "sr_StreamID r1 = sr_StreamID r2" and "sr_Seq r1 = sr_Seq r2"
  shows "u = v \<and> (\<exists>m. segment_entry (view (sgRedis s4)) (sr_StreamID r1) (sr_Seq r1) = Some m
    \<and> sm_SHA256 m = sr_SHA256 r2 \<and> objs (sgS3 s4) (RecordingBucket (g_cfg env), sm_S3Key m) = Some (sr_Data r2, None))"
proof -
  from upload_check_spec [OF assms(1,3)] upload_check_spec [OF assms(1,4)] assms(7)
  have "session_at (view (sgRedis s)) (sr_StreamID r2) u" "session_at (view (sgRedis s)) (sr_StreamID r2) v" by auto
  then have "u = v" by (auto simp: session_at_def)
  with upload_store_spec [OF assms(1,2,6)] assms(7,8) show ?thesis by auto
qed

end
