(* ===== verification/Streams.thy ===== *)
theory Streams
  imports FrameExtractor Live Segments
begin

text \<open>
  \<open>internal/usecase/stream_usecase.go\<close>, \<open>internal/usecase/frameconvert_usecase.go\<close> and
  \<open>internal/handler/recording/handler.go\<close>.  The publisher of events is the interface the code calls; the wait for a
  conversion slot, the ffmpeg run and the presigner are parameters.  Log lines are left out.
\<close>

section \<open>The stream use case\<close>

record 'w streamEnv =
  st_exec :: "'w redis"
  st_instanceID :: string
  st_now :: "'w \<Rightarrow> instant \<times> 'w"
  st_uuid :: "'w \<Rightarrow> string \<times> 'w"
  st_publishStarted :: "StreamStartedEvent \<Rightarrow> 'w \<Rightarrow> bool \<times> 'w"
  st_publishFrame :: "FrameReadyEvent \<Rightarrow> 'w \<Rightarrow> bool \<times> 'w"
  st_publishEnded :: "StreamEndedEvent \<Rightarrow> 'w \<Rightarrow> bool \<times> 'w"

datatype streamError = PublishStartedFailed | RefreshFailed sessError | PublishFrameFailed | PublishEndedFailed

definition published :: "streamError \<Rightarrow> bool \<times> 'w \<Rightarrow> (streamError + unit) \<times> 'w" where
  "published e r = (case r of (ok, w) \<Rightarrow> (if ok then Inr () else Inl e, w))"

definition NotifyStreamStarted :: "'w streamEnv \<Rightarrow> string \<Rightarrow> string \<Rightarrow> string \<Rightarrow> string \<Rightarrow> string \<Rightarrow> (streamError, unit, 'w) fallible" where
  "NotifyStreamStarted env scheduleID sessionID participantID streamID streamType w =
     (case st_now env w of (startedAt, w1) \<Rightarrow>
      case Register (st_exec env) (st_instanceID env) scheduleID sessionID participantID streamType streamID startedAt w1 of (_, w2) \<Rightarrow>
      case st_uuid env w2 of (eid, w3) \<Rightarrow>
        published PublishStartedFailed (st_publishStarted env
          \<lparr>ss_EventID = eid, ss_ScheduleID = scheduleID, ss_SessionID = sessionID, ss_ParticipantID = participantID,
           ss_StreamID = streamID, ss_StreamType = streamType, ss_StartedAt = startedAt\<rparr> w3))"

definition RefreshStream :: "'w streamEnv \<Rightarrow> string \<Rightarrow> string \<Rightarrow> string \<Rightarrow> string \<Rightarrow> (streamError, unit, 'w) fallible" where
  "RefreshStream env scheduleID sessionID participantID streamType w =
     (case Refresh (st_exec env) scheduleID sessionID participantID streamType w of (r, w1) \<Rightarrow> (mapErr RefreshFailed r, w1))"

definition PublishFrame :: "'w streamEnv \<Rightarrow> string \<Rightarrow> string \<Rightarrow> string \<Rightarrow> string \<Rightarrow> string \<Rightarrow> string \<Rightarrow> int \<Rightarrow> (streamError, unit, 'w) fallible" where
  "PublishFrame env scheduleID sessionID participantID streamID streamType frameURL seq w =
     (case st_uuid env w of (eid, w1) \<Rightarrow> case st_now env w1 of (t, w2) \<Rightarrow>
        published PublishFrameFailed (st_publishFrame env
          \<lparr>fr_EventID = eid, fr_ScheduleID = scheduleID, fr_SessionID = sessionID, fr_ParticipantID = participantID,
           fr_StreamID = streamID, fr_StreamType = streamType, fr_FrameURL = frameURL, fr_CapturedAt = t, fr_SequenceNo = seq\<rparr> w2))"

definition NotifyStreamEnded :: "'w streamEnv \<Rightarrow> string \<Rightarrow> string \<Rightarrow> string \<Rightarrow> string \<Rightarrow> string \<Rightarrow> string list \<Rightarrow> int \<Rightarrow> (streamError, unit, 'w) fallible" where
  "NotifyStreamEnded env scheduleID sessionID participantID streamID streamType segmentKeys durationSecs w =
     (case Unregister (st_exec env) scheduleID sessionID participantID streamType w of (_, w1) \<Rightarrow>
      case st_uuid env w1 of (eid, w2) \<Rightarrow> case st_now env w2 of (t, w3) \<Rightarrow>
        published PublishEndedFailed (st_publishEnded env
          \<lparr>se_EventID = eid, se_ScheduleID = scheduleID, se_SessionID = sessionID, se_ParticipantID = participantID,
           se_StreamID = streamID, se_StreamType = streamType, se_SegmentKeys = segmentKeys, se_Duration = durationSecs, se_EndedAt = t\<rparr> w3))"

section \<open>Frame conversion\<close>

text \<open>
  \<open>cv_wait\<close> is the \<open>select\<close> on a free slot and on the end of the context: \<^const>\<open>False\<close> when the context ended first.
  The slots taken are counted in the state; the deferred receive gives one back.
\<close>

record 'w convEnv =
  cv_live :: "'w liveEnv"
  cv_send :: "(bytes, 'w) s3"
  cv_readAll :: "'w \<Rightarrow> bool \<times> 'w"
  cv_cfg :: storageConfig
  cv_presign :: "string \<Rightarrow> string \<Rightarrow> duration \<Rightarrow> string option"
  cv_ffmpeg :: "bytes \<Rightarrow> string + bytes"
  cv_wait :: "'w \<Rightarrow> bool \<times> 'w"

definition semCapacity :: "int \<Rightarrow> int" where
  "semCapacity maxConcurrent = (if maxConcurrent \<le> 0 then 8 else maxConcurrent)"

datatype convError = ContextDone | DownloadFrameFailed storageError | JpegDecode jpegError | UploadJpeg storageError

type_synonym 'w conv = "(convError, unit, int \<times> 'w) fallible"

definition convert_frame :: "'w convEnv \<Rightarrow> FrameReadyEvent \<Rightarrow> (convError, unit, 'w) fallible" where
  "convert_frame env ev w =
     (case DownloadFrame (cv_send env) (cv_readAll env) (cv_cfg env) (fr_ScheduleID ev) (fr_StreamID ev) (fr_SequenceNo ev) w of
        (Inl e, w1) \<Rightarrow> (Inl (DownloadFrameFailed e), w1)
      | (Inr h264, w1) \<Rightarrow>
        (case h264ToJPEG (cv_ffmpeg env) h264 of
           Inl e \<Rightarrow> (Inl (JpegDecode e), w1)
         | Inr jpeg \<Rightarrow>
           (case UploadFrameJPEG (cv_send env) (cv_cfg env) (fr_ScheduleID ev) (fr_StreamID ev) (fr_SequenceNo ev) jpeg w1 of
              (Inl e, w2) \<Rightarrow> (Inl (UploadJpeg e), w2)
            | (Inr key, w2) \<Rightarrow>
              (let url = (case PresignFrame (cv_presign env) (cv_cfg env) key (PresignExpiry (cv_cfg env)) of Inl _ \<Rightarrow> key | Inr u \<Rightarrow> u)
               in (Inr (), PublishFrameURL (cv_live env) (fr_ScheduleID ev) (fr_StreamID ev) (fr_StreamType ev) url (fr_SequenceNo ev) w2)))))"

definition Convert :: "'w convEnv \<Rightarrow> FrameReadyEvent \<Rightarrow> 'w conv" where
  "Convert env ev s =
     (case s of (taken, w) \<Rightarrow>
      case HasMonitor (cv_live env) (fr_ScheduleID ev) w of (watching, w1) \<Rightarrow>
        if watching = Inr False then (Inr (), taken, w1)
        else (case cv_wait env w1 of
            (False, w2) \<Rightarrow> (Inl ContextDone, taken, w2)
          | (True, w2) \<Rightarrow>
              (let taken1 = taken + 1; (r, w3) = convert_frame env ev w2 in (r, taken1 - 1, w3))))"

section \<open>Playback URLs\<close>

definition maxPlaybackBodySize :: nat where "maxPlaybackBodySize = 4096"

datatype playbackReply = PlayError int string | PlayOK string instant

definition CutPrefix :: "string \<Rightarrow> string \<Rightarrow> string option" where
  "CutPrefix s p = (if prefix p s then Some (drop (length p) s) else None)"

definition authorized :: "string \<Rightarrow> httpRequest \<Rightarrow> bool" where
  "authorized serviceToken r =
     (if serviceToken = [] then False
      else (case CutPrefix (h_authorization r) ''Bearer '' of None \<Rightarrow> False
         | Some raw \<Rightarrow> length (TrimSpace raw) = length serviceToken \<and> TrimSpace raw = serviceToken))"

definition dec_playback :: "json \<Rightarrow> string option" where
  "dec_playback j = (if strict_fields [''objectKey''] j then dec_str ''objectKey'' j else None)"

definition playable_key :: "string \<Rightarrow> bool" where
  "playable_key k \<longleftrightarrow> prefix ''schedules/'' k \<and> suffix ''/recording.mp4'' k \<and> \<not> Contains k ''..''"

definition CreatePlaybackURL :: "string \<Rightarrow> (string \<Rightarrow> string \<Rightarrow> duration \<Rightarrow> string option) \<Rightarrow> storageConfig \<Rightarrow> ('w \<Rightarrow> instant \<times> 'w)
    \<Rightarrow> httpRequest \<Rightarrow> 'w \<Rightarrow> playbackReply \<times> 'w" where
  "CreatePlaybackURL serviceToken presign cfg clock r w =
     (if \<not> authorized serviceToken r then (PlayError 401 ''unauthorized'', w)
      else (case decodeOne maxPlaybackBodySize dec_playback r of
          None \<Rightarrow> (PlayError 400 ''invalid request'', w)
        | Some objectKey \<Rightarrow>
            (let bodyKey = TrimSpace objectKey in
             if \<not> playable_key bodyKey then (PlayError 400 ''invalid recording key'', w)
             else (let expiry = PresignExpiry cfg in
               (case PresignRecording presign cfg bodyKey expiry of
                  Inl _ \<Rightarrow> (PlayError 500 ''cannot create playback URL'', w)
                | Inr url \<Rightarrow> (case clock w of (t, w1) \<Rightarrow> (PlayOK url (t + expiry), w1)))))))"


section \<open>A stream is visible while it is live\<close>

lemma Register_ok:
  assumes "redis_conforms exec view" and "Register exec inst sch sid par ty str t w = (Inr (), w')"
  defines "s \<equiv> \<lparr>si_InstanceID = inst, si_ScheduleID = sch, si_SessionID = sid, si_StreamID = str, si_ParticipantID = par,
    si_StreamType = ty, si_StartedAt = t\<rparr>"
  shows "registered (view w') s" and "key_of s = sessionKey sch sid par ty"
proof -
  show k: "key_of s = sessionKey sch sid par ty" by (simp add: key_of_def s_def)
  obtain r where e: "exec (SET (key_of s) (Doc (enc_session_info s)) (TTL sessionTTL)) w = (r, w')" "r \<noteq> Err"
    using assms(2) by (auto simp: Register_def Let_def k s_def [symmetric] split: prod.splits reply.splits)
  have "view w' = (view w)(key_of s \<mapsto> (RString (Doc (enc_session_info s)), Some sessionTTL))"
    using conformsD [OF assms(1) e] by (simp add: life_def)
  then show "registered (view w') s" using registered_doc [of "view w" s] by (simp add: registered_def)
qed

text \<open>What the outside world may do to the session keys while the stream use case asks it for ids, times and deliveries: nothing.\<close>

definition harmless_stream :: "'w streamEnv \<Rightarrow> ('w \<Rightarrow> keyspace) \<Rightarrow> bool" where
  "harmless_stream env view \<longleftrightarrow> (\<forall>w. view (snd (st_now env w)) = view w \<and> view (snd (st_uuid env w)) = view w)
     \<and> (\<forall>e w. view (snd (st_publishStarted env e w)) = view w) \<and> (\<forall>e w. view (snd (st_publishEnded env e w)) = view w)"

lemma started_view:
  assumes "harmless_stream env view"
  shows "view (snd (NotifyStreamStarted env sch sid par str ty w)) =
    view (snd (Register (st_exec env) (st_instanceID env) sch sid par ty str (fst (st_now env w)) (snd (st_now env w))))"
proof -
  obtain t w1 where n: "st_now env w = (t, w1)" by fastforce
  obtain r w2 where r: "Register (st_exec env) (st_instanceID env) sch sid par ty str t w1 = (r, w2)" by fastforce
  obtain e w3 where u: "st_uuid env w2 = (e, w3)" by fastforce
  have "view w3 = view w2" using assms u unfolding harmless_stream_def by (metis snd_conv)
  moreover have "view (snd (st_publishStarted env ev w3)) = view w3" for ev using assms unfolding harmless_stream_def by blast
  ultimately show ?thesis by (simp add: NotifyStreamStarted_def published_def n r u split: prod.split) (metis snd_conv)
qed

lemma ended_view:
  assumes "harmless_stream env view"
  shows "view (snd (NotifyStreamEnded env sch sid par str ty ks d w)) = view (snd (Unregister (st_exec env) sch sid par ty w))"
proof -
  obtain r w2 where r: "Unregister (st_exec env) sch sid par ty w = (r, w2)" by fastforce
  obtain e w3 where u: "st_uuid env w2 = (e, w3)" by fastforce
  obtain t w4 where n: "st_now env w3 = (t, w4)" by fastforce
  have "view w3 = view w2" "view w4 = view w3" using assms u n unfolding harmless_stream_def by (metis snd_conv)+
  moreover have "view (snd (st_publishEnded env ev w4)) = view w4" for ev using assms unfolding harmless_stream_def by blast
  ultimately show ?thesis by (simp add: NotifyStreamEnded_def published_def n r u split: prod.split) (metis snd_conv)
qed

lemma Unregister_ok:
  assumes "redis_conforms exec view" and "Unregister exec sch sid par ty w = (Inr (), w')"
  shows "view w' (sessionKey sch sid par ty) = None"
proof -
  obtain r where e: "exec (DEL (sessionKey sch sid par ty)) w = (r, w')" "r \<noteq> Err"
    using assms(2) by (auto simp: Unregister_def split: prod.splits reply.splits)
  show ?thesis using conformsD [OF assms(1) e] by simp
qed

lemma absent_not_shown:
  assumes "scan_doc (l_scan lenv) view" and "mget_doc (l_mget lenv) view" and "live_wf (view w)" and "literal sch"
    and "view w (sessionKey sch sid par ty) = None" and "GetScheduleSnapshot lenv sch w = (Inr infos, w')"
  shows "\<forall>i \<in> set infos. \<not> (in_SessionID i = sid \<and> in_ParticipantID i = par \<and> in_StreamType i = ty)"
proof (intro ballI notI)
  fix i assume i: "i \<in> set infos" "in_SessionID i = sid \<and> in_ParticipantID i = par \<and> in_StreamType i = ty"
  obtain ss where ss: "ScanSchedule lenv sch w = (Inr ss, w')" "infos = map stream_info ss"
    using assms(6) by (auto simp: GetScheduleSnapshot_def bindE_Inr_iff)
  have set: "set ss = {s. registered (view w) s \<and> si_ScheduleID s = sch}"
    by (rule scan_schedule(1) [OF assms(1-4) ss(1)])
  from i obtain s where s: "s \<in> set ss" "i = stream_info s" using ss(2) by auto
  then have "key_of s = sessionKey sch sid par ty" "view w (key_of s) \<noteq> None"
    using i(2) set by (auto simp: stream_info_def key_of_def registered_def)
  then show False using assms(5) by simp
qed

text \<open>A heartbeat extends a registration; it does not bring a missing one back.\<close>

lemma Refresh_absent:
  assumes "redis_conforms (st_exec env) view" and "view w (sessionKey sch sid par ty) = None"
  shows "view (snd (RefreshStream env sch sid par ty w)) = view w"
proof -
  obtain r w1 where e: "st_exec env (EXPIRE (sessionKey sch sid par ty) sessionTTL) w = (r, w1)" by fastforce
  have "view w1 = view w"
    using assms(1) e assms(2) unfolding redis_conforms_def by (cases "r = Err") force+
  then show ?thesis by (simp add: RefreshStream_def Refresh_def e split: reply.split)
qed

lemma heartbeats_absent:
  assumes "redis_conforms (st_exec env) view" and "view w (sessionKey sch sid par ty) = None"
  shows "view (((\<lambda>v. snd (RefreshStream env sch sid par ty v)) ^^ n) w) = view w"
proof (induction n)
  case (Suc n)
  then show ?case using Refresh_absent [OF assms(1), of "((\<lambda>v. snd (RefreshStream env sch sid par ty v)) ^^ n) w"] assms(2) by simp
qed simp

lemma visible_while_live:
  assumes "redis_conforms (st_exec env) view" and "harmless_stream env view" and "live_wf (view w)"
    and "scan_doc (l_scan lenv) view" and "mget_doc (l_mget lenv) view"
    and "literal sch" and "no_colon sid" and "no_colon par" and "no_colon ty"
  shows "NotifyStreamStarted env sch sid par str ty w = (r, w1) \<Longrightarrow>
      fst (Register (st_exec env) (st_instanceID env) sch sid par ty str (fst (st_now env w)) (snd (st_now env w))) = Inr () \<Longrightarrow>
      GetScheduleSnapshot lenv sch w1 = (Inr infos, w2) \<Longrightarrow>
      \<lparr>in_SessionID = sid, in_ParticipantID = par, in_StreamID = str, in_StreamType = ty, in_StartedAt = fst (st_now env w)\<rparr> \<in> set infos"
    and "NotifyStreamEnded env sch sid par str ty ks d w = (r, w1) \<Longrightarrow>
      fst (Unregister (st_exec env) sch sid par ty w) = Inr () \<Longrightarrow>
      GetScheduleSnapshot lenv sch w1 = (Inr infos, w2) \<Longrightarrow>
      \<forall>i \<in> set infos. \<not> (in_SessionID i = sid \<and> in_ParticipantID i = par \<and> in_StreamType i = ty)"
proof -
  have c: "no_colon sch" using assms(6) literalD by blast
  assume n: "NotifyStreamStarted env sch sid par str ty w = (r, w1)"
    and ok: "fst (Register (st_exec env) (st_instanceID env) sch sid par ty str (fst (st_now env w)) (snd (st_now env w))) = Inr ()"
    and g: "GetScheduleSnapshot lenv sch w1 = (Inr infos, w2)"
  let ?w0 = "snd (st_now env w)" and ?t = "fst (st_now env w)"
  obtain wr where reg: "Register (st_exec env) (st_instanceID env) sch sid par ty str ?t ?w0 = (Inr (), wr)"
    using ok by (metis prod.collapse)
  have v: "view w1 = view wr" using started_view [OF assms(2), of sch sid par str ty w] n reg by simp
  have "live_wf (view ?w0)" using assms(2,3) by (simp add: harmless_stream_def)
  then have wf: "live_wf (view w1)"
    unfolding v by (rule Register_wf [OF assms(1) _ c assms(7-9) reg])
  obtain ss where ss: "ScanSchedule lenv sch w1 = (Inr ss, w2)" "infos = map stream_info ss"
    using g by (auto simp: GetScheduleSnapshot_def bindE_Inr_iff)
  have "set ss = {s. registered (view w1) s \<and> si_ScheduleID s = sch}"
    by (rule scan_schedule(1) [OF assms(4,5) wf assms(6) ss(1)])
  then have "\<lparr>si_InstanceID = st_instanceID env, si_ScheduleID = sch, si_SessionID = sid, si_StreamID = str, si_ParticipantID = par,
    si_StreamType = ty, si_StartedAt = ?t\<rparr> \<in> set ss" (is "?s \<in> _")
    using Register_ok(1) [OF assms(1) reg] v by simp
  then show "\<lparr>in_SessionID = sid, in_ParticipantID = par, in_StreamID = str, in_StreamType = ty, in_StartedAt = ?t\<rparr> \<in> set infos"
    using ss(2) by (auto simp: stream_info_def intro!: image_eqI [where x = ?s])
next
  have c: "no_colon sch" using assms(6) literalD by blast
  assume n: "NotifyStreamEnded env sch sid par str ty ks d w = (r, w1)" and ok: "fst (Unregister (st_exec env) sch sid par ty w) = Inr ()"
    and g: "GetScheduleSnapshot lenv sch w1 = (Inr infos, w2)"
  obtain wr where un: "Unregister (st_exec env) sch sid par ty w = (Inr (), wr)" using ok by (metis prod.collapse)
  have v: "view w1 = view wr" using ended_view [OF assms(2), of sch sid par str ty ks d w] n un by simp
  have wf: "live_wf (view w1)"
    unfolding v by (rule Unregister_wf [OF assms(1,3) c assms(7-9) un])
  show "\<forall>i \<in> set infos. \<not> (in_SessionID i = sid \<and> in_ParticipantID i = par \<and> in_StreamType i = ty)"
    using absent_not_shown [OF assms(4,5) wf assms(6) _ g] Unregister_ok [OF assms(1) un] v by simp
qed


text \<open>A reference server whose state is an association list.\<close>

definition al_exec :: "(string \<times> rval \<times> duration option) list redis" where
  "al_exec c w = (case c of
     SET k v t \<Rightarrow> (Ok, AList.update k (RString v, life t k (map_of w)) w)
   | DEL k \<Rightarrow> (IntR (if map_of w k = None then 0 else 1), AList.delete k w)
   | _ \<Rightarrow> (Err, w))"

lemma al_conforms: "redis_conforms al_exec map_of"
  by (auto simp: redis_conforms_def al_exec_def update_conv' delete_conv' split: cmd.splits)

definition al_stream :: "(string \<times> rval \<times> duration option) list streamEnv" where
  "al_stream = \<lparr>st_exec = al_exec, st_instanceID = ''i1'', st_now = (\<lambda>w. (7, w)), st_uuid = (\<lambda>w. (''u1'', w)),
     st_publishStarted = (\<lambda>_ w. (False, w)), st_publishFrame = (\<lambda>_ w. (True, w)), st_publishEnded = (\<lambda>_ w. (True, w))\<rparr>"

definition al_live :: "(string \<times> rval \<times> duration option) list liveEnv" where
  "al_live = \<lparr>l_scan = (\<lambda>p w. (Some (filter (glob p) (map fst w)), w)), l_mget = (\<lambda>keys w. (Some (map (string_at (map_of w)) keys), w)),
     l_publish = (\<lambda>_ _ w. (True, w)), l_numsub = (\<lambda>c w. (Some [(c, 1)], w)), l_now = (\<lambda>w. (7, w)), l_uuid = (\<lambda>w. (''u1'', w)),
     l_alertPublisher = None\<rparr>"

lemma al_stream_sel [simp]:
  "st_exec al_stream = al_exec" "st_instanceID al_stream = ''i1''" "st_now al_stream w = (7, w)" "st_uuid al_stream w = (''u1'', w)"
  "st_publishStarted al_stream e w = (False, w)" "st_publishEnded al_stream e' w = (True, w)"
  by (simp_all add: al_stream_def)

lemma al_harmless: "harmless_stream al_stream map_of"
  by (simp add: harmless_stream_def)

lemma al_scan: "scan_doc (l_scan al_live) map_of" "mget_doc (l_mget al_live) map_of"
proof -
  have k: "map_of w k \<noteq> None \<longleftrightarrow> k \<in> fst ` set w" for w :: "(string \<times> rval \<times> duration option) list" and k by (simp add: map_of_eq_None_iff)
  have "set (filter (glob p) (map fst w)) = {k. map_of w k \<noteq> None \<and> glob p k}" for p and w :: "(string \<times> rval \<times> duration option) list"
    unfolding k set_filter set_map by auto
  then show "scan_doc (l_scan al_live) map_of" by (simp add: scan_doc_def al_live_def)
  show "mget_doc (l_mget al_live) map_of" by (auto simp: mget_doc_def al_live_def)
qed

definition al_started :: "(string \<times> rval \<times> duration option) list" where
  "al_started = snd (NotifyStreamStarted al_stream ''e1'' ''ss'' ''p1'' ''s1'' ''camera'' [])"

lemma al_snapshot:
  "GetScheduleSnapshot al_live ''e1'' al_started =
     (Inr [\<lparr>in_SessionID = ''ss'', in_ParticipantID = ''p1'', in_StreamID = ''s1'', in_StreamType = ''camera'', in_StartedAt = 7\<rparr>], al_started)"
proof -
  have w: "al_started = [(''streaming-session:e1:ss:p1:camera'', RString (Doc (enc_session_info
      \<lparr>si_InstanceID = ''i1'', si_ScheduleID = ''e1'', si_SessionID = ''ss'', si_StreamID = ''s1'', si_ParticipantID = ''p1'',
       si_StreamType = ''camera'', si_StartedAt = 7\<rparr>)), Some sessionTTL)]"
    by (simp add: al_started_def NotifyStreamStarted_def published_def Register_def sessionKey_def al_exec_def life_def)
  have g: "glob ''streaming-session:e1:*'' ''streaming-session:e1:ss:p1:camera''" by simp
  show ?thesis
    by (simp add: w al_live_def GetScheduleSnapshot_def bindE_def ScanSchedule_def scanByPattern_def string_at_def as_json_def
        stream_info_def map_filter_simps del: glob.simps) (simp add: g)
qed



section \<open>A replaced stream takes its successor with it\<close>

text \<open>C11.  A reconnecting candidate starts a new stream while the one it replaces is still shutting down.  Both are registered under the
  same key, so when the old stream ends, after the new one has started, the new one is gone from every snapshot -- and the
  heartbeats of the new stream, however many, do not bring it back.\<close>

theorem old_end_hides_successor:
  assumes "redis_conforms (st_exec env) view" and "harmless_stream env view" and "live_wf (view w)"
    and "scan_doc (l_scan lenv) view" and "mget_doc (l_mget lenv) view"
    and "literal sch" and "no_colon sid" and "no_colon par" and "no_colon ty"
    and "NotifyStreamStarted env sch sid par new ty w = (r1, w1)"
    and "fst (Register (st_exec env) (st_instanceID env) sch sid par ty new (fst (st_now env w)) (snd (st_now env w))) = Inr ()"
    and "NotifyStreamEnded env sch sid par old ty ks d w1 = (r2, w2)" and "fst (Unregister (st_exec env) sch sid par ty w1) = Inr ()"
    and "GetScheduleSnapshot lenv sch (((\<lambda>v. snd (RefreshStream env sch sid par ty v)) ^^ n) w2) = (Inr infos, w3)"
  shows "\<forall>i \<in> set infos. \<not> (in_SessionID i = sid \<and> in_ParticipantID i = par \<and> in_StreamType i = ty)"
proof -
  have c: "no_colon sch" using assms(6) literalD by blast
  let ?w0 = "snd (st_now env w)" and ?t = "fst (st_now env w)"
  obtain wr where reg: "Register (st_exec env) (st_instanceID env) sch sid par ty new ?t ?w0 = (Inr (), wr)"
    using assms(11) by (metis prod.collapse)
  have "view w1 = view wr" using started_view [OF assms(2), of sch sid par new ty w] assms(10) reg by simp
  moreover have "live_wf (view ?w0)" using assms(2,3) by (simp add: harmless_stream_def)
  ultimately have wf1: "live_wf (view w1)" using Register_wf [OF assms(1) _ c assms(7-9) reg] by simp
  obtain wu where un: "Unregister (st_exec env) sch sid par ty w1 = (Inr (), wu)" using assms(13) by (metis prod.collapse)
  have v2: "view w2 = view wu" using ended_view [OF assms(2), of sch sid par old ty ks d w1] assms(12) un by simp
  have wf2: "live_wf (view w2)" unfolding v2 by (rule Unregister_wf [OF assms(1) wf1 c assms(7-9) un])
  have a2: "view w2 (sessionKey sch sid par ty) = None" using Unregister_ok [OF assms(1) un] v2 by simp
  note v = heartbeats_absent [OF assms(1) a2, of n]
  show ?thesis
    by (rule absent_not_shown [OF assms(4,5) _ assms(6) _ assms(14)]) (simp_all only: v wf2 a2)
qed

lemma old_end_hides_successor_witness:
  "list_all (\<lambda>i. \<not> (in_ParticipantID i = ''p1'' \<and> in_SessionID i = ''ss'' \<and> in_StreamType i = ''camera''))
     (case fst (GetScheduleSnapshot al_live ''e1'' (snd (NotifyStreamEnded al_stream ''e1'' ''ss'' ''p1'' ''s0'' ''camera'' [] 9 al_started))) of
       Inr infos \<Rightarrow> infos | Inl _ \<Rightarrow> [])"
proof -
  have c: "redis_conforms (st_exec al_stream) map_of" by (simp add: al_conforms)
  have wf: "live_wf (map_of ([] :: (string \<times> rval \<times> duration option) list))" by (simp add: live_wf_def)
  have ids: "literal ''e1''" "no_colon ''ss''" "no_colon ''p1''" "no_colon ''camera''" by (simp_all add: literal_def no_colon_def)
  obtain r where n: "NotifyStreamStarted al_stream ''e1'' ''ss'' ''p1'' ''s1'' ''camera'' [] = (r, al_started)"
    unfolding al_started_def by (metis prod.collapse)
  have reg: "fst (Register (st_exec al_stream) (st_instanceID al_stream) ''e1'' ''ss'' ''p1'' ''camera'' ''s1''
      (fst (st_now al_stream [])) (snd (st_now al_stream []))) = Inr ()"
    by (simp add: Register_def al_exec_def)
  obtain r2 w2 where e: "NotifyStreamEnded al_stream ''e1'' ''ss'' ''p1'' ''s0'' ''camera'' [] 9 al_started = (r2, w2)" by fastforce
  have un: "fst (Unregister (st_exec al_stream) ''e1'' ''ss'' ''p1'' ''camera'' al_started) = Inr ()"
    by (simp add: Unregister_def al_exec_def)
  obtain x w3 where g: "GetScheduleSnapshot al_live ''e1'' w2 = (x, w3)" by fastforce
  show ?thesis
  proof (cases x)
    case (Inr infos)
    have "\<forall>i \<in> set infos. \<not> (in_SessionID i = ''ss'' \<and> in_ParticipantID i = ''p1'' \<and> in_StreamType i = ''camera'')"
      by (rule old_end_hides_successor [OF c al_harmless wf al_scan ids n reg e un, of 0]) (simp add: g Inr)
    then show ?thesis by (auto simp: e g Inr list_all_iff)
  qed (simp add: e g)
qed

section \<open>Playback\<close>

lemma TrimSpace_bare:
  assumes "s \<noteq> []" and "\<not> is_space (hd s)" and "\<not> is_space (last s)"
  shows "TrimSpace s = s"
proof -
  have "dropWhile is_space s = s" using assms(1,2) by (cases s) auto
  moreover have "dropWhile is_space (rev s) = rev s" using assms(1,3) by (cases s rule: rev_cases) auto
  ultimately show ?thesis by (simp add: TrimSpace_def)
qed

lemma recording_key_playable:
  assumes "CHR ''.'' \<notin> set a" and "CHR ''.'' \<notin> set b" and "CHR ''.'' \<notin> set c"
  shows "playable_key (FinalRecordingKey a b c)" and "TrimSpace (FinalRecordingKey a b c) = FinalRecordingKey a b c"
proof -
  let ?k = "FinalRecordingKey a b c"
  have one: "count_list ?k CHR ''.'' = 1"
    using assms by (simp add: FinalRecordingKey_def streamPrefix_def count_list_0_iff)
  have "\<not> Contains ?k ''..''"
  proof
    assume "Contains ?k ''..''"
    then obtain x y where "?k = x @ ''..'' @ y" by (auto simp: sublist_def)
    then have "count_list ?k CHR ''.'' = count_list x CHR ''.'' + 2 + count_list y CHR ''.''" by (simp only: count_list_append) simp
    with one show False by simp
  qed
  moreover have "prefix ''schedules/'' ?k" by (simp add: FinalRecordingKey_def streamPrefix_def)
  moreover have "suffix ''/recording.mp4'' ?k"
    unfolding suffix_def by (rule exI [of _ "''schedules/'' @ a @ ''/sessions/'' @ b @ ''/streams/'' @ c"])
      (simp add: FinalRecordingKey_def streamPrefix_def)
  ultimately show "playable_key ?k" by (simp add: playable_key_def)
  show "TrimSpace ?k = ?k"
    by (rule TrimSpace_bare) (simp_all add: FinalRecordingKey_def streamPrefix_def is_space_def)
qed

text \<open>A playback URL is only ever handed to a caller that presents the configured service token -- never when none is
  configured -- and only for a recording of the recording bucket; and for such a caller every recording the assembler stores
  can be played, as long as the presigner works.\<close>

theorem playback_guarded:
  shows "CreatePlaybackURL tok presign cfg clock r w = (PlayOK url ex, w') \<Longrightarrow>
      tok \<noteq> [] \<and> (\<exists>raw. h_authorization r = ''Bearer '' @ raw \<and> TrimSpace raw = tok)
      \<and> (\<exists>key. playable_key key \<and> presign (RecordingBucket cfg) key (PresignExpiry cfg) = Some url)
      \<and> ex = fst (clock w) + PresignExpiry cfg"
    and "tok \<noteq> [] \<Longrightarrow> h_authorization r = ''Bearer '' @ tok \<Longrightarrow> TrimSpace tok = tok \<Longrightarrow>
      CHR ''.'' \<notin> set a \<Longrightarrow> CHR ''.'' \<notin> set b \<Longrightarrow> CHR ''.'' \<notin> set c \<Longrightarrow>
      decodeOne maxPlaybackBodySize dec_playback r = Some (FinalRecordingKey a b c) \<Longrightarrow>
      presign (RecordingBucket cfg) (FinalRecordingKey a b c) (PresignExpiry cfg) = Some url \<Longrightarrow>
      fst (CreatePlaybackURL tok presign cfg clock r w) = PlayOK url (fst (clock w) + PresignExpiry cfg)"
proof -
  assume h: "CreatePlaybackURL tok presign cfg clock r w = (PlayOK url ex, w')"
  then have a: "authorized tok r" by (auto simp: CreatePlaybackURL_def split: if_splits)
  then obtain k where k: "decodeOne maxPlaybackBodySize dec_playback r = Some k" "playable_key (TrimSpace k)"
    using h by (auto simp: CreatePlaybackURL_def Let_def split: option.splits if_splits)
  obtain u where p: "PresignRecording presign cfg (TrimSpace k) (PresignExpiry cfg) = Inr u"
    using h a k by (auto simp: CreatePlaybackURL_def Let_def split: sum.splits)
  then have "u = url \<and> ex = fst (clock w) + PresignExpiry cfg"
    using h a k by (auto simp: CreatePlaybackURL_def Let_def split: prod.splits)
  moreover have "tok \<noteq> [] \<and> (\<exists>raw. h_authorization r = ''Bearer '' @ raw \<and> TrimSpace raw = tok)"
    using a by (auto simp: authorized_def CutPrefix_def prefix_def split: if_splits option.splits)
  moreover have "presign (RecordingBucket cfg) (TrimSpace k) (PresignExpiry cfg) = Some u"
    using p by (auto simp: PresignRecording_def split: option.splits)
  ultimately show "tok \<noteq> [] \<and> (\<exists>raw. h_authorization r = ''Bearer '' @ raw \<and> TrimSpace raw = tok)
      \<and> (\<exists>key. playable_key key \<and> presign (RecordingBucket cfg) key (PresignExpiry cfg) = Some url)
      \<and> ex = fst (clock w) + PresignExpiry cfg"
    using k(2) by blast
next
  assume t: "tok \<noteq> []" "h_authorization r = ''Bearer '' @ tok" "TrimSpace tok = tok"
    and d: "CHR ''.'' \<notin> set a" "CHR ''.'' \<notin> set b" "CHR ''.'' \<notin> set c"
    and k: "decodeOne maxPlaybackBodySize dec_playback r = Some (FinalRecordingKey a b c)"
    and p: "presign (RecordingBucket cfg) (FinalRecordingKey a b c) (PresignExpiry cfg) = Some url"
  have "authorized tok r" using t by (simp add: authorized_def CutPrefix_def)
  then show "fst (CreatePlaybackURL tok presign cfg clock r w) = PlayOK url (fst (clock w) + PresignExpiry cfg)"
    using k p recording_key_playable [OF d] by (simp add: CreatePlaybackURL_def PresignRecording_def split: prod.split)
qed

definition demo_playback :: "string \<Rightarrow> httpRequest" where
  "demo_playback auth = \<lparr>h_authorization = auth, h_path = (\<lambda>_. []), h_query = (\<lambda>_. []), h_contentType = [], h_contentLength = 10,
     h_checksum = [], h_body = Some ''{}'', h_docs = ([JObj [(''objectKey'', JStr (FinalRecordingKey ''e1'' ''ss'' ''s1''))]], True)\<rparr>"

lemma playback_guarded_witness:
  "fst (CreatePlaybackURL ''tok'' (\<lambda>b k _. Some (b @ k)) (DefaultConfig ''s3'') (\<lambda>w. (0, w)) (demo_playback ''Bearer tok'') ()) =
     PlayOK (''vox-recordings'' @ FinalRecordingKey ''e1'' ''ss'' ''s1'') (15 * minute)"
proof -
  have d: "decodeOne maxPlaybackBodySize dec_playback (demo_playback ''Bearer tok'') = Some (FinalRecordingKey ''e1'' ''ss'' ''s1'')"
    by (simp add: decodeOne_def demo_playback_def maxPlaybackBodySize_def dec_playback_def strict_fields_def dec_str_def jget_def)
  have t: "TrimSpace ''tok'' = ''tok''" by (rule TrimSpace_bare) (simp_all add: is_space_def)
  have h: "h_authorization (demo_playback ''Bearer tok'') = ''Bearer '' @ ''tok''" by (simp add: demo_playback_def)
  have n: "''tok'' \<noteq> []" "CHR ''.'' \<notin> set ''e1''" "CHR ''.'' \<notin> set ''ss''" "CHR ''.'' \<notin> set ''s1''" by simp_all
  have p: "(\<lambda>b k _. Some (b @ k)) (RecordingBucket (DefaultConfig ''s3'')) (FinalRecordingKey ''e1'' ''ss'' ''s1'')
      (PresignExpiry (DefaultConfig ''s3'')) = Some (''vox-recordings'' @ FinalRecordingKey ''e1'' ''ss'' ''s1'')"
    by (simp add: DefaultConfig_def)
  have "PresignExpiry (DefaultConfig ''s3'') = 15 * minute" by (simp add: DefaultConfig_def PresignExpiry_def)
  then show ?thesis
    using playback_guarded(2) [OF n(1) h t n(2-4) d, where presign = "\<lambda>b k _. Some (b @ k)", OF p, of "\<lambda>w. (0, w)" "()"] by simp
qed

text \<open>Every return gives the slot back, and without a monitor nothing is fetched, stored or announced.\<close>

lemma Convert_slots:
  assumes "Convert env ev (taken, w) = (r, taken', w')"
  shows "taken' = taken" and "fst (HasMonitor (cv_live env) (fr_ScheduleID ev) w) = Inr False \<Longrightarrow> r = Inr ()"
    and "fst (HasMonitor (cv_live env) (fr_ScheduleID ev) w) = Inr False \<Longrightarrow> w' = snd (HasMonitor (cv_live env) (fr_ScheduleID ev) w)"
  using assms by (auto simp: Convert_def Let_def split: prod.splits if_splits bool.splits)

end
