(* ===== verification/Tracks.thy ===== *)
theory Tracks
  imports Bridge Streams
begin

text \<open>
  The timed and per-track parts of \<open>internal/transport/webrtc/peer.go\<close>: \<open>NewPeer\<close>, the heartbeat of the session registration, the periodic requests
  for key frames, the audio track's loop with \<open>forwardVideo\<close> and \<open>forwardAudio\<close>, and \<open>writeSignal\<close>.
\<close>

section \<open>Creating a peer\<close>

definition defaultFrameInterval :: duration where "defaultFrameInterval = 5 * second"
definition defaultPeerHLSSegmentSeconds :: int where "defaultPeerHLSSegmentSeconds = 4"

record peerSettings =
  np_frameInterval :: duration
  np_streamID :: string
  np_startedAt :: instant
  np_recording :: bool

datatype newPeerError = NewPeerConnection | StreamIDGeneration

text \<open>With the number of peer connections that stay open; \<open>uuid\<close> is what \<open>uuid.NewV7\<close> gives.\<close>

definition NewPeer :: "bool \<Rightarrow> string option \<Rightarrow> duration \<Rightarrow> bool \<Rightarrow> instant \<Rightarrow> (newPeerError + peerSettings) \<times> nat" where
  "NewPeer connectionOk uuid frameInterval hasAllocator now =
     (if \<not> connectionOk then (Inl NewPeerConnection, 0)
      else let fi = (if frameInterval = 0 then defaultFrameInterval else frameInterval) in
        case uuid of None \<Rightarrow> (Inl StreamIDGeneration, 1)
        | Some streamID \<Rightarrow> (Inr \<lparr>np_frameInterval = fi, np_streamID = streamID, np_startedAt = now, np_recording = hasAllocator\<rparr>, 1))"

text \<open>The connection is not closed when no stream id can be made.\<close>

lemma NewPeer_leaks: "NewPeer True None fi al now = (Inl StreamIDGeneration, 1)"
  by (simp add: NewPeer_def)

section \<open>Handing media to the bridge\<close>

text \<open>\<open>forwardVideo\<close> and \<open>forwardAudio\<close>: nothing while there is no session.\<close>

definition forward_track :: "bool \<Rightarrow> bool \<Rightarrow> bridgeState option \<Rightarrow> bridgeState option \<times> bridgeRoutine list" where
  "forward_track video hasSession st = (case st of None \<Rightarrow> (None, [])
     | Some s \<Rightarrow> if hasSession then (Some s, [ForwardRTP video]) else (Some s, []))"

text \<open>The reads of \<open>handleAudioTrack\<close> until the first error, each handed on when recording is configured: the packets.\<close>

fun handleAudioTrack :: "bool \<Rightarrow> string option list \<Rightarrow> string list" where
  "handleAudioTrack recording [] = []"
| "handleAudioTrack recording (None # rs) = []"
| "handleAudioTrack recording (Some raw # rs) = (if recording then [raw] else []) @ handleAudioTrack recording rs"

lemma audio_in_order: "handleAudioTrack True rs = map the (takeWhile (\<lambda>r. r \<noteq> None) rs)"
proof (induction rs)
  case (Cons r rs)
  then show ?case by (cases r) auto
qed simp

section \<open>Signals\<close>

text \<open>A peer between connections drops what it would have sent.\<close>

definition writeSignal :: "('m \<Rightarrow> 'w \<Rightarrow> bool \<times> 'w) option \<Rightarrow> 'm \<Rightarrow> 'w \<Rightarrow> bool \<times> 'w" where
  "writeSignal conn v w = (case conn of None \<Rightarrow> (True, w) | Some write \<Rightarrow> write v w)"

section \<open>Key frames for the live recording\<close>

text \<open>The instants of the requests from \<open>start\<close> until the peer is done.\<close>

function request_ticks :: "duration \<Rightarrow> instant \<Rightarrow> instant \<Rightarrow> instant list" where
  "request_ticks d t stop = (if 0 < d \<and> t < stop then t # request_ticks d (t + d) stop else [])"
  by pat_completeness auto

termination
  by (relation "measure (\<lambda>(d, t, stop). nat (stop - t))") auto

definition keyframe_interval :: "int \<Rightarrow> duration" where
  "keyframe_interval secs = (if secs \<le> 0 then defaultPeerHLSSegmentSeconds else secs) * second"

definition runPeriodicKeyframeRequests :: "int \<Rightarrow> instant \<Rightarrow> instant \<Rightarrow> instant list" where
  "runPeriodicKeyframeRequests secs start stop =
     (let first = start + 200 * millisecond; d = keyframe_interval secs in first # request_ticks d (first + d) stop)"

declare request_ticks.simps [simp del]

lemma keyframe_interval_pos: "0 < keyframe_interval secs"
  by (simp add: keyframe_interval_def defaultPeerHLSSegmentSeconds_def second_def)

lemma request_ticks_cover:
  assumes "0 < d" and "t \<le> x" and "x < stop"
  shows "\<exists>r \<in> set (request_ticks d t stop). r \<le> x \<and> x < r + d"
  using assms
proof (induction d t stop rule: request_ticks.induct)
  case (1 d t stop)
  have s: "request_ticks d t stop = t # request_ticks d (t + d) stop" using "1.prems" by (subst request_ticks.simps) simp
  show ?case
  proof (cases "x < t + d")
    case True
    with s "1.prems" show ?thesis by auto
  next
    case False
    then have "t + d \<le> x" "0 < d \<and> t < stop" using "1.prems" by simp_all
    from "1.IH" [OF this(2) "1.prems"(1) this(1) "1.prems"(3)] show ?thesis unfolding s by (auto simp del: request_ticks.simps)
  qed
qed

text \<open>Once the first request is out, at every moment until the peer closes a key frame was asked for within the last fragment length.\<close>

lemma keyframes_bound_fragments:
  assumes "start + 200 * millisecond \<le> x" and "x < stop"
  shows "\<exists>r \<in> set (runPeriodicKeyframeRequests secs start stop). r \<le> x \<and> x < r + keyframe_interval secs"
proof (cases "x < start + 200 * millisecond + keyframe_interval secs")
  case True
  then show ?thesis using assms by (auto simp: runPeriodicKeyframeRequests_def Let_def)
next
  case False
  then have "\<exists>r \<in> set (request_ticks (keyframe_interval secs) (start + 200 * millisecond + keyframe_interval secs) stop).
      r \<le> x \<and> x < r + keyframe_interval secs"
    using assms(2) keyframe_interval_pos by (intro request_ticks_cover) auto
  then show ?thesis by (auto simp: runPeriodicKeyframeRequests_def Let_def)
qed

section \<open>The heartbeat of the registration\<close>

definition sessionHeartbeatInterval :: duration where "sessionHeartbeatInterval = 60 * second"

text \<open>
  One tick per interval after the registration at \<open>now\<close>; the registration lives until \<open>expiry\<close>.  A refresh that succeeds extends it, but brings back none that has
  lapsed (\<open>EXPIRE\<close> of a missing key does nothing); one that fails changes nothing.  \<^const>\<open>None\<close>: lapsed.
\<close>

definition heartbeat :: "instant \<Rightarrow> bool \<Rightarrow> instant option \<Rightarrow> instant option" where
  "heartbeat t ok expiry = (case expiry of None \<Rightarrow> None
     | Some e \<Rightarrow> if e \<le> t then None else if ok then Some (t + sessionTTL) else Some e)"

fun runSessionHeartbeat :: "instant \<Rightarrow> bool list \<Rightarrow> instant option \<Rightarrow> instant option" where
  "runSessionHeartbeat now [] expiry = expiry"
| "runSessionHeartbeat now (ok # oks) expiry =
     runSessionHeartbeat (now + sessionHeartbeatInterval) oks (heartbeat (now + sessionHeartbeatInterval) ok expiry)"

text \<open>No run of failures is longer than \<open>k\<close>; \<open>n\<close> are pending.\<close>

fun failures_within :: "nat \<Rightarrow> nat \<Rightarrow> bool list \<Rightarrow> bool" where
  "failures_within k n [] = True"
| "failures_within k n (ok # oks) = (if ok then failures_within k 0 oks else n < k \<and> failures_within k (Suc n) oks)"

lemma heartbeat_lapsed: "runSessionHeartbeat now oks None = None"
  by (induction oks arbitrary: now) (simp_all add: heartbeat_def)

lemma heartbeat_alive_aux:
  assumes "failures_within 3 n oks" and "n \<le> 3" and "e = now - int n * sessionHeartbeatInterval + sessionTTL"
  shows "\<exists>e'. runSessionHeartbeat now oks (Some e) = Some e' \<and> now + int (length oks) * sessionHeartbeatInterval + sessionHeartbeatInterval < e'"
  using assms
proof (induction oks arbitrary: now n e)
  case Nil
  then show ?case by (simp add: sessionHeartbeatInterval_def sessionTTL_def minute_def second_def)
next
  case (Cons ok oks)
  let ?t = "now + sessionHeartbeatInterval"
  have live: "\<not> e \<le> ?t"
    using Cons.prems(2,3) by (simp add: sessionHeartbeatInterval_def sessionTTL_def minute_def second_def)
  show ?case
  proof (cases ok)
    case True
    with Cons.prems(1) have f: "failures_within 3 0 oks" by simp
    have "\<exists>e'. runSessionHeartbeat ?t oks (Some (?t + sessionTTL)) = Some e'
        \<and> ?t + int (length oks) * sessionHeartbeatInterval + sessionHeartbeatInterval < e'"
      by (rule Cons.IH [OF f]) simp_all
    then show ?thesis using True live by (simp add: heartbeat_def algebra_simps)
  next
    case False
    with Cons.prems(1) have f: "failures_within 3 (Suc n) oks" "Suc n \<le> 3" by auto
    have e: "e = ?t - int (Suc n) * sessionHeartbeatInterval + sessionTTL" using Cons.prems(3) by (simp add: algebra_simps)
    have "\<exists>e'. runSessionHeartbeat ?t oks (Some e) = Some e'
        \<and> ?t + int (length oks) * sessionHeartbeatInterval + sessionHeartbeatInterval < e'"
      by (rule Cons.IH [OF f e])
    then show ?thesis using False live by (simp add: heartbeat_def algebra_simps)
  qed
qed

text \<open>
  C25.  A live peer stays registered through refreshes that fail, up to three in a row; but if Redis refuses five in a row the registration has lapsed, and no
  later heartbeat, however many succeed, brings it back.
\<close>

theorem heartbeat_keeps_registration:
  shows "(failures_within 3 0 oks \<longrightarrow> (\<exists>e. runSessionHeartbeat now oks (Some (now + sessionTTL)) = Some e
        \<and> now + int (length oks) * sessionHeartbeatInterval < e))
    \<and> (\<forall>later. runSessionHeartbeat now (replicate 5 False @ later) (Some (now + sessionTTL)) = None)"
proof (intro conjI impI allI)
  assume "failures_within 3 0 oks"
  from heartbeat_alive_aux [OF this, of "now + sessionTTL" now]
  obtain e where "runSessionHeartbeat now oks (Some (now + sessionTTL)) = Some e"
      "now + int (length oks) * sessionHeartbeatInterval + sessionHeartbeatInterval < e" by auto
  moreover have "0 < sessionHeartbeatInterval" by (simp add: sessionHeartbeatInterval_def second_def)
  ultimately show "\<exists>e. runSessionHeartbeat now oks (Some (now + sessionTTL)) = Some e \<and> now + int (length oks) * sessionHeartbeatInterval < e"
    by force
next
  fix later
  show "runSessionHeartbeat now (replicate 5 False @ later) (Some (now + sessionTTL)) = None"
    by (simp add: eval_nat_numeral heartbeat_def sessionHeartbeatInterval_def sessionTTL_def minute_def second_def
        heartbeat_lapsed [unfolded sessionHeartbeatInterval_def second_def])
qed

lemma heartbeat_keeps_registration_witness:
  "runSessionHeartbeat 0 [False, False, True, False, False, False, True] (Some (0 + sessionTTL)) \<noteq> None"
  using heartbeat_keeps_registration [of "[False, False, True, False, False, False, True]" 0] by auto

end
