(* ===== verification/Kafka.thy ===== *)
theory Kafka
  imports Domain
begin

text \<open>
  \<open>internal/infrastructure/queue\<close>: \<open>config.go\<close>, \<open>admin.go\<close> and \<open>publisher.go\<close>.  kafka-go is a
  parameter, the record \<open>kafkaEnv\<close> of operations on the outside world \<open>'k\<close>; what the code relies on is
  \<open>kafka_doc\<close> (reading partitions shows the broker's topics, topics do not vanish) and \<open>clock_doc\<close> (time
  does not run backwards, a pause lasts).  The contexts a call runs under are the datatype \<open>kctx\<close>.
  The publisher's state carries two logs that the code does not have, the writes and the recovery
  passes, so that properties can speak of them.
\<close>

section \<open>Configuration\<close>

record Config =
  kc_Brokers :: "string list"
  kc_GroupID :: string
  kc_BatchSize :: int
  kc_BatchTimeout :: duration
  kc_Async :: bool
  kc_RequiredAcks :: int
  kc_MinBytes :: int
  kc_MaxBytes :: int
  kc_CommitInterval :: duration
  kc_StartOffset :: int
  kc_MaxWait :: duration
  kc_TLSEnabled :: bool
  kc_SASLUser :: string
  kc_SASLPass :: string

text \<open>\<open>kafka.FirstOffset\<close> is an argument.\<close>

definition DefaultKafkaConfig :: "int \<Rightarrow> string list \<Rightarrow> string \<Rightarrow> Config" where
  "DefaultKafkaConfig firstOffset brokers groupID =
     \<lparr>kc_Brokers = brokers, kc_GroupID = groupID, kc_BatchSize = 100, kc_BatchTimeout = 10 * millisecond,
      kc_Async = False, kc_RequiredAcks = - 1, kc_MinBytes = 1, kc_MaxBytes = 10 * 1024 * 1024,
      kc_CommitInterval = second, kc_StartOffset = firstOffset, kc_MaxWait = 500 * millisecond,
      kc_TLSEnabled = False, kc_SASLUser = [], kc_SASLPass = []\<rparr>"

definition NewKafkaConfig :: "Config \<Rightarrow> bool \<Rightarrow> string \<Rightarrow> string \<Rightarrow> Config" where
  "NewKafkaConfig cfg tlsEnabled saslUser saslPass =
     \<lparr>kc_Brokers = kc_Brokers cfg, kc_GroupID = kc_GroupID cfg, kc_BatchSize = kc_BatchSize cfg,
      kc_BatchTimeout = kc_BatchTimeout cfg, kc_Async = kc_Async cfg, kc_RequiredAcks = kc_RequiredAcks cfg,
      kc_MinBytes = kc_MinBytes cfg, kc_MaxBytes = kc_MaxBytes cfg, kc_CommitInterval = kc_CommitInterval cfg,
      kc_StartOffset = kc_StartOffset cfg, kc_MaxWait = kc_MaxWait cfg,
      kc_TLSEnabled = tlsEnabled, kc_SASLUser = saslUser, kc_SASLPass = saslPass\<rparr>"

section \<open>Connections\<close>

text \<open>How a client connects: with TLS or not, with a SASL mechanism or not.\<close>

record transport =
  tls :: bool
  sasl :: "(string \<times> string) option"

definition plaintext :: transport where "plaintext = \<lparr>tls = False, sasl = None\<rparr>"

text \<open>\<open>scram.Mechanism\<close>, whose error every caller drops, is the argument \<open>mech\<close>.\<close>

type_synonym scram = "string \<Rightarrow> string \<Rightarrow> (string \<times> string) option"

definition dialer :: "scram \<Rightarrow> Config \<Rightarrow> transport" where
  "dialer mech cfg =
     (if kc_TLSEnabled cfg \<and> kc_SASLUser cfg \<noteq> [] \<and> kc_SASLPass cfg \<noteq> []
      then \<lparr>tls = True, sasl = mech (kc_SASLUser cfg) (kc_SASLPass cfg)\<rparr> else plaintext)"

definition consumerTransport :: "scram \<Rightarrow> Config \<Rightarrow> transport" where
  "consumerTransport mech cfg =
     \<lparr>tls = kc_TLSEnabled cfg,
      sasl = (if kc_SASLUser cfg \<noteq> [] \<and> kc_SASLPass cfg \<noteq> [] then mech (kc_SASLUser cfg) (kc_SASLPass cfg) else None)\<rparr>"

definition publisherTransport :: "scram \<Rightarrow> Config \<Rightarrow> transport" where
  "publisherTransport mech cfg =
     (if kc_TLSEnabled cfg \<or> kc_SASLUser cfg \<noteq> []
      then \<lparr>tls = True, sasl = mech (kc_SASLUser cfg) (kc_SASLPass cfg)\<rparr> else plaintext)"

text \<open>\<open>net.JoinHostPort\<close>.\<close>

definition JoinHostPort :: "string \<Rightarrow> string \<Rightarrow> string" where
  "JoinHostPort host port =
     (if CHR '':'' \<in> set host then ''['' @ host @ '']:'' @ port else host @ '':'' @ port)"

section \<open>Messages, contexts, the outside world\<close>

text \<open>A message value: a nil slice, a JSON document, or bytes that are no JSON document.\<close>

type_synonym kvalue = "sval option"

record kmsg =
  km_Topic :: string
  km_Partition :: int
  km_Offset :: int
  km_Key :: string
  km_Value :: kvalue
  km_Headers :: "(string \<times> string) list"

datatype kctx = CallerCtx | WithTimeout kctx duration | WithoutCancel kctx

record writeError =
  we_unknown :: bool
  we_text :: string

text \<open>The settings of a \<open>kafka.Writer\<close> that the code chooses.\<close>

record writer =
  wr_Topic :: string
  wr_Transport :: transport
  wr_HashBalancer :: bool
  wr_BatchSize :: int
  wr_BatchTimeout :: duration
  wr_Async :: bool
  wr_RequiredAcks :: int
  wr_MaxAttempts :: int

record TopicConfig =
  tc_Topic :: string
  tc_NumPartitions :: int
  tc_ReplicationFactor :: int
  tc_ConfigEntries :: "(string \<times> string) list"

record 'k kafkaEnv =
  k_mech :: scram
  k_dial :: "kctx \<Rightarrow> transport \<Rightarrow> string \<Rightarrow> 'k \<Rightarrow> string option \<times> 'k"
  k_controller :: "'k \<Rightarrow> (string + string \<times> int) \<times> 'k"
  k_partitions :: "'k \<Rightarrow> (string + string list) \<times> 'k"
  k_create :: "TopicConfig list \<Rightarrow> 'k \<Rightarrow> string option \<times> 'k"
  k_write :: "kctx \<Rightarrow> writer \<Rightarrow> kmsg \<Rightarrow> 'k \<Rightarrow> writeError option \<times> 'k"
  k_now :: "'k \<Rightarrow> instant \<times> 'k"
  k_wait :: "kctx \<Rightarrow> duration \<Rightarrow> 'k \<Rightarrow> bool \<times> 'k"
  k_rfc3339 :: "instant \<Rightarrow> string"
  k_unknownText :: string

text \<open>
  \<open>parts w t\<close> is the number of partitions topic \<open>t\<close> has; \<open>tm w\<close> the time.
\<close>

definition kafka_doc :: "'k kafkaEnv \<Rightarrow> ('k \<Rightarrow> string \<Rightarrow> nat) \<Rightarrow> bool" where
  "kafka_doc env parts \<longleftrightarrow>
     (\<forall>w ps w' t. k_partitions env w = (Inr ps, w') \<longrightarrow> parts w' t = count_list ps t)
   \<and> (\<forall>c x a w t. parts w t \<le> parts (snd (k_dial env c x a w)) t)
   \<and> (\<forall>w t. parts w t \<le> parts (snd (k_controller env w)) t)
   \<and> (\<forall>w t. parts w t \<le> parts (snd (k_partitions env w)) t)
   \<and> (\<forall>cs w t. parts w t \<le> parts (snd (k_create env cs w)) t)
   \<and> (\<forall>c wr m w t. parts w t \<le> parts (snd (k_write env c wr m w)) t)
   \<and> (\<forall>w t. parts w t \<le> parts (snd (k_now env w)) t)
   \<and> (\<forall>c d w t. parts w t \<le> parts (snd (k_wait env c d w)) t)"

definition clock_doc :: "'k kafkaEnv \<Rightarrow> ('k \<Rightarrow> instant) \<Rightarrow> bool" where
  "clock_doc env tm \<longleftrightarrow>
     (\<forall>w t w'. k_now env w = (t, w') \<longrightarrow> tm w \<le> t \<and> t \<le> tm w')
   \<and> (\<forall>c d w w'. k_wait env c d w = (True, w') \<longrightarrow> tm w + d \<le> tm w')
   \<and> (\<forall>c x a w. tm w \<le> tm (snd (k_dial env c x a w)))
   \<and> (\<forall>w. tm w \<le> tm (snd (k_controller env w)))
   \<and> (\<forall>w. tm w \<le> tm (snd (k_partitions env w)))
   \<and> (\<forall>cs w. tm w \<le> tm (snd (k_create env cs w)))
   \<and> (\<forall>c wr m w. tm w \<le> tm (snd (k_write env c wr m w)))
   \<and> (\<forall>c d w. tm w \<le> tm (snd (k_wait env c d w)))"

section \<open>Topics\<close>

record TopicSpec =
  ts_Name :: string
  ts_NumPartitions :: int
  ts_ReplicationFactor :: int
  ts_RetentionMS :: int

definition RequiredTopics :: "TopicSpec list" where
  "RequiredTopics =
    [\<lparr>ts_Name = TopicFrameReady, ts_NumPartitions = 12, ts_ReplicationFactor = 1, ts_RetentionMS = 3600000\<rparr>,
     \<lparr>ts_Name = TopicStreamStarted, ts_NumPartitions = 4, ts_ReplicationFactor = 1, ts_RetentionMS = 86400000\<rparr>,
     \<lparr>ts_Name = TopicStreamEnded, ts_NumPartitions = 4, ts_ReplicationFactor = 1, ts_RetentionMS = 86400000\<rparr>,
     \<lparr>ts_Name = TopicRecordingAssemblyRequested, ts_NumPartitions = 4, ts_ReplicationFactor = 1, ts_RetentionMS = 604800000\<rparr>,
     \<lparr>ts_Name = TopicRecordingPartChanged, ts_NumPartitions = 4, ts_ReplicationFactor = 1, ts_RetentionMS = 604800000\<rparr>,
     \<lparr>ts_Name = TopicScheduleClosed, ts_NumPartitions = 2, ts_ReplicationFactor = 1, ts_RetentionMS = 3600000\<rparr>,
     \<lparr>ts_Name = TopicAlertRaised, ts_NumPartitions = 6, ts_ReplicationFactor = 1, ts_RetentionMS = 604800000\<rparr>]"

definition dlqRetentionMS :: int where "dlqRetentionMS = 604800000"
definition topicVerifyTimeout :: duration where "topicVerifyTimeout = 5 * second"
definition topicVerifyInterval :: duration where "topicVerifyInterval = 250 * millisecond"
definition dlqSuffix :: string where "dlqSuffix = ''.dlq''"

definition dlqTopicSpecs :: "TopicSpec list" where
  "dlqTopicSpecs = map (\<lambda>spec.
     \<lparr>ts_Name = ts_Name spec @ dlqSuffix, ts_NumPartitions = ts_NumPartitions spec,
      ts_ReplicationFactor = ts_ReplicationFactor spec,
      ts_RetentionMS = (let retention = ts_RetentionMS spec in
        if 0 \<le> retention \<and> retention < dlqRetentionMS then dlqRetentionMS else retention)\<rparr>) RequiredTopics"

definition topicConfigOf :: "TopicSpec \<Rightarrow> TopicConfig" where
  "topicConfigOf spec =
     \<lparr>tc_Topic = ts_Name spec, tc_NumPartitions = ts_NumPartitions spec, tc_ReplicationFactor = ts_ReplicationFactor spec,
      tc_ConfigEntries = [(''retention.ms'', Itoa (ts_RetentionMS spec)), (''compression.type'', ''snappy'')]\<rparr>"

definition count_topic :: "string \<Rightarrow> (string \<rightharpoonup> int) \<Rightarrow> (string \<rightharpoonup> int)" where
  "count_topic t m = m(t \<mapsto> (case m t of None \<Rightarrow> 1 | Some n \<Rightarrow> n + 1))"

definition topicPartitionCounts :: "'k kafkaEnv \<Rightarrow> 'k \<Rightarrow> (string + (string \<rightharpoonup> int)) \<times> 'k" where
  "topicPartitionCounts env w =
     (case k_partitions env w of
        (Inl err, w1) \<Rightarrow> (Inl err, w1)
      | (Inr ps, w1) \<Rightarrow> (Inr (fold count_topic ps Map.empty), w1))"

definition isTopicExistsError :: "string \<Rightarrow> bool" where
  "isTopicExistsError err \<longleftrightarrow> Contains err ''Topic with this name already exists''"

datatype ensureError = BrokerEmpty | AdminConnect string | GetController string | ConnectController string
  | ReadTopics string | CreateTopicsFailed "string list" string | VerifyTopics "string option" | StillMissing "string list"

text \<open>
  The verification loop may poll for as long as the clock allows, so it is a partial function;
  that it returns is proved below.  An error is the text of a failed read, or \<^const>\<open>None\<close> for a context
  that ended.
\<close>

partial_function (option) waitForTopics ::
    "'k kafkaEnv \<Rightarrow> kctx \<Rightarrow> string list \<Rightarrow> instant \<Rightarrow> 'k \<Rightarrow> ((string option + string list) \<times> 'k) option" where
  "waitForTopics env ctx names deadline w =
     (case topicPartitionCounts env w of
        (Inl err, w1) \<Rightarrow> Some (Inl (Some err), w1)
      | (Inr counts, w1) \<Rightarrow>
          (let absent = filter (\<lambda>n. counts n = None) names
           in if absent = [] then Some (Inr absent, w1)
              else (case k_now env w1 of (t, w2) \<Rightarrow>
                if deadline < t then Some (Inr absent, w2)
                else (case k_wait env ctx topicVerifyInterval w2 of
                   (waited, w3) \<Rightarrow> if \<not> waited then Some (Inl None, w3)
                     else waitForTopics env ctx names deadline w3))))"

definition allSpecs :: "TopicSpec list" where "allSpecs = RequiredTopics @ dlqTopicSpecs"

text \<open>The topics the broker has with fewer partitions than required, as logged.\<close>

definition narrow_topics :: "(string \<rightharpoonup> int) \<Rightarrow> TopicSpec list \<Rightarrow> (string \<times> int \<times> int) list" where
  "narrow_topics existing specs = List.map_filter (\<lambda>spec.
     (case existing (ts_Name spec) of
        Some n \<Rightarrow> if n < ts_NumPartitions spec then Some (ts_Name spec, n, ts_NumPartitions spec) else None
      | None \<Rightarrow> None)) specs"

definition missing_topics :: "(string \<rightharpoonup> int) \<Rightarrow> TopicSpec list \<Rightarrow> TopicConfig list" where
  "missing_topics existing specs = map topicConfigOf (filter (\<lambda>spec. existing (ts_Name spec) = None) specs)"

definition createMissing :: "'k kafkaEnv \<Rightarrow> kctx \<Rightarrow> TopicConfig list \<Rightarrow> 'k \<Rightarrow> ((ensureError + unit) \<times> 'k) option" where
  "createMissing env ctx missing w =
     (let names = map tc_Topic missing
      in case k_create env missing w of (cerr, w1) \<Rightarrow>
         if (case cerr of Some err \<Rightarrow> \<not> isTopicExistsError err | None \<Rightarrow> False)
         then Some (Inl (CreateTopicsFailed names (the cerr)), w1)
         else (case k_now env w1 of (t, w2) \<Rightarrow>
           Option.bind (waitForTopics env ctx names (t + topicVerifyTimeout) w2) (\<lambda>(r, w3).
             Some (case r of Inl e \<Rightarrow> Inl (VerifyTopics e) | Inr still \<Rightarrow>
               if still = [] then Inr () else Inl (StillMissing still), w3))))"

definition EnsureTopics :: "'k kafkaEnv \<Rightarrow> kctx \<Rightarrow> Config \<Rightarrow> string list \<Rightarrow> 'k
    \<Rightarrow> ((ensureError + unit) \<times> (string \<times> int \<times> int) list \<times> 'k) option" where
  "EnsureTopics env ctx cfg brokers w =
     (case brokers of
        [] \<Rightarrow> Some (Inl BrokerEmpty, [], w)
      | broker # _ \<Rightarrow>
          (case k_dial env ctx (dialer (k_mech env) cfg) broker w of
             (Some err, w1) \<Rightarrow> Some (Inl (AdminConnect err), [], w1)
           | (None, w1) \<Rightarrow>
          (case k_controller env w1 of
             (Inl err, w2) \<Rightarrow> Some (Inl (GetController err), [], w2)
           | (Inr (host, port), w2) \<Rightarrow>
          (case k_dial env ctx (dialer (k_mech env) cfg) (JoinHostPort host (Itoa port)) w2 of
             (Some err, w3) \<Rightarrow> Some (Inl (ConnectController err), [], w3)
           | (None, w3) \<Rightarrow>
          (case topicPartitionCounts env w3 of
             (Inl err, w4) \<Rightarrow> Some (Inl (ReadTopics err), [], w4)
           | (Inr existing, w4) \<Rightarrow>
               (let missing = missing_topics existing allSpecs; narrow = narrow_topics existing allSpecs
                in if missing = [] then Some (Inr (), narrow, w4)
                   else Option.bind (createMissing env ctx missing w4) (\<lambda>(r, w5). Some (r, narrow, w5))))))))"

text \<open>\<open>WaitForKafka\<close>: one dial per tick until one succeeds; the list of ticks ends when the context does.\<close>

fun WaitForKafka :: "'k kafkaEnv \<Rightarrow> Config \<Rightarrow> string list \<Rightarrow> unit list \<Rightarrow> 'k \<Rightarrow> bool \<times> 'k" where
  "WaitForKafka env cfg [] ticks w = (False, w)"
| "WaitForKafka env cfg (b # bs) [] w = (False, w)"
| "WaitForKafka env cfg (b # bs) (_ # ticks) w =
     (case k_dial env CallerCtx (dialer (k_mech env) cfg) b w of
        (None, w1) \<Rightarrow> (True, w1)
      | (Some _, w1) \<Rightarrow> WaitForKafka env cfg (b # bs) ticks w1)"

definition PingKafka :: "'k kafkaEnv \<Rightarrow> Config \<Rightarrow> string list \<Rightarrow> 'k \<Rightarrow> bool \<times> 'k" where
  "PingKafka env cfg brokers w =
     (case brokers of [] \<Rightarrow> (False, w)
      | b # _ \<Rightarrow> (case k_dial env CallerCtx (dialer (k_mech env) cfg) b w of (r, w1) \<Rightarrow> (r = None, w1)))"

section \<open>Ensuring topics\<close>

lemma fold_count_topic:
  "fold count_topic ps m n = (if n \<in> set ps
     then Some ((case m n of None \<Rightarrow> 0 | Some k \<Rightarrow> k) + int (count_list ps n)) else m n)"
  by (induction ps arbitrary: m) (auto simp: count_topic_def split: option.splits)

lemma partition_counts:
  "topicPartitionCounts env w = (Inr counts, w1) \<longleftrightarrow>
     (\<exists>ps. k_partitions env w = (Inr ps, w1)
        \<and> counts = (\<lambda>n. if n \<in> set ps then Some (int (count_list ps n)) else None))"
  by (auto simp: topicPartitionCounts_def fold_count_topic fun_eq_iff split: prod.splits sum.splits)

lemma counts_world: "snd (topicPartitionCounts env w) = snd (k_partitions env w)"
  by (simp add: topicPartitionCounts_def split: prod.splits sum.splits)

lemma parts_of_counts:
  assumes "kafka_doc env parts" and "topicPartitionCounts env w = (Inr counts, w1)"
  shows "counts n = (if parts w1 n = 0 then None else Some (int (parts w1 n)))"
proof -
  obtain ps where p: "k_partitions env w = (Inr ps, w1)"
    and c: "counts = (\<lambda>n. if n \<in> set ps then Some (int (count_list ps n)) else None)"
    using assms(2) unfolding partition_counts by blast
  have "parts w1 n = count_list ps n" using assms(1) p by (simp add: kafka_doc_def)
  then show ?thesis by (simp add: c count_list_0_iff)
qed

lemma parts_mono:
  assumes "kafka_doc env parts"
  shows "k_dial env c x a w = (d, w1) \<Longrightarrow> parts w t \<le> parts w1 t"
    and "k_controller env w = (e, w1) \<Longrightarrow> parts w t \<le> parts w1 t"
    and "topicPartitionCounts env w = (f, w1) \<Longrightarrow> parts w t \<le> parts w1 t"
    and "k_create env cs w = (g, w1) \<Longrightarrow> parts w t \<le> parts w1 t"
    and "k_now env w = (h, w1) \<Longrightarrow> parts w t \<le> parts w1 t"
    and "k_wait env c du w = (i, w1) \<Longrightarrow> parts w t \<le> parts w1 t"
    and "k_write env c wr m w = (j, w1) \<Longrightarrow> parts w t \<le> parts w1 t"
proof -
  show "k_dial env c x a w = (d, w1) \<Longrightarrow> parts w t \<le> parts w1 t"
    using assms unfolding kafka_doc_def by (metis snd_conv)
  show "k_controller env w = (e, w1) \<Longrightarrow> parts w t \<le> parts w1 t"
    using assms unfolding kafka_doc_def by (metis snd_conv)
  show "topicPartitionCounts env w = (f, w1) \<Longrightarrow> parts w t \<le> parts w1 t"
    using assms counts_world [of env w] unfolding kafka_doc_def by (metis snd_conv)
  show "k_create env cs w = (g, w1) \<Longrightarrow> parts w t \<le> parts w1 t"
    using assms unfolding kafka_doc_def by (metis snd_conv)
  show "k_now env w = (h, w1) \<Longrightarrow> parts w t \<le> parts w1 t"
    using assms unfolding kafka_doc_def by (metis snd_conv)
  show "k_wait env c du w = (i, w1) \<Longrightarrow> parts w t \<le> parts w1 t"
    using assms unfolding kafka_doc_def by (metis snd_conv)
  show "k_write env c wr m w = (j, w1) \<Longrightarrow> parts w t \<le> parts w1 t"
    using assms unfolding kafka_doc_def by (metis snd_conv)
qed

lemma clock_mono:
  assumes "clock_doc env tm"
  shows "k_dial env c x a w = (d, w1) \<Longrightarrow> tm w \<le> tm w1"
    and "k_controller env w = (e, w1) \<Longrightarrow> tm w \<le> tm w1"
    and "topicPartitionCounts env w = (f, w1) \<Longrightarrow> tm w \<le> tm w1"
    and "k_create env cs w = (g, w1) \<Longrightarrow> tm w \<le> tm w1"
    and "k_now env w = (h, w1) \<Longrightarrow> tm w \<le> h \<and> h \<le> tm w1"
    and "k_wait env c du w = (i, w1) \<Longrightarrow> tm w \<le> tm w1 \<and> (i \<longrightarrow> tm w + du \<le> tm w1)"
    and "k_write env c wr m w = (j, w1) \<Longrightarrow> tm w \<le> tm w1"
proof -
  show "k_dial env c x a w = (d, w1) \<Longrightarrow> tm w \<le> tm w1"
    using assms unfolding clock_doc_def by (metis snd_conv)
  show "k_controller env w = (e, w1) \<Longrightarrow> tm w \<le> tm w1"
    using assms unfolding clock_doc_def by (metis snd_conv)
  show "topicPartitionCounts env w = (f, w1) \<Longrightarrow> tm w \<le> tm w1"
    using assms counts_world [of env w] unfolding clock_doc_def by (metis snd_conv)
  show "k_create env cs w = (g, w1) \<Longrightarrow> tm w \<le> tm w1"
    using assms unfolding clock_doc_def by (metis snd_conv)
  show "k_now env w = (h, w1) \<Longrightarrow> tm w \<le> h \<and> h \<le> tm w1"
    using assms by (simp add: clock_doc_def)
  show "k_wait env c du w = (i, w1) \<Longrightarrow> tm w \<le> tm w1 \<and> (i \<longrightarrow> tm w + du \<le> tm w1)"
    using assms unfolding clock_doc_def by (metis (full_types) snd_conv)
  show "k_write env c wr m w = (j, w1) \<Longrightarrow> tm w \<le> tm w1"
    using assms unfolding clock_doc_def by (metis snd_conv)
qed

text \<open>The verification loop returns: every poll that goes on is a quarter of a second later.\<close>

lemma wait_returns:
  assumes "clock_doc env tm"
  shows "\<exists>r w'. waitForTopics env ctx names deadline w = Some (r, w') \<and> tm w \<le> tm w'"
proof (induction "nat (deadline + 1 - tm w)" arbitrary: w rule: less_induct)
  case less
  note cm = clock_mono [OF assms]
  obtain f w1 where f: "topicPartitionCounts env w = (f, w1)" by (metis surj_pair)
  obtain t w2 where t: "k_now env w1 = (t, w2)" by (metis surj_pair)
  obtain b w3 where b: "k_wait env ctx topicVerifyInterval w2 = (b, w3)" by (metis surj_pair)
  have le: "tm w \<le> tm w1" "tm w1 \<le> t" "t \<le> tm w2" "tm w2 \<le> tm w3"
    using cm(3) [OF f] cm(5) [OF t] cm(6) [OF b] by auto
  have again: "\<exists>r w'. waitForTopics env ctx names deadline w3 = Some (r, w') \<and> tm w3 \<le> tm w'" if "b" "\<not> deadline < t"
  proof (rule less)
    have "tm w2 + topicVerifyInterval \<le> tm w3" using cm(6) [OF b] that(1) by blast
    then show "nat (deadline + 1 - tm w3) < nat (deadline + 1 - tm w)"
      using le that(2) by (simp add: topicVerifyInterval_def millisecond_def)
  qed
  show ?case
    using f t b le again
    by (subst waitForTopics.simps) (auto simp: Let_def split: sum.splits intro: order_trans)
qed

text \<open>What it reports as visible is visible.\<close>

lemma wait_sees:
  assumes "kafka_doc env parts" and "waitForTopics env ctx names deadline w = Some (Inr [], w')"
  shows "(\<forall>n \<in> set names. 0 < parts w' n) \<and> (\<forall>n. parts w n \<le> parts w' n)"
proof -
  define P where "P = (\<lambda>e (_::kctx) ns (_::instant) w y. e = env \<longrightarrow> (\<forall>w'. y = (Inr [] :: string option + string list, w') \<longrightarrow>
      (\<forall>n \<in> set ns. 0 < parts w' n) \<and> (\<forall>n. parts w n \<le> parts w' n)))"
  note pm = parts_mono [OF assms(1)]
  have "P env ctx names deadline w (Inr [], w')"
  proof (rule waitForTopics.raw_induct [OF _ assms(2)], unfold P_def, intro impI allI)
    fix self e c ns d w y w'
    assume ih: "\<And>e c ns d w y. self e c ns d w = Some y \<Longrightarrow> e = env \<longrightarrow> (\<forall>w'. y = (Inr [], w') \<longrightarrow>
        (\<forall>n \<in> set ns. 0 < parts w' n) \<and> (\<forall>n. parts w n \<le> parts w' n))"
      and body: "(case topicPartitionCounts e w of (Inl err, w1) \<Rightarrow> Some (Inl (Some err), w1)
        | (Inr counts, w1) \<Rightarrow> (let absent = filter (\<lambda>n. counts n = None) ns
           in if absent = [] then Some (Inr absent, w1)
              else (case k_now e w1 of (t, w2) \<Rightarrow> if d < t then Some (Inr absent, w2)
                else (case k_wait e c topicVerifyInterval w2 of
                   (waited, w3) \<Rightarrow> if \<not> waited then Some (Inl None, w3) else self e c ns d w3)))) = Some y"
      and e: "e = env" and y: "y = (Inr [], w')"
    obtain counts w1 where c: "topicPartitionCounts env w = (Inr counts, w1)"
      using body e y by (auto split: prod.splits sum.splits)
    show "(\<forall>n \<in> set ns. 0 < parts w' n) \<and> (\<forall>n. parts w n \<le> parts w' n)"
    proof (cases "filter (\<lambda>n. counts n = None) ns = []")
      case True
      then have "w' = w1" using body e y c by simp
      moreover have "\<forall>n \<in> set ns. counts n \<noteq> None" using True by (auto simp: filter_empty_conv)
      ultimately show ?thesis using parts_of_counts [OF assms(1) c] pm(3) [OF c] by (metis gr0I)
    next
      case False
      obtain t w2 b w3 where s: "k_now env w1 = (t, w2)" "k_wait env c topicVerifyInterval w2 = (b, w3)" by (metis surj_pair)
      have "self env c ns d w3 = Some (Inr [], w')"
        using body e y c s False by (auto simp: Let_def split: if_splits)
      then have r: "(\<forall>n \<in> set ns. 0 < parts w' n) \<and> (\<forall>n. parts w3 n \<le> parts w' n)"
        using ih by blast
      have "parts w n \<le> parts w3 n" for n
        using pm(3) [OF c] pm(5) [OF s(1)] pm(6) [OF s(2)] by (meson order_trans)
      with r show ?thesis by (meson order_trans)
    qed
  qed
  then show ?thesis by (simp add: P_def)
qed

lemma create_missing_ok:
  assumes "kafka_doc env parts" and "createMissing env ctx missing w = Some (Inr (), w')"
  shows "(\<forall>c \<in> set missing. 0 < parts w' (tc_Topic c)) \<and> (\<forall>n. parts w n \<le> parts w' n)"
proof -
  obtain cerr w1 t w2 where s: "k_create env missing w = (cerr, w1)" "k_now env w1 = (t, w2)" by (metis surj_pair)
  obtain r3 where r3: "waitForTopics env ctx (map tc_Topic missing) (t + topicVerifyTimeout) w2 = Some (r3, w')"
    and ok: "(case r3 of Inl e \<Rightarrow> Inl (VerifyTopics e) | Inr still \<Rightarrow> if still = [] then Inr () else Inl (StillMissing still)) = Inr ()"
    using assms(2) s by (auto simp: createMissing_def Let_def bind_eq_Some_conv split: if_splits)
  have "waitForTopics env ctx (map tc_Topic missing) (t + topicVerifyTimeout) w2 = Some (Inr [], w')"
    using r3 ok by (auto split: sum.splits if_splits)
  note seen = wait_sees [OF assms(1) this]
  have "parts w n \<le> parts w' n" for n
    using seen parts_mono(4) [OF assms(1) s(1), of n] parts_mono(5) [OF assms(1) s(2), of n] by (meson order_trans)
  with seen show ?thesis by auto
qed

lemma create_missing_returns:
  assumes "clock_doc env tm"
  shows "\<exists>r w'. createMissing env ctx missing w = Some (r, w') \<and> tm w \<le> tm w'"
proof -
  obtain cerr w1 t w2 where s: "k_create env missing w = (cerr, w1)" "k_now env w1 = (t, w2)" by (metis surj_pair)
  obtain r w' where r: "waitForTopics env ctx (map tc_Topic missing) (t + topicVerifyTimeout) w2 = Some (r, w')" "tm w2 \<le> tm w'"
    using wait_returns [OF assms] by blast
  have "tm w \<le> tm w1" "tm w1 \<le> tm w'"
    using clock_mono(4) [OF assms s(1)] clock_mono(5) [OF assms s(2)] r(2) by auto
  then show ?thesis using s r(1) by (cases cerr) (auto simp: createMissing_def Let_def)
qed

lemma ensure_returns:
  assumes "clock_doc env tm"
  shows "\<exists>r warns w'. EnsureTopics env ctx cfg brokers w = Some (r, warns, w') \<and> tm w \<le> tm w'"
proof (cases brokers)
  case (Cons b bs)
  note cm = clock_mono [OF assms]
  let ?x = "dialer (k_mech env) cfg"
  obtain d w1 c w2 where s1: "k_dial env ctx ?x b w = (d, w1)" "k_controller env w1 = (c, w2)" by (metis surj_pair)
  show ?thesis
  proof (cases d; cases c)
    fix hp assume dc: "d = None" "c = Inr hp"
    obtain host port where hp: "hp = (host, port)" by (cases hp)
    obtain e w3 f w4 where s2: "k_dial env ctx ?x (JoinHostPort host (Itoa port)) w2 = (e, w3)"
      "topicPartitionCounts env w3 = (f, w4)" by (metis surj_pair)
    have le: "tm w \<le> tm w1" "tm w1 \<le> tm w2" "tm w2 \<le> tm w3" "tm w3 \<le> tm w4"
      using cm(1) [OF s1(1)] cm(2) [OF s1(2)] cm(1) [OF s2(1)] cm(3) [OF s2(2)] by auto
    obtain r w5 where r: "createMissing env ctx (missing_topics (projr f) allSpecs) w4 = Some (r, w5)" "tm w4 \<le> tm w5"
      using create_missing_returns [OF assms] by blast
    show ?thesis
      using Cons s1 s2 dc hp r le
      by (cases e; cases f) (auto simp: EnsureTopics_def Let_def)
  qed (use Cons s1 cm(1) [OF s1(1)] cm(2) [OF s1(2)] in \<open>auto simp: EnsureTopics_def\<close>)
qed (simp add: EnsureTopics_def)

lemma ensure_ok:
  assumes "kafka_doc env parts" and "EnsureTopics env ctx cfg brokers w = Some (Inr (), warns, w')"
  shows "\<forall>spec \<in> set allSpecs. 0 < parts w' (ts_Name spec)"
proof -
  obtain b bs where b: "brokers = b # bs" using assms(2) by (auto simp: EnsureTopics_def split: list.splits)
  obtain w3 counts w4 where c: "topicPartitionCounts env w3 = (Inr counts, w4)"
    and r: "missing_topics counts allSpecs = [] \<and> w' = w4
      \<or> createMissing env ctx (missing_topics counts allSpecs) w4 = Some (Inr (), w')"
    using assms(2) b
    by (auto simp: EnsureTopics_def Let_def bind_eq_Some_conv split: prod.splits option.splits sum.splits if_splits)
  note pc = parts_of_counts [OF assms(1) c]
  have mono: "parts w4 n \<le> parts w' n" for n
    using r create_missing_ok [OF assms(1)] by blast
  show ?thesis
  proof
    fix spec assume sp: "spec \<in> set allSpecs"
    show "0 < parts w' (ts_Name spec)"
    proof (cases "counts (ts_Name spec) = None")
      case True
      then have m: "topicConfigOf spec \<in> set (missing_topics counts allSpecs)"
        using sp by (auto simp: missing_topics_def)
      then have "createMissing env ctx (missing_topics counts allSpecs) w4 = Some (Inr (), w')" using r by auto
      from create_missing_ok [OF assms(1) this] m show ?thesis by (auto simp: topicConfigOf_def)
    next
      case False
      then show ?thesis using pc [of "ts_Name spec"] mono [of "ts_Name spec"] by (auto split: if_splits)
    qed
  qed
qed

text \<open>\<open>EnsureTopics\<close> always returns, and when it reports success every required topic and its
  dead-letter topic exist on the broker.  It asks for at least seven days of retention on every
  dead-letter topic, and for as many partitions there as on the topic itself.\<close>

theorem topics_ensured:
  assumes "kafka_doc env parts" and "clock_doc env tm"
  shows "\<exists>r warns w'. EnsureTopics env ctx cfg brokers w = Some (r, warns, w')
      \<and> (r = Inr () \<longrightarrow> (\<forall>spec \<in> set RequiredTopics. 0 < parts w' (ts_Name spec) \<and> 0 < parts w' (ts_Name spec @ dlqSuffix)))
      \<and> (\<forall>spec \<in> set dlqTopicSpecs. 7 * 24 * 3600 * 1000 \<le> ts_RetentionMS spec)
      \<and> map ts_NumPartitions dlqTopicSpecs = map ts_NumPartitions RequiredTopics"
proof -
  obtain r warns w' where r: "EnsureTopics env ctx cfg brokers w = Some (r, warns, w')"
    using ensure_returns [OF assms(2)] by blast
  have "0 < parts w' (ts_Name spec) \<and> 0 < parts w' (ts_Name spec @ dlqSuffix)"
    if "r = Inr ()" and sp: "spec \<in> set RequiredTopics" for spec
  proof -
    have a: "\<forall>spec \<in> set allSpecs. 0 < parts w' (ts_Name spec)" using ensure_ok [OF assms(1)] r that(1) by blast
    have "ts_Name spec @ dlqSuffix \<in> ts_Name ` set dlqTopicSpecs"
      using sp by (auto simp: dlqTopicSpecs_def image_image)
    with a sp show ?thesis by (auto simp: allSpecs_def)
  qed
  moreover have "\<forall>spec \<in> set dlqTopicSpecs. 7 * 24 * 3600 * 1000 \<le> ts_RetentionMS spec"
    by (simp add: dlqTopicSpecs_def RequiredTopics_def dlqRetentionMS_def Let_def)
  moreover have "map ts_NumPartitions dlqTopicSpecs = map ts_NumPartitions RequiredTopics"
    by (simp add: dlqTopicSpecs_def)
  ultimately show ?thesis using r by blast
qed

text \<open>A broker in memory: the topics it has, one partition each, and the time.\<close>

definition demo_kafka :: "(string list \<times> instant) kafkaEnv" where
  "demo_kafka =
     \<lparr>k_mech = (\<lambda>u p. Some (u, p)), k_dial = (\<lambda>c x a w. (None, w)), k_controller = (\<lambda>w. (Inr (''broker'', 9092), w)),
      k_partitions = (\<lambda>w. (Inr (fst w), w)), k_create = (\<lambda>cs w. (None, (fst w @ map tc_Topic cs, snd w))),
      k_write = (\<lambda>c wr m w. (if wr_Topic wr \<in> set (fst w) then None else Some \<lparr>we_unknown = True, we_text = []\<rparr>, w)),
      k_now = (\<lambda>w. (snd w, w)), k_wait = (\<lambda>c d w. (True, (fst w, snd w + max 0 d))),
      k_rfc3339 = (\<lambda>t. []), k_unknownText = ''Unknown Topic Or Partition''\<rparr>"

lemma demo_kafka_doc: "kafka_doc demo_kafka (\<lambda>w. count_list (fst w))"
  by (simp add: kafka_doc_def demo_kafka_def)

lemma demo_clock_doc: "clock_doc demo_kafka snd"
  by (simp add: clock_doc_def demo_kafka_def)

theorem topics_ensured_witness:
  "\<exists>warns w'. EnsureTopics demo_kafka CallerCtx (DefaultKafkaConfig (- 2) [''b:9092''] ''g'') [''b:9092''] ([], 0) = Some (Inr (), warns, w')
     \<and> 0 < count_list (fst w') TopicStreamEnded \<and> 0 < count_list (fst w') (TopicStreamEnded @ dlqSuffix)"
proof -
  let ?run = "EnsureTopics demo_kafka CallerCtx (DefaultKafkaConfig (- 2) [''b:9092''] ''g'') [''b:9092''] ([], 0)"
  have m: "missing_topics Map.empty allSpecs = map topicConfigOf allSpecs"
    by (simp add: missing_topics_def)
  have ne: "map topicConfigOf allSpecs \<noteq> []" by (simp add: allSpecs_def RequiredTopics_def)
  have w: "waitForTopics demo_kafka c ns t (ns, u) = Some (Inr [], (ns, u))" for c ns t u
    by (subst waitForTopics.simps)
      (simp add: topicPartitionCounts_def demo_kafka_def fold_count_topic filter_empty_conv)
  have run: "?run = Some (Inr (), narrow_topics Map.empty allSpecs, map tc_Topic (map topicConfigOf allSpecs), 0)"
    using ne w by (simp add: EnsureTopics_def createMissing_def Let_def m topicPartitionCounts_def demo_kafka_def del: map_map)
  have "TopicStreamEnded \<in> ts_Name ` set RequiredTopics" by (simp add: RequiredTopics_def)
  then obtain spec where sp: "spec \<in> set RequiredTopics" "ts_Name spec = TopicStreamEnded" by auto
  obtain r warns w' where r: "?run = Some (r, warns, w')"
    and ok: "r = Inr () \<longrightarrow> (\<forall>spec \<in> set RequiredTopics. 0 < count_list (fst w') (ts_Name spec)
      \<and> 0 < count_list (fst w') (ts_Name spec @ dlqSuffix))"
    using topics_ensured [OF demo_kafka_doc demo_clock_doc, of CallerCtx _ _ "([], 0)"] by metis
  have "r = Inr ()" using r run by simp
  with r ok sp show ?thesis by auto
qed

section \<open>The publisher\<close>

definition topicRecoveryCooldown :: duration where "topicRecoveryCooldown = 30 * second"
definition topicRecoveryTimeout :: duration where "topicRecoveryTimeout = 10 * second"

definition publisherTopics :: "string list" where
  "publisherTopics = [TopicFrameReady, TopicStreamStarted, TopicStreamEnded, TopicRecordingAssemblyRequested,
     TopicRecordingPartChanged, TopicScheduleClosed, TopicAlertRaised]"

definition asyncAllowed :: "string \<Rightarrow> bool" where "asyncAllowed topic \<longleftrightarrow> topic = TopicFrameReady"

definition publisherWriter :: "scram \<Rightarrow> Config \<Rightarrow> string \<Rightarrow> writer" where
  "publisherWriter mech cfg topic =
     \<lparr>wr_Topic = topic, wr_Transport = publisherTransport mech cfg, wr_HashBalancer = True,
      wr_BatchSize = kc_BatchSize cfg, wr_BatchTimeout = kc_BatchTimeout cfg, wr_Async = kc_Async cfg \<and> asyncAllowed topic,
      wr_RequiredAcks = kc_RequiredAcks cfg, wr_MaxAttempts = 5\<rparr>"

text \<open>\<open>passes\<close> and \<open>writes\<close> are logs: the starts of the recovery passes, newest first, and the writes.\<close>

record Publisher =
  p_writers :: "string \<rightharpoonup> writer"
  p_cfg :: Config
  lastRecovery :: instant
  lastRecoveryOK :: bool
  passes :: "instant list"
  writes :: "(string \<times> kmsg \<times> bool) list"

definition NewPublisher :: "scram \<Rightarrow> Config \<Rightarrow> Publisher" where
  "NewPublisher mech cfg =
     \<lparr>p_writers = (\<lambda>t. if t \<in> set publisherTopics then Some (publisherWriter mech cfg t) else None), p_cfg = cfg,
      lastRecovery = zero_time, lastRecoveryOK = False, passes = [], writes = []\<rparr>"

definition isUnknownTopicError :: "'k kafkaEnv \<Rightarrow> writeError option \<Rightarrow> bool" where
  "isUnknownTopicError env err \<longleftrightarrow>
     (case err of None \<Rightarrow> False | Some e \<Rightarrow> we_unknown e \<or> Contains (we_text e) (k_unknownText env))"

definition recoverTopics :: "'k kafkaEnv \<Rightarrow> kctx \<Rightarrow> Publisher \<Rightarrow> 'k \<Rightarrow> (bool \<times> Publisher \<times> 'k) option" where
  "recoverTopics env ctx p w =
     (case k_now env w of (t, w1) \<Rightarrow>
        if time_sub t (lastRecovery p) < topicRecoveryCooldown then Some (lastRecoveryOK p, p, w1)
        else (case k_now env w1 of (t1, w2) \<Rightarrow>
          let p1 = p\<lparr>lastRecovery := t1, lastRecoveryOK := False, passes := t1 # passes p\<rparr>
          in Option.bind (EnsureTopics env (WithTimeout (WithoutCancel ctx) topicRecoveryTimeout) (p_cfg p) (kc_Brokers (p_cfg p)) w2)
               (\<lambda>(r, _, w3). Some (case r of Inl _ \<Rightarrow> (False, p1, w3)
                  | Inr _ \<Rightarrow> (True, p1\<lparr>lastRecoveryOK := True\<rparr>, w3)))))"

datatype publishError = MarshalFailed | NoWriter string | WriteFailed string writeError

definition writeMessage :: "'k kafkaEnv \<Rightarrow> kctx \<Rightarrow> writer \<Rightarrow> kmsg \<Rightarrow> Publisher \<times> 'k \<Rightarrow> writeError option \<times> Publisher \<times> 'k" where
  "writeMessage env ctx wr msg s = (case s of (p, w) \<Rightarrow>
     (case k_write env ctx wr msg w of (err, w1) \<Rightarrow>
        (err, p\<lparr>writes := writes p @ [(wr_Topic wr, msg, err = None)]\<rparr>, w1)))"

definition eventHeaders :: "'k kafkaEnv \<Rightarrow> string \<Rightarrow> instant \<Rightarrow> (string \<times> string) list" where
  "eventHeaders env topic t =
     [(''content-type'', ''application/json''), (''produced-at'', k_rfc3339 env t)]
     @ (if topic = TopicRecordingPartChanged then [(''__TypeId__'', ''java.util.LinkedHashMap'')] else [])"

definition eventMessage :: "'k kafkaEnv \<Rightarrow> string \<Rightarrow> string \<Rightarrow> json \<Rightarrow> instant \<Rightarrow> kmsg" where
  "eventMessage env topic key data t =
     \<lparr>km_Topic = [], km_Partition = 0, km_Offset = 0, km_Key = key, km_Value = Some (Doc data),
      km_Headers = eventHeaders env topic t\<rparr>"

text \<open>The payload is what \<open>json.Marshal\<close> makes of it, \<^const>\<open>None\<close> when it fails.\<close>

definition publish :: "'k kafkaEnv \<Rightarrow> kctx \<Rightarrow> string \<Rightarrow> string \<Rightarrow> json option \<Rightarrow> Publisher \<times> 'k
    \<Rightarrow> ((publishError + unit) \<times> Publisher \<times> 'k) option" where
  "publish env ctx topic key payload s =
     (case payload of None \<Rightarrow> Some (Inl MarshalFailed, s) | Some data \<Rightarrow>
     (case p_writers (fst s) topic of None \<Rightarrow> Some (Inl (NoWriter topic), s) | Some wr \<Rightarrow>
     (case k_now env (snd s) of (t, w1) \<Rightarrow>
       let msg = eventMessage env topic key data t in
       (case writeMessage env ctx wr msg (fst s, w1) of (err, p2, w2) \<Rightarrow>
          if isUnknownTopicError env err
          then Option.bind (recoverTopics env ctx p2 w2) (\<lambda>(again, p3, w3).
             if again then (case writeMessage env ctx wr msg (p3, w3) of (err2, s4) \<Rightarrow>
                Some (case err2 of None \<Rightarrow> Inr () | Some e \<Rightarrow> Inl (WriteFailed topic e), s4))
             else Some (Inl (WriteFailed topic (the err)), p3, w3))
          else Some (case err of None \<Rightarrow> Inr () | Some e \<Rightarrow> Inl (WriteFailed topic e), p2, w2)))))"

definition PublishFrameReady :: "'k kafkaEnv \<Rightarrow> kctx \<Rightarrow> FrameReadyEvent \<Rightarrow> Publisher \<times> 'k \<Rightarrow> ((publishError + unit) \<times> Publisher \<times> 'k) option" where
  "PublishFrameReady env ctx e = publish env ctx TopicFrameReady (fr_ScheduleID e) (Some (enc_frame_ready e))"
definition PublishStreamStarted :: "'k kafkaEnv \<Rightarrow> kctx \<Rightarrow> StreamStartedEvent \<Rightarrow> Publisher \<times> 'k \<Rightarrow> ((publishError + unit) \<times> Publisher \<times> 'k) option" where
  "PublishStreamStarted env ctx e = publish env ctx TopicStreamStarted (ss_ScheduleID e) (Some (enc_stream_started e))"
definition PublishStreamEnded :: "'k kafkaEnv \<Rightarrow> kctx \<Rightarrow> StreamEndedEvent \<Rightarrow> Publisher \<times> 'k \<Rightarrow> ((publishError + unit) \<times> Publisher \<times> 'k) option" where
  "PublishStreamEnded env ctx e = publish env ctx TopicStreamEnded (se_ScheduleID e) (Some (enc_stream_ended e))"
definition PublishScheduleClosed :: "'k kafkaEnv \<Rightarrow> kctx \<Rightarrow> ScheduleClosedEvent \<Rightarrow> Publisher \<times> 'k \<Rightarrow> ((publishError + unit) \<times> Publisher \<times> 'k) option" where
  "PublishScheduleClosed env ctx e = publish env ctx TopicScheduleClosed (sc_ScheduleID e) (Some (enc_schedule_closed e))"
definition PublishRecordingAssemblyRequested :: "'k kafkaEnv \<Rightarrow> kctx \<Rightarrow> RecordingAssemblyRequestedEvent \<Rightarrow> Publisher \<times> 'k \<Rightarrow> ((publishError + unit) \<times> Publisher \<times> 'k) option" where
  "PublishRecordingAssemblyRequested env ctx e =
     publish env ctx TopicRecordingAssemblyRequested (rq_StreamID e) (Some (enc_assembly_requested e))"
definition PublishRecordingPartChanged :: "'k kafkaEnv \<Rightarrow> (asmError \<Rightarrow> string) \<Rightarrow> kctx \<Rightarrow> RecordingPartChangedEvent \<Rightarrow> Publisher \<times> 'k \<Rightarrow> ((publishError + unit) \<times> Publisher \<times> 'k) option" where
  "PublishRecordingPartChanged env errText ctx e =
     publish env ctx TopicRecordingPartChanged (rp_StreamID e) (Some (enc_part_changed errText e))"
definition PublishAlertRaised :: "'k kafkaEnv \<Rightarrow> kctx \<Rightarrow> AlertRaisedEvent \<Rightarrow> Publisher \<times> 'k \<Rightarrow> ((publishError + unit) \<times> Publisher \<times> 'k) option" where
  "PublishAlertRaised env ctx e = publish env ctx TopicAlertRaised (al_SessionID e) (enc_alert_raised e)"

fun publish_all :: "'k kafkaEnv \<Rightarrow> kctx \<Rightarrow> (string \<times> string \<times> json option) list \<Rightarrow> Publisher \<times> 'k
    \<Rightarrow> ((publishError + unit) list \<times> Publisher \<times> 'k) option" where
  "publish_all env ctx [] s = Some ([], s)"
| "publish_all env ctx ((topic, key, payload) # reqs) s =
     Option.bind (publish env ctx topic key payload s) (\<lambda>(r, s1).
       Option.bind (publish_all env ctx reqs s1) (\<lambda>(rs, s2). Some (r # rs, s2)))"

text \<open>A list of instants, newest first, in which neighbours are at least the cooldown apart.\<close>

fun spaced :: "instant list \<Rightarrow> bool" where
  "spaced (t # u # ts) \<longleftrightarrow> u + topicRecoveryCooldown \<le> t \<and> spaced (u # ts)"
| "spaced _ \<longleftrightarrow> True"

definition pub_inv :: "Publisher \<Rightarrow> bool" where
  "pub_inv p \<longleftrightarrow> spaced (passes p) \<and> (passes p \<noteq> [] \<longrightarrow> hd (passes p) = lastRecovery p)"

definition accepted :: "(string \<times> kmsg \<times> bool) list \<Rightarrow> nat" where
  "accepted ws = length (filter (\<lambda>(_, _, ok). ok) ws)"

lemma accepted_append [simp]: "accepted (xs @ ys) = accepted xs + accepted ys"
  and accepted_Nil [simp]: "accepted [] = 0"
  and accepted_Cons [simp]: "accepted ((t, m, ok) # xs) = (if ok then 1 else 0) + accepted xs"
  by (simp_all add: accepted_def)

lemma cooldown_over: "\<not> time_sub t u < topicRecoveryCooldown \<Longrightarrow> u + topicRecoveryCooldown \<le> t"
  by (auto simp: time_sub_def topicRecoveryCooldown_def second_def max_dur_def min_dur_def split: if_splits)

lemma recover_step:
  assumes "clock_doc env tm" and "pub_inv p"
  shows "\<exists>ok p' w'. recoverTopics env ctx p w = Some (ok, p', w') \<and> pub_inv p' \<and> writes p' = writes p"
proof -
  obtain t w1 t1 w2 where t: "k_now env w = (t, w1)" "k_now env w1 = (t1, w2)" by (metis surj_pair)
  have le: "t \<le> t1" using clock_mono(5) [OF assms(1) t(1)] clock_mono(5) [OF assms(1) t(2)] by simp
  let ?c = "WithTimeout (WithoutCancel ctx) topicRecoveryTimeout"
  obtain r ws w3 where e: "EnsureTopics env ?c (p_cfg p) (kc_Brokers (p_cfg p)) w2 = Some (r, ws, w3)"
    using ensure_returns [OF assms(1)] by blast
  have "pub_inv q" if "\<not> time_sub t (lastRecovery p) < topicRecoveryCooldown"
      and "passes q = t1 # passes p" and "lastRecovery q = t1" for q
    using cooldown_over [OF that(1)] that(2,3) le assms(2) by (cases "passes p") (auto simp: pub_inv_def)
  then show ?thesis using t e assms(2)
    by (cases r) (auto simp: recoverTopics_def Let_def)
qed

lemma write_step:
  "writeMessage env ctx wr m (p, w) =
     (fst (k_write env ctx wr m w),
      p\<lparr>writes := writes p @ [(wr_Topic wr, m, fst (k_write env ctx wr m w) = None)]\<rparr>,
      snd (k_write env ctx wr m w))"
  by (simp add: writeMessage_def split_beta)

lemma pub_inv_writes [simp]: "pub_inv (p\<lparr>writes := ws\<rparr>) = pub_inv p"
  by (simp add: pub_inv_def)

text \<open>One publish: at most two writes, and it reports success exactly when the last one was accepted.\<close>

lemma publish_step:
  assumes "clock_doc env tm" and "pub_inv p"
  shows "\<exists>r p' w' new. publish env ctx topic key payload (p, w) = Some (r, p', w') \<and> pub_inv p'
    \<and> writes p' = writes p @ new \<and> length new \<le> 2 \<and> accepted new = (if r = Inr () then 1 else 0)"
proof (cases "payload = None \<or> p_writers p topic = None")
  case True
  then show ?thesis using assms(2) by (cases payload) (auto simp: publish_def)
next
  case False
  then obtain data wr where d: "payload = Some data" "p_writers p topic = Some wr" by auto
  obtain t w1 where t: "k_now env w = (t, w1)" by (metis surj_pair)
  let ?m = "eventMessage env topic key data t"
  obtain err w2 where w: "k_write env ctx wr ?m w1 = (err, w2)" by (metis surj_pair)
  let ?p2 = "p\<lparr>writes := writes p @ [(wr_Topic wr, ?m, err = None)]\<rparr>"
  obtain again p3 w3 where rc: "recoverTopics env ctx ?p2 w2 = Some (again, p3, w3)" "pub_inv p3" "writes p3 = writes ?p2"
    using recover_step [OF assms(1), of ?p2] assms(2) by fastforce
  obtain err2 w4 where w4: "k_write env ctx wr ?m w3 = (err2, w4)" by (metis surj_pair)
  show ?thesis
  proof (cases "isUnknownTopicError env err")
    case True
    then have "err \<noteq> None" by (cases err) (simp_all add: isUnknownTopicError_def)
    then show ?thesis using d t w rc w4 True assms(2)
      by (cases again; cases err2) (auto simp: publish_def write_step Let_def)
  next
    case False
    then show ?thesis using d t w assms(2)
      by (cases err) (auto simp: publish_def write_step Let_def)
  qed
qed

text \<open>However many events are published, and whatever the broker answers: every publish returns;
  the recovery passes it starts are at least 30 seconds apart; there are at most two writes per
  event; and a publish reports success exactly when the broker accepted its message, which then
  happened exactly once.\<close>

theorem publish_recovery:
  assumes "clock_doc env tm"
  shows "\<exists>rs p' w'. publish_all env ctx reqs (NewPublisher mech cfg, w) = Some (rs, p', w')
      \<and> length rs = length reqs \<and> spaced (passes p')
      \<and> length (writes p') \<le> 2 * length reqs \<and> accepted (writes p') = length (filter (\<lambda>r. r = Inr ()) rs)"
proof -
  have "\<exists>rs p' w' new. publish_all env ctx reqs (p, w) = Some (rs, p', w') \<and> length rs = length reqs \<and> pub_inv p'
      \<and> writes p' = writes p @ new \<and> length new \<le> 2 * length reqs \<and> accepted new = length (filter (\<lambda>r. r = Inr ()) rs)"
    if "pub_inv p" for p w
    using that
  proof (induction reqs arbitrary: p w)
    case (Cons req reqs)
    obtain topic key payload where q: "req = (topic, key, payload)" by (cases req)
    obtain r p1 w1 n1 where s: "publish env ctx topic key payload (p, w) = Some (r, p1, w1)" "pub_inv p1"
      "writes p1 = writes p @ n1" "length n1 \<le> 2" "accepted n1 = (if r = Inr () then 1 else 0)"
      using publish_step [OF assms Cons.prems] by blast
    obtain rs p2 w2 n2 where i: "publish_all env ctx reqs (p1, w1) = Some (rs, p2, w2)" "length rs = length reqs" "pub_inv p2"
      "writes p2 = writes p1 @ n2" "length n2 \<le> 2 * length reqs" "accepted n2 = length (filter (\<lambda>r. r = Inr ()) rs)"
      using Cons.IH [OF s(2)] by blast
    show ?case
      by (rule exI [of _ "r # rs"], rule exI [of _ p2], rule exI [of _ w2], rule exI [of _ "n1 @ n2"])
        (use q s i in auto)
  qed auto
  moreover have "pub_inv (NewPublisher mech cfg)" by (simp add: pub_inv_def NewPublisher_def)
  ultimately obtain rs p' w' new where "publish_all env ctx reqs (NewPublisher mech cfg, w) = Some (rs, p', w')"
    "length rs = length reqs" "pub_inv p'" "writes p' = writes (NewPublisher mech cfg) @ new"
    "length new \<le> 2 * length reqs" "accepted new = length (filter (\<lambda>r. r = Inr ()) rs)" by blast
  then show ?thesis by (auto simp: pub_inv_def NewPublisher_def)
qed

theorem publish_recovery_witness:
  "\<exists>rs p' w'. publish_all demo_kafka CallerCtx [(TopicStreamEnded, ''s'', Some JNull), (TopicStreamEnded, ''s'', None)]
      (NewPublisher (k_mech demo_kafka) (DefaultKafkaConfig (- 2) [''b:9092''] ''g''), ([], 0)) = Some (rs, p', w')
    \<and> length rs = 2 \<and> spaced (passes p') \<and> length (writes p') \<le> 4"
  using publish_recovery [OF demo_clock_doc, of CallerCtx
      "[(TopicStreamEnded, ''s'', Some JNull), (TopicStreamEnded, ''s'', None)]"
      "k_mech demo_kafka" "DefaultKafkaConfig (- 2) [''b:9092''] ''g''" "([], 0)"]
  by auto

text \<open>How the clients connect.  Where TLS and both halves of a SASL login are configured, the admin, the
  consumers and the publisher connect the same way.  With TLS and no user the publisher still tries SASL,
  and the admin drops TLS; with a user and no TLS only the publisher encrypts.\<close>

lemma transports_differ:
  "dialer mech cfg = consumerTransport mech cfg \<and> publisherTransport mech cfg = consumerTransport mech cfg
     \<longleftrightarrow> (kc_TLSEnabled cfg \<and> kc_SASLUser cfg \<noteq> [] \<and> kc_SASLPass cfg \<noteq> [])
       \<or> (\<not> kc_TLSEnabled cfg \<and> kc_SASLUser cfg = [])"
  by (auto simp: dialer_def consumerTransport_def publisherTransport_def plaintext_def)

end
