(* ===== verification/Monitor.thy ===== *)
theory Monitor
  imports Kafka
begin

text \<open>
  \<open>internal/infrastructure/queue/monitor.go\<close>: alert configurations, the lag alert, and the two threshold
  counters.  The Prometheus metrics, which the code only writes, are left out; \<open>fired\<close> lists the alerts
  handed to \<open>fireAlert\<close>, their text as a datatype.  Thresholds stay far from the ends of \<open>int64\<close>.
\<close>

section \<open>Configuration\<close>

record ConsumerKey =
  ck_Topic :: string
  ck_GroupID :: string

record AlertConfig =
  LagThreshold :: int
  LagDuration :: duration
  DLQThreshold :: int
  FetchErrorThreshold :: int

definition DefaultAlertConfigs :: "string \<rightharpoonup> AlertConfig" where
  "DefaultAlertConfigs =
     [TopicFrameReady \<mapsto> \<lparr>LagThreshold = 1000, LagDuration = 2 * minute, DLQThreshold = 50, FetchErrorThreshold = 20\<rparr>,
      TopicStreamStarted \<mapsto> \<lparr>LagThreshold = 20, LagDuration = 1 * minute, DLQThreshold = 5, FetchErrorThreshold = 5\<rparr>,
      TopicStreamEnded \<mapsto> \<lparr>LagThreshold = 20, LagDuration = 1 * minute, DLQThreshold = 3, FetchErrorThreshold = 5\<rparr>,
      TopicScheduleClosed \<mapsto> \<lparr>LagThreshold = 5, LagDuration = 30 * second, DLQThreshold = 1, FetchErrorThreshold = 3\<rparr>]"

definition fallbackAlertConfig :: AlertConfig where
  "fallbackAlertConfig = \<lparr>LagThreshold = 100, LagDuration = 2 * minute, DLQThreshold = 5, FetchErrorThreshold = 10\<rparr>"

definition add_alert_config :: "(string \<rightharpoonup> AlertConfig) \<Rightarrow> (ConsumerKey \<rightharpoonup> AlertConfig) \<Rightarrow> ConsumerKey
    \<Rightarrow> (ConsumerKey \<rightharpoonup> AlertConfig) \<Rightarrow> (ConsumerKey \<rightharpoonup> AlertConfig)" where
  "add_alert_config defaults overrides key result =
     (case overrides key of Some override \<Rightarrow> result(key \<mapsto> override)
      | None \<Rightarrow> (case defaults (ck_Topic key) of Some def \<Rightarrow> result(key \<mapsto> def)
      | None \<Rightarrow> result(key \<mapsto> fallbackAlertConfig)))"

text \<open>The consumers by their topic and group.\<close>

definition BuildAlertConfigs :: "ConsumerKey list \<Rightarrow> (string \<rightharpoonup> AlertConfig) \<Rightarrow> (ConsumerKey \<rightharpoonup> AlertConfig)
    \<Rightarrow> (ConsumerKey \<rightharpoonup> AlertConfig)" where
  "BuildAlertConfigs consumers defaults overrides = fold (add_alert_config defaults overrides) consumers Map.empty"

text \<open>The overrides \<open>cmd/server/main.go\<close> passes; a field left out of the literal is zero.\<close>

definition mainOverrides :: "ConsumerKey \<rightharpoonup> AlertConfig" where
  "mainOverrides = [\<lparr>ck_Topic = TopicStreamEnded, ck_GroupID = ''vox-assembler''\<rparr> \<mapsto>
     \<lparr>LagThreshold = 50, LagDuration = 5 * minute, DLQThreshold = 3, FetchErrorThreshold = 0\<rparr>]"

section \<open>The monitor\<close>

datatype kafkaAlertLevel = AlertWarning | AlertCritical

datatype alertMessage = LagOver int int duration | DLQCount string int | FetchErrors int

record Alert =
  a_Level :: kafkaAlertLevel
  a_Topic :: string
  a_GroupID :: string
  a_Message :: alertMessage
  a_Value :: int
  a_Threshold :: int
  a_At :: instant

record monitor =
  alertConfigs :: "ConsumerKey \<rightharpoonup> AlertConfig"
  lagExceededSince :: "ConsumerKey \<rightharpoonup> instant"
  dlqCount :: "ConsumerKey \<Rightarrow> int"
  fetchErrorCount :: "ConsumerKey \<Rightarrow> int"
  fired :: "Alert list"

definition NewMonitor :: "(ConsumerKey \<rightharpoonup> AlertConfig) \<Rightarrow> monitor" where
  "NewMonitor cfgs = \<lparr>alertConfigs = cfgs, lagExceededSince = Map.empty, dlqCount = (\<lambda>_. 0), fetchErrorCount = (\<lambda>_. 0), fired = []\<rparr>"

definition fireAlert :: "Alert \<Rightarrow> monitor \<Rightarrow> monitor" where
  "fireAlert a m = m\<lparr>fired := fired m @ [a]\<rparr>"

definition lagAlert :: "string \<Rightarrow> string \<Rightarrow> int \<Rightarrow> AlertConfig \<Rightarrow> instant \<Rightarrow> Alert" where
  "lagAlert topic groupID lag cfg t =
     \<lparr>a_Level = (if LagThreshold cfg * 3 < lag then AlertCritical else AlertWarning), a_Topic = topic, a_GroupID = groupID,
      a_Message = LagOver lag (LagThreshold cfg) (LagDuration cfg), a_Value = lag, a_Threshold = LagThreshold cfg, a_At = t\<rparr>"

definition checkLagAlert :: "'k kafkaEnv \<Rightarrow> string \<Rightarrow> string \<Rightarrow> int \<Rightarrow> AlertConfig \<Rightarrow> monitor \<times> 'k \<Rightarrow> monitor \<times> 'k" where
  "checkLagAlert env topic groupID lag cfg s = (case s of (m, w) \<Rightarrow>
     let key = \<lparr>ck_Topic = topic, ck_GroupID = groupID\<rparr> in
     if LagThreshold cfg < lag then
       (case lagExceededSince m key of
          None \<Rightarrow> (case k_now env w of (t, w1) \<Rightarrow> (m\<lparr>lagExceededSince := (lagExceededSince m)(key \<mapsto> t)\<rparr>, w1))
        | Some since \<Rightarrow> (case k_now env w of (t, w1) \<Rightarrow>
            if LagDuration cfg < time_sub t since then
              (case k_now env w1 of (t1, w2) \<Rightarrow> (case k_now env w2 of (t2, w3) \<Rightarrow>
                 ((fireAlert (lagAlert topic groupID lag cfg t1) m)\<lparr>lagExceededSince := (lagExceededSince m)(key \<mapsto> t2)\<rparr>, w3)))
            else (m, w1)))
     else (m\<lparr>lagExceededSince := (lagExceededSince m)(key := None)\<rparr>, w))"

text \<open>\<open>processStats\<close>, on the lag of the reader's statistics.\<close>

definition processStats :: "'k kafkaEnv \<Rightarrow> string \<Rightarrow> int \<Rightarrow> string \<Rightarrow> monitor \<times> 'k \<Rightarrow> monitor \<times> 'k" where
  "processStats env topic lag groupID s =
     (case alertConfigs (fst s) \<lparr>ck_Topic = topic, ck_GroupID = groupID\<rparr> of
        None \<Rightarrow> s | Some cfg \<Rightarrow> checkLagAlert env topic groupID lag cfg s)"

text \<open>One tick: the consumers with the topic, the lag and the group of each.\<close>

definition collect :: "'k kafkaEnv \<Rightarrow> (string \<times> int \<times> string) list \<Rightarrow> monitor \<times> 'k \<Rightarrow> monitor \<times> 'k" where
  "collect env stats s = fold (\<lambda>(topic, lag, groupID). processStats env topic lag groupID) stats s"

fun monitor_run :: "'k kafkaEnv \<Rightarrow> (string \<times> int \<times> string) list list \<Rightarrow> monitor \<times> 'k \<Rightarrow> monitor \<times> 'k" where
  "monitor_run env [] s = s"
| "monitor_run env (stats # ticks) s = monitor_run env ticks (collect env stats s)"

definition RecordDLQ :: "'k kafkaEnv \<Rightarrow> string \<Rightarrow> string \<Rightarrow> monitor \<times> 'k \<Rightarrow> monitor \<times> 'k" where
  "RecordDLQ env topic groupID s = (case s of (m, w) \<Rightarrow>
     let key = \<lparr>ck_Topic = topic, ck_GroupID = groupID\<rparr>; n = dlqCount m key + 1;
         m1 = m\<lparr>dlqCount := (dlqCount m)(key := n)\<rparr> in
     case alertConfigs m key of None \<Rightarrow> (m1, w)
     | Some cfg \<Rightarrow>
         if DLQThreshold cfg \<le> n then
           (case k_now env w of (t, w1) \<Rightarrow>
              ((fireAlert \<lparr>a_Level = AlertCritical, a_Topic = topic, a_GroupID = groupID, a_Message = DLQCount (topic @ dlqSuffix) n,
                 a_Value = n, a_Threshold = DLQThreshold cfg, a_At = t\<rparr> m1)\<lparr>dlqCount := (dlqCount m)(key := 0)\<rparr>, w1))
         else (m1, w))"

definition RecordFetchError :: "'k kafkaEnv \<Rightarrow> string \<Rightarrow> string \<Rightarrow> monitor \<times> 'k \<Rightarrow> monitor \<times> 'k" where
  "RecordFetchError env topic groupID s = (case s of (m, w) \<Rightarrow>
     let key = \<lparr>ck_Topic = topic, ck_GroupID = groupID\<rparr> in
     case alertConfigs m key of None \<Rightarrow> (m, w)
     | Some cfg \<Rightarrow>
         let n = fetchErrorCount m key + 1; m1 = m\<lparr>fetchErrorCount := (fetchErrorCount m)(key := n)\<rparr> in
         if FetchErrorThreshold cfg \<le> n then
           (case k_now env w of (t, w1) \<Rightarrow>
              ((fireAlert \<lparr>a_Level = AlertWarning, a_Topic = topic, a_GroupID = groupID, a_Message = FetchErrors n,
                 a_Value = n, a_Threshold = FetchErrorThreshold cfg, a_At = t\<rparr> m1)\<lparr>fetchErrorCount := (fetchErrorCount m)(key := 0)\<rparr>, w1))
         else (m1, w))"

section \<open>Which configuration applies\<close>

lemma build_configs:
  "BuildAlertConfigs consumers defaults overrides key =
     (if key \<in> set consumers
      then Some (case overrides key of Some c \<Rightarrow> c | None \<Rightarrow> (case defaults (ck_Topic key) of Some c \<Rightarrow> c | None \<Rightarrow> fallbackAlertConfig))
      else None)"
proof -
  have "fold (add_alert_config defaults overrides) consumers m key =
     (if key \<in> set consumers
      then Some (case overrides key of Some c \<Rightarrow> c | None \<Rightarrow> (case defaults (ck_Topic key) of Some c \<Rightarrow> c | None \<Rightarrow> fallbackAlertConfig))
      else m key)" for m
    by (induction consumers arbitrary: m) (auto simp: add_alert_config_def split: option.splits)
  then show ?thesis by (simp add: BuildAlertConfigs_def)
qed

section \<open>Threshold counters\<close>

text \<open>
  A counter that raises an alarm when it reaches its threshold and starts again from zero: what
  \<open>RecordDLQ\<close> and \<open>RecordFetchError\<close> both are, for each consumer.
\<close>

locale threshold_counter =
  fixes step :: "'s \<Rightarrow> 's" and cnt :: "'s \<Rightarrow> int" and limit :: "'s \<Rightarrow> int option" and alarms :: "'s \<Rightarrow> nat"
  assumes limit_kept: "limit (step s) = limit s"
    and below: "limit s = Some k \<Longrightarrow> cnt s + 1 < k \<Longrightarrow> cnt (step s) = cnt s + 1 \<and> alarms (step s) = alarms s"
    and reached: "limit s = Some k \<Longrightarrow> k \<le> cnt s + 1 \<Longrightarrow> cnt (step s) = 0 \<and> alarms (step s) = Suc (alarms s)"
begin

lemma limit_run: "limit ((step ^^ n) s) = limit s"
  by (induction n) (simp_all add: limit_kept)

lemma alarms_after:
  assumes "limit s = Some k" and "cnt s = 0"
  shows "cnt ((step ^^ n) s) = int n mod max 1 k \<and> int (alarms ((step ^^ n) s)) = int (alarms s) + int n div max 1 k"
proof (induction n)
  case (Suc n)
  let ?s = "(step ^^ n) s" and ?k = "max 1 k"
  have l: "limit ?s = Some k" using assms(1) by (simp add: limit_run)
  have k: "0 < ?k" by simp
  show ?case
  proof (cases "k \<le> cnt ?s + 1")
    case True
    have m: "int n mod ?k = ?k - 1"
    proof (cases "1 \<le> k")
      case True
      then have "int n mod k < k" by simp
      moreover have "cnt ?s = int n mod k" using True Suc.IH by (simp add: max_def)
      ultimately have "int n mod k = k - 1" using \<open>k \<le> cnt ?s + 1\<close> by linarith
      then show ?thesis using True by (simp add: max_def)
    qed (simp add: max_def)
    have "?k * (int n div ?k) + int n mod ?k = int n" by (rule mult_div_mod_eq)
    then have "int (Suc n) = ?k + ?k * (int n div ?k)" using m by linarith
    then have "int (Suc n) mod ?k = 0 \<and> int (Suc n) div ?k = int n div ?k + 1"
      using k by (simp del: of_nat_Suc)
    with reached [OF l True] Suc.IH show ?thesis by simp
  next
    case False
    then have kk: "?k = k" "0 \<le> int n mod ?k" "int n mod ?k + 1 < ?k"
      using Suc.IH pos_mod_sign [OF k, of "int n"] by (auto simp: max_def split: if_splits)
    have e: "int (Suc n) = ?k * (int n div ?k) + (int n mod ?k + 1)" by (simp add: algebra_simps)
    have d: "int (Suc n) div ?k = int n div ?k"
      by (rule int_div_pos_eq [OF e]) (use kk in auto)
    moreover have "int (Suc n) mod ?k = int n mod ?k + 1"
      using e mult_div_mod_eq [of ?k "int (Suc n)"] unfolding d by linarith
    ultimately show ?thesis using below [OF l] False Suc.IH by simp
  qed
qed (use assms(2) in auto)

end

definition config_of :: "(AlertConfig \<Rightarrow> int) \<Rightarrow> string \<Rightarrow> string \<Rightarrow> monitor \<times> 'k \<Rightarrow> int option" where
  "config_of f topic groupID s = map_option f (alertConfigs (fst s) \<lparr>ck_Topic = topic, ck_GroupID = groupID\<rparr>)"

interpretation dlq_counter: threshold_counter "RecordDLQ env topic groupID"
    "\<lambda>s. dlqCount (fst s) \<lparr>ck_Topic = topic, ck_GroupID = groupID\<rparr>" "config_of DLQThreshold topic groupID"
    "\<lambda>s. length (fired (fst s))" for env topic groupID
  by unfold_locales
    (auto simp: RecordDLQ_def config_of_def fireAlert_def Let_def split: prod.splits option.splits)

interpretation fetch_counter: threshold_counter "RecordFetchError env topic groupID"
    "\<lambda>s. fetchErrorCount (fst s) \<lparr>ck_Topic = topic, ck_GroupID = groupID\<rparr>" "config_of FetchErrorThreshold topic groupID"
    "\<lambda>s. length (fired (fst s))" for env topic groupID
  by unfold_locales
    (auto simp: RecordFetchError_def config_of_def fireAlert_def Let_def split: prod.splits option.splits)

text \<open>The alerts of a consumer under the configurations built by the server.  After \<open>n\<close> dead letters
  there are \<open>n div k\<close> alerts for its threshold \<open>k\<close>, and after \<open>n\<close> failed fetches \<open>n div k\<close> for that one;
  the fetch count is never reset by a success, although the alert says "consecutive".  The override of
  the assembler's consumer leaves its fetch threshold zero, so that every failed fetch raises an alert.\<close>

theorem threshold_alerts:
  assumes "\<lparr>ck_Topic = topic, ck_GroupID = groupID\<rparr> \<in> set consumers"
    and "mon = NewMonitor (BuildAlertConfigs consumers DefaultAlertConfigs mainOverrides)"
    and "cfg = (if topic = TopicStreamEnded \<and> groupID = ''vox-assembler''
           then \<lparr>LagThreshold = 50, LagDuration = 5 * minute, DLQThreshold = 3, FetchErrorThreshold = 0\<rparr>
           else case DefaultAlertConfigs topic of Some c \<Rightarrow> c | None \<Rightarrow> fallbackAlertConfig)"
  shows "int (length (fired (fst ((RecordDLQ env topic groupID ^^ n) (mon, w))))) = int n div DLQThreshold cfg
    \<and> int (length (fired (fst ((RecordFetchError env topic groupID ^^ n) (mon, w))))) = int n div max 1 (FetchErrorThreshold cfg)
    \<and> (topic = TopicStreamEnded \<and> groupID = ''vox-assembler'' \<longrightarrow>
        length (fired (fst ((RecordFetchError env topic groupID ^^ n) (mon, w)))) = n)"
proof -
  let ?key = "\<lparr>ck_Topic = topic, ck_GroupID = groupID\<rparr>"
  have c: "alertConfigs mon ?key = Some cfg"
    using assms(1) by (auto simp: assms(2,3) NewMonitor_def build_configs mainOverrides_def)
  have pos: "1 \<le> DLQThreshold cfg"
    by (auto simp: assms(3) DefaultAlertConfigs_def fallbackAlertConfig_def split: if_splits)
  have z: "dlqCount mon ?key = 0" "fetchErrorCount mon ?key = 0" "fired mon = []"
    by (simp_all add: assms(2) NewMonitor_def)
  have d: "int (length (fired (fst ((RecordDLQ env topic groupID ^^ n) (mon, w))))) = int n div max 1 (DLQThreshold cfg)"
    using dlq_counter.alarms_after [where s = "(mon, w)" and k = "DLQThreshold cfg" and n = n and env = env and topic = topic and groupID = groupID] c z
    by (simp add: config_of_def)
  have f: "int (length (fired (fst ((RecordFetchError env topic groupID ^^ n) (mon, w))))) = int n div max 1 (FetchErrorThreshold cfg)"
    using fetch_counter.alarms_after [where s = "(mon, w)" and k = "FetchErrorThreshold cfg" and n = n and env = env and topic = topic and groupID = groupID] c z
    by (simp add: config_of_def)
  have "length (fired (fst ((RecordFetchError env topic groupID ^^ n) (mon, w)))) = n"
    if "topic = TopicStreamEnded \<and> groupID = ''vox-assembler''"
    using f that by (simp add: assms(3))
  with d f pos show ?thesis by (simp add: max_def)
qed

theorem threshold_alerts_witness:
  "length (fired (fst ((RecordFetchError demo_kafka TopicStreamEnded ''vox-assembler'' ^^ 7)
     (NewMonitor (BuildAlertConfigs [\<lparr>ck_Topic = TopicStreamEnded, ck_GroupID = ''vox-assembler''\<rparr>] DefaultAlertConfigs mainOverrides),
      ([], 0))))) = 7"
  using threshold_alerts [OF _ refl refl, where topic = TopicStreamEnded and groupID = "''vox-assembler''" and n = 7
      and consumers = "[\<lparr>ck_Topic = TopicStreamEnded, ck_GroupID = ''vox-assembler''\<rparr>]" and env = demo_kafka and w = "([], 0)"] by simp

section \<open>Lag alerts\<close>

fun lag_run :: "'k kafkaEnv \<Rightarrow> string \<Rightarrow> string \<Rightarrow> AlertConfig \<Rightarrow> int list \<Rightarrow> monitor \<times> 'k \<Rightarrow> monitor \<times> 'k" where
  "lag_run env topic groupID cfg [] s = s"
| "lag_run env topic groupID cfg (lag # lags) s = lag_run env topic groupID cfg lags (checkLagAlert env topic groupID lag cfg s)"

text \<open>Alerts further apart than the duration, and the last of them before the start of the current count.\<close>

definition lag_inv :: "duration \<Rightarrow> ('k \<Rightarrow> instant) \<Rightarrow> ConsumerKey \<Rightarrow> monitor \<times> 'k \<Rightarrow> bool" where
  "lag_inv d tm key s \<longleftrightarrow>
     sorted_wrt (\<lambda>a b. a_At a + d < a_At b) (fired (fst s))
   \<and> (\<forall>a \<in> set (fired (fst s)). a_At a \<le> tm (snd s))
   \<and> (case lagExceededSince (fst s) key of Some u \<Rightarrow> u \<le> tm (snd s) \<and> (\<forall>a \<in> set (fired (fst s)). a_At a \<le> u) | None \<Rightarrow> True)"

lemma time_sub_over: "0 \<le> d \<Longrightarrow> d < time_sub t u \<Longrightarrow> u + d < t"
  by (auto simp: time_sub_def max_dur_def min_dur_def split: if_splits)

lemma lag_step:
  assumes "clock_doc env tm" and "0 \<le> LagDuration cfg" and "lag_inv (LagDuration cfg) tm \<lparr>ck_Topic = topic, ck_GroupID = groupID\<rparr> s"
  shows "lag_inv (LagDuration cfg) tm \<lparr>ck_Topic = topic, ck_GroupID = groupID\<rparr> (checkLagAlert env topic groupID lag cfg s)"
proof -
  let ?key = "\<lparr>ck_Topic = topic, ck_GroupID = groupID\<rparr>"
  obtain m w where s: "s = (m, w)" by (cases s)
  obtain t w1 t1 w2 t2 w3 where t: "k_now env w = (t, w1)" "k_now env w1 = (t1, w2)" "k_now env w2 = (t2, w3)" by (metis surj_pair)
  have le: "tm w \<le> t" "t \<le> tm w1" "tm w1 \<le> t1" "t1 \<le> tm w2" "tm w2 \<le> t2" "t2 \<le> tm w3"
    using clock_mono(5) [OF assms(1) t(1)] clock_mono(5) [OF assms(1) t(2)] clock_mono(5) [OF assms(1) t(3)] by auto
  note i = assms(3) [unfolded lag_inv_def s, simplified]
  show ?thesis
  proof (cases "LagThreshold cfg < lag")
    case False
    then show ?thesis using i by (simp add: checkLagAlert_def s lag_inv_def)
  next
    case True
    show ?thesis
    proof (cases "lagExceededSince m ?key")
      case None
      have "\<forall>a \<in> set (fired m). a_At a \<le> t" using i le by force
      then show ?thesis using True None i t(1) le by (force simp: checkLagAlert_def s lag_inv_def)
    next
      case (Some u)
      show ?thesis
      proof (cases "LagDuration cfg < time_sub t u")
        case False
        then show ?thesis using True Some i t(1) le by (force simp: checkLagAlert_def s lag_inv_def)
      next
        case over: True
        have u: "u + LagDuration cfg < t" by (rule time_sub_over [OF assms(2) over])
        have b: "\<forall>a \<in> set (fired m). a_At a \<le> u" using i Some by simp
        have "\<forall>a \<in> set (fired m). a_At a + LagDuration cfg < t1" using b u le by force
        moreover have "\<forall>a \<in> set (fired m). a_At a \<le> t2" using b u le assms(2) by force
        ultimately show ?thesis using True Some over i t le
          by (force simp: checkLagAlert_def s lag_inv_def fireAlert_def lagAlert_def sorted_wrt_append)
      qed
    qed
  qed
qed

text \<open>Lag alerts of a consumer.  Whatever lags the monitor reads, two alerts are always further apart than
  the configured duration; a first reading over the threshold never raises one; and a reading at or
  below the threshold raises none and clears the count.\<close>

theorem lag_alerts_spaced:
  assumes "clock_doc env tm" and "0 \<le> LagDuration cfg"
  shows "sorted_wrt (\<lambda>a b. a_At a + LagDuration cfg < a_At b) (fired (fst (lag_run env topic groupID cfg lags (NewMonitor cfgs, w))))
    \<and> fired (fst (lag_run env topic groupID cfg [lag] (NewMonitor cfgs, w))) = []
    \<and> (lag \<le> LagThreshold cfg \<longrightarrow>
        fired (fst (checkLagAlert env topic groupID lag cfg s)) = fired (fst s)
      \<and> lagExceededSince (fst (checkLagAlert env topic groupID lag cfg s)) \<lparr>ck_Topic = topic, ck_GroupID = groupID\<rparr> = None)"
proof -
  let ?key = "\<lparr>ck_Topic = topic, ck_GroupID = groupID\<rparr>"
  have "lag_inv (LagDuration cfg) tm ?key (lag_run env topic groupID cfg lags s)"
    if "lag_inv (LagDuration cfg) tm ?key s" for s
    using that
  proof (induction lags arbitrary: s)
    case (Cons lag lags)
    show ?case using Cons.IH [OF lag_step [OF assms Cons.prems]] by simp
  qed simp
  moreover have "lag_inv (LagDuration cfg) tm ?key (NewMonitor cfgs, w)" by (simp add: lag_inv_def NewMonitor_def)
  ultimately have "sorted_wrt (\<lambda>a b. a_At a + LagDuration cfg < a_At b) (fired (fst (lag_run env topic groupID cfg lags (NewMonitor cfgs, w))))"
    by (auto simp: lag_inv_def)
  moreover have "fired (fst (lag_run env topic groupID cfg [lag] (NewMonitor cfgs, w))) = []"
    by (simp add: checkLagAlert_def NewMonitor_def Let_def split: prod.splits)
  moreover have "lag \<le> LagThreshold cfg \<longrightarrow> fired (fst (checkLagAlert env topic groupID lag cfg s)) = fired (fst s)
      \<and> lagExceededSince (fst (checkLagAlert env topic groupID lag cfg s)) ?key = None"
    by (simp add: checkLagAlert_def split_beta)
  ultimately show ?thesis by blast
qed

theorem lag_alerts_spaced_witness:
  "sorted_wrt (\<lambda>a b. a_At a + LagDuration fallbackAlertConfig < a_At b)
     (fired (fst (lag_run demo_kafka ''t'' ''g'' fallbackAlertConfig [200, 500] (NewMonitor Map.empty, ([], 0)))))
   \<and> fired (fst (checkLagAlert demo_kafka ''t'' ''g'' 100 fallbackAlertConfig (NewMonitor Map.empty, ([], 0)))) = []"
  using lag_alerts_spaced [OF demo_clock_doc, of fallbackAlertConfig "''t''" "''g''" "[200, 500]" Map.empty "([], 0)" 100
      "(NewMonitor Map.empty, ([], 0))"]
  by (simp add: fallbackAlertConfig_def minute_def second_def NewMonitor_def)

end
