(* ===== verification/Consumer.thy ===== *)
theory Consumer
  imports Monitor
begin

text \<open>
  \<open>internal/infrastructure/queue\<close>: \<open>dlq.go\<close> and \<open>consumer.go\<close>.  A message handler, the reader's
  commit and the state of the caller's context are parameters; the loop takes the list of what the
  reader fetches.  Errors are their texts.  Logs that only properties speak of are part of the state:
  what became of each message (\<open>cevent\<close>) and what the retry loop did (\<open>retryEvent\<close>).
\<close>

section \<open>Classification of errors\<close>

definition contains :: "string \<Rightarrow> string list \<Rightarrow> bool" where
  "contains s subs = list_ex (\<lambda>sub. list_ex (\<lambda>i. take (length sub) (drop i s) = sub) [0..<Suc (length s) - length sub]) subs"

definition classifyError :: "string option \<Rightarrow> string" where
  "classifyError err = (case err of None \<Rightarrow> ''unknown'' | Some msg \<Rightarrow>
     if contains msg [''unmarshal'', ''invalid'', ''syntax'', ''json''] then ''deserialization_error''
     else if contains msg [''timeout'', ''deadline'', ''context''] then ''timeout_error''
     else if contains msg [''connection'', ''dial'', ''network'', ''refused''] then ''network_error''
     else if contains msg [''not found'', ''404''] then ''not_found_error''
     else if contains msg [''unauthorized'', ''forbidden'', ''401'', ''403''] then ''auth_error''
     else ''processing_error'')"

section \<open>Dead letters\<close>

record DLQMessage =
  dl_FailedAt :: instant
  dl_Reason :: string
  dl_ErrorDetail :: string
  dl_AttemptCount :: int
  dl_OriginalTopic :: string
  dl_OriginalPartition :: int
  dl_OriginalOffset :: int
  dl_OriginalKey :: string
  dl_OriginalPayload :: kvalue
  dl_OriginalHeaders :: "(string \<times> string) list"
  dl_ConsumerGroup :: string

text \<open>\<open>json.RawMessage\<close>: nil is written as null; bytes that are no JSON document are an error.\<close>

definition enc_raw :: "kvalue \<Rightarrow> json option" where
  "enc_raw v = (case v of None \<Rightarrow> Some JNull | Some (Doc j) \<Rightarrow> Some j | Some (Txt _) \<Rightarrow> None)"

definition enc_headers :: "(string \<times> string) list \<Rightarrow> (string \<times> json) list" where
  "enc_headers hs = (if hs = [] then [] else [(''originalHeaders'', JObj (map (\<lambda>(k, v). (k, JStr v)) hs))])"

definition enc_dlq :: "DLQMessage \<Rightarrow> json option" where
  "enc_dlq d = map_option (\<lambda>payload. JObj ([(''failedAt'', JTime (dl_FailedAt d)), (''reason'', JStr (dl_Reason d)),
      (''errorDetail'', JStr (dl_ErrorDetail d)), (''attemptCount'', JNum (dl_AttemptCount d)),
      (''originalTopic'', JStr (dl_OriginalTopic d)), (''originalPartition'', JNum (dl_OriginalPartition d)),
      (''originalOffset'', JNum (dl_OriginalOffset d)), (''originalKey'', JStr (dl_OriginalKey d)),
      (''originalPayload'', payload)]
     @ enc_headers (dl_OriginalHeaders d) @ [(''consumerGroup'', JStr (dl_ConsumerGroup d))])) (enc_raw (dl_OriginalPayload d))"

fun dec_header_list :: "(string \<times> json) list \<Rightarrow> (string \<times> string) list option" where
  "dec_header_list [] = Some []"
| "dec_header_list ((k, v) # kvs) =
     (case (v, dec_header_list kvs) of (JStr s, Some hs) \<Rightarrow> Some ((k, s) # hs)
      | (JNull, Some hs) \<Rightarrow> Some ((k, []) # hs) | _ \<Rightarrow> None)"

definition dec_headers :: "json \<Rightarrow> (string \<times> string) list option" where
  "dec_headers j = (case jget ''originalHeaders'' j of None \<Rightarrow> Some [] | Some JNull \<Rightarrow> Some []
     | Some (JObj kvs) \<Rightarrow> dec_header_list kvs | _ \<Rightarrow> None)"

text \<open>A raw field takes any value, the literal null included.  Only an object (or null) decodes.\<close>

definition dec_dlq :: "json \<Rightarrow> DLQMessage option" where
  "dec_dlq j = (case j of JObj _ \<Rightarrow>
      (case (dec_time ''failedAt'' j, dec_str ''reason'' j, dec_str ''errorDetail'' j, dec_int ''attemptCount'' j) of
         (Some t, Some r, Some e, Some a) \<Rightarrow>
      (case (dec_str ''originalTopic'' j, dec_int ''originalPartition'' j, dec_int ''originalOffset'' j, dec_str ''originalKey'' j) of
         (Some tp, Some p, Some off, Some k) \<Rightarrow>
      (case (dec_headers j, dec_str ''consumerGroup'' j) of
         (Some hs, Some g) \<Rightarrow>
           Some \<lparr>dl_FailedAt = t, dl_Reason = r, dl_ErrorDetail = e, dl_AttemptCount = a, dl_OriginalTopic = tp,
             dl_OriginalPartition = p, dl_OriginalOffset = off, dl_OriginalKey = k,
             dl_OriginalPayload = map_option Doc (jget ''originalPayload'' j), dl_OriginalHeaders = hs, dl_ConsumerGroup = g\<rparr>
       | _ \<Rightarrow> None) | _ \<Rightarrow> None) | _ \<Rightarrow> None)
    | JNull \<Rightarrow> Some \<lparr>dl_FailedAt = zero_time, dl_Reason = [], dl_ErrorDetail = [], dl_AttemptCount = 0, dl_OriginalTopic = [],
        dl_OriginalPartition = 0, dl_OriginalOffset = 0, dl_OriginalKey = [], dl_OriginalPayload = None,
        dl_OriginalHeaders = [], dl_ConsumerGroup = []\<rparr>
    | _ \<Rightarrow> None)"

record DLQWriter =
  dw_writers :: "string \<rightharpoonup> writer"
  dw_groupID :: string

text \<open>\<open>kafka.RequireAll\<close> is -1; no writer gets a \<open>Transport\<close> or a \<open>Balancer\<close>.\<close>

definition dlqTopicWriter :: "string \<Rightarrow> writer" where
  "dlqTopicWriter topic =
     \<lparr>wr_Topic = topic @ dlqSuffix, wr_Transport = plaintext, wr_HashBalancer = False, wr_BatchSize = 1, wr_BatchTimeout = 0,
      wr_Async = False, wr_RequiredAcks = - 1, wr_MaxAttempts = 10\<rparr>"

definition NewDLQWriter :: "Config \<Rightarrow> string list \<Rightarrow> DLQWriter" where
  "NewDLQWriter cfg topics =
     \<lparr>dw_writers = (\<lambda>t. if t \<in> set topics then Some (dlqTopicWriter t) else None), dw_groupID = kc_GroupID cfg\<rparr>"

datatype dlqError = NoDLQWriter string | DLQMarshalFailed | DLQWriteFailed writeError

text \<open>A later header of the same name overwrites an earlier one.\<close>

definition header_map :: "(string \<times> string) list \<Rightarrow> (string \<times> string) list" where
  "header_map hs = fold (\<lambda>(k, v). AList.update k v) hs []"

definition dlqMessageOf :: "DLQWriter \<Rightarrow> kmsg \<Rightarrow> string \<Rightarrow> int \<Rightarrow> instant \<Rightarrow> DLQMessage" where
  "dlqMessageOf d msg handlerErr attempts t =
     \<lparr>dl_FailedAt = t, dl_Reason = classifyError (Some handlerErr), dl_ErrorDetail = handlerErr, dl_AttemptCount = attempts,
      dl_OriginalTopic = km_Topic msg, dl_OriginalPartition = km_Partition msg, dl_OriginalOffset = km_Offset msg,
      dl_OriginalKey = km_Key msg, dl_OriginalPayload = km_Value msg, dl_OriginalHeaders = header_map (km_Headers msg),
      dl_ConsumerGroup = dw_groupID d\<rparr>"

text \<open>On success the result is the message that was written.\<close>

definition DLQSend :: "'k kafkaEnv \<Rightarrow> DLQWriter \<Rightarrow> kctx \<Rightarrow> kmsg \<Rightarrow> string \<Rightarrow> int \<Rightarrow> 'k \<Rightarrow> (dlqError + kmsg) \<times> 'k" where
  "DLQSend env d ctx msg handlerErr attempts w =
     (case dw_writers d (km_Topic msg) of
        None \<Rightarrow> (Inl (NoDLQWriter (km_Topic msg)), w)
      | Some wr \<Rightarrow> (case k_now env w of (t, w1) \<Rightarrow>
          let dlqMsg = dlqMessageOf d msg handlerErr attempts t in
          (case enc_dlq dlqMsg of
             None \<Rightarrow> (Inl DLQMarshalFailed, w1)
           | Some data \<Rightarrow>
               let out = \<lparr>km_Topic = [], km_Partition = 0, km_Offset = 0, km_Key = km_Key msg, km_Value = Some (Doc data),
                 km_Headers = [(''dlq-reason'', dl_Reason dlqMsg), (''dlq-original-topic'', km_Topic msg),
                   (''dlq-failed-at'', k_rfc3339 env t)]\<rparr> in
               (case k_write env (WithTimeout ctx (10 * second)) wr out w1 of
                  (Some e, w2) \<Rightarrow> (Inl (DLQWriteFailed e), w2)
                | (None, w2) \<Rightarrow> (Inr out, w2)))))"

section \<open>Replay\<close>

text \<open>What the reader gives: a message, the end of the context, or another error.\<close>

datatype replayFetch = Fetched kmsg | FetchCancelled | FetchFailed string

datatype replayError = ReplayFetch string | ReplayPublish publishError

text \<open>
  \<open>ReplayToOriginalTopic\<close> over what the reader fetches, which ends the loop when it is used up.
  A commit whose error the code drops has no effect on it.
\<close>

fun replay :: "'k kafkaEnv \<Rightarrow> kctx \<Rightarrow> (DLQMessage \<Rightarrow> bool) option \<Rightarrow> replayFetch list \<Rightarrow> int \<Rightarrow> int \<Rightarrow> Publisher \<times> 'k
    \<Rightarrow> (int \<times> int \<times> replayError option \<times> Publisher \<times> 'k) option" where
  "replay env ctx filt [] replayed skipped s = Some (replayed, skipped, None, s)"
| "replay env ctx filt (FetchCancelled # fs) replayed skipped s = Some (replayed, skipped, None, s)"
| "replay env ctx filt (FetchFailed e # fs) replayed skipped s = Some (replayed, skipped, Some (ReplayFetch e), s)"
| "replay env ctx filt (Fetched raw # fs) replayed skipped s =
     (case Option.bind (Option.bind (km_Value raw) as_json) dec_dlq of
        None \<Rightarrow> replay env ctx filt fs replayed (skipped + 1) s
      | Some dlqMsg \<Rightarrow>
          if (case filt of None \<Rightarrow> False | Some f \<Rightarrow> \<not> f dlqMsg) then replay env ctx filt fs replayed (skipped + 1) s
          else Option.bind (publish env (WithTimeout ctx (5 * second)) (dl_OriginalTopic dlqMsg) (dl_OriginalKey dlqMsg)
                 (enc_raw (dl_OriginalPayload dlqMsg)) s) (\<lambda>(r, s1).
               case r of Inl e \<Rightarrow> Some (replayed, skipped, Some (ReplayPublish e), s1)
               | Inr _ \<Rightarrow> replay env ctx filt fs (replayed + 1) skipped s1))"

definition ReplayToOriginalTopic :: "'k kafkaEnv \<Rightarrow> kctx \<Rightarrow> (DLQMessage \<Rightarrow> bool) option \<Rightarrow> replayFetch list \<Rightarrow> Publisher \<times> 'k
    \<Rightarrow> (int \<times> int \<times> replayError option \<times> Publisher \<times> 'k) option" where
  "ReplayToOriginalTopic env ctx filt fs s = replay env ctx filt fs 0 0 s"

section \<open>The consumer\<close>

record ConsumerOptions =
  o_MaxRetries :: int
  o_RetryDelay :: duration
  o_DLQ :: "DLQWriter option"
  o_CommitOnDLQFailure :: bool
  o_MaxDLQFails :: int

record consumer =
  c_topic :: string
  c_groupID :: string
  c_dlq :: "DLQWriter option"
  maxRetries :: int
  retryDelay :: duration
  commitOnDLQFailure :: bool
  dlqFailCount :: int
  lastFailOffset :: int
  maxDLQFails :: int

definition NewConsumer :: "Config \<Rightarrow> string \<Rightarrow> ConsumerOptions option \<Rightarrow> consumer" where
  "NewConsumer cfg topic opts =
     \<lparr>c_topic = topic, c_groupID = kc_GroupID cfg, c_dlq = Option.bind opts o_DLQ,
      maxRetries = (case opts of Some o' \<Rightarrow> if 0 < o_MaxRetries o' then o_MaxRetries o' else 3 | None \<Rightarrow> 3),
      retryDelay = (case opts of Some o' \<Rightarrow> if 0 < o_RetryDelay o' then o_RetryDelay o' else 500 * millisecond
        | None \<Rightarrow> 500 * millisecond),
      commitOnDLQFailure = (case opts of Some o' \<Rightarrow> o_CommitOnDLQFailure o' | None \<Rightarrow> False),
      dlqFailCount = 0, lastFailOffset = 0,
      maxDLQFails = (case opts of Some o' \<Rightarrow> o_MaxDLQFails o' | None \<Rightarrow> 0)\<rparr>"

record 'k consumerEnv =
  ce_kafka :: "'k kafkaEnv"
  ce_handler :: "kmsg \<Rightarrow> 'k \<Rightarrow> string option \<times> 'k"
  ce_ctxErr :: "'k \<Rightarrow> string option \<times> 'k"
  ce_commit :: "kmsg \<Rightarrow> 'k \<Rightarrow> bool \<times> 'k"

datatype retryEvent = Called "string option" | Paused duration

text \<open>\<open>c.retryDelay * time.Duration(1<<uint(attempt-2))\<close> in 64-bit arithmetic.\<close>

definition retry_pause :: "duration \<Rightarrow> int \<Rightarrow> duration" where
  "retry_pause d attempt = sint (word_of_int d * push_bit (nat (attempt - 2)) 1 :: 64 word)"

definition attempts_failed :: "int \<Rightarrow> string \<Rightarrow> string" where
  "attempts_failed n lastErr = ''all '' @ Itoa n @ '' handler attepts failed: '' @ lastErr"

function retry_from :: "'k consumerEnv \<Rightarrow> consumer \<Rightarrow> kmsg \<Rightarrow> int \<Rightarrow> string \<Rightarrow> 'k
    \<Rightarrow> (string option \<times> int) \<times> retryEvent list \<times> 'k" where
  "retry_from env c msg attempt lastErr w =
     (if maxRetries c + 1 < attempt then ((Some (attempts_failed (maxRetries c + 1) lastErr), maxRetries c + 1), [], w)
      else
        let pause = retry_pause (retryDelay c) attempt;
            (waited, w1) = (if 1 < attempt then k_wait (ce_kafka env) CallerCtx pause w else (True, w));
            paused = (if 1 < attempt then [Paused pause] else [])
        in if \<not> waited then (case ce_ctxErr env w1 of (e, w2) \<Rightarrow> ((e, attempt), paused, w2))
           else (case ce_handler env msg w1 of
             (None, w2) \<Rightarrow> ((None, attempt), paused @ [Called None], w2)
           | (Some err, w2) \<Rightarrow> (case retry_from env c msg (attempt + 1) err w2 of
               (r, evs, w3) \<Rightarrow> (r, paused @ Called (Some err) # evs, w3))))"
  by pat_completeness auto
termination
  by (relation "measure (\<lambda>(env, c, msg, attempt, lastErr, w). nat (maxRetries c + 2 - attempt))") auto

declare retry_from.simps [simp del]

definition handleWithRetry :: "'k consumerEnv \<Rightarrow> consumer \<Rightarrow> kmsg \<Rightarrow> 'k \<Rightarrow> (string option \<times> int) \<times> retryEvent list \<times> 'k" where
  "handleWithRetry env c msg w = retry_from env c msg 1 [] w"

text \<open>What became of a message: handled, dead-lettered as the given message, given up without a dead-letter
  queue, given up by force, or neither handled nor stored; and the commits.\<close>

datatype cevent = Handled kmsg | DeadLettered kmsg kmsg | NoDLQ kmsg | PoisonForced kmsg | Unsaved kmsg
  | Committed kmsg bool | FetchErr

record 'k cstate =
  cs_consumer :: consumer
  cs_monitor :: "monitor option"
  cs_world :: 'k
  cs_log :: "cevent list"

definition logged :: "cevent \<Rightarrow> 'k cstate \<Rightarrow> 'k cstate" where "logged e s = s\<lparr>cs_log := cs_log s @ [e]\<rparr>"

text \<open>A call on the monitor, if there is one.\<close>

definition on_monitor :: "(monitor \<times> 'k \<Rightarrow> monitor \<times> 'k) \<Rightarrow> 'k cstate \<Rightarrow> 'k cstate" where
  "on_monitor f s = (case cs_monitor s of None \<Rightarrow> s | Some m \<Rightarrow>
     (case f (m, cs_world s) of (m1, w1) \<Rightarrow> s\<lparr>cs_monitor := Some m1, cs_world := w1\<rparr>))"

text \<open>After a dead letter could not be written: the count of failures on one offset.\<close>

definition dlq_failed :: "kmsg \<Rightarrow> 'k cstate \<Rightarrow> bool \<times> 'k cstate" where
  "dlq_failed msg s =
     (let c = cs_consumer s;
          c1 = (if km_Offset msg \<noteq> lastFailOffset c then c\<lparr>dlqFailCount := 0, lastFailOffset := km_Offset msg\<rparr> else c);
          c2 = c1\<lparr>dlqFailCount := dlqFailCount c1 + 1\<rparr>
      in if 0 < maxDLQFails c2 \<and> maxDLQFails c2 \<le> dlqFailCount c2
         then (True, logged (PoisonForced msg) (s\<lparr>cs_consumer := c2\<lparr>dlqFailCount := 0\<rparr>\<rparr>))
         else (False, logged (Unsaved msg) (s\<lparr>cs_consumer := c2\<rparr>)))"

definition processMessage :: "'k consumerEnv \<Rightarrow> kmsg \<Rightarrow> 'k cstate \<Rightarrow> bool \<times> 'k cstate" where
  "processMessage env msg s =
     (let c = cs_consumer s in
      case handleWithRetry env c msg (cs_world s) of ((herr, attempts), evs, w1) \<Rightarrow>
        (case herr of
           None \<Rightarrow> (True, logged (Handled msg) (s\<lparr>cs_world := w1\<rparr>))
         | Some err \<Rightarrow>
             (case c_dlq c of
                None \<Rightarrow> (True, logged (NoDLQ msg) (s\<lparr>cs_world := w1\<rparr>))
              | Some d \<Rightarrow>
                  (case DLQSend (ce_kafka env) d CallerCtx msg err attempts w1 of
                     (Inl _, w2) \<Rightarrow> dlq_failed msg (s\<lparr>cs_world := w2\<rparr>)
                   | (Inr out, w2) \<Rightarrow>
                       (True, on_monitor (RecordDLQ (ce_kafka env) (c_topic c) (c_groupID c))
                                (logged (DeadLettered msg out) (s\<lparr>cs_world := w2\<rparr>)))))))"

datatype fetch = Message kmsg | FetchError

fun consumer_run :: "'k consumerEnv \<Rightarrow> fetch list \<Rightarrow> 'k cstate \<Rightarrow> 'k cstate" where
  "consumer_run env [] s = s"
| "consumer_run env (FetchError # fs) s =
     (case ce_ctxErr env (cs_world s) of
        (Some _, w1) \<Rightarrow> s\<lparr>cs_world := w1\<rparr>
      | (None, w1) \<Rightarrow>
          (let s1 = on_monitor (RecordFetchError (ce_kafka env) (c_topic (cs_consumer s)) (c_groupID (cs_consumer s)))
                      (logged FetchErr (s\<lparr>cs_world := w1\<rparr>))
           in case k_wait (ce_kafka env) CallerCtx (2 * second) (cs_world s1) of
             (waited, w2) \<Rightarrow> if waited then consumer_run env fs (s1\<lparr>cs_world := w2\<rparr>) else s1\<lparr>cs_world := w2\<rparr>))"
| "consumer_run env (Message msg # fs) s =
     (case processMessage env msg s of (safe, s1) \<Rightarrow>
        if safe \<or> commitOnDLQFailure (cs_consumer s1)
        then (case ce_commit env msg (cs_world s1) of (ok, w2) \<Rightarrow>
           let s2 = logged (Committed msg ok) (s1\<lparr>cs_world := w2\<rparr>) in
           if ok then consumer_run env fs s2
           else (case ce_ctxErr env w2 of (e, w3) \<Rightarrow>
             if e = None then consumer_run env fs (s2\<lparr>cs_world := w3\<rparr>) else s2\<lparr>cs_world := w3\<rparr>))
        else consumer_run env fs s1)"

definition previewBytes :: "string \<Rightarrow> nat \<Rightarrow> string" where
  "previewBytes b maxLen =
     (if length b \<le> maxLen then b else take maxLen b @ ''... ['' @ Itoa (int (length b)) @ '' bytes total]'')"

section \<open>Classification against \<open>strings.Contains\<close>\<close>

lemma contains_iff: "contains s subs \<longleftrightarrow> (\<exists>sub \<in> set subs. Contains s sub)"
proof -
  have "(\<exists>i \<in> set [0..<Suc (length s) - length sub]. take (length sub) (drop i s) = sub) \<longleftrightarrow> sublist sub s" for sub
  proof
    assume "\<exists>i \<in> set [0..<Suc (length s) - length sub]. take (length sub) (drop i s) = sub"
    then obtain i where "take (length sub) (drop i s) = sub" by blast
    then have "s = take i s @ sub @ drop (length sub) (drop i s)" by (metis append_take_drop_id)
    then show "sublist sub s" by (metis sublist_appendI)
  next
    assume "sublist sub s"
    then obtain ps ss where s: "s = ps @ sub @ ss" by (auto simp: sublist_def)
    then show "\<exists>i \<in> set [0..<Suc (length s) - length sub]. take (length sub) (drop i s) = sub"
      by (intro bexI [of _ "length ps"]) auto
  qed
  then show ?thesis by (simp add: contains_def list_ex_iff)
qed

text \<open>The classes in the order of the \<open>switch\<close>.\<close>

definition error_classes :: "(string \<times> string list) list" where
  "error_classes =
    [(''deserialization_error'', [''unmarshal'', ''invalid'', ''syntax'', ''json'']),
     (''timeout_error'', [''timeout'', ''deadline'', ''context'']),
     (''network_error'', [''connection'', ''dial'', ''network'', ''refused'']),
     (''not_found_error'', [''not found'', ''404'']),
     (''auth_error'', [''unauthorized'', ''forbidden'', ''401'', ''403''])]"

text \<open>The hand-written substring search is \<open>strings.Contains\<close>, also for patterns longer than the text and
  empty ones, and an error is classified by the first class of the table one of whose words occurs in
  its text, as a processing error when there is none.\<close>

theorem classify_reference:
  "contains s subs = list_ex (Contains s) subs
   \<and> classifyError (Some msg) =
     (case find (\<lambda>(_, subs). list_ex (Contains msg) subs) error_classes of
        Some (reason, _) \<Rightarrow> reason | None \<Rightarrow> ''processing_error'')"
proof -
  have "contains s subs = list_ex (Contains s) subs" for s subs
    by (simp add: contains_iff list_ex_iff)
  then show ?thesis
    by (simp only: classifyError_def error_classes_def find.simps case_prod_conv option.case)
      (simp only: if_distrib [of "case_option _ _"] option.case prod.case)
qed

section \<open>Retrying\<close>

definition pauses :: "retryEvent list \<Rightarrow> duration list" where
  "pauses evs = List.map_filter (\<lambda>e. case e of Paused d \<Rightarrow> Some d | _ \<Rightarrow> None) evs"

definition calls :: "retryEvent list \<Rightarrow> string option list" where
  "calls evs = List.map_filter (\<lambda>e. case e of Called r \<Rightarrow> Some r | _ \<Rightarrow> None) evs"

lemma retry_log_simps [simp]:
  "pauses [] = []" "pauses (Paused d # evs) = d # pauses evs" "pauses (Called r # evs) = pauses evs"
  "calls [] = []" "calls (Paused d # evs) = calls evs" "calls (Called r # evs) = r # calls evs"
  by (simp_all add: pauses_def calls_def List.map_filter_def)

text \<open>As long as the products fit into 64 bits the pause doubles.\<close>

lemma retry_pause_exact:
  assumes "2 \<le> attempt" and "0 \<le> d" and "d * 2 ^ nat (attempt - 2) < 2 ^ 63"
  shows "retry_pause d attempt = d * 2 ^ nat (attempt - 2)"
proof -
  let ?n = "nat (attempt - 2)"
  have "word_of_int d * push_bit ?n 1 = (word_of_int (d * 2 ^ ?n) :: 64 word)"
    by (simp add: push_bit_eq_mult)
  then have "retry_pause d attempt = sint (word_of_int (d * 2 ^ ?n) :: 64 word)"
    unfolding retry_pause_def by (rule arg_cong)
  also have "\<dots> = signed_take_bit 63 (d * 2 ^ ?n)"
    by (subst sint_sbintrunc') simp
  also have "\<dots> = d * 2 ^ ?n"
    using assms by (intro signed_take_bit_int_eq_self) (auto intro: order_trans [of _ 0])
  finally show ?thesis .
qed

text \<open>The pauses before attempts \<open>a\<close> up to \<open>a + n - 1\<close>; there is none before the first.\<close>

definition pauses_from :: "duration \<Rightarrow> int \<Rightarrow> nat \<Rightarrow> duration list" where
  "pauses_from d a n = map (\<lambda>i. retry_pause d (a + int i)) [0..<n]"

lemma pauses_from_Suc: "pauses_from d a (Suc n) = retry_pause d a # pauses_from d (a + 1) n"
  unfolding pauses_from_def by (simp add: upt_conv_Cons map_Suc_upt [symmetric] algebra_simps del: upt_Suc)

text \<open>How the loop ends when it goes on with attempt \<open>a\<close> after \<open>lastErr\<close>, with \<open>k\<close> pauses.\<close>

definition retry_outcome :: "'k consumerEnv \<Rightarrow> int \<Rightarrow> int \<Rightarrow> nat \<Rightarrow> string \<Rightarrow> string option \<Rightarrow> int \<Rightarrow> retryEvent list \<Rightarrow> bool" where
  "retry_outcome env m a k lastErr err n evs \<longleftrightarrow>
     (err = None \<and> (\<exists>fails. calls evs = map Some fails @ [None] \<and> Suc (length fails) = k) \<and> n = a + int k - 1)
   \<or> (\<exists>fails. calls evs = map Some fails \<and> length fails = k \<and> n = m + 1 \<and> int k = m + 2 - a
        \<and> err = Some (attempts_failed n (last (lastErr # fails))))
   \<or> (\<exists>fails. calls evs = map Some fails \<and> Suc (length fails) = k \<and> n = a + int k - 1
        \<and> (\<exists>w1 w2. ce_ctxErr env w1 = (err, w2)))"

lemma retry_outcome_fail:
  assumes "retry_outcome env m (a + 1) k x err n evs"
  shows "retry_outcome env m a (Suc k) lastErr err n (Paused p # Called (Some x) # evs)"
proof -
  from assms [unfolded retry_outcome_def] show ?thesis
proof (elim disjE)
  assume "err = None \<and> (\<exists>fails. calls evs = map Some fails @ [None] \<and> Suc (length fails) = k) \<and> n = a + 1 + int k - 1"
  then obtain fails where "err = None" "calls evs = map Some fails @ [None]" "Suc (length fails) = k" "n = a + int (Suc k) - 1" by auto
  then have "err = None \<and> (\<exists>fails. calls (Paused p # Called (Some x) # evs) = map Some fails @ [None] \<and> Suc (length fails) = Suc k)
      \<and> n = a + int (Suc k) - 1"
    by (auto intro!: exI [of _ "x # fails"])
  then show ?thesis unfolding retry_outcome_def by blast
next
  assume "\<exists>fails. calls evs = map Some fails \<and> length fails = k \<and> n = m + 1 \<and> int k = m + 2 - (a + 1)
        \<and> err = Some (attempts_failed n (last (x # fails)))"
  then obtain fails where "calls evs = map Some fails" "length fails = k" "n = m + 1" "int k = m + 2 - (a + 1)"
    "err = Some (attempts_failed n (last (x # fails)))" by auto
  then have "\<exists>fails. calls (Paused p # Called (Some x) # evs) = map Some fails \<and> length fails = Suc k \<and> n = m + 1
      \<and> int (Suc k) = m + 2 - a \<and> err = Some (attempts_failed n (last (lastErr # fails)))"
    by (intro exI [of _ "x # fails"]) simp
  then show ?thesis unfolding retry_outcome_def by blast
next
  assume "\<exists>fails. calls evs = map Some fails \<and> Suc (length fails) = k \<and> n = a + 1 + int k - 1
        \<and> (\<exists>w1 w2. ce_ctxErr env w1 = (err, w2))"
  then obtain fails where "calls evs = map Some fails" "Suc (length fails) = k" "n = a + int (Suc k) - 1"
    "\<exists>w1 w2. ce_ctxErr env w1 = (err, w2)" by auto
  then have "\<exists>fails. calls (Paused p # Called (Some x) # evs) = map Some fails \<and> Suc (length fails) = Suc k
      \<and> n = a + int (Suc k) - 1 \<and> (\<exists>w1 w2. ce_ctxErr env w1 = (err, w2))"
    by (intro exI [of _ "x # fails"]) simp
  then show ?thesis unfolding retry_outcome_def by blast
qed
qed

lemma retry_from_log:
  assumes "retry_from env c msg a lastErr w = ((err, n), evs, w')" and "2 \<le> a" and "a \<le> maxRetries c + 2"
  shows "\<exists>k. pauses evs = pauses_from (retryDelay c) a k \<and> int k \<le> maxRetries c + 2 - a
      \<and> retry_outcome env (maxRetries c) a k lastErr err n evs"
  using assms
proof (induction "nat (maxRetries c + 2 - a)" arbitrary: a lastErr w err n evs w')
  case 0
  then have a: "a = maxRetries c + 2" by simp
  have "retry_from env c msg a lastErr w = ((Some (attempts_failed (maxRetries c + 1) lastErr), maxRetries c + 1), [], w)"
    using a by (subst retry_from.simps) simp
  then have "((err, n), evs, w') = ((Some (attempts_failed (maxRetries c + 1) lastErr), maxRetries c + 1), [], w)"
    by (rule trans [OF 0(2) [symmetric]])
  then have "err = Some (attempts_failed (maxRetries c + 1) lastErr)" "n = maxRetries c + 1" "evs = []"
    by (simp_all only: prod.inject)
  then show ?case using a by (intro exI [of _ 0]) (simp add: pauses_from_def retry_outcome_def)
next
  case (Suc m)
  let ?p = "retry_pause (retryDelay c) a"
  have lt: "\<not> maxRetries c + 1 < a" using Suc.hyps(2) by simp
  obtain b w1 where b: "k_wait (ce_kafka env) CallerCtx ?p w = (b, w1)" by (metis surj_pair)
  obtain e w2 where e: "ce_ctxErr env w1 = (e, w2)" by (metis surj_pair)
  obtain h w3 where h: "ce_handler env msg w1 = (h, w3)" by (metis surj_pair)
  note body = Suc.prems(1) [unfolded retry_from.simps [of env c msg a]]
  have a1: "1 < a" using Suc.prems(2) by simp
  show ?case
  proof (cases b)
    case False
    then have r: "err = e" "n = a" "evs = [Paused ?p]" using body lt a1 b e by auto
    have k: "pauses evs = pauses_from (retryDelay c) a 1" "int 1 \<le> maxRetries c + 2 - a"
      using r lt by (auto simp: pauses_from_def)
    have "retry_outcome env (maxRetries c) a 1 lastErr err n evs"
      using r e by (auto simp: retry_outcome_def)
    with k show ?thesis by blast
  next
    case True
    note b = b [unfolded True eqTrueI [OF True]]
    show ?thesis
    proof (cases h)
      case None
      then have r: "err = None" "n = a" "evs = [Paused ?p, Called None]" using body lt a1 b h True by auto
      have k: "pauses evs = pauses_from (retryDelay c) a 1" "int 1 \<le> maxRetries c + 2 - a"
        using r lt by (auto simp: pauses_from_def)
      have "retry_outcome env (maxRetries c) a 1 lastErr err n evs"
        using r by (auto simp: retry_outcome_def)
      with k show ?thesis by blast
    next
      case (Some x)
      obtain err' n' evs' w4 where rr: "retry_from env c msg (a + 1) x w3 = ((err', n'), evs', w4)" by (metis surj_pair)
      then have r: "err' = err" "n' = n" "evs = Paused ?p # Called (Some x) # evs'" using body lt a1 b h True Some by auto
      have "m = nat (maxRetries c + 2 - (a + 1))" using Suc.hyps(2) by simp
      from Suc.hyps(1) [OF this rr] obtain k where
        k: "pauses evs' = pauses_from (retryDelay c) (a + 1) k" "int k \<le> maxRetries c + 2 - (a + 1)"
        and cs: "retry_outcome env (maxRetries c) (a + 1) k x err n evs'"
        using r(1,2) Suc.prems(2) lt by auto
      have p: "pauses evs = pauses_from (retryDelay c) a (Suc k)" "int (Suc k) \<le> maxRetries c + 2 - a"
        using r k by (auto simp: pauses_from_Suc)
      have "retry_outcome env (maxRetries c) a (Suc k) lastErr err n evs"
        unfolding r(3) by (rule retry_outcome_fail [OF cs])
      with p show ?thesis by blast
    qed
  qed
qed

text \<open>The retry loop, where the longest pause still fits into 64 bits.  The pauses are the configured delay,
  doubled each time; the handler is called at most \<open>maxRetries + 1\<close> times, and again only after it failed;
  success is reported exactly when the last call succeeded; otherwise either every call was made and
  the last error is reported, or the context ended a pause.\<close>

theorem retry_schedule:
  assumes "0 \<le> maxRetries c" and "0 \<le> retryDelay c" and "retryDelay c * 2 ^ nat (maxRetries c - 1) < 2 ^ 63"
    and "handleWithRetry env c msg w = ((err, n), evs, w')"
  shows "\<exists>k. pauses evs = map (\<lambda>i. retryDelay c * 2 ^ i) [0..<k] \<and> int k \<le> maxRetries c
      \<and> length (calls evs) \<le> nat (maxRetries c + 1)
      \<and> ((err = None \<and> (\<exists>fails. calls evs = map Some fails @ [None]) \<and> n = int (length (calls evs)))
       \<or> (\<exists>fails. calls evs = map Some fails \<and> length fails = nat (maxRetries c + 1) \<and> n = maxRetries c + 1
            \<and> err = Some (attempts_failed n (last fails)))
       \<or> (\<exists>fails. calls evs = map Some fails \<and> length fails = k \<and> n = int k + 1 \<and> (\<exists>w1 w2. ce_ctxErr env w1 = (err, w2))))"
proof -
  obtain h w3 where h: "ce_handler env msg w = (h, w3)" by (metis surj_pair)
  have exact: "pauses_from (retryDelay c) 2 k = map (\<lambda>i. retryDelay c * 2 ^ i) [0..<k]" if "int k \<le> maxRetries c" for k
    unfolding pauses_from_def
  proof (rule map_cong [OF refl])
    fix i assume "i \<in> set [0..<k]"
    then have "i \<le> nat (maxRetries c - 1)" using that by auto
    then have "(2::int) ^ i \<le> 2 ^ nat (maxRetries c - 1)" by (rule power_increasing) simp
    then have "retryDelay c * 2 ^ i \<le> retryDelay c * 2 ^ nat (maxRetries c - 1)"
      using assms(2) by (rule mult_left_mono)
    then have "retryDelay c * 2 ^ i < 2 ^ 63" using assms(3) by (rule order_le_less_trans)
    then show "retry_pause (retryDelay c) (2 + int i) = retryDelay c * 2 ^ i"
      using retry_pause_exact [of "2 + int i" "retryDelay c"] assms(2) by simp
  qed
  note body = assms(4) [unfolded handleWithRetry_def retry_from.simps [of env c msg 1]]
  show ?thesis
  proof (cases h)
    case None
    then have "err = None" "n = 1" "evs = [Called None]" using body h assms(1) by auto
    then show ?thesis using assms(1) by (intro exI [of _ 0]) auto
  next
    case (Some x)
    obtain err' n' evs' w4 where rr: "retry_from env c msg 2 x w3 = ((err', n'), evs', w4)" by (metis surj_pair)
    then have r: "err' = err" "n' = n" "evs = Called (Some x) # evs'" using body h Some assms(1) by auto
    from retry_from_log [OF rr] assms(1) r(1,2) obtain k where
      k: "pauses evs' = pauses_from (retryDelay c) 2 k" "int k \<le> maxRetries c"
      and cs: "retry_outcome env (maxRetries c) 2 k x err n evs'" by auto
    have p: "pauses evs = map (\<lambda>i. retryDelay c * 2 ^ i) [0..<k]" using k exact [OF k(2)] r(3) by simp
    from cs [unfolded retry_outcome_def] show ?thesis
    proof (elim disjE)
      assume "err = None \<and> (\<exists>fails. calls evs' = map Some fails @ [None] \<and> Suc (length fails) = k) \<and> n = 2 + int k - 1"
      then obtain fails where f: "err = None" "calls evs = map Some (x # fails) @ [None]" "length (calls evs) = Suc k" "n = int k + 1"
        using r by auto
      have "err = None \<and> (\<exists>fails. calls evs = map Some fails @ [None]) \<and> n = int (length (calls evs))"
        using f by (metis of_nat_Suc add.commute)
      moreover have "length (calls evs) \<le> nat (maxRetries c + 1)" using f(3) k(2) by linarith
      ultimately show ?thesis using p k(2) by blast
    next
      assume "\<exists>fails. calls evs' = map Some fails \<and> length fails = k \<and> n = maxRetries c + 1 \<and> int k = maxRetries c + 2 - 2
               \<and> err = Some (attempts_failed n (last (x # fails)))"
      then obtain fails where f: "calls evs = map Some (x # fails)" "length (x # fails) = nat (maxRetries c + 1)"
        "length (calls evs) = Suc k" "n = maxRetries c + 1" "err = Some (attempts_failed n (last (x # fails)))"
        using r by auto
      have "\<exists>fails. calls evs = map Some fails \<and> length fails = nat (maxRetries c + 1) \<and> n = maxRetries c + 1
            \<and> err = Some (attempts_failed n (last fails))"
        using f by blast
      moreover have "length (calls evs) \<le> nat (maxRetries c + 1)" using f(3) k(2) by linarith
      ultimately show ?thesis using p k(2) by blast
    next
      assume "\<exists>fails. calls evs' = map Some fails \<and> Suc (length fails) = k \<and> n = 2 + int k - 1
               \<and> (\<exists>w1 w2. ce_ctxErr env w1 = (err, w2))"
      then obtain fails u1 u2 where f: "calls evs = map Some (x # fails)" "length (x # fails) = k" "n = int k + 1"
        "ce_ctxErr env u1 = (err, u2)" using r by auto
      have "\<exists>fails. calls evs = map Some fails \<and> length fails = k \<and> n = int k + 1
          \<and> (\<exists>w1 w2. ce_ctxErr env w1 = (err, w2))"
        using f by blast
      moreover have "length (calls evs) \<le> nat (maxRetries c + 1)"
        using f(1,2) k(2) by (auto simp: le_nat_iff)
      ultimately show ?thesis using p k(2) by blast
    qed
  qed
qed

text \<open>A handler that fails on one key, in front of the broker of \<open>demo_kafka\<close>.\<close>

definition demo_consumer :: "(string list \<times> instant) consumerEnv" where
  "demo_consumer =
     \<lparr>ce_kafka = demo_kafka, ce_handler = (\<lambda>m w. (if km_Key m = ''bad'' then Some ''boom'' else None, w)),
      ce_ctxErr = (\<lambda>w. (None, w)), ce_commit = (\<lambda>m w. (True, w))\<rparr>"

definition demo_msg :: "string \<Rightarrow> int \<Rightarrow> kmsg" where
  "demo_msg key off = \<lparr>km_Topic = TopicStreamEnded, km_Partition = 0, km_Offset = off, km_Key = key,
     km_Value = Some (Doc JNull), km_Headers = []\<rparr>"

theorem retry_schedule_witness:
  "\<exists>k. pauses (fst (snd (handleWithRetry demo_consumer (NewConsumer (DefaultKafkaConfig (- 2) [] ''g'') TopicStreamEnded None)
         (demo_msg ''bad'' 7) ([], 0))))
     = map (\<lambda>i. 500000000 * 2 ^ i) [0..<k] \<and> k \<le> 3"
proof -
  let ?c = "NewConsumer (DefaultKafkaConfig (- 2) [] ''g'') TopicStreamEnded None"
  obtain err n evs w' where r: "handleWithRetry demo_consumer ?c (demo_msg ''bad'' 7) ([], 0) = ((err, n), evs, w')"
    by (metis surj_pair)
  have c: "maxRetries ?c = 3" "retryDelay ?c = 500000000" by (simp_all add: NewConsumer_def millisecond_def)
  from retry_schedule [OF _ _ _ r, unfolded c] obtain k
    where "pauses evs = map (\<lambda>i. 500000000 * 2 ^ i) [0..<k]" "int k \<le> 3" by auto
  with r show ?thesis by auto
qed

section \<open>Dead letters and their replay\<close>

lemma dec_header_list_map [simp]: "dec_header_list (map (\<lambda>(k, v). (k, JStr v)) hs) = Some hs"
  by (induction hs) auto

lemma dec_enc_dlq:
  assumes "enc_dlq d = Some j"
  shows "\<exists>doc. enc_raw (dl_OriginalPayload d) = Some doc \<and> dec_dlq j = Some (d\<lparr>dl_OriginalPayload := Some (Doc doc)\<rparr>)"
proof -
  obtain doc where doc: "enc_raw (dl_OriginalPayload d) = Some doc" using assms by (auto simp: enc_dlq_def)
  have j: "j = JObj ([(''failedAt'', JTime (dl_FailedAt d)), (''reason'', JStr (dl_Reason d)),
      (''errorDetail'', JStr (dl_ErrorDetail d)), (''attemptCount'', JNum (dl_AttemptCount d)),
      (''originalTopic'', JStr (dl_OriginalTopic d)), (''originalPartition'', JNum (dl_OriginalPartition d)),
      (''originalOffset'', JNum (dl_OriginalOffset d)), (''originalKey'', JStr (dl_OriginalKey d)),
      (''originalPayload'', doc)]
     @ enc_headers (dl_OriginalHeaders d) @ [(''consumerGroup'', JStr (dl_ConsumerGroup d))])"
    using assms doc by (simp add: enc_dlq_def)
  have h: "dec_headers j = Some (dl_OriginalHeaders d)" "dec_str ''consumerGroup'' j = Some (dl_ConsumerGroup d)"
    unfolding j by (auto simp: dec_headers_def dec_str_def jget_def enc_headers_def)
  have f: "dec_time ''failedAt'' j = Some (dl_FailedAt d)" "dec_str ''reason'' j = Some (dl_Reason d)"
    "dec_str ''errorDetail'' j = Some (dl_ErrorDetail d)" "dec_int ''attemptCount'' j = Some (dl_AttemptCount d)"
    "dec_str ''originalTopic'' j = Some (dl_OriginalTopic d)" "dec_int ''originalPartition'' j = Some (dl_OriginalPartition d)"
    "dec_int ''originalOffset'' j = Some (dl_OriginalOffset d)" "dec_str ''originalKey'' j = Some (dl_OriginalKey d)"
    "jget ''originalPayload'' j = Some doc"
    unfolding j by (simp_all add: dec_defs)
  have o: "\<exists>kvs. j = JObj kvs" unfolding j by blast
  show ?thesis
    using doc o h f by (cases d) (auto simp: dec_dlq_def)
qed

lemma send_result:
  assumes "DLQSend env d ctx msg herr attempts w = (Inr out, w1)"
  shows "\<exists>t doc j. enc_raw (km_Value msg) = Some doc \<and> enc_dlq (dlqMessageOf d msg herr attempts t) = Some j
    \<and> km_Value out = Some (Doc j)"
  using assms
  by (auto simp: DLQSend_def Let_def enc_dlq_def dlqMessageOf_def split: option.splits prod.splits)

lemma publish_success:
  assumes "publish env ctx topic key payload (p, w) = Some (Inr (), p', w')"
  shows "\<exists>data wr t. payload = Some data \<and> p_writers p topic = Some wr
    \<and> last (writes p') = (wr_Topic wr, eventMessage env topic key data t, True)"
proof -
  obtain data wr where d: "payload = Some data" "p_writers p topic = Some wr"
    using assms by (auto simp: publish_def split: option.splits)
  obtain t w1 where t: "k_now env w = (t, w1)" by (metis surj_pair)
  let ?m = "eventMessage env topic key data t"
  have "last (writes p') = (wr_Topic wr, ?m, True)"
    using assms d t
    by (auto simp: publish_def write_step Let_def isUnknownTopicError_def bind_eq_Some_conv split: if_splits option.splits prod.splits)
  with d show ?thesis by blast
qed

text \<open>A dead letter brings the message back: what \<open>Send\<close> wrote is, replayed, published to the original topic
  with the original key and the same document, a nil value as null; it is counted as replayed and never
  as skipped.  Its headers are those of a new event: the original ones are not restored.\<close>

theorem dead_letter_replay:
  assumes "DLQSend env d ctx msg herr attempts w = (Inr out, w1)"
    and "ReplayToOriginalTopic env ctx' None [Fetched out] (NewPublisher mech cfg, w2) = Some (replayed, skipped, rerr, p', w3)"
  shows "\<exists>doc. enc_raw (km_Value msg) = Some doc \<and> skipped = 0 \<and> (rerr = None \<longleftrightarrow> replayed = 1)
    \<and> (rerr = None \<longrightarrow> (\<exists>m t. last (writes p') = (km_Topic msg, m, True) \<and> km_Key m = km_Key msg
         \<and> km_Value m = Some (Doc doc) \<and> km_Headers m = eventHeaders env (km_Topic msg) t))"
proof -
  obtain t doc j where o: "enc_raw (km_Value msg) = Some doc" "enc_dlq (dlqMessageOf d msg herr attempts t) = Some j"
    "km_Value out = Some (Doc j)" using send_result [OF assms(1)] by blast
  have dec: "dec_dlq j = Some ((dlqMessageOf d msg herr attempts t)\<lparr>dl_OriginalPayload := Some (Doc doc)\<rparr>)"
    using dec_enc_dlq [OF o(2)] o(1) by (simp add: dlqMessageOf_def)
  let ?publish = "publish env (WithTimeout ctx' (5 * second)) (km_Topic msg) (km_Key msg) (Some doc) (NewPublisher mech cfg, w2)"
  have run: "Option.bind ?publish (\<lambda>(r, s1).
      case r of Inl e \<Rightarrow> Some (0, 0, Some (ReplayPublish e), s1) | Inr _ \<Rightarrow> Some (1, 0, None, s1)) = Some (replayed, skipped, rerr, p', w3)"
    using assms(2) o(3) dec
    by (simp add: ReplayToOriginalTopic_def dlqMessageOf_def as_json_def enc_raw_def cong: sum.case_cong)
  then obtain r p2 w4 where pub: "?publish = Some (r, p2, w4)"
    by (cases ?publish) auto
  have res: "(replayed, skipped, rerr, p', w3)
      = (case r of Inl e \<Rightarrow> (0, 0, Some (ReplayPublish e), p2, w4) | Inr _ \<Rightarrow> (1, 0, None, p2, w4))"
    using run pub by (cases r) auto
  show ?thesis
  proof (cases r)
    case (Inl e)
    then show ?thesis using o(1) res by auto
  next
    case (Inr u)
    then have r: "r = Inr ()" by simp
    obtain data wr t' where m: "Some doc = Some data" "p_writers (NewPublisher mech cfg) (km_Topic msg) = Some wr"
      "last (writes p2) = (wr_Topic wr, eventMessage env (km_Topic msg) (km_Key msg) data t', True)"
      using publish_success [OF pub [unfolded r]] by blast
    have "wr_Topic wr = km_Topic msg"
      using m(2) by (auto simp: NewPublisher_def publisherWriter_def split: if_splits)
    with m Inr o(1) res show ?thesis by (auto simp: eventMessage_def)
  qed
qed

text \<open>What the dead-letter queue does not take.  A message whose value is no JSON document is refused,
  although undecodable messages are the first class of failure the queue distinguishes.  No writer of the
  queue uses TLS or SASL: they connect as the publisher does only on an unsecured broker.  The consumer
  group in a dead letter is that of the writer's configuration, not that of the consumer that failed.\<close>

theorem dead_letter_gaps:
  "(km_Value msg = Some (Txt bytes) \<longrightarrow> isl (fst (DLQSend env d ctx msg herr attempts w)))
   \<and> (dw_writers (NewDLQWriter cfg topics) topic = Some wr \<longrightarrow>
        (wr_Transport wr = publisherTransport mech cfg \<longleftrightarrow> \<not> kc_TLSEnabled cfg \<and> kc_SASLUser cfg = []))
   \<and> dl_ConsumerGroup (dlqMessageOf (NewDLQWriter cfg topics) msg herr attempts t) = kc_GroupID cfg"
  by (auto simp: DLQSend_def Let_def enc_dlq_def enc_raw_def dlqMessageOf_def NewDLQWriter_def dlqTopicWriter_def
      publisherTransport_def plaintext_def split: option.splits prod.splits if_splits)

theorem dead_letter_replay_witness:
  "\<exists>out w1 p' w3 m. DLQSend demo_kafka (NewDLQWriter (DefaultKafkaConfig (- 2) [] ''g'') [TopicStreamEnded]) CallerCtx (demo_msg ''k'' 7) ''boom'' 4
       ([TopicStreamEnded, TopicStreamEnded @ dlqSuffix], 0) = (Inr out, w1)
     \<and> ReplayToOriginalTopic demo_kafka CallerCtx None [Fetched out] (NewPublisher (k_mech demo_kafka) (DefaultKafkaConfig (- 2) [] ''g''), w1)
         = Some (1, 0, None, p', w3)
     \<and> last (writes p') = (TopicStreamEnded, m, True) \<and> km_Key m = ''k'' \<and> km_Value m = Some (Doc JNull)"
proof -
  let ?cfg = "DefaultKafkaConfig (- 2) [] ''g''"
  let ?dw = "NewDLQWriter ?cfg [TopicStreamEnded]" and ?w = "([TopicStreamEnded, TopicStreamEnded @ dlqSuffix], 0)"
  let ?p = "NewPublisher (k_mech demo_kafka) ?cfg"
  obtain out where s: "DLQSend demo_kafka ?dw CallerCtx (demo_msg ''k'' 7) ''boom'' 4 ?w = (Inr out, ?w)"
    by (simp add: DLQSend_def NewDLQWriter_def demo_msg_def demo_kafka_def dlqTopicWriter_def Let_def enc_dlq_def
        dlqMessageOf_def enc_raw_def)
  obtain t doc j where o: "enc_raw (km_Value (demo_msg ''k'' 7)) = Some doc"
    "enc_dlq (dlqMessageOf ?dw (demo_msg ''k'' 7) ''boom'' 4 t) = Some j" "km_Value out = Some (Doc j)"
    using send_result [OF s] by blast
  have dec: "dec_dlq j = Some ((dlqMessageOf ?dw (demo_msg ''k'' 7) ''boom'' 4 t)\<lparr>dl_OriginalPayload := Some (Doc JNull)\<rparr>)"
    using dec_enc_dlq [OF o(2)] by (simp add: dlqMessageOf_def demo_msg_def enc_raw_def)
  have "\<exists>p'. ReplayToOriginalTopic demo_kafka CallerCtx None [Fetched out] (?p, ?w) = Some (1, 0, None, p', ?w)"
    using o(3) dec
    by (simp add: ReplayToOriginalTopic_def as_json_def enc_raw_def dlqMessageOf_def demo_msg_def publish_def NewPublisher_def
        publisherTopics_def demo_kafka_def Let_def write_step publisherWriter_def isUnknownTopicError_def)
  then obtain p' where r: "ReplayToOriginalTopic demo_kafka CallerCtx None [Fetched out] (?p, ?w) = Some (1, 0, None, p', ?w)" by blast
  from dead_letter_replay [OF s r] show ?thesis
    using s r by (auto simp: demo_msg_def enc_raw_def)
qed

theorem dead_letter_gaps_witness:
  "isl (fst (DLQSend demo_kafka (NewDLQWriter (DefaultKafkaConfig (- 2) [] ''g'') [TopicStreamEnded]) CallerCtx
       ((demo_msg ''k'' 7)\<lparr>km_Value := Some (Txt ''{'')\<rparr>) ''invalid json'' 4 ([TopicStreamEnded @ dlqSuffix], 0)))
   \<and> wr_Transport (dlqTopicWriter TopicStreamEnded) \<noteq> publisherTransport (k_mech demo_kafka)
       (NewKafkaConfig (DefaultKafkaConfig (- 2) [] ''g'') True ''u'' ''p'')"
  using dead_letter_gaps [where msg = "(demo_msg ''k'' 7)\<lparr>km_Value := Some (Txt ''{'')\<rparr>" and bytes = "''{''"
      and topic = TopicStreamEnded and topics = "[TopicStreamEnded]" and wr = "dlqTopicWriter TopicStreamEnded"
      and cfg = "NewKafkaConfig (DefaultKafkaConfig (- 2) [] ''g'') True ''u'' ''p''" and mech = "k_mech demo_kafka"
      and d = "NewDLQWriter (DefaultKafkaConfig (- 2) [] ''g'') [TopicStreamEnded]" and env = demo_kafka and ctx = CallerCtx
      and herr = "''invalid json''" and attempts = 4 and w = "([TopicStreamEnded @ dlqSuffix], 0)"]
  by (simp add: NewDLQWriter_def NewKafkaConfig_def)

section \<open>The loop: what becomes of the messages\<close>

definition outcome :: "cevent \<Rightarrow> kmsg option" where
  "outcome e = (case e of Handled m \<Rightarrow> Some m | DeadLettered m _ \<Rightarrow> Some m | NoDLQ m \<Rightarrow> Some m | PoisonForced m \<Rightarrow> Some m
     | Unsaved m \<Rightarrow> Some m | _ \<Rightarrow> None)"

definition outcomes :: "cevent list \<Rightarrow> kmsg list" where "outcomes es = List.map_filter outcome es"

text \<open>The outcomes after which a message may be committed.\<close>

definition saves :: "kmsg \<Rightarrow> cevent \<Rightarrow> bool" where
  "saves m e \<longleftrightarrow> outcome e = Some m \<and> (\<forall>u. e \<noteq> Unsaved u)"

text \<open>Every commit follows directly on such an outcome of its message.\<close>

fun log_ok :: "cevent option \<Rightarrow> cevent list \<Rightarrow> bool" where
  "log_ok prev [] = True"
| "log_ok prev (e # es) =
     ((case e of Committed m _ \<Rightarrow> (case prev of Some p \<Rightarrow> saves m p | None \<Rightarrow> False) | _ \<Rightarrow> True) \<and> log_ok (Some e) es)"

fun messages :: "fetch list \<Rightarrow> kmsg list" where
  "messages [] = []"
| "messages (Message m # fs) = m # messages fs"
| "messages (FetchError # fs) = messages fs"

lemma outcomes_simps [simp]:
  "outcomes [] = []" "outcomes (e # es) = (case outcome e of Some m \<Rightarrow> m # outcomes es | None \<Rightarrow> outcomes es)"
  by (simp_all add: outcomes_def List.map_filter_def split: option.splits)

lemma on_monitor_log [simp]: "cs_log (on_monitor f s) = cs_log s" "cs_consumer (on_monitor f s) = cs_consumer s"
  by (simp_all add: on_monitor_def split: option.splits prod.splits)

lemma logged_simps [simp]:
  "cs_log (logged e s) = cs_log s @ [e]" "cs_consumer (logged e s) = cs_consumer s" "cs_world (logged e s) = cs_world s"
  by (simp_all add: logged_def)

lemma process_step:
  assumes "processMessage env msg s = (safe, s1)"
  shows "\<exists>e. cs_log s1 = cs_log s @ [e] \<and> outcome e = Some msg \<and> (safe \<longleftrightarrow> saves msg e)
    \<and> commitOnDLQFailure (cs_consumer s1) = commitOnDLQFailure (cs_consumer s)"
proof -
  obtain herr n evs w1 where h: "handleWithRetry env (cs_consumer s) msg (cs_world s) = ((herr, n), evs, w1)" by (metis surj_pair)
  show ?thesis
    using assms h
    by (cases herr; cases "c_dlq (cs_consumer s)")
      (auto simp: processMessage_def dlq_failed_def Let_def outcome_def saves_def split: prod.splits sum.splits if_splits)
qed

text \<open>The context never ends.\<close>

definition never_ends :: "'k consumerEnv \<Rightarrow> bool" where
  "never_ends env \<longleftrightarrow> (\<forall>w. fst (ce_ctxErr env w) = None) \<and> (\<forall>c d w. fst (k_wait (ce_kafka env) c d w))"

text \<open>C36.  A consumer that does not commit on a failed dead letter.  Whatever is fetched and however handler, queue
  and broker answer, the messages are dealt with one by one in the order fetched, each with one outcome,
  until the context ends; and a message is committed only right after it was handled, dead-lettered, or
  given up for want of a queue or as a poison pill, never when it could be neither handled nor stored.\<close>

theorem commit_after_outcome:
  assumes "\<not> commitOnDLQFailure (cs_consumer s)"
  shows "\<exists>new k. cs_log (consumer_run env fs s) = cs_log s @ new \<and> log_ok None new
      \<and> outcomes new = take k (messages fs)
      \<and> (never_ends env \<longrightarrow> outcomes new = messages fs)"
proof -
  have first: "log_ok prev (e # es)" if "log_ok None (e # es)" "outcome e \<noteq> None \<or> e = FetchErr" for prev e es
    using that by (cases e) (auto simp: outcome_def)
  have "\<exists>new k. cs_log (consumer_run env fs s) = cs_log s @ new \<and> (\<forall>prev. log_ok prev new)
      \<and> outcomes new = take k (messages fs) \<and> (never_ends env \<longrightarrow> outcomes new = messages fs)"
    using assms
  proof (induction env fs s rule: consumer_run.induct)
    case (1 env s)
    show ?case by (intro exI [of _ "[]"]) simp
  next
    case (2 env fs s)
    obtain e w1 where c: "ce_ctxErr env (cs_world s) = (e, w1)" by (metis surj_pair)
    show ?case
    proof (cases e)
      case (Some x)
      then show ?thesis using c by (intro exI [of _ "[]"] exI [of _ 0]) (auto simp: never_ends_def dest!: spec [of _ "cs_world s"])
    next
      case None
      let ?s1 = "on_monitor (RecordFetchError (ce_kafka env) (c_topic (cs_consumer s)) (c_groupID (cs_consumer s)))
                      (logged FetchErr (s\<lparr>cs_world := w1\<rparr>))"
      obtain b w2 where b: "k_wait (ce_kafka env) CallerCtx (2 * second) (cs_world ?s1) = (b, w2)" by (metis surj_pair)
      show ?thesis
      proof (cases b)
        case False
        then have "\<not> never_ends env" using b unfolding never_ends_def by (metis fst_conv)
        moreover have "cs_log (consumer_run env (FetchError # fs) s) = cs_log s @ [FetchErr]"
          using False c None b by (simp add: Let_def)
        ultimately show ?thesis
          by (intro exI [of _ "[FetchErr]"] exI [of _ 0] conjI impI) (auto simp: outcome_def)
      next
        case True
        have "\<exists>new k. cs_log (consumer_run env fs (?s1\<lparr>cs_world := w2\<rparr>)) = cs_log (?s1\<lparr>cs_world := w2\<rparr>) @ new \<and> (\<forall>prev. log_ok prev new)
            \<and> outcomes new = take k (messages fs)
            \<and> (never_ends env \<longrightarrow> outcomes new = messages fs)"
          using 2(1) [OF c [symmetric] None refl b [symmetric] True] 2(2) by simp
        then obtain new k where n: "cs_log (consumer_run env fs (?s1\<lparr>cs_world := w2\<rparr>)) = cs_log (?s1\<lparr>cs_world := w2\<rparr>) @ new"
          "\<forall>prev. log_ok prev new" "outcomes new = take k (messages fs)" "never_ends env \<longrightarrow> outcomes new = messages fs"
          by blast
        have "cs_log (consumer_run env (FetchError # fs) s) = cs_log s @ FetchErr # new"
          using n(1) c None b True by (simp add: Let_def)
        then show ?thesis using n(2-)
          by (intro exI [of _ "FetchErr # new"] exI [of _ k]) (simp add: outcome_def)
      qed
    qed
  next
    case (3 env msg fs s)
    let ?goal = "\<lambda>t fs. \<exists>new k. cs_log (consumer_run env fs t) = cs_log t @ new \<and> (\<forall>prev. log_ok prev new)
      \<and> outcomes new = take k (messages fs) \<and> (never_ends env \<longrightarrow> outcomes new = messages fs)"
    obtain safe s1 where p: "processMessage env msg s = (safe, s1)" by (metis surj_pair)
    obtain e where e: "cs_log s1 = cs_log s @ [e]" "outcome e = Some msg" "safe \<longleftrightarrow> saves msg e"
      "commitOnDLQFailure (cs_consumer s1) = commitOnDLQFailure (cs_consumer s)" using process_step [OF p] by blast
    have ok: "log_ok prev (e # es) = log_ok (Some e) es" for prev es using e(2) by (cases e) (auto simp: outcome_def)
    have add: "?goal s (Message msg # fs)"
      if "consumer_run env (Message msg # fs) s = consumer_run env fs t" "cs_log t = cs_log s @ e # mid"
        "log_ok (Some e) mid" "outcomes mid = []" "?goal t fs" "\<And>es. (\<forall>prev. log_ok prev es) \<Longrightarrow> log_ok (Some e) (mid @ es)" for t mid
    proof -
      note goal = that(5)
      have "outcomes (mid @ es) = outcomes es" for es using that(4) by (simp add: outcomes_def List.map_filter_def)
      moreover obtain new k where n: "cs_log (consumer_run env fs t) = cs_log t @ new" "\<forall>prev. log_ok prev new"
        "outcomes new = take k (messages fs)" "never_ends env \<longrightarrow> outcomes new = messages fs" using goal by blast
      moreover have "cs_log (consumer_run env (Message msg # fs) s) = cs_log s @ e # mid @ new"
        using that(2) n(1) by (simp add: that(1) del: consumer_run.simps)
      moreover have "\<forall>prev. log_ok prev (e # mid @ new)" using that(6) [OF n(2)] by (simp only: ok simp_thms)
      ultimately show ?thesis using e(2)
        by (intro exI [of _ "e # mid @ new"] exI [of _ "Suc k"]) (simp del: consumer_run.simps log_ok.simps)
    qed
    show ?case
    proof (cases safe)
      case False
      have "?goal s1 fs" using 3(3) [OF p [symmetric]] False 3(4) e(4) by simp
      then show ?thesis by (rule add [of s1 "[]", rotated 4]) (use p False 3(4) e in auto)
    next
      case True
      obtain b w2 where b: "ce_commit env msg (cs_world s1) = (b, w2)" by (metis surj_pair)
      let ?s2 = "logged (Committed msg b) (s1\<lparr>cs_world := w2\<rparr>)"
      have lk: "log_ok (Some e) (Committed msg b # es) = log_ok (Some (Committed msg b)) es" for es
        using True e(3) by simp
      show ?thesis
      proof (cases b)
        case bT: True
        have "?goal ?s2 fs" using 3(1) [OF p [symmetric] _ b [symmetric] refl bT] True 3(4) e(4) by simp
        then show ?thesis
          by (rule add [of ?s2 "[Committed msg b]", rotated 4]) (use p True b bT e lk in \<open>auto simp: outcome_def\<close>)
      next
        case bF: False
        obtain x w3 where x: "ce_ctxErr env w2 = (x, w3)" by (metis surj_pair)
        show ?thesis
        proof (cases x)
          case None
          have "?goal (?s2\<lparr>cs_world := w3\<rparr>) fs"
            using 3(2) [OF p [symmetric] _ b [symmetric] refl bF x [symmetric] None] True 3(4) e(4) by simp
          then show ?thesis
            by (rule add [of "?s2\<lparr>cs_world := w3\<rparr>" "[Committed msg b]", rotated 4])
              (use p True b bF e lk x None in \<open>auto simp: outcome_def\<close>)
        next
          case (Some y)
          have "\<not> never_ends env" using x Some unfolding never_ends_def by (metis fst_conv option.distinct(1))
          moreover have "cs_log (consumer_run env (Message msg # fs) s) = cs_log s @ [e, Committed msg b]"
            using p True b bF x Some e(1) by (simp add: Let_def)
          moreover have "\<forall>prev. log_ok prev [e, Committed msg b]" using lk [of "[]"] by (simp add: ok del: log_ok.simps(2))
          moreover have "outcomes [e, Committed msg b] = [msg]" using e(2) by (simp add: outcome_def [of "Committed msg b"])
          ultimately show ?thesis
            by (intro exI [of _ "[e, Committed msg b]"] exI [of _ 1]) simp
        qed
      qed
    qed
  qed
  then show ?thesis by blast
qed

theorem commit_after_outcome_witness:
  "\<exists>new. cs_log (consumer_run demo_consumer [Message (demo_msg ''bad'' 7), FetchError, Message (demo_msg ''k'' 8)]
       \<lparr>cs_consumer = NewConsumer (DefaultKafkaConfig (- 2) [] ''g'') TopicStreamEnded None, cs_monitor = None,
        cs_world = ([], 0), cs_log = []\<rparr>) = new
     \<and> log_ok None new \<and> outcomes new = [demo_msg ''bad'' 7, demo_msg ''k'' 8]"
  using commit_after_outcome [where env = demo_consumer and
      fs = "[Message (demo_msg ''bad'' 7), FetchError, Message (demo_msg ''k'' 8)]" and
      s = "\<lparr>cs_consumer = NewConsumer (DefaultKafkaConfig (- 2) [] ''g'') TopicStreamEnded None, cs_monitor = None,
        cs_world = ([], 0), cs_log = []\<rparr>"]
  by (auto simp del: consumer_run.simps simp: NewConsumer_def never_ends_def demo_consumer_def demo_kafka_def)

section \<open>What skipping a commit does\<close>

text \<open>A handler that always fails: no retry helps.\<close>

lemma retry_all_fail:
  assumes "\<And>w. fst (ce_handler env msg w) \<noteq> None" and "\<And>c d w. fst (k_wait (ce_kafka env) c d w)"
  shows "fst (fst (retry_from env c msg a lastErr w)) \<noteq> None"
proof (induction "nat (maxRetries c + 2 - a)" arbitrary: a lastErr w)
  case 0
  then show ?case by (subst retry_from.simps) simp
next
  case (Suc n)
  obtain b w1 where b: "k_wait (ce_kafka env) CallerCtx (retry_pause (retryDelay c) a) w = (b, w1)" by (metis surj_pair)
  have "b" using assms(2) [of CallerCtx "retry_pause (retryDelay c) a" w] b by simp
  have n: "n = nat (maxRetries c + 2 - (a + 1))" using Suc.hyps(2) by simp
  have h: "\<exists>x w2. ce_handler env msg u = (Some x, w2)" for u using assms(1) [of u] by (metis not_Some_eq prod.collapse)
  obtain x w2 where x: "ce_handler env msg w1 = (Some x, w2)" using h by blast
  obtain x' w2' where x': "ce_handler env msg w = (Some x', w2')" using h by blast
  show ?case
    using Suc.hyps(1) [OF n, of x w2] Suc.hyps(1) [OF n, of x' w2'] b \<open>b\<close> x x' Suc.hyps(2)
    by (subst retry_from.simps) (auto simp: split_beta Let_def)
qed

lemma retry_first_ok:
  assumes "\<And>w. fst (ce_handler env msg w) = None" and "0 \<le> maxRetries c"
  shows "fst (fst (handleWithRetry env c msg w)) = None"
  using assms(1) [of w] assms(2)
  by (subst handleWithRetry_def, subst retry_from.simps) (auto simp: split_beta split: prod.splits option.splits)

text \<open>
  Kafka keeps one offset per partition and group: a commit of a message sets it to the next one, and that
  is where the group resumes.
\<close>

definition resume_offset :: "int \<Rightarrow> cevent list \<Rightarrow> int option" where
  "resume_offset p es = fold (\<lambda>e r. case e of Committed m True \<Rightarrow> if km_Partition m = p then Some (km_Offset m + 1) else r | _ \<Rightarrow> r) es None"

text \<open>Skipping the commit does not keep a message.  When a message can be neither handled nor dead-lettered and
  the next one of its partition is handled, that one's commit moves the group past both: the first is
  nowhere stored and is not delivered again.\<close>

theorem skipped_message_lost:
  assumes "\<not> commitOnDLQFailure c" and "maxDLQFails c \<noteq> 1" and "dlqFailCount c = 0" and "c_dlq c \<noteq> None" and "0 \<le> maxRetries c"
    and "\<forall>w. fst (ce_handler env m1 w) \<noteq> None" and "\<forall>w. fst (ce_handler env m2 w) = None"
    and "\<forall>x wr m w. fst (k_write (ce_kafka env) x wr m w) \<noteq> None" and "\<forall>x d w. fst (k_wait (ce_kafka env) x d w)"
    and "\<forall>m w. fst (ce_commit env m w)" and "km_Partition m2 = km_Partition m1" and "km_Offset m2 = km_Offset m1 + 1"
  shows "cs_log (consumer_run env [Message m1, Message m2] \<lparr>cs_consumer = c, cs_monitor = mon, cs_world = w, cs_log = []\<rparr>)
      = [Unsaved m1, Handled m2, Committed m2 True]
    \<and> resume_offset (km_Partition m1) [Unsaved m1, Handled m2, Committed m2 True] = Some (km_Offset m1 + 2)"
proof -
  let ?s = "\<lparr>cs_consumer = c, cs_monitor = mon, cs_world = w, cs_log = []\<rparr>"
  obtain e n evs w1 where h1: "handleWithRetry env c m1 w = ((Some e, n), evs, w1)"
  proof -
    have "fst (fst (handleWithRetry env c m1 w)) \<noteq> None"
      unfolding handleWithRetry_def by (rule retry_all_fail) (use assms(6,9) in auto)
    then show ?thesis using that by (cases "handleWithRetry env c m1 w") auto
  qed
  obtain d where d: "c_dlq c = Some d" using assms(4) by auto
  have wr: "k_write (ce_kafka env) x wr m u = (None, v) \<Longrightarrow> False" for x wr m u v using assms(8) by (metis fst_conv)
  obtain er w2 where sd: "DLQSend (ce_kafka env) d CallerCtx m1 e n w1 = (Inl er, w2)"
  proof -
    have "isl (fst (DLQSend (ce_kafka env) d CallerCtx m1 e n w1))"
      by (auto simp: DLQSend_def Let_def split: option.splits prod.splits dest: wr)
    then show ?thesis using that by (cases "DLQSend (ce_kafka env) d CallerCtx m1 e n w1") (auto simp: isl_def)
  qed
  obtain c2 where p1: "processMessage env m1 ?s = (False, logged (Unsaved m1) (?s\<lparr>cs_world := w2, cs_consumer := c2\<rparr>))"
    and c2: "commitOnDLQFailure c2 = commitOnDLQFailure c" "maxRetries c2 = maxRetries c"
    using h1 d sd assms(2,3)
    by (cases "km_Offset m1 = lastFailOffset c") (auto simp: processMessage_def Let_def dlq_failed_def)
  obtain n2 evs2 w3 where h2: "handleWithRetry env c2 m2 w2 = ((None, n2), evs2, w3)"
    using retry_first_ok [of env m2 c2 w2] assms(5,7) c2(2) by (cases "handleWithRetry env c2 m2 w2") auto
  obtain w4 where cm: "ce_commit env m2 w3 = (True, w4)" using assms(10) by (metis (full_types) prod.collapse)
  have "cs_log (consumer_run env [Message m1, Message m2] ?s) = [Unsaved m1, Handled m2, Committed m2 True]"
    using p1 c2(1) assms(1) h2 cm by (simp add: processMessage_def [of env m2] Let_def logged_def)
  moreover have "resume_offset (km_Partition m1) [Unsaved m1, Handled m2, Committed m2 True] = Some (km_Offset m1 + 2)"
    using assms(11,12) by (simp add: resume_offset_def)
  ultimately show ?thesis by blast
qed

text \<open>The poison-pill counter.  As long as no offset is fetched twice, and the reader goes back only when
  its group is rebalanced, the failures in a row on one offset never reach a limit of two or more: the
  forced commit does not happen.\<close>

theorem poison_pill_never_fires:
  assumes "distinct (map km_Offset (messages fs))" and "2 \<le> maxDLQFails (cs_consumer s)" and "dlqFailCount (cs_consumer s) = 0"
    and "PoisonForced m \<notin> set (cs_log s)"
  shows "PoisonForced m \<notin> set (cs_log (consumer_run env fs s))"
proof -
  define I where "I = (\<lambda>fs (c :: consumer). 2 \<le> maxDLQFails c \<and> (dlqFailCount c = 0
    \<or> dlqFailCount c = 1 \<and> lastFailOffset c \<notin> km_Offset ` set (messages fs)))"
  have step: "I fs (cs_consumer s1) \<and> PoisonForced m \<notin> set (cs_log s1)"
    if i: "I (Message msg # fs) (cs_consumer s)" and dis: "distinct (map km_Offset (messages (Message msg # fs)))"
      and n: "PoisonForced m \<notin> set (cs_log s)" and p: "processMessage env msg s = (safe, s1)" for msg fs safe s1 and s :: "'a cstate" and env
  proof -
    have weaken: "I fs (cs_consumer s)" using i by (auto simp: I_def)
    have failed: "I fs (cs_consumer s2) \<and> PoisonForced m \<notin> set (cs_log s2)"
      if "dlq_failed msg (s\<lparr>cs_world := w\<rparr>) = (b, s2)" for b s2 w
      using that i dis n by (auto simp: dlq_failed_def Let_def I_def split: if_splits)
    obtain herr k evs w1 where h: "handleWithRetry env (cs_consumer s) msg (cs_world s) = ((herr, k), evs, w1)" by (metis surj_pair)
    show ?thesis
      using p h weaken n failed
      by (cases herr; cases "c_dlq (cs_consumer s)")
        (auto simp: processMessage_def Let_def split: prod.splits sum.splits)
  qed
  have "PoisonForced m \<notin> set (cs_log (consumer_run env fs s))"
    if "I fs (cs_consumer s)" "distinct (map km_Offset (messages fs))" "PoisonForced m \<notin> set (cs_log s)"
    using that
  proof (induction env fs s rule: consumer_run.induct)
    case (2 env fs s)
    then show ?case by (auto simp: I_def Let_def split: prod.splits option.splits)
  next
    case (3 env msg fs s)
    obtain safe s1 where p: "processMessage env msg s = (safe, s1)" by (metis surj_pair)
    note s1 = step [OF 3(4,5,6) p]
    then show ?case using 3 p by (auto simp: Let_def split: prod.splits option.splits)
  qed simp
  moreover have "I fs (cs_consumer s)" using assms(2,3) by (simp add: I_def)
  ultimately show ?thesis using assms(1,4) by blast
qed

text \<open>The broker of \<open>demo_kafka\<close> without any topic refuses every write.\<close>

definition refusing_consumer :: "(string list \<times> instant) consumerEnv" where
  "refusing_consumer = demo_consumer\<lparr>ce_kafka := demo_kafka\<lparr>k_write := (\<lambda>c wr m w. (Some \<lparr>we_unknown = True, we_text = []\<rparr>, w))\<rparr>\<rparr>"

definition main_consumer :: consumer where
  "main_consumer = NewConsumer (DefaultKafkaConfig (- 2) [] ''g'') TopicStreamEnded
     (Some \<lparr>o_MaxRetries = 3, o_RetryDelay = second, o_DLQ = Some (NewDLQWriter (DefaultKafkaConfig (- 2) [] ''g'') [TopicStreamEnded]),
        o_CommitOnDLQFailure = False, o_MaxDLQFails = 3\<rparr>)"

lemma main_consumer_simps [simp]:
  "\<not> commitOnDLQFailure main_consumer" "maxDLQFails main_consumer = 3" "dlqFailCount main_consumer = 0"
  "c_dlq main_consumer \<noteq> None" "maxRetries main_consumer = 3"
  by (simp_all add: main_consumer_def NewConsumer_def)

theorem skipped_message_lost_witness:
  "cs_log (consumer_run refusing_consumer [Message (demo_msg ''bad'' 7), Message (demo_msg ''k'' 8)]
       \<lparr>cs_consumer = main_consumer, cs_monitor = None, cs_world = ([], 0), cs_log = []\<rparr>)
     = [Unsaved (demo_msg ''bad'' 7), Handled (demo_msg ''k'' 8), Committed (demo_msg ''k'' 8) True]
   \<and> resume_offset 0 [Unsaved (demo_msg ''bad'' 7), Handled (demo_msg ''k'' 8), Committed (demo_msg ''k'' 8) True] = Some 9"
  using skipped_message_lost [where c = main_consumer and env = refusing_consumer and ?m1.0 = "demo_msg ''bad'' 7"
      and ?m2.0 = "demo_msg ''k'' 8" and mon = None and w = "([], 0)"]
  by (simp add: refusing_consumer_def demo_consumer_def demo_kafka_def demo_msg_def del: consumer_run.simps)

theorem poison_pill_never_fires_witness:
  "PoisonForced (demo_msg ''bad'' 7) \<notin> set (cs_log (consumer_run refusing_consumer
       [Message (demo_msg ''bad'' 7), FetchError, Message (demo_msg ''bad'' 8), Message (demo_msg ''bad'' 9)]
       \<lparr>cs_consumer = main_consumer, cs_monitor = None, cs_world = ([], 0), cs_log = []\<rparr>))"
  by (rule poison_pill_never_fires) (simp_all add: demo_msg_def)

end
