(* ===== verification/Handlers.thy ===== *)
theory Handlers
  imports Streams Assembler Consumer
begin

text \<open>
  The message handlers of \<open>cmd/server/main.go\<close> (\<open>handleStreamStarted\<close>, \<open>handleStreamEnded\<close>, \<open>handleAssembly\<close>,
  \<open>handleRecordingAssembly\<close>, \<open>handleFrameConvert\<close>): the value of a Kafka message is decoded into the event it carries and given to
  the use case.  Log lines are left out.
\<close>

section \<open>Decoding events\<close>

definition dec_frame_ready :: "json \<Rightarrow> FrameReadyEvent option" where
  "dec_frame_ready j = (if \<not> is_struct j then None else
     Option.bind (dec_str ''eventId'' j) (\<lambda>a. Option.bind (dec_str ''scheduleId'' j) (\<lambda>b.
     Option.bind (dec_str ''sessionId'' j) (\<lambda>c. Option.bind (dec_str ''participantId'' j) (\<lambda>d.
     Option.bind (dec_str ''streamId'' j) (\<lambda>e. Option.bind (dec_str ''streamType'' j) (\<lambda>f.
     Option.bind (dec_str ''frameUrl'' j) (\<lambda>g. Option.bind (dec_time ''capturedAt'' j) (\<lambda>t.
     Option.bind (dec_int ''sequenceNo'' j) (\<lambda>n.
       Some \<lparr>fr_EventID = a, fr_ScheduleID = b, fr_SessionID = c, fr_ParticipantID = d, fr_StreamID = e, fr_StreamType = f,
             fr_FrameURL = g, fr_CapturedAt = t, fr_SequenceNo = n\<rparr>))))))))))"

definition dec_stream_started :: "json \<Rightarrow> StreamStartedEvent option" where
  "dec_stream_started j = (if \<not> is_struct j then None else
     Option.bind (dec_str ''eventId'' j) (\<lambda>a. Option.bind (dec_str ''scheduleId'' j) (\<lambda>b.
     Option.bind (dec_str ''sessionId'' j) (\<lambda>c. Option.bind (dec_str ''participantId'' j) (\<lambda>d.
     Option.bind (dec_str ''streamId'' j) (\<lambda>e. Option.bind (dec_str ''streamType'' j) (\<lambda>f.
     Option.bind (dec_time ''startedAt'' j) (\<lambda>t.
       Some \<lparr>ss_EventID = a, ss_ScheduleID = b, ss_SessionID = c, ss_ParticipantID = d, ss_StreamID = e, ss_StreamType = f,
             ss_StartedAt = t\<rparr>))))))))"

definition dec_stream_ended :: "json \<Rightarrow> StreamEndedEvent option" where
  "dec_stream_ended j = (if \<not> is_struct j then None else
     Option.bind (dec_str ''eventId'' j) (\<lambda>a. Option.bind (dec_str ''scheduleId'' j) (\<lambda>b.
     Option.bind (dec_str ''sessionId'' j) (\<lambda>c. Option.bind (dec_str ''participantId'' j) (\<lambda>d.
     Option.bind (dec_str ''streamId'' j) (\<lambda>e. Option.bind (dec_str ''streamType'' j) (\<lambda>f.
     Option.bind (dec_strings ''segmentKeys'' j) (\<lambda>ks. Option.bind (dec_int ''durationSecs'' j) (\<lambda>n.
     Option.bind (dec_time ''endedAt'' j) (\<lambda>t.
       Some \<lparr>se_EventID = a, se_ScheduleID = b, se_SessionID = c, se_ParticipantID = d, se_StreamID = e, se_StreamType = f,
             se_SegmentKeys = ks, se_Duration = n, se_EndedAt = t\<rparr>))))))))))"

definition dec_assembly_requested :: "json \<Rightarrow> RecordingAssemblyRequestedEvent option" where
  "dec_assembly_requested j = (if \<not> is_struct j then None else
     Option.bind (dec_str ''eventId'' j) (\<lambda>a. Option.bind (dec_str ''streamId'' j) (\<lambda>b.
     Option.bind (dec_str ''scheduleId'' j) (\<lambda>c. Option.bind (dec_str ''sessionId'' j) (\<lambda>d.
     Option.bind (dec_str ''participantId'' j) (\<lambda>e. Option.bind (dec_str ''streamType'' j) (\<lambda>f.
     Option.bind (dec_str ''source'' j) (\<lambda>g. Option.bind (dec_time ''requestedAt'' j) (\<lambda>t.
       Some \<lparr>rq_EventID = a, rq_StreamID = b, rq_ScheduleID = c, rq_SessionID = d, rq_ParticipantID = e, rq_StreamType = f,
             rq_Source = g, rq_RequestedAt = t\<rparr>)))))))))"

lemma those_JStr [simp]:
  "those (map (\<lambda>x. case x of JStr s \<Rightarrow> Some s | JNull \<Rightarrow> Some [] | _ \<Rightarrow> None) (map JStr ks)) = Some ks"
  by (induction ks) auto

lemma codec_frame_ready [simp]: "dec_frame_ready (enc_frame_ready e) = Some e"
  by (simp add: dec_frame_ready_def enc_frame_ready_def is_struct_def dec_defs)

lemma codec_stream_started [simp]: "dec_stream_started (enc_stream_started e) = Some e"
  by (simp add: dec_stream_started_def enc_stream_started_def is_struct_def dec_defs)

lemma codec_stream_ended [simp]: "dec_stream_ended (enc_stream_ended e) = Some e"
  by (simp add: dec_stream_ended_def enc_stream_ended_def is_struct_def dec_strings_def dec_defs del: map_map)

lemma codec_assembly_requested [simp]: "dec_assembly_requested (enc_assembly_requested e) = Some e"
  by (simp add: dec_assembly_requested_def enc_assembly_requested_def is_struct_def dec_defs)

section \<open>Handlers\<close>

text \<open>\<open>json.Unmarshal\<close> of a message value.\<close>

definition unmarshal :: "(json \<Rightarrow> 'e option) \<Rightarrow> kmsg \<Rightarrow> 'e option" where
  "unmarshal dec m = Option.bind (km_Value m) (\<lambda>v. Option.bind (as_json v) dec)"

datatype 'e handlerError = UnmarshalFailed | UseCaseFailed 'e

type_synonym ('e, 'w) handler = "kmsg \<Rightarrow> 'w \<Rightarrow> ('e handlerError + unit) \<times> 'w"

text \<open>The error of the use case is returned as it is.\<close>

definition run_case :: "('e + unit) \<times> 'w \<Rightarrow> ('e handlerError + unit) \<times> 'w" where
  "run_case r = (case r of (Inl e, w) \<Rightarrow> (Inl (UseCaseFailed e), w) | (Inr u, w) \<Rightarrow> (Inr u, w))"

definition handleStreamStarted :: "'w liveEnv \<Rightarrow> ('e, 'w) handler" where
  "handleStreamStarted env msg w =
     (case unmarshal dec_stream_started msg of None \<Rightarrow> (Inl UnmarshalFailed, w)
      | Some e \<Rightarrow> (Inr (), NotifyJoined env (ss_ScheduleID e) (ss_SessionID e) (ss_ParticipantID e) (StreamStartedEvent.ss_StreamID e)
          (StreamStartedEvent.ss_StreamType e) w))"

definition handleStreamEnded :: "'w liveEnv \<Rightarrow> ('e, 'w) handler" where
  "handleStreamEnded env msg w =
     (case unmarshal dec_stream_ended msg of None \<Rightarrow> (Inl UnmarshalFailed, w)
      | Some e \<Rightarrow> (Inr (), NotifyLeft env (se_ScheduleID e) (se_SessionID e) (se_ParticipantID e) (se_StreamID e) (se_StreamType e) w))"

definition handleAssembly :: "('r, 's, 'o, 'b) asmEnv \<Rightarrow> (asmError, ('r, 's, 'o, 'b) asmState) handler" where
  "handleAssembly env msg s =
     (case unmarshal dec_stream_ended msg of None \<Rightarrow> (Inl UnmarshalFailed, s) | Some e \<Rightarrow> run_case (OnStreamEnded env e s))"

definition handleRecordingAssembly :: "('r, 's, 'o, 'b) asmEnv \<Rightarrow> (asmError, ('r, 's, 'o, 'b) asmState) handler" where
  "handleRecordingAssembly env msg s =
     (case unmarshal dec_assembly_requested msg of None \<Rightarrow> (Inl UnmarshalFailed, s) | Some e \<Rightarrow> run_case (AssembleRequested env e s))"

definition handleFrameConvert :: "'w convEnv \<Rightarrow> (convError, int \<times> 'w) handler" where
  "handleFrameConvert env msg s =
     (case unmarshal dec_frame_ready msg of None \<Rightarrow> (Inl UnmarshalFailed, s) | Some e \<Rightarrow> run_case (Convert env e s))"

lemma unmarshal_event [simp]: "unmarshal dec (eventMessage kenv topic key data t) = dec data"
  by (simp add: unmarshal_def eventMessage_def as_json_def)

text \<open>A broker sets topic, partition and offset, and leaves the value alone.\<close>

lemma unmarshal_placed [simp]: "unmarshal dec (m\<lparr>km_Topic := a, km_Partition := p, km_Offset := k\<rparr>) = unmarshal dec m"
  by (simp add: unmarshal_def)

lemma no_event:
  assumes "km_Value m = None \<or> (\<exists>x. km_Value m = Some (Txt x)) \<or> (\<exists>js. km_Value m = Some (Doc (JArr js)))"
  shows "unmarshal dec_frame_ready m = None" "unmarshal dec_stream_ended m = None" "unmarshal dec_assembly_requested m = None"
    "unmarshal dec_stream_started m = None"
  using assms by (auto simp: unmarshal_def as_json_def dec_frame_ready_def dec_stream_ended_def dec_assembly_requested_def
      dec_stream_started_def is_struct_def)

lemmas handler_defs = handleFrameConvert_def handleAssembly_def handleRecordingAssembly_def handleStreamEnded_def handleStreamStarted_def


definition torn_message :: kmsg where
  "torn_message = \<lparr>km_Topic = TopicStreamEnded, km_Partition = 0, km_Offset = 7, km_Key = [], km_Value = Some (Txt ''{''), km_Headers = []\<rparr>"


end
