(* ===== verification/Startup.thy ===== *)
theory Startup
  imports Handlers Monitor Ports Supervisor AIRelay
begin

text \<open>
  \<open>cmd/server/main.go\<close>: how the process is configured from its environment, and how its consumers are wired; and the shared WebRTC API
  of \<open>internal/transport/webrtc/api.go\<close>.  The environment is a function from names to values, empty when unset (\<open>os.Getenv\<close>);
  an invalid setting is fatal or a panic where the code makes it so.
\<close>

section \<open>Numbers from the environment\<close>

type_synonym environ = "string \<Rightarrow> string"

text \<open>
  The value \<open>strconv.Atoi\<close> returns beside its error, which \<open>main\<close> drops: 0 for a syntax error, the nearest representable number
  for one out of range.
\<close>

definition atoi_value :: "string \<Rightarrow> int" where
  "atoi_value s =
     (let (neg, ds) = (case s of [] \<Rightarrow> (False, [])
          | c # cs \<Rightarrow> if c = CHR ''-'' then (True, cs) else if c = CHR ''+'' then (False, cs) else (False, s));
          v = int (digits_val ds)
      in if ds = [] \<or> \<not> list_all is_digit ds then 0
         else if neg then max (- v) (- max_int64 - 1) else min v max_int64)"

definition env_int :: "environ \<Rightarrow> string \<Rightarrow> int \<Rightarrow> int" where
  "env_int env name def = (let v = atoi_value (env name) in if v = 0 then def else v)"

text \<open>Products of \<open>int\<close> and \<open>time.Duration\<close> wrap.\<close>

definition wrap64 :: "int \<Rightarrow> int" where "wrap64 n = sint (word_of_int n :: 64 word)"

definition env_str :: "environ \<Rightarrow> string \<Rightarrow> string \<Rightarrow> string" where
  "env_str env name def = (if env name = [] then def else env name)"

lemma atoi_value_Atoi: "Atoi s = Some n \<Longrightarrow> atoi_value s = n"
  by (auto simp: Atoi_def atoi_value_def Let_def split: list.splits if_splits)

lemma atoi_value_range: "- max_int64 - 1 \<le> atoi_value s \<and> atoi_value s \<le> max_int64"
  by (auto simp: atoi_value_def Let_def max_int64_def split: list.splits prod.splits)

lemma wrap64_id: "- max_int64 - 1 \<le> n \<Longrightarrow> n \<le> max_int64 \<Longrightarrow> wrap64 n = n"
  by (simp add: wrap64_def sint_sbintrunc' max_int64_def signed_take_bit_int_eq_self)

section \<open>Recording options\<close>

record FFmpegIngestOptions =
  fo_Allocator :: PortAllocator
  fo_RecordSem :: nat
  fo_SegmentSeconds :: int
  fo_ReorderQueueSize :: int
  fo_MaxDelayMicros :: int
  fo_MaxRestartAttempts :: int
  fo_StopTimeout :: duration
  fo_HLSEnabled :: bool
  fo_HLSSegmentSeconds :: int
  fo_HLSAudioBitrateK :: int

datatype startError = Fatal string | Panic string

text \<open>\<open>make(chan struct{}, n)\<close> panics for a negative \<open>n\<close>.\<close>

definition buildFFmpegIngestOptions :: "environ \<Rightarrow> startError + FFmpegIngestOptions" where
  "buildFFmpegIngestOptions env =
     (let rangeStart = env_int env ''FFMPEG_INGEST_PORT_RANGE_START'' 40000;
          rangeEnd = env_int env ''FFMPEG_INGEST_PORT_RANGE_END'' 41999
      in case NewPortAllocator rangeStart rangeEnd of
           Inl e \<Rightarrow> Inl (Fatal ''ffmpeg ingest port allocator init failed'')
         | Inr alloc \<Rightarrow>
      let segmentSeconds = env_int env ''FFMPEG_INGEST_SEGMENT_SECONDS'' 30;
          maxConcurrent = env_int env ''FFMPEG_INGEST_MAX_CONCURRENT'' 10;
          maxRestartAttempts = env_int env ''FFMPEG_INGEST_MAX_RESTART_ATTEMPTS'' 3;
          stopTimeoutSecs = env_int env ''FFMPEG_INGEST_STOP_TIMEOUT_SECS'' 60;
          reorderQueueSize = atoi_value (env ''FFMPEG_INGEST_REORDER_QUEUE_SIZE'');
          maxDelayMs = atoi_value (env ''FFMPEG_INGEST_MAX_DELAY_MS'')
      in if maxConcurrent < 0 then Inl (Panic ''makechan: size out of range'')
         else Inr \<lparr>fo_Allocator = alloc, fo_RecordSem = nat maxConcurrent, fo_SegmentSeconds = segmentSeconds,
           fo_ReorderQueueSize = reorderQueueSize, fo_MaxDelayMicros = wrap64 (maxDelayMs * 1000),
           fo_MaxRestartAttempts = maxRestartAttempts, fo_StopTimeout = wrap64 (stopTimeoutSecs * second),
           fo_HLSEnabled = (env ''FFMPEG_INGEST_HLS_ENABLED'' = ''true''),
           fo_HLSSegmentSeconds = env_int env ''FFMPEG_INGEST_HLS_SEGMENT_SECONDS'' 4,
           fo_HLSAudioBitrateK = env_int env ''FFMPEG_INGEST_HLS_AUDIO_BITRATE_K'' 128\<rparr>)"

section \<open>Origins, ICE servers, storage\<close>

definition parseAllowedOrigins :: "environ \<Rightarrow> string list" where
  "parseAllowedOrigins env =
     (let raw0 = env ''ALLOWED_ORIGINS''; raw = (if raw0 = [] then env ''ALLOWED_ORIGIN'' else raw0)
      in if raw = [] then [''http://localhost:5173'']
         else filter (\<lambda>t. t \<noteq> []) (map TrimSpace (split_on (CHR '','') raw)))"

record ICEServer =
  URLs :: "string list"
  Username :: string
  Credential :: string

definition buildICEServers :: "environ \<Rightarrow> ICEServer list" where
  "buildICEServers env =
     (if env ''STUN_URLS'' = [] then []
      else [\<lparr>URLs = split_on (CHR '','') (env ''STUN_URLS''), Username = [], Credential = []\<rparr>])
     @ (if env ''TURN_URL'' = [] then []
        else [\<lparr>URLs = [env ''TURN_URL''], Username = env ''TURN_USERNAME'', Credential = env ''TURN_CREDENTIAL''\<rparr>])"

definition storage_config :: "environ \<Rightarrow> storageConfig" where
  "storage_config env =
     (let cfg = DefaultConfig (env ''STORAGE_ENDPOINT'')
      in cfg\<lparr>FrameBucket := env_str env ''STORAGE_FRAME_BUCKET'' (FrameBucket cfg),
             RecordingBucket := env_str env ''STORAGE_RECORDING_BUCKET'' (RecordingBucket cfg),
             Region := env_str env ''STORAGE_REGION'' (Region cfg),
             UseSSL := (env ''STORAGE_USE_SSL'' = ''true''),
             cfg_PresignExpiry := (if env ''STORAGE_PRESIGN_MINUTES'' = [] then cfg_PresignExpiry cfg
               else case Atoi (env ''STORAGE_PRESIGN_MINUTES'') of None \<Rightarrow> cfg_PresignExpiry cfg
                 | Some m \<Rightarrow> wrap64 (m * minute))\<rparr>)"

text \<open>\<open>ensureStorage\<close>: the client, then the buckets; a failure of either is fatal.\<close>

definition ensureStorage :: "('b, 'w) s3 \<Rightarrow> environ \<Rightarrow> bool \<Rightarrow> 'w \<Rightarrow> (startError + storageConfig) \<times> 'w" where
  "ensureStorage send env clientOk w =
     (if \<not> clientOk then (Inl (Fatal ''storage init failed''), w)
      else (case EnsureBuckets send (storage_config env) w of
          (Inl _, w1) \<Rightarrow> (Inl (Fatal ''ensure bucket failed''), w1)
        | (Inr _, w1) \<Rightarrow> (Inr (storage_config env), w1)))"

section \<open>Single settings\<close>

definition frame_interval :: "environ \<Rightarrow> duration" where
  "frame_interval env = wrap64 (env_int env ''FRAME_INTERVAL_SECS'' 5 * second)"

definition assembly_grace :: "environ \<Rightarrow> duration" where
  "assembly_grace env = wrap64 (env_int env ''ASSEMBLY_GRACE_PERIOD_SECS'' 90 * second)"

definition watchdog_interval :: "environ \<Rightarrow> duration" where
  "watchdog_interval env = wrap64 (atoi_value (env ''ASSEMBLY_WATCHDOG_INTERVAL_SECS'') * second)"

definition live_rewind_window :: "environ \<Rightarrow> duration" where
  "live_rewind_window env =
     (case (env ''LIVE_REWIND_WINDOW_MINUTES'', Atoi (env ''LIVE_REWIND_WINDOW_MINUTES'')) of
        ([], _) \<Rightarrow> 15 * minute | (_, Some mins) \<Rightarrow> if 0 \<le> mins then wrap64 (mins * minute) else 15 * minute
      | (_, None) \<Rightarrow> 15 * minute)"

definition sweep_ttl :: "environ \<Rightarrow> duration" where
  "sweep_ttl env = wrap64 (env_int env ''FFMPEG_INGEST_TEMP_TTL_HOURS'' 24 * 60 * minute)"

definition nat_ips :: "environ \<Rightarrow> string list" where
  "nat_ips env = (if env ''WEBRTC_NAT_1TO1_IP'' = [] then [] else split_on (CHR '','') (env ''WEBRTC_NAT_1TO1_IP''))"

definition relay_options :: "environ \<Rightarrow> AIRelayOptions" where
  "relay_options env = \<lparr>ro_Enabled = (env ''AI_RELAY_ENABLED'' = ''true''), ro_URL = env ''AI_WEBRTC_URL'',
     ro_QueueSize = atoi_value (env ''AI_RELAY_QUEUE_SIZE'')\<rparr>"

definition kafka_config :: "int \<Rightarrow> environ \<Rightarrow> Config" where
  "kafka_config firstOffset env =
     NewKafkaConfig (DefaultKafkaConfig firstOffset (split_on (CHR '','') (env_str env ''KAFKA_BROKERS'' ''localhost:9092''))
         (env_str env ''KAFKA_CONSUMER_GROUP'' ''vox-streaming''))
       (env ''KAFKA_TLS_ENABLED'' = ''true'') (env ''KAFKA_USERNAME'') (env ''KAFKA_PASSWORD'')"


section \<open>Consumers and alerts\<close>

definition mainTopics :: "string list" where
  "mainTopics = [TopicFrameReady, TopicStreamStarted, TopicStreamEnded, TopicRecordingAssemblyRequested, TopicRecordingPartChanged,
     TopicScheduleClosed]"

definition main_dlq :: "int \<Rightarrow> environ \<Rightarrow> DLQWriter" where
  "main_dlq firstOffset env = NewDLQWriter (kafka_config firstOffset env) mainTopics"

definition with_group :: "Config \<Rightarrow> string \<Rightarrow> Config" where "with_group cfg g = cfg\<lparr>kc_GroupID := g\<rparr>"

definition main_options :: "DLQWriter \<Rightarrow> int \<Rightarrow> duration \<Rightarrow> bool \<Rightarrow> int \<Rightarrow> ConsumerOptions option" where
  "main_options dlq retries delay onFailure fails = Some \<lparr>o_MaxRetries = retries, o_RetryDelay = delay, o_DLQ = Some dlq,
     o_CommitOnDLQFailure = onFailure, o_MaxDLQFails = fails\<rparr>"

text \<open>The five consumers in the order of \<open>allConsumers\<close>, each with the configuration it reads with.\<close>

definition main_consumers :: "int \<Rightarrow> int \<Rightarrow> environ \<Rightarrow> (Config \<times> consumer) list" where
  "main_consumers firstOffset lastOffset env =
     (let cfg = kafka_config firstOffset env; dlq = main_dlq firstOffset env;
          frame = (with_group cfg ''vox-frame-converter'')\<lparr>kc_StartOffset := lastOffset\<rparr>;
          started = with_group cfg (kc_GroupID cfg @ ''.stream-started'');
          ended = with_group cfg (kc_GroupID cfg @ ''.stream-ended'');
          assembler = with_group cfg ''vox-assembler'';
          requested = with_group assembler (kc_GroupID assembler @ ''.recording-requested'')
      in [(frame, NewConsumer frame TopicFrameReady (main_options dlq 2 (300 * millisecond) True 0)),
          (started, NewConsumer started TopicStreamStarted (main_options dlq 5 second False 10)),
          (ended, NewConsumer ended TopicStreamEnded (main_options dlq 5 second False 10)),
          (assembler, NewConsumer assembler TopicStreamEnded (main_options dlq 10 (5 * second) False 3)),
          (requested, NewConsumer requested TopicRecordingAssemblyRequested (main_options dlq 10 (5 * second) False 3))])"

definition consumer_key :: "consumer \<Rightarrow> ConsumerKey" where
  "consumer_key c = \<lparr>ck_Topic = c_topic c, ck_GroupID = c_groupID c\<rparr>"

definition main_alerts :: "int \<Rightarrow> int \<Rightarrow> environ \<Rightarrow> (ConsumerKey \<rightharpoonup> AlertConfig)" where
  "main_alerts firstOffset lastOffset env =
     BuildAlertConfigs (map (consumer_key \<circ> snd) (main_consumers firstOffset lastOffset env)) DefaultAlertConfigs mainOverrides"

lemma kafka_group [simp]: "kc_GroupID (kafka_config fo env) = env_str env ''KAFKA_CONSUMER_GROUP'' ''vox-streaming''"
  by (simp add: kafka_config_def NewKafkaConfig_def DefaultKafkaConfig_def)

lemma kafka_start [simp]: "kc_StartOffset (kafka_config fo env) = fo"
  by (simp add: kafka_config_def NewKafkaConfig_def DefaultKafkaConfig_def)

lemma BuildAlertConfigs_covers: "k \<in> set ks \<Longrightarrow> BuildAlertConfigs ks d ov k \<noteq> None"
proof -
  have s: "add_alert_config d ov a m b \<noteq> None" if "m b \<noteq> None \<or> b = a" for a b m
    using that by (auto simp: add_alert_config_def split: option.split)
  have "fold (add_alert_config d ov) ks m k \<noteq> None" if "m k \<noteq> None \<or> k \<in> set ks" for m
    using that
  proof (induction ks arbitrary: m)
    case (Cons a ks)
    show ?case using Cons.IH [of "add_alert_config d ov a m"] Cons.prems s [of m k a] by auto
  qed simp
  then show "k \<in> set ks \<Longrightarrow> BuildAlertConfigs ks d ov k \<noteq> None" by (simp add: BuildAlertConfigs_def)
qed

lemma tails_differ: "length x = length y \<Longrightarrow> x \<noteq> y \<Longrightarrow> g @ x \<noteq> h @ y"
  by simp

text \<open>The suffixes of the group names tell the five groups apart, whatever the configured group.\<close>

lemma groups_distinct:
  "distinct [''vox-frame-converter'', g @ ''.stream-started'', g @ ''.stream-ended'', ''vox-assembler'', ''vox-assembler.recording-requested'']"
proof -
  have "g @ ''.stream-started'' \<noteq> ''vox-'' @ ''frame-converter''" "g @ ''.stream-started'' \<noteq> ''vox-assembler.reco'' @ ''rding-requested''"
    "g @ ''.stream-ended'' \<noteq> ''vox-fr'' @ ''ame-converter''" "g @ ''.stream-ended'' \<noteq> ''vox-assembler.record'' @ ''ing-requested''"
    "g @ ''.stream-ended'' \<noteq> [] @ ''vox-assembler''"
    by (rule tails_differ; simp)+
  moreover have "length (g @ ''.stream-started'') \<noteq> length ''vox-assembler''" by simp
  then have "g @ ''.stream-started'' \<noteq> ''vox-assembler''" by metis
  moreover have "g @ ''.stream-started'' \<noteq> g @ ''.stream-ended''" by simp
  moreover have "''vox-'' @ ''frame-converter'' = ''vox-frame-converter''" "''vox-fr'' @ ''ame-converter'' = ''vox-frame-converter''"
    "''vox-assembler.reco'' @ ''rding-requested'' = ''vox-assembler.recording-requested''"
    "''vox-assembler.record'' @ ''ing-requested'' = ''vox-assembler.recording-requested''" "[] @ ''vox-assembler'' = ''vox-assembler''"
    by simp_all
  moreover have "distinct [''vox-frame-converter'', ''vox-assembler'', ''vox-assembler.recording-requested'']" by simp
  ultimately show ?thesis by (simp only: distinct.simps list.set insert_iff empty_iff) metis
qed


section \<open>What a bad setting does\<close>

text \<open>No origin that is configured is blank or padded; but a list of blanks is the empty list.\<close>

lemma TrimSpace_trimmed: "x \<in> set (parseAllowedOrigins env) \<Longrightarrow> x \<noteq> []"
  by (auto simp: parseAllowedOrigins_def Let_def split: if_splits)

text \<open>
  The CORS middleware is given the list as it is and, as its documentation says, allows every origin when the list is empty: so a list of
  blanks, meant to allow nothing, allows everything, with credentials.
\<close>

lemma blank_origins_allow_all:
  assumes "\<And>o'. cors [] o'" and "env ''ALLOWED_ORIGINS'' = '' , ''"
  shows "cors (parseAllowedOrigins env) ''https://elsewhere.example''"
  using assms(1) by (simp add: parseAllowedOrigins_def assms(2) TrimSpace_def is_space_def)

text \<open>Negative numbers pass the test for zero: a negative number of recorders panics, a negative pause reaches a ticker.\<close>

lemma negative_settings:
  "env ''FFMPEG_INGEST_PORT_RANGE_START'' = [] \<Longrightarrow> env ''FFMPEG_INGEST_PORT_RANGE_END'' = [] \<Longrightarrow> env ''FFMPEG_INGEST_MAX_CONCURRENT'' = ''-1''
     \<Longrightarrow> \<exists>e. buildFFmpegIngestOptions env = Inl e"
  "env ''FRAME_INTERVAL_SECS'' = ''-5'' \<Longrightarrow> frame_interval env = -5 * second"
  "env ''STORAGE_PRESIGN_MINUTES'' = ''0'' \<Longrightarrow> cfg_PresignExpiry (storage_config env) = 0"
  by (auto simp: buildFFmpegIngestOptions_def Let_def env_int_def atoi_value_def is_digit_def digits_val_def digit_val_def max_int64_def
      frame_interval_def storage_config_def Atoi_def wrap64_id second_def split: sum.splits)


section \<open>The shared WebRTC API\<close>

record codec =
  cd_Mime :: string
  cd_ClockRate :: nat
  cd_Channels :: nat
  cd_Fmtp :: string
  cd_Feedback :: "(string \<times> string) list"
  cd_PayloadType :: nat

definition videoFeedback :: "(string \<times> string) list" where
  "videoFeedback = [(''goog-remb'', []), (''ccm'', ''fir''), (''nack'', []), (''nack'', ''pli'')]"

definition h264_codec :: "string \<Rightarrow> nat \<Rightarrow> codec" where
  "h264_codec profile payload = \<lparr>cd_Mime = mimeH264, cd_ClockRate = 90000, cd_Channels = 0,
     cd_Fmtp = ''level-asymmetry-allowed=1;packetization-mode=1;profile-level-id='' @ profile, cd_Feedback = videoFeedback,
     cd_PayloadType = payload\<rparr>"

definition opus_codec :: codec where
  "opus_codec = \<lparr>cd_Mime = ''audio/opus'', cd_ClockRate = 48000, cd_Channels = 2, cd_Fmtp = [], cd_Feedback = [], cd_PayloadType = 111\<rparr>"

text \<open>The codecs in the order they are registered, each with the text of its error.\<close>

definition api_codecs :: "(codec \<times> string) list" where
  "api_codecs = [(h264_codec ''42e01f'' 102, ''register H.264 42e01f''), (h264_codec ''640028'' 104, ''register H.264 640028''),
     (opus_codec, ''register Opus'')]"

fun register_all :: "(codec \<Rightarrow> bool) \<Rightarrow> (codec \<times> string) list \<Rightarrow> string + codec list" where
  "register_all accepts [] = Inr []"
| "register_all accepts ((c, err) # cs) =
     (if \<not> accepts c then Inl err else (case register_all accepts cs of Inl e \<Rightarrow> Inl e | Inr rest \<Rightarrow> Inr (c # rest)))"

definition registerCodecs :: "(codec \<Rightarrow> bool) \<Rightarrow> string + codec list" where
  "registerCodecs accepts = register_all accepts api_codecs"

record webrtcAPI =
  api_Codecs :: "codec list"
  api_MuxPort :: "int option"
  api_HostIPs :: "string list"

text \<open>\<open>listen\<close>: can the UDP port be opened; the second component counts the sockets left open.\<close>

definition NewWebRTCAPI :: "(codec \<Rightarrow> bool) \<Rightarrow> (int \<Rightarrow> bool) \<Rightarrow> int \<Rightarrow> string list \<Rightarrow> (string + webrtcAPI) \<times> nat" where
  "NewWebRTCAPI accepts listen udpPort natIPs =
     (case registerCodecs accepts of Inl e \<Rightarrow> (Inl e, 0)
      | Inr cs \<Rightarrow>
        if 0 < udpPort \<and> \<not> listen udpPort then (Inl (''listen udp mux :'' @ Itoa udpPort), 0)
        else (Inr \<lparr>api_Codecs = cs, api_MuxPort = (if 0 < udpPort then Some udpPort else None), api_HostIPs = natIPs\<rparr>,
              if 0 < udpPort then 1 else 0))"

lemma register_all_ok: "register_all accepts cs = Inr ds \<Longrightarrow> ds = map fst cs"
  by (induction accepts cs arbitrary: ds rule: register_all.induct) (auto split: sum.splits if_splits)

text \<open>
  Every peer negotiates from the same codecs, with different payload types; the video ones all offer retransmission and key frame requests, and are
  the ones \<open>handleVideoTrack\<close> records.
\<close>

lemma api_negotiates:
  assumes "fst (NewWebRTCAPI accepts listen udpPort natIPs) = Inr api"
  shows "distinct (map cd_PayloadType (api_Codecs api))" and "api_HostIPs api = natIPs"
    and "\<forall>c \<in> set (api_Codecs api). cd_Mime c = mimeH264 \<longrightarrow> (''nack'', []) \<in> set (cd_Feedback c) \<and> (''nack'', ''pli'') \<in> set (cd_Feedback c)"
proof -
  have c: "api_Codecs api = map fst api_codecs" and h: "api_HostIPs api = natIPs"
    using assms by (auto simp: NewWebRTCAPI_def registerCodecs_def dest!: register_all_ok split: sum.splits if_splits)
  show "distinct (map cd_PayloadType (api_Codecs api))" "api_HostIPs api = natIPs"
    by (simp_all add: c h api_codecs_def h264_codec_def opus_codec_def)
  show "\<forall>c \<in> set (api_Codecs api). cd_Mime c = mimeH264 \<longrightarrow> (''nack'', []) \<in> set (cd_Feedback c) \<and> (''nack'', ''pli'') \<in> set (cd_Feedback c)"
    by (simp add: c api_codecs_def h264_codec_def opus_codec_def videoFeedback_def mimeH264_def)
qed

end
