(* ===== verification/Ops.thy ===== *)
theory Ops
  imports Monitor Storage Auth LiveManifest
begin

text \<open>
  The operational edges of the service: readiness (\<open>internal/healthcheck/check.go\<close>, \<open>internal/transport/http/health.go\<close>,
  \<open>internal/transport/grpc/server/health.go\<close>), the alert sinks (\<open>internal/infrastructure/queue/alert.go\<close>), the sweep of left-over work
  directories (\<open>internal/recorder/sweep.go\<close>), the exam service client
  (\<open>internal/transport/grpc/client/exam.go\<close>) and the routing table (\<open>internal/transport/http/server.go\<close>).
\<close>

section \<open>Readiness\<close>

record CheckResult =
  cr_Status :: string
  cr_Message :: string

definition check_result :: "string option \<Rightarrow> CheckResult" where
  "check_result r = (case r of None \<Rightarrow> \<lparr>cr_Status = ''ok'', cr_Message = []\<rparr> | Some e \<Rightarrow> \<lparr>cr_Status = ''error'', cr_Message = e\<rparr>)"

text \<open>The three checks, in the order they are started; each is an error text or none.\<close>

record pings =
  ping_redis :: "string option"
  ping_kafka :: "string option"
  ping_storage :: "string option"

definition checks :: "pings \<Rightarrow> (string \<times> string option) list" where
  "checks p = [(''redis'', ping_redis p), (''kafka'', ping_kafka p), (''storage'', ping_storage p)]"

text \<open>They finish in any order, each storing its result under the mutex.\<close>

definition store_results :: "(string \<times> string option) list \<Rightarrow> (string \<times> CheckResult) list" where
  "store_results done = fold (\<lambda>(name, r). AList.update name (check_result r)) done []"

definition all_ok :: "(string \<times> CheckResult) list \<Rightarrow> bool" where
  "all_ok results \<longleftrightarrow> \<not> list_ex (\<lambda>(_, r). cr_Status r = ''error'') results"

definition CheckAll :: "(string \<times> string option) list \<Rightarrow> bool \<times> (string \<times> CheckResult) list" where
  "CheckAll done = (let results = store_results done in (all_ok results, results))"

datatype httpReply = Reply int string "(string \<times> CheckResult) list"

definition ServeReadyz :: "(string \<times> string option) list \<Rightarrow> httpReply" where
  "ServeReadyz done = (case CheckAll done of (ok, results) \<Rightarrow> if ok then Reply 200 ''ok'' results else Reply 503 ''error'' results)"

definition HealthPing :: "(string \<times> string option) list \<Rightarrow> bool \<times> string" where
  "HealthPing done = (if fst (CheckAll done) then (True, ''ok'') else (False, ''streaming service is not ready''))"

lemma store_results_map:
  "distinct (map fst done) \<Longrightarrow> map_of (fold (\<lambda>(name, r). AList.update name (check_result r)) done acc) k
     = (case map_of done k of Some r \<Rightarrow> Some (check_result r) | None \<Rightarrow> map_of acc k)"
proof (induction "done" arbitrary: acc)
  case (Cons d ds)
  obtain n r where d: "d = (n, r)" by fastforce
  have "map_of ds n = None" using Cons.prems by (simp add: d map_of_eq_None_iff)
  then show ?case using Cons.prems Cons.IH [of "AList.update n (check_result r) acc"]
    by (cases "k = n") (simp_all add: d update_conv' split: option.split)
qed simp

lemma insert_chain: "L \<subseteq> A \<union> U \<Longrightarrow> U \<subseteq> insert c S \<Longrightarrow> B = insert c A \<Longrightarrow> L \<subseteq> B \<union> S"
  by blast

lemma store_results_values:
  "snd ` set (fold (\<lambda>(name, r). AList.update name (check_result r)) done acc) \<subseteq> check_result ` snd ` set done \<union> snd ` set acc"
proof (induction "done" arbitrary: acc)
  case (Cons d ds)
  obtain n r where d: "d = (n, r)" by fastforce
  have "set (AList.update n (check_result r) acc) \<subseteq> insert (n, check_result r) (set acc)" by (rule set_update_subset)
  then have u: "snd ` set (AList.update n (check_result r) acc) \<subseteq> insert (check_result r) (snd ` set acc)" by (auto intro: rev_image_eqI)
  have f: "snd ` set (fold (\<lambda>(name, r). AList.update name (check_result r)) (d # ds) acc)
      \<subseteq> check_result ` snd ` set ds \<union> snd ` set (AList.update n (check_result r) acc)"
    using Cons.IH [of "AList.update n (check_result r) acc"] by (simp add: d)
  show ?case by (rule insert_chain [OF f u]) (simp add: d)
qed simp

lemma checks_order:
  assumes "mset done = mset (checks p)"
  shows "distinct (map fst done)" and "set done = set (checks p)"
proof -
  show "set done = set (checks p)" using assms by (metis set_mset_mset)
  have "mset (map fst done) = mset (map fst (checks p))" using assms by (metis mset_map)
  moreover have "distinct (map fst (checks p))" by (simp add: checks_def)
  ultimately show "distinct (map fst done)" by (metis distinct_count_atmost_1 set_mset_mset)
qed

text \<open>
  Whatever order the three checks finish in, readiness is the same: the service is ready, over HTTP and over gRPC, exactly when none of them failed,
  and each result is reported under its name.
\<close>

theorem readiness:
  assumes "mset done = mset (checks p)"
  shows "(fst (CheckAll done) \<longleftrightarrow> ping_redis p = None \<and> ping_kafka p = None \<and> ping_storage p = None)
    \<and> (fst (HealthPing done) \<longleftrightarrow> fst (CheckAll done))
    \<and> ServeReadyz done = Reply (if fst (CheckAll done) then 200 else 503) (if fst (CheckAll done) then ''ok'' else ''error'') (store_results done)
    \<and> map_of (store_results done) = [''redis'' \<mapsto> check_result (ping_redis p), ''kafka'' \<mapsto> check_result (ping_kafka p),
         ''storage'' \<mapsto> check_result (ping_storage p)]"
proof -
  note o = checks_order [OF assms]
  have same: "map_of done = map_of (checks p)"
    using o by (intro map_of_inject_set [THEN iffD2]) (auto simp: checks_def)
  have m: "map_of (store_results done) = [''redis'' \<mapsto> check_result (ping_redis p), ''kafka'' \<mapsto> check_result (ping_kafka p),
      ''storage'' \<mapsto> check_result (ping_storage p)]"
    by (rule ext) (simp add: store_results_def store_results_map [OF o(1)] same checks_def split: option.split)
  have v: "snd ` set (store_results done) \<subseteq> {check_result (ping_redis p), check_result (ping_kafka p), check_result (ping_storage p)}"
    using store_results_values [of "done" "[]"] o(2) by (auto simp: store_results_def checks_def)
  have k: "(n, check_result r) \<in> set (store_results done)" if "(n, r) \<in> set (checks p)" for n r
    using that m by (intro map_of_SomeD) (auto simp: checks_def)
  have "fst (CheckAll done) \<longleftrightarrow> ping_redis p = None \<and> ping_kafka p = None \<and> ping_storage p = None"
  proof
    assume ok: "fst (CheckAll done)"
    have "r = None" if "(n, r) \<in> set (checks p)" for n r
      using k [OF that] ok by (cases r) (auto simp: CheckAll_def Let_def all_ok_def list_ex_iff check_result_def)
    then show "ping_redis p = None \<and> ping_kafka p = None \<and> ping_storage p = None" by (auto simp: checks_def)
  next
    assume "ping_redis p = None \<and> ping_kafka p = None \<and> ping_storage p = None"
    with v have "snd ` set (store_results done) \<subseteq> {check_result None}" by auto
    then show "fst (CheckAll done)" by (auto simp: CheckAll_def Let_def all_ok_def list_ex_iff check_result_def)
  qed
  with m show ?thesis by (simp add: HealthPing_def ServeReadyz_def CheckAll_def Let_def)
qed

lemma readiness_witness:
  "fst (CheckAll [(''kafka'', Some ''eof''), (''storage'', None), (''redis'', None)]) = False"
  using readiness [of "[(''kafka'', Some ''eof''), (''storage'', None), (''redis'', None)]"
      "\<lparr>ping_redis = None, ping_kafka = Some ''eof'', ping_storage = None\<rparr>"]
  by (simp add: checks_def)


section \<open>Alert sinks\<close>

text \<open>An alert function acts on the outside world.  \<open>render\<close> is the text of the message, \<open>rfc3339\<close> of the time.\<close>

type_synonym 'w alertFunc = "Alert \<Rightarrow> 'w \<Rightarrow> 'w"

definition alert_level_text :: "kafkaAlertLevel \<Rightarrow> string" where
  "alert_level_text l = (case l of AlertWarning \<Rightarrow> ''WARNING'' | AlertCritical \<Rightarrow> ''CRITICAL'')"

definition mrkdwn :: "string \<Rightarrow> json" where "mrkdwn t = JObj [(''type'', JStr ''mrkdwn''), (''text'', JStr t)]"

definition slack_line :: "string \<Rightarrow> string \<Rightarrow> string" where "slack_line title v = ''*'' @ title @ '':*'' @ [CHR 0x0A] @ v"

definition slack_code :: "string \<Rightarrow> string" where "slack_code v = [CHR 0x60] @ v @ [CHR 0x60]"

definition slack_payload :: "(alertMessage \<Rightarrow> string) \<Rightarrow> (instant \<Rightarrow> string) \<Rightarrow> Alert \<Rightarrow> json" where
  "slack_payload render rfc3339 alert =
     (let (emoji, color) = (if a_Level alert = AlertCritical then ('':red_circle:'', ''#DC3545'') else ('':warning:'', ''#FFC107''));
          headline = emoji @ '' *['' @ alert_level_text (a_Level alert) @ ''] Kafka Alert - '' @ a_Topic alert @ ''*'' @ [CHR 0x0A]
            @ render (a_Message alert)
      in JObj [(''attachments'', JArr [JObj [(''color'', JStr color), (''blocks'', JArr [
           JObj [(''type'', JStr ''section''), (''text'', mrkdwn headline)],
           JObj [(''type'', JStr ''section''), (''fields'', JArr [
             mrkdwn (slack_line ''Topic'' (slack_code (a_Topic alert))), mrkdwn (slack_line ''Group'' (slack_code (a_GroupID alert))),
             mrkdwn (slack_line ''Value'' (Itoa (a_Value alert))), mrkdwn (slack_line ''Threshold'' (Itoa (a_Threshold alert))),
             mrkdwn (slack_line ''Time'' (rfc3339 (a_At alert)))])]])]])])"

text \<open>\<open>SlackAlert\<close> posts once; whatever comes back is only logged.\<close>

definition SlackAlert :: "(string \<Rightarrow> json \<Rightarrow> 'w \<Rightarrow> int option \<times> 'w) \<Rightarrow> (alertMessage \<Rightarrow> string) \<Rightarrow> (instant \<Rightarrow> string) \<Rightarrow> string \<Rightarrow> 'w alertFunc" where
  "SlackAlert post render rfc3339 webhookURL alert w = snd (post webhookURL (slack_payload render rfc3339 alert) w)"

definition ChainAlert :: "'w alertFunc list \<Rightarrow> 'w alertFunc" where
  "ChainAlert fns alert w = fold (\<lambda>fn. fn alert) fns w"

text \<open>\<open>main\<close> logs every alert and posts it when a webhook is configured.\<close>

definition main_alert :: "'w alertFunc \<Rightarrow> 'w alertFunc \<Rightarrow> string \<Rightarrow> 'w alertFunc" where
  "main_alert log_alert slack webhook = (if webhook \<noteq> [] then ChainAlert [log_alert, slack] else log_alert)"

lemma ChainAlert_simps [simp]:
  "ChainAlert [] alert w = w" "ChainAlert (fn # fns) alert w = ChainAlert fns alert (fn alert w)"
  by (simp_all add: ChainAlert_def)

lemma ChainAlert_append: "ChainAlert (fs @ gs) alert w = ChainAlert gs alert (ChainAlert fs alert w)"
  by (simp add: ChainAlert_def)

section \<open>The sweep of left-over work directories\<close>

definition tempDirSweepInterval :: duration where "tempDirSweepInterval = 30 * minute"

record dirEntry =
  de_Name :: string
  de_IsDir :: bool
  de_ModTime :: "instant option"

text \<open>The directories one sweep removes; \<^const>\<open>None\<close>: the directory cannot be read, or the entry's info.\<close>

definition sweepTempDir :: "duration \<Rightarrow> instant \<Rightarrow> dirEntry list option \<Rightarrow> string list" where
  "sweepTempDir ttl now entries = (case entries of None \<Rightarrow> [] | Some es \<Rightarrow>
     map de_Name (filter (\<lambda>e. de_IsDir e \<and> (case de_ModTime e of None \<Rightarrow> False | Some m \<Rightarrow> \<not> now - ttl < m)) es))"

text \<open>The first sweep at once, then one per tick; none for a non-positive \<open>ttl\<close>.\<close>

definition StartTempDirSweep :: "duration \<Rightarrow> (instant \<times> dirEntry list option) list \<Rightarrow> string list" where
  "StartTempDirSweep ttl ticks = (if ttl \<le> 0 then [] else concat (map (\<lambda>(now, es). sweepTempDir ttl now es) ticks))"

lemma sweep_spares_young:
  assumes "n \<in> set (StartTempDirSweep ttl ticks)"
  shows "0 < ttl \<and> (\<exists>now es e m. (now, Some es) \<in> set ticks \<and> e \<in> set es \<and> de_Name e = n \<and> de_ModTime e = Some m \<and> ttl \<le> now - m)"
  using assms by (fastforce simp: StartTempDirSweep_def sweepTempDir_def split: if_splits option.splits)

text \<open>
  A directory's modification time moves only when an entry of its own is made or removed: that of a stream's work directory when an attempt's
  sub-directory is created, not when ffmpeg writes segments below it.  So a recording that has run in one attempt for the length of \<open>ttl\<close>
  is swept away while it is being written.
\<close>

lemma live_recording_swept:
  assumes "0 < ttl" and "ttl \<le> now - attemptStarted"
  shows "stream \<in> set (StartTempDirSweep ttl [(now, Some [\<lparr>de_Name = stream, de_IsDir = True, de_ModTime = Some attemptStarted\<rparr>])])"
  using assms by (simp add: StartTempDirSweep_def sweepTempDir_def)

section \<open>The exam service client\<close>

record examClientConfig =
  ex_Addr :: string
  ex_CAFile :: string
  ex_Token :: string

record examClient =
  xc_tls :: bool
  xc_token :: "(string \<times> bool) option"
  xc_addr :: string

datatype examError = LoadCACert | DialFailed | CallFailed string | UpdateRejected string | BadState string

text \<open>Per-call credentials: the metadata and whether they insist on TLS.\<close>

definition NewServiceToken :: "string \<Rightarrow> bool \<Rightarrow> string \<times> bool" where "NewServiceToken token requireTLS = (token, requireTLS)"

definition GetRequestMetadata :: "string \<times> bool \<Rightarrow> (string \<times> string) list" where
  "GetRequestMetadata t = [(''authorization'', ''Bearer '' @ fst t)]"

definition RequireTransportSecurity :: "string \<times> bool \<Rightarrow> bool" where "RequireTransportSecurity t = snd t"

definition NewExamClient :: "(string \<Rightarrow> bool) \<Rightarrow> bool \<Rightarrow> examClientConfig \<Rightarrow> examError + examClient" where
  "NewExamClient loadCA dialOk cfg =
     (if ex_CAFile cfg \<noteq> [] \<and> \<not> loadCA (ex_CAFile cfg) then Inl LoadCACert
      else if \<not> dialOk then Inl DialFailed
      else Inr \<lparr>xc_tls = (ex_CAFile cfg \<noteq> []),
             xc_token = (if ex_Token cfg = [] then None else Some (NewServiceToken (ex_Token cfg) (ex_CAFile cfg \<noteq> []))),
             xc_addr = ex_Addr cfg\<rparr>)"

datatype connectivity = Idle | Connecting | Ready | TransientFailure | Shutdown

definition exam_ping :: "connectivity \<Rightarrow> examError + unit" where
  "exam_ping st = (case st of TransientFailure \<Rightarrow> Inl (BadState ''TRANSIENT_FAILURE'') | Shutdown \<Rightarrow> Inl (BadState ''SHUTDOWN'') | _ \<Rightarrow> Inr ())"

record validateRequest =
  vr_ScheduleId :: string
  vr_CandidateId :: string
  vr_ExamSessionId :: string
  vr_StreamType :: string

text \<open>The generated client is a parameter: an error text or the response.\<close>

definition ValidateAccess :: "(validateRequest \<Rightarrow> 'w \<Rightarrow> (string + (bool \<times> string)) \<times> 'w) \<Rightarrow> string \<Rightarrow> string \<Rightarrow> string \<Rightarrow> string \<Rightarrow> 'w
    \<Rightarrow> (examError + (bool \<times> string)) \<times> 'w" where
  "ValidateAccess rpc scheduleID participantID sessionID streamType w =
     (case rpc \<lparr>vr_ScheduleId = scheduleID, vr_CandidateId = participantID, vr_ExamSessionId = sessionID, vr_StreamType = streamType\<rparr> w of
        (Inl e, w1) \<Rightarrow> (Inl (CallFailed e), w1) | (Inr r, w1) \<Rightarrow> (Inr r, w1))"

record updateRequest =
  ur_StreamId :: string
  ur_ScheduleId :: string
  ur_RecordingUrl :: string
  ur_DurationSecs :: int

definition UpdateRecording :: "(updateRequest \<Rightarrow> 'w \<Rightarrow> (string + bool) \<times> 'w) \<Rightarrow> string \<Rightarrow> string \<Rightarrow> string \<Rightarrow> int \<Rightarrow> 'w \<Rightarrow> (examError + unit) \<times> 'w" where
  "UpdateRecording rpc streamID scheduleID recordingURL durationSecs w =
     (case rpc \<lparr>ur_StreamId = streamID, ur_ScheduleId = scheduleID, ur_RecordingUrl = recordingURL, ur_DurationSecs = durationSecs\<rparr> w of
        (Inl e, w1) \<Rightarrow> (Inl (CallFailed e), w1)
      | (Inr success, w1) \<Rightarrow> (if success then Inr () else Inl (UpdateRejected streamID), w1))"

text \<open>Without a CA file the service token travels in the clear: the credentials insist on TLS exactly when TLS is configured.\<close>

lemma token_requires_tls:
  "NewExamClient loadCA dialOk cfg = Inr c \<Longrightarrow> xc_token c = Some t \<Longrightarrow>
     RequireTransportSecurity t = xc_tls c \<and> GetRequestMetadata t = [(''authorization'', ''Bearer '' @ ex_Token cfg)]"
  by (auto simp: NewExamClient_def NewServiceToken_def RequireTransportSecurity_def GetRequestMetadata_def split: if_splits)

section \<open>Routing\<close>

datatype segment = Lit string | Wild

datatype endpoint = EStream | EMonitor | EActiveSchedules | EScheduleStreams | ELiveManifest | ELiveAsset | ECreateSession | EUpload | EComplete
  | EDeclareInventory | EAudit | EPlayback

text \<open>A pattern: the method (none: any), the segments of the path, the handler.\<close>

record route =
  rt_Method :: string
  rt_Path :: "segment list"
  rt_Handler :: endpoint

definition mk_route :: "string \<Rightarrow> segment list \<Rightarrow> endpoint \<Rightarrow> route" where
  "mk_route m p h = \<lparr>rt_Method = m, rt_Path = p, rt_Handler = h\<rparr>"

definition routes :: "route list" where
  "routes =
    [mk_route [] [Lit ''ws'', Lit ''stream''] EStream, mk_route [] [Lit ''ws'', Lit ''monitor''] EMonitor,
     mk_route [] [Lit ''schedules'', Lit ''active''] EActiveSchedules,
     mk_route ''GET'' [Lit ''schedules'', Wild, Lit ''streams''] EScheduleStreams,
     mk_route ''GET'' [Lit ''live'', Wild, Wild, Lit ''playlist.m3u8''] ELiveManifest,
     mk_route ''GET'' [Lit ''live'', Wild, Wild, Wild] ELiveAsset,
     mk_route ''POST'' [Lit ''stream'', Lit ''sessions''] ECreateSession,
     mk_route ''PUT'' [Lit ''stream'', Lit ''sessions'', Wild, Lit ''segments'', Wild] EUpload,
     mk_route ''POST'' [Lit ''stream'', Lit ''sessions'', Wild, Lit ''complete''] EComplete,
     mk_route ''PUT'' [Lit ''stream'', Lit ''sessions'', Wild, Lit ''inventory''] EDeclareInventory,
     mk_route ''GET'' [Lit ''stream'', Lit ''sessions'', Wild, Lit ''audit''] EAudit,
     mk_route ''POST'' [Lit ''internal'', Lit ''recordings'', Lit ''playback''] EPlayback]"

text \<open>\<open>http.ServeMux\<close>: a wildcard matches one non-empty segment, \<open>GET\<close> also matches \<open>HEAD\<close>, the more specific pattern wins.\<close>

fun seg_match :: "segment \<Rightarrow> string \<Rightarrow> bool" where
  "seg_match (Lit l) s = (l = s)"
| "seg_match Wild s = (s \<noteq> [])"

definition path_match :: "string list \<Rightarrow> route \<Rightarrow> bool" where "path_match path r = list_all2 seg_match (rt_Path r) path"

definition method_match :: "string \<Rightarrow> route \<Rightarrow> bool" where
  "method_match m r \<longleftrightarrow> rt_Method r = [] \<or> rt_Method r = m \<or> rt_Method r = ''GET'' \<and> m = ''HEAD''"

fun seg_below :: "segment \<Rightarrow> segment \<Rightarrow> bool" where
  "seg_below (Lit a) (Lit b) = (a = b)"
| "seg_below (Lit a) Wild = True"
| "seg_below Wild Wild = True"
| "seg_below Wild (Lit b) = False"

definition more_specific :: "route \<Rightarrow> route \<Rightarrow> bool" where
  "more_specific r q \<longleftrightarrow> list_all2 seg_below (rt_Path r) (rt_Path q) \<and> rt_Path r \<noteq> rt_Path q"

datatype dispatched = Handle endpoint | MethodNotAllowed | NotFound

definition dispatch :: "string \<Rightarrow> string list \<Rightarrow> dispatched" where
  "dispatch m path =
     (let found = filter (\<lambda>r. path_match path r \<and> method_match m r) routes
      in case find (\<lambda>r. \<not> list_ex (\<lambda>q. more_specific q r) found) found of
           Some r \<Rightarrow> Handle (rt_Handler r)
         | None \<Rightarrow> if list_ex (path_match path) routes then MethodNotAllowed else NotFound)"

lemma asset_not_playlist:
  "hlsInitAssetName e \<noteq> ''playlist.m3u8''" "hlsFragmentAssetName q \<noteq> ''playlist.m3u8''"
  by (simp_all add: hlsInitAssetName_def hlsFragmentAssetName_def)

text \<open>
  The live endpoints are told apart: a playlist is served by the manifest handler, and every asset a playlist can name by the asset handler, for any
  schedule and stream; no other method gets to either.
\<close>

theorem live_routes:
  assumes "sch \<noteq> []" and "str \<noteq> []"
  shows "dispatch ''GET'' [''live'', sch, str, ''playlist.m3u8''] = Handle ELiveManifest
    \<and> dispatch ''GET'' [''live'', sch, str, hlsInitAssetName e] = Handle ELiveAsset
    \<and> dispatch ''GET'' [''live'', sch, str, hlsFragmentAssetName q] = Handle ELiveAsset
    \<and> dispatch ''PUT'' [''live'', sch, str, hlsFragmentAssetName q] = MethodNotAllowed"
proof -
  have n: "hlsInitAssetName e \<noteq> []" "hlsFragmentAssetName q \<noteq> []" by (simp_all add: hlsInitAssetName_def hlsFragmentAssetName_def)
  have a: "dispatch ''GET'' [''live'', sch, str, x] = Handle ELiveAsset" if "x \<noteq> ''playlist.m3u8''" "x \<noteq> []" for x
    using assms that not_sym [OF that(1)]
    by (simp add: dispatch_def Let_def routes_def mk_route_def path_match_def method_match_def more_specific_def)
  have "dispatch ''GET'' [''live'', sch, str, ''playlist.m3u8''] = Handle ELiveManifest"
    using assms by (simp add: dispatch_def Let_def routes_def mk_route_def path_match_def method_match_def more_specific_def)
  moreover have "dispatch ''PUT'' [''live'', sch, str, x] = MethodNotAllowed" if "x \<noteq> []" for x
    using assms that by (simp add: dispatch_def Let_def routes_def mk_route_def path_match_def method_match_def)
  ultimately show ?thesis using a asset_not_playlist n by blast
qed

lemma live_routes_witness:
  "dispatch ''GET'' [''live'', ''e1'', ''s1'', hlsFragmentAssetName 3] = Handle ELiveAsset"
  using live_routes [of "''e1''" "''s1''" 0 3] by simp

end
