(* ===== verification/Watchdog.thy ===== *)
theory Watchdog
  imports Assembler
begin

text \<open>
  \<open>internal/watcher/assembly_watchdog.go\<close>: the sweep that assembles the recordings nothing else
  claimed.  The code narrows the assembler to the interface \<open>recordingAssembler\<close>; here it is the locale
  \<open>recording_assembler\<close>, interpreted on \<^const>\<open>AssembleRequested\<close>.  The abstract contract of the
  pending entry of a stream is the step relation \<open>entry_step\<close>.
\<close>

section \<open>The watchdog\<close>

definition defaultWatchdogInterval :: duration where "defaultWatchdogInterval = minute"
definition watchdogBatchLimit :: int where "watchdogBatchLimit = 32"
definition watchdogRetryInterval :: duration where "watchdogRetryInterval = 2 * minute"
definition watchdogMaxAttempts :: int where "watchdogMaxAttempts = 5"

definition watchdog_interval :: "duration \<Rightarrow> duration" where
  "watchdog_interval interval = (if interval \<le> 0 then defaultWatchdogInterval else interval)"

type_synonym ('r, 's, 'o, 'b) assembler =
  "('r, 's, 'o, 'b) asmEnv \<Rightarrow> RecordingAssemblyRequestedEvent \<Rightarrow> (unit, 'r, 's, 'o, 'b) asm"

definition watchdog_cancel :: "('r, 's, 'o, 'b) asmEnv \<Rightarrow> string \<Rightarrow> ('r, 's, 'o, 'b) asmState \<Rightarrow> ('r, 's, 'o, 'b) asmState" where
  "watchdog_cancel env streamID s = snd (on_redis (Cancel (e_exec env) streamID) s)"

definition watchdog_request :: "PendingAssembly \<Rightarrow> string \<Rightarrow> instant \<Rightarrow> RecordingAssemblyRequestedEvent" where
  "watchdog_request p eventID t =
     \<lparr>rq_EventID = eventID, rq_StreamID = pa_StreamID p, rq_ScheduleID = pa_ScheduleID p, rq_SessionID = pa_SessionID p,
      rq_ParticipantID = pa_ParticipantID p, rq_StreamType = pa_StreamType p, rq_Source = AssemblySource p,
      rq_RequestedAt = t\<rparr>"

text \<open>What happens to the entry after an attempt that failed.\<close>

definition watchdog_failed :: "('r, 's, 'o, 'b) asmEnv \<Rightarrow> PendingAssembly \<Rightarrow> ('r, 's, 'o, 'b) asmState \<Rightarrow> ('r, 's, 'o, 'b) asmState" where
  "watchdog_failed env p s =
     (if watchdogMaxAttempts \<le> Attempts p + 1 then watchdog_cancel env (pa_StreamID p) s
      else (case on_os (e_now env) s of (t, s1) \<Rightarrow>
        snd (on_redis (Schedule (e_exec env)
          (p\<lparr>Attempts := Attempts p + 1, DueAt := t + watchdogRetryInterval\<rparr>)) s1)))"

definition watchdog_handle :: "('r, 's, 'o, 'b) assembler \<Rightarrow> ('r, 's, 'o, 'b) asmEnv \<Rightarrow> PendingAssembly
    \<Rightarrow> ('r, 's, 'o, 'b) asmState \<Rightarrow> ('r, 's, 'o, 'b) asmState" where
  "watchdog_handle asm env p s =
     (case on_redis (SegmentList (e_exec env) (pa_StreamID p)) s of
        (Inl _, s1) \<Rightarrow> s1
      | (Inr metas, s1) \<Rightarrow>
          if metas = [] then watchdog_cancel env (pa_StreamID p) s1
          else (case on_os (e_uuid env) s1 of
             (None, s2) \<Rightarrow> s2
           | (Some eventID, s2) \<Rightarrow>
               (case on_os (e_now env) s2 of (t, s3) \<Rightarrow>
                  (case asm env (watchdog_request p eventID t) s3 of
                     (Inr _, s4) \<Rightarrow> watchdog_cancel env (pa_StreamID p) s4
                   | (Inl _, s4) \<Rightarrow> watchdog_failed env p s4))))"

definition SweepOnce :: "('r, 's, 'o, 'b) assembler \<Rightarrow> ('r, 's, 'o, 'b) asmEnv \<Rightarrow> ('r, 's, 'o, 'b) asmState \<Rightarrow> ('r, 's, 'o, 'b) asmState" where
  "SweepOnce asm env s =
     (case on_os (e_now env) s of (t, s1) \<Rightarrow>
        (case on_redis (Due (e_exec env) t watchdogBatchLimit) s1 of
           (Inl _, s2) \<Rightarrow> s2
         | (Inr due, s2) \<Rightarrow> fold (watchdog_handle asm env) due s2))"

text \<open>\<open>Run\<close> until the context ends: one sweep per tick.\<close>

fun watchdog_run :: "('r, 's, 'o, 'b) assembler \<Rightarrow> ('r, 's, 'o, 'b) asmEnv \<Rightarrow> unit list \<Rightarrow> ('r, 's, 'o, 'b) asmState \<Rightarrow> ('r, 's, 'o, 'b) asmState" where
  "watchdog_run asm env [] s = s"
| "watchdog_run asm env (_ # ticks) s = watchdog_run asm env ticks (SweepOnce asm env s)"

section \<open>The contract of a pending entry\<close>

text \<open>
  One step of a stream's entry: it goes, it stays, or it is counted up and put off, which happens
  only below the attempt limit.
\<close>

inductive entry_step :: "PendingAssembly option \<Rightarrow> PendingAssembly option \<Rightarrow> bool" where
  entry_dropped: "entry_step x None"
| entry_kept: "entry_step x x"
| entry_retried: "Attempts p + 1 < watchdogMaxAttempts \<Longrightarrow>
    entry_step (Some p) (Some (p\<lparr>Attempts := Attempts p + 1, DueAt := t\<rparr>))"

inductive_cases entry_step_None: "entry_step None y"
inductive_cases entry_step_Some: "entry_step (Some p) (Some q)"

inductive entry_run :: "PendingAssembly option \<Rightarrow> PendingAssembly option \<Rightarrow> bool" where
  entry_refl: "entry_run x x"
| entry_more: "entry_run x y \<Longrightarrow> entry_step y z \<Longrightarrow> entry_run x z"

lemma entry_step_from_None: "entry_step None y \<longleftrightarrow> y = None"
  by (auto intro: entry_step.intros elim: entry_step_None)

lemma entry_run_None: "entry_run x y \<Longrightarrow> x = None \<Longrightarrow> y = None"
  by (induction rule: entry_run.induct) (auto simp: entry_step_from_None)

text \<open>Whatever the steps, an entry keeps its identity and never counts past the limit.\<close>

lemma entry_run_bounded:
  assumes "entry_run (Some p) y" and "y = Some q" and "Attempts p < watchdogMaxAttempts"
  shows "Attempts p \<le> Attempts q \<and> Attempts q < watchdogMaxAttempts
    \<and> pa_StreamID q = pa_StreamID p \<and> pa_ScheduleID q = pa_ScheduleID p \<and> pa_SessionID q = pa_SessionID p
    \<and> pa_ParticipantID q = pa_ParticipantID p \<and> pa_StreamType q = pa_StreamType p \<and> Source q = Source p"
  using assms
proof (induction "Some p" y arbitrary: q rule: entry_run.induct)
  case (entry_more y z)
  have "y \<noteq> None" using entry_more.hyps(3) entry_more.prems(1)
    by (cases y) (simp_all add: entry_step_from_None)
  then obtain q' where y: "y = Some q'" by blast
  note ih = entry_more(2) [OF y entry_more(5)]
  from entry_more(3) show ?case
    unfolding y entry_more(4) by (rule entry_step_Some) (use ih in auto)
qed simp

section \<open>What the registry operations do to an entry\<close>

lemma pending_of_cong: "ks (pendingAssemblyKey x) = ks' (pendingAssemblyKey x) \<Longrightarrow> pending_of ks x = pending_of ks' x"
  by (simp add: pending_of_def)

lemma cancel_entry:
  assumes "redis_conforms exec view" and "Cancel exec s w = (r, w1)" and "s \<noteq> ''due''"
  shows "pending_of (view w1) s = None \<or> pending_of (view w1) s = pending_of (view w) s"
    and "r = Inr () \<Longrightarrow> pending_of (view w1) s = None"
proof -
  obtain r1 u1 r2 u2 where e: "exec (ZREM pendingAssemblyDueKey s) w = (r1, u1)"
      "exec (DEL (pendingAssemblyKey s)) u1 = (r2, u2)" by (metis surj_pair)
  have w: "w1 = u2" "r = Inr () \<Longrightarrow> r2 \<noteq> Err"
    using e assms(2) by (auto simp: Cancel_def Let_def split: if_splits)
  have k: "view u1 (pendingAssemblyKey s) = view w (pendingAssemblyKey s)"
    using exec_frame [OF assms(1) e(1)] key_neq [OF assms(3)] by simp
  have del: "redis_doc (DEL (pendingAssemblyKey s)) (view u1) r' (view u2) \<Longrightarrow> pending_of (view u2) s = None" for r'
    by (simp add: pending_of_def)
  show "pending_of (view w1) s = None \<or> pending_of (view w1) s = pending_of (view w) s"
    using err_or_doc [OF assms(1) e(2)] del w(1) pending_of_cong [of "view u1" s "view w", OF k] by auto
  show "pending_of (view w1) s = None" if "r = Inr ()"
    using conformsD [OF assms(1) e(2)] w that del by auto
qed

lemma schedule_entry:
  assumes "redis_conforms exec view" and "Schedule exec p w = (r, w1)" and "pa_StreamID p \<noteq> ''due''"
  shows "pending_of (view w1) (pa_StreamID p) = Some p
    \<or> pending_of (view w1) (pa_StreamID p) = pending_of (view w) (pa_StreamID p)"
proof -
  let ?D = pendingAssemblyDueKey and ?k = "pendingAssemblyKey (pa_StreamID p)"
  obtain r1 u1 r2 u2 r3 u3 where e: "exec (ZADD ?D (unix_secs (DueAt p)) (pa_StreamID p)) w = (r1, u1)"
      "exec (EXPIRE ?D pendingAssemblyTTL) u1 = (r2, u2)"
      "exec (SET ?k (Doc (enc_pending p)) (TTL pendingAssemblyTTL)) u2 = (r3, u3)"
    by (metis surj_pair)
  have w: "w1 = u3" using e assms(2) by (auto simp: Schedule_def Let_def split: if_splits)
  have k: "view u2 ?k = view w ?k"
    using exec_frame [OF assms(1) e(1), of ?k] exec_frame [OF assms(1) e(2), of ?k] key_neq [OF assms(3)] by simp
  have "pending_of (view u3) (pa_StreamID p) = Some p"
    if "redis_doc (SET ?k (Doc (enc_pending p)) (TTL pendingAssemblyTTL)) (view u2) r' (view u3)" for r'
    using that by (simp add: pending_of_def as_json_def)
  with err_or_doc [OF assms(1) e(3)] pending_of_cong [of "view u2" "pa_StreamID p" "view w", OF k] w show ?thesis by auto
qed

section \<open>The assembler leaves pending entries alone\<close>

definition entry_key :: "('r \<Rightarrow> keyspace) \<Rightarrow> string \<Rightarrow> ('r, 's, 'o, 'b) asmState \<Rightarrow> (rval \<times> duration option) option" where
  "entry_key view sid s = view (redisW s) (pendingAssemblyKey sid)"

definition same_entry :: "('r \<Rightarrow> keyspace) \<Rightarrow> string \<Rightarrow> ('r, 's, 'o, 'b) asmState \<Rightarrow> ('r, 's, 'o, 'b) asmState \<Rightarrow> bool" where
  "same_entry view sid s s' \<longleftrightarrow> entry_key view sid s' = entry_key view sid s"

lemma same_entry_trans: "same_entry view sid a b \<Longrightarrow> same_entry view sid b c \<Longrightarrow> same_entry view sid a c"
  by (simp add: same_entry_def)

lemma entry_key_simps [simp]:
  "entry_key view sid (snd (on_os f s)) = entry_key view sid s"
  "entry_key view sid (snd (on_s3 g s)) = entry_key view sid s"
  "entry_key view sid (set_file d n x s) = entry_key view sid s"
  "entry_key view sid (s\<lparr>published := p\<rparr>) = entry_key view sid s"
  "entry_key view sid (s\<lparr>inFlight := i\<rparr>) = entry_key view sid s"
  "entry_key view sid (s\<lparr>jobs := j\<rparr>) = entry_key view sid s"
  "entry_key view sid (s\<lparr>s3W := a, osW := b\<rparr>) = entry_key view sid s"
  by (simp_all add: entry_key_def on_os_def on_s3_def set_file_def split_beta)

lemma entry_key_os: "on_os f s = (x, s') \<Longrightarrow> entry_key view sid s' = entry_key view sid s"
  using entry_key_simps(1) by (metis snd_conv)

lemma entry_key_s3: "on_s3 f s = (x, s') \<Longrightarrow> entry_key view sid s' = entry_key view sid s"
  using entry_key_simps(2) by (metis snd_conv)

lemma other_keys:
  "pendingAssemblyKey sid \<noteq> segmentKey x" "pendingAssemblyKey sid \<noteq> inventoryKey x"
  "pendingAssemblyKey sid \<noteq> uploadSessionKey x"
  by (simp_all add: pendingAssemblyKey_def segmentKey_def inventoryKey_def uploadSessionKey_def)

lemma view_SegmentList:
  assumes conf: "redis_conforms exec view"
  shows "SegmentList exec x w = (r, w') \<Longrightarrow> view w' (pendingAssemblyKey sid) = view w (pendingAssemblyKey sid)"
  using exec_frame [OF conf, of "HGETALL (segmentKey x)" w _ _ "pendingAssemblyKey sid"] other_keys(1) [of sid x]
  by (auto simp: SegmentList_def hash_list_def split: prod.splits reply.splits)

lemma view_InventoryGet:
  assumes conf: "redis_conforms exec view"
  shows "InventoryGet exec x w = (r, w') \<Longrightarrow> view w' (pendingAssemblyKey sid) = view w (pendingAssemblyKey sid)"
  using exec_frame [OF conf, of "GET (inventoryKey x)" w _ _ "pendingAssemblyKey sid"] other_keys(2) [of sid x]
  by (auto simp: InventoryGet_def split: prod.splits reply.splits option.splits)

lemma view_LookupUpload:
  assumes conf: "redis_conforms exec view"
  shows "LookupUpload exec t x w = (r, w') \<Longrightarrow> view w' (pendingAssemblyKey sid) = view w (pendingAssemblyKey sid)"
proof -
  assume a: "LookupUpload exec t x w = (r, w')"
  obtain r1 u1 where e1: "exec (GET (uploadSessionKey x)) w = (r1, u1)" by fastforce
  obtain r2 u2 where e2: "exec (DEL (uploadSessionKey x)) u1 = (r2, u2)" by fastforce
  have "w' = u1 \<or> w' = u2" using a e1 e2 by (auto simp: LookupUpload_def split: reply.splits option.splits if_splits)
  then show ?thesis
    using exec_frame [OF conf e1, of "pendingAssemblyKey sid"] exec_frame [OF conf e2, of "pendingAssemblyKey sid"]
      other_keys(3) [of sid x] by auto
qed

text \<open>The same for the operations on the state.\<close>

lemma keep_bindE: "keeps (same_entry v sid) f \<Longrightarrow> (\<And>x. keeps (same_entry v sid) (g x)) \<Longrightarrow> keeps (same_entry v sid) (bindE f g)"
  by (rule keeps_bindE [OF same_entry_trans])

lemma keep_wrap: "keeps (same_entry v sid) f \<Longrightarrow> keeps (same_entry v sid) (wrap h f)"
  by (simp add: keeps_def wrap_def split_beta)

lemma keep_okOr: "keeps (same_entry v sid) f \<Longrightarrow> keeps (same_entry v sid) (okOr e f)"
  by (simp add: keeps_def okOr_def split_beta)

lemma keep_on: "keeps (same_entry v sid) (on_os f)" "keeps (same_entry v sid) (on_s3 g)"
  by (simp_all add: keeps_def same_entry_def)

lemma keep_redis:
  assumes "\<And>w. v (snd (f w)) (pendingAssemblyKey sid) = v w (pendingAssemblyKey sid)"
  shows "keeps (same_entry v sid) (on_redis f)"
  using assms by (simp add: keeps_def same_entry_def entry_key_def on_redis_def split_beta)

lemma keep_publish: "keeps (same_entry v sid) (publishRecordingState env rq st k d g m)"
  by (auto simp: keeps_def same_entry_def publishRecordingState_def Let_def split: prod.splits option.splits
      dest!: entry_key_os [where view = v and sid = sid])

lemma keep_store: "entry_key v sid (storeQualityReport env rq key q c u s) = entry_key v sid s"
  by (auto simp: storeQualityReport_def Let_def split: prod.splits dest!: entry_key_os [where view = v and sid = sid])

lemma keep_upload: "keeps (same_entry v sid) (uploadAndAnnounce env rq sm u q out)"
  unfolding uploadAndAnnounce_def
proof (intro keep_bindE keep_wrap keep_on)
  fix x
  show "keeps (same_entry v sid) (\<lambda>s. case sm of (durationSecs, hasGaps, coverage) \<Rightarrow>
     wrap StatePublishFailed (publishRecordingState env rq (recordingStatus hasGaps) x durationSecs hasGaps None)
      (storeQualityReport env rq x q coverage u s))"
  proof (cases sm)
    case (fields d g c)
    have "keeps (same_entry v sid)
       (wrap StatePublishFailed (publishRecordingState env rq (recordingStatus g) x d g None))"
      by (intro keep_wrap keep_publish)
    then show ?thesis by (simp add: fields keeps_def same_entry_def keep_store)
  qed
qed

lemma keep_download: "keeps (same_entry v sid) (downloadSegments env keys dir)"
proof -
  have one: "keeps (same_entry v sid) (download_one env key i dir)" for key i
    by (auto simp: keeps_def same_entry_def download_one_def Let_def split: prod.splits option.splits)
  have all: "keeps (same_entry v sid) (download_all env keys dir is)" for "is"
  proof (induction "is")
    case (Cons i "is")
    have "download_all env keys dir (i # is) =
      bindE (download_one env (keys ! i) i dir) (\<lambda>_. download_all env keys dir is)" by (rule ext) simp
    then show ?case using keep_bindE [OF one Cons] by simp
  qed (simp add: keeps_def same_entry_def)
  show ?thesis using all by (simp add: downloadSegments_def)
qed

lemma keep_lookup:
  assumes "redis_conforms (e_exec env) v" and "lookupSession env x s = (u, s')"
  shows "entry_key v sid s' = entry_key v sid s"
  using assms(2) view_LookupUpload [OF assms(1), where sid = sid]
  by (auto simp: lookupSession_def Let_def on_redis_def entry_key_def split: prod.splits sum.splits
      dest!: entry_key_os [where view = v and sid = sid, unfolded entry_key_def])

lemma keep_summary:
  assumes "redis_conforms (e_exec env) v" and "loadSummary env x metas s = (u, s')"
  shows "entry_key v sid s' = entry_key v sid s"
  using assms(2) view_InventoryGet [OF assms(1), where sid = sid]
  by (auto simp: loadSummary_def on_redis_def entry_key_def split: prod.splits sum.splits)

lemma keep_codec: "inputCodec env dir path s = (c, s') \<Longrightarrow> entry_key v sid s' = entry_key v sid s"
  by (auto simp: inputCodec_def split: prod.splits sum.splits dest!: entry_key_os [where view = v and sid = sid])

lemma keep_disk: "keeps (same_entry v sid) (checkDiskSpace env n)"
  by (auto simp: keeps_def same_entry_def checkDiskSpace_def split: prod.splits option.splits
      dest!: entry_key_os [where view = v and sid = sid])

lemma keep_list: "keeps (same_entry v sid) (writeConcatList env dir files)"
  unfolding writeConcatList_def by (intro keep_bindE keep_okOr keep_on) (simp add: keeps_def same_entry_def)

lemma keep_concat: "keeps (same_entry v sid) (concat_run env dir codec)"
  by (auto simp: keeps_def same_entry_def concat_run_def Let_def split: prod.splits sum.splits
      dest!: entry_key_os [where view = v and sid = sid])

lemma keep_remove: "entry_key v sid (removeJobDir env dir s) = entry_key v sid s"
  by (auto simp: removeJobDir_def split: prod.splits dest!: entry_key_os [where view = v and sid = sid])

lemma keepsK: "keeps (same_entry v sid) f \<Longrightarrow> f s = (r, s') \<Longrightarrow> entry_key v sid s' = entry_key v sid s"
  using keepsD [of "same_entry v sid" f s r s'] by (simp add: same_entry_def)

lemma keep_runJob:
  fixes env :: "('r, 's, 'o, 'b) asmEnv"
  assumes "redis_conforms (e_exec env) v"
  shows "keeps (same_entry v sid) (runJob env rq metas sm)"
  unfolding keeps_def
proof
  fix s :: "('r, 's, 'o, 'b) asmState"
  obtain r s' where run: "runJob env rq metas sm s = (r, s')" by fastforce
  then have "entry_key v sid s' = entry_key v sid s"
    unfolding runJob_def Let_def bindE_def wrap_def
    by (auto split: prod.splits sum.splits if_splits
        dest!: keepsK [OF keep_disk, where v = v and sid = sid] keepsK [OF keep_download, where v = v and sid = sid]
          keepsK [OF keep_list, where v = v and sid = sid] keep_codec [where v = v and sid = sid]
          keepsK [OF keep_concat, where v = v and sid = sid] keep_lookup [OF assms, where sid = sid]
          entry_key_os [where view = v and sid = sid] keepsK [OF keep_okOr [OF keep_on(1)], where v = v and sid = sid]
          keepsK [OF keep_upload, where v = v and sid = sid])
  then show "same_entry v sid s (snd (runJob env rq metas sm s))" by (simp add: run same_entry_def)
qed

lemma keep_assemble:
  fixes env :: "('r, 's, 'o, 'b) asmEnv"
  assumes conf: "redis_conforms (e_exec env) v" and a: "assemble env rq s = (r, s')"
  shows "entry_key v sid s' = entry_key v sid s"
proof -
  have job: "keeps (same_entry v sid) (assembleJob env rq metas sm)" for metas sm
    unfolding assembleJob_def
    by (intro keep_bindE keep_okOr keep_on)
      (auto simp: keeps_def same_entry_def keep_remove split: prod.splits
        dest!: keepsK [OF keep_runJob [OF conf], where sid = sid])
  have cont: "keeps (same_entry v sid) (\<lambda>s1. case loadSummary env (rq_StreamID rq) metas s1 of (summary, s2) \<Rightarrow>
      if existing
      then wrap StatePublishFailed (publishRecordingState env rq (recordingStatus (fst (snd summary)))
             (FinalRecordingKey (rq_ScheduleID rq) (rq_SessionID rq) (rq_StreamID rq))
             (fst summary) (fst (snd summary)) None) s2
      else assembleJob env rq metas summary s2)" for metas existing
    unfolding keeps_def
  proof
    fix t :: "('r, 's, 'o, 'b) asmState"
    obtain sm t2 where l: "loadSummary env (rq_StreamID rq) metas t = (sm, t2)" by fastforce
    have "keeps (same_entry v sid) (wrap StatePublishFailed (publishRecordingState env rq (recordingStatus (fst (snd sm)))
             (FinalRecordingKey (rq_ScheduleID rq) (rq_SessionID rq) (rq_StreamID rq))
             (fst sm) (fst (snd sm)) None))" by (intro keep_wrap keep_publish)
    then show "same_entry v sid t (snd (case loadSummary env (rq_StreamID rq) metas t of (summary, s2) \<Rightarrow>
      if existing
      then wrap StatePublishFailed (publishRecordingState env rq (recordingStatus (fst (snd summary)))
             (FinalRecordingKey (rq_ScheduleID rq) (rq_SessionID rq) (rq_StreamID rq))
             (fst summary) (fst (snd summary)) None) s2
      else assembleJob env rq metas summary s2))"
      using keep_summary [OF conf l, of sid] job by (simp add: l keeps_def same_entry_def)
  qed
  have rest: "keeps (same_entry v sid) (\<lambda>s. if metas = [] then (Inl (NoSegmentsUploaded (rq_StreamID rq)), s)
       else bindE (okOr CtxDone (on_os (e_acquire env))) (\<lambda>_.
         bindE (wrap CheckExistingFailed (on_s3 (RecordingExists (e_send env) (e_cfg env)
                  (rq_ScheduleID rq) (rq_SessionID rq) (rq_StreamID rq)))) (\<lambda>existing s1.
           (case loadSummary env (rq_StreamID rq) metas s1 of (summary, s2) \<Rightarrow>
              if existing
              then wrap StatePublishFailed (publishRecordingState env rq (recordingStatus (fst (snd summary)))
                     (FinalRecordingKey (rq_ScheduleID rq) (rq_SessionID rq) (rq_StreamID rq))
                     (fst summary) (fst (snd summary)) None) s2
              else assembleJob env rq metas summary s2))) s)" for metas
  proof (cases "metas = []")
    case False
    show ?thesis unfolding if_not_P [OF False]
      by (intro keep_bindE keep_okOr keep_wrap keep_on cont)
  qed (simp add: keeps_def same_entry_def)
  have body: "keeps (same_entry v sid) (assembleBody env rq)"
    unfolding assembleBody_def
    by (intro keep_bindE keep_wrap keep_redis rest) (use view_SegmentList [OF conf, where sid = sid] in \<open>metis prod.collapse\<close>)
  obtain r1 s1 where b: "assembleBody env rq (s\<lparr>inFlight := insert (rq_StreamID rq) (inFlight s)\<rparr>) = (r1, s1)" by fastforce
  show ?thesis using a b keepsK [OF body b] by (auto simp: assemble_def split: if_splits)
qed

lemma keep_AssembleRequested:
  assumes "redis_conforms (e_exec env) v" and "AssembleRequested env rq s = (r, s')"
  shows "entry_key v sid s' = entry_key v sid s"
proof -
  obtain ra s1 where a: "assemble env rq s = (ra, s1)" by fastforce
  note k = keep_assemble [OF assms(1) a, of sid]
  show ?thesis
  proof (cases ra)
    case (Inl e)
    obtain rp s2 where p: "publishRecordingState env rq ''FAILED'' [] 0 False (Some e) s1 = (rp, s2)" by fastforce
    have "s' = s1 \<or> s' = s2"
      using assms(2) a Inl p by (cases e; cases rp) (simp_all add: AssembleRequested_def)
    with k keepsK [OF keep_publish p] show ?thesis by auto
  qed (use assms(2) a k in \<open>simp add: AssembleRequested_def\<close>)
qed

section \<open>The interface and its client\<close>

text \<open>
  \<open>recordingAssembler\<close>: one operation, which does not touch the pending entries.
\<close>

locale recording_assembler =
  fixes asm :: "('r, 's, 'o, 'b) assembler"
  assumes keeps_entries: "redis_conforms (e_exec env) view \<Longrightarrow> asm env rq s = (r, s')
    \<Longrightarrow> entry_key view sid s' = entry_key view sid s"
begin

lemma handle_step:
  assumes conf: "redis_conforms (e_exec env) view" and nd: "pa_StreamID p \<noteq> ''due''"
    and p: "pending_of (view (redisW s)) (pa_StreamID p) = Some p"
  shows "entry_step (Some p) (pending_of (view (redisW (watchdog_handle asm env p s))) (pa_StreamID p))"
proof -
  let ?P = "\<lambda>t. pending_of (view (redisW t)) (pa_StreamID p)"
  have same: "?P b = ?P a" if "entry_key view (pa_StreamID p) b = entry_key view (pa_StreamID p) a" for a b
    using that unfolding entry_key_def by (rule pending_of_cong)
  have cancelled: "entry_step (Some p) (?P (watchdog_cancel env (pa_StreamID p) t))" if "?P t = Some p" for t
  proof -
    obtain r w where c: "Cancel (e_exec env) (pa_StreamID p) (redisW t) = (r, w)" by fastforce
    with cancel_entry(1) [OF conf c nd] that show ?thesis
      by (auto simp: watchdog_cancel_def on_redis_def intro: entry_step.intros)
  qed
  obtain rm s1 where l: "on_redis (SegmentList (e_exec env) (pa_StreamID p)) s = (rm, s1)" by fastforce
  have p1: "?P s1 = Some p"
    using l p view_SegmentList [OF conf, of "pa_StreamID p" "redisW s" _ _ "pa_StreamID p"]
    by (auto simp: on_redis_def pending_of_def split: prod.splits)
  have failed: "entry_step (Some p) (?P (watchdog_failed env p t))" if t: "?P t = Some p" for t
  proof (cases "watchdogMaxAttempts \<le> Attempts p + 1")
    case False
    obtain c t1 where n: "on_os (e_now env) t = (c, t1)" by fastforce
    let ?q = "p\<lparr>Attempts := Attempts p + 1, DueAt := c + watchdogRetryInterval\<rparr>"
    obtain r w where sch: "Schedule (e_exec env) ?q (redisW t1) = (r, w)" by fastforce
    have t1: "?P t1 = Some p" using same [OF entry_key_os [OF n]] t by simp
    from schedule_entry [OF conf sch] nd t1 have "pending_of (view w) (pa_StreamID p) = Some ?q
      \<or> pending_of (view w) (pa_StreamID p) = Some p" by simp
    moreover have "entry_step (Some p) (Some ?q)" by (rule entry_retried) (use False in simp)
    ultimately show ?thesis using False n sch
      by (auto simp: watchdog_failed_def on_redis_def intro: entry_kept)
  qed (use cancelled [OF t] in \<open>simp add: watchdog_failed_def\<close>)
  show ?thesis
  proof (cases rm)
    case (Inl e)
    then show ?thesis using l p1 by (simp add: watchdog_handle_def entry_kept)
  next
    case (Inr metas)
    obtain ue s2 where u: "on_os (e_uuid env) s1 = (ue, s2)" by fastforce
    obtain t s3 where n: "on_os (e_now env) s2 = (t, s3)" by fastforce
    have p2: "?P s2 = Some p" "?P s3 = Some p"
      using same [OF entry_key_os [OF u]] same [OF entry_key_os [OF n]] p1 by simp_all
    show ?thesis
    proof (cases "metas = [] \<or> ue = None")
      case True
      then show ?thesis using l Inr u p2 cancelled [OF p1] by (auto simp: watchdog_handle_def intro: entry_kept)
    next
      case False
      then obtain eid where e: "ue = Some eid" "metas \<noteq> []" by auto
      obtain ra s4 where a: "asm env (watchdog_request p eid t) s3 = (ra, s4)" by fastforce
      have p4: "?P s4 = Some p" using same [OF keeps_entries [OF conf a]] p2 by simp
      show ?thesis using l Inr u n e a cancelled [OF p4] failed [OF p4]
        by (cases ra) (simp_all add: watchdog_handle_def)
    qed
  qed
qed

end

interpretation assembler: recording_assembler AssembleRequested
  by unfold_locales (rule keep_AssembleRequested)

section \<open>Properties\<close>

definition entry_of :: "('r \<Rightarrow> keyspace) \<Rightarrow> string \<Rightarrow> ('r, 's, 'o, 'b) asmState \<Rightarrow> PendingAssembly option" where
  "entry_of view sid s = pending_of (view (redisW s)) sid"

text \<open>The entries of a stream over \<open>n\<close> sweeps that find it due.\<close>

fun entry_trace :: "('r, 's, 'o, 'b) asmEnv \<Rightarrow> ('r \<Rightarrow> keyspace) \<Rightarrow> string \<Rightarrow> nat \<Rightarrow> ('r, 's, 'o, 'b) asmState \<Rightarrow> PendingAssembly option list" where
  "entry_trace env view sid 0 s = [entry_of view sid s]"
| "entry_trace env view sid (Suc n) s = entry_of view sid s # entry_trace env view sid n
     (case entry_of view sid s of None \<Rightarrow> s | Some p \<Rightarrow> watchdog_handle AssembleRequested env p s)"

definition changes :: "'a list \<Rightarrow> nat" where
  "changes xs = length (filter (\<lambda>(x, y). x \<noteq> y) (zip xs (tl xs)))"

lemma changes_simps [simp]:
  "changes [] = 0" "changes [x] = 0" "changes (x # y # ys) = (if x \<noteq> y then Suc (changes (y # ys)) else changes (y # ys))"
  by (simp_all add: changes_def)

lemma entry_trace_hd: "\<exists>rest. entry_trace env view sid n s = entry_of view sid s # rest"
  by (cases n) simp_all

lemma entry_trace_None: "entry_of view sid s = None \<Longrightarrow> changes (entry_trace env view sid n s) = 0"
proof (induction n)
  case (Suc n)
  from entry_trace_hd [of env view sid n s] obtain rest where "entry_trace env view sid n s = entry_of view sid s # rest" by blast
  then show ?case using Suc by simp
qed simp

lemma entry_step_measure:
  assumes "entry_step (Some p) y" and "y \<noteq> Some p"
  shows "y = None \<or> (\<exists>q. y = Some q \<and> Attempts q = Attempts p + 1 \<and> Attempts q < watchdogMaxAttempts \<and> pa_StreamID q = pa_StreamID p)"
  using assms by (cases rule: entry_step.cases) auto

lemma watchdog_changes:
  assumes conf: "redis_conforms (e_exec env) view" and nd: "sid \<noteq> ''due''"
    and "entry_of view sid s = Some p" and "pa_StreamID p = sid" and "Attempts p < watchdogMaxAttempts"
  shows "int (changes (entry_trace env view sid n s)) \<le> watchdogMaxAttempts - Attempts p"
  using assms(3-)
proof (induction n arbitrary: s p)
  case (Suc n)
  let ?s' = "watchdog_handle AssembleRequested env p s"
  have st: "entry_step (Some p) (entry_of view sid ?s')"
    using assembler.handle_step [OF conf, of p s] nd Suc.prems by (simp add: entry_of_def)
  from entry_trace_hd [of env view sid n ?s'] obtain rest where
    r: "entry_trace env view sid n ?s' = entry_of view sid ?s' # rest" by blast
  show ?case
  proof (cases "entry_of view sid ?s' = Some p")
    case True
    from Suc.IH [OF this Suc.prems(2,3)] show ?thesis using True Suc.prems(1) r by simp
  next
    case False
    from entry_step_measure [OF st False] show ?thesis
    proof
      assume n: "entry_of view sid ?s' = None"
      with entry_trace_None [OF n, of env n] show ?thesis using Suc.prems(1,3) r by simp
    next
      assume "\<exists>q. entry_of view sid ?s' = Some q \<and> Attempts q = Attempts p + 1 \<and> Attempts q < watchdogMaxAttempts
        \<and> pa_StreamID q = pa_StreamID p"
      then obtain q where q: "entry_of view sid ?s' = Some q" "Attempts q = Attempts p + 1"
        "Attempts q < watchdogMaxAttempts" "pa_StreamID q = pa_StreamID p" by blast
      from Suc.IH [OF q(1)] q Suc.prems(2) have "int (changes (entry_trace env view sid n ?s')) \<le> watchdogMaxAttempts - Attempts q" by simp
      then show ?thesis using q Suc.prems(1) r False by simp
    qed
  qed
qed simp


text \<open>
  C13.  The watchdog gives a stream up only for a reason: when the entry of a stream that has
  segments, was tried fewer than four times before and is not being assembled elsewhere, is gone
  after the watchdog handled it, then its recording is stored and was announced, under the
  identifiers and the source of the entry.
\<close>

theorem watchdog_never_drops:
  fixes env :: "('r, 's, 'o, 'b) asmEnv"
  assumes conf: "redis_conforms (e_exec env) view" and s3: "s3_conforms (e_send env) objs"
    and nd: "pa_StreamID p \<noteq> ''due''" and p: "entry_of view (pa_StreamID p) s = Some p"
    and idle: "pa_StreamID p \<notin> inFlight s"
    and segs: "fst (SegmentList (e_exec env) (pa_StreamID p) (redisW s)) = Inr metas" "metas \<noteq> []"
    and att: "Attempts p + 1 < watchdogMaxAttempts"
    and gone: "entry_of view (pa_StreamID p) (watchdog_handle AssembleRequested env p s) = None"
  shows "objs (s3W (watchdog_handle AssembleRequested env p s)) (RecordingBucket (e_cfg env),
      FinalRecordingKey (pa_ScheduleID p) (pa_SessionID p) (pa_StreamID p)) \<noteq> None
    \<and> (\<exists>ev. published (watchdog_handle AssembleRequested env p s) = published s @ [ev]
        \<and> rp_Status ev \<in> {''READY'', ''PARTIAL''} \<and> rp_StreamID ev = pa_StreamID p \<and> rp_Source ev = AssemblySource p
        \<and> rp_ObjectKey ev = FinalRecordingKey (pa_ScheduleID p) (pa_SessionID p) (pa_StreamID p))"
proof -
  let ?sid = "pa_StreamID p"
  have same: "entry_of view ?sid b = entry_of view ?sid a" if "entry_key view ?sid b = entry_key view ?sid a" for a b
    using that unfolding entry_of_def entry_key_def by (rule pending_of_cong)
  obtain s1 where l: "on_redis (SegmentList (e_exec env) ?sid) s = (Inr metas, s1)"
    using segs(1) by (cases "SegmentList (e_exec env) ?sid (redisW s)") (auto simp: on_redis_def)
  have p1: "entry_of view ?sid s1 = Some p"
    using l p view_SegmentList [OF conf, of ?sid "redisW s" _ _ ?sid]
    by (auto simp: on_redis_def pending_of_def entry_of_def split: prod.splits)
  obtain ue s2 where u: "on_os (e_uuid env) s1 = (ue, s2)" by fastforce
  obtain t s3' where n: "on_os (e_now env) s2 = (t, s3')" by fastforce
  have p3: "entry_of view ?sid s2 = Some p" "entry_of view ?sid s3' = Some p"
    using same [OF entry_key_os [OF u]] same [OF entry_key_os [OF n]] p1 by simp_all
  from gone l segs(2) u p3(1) obtain eid where e: "ue = Some eid"
    by (cases ue) (simp_all add: watchdog_handle_def)
  let ?rq = "watchdog_request p eid t"
  obtain ra s4 where a: "AssembleRequested env ?rq s3' = (ra, s4)" by fastforce
  have h: "watchdog_handle AssembleRequested env p s =
      (case ra of Inr _ \<Rightarrow> watchdog_cancel env ?sid s4 | Inl _ \<Rightarrow> watchdog_failed env p s4)"
    using l segs(2) u e n a by (cases ra) (simp_all add: watchdog_handle_def)
  have p4: "entry_of view ?sid s4 = Some p" using same [OF keep_AssembleRequested [OF conf a]] p3 by simp
  have pub3: "published s3' = published s" "inFlight s3' = inFlight s"
    using calm_redisD [OF l, of objs] calm_osD [OF u, of objs] calm_osD [OF n, of objs]
    by (simp_all add: calm_def quiet_def)
  show ?thesis
  proof (cases ra)
    case (Inl x)
    obtain c s5 where c: "on_os (e_now env) s4 = (c, s5)" by fastforce
    obtain r w where sch: "Schedule (e_exec env) (p\<lparr>Attempts := Attempts p + 1, DueAt := c + watchdogRetryInterval\<rparr>) (redisW s5) = (r, w)"
      by fastforce
    have "entry_of view ?sid s5 = Some p" using same [OF entry_key_os [OF c]] p4 by simp
    with schedule_entry [OF conf sch] nd have "pending_of (view w) ?sid \<noteq> None" by (auto simp: entry_of_def)
    moreover have "watchdog_handle AssembleRequested env p s = s5\<lparr>redisW := w\<rparr>"
      using h Inl att c sch by (simp add: watchdog_failed_def on_redis_def)
    ultimately show ?thesis using gone by (simp add: entry_of_def)
  next
    case (Inr x)
    then have as: "assemble env ?rq s3' = (Inr (), s4)"
      using a by (auto simp: AssembleRequested_def split: prod.splits sum.splits asmError.splits)
    have "rq_StreamID ?rq \<notin> inFlight s3'" using idle pub3 by (simp add: watchdog_request_def)
    from assemble_spec [OF s3 this as] pub3 obtain i m eid' t' where
      r: "objs (s3W s4) (final_of env ?rq) \<noteq> None" "published s4 = published s
          @ [partChanged ?rq (recordingStatus (HasGaps (Reconcile i m))) (snd (final_of env ?rq))
                 (trunc_secs (RecordedDuration i m)) (HasGaps (Reconcile i m)) None eid' t']" by auto
    have hc: "watchdog_handle AssembleRequested env p s = watchdog_cancel env ?sid s4" using h Inr by simp
    have "s3W (watchdog_cancel env ?sid s4) = s3W s4" "published (watchdog_cancel env ?sid s4) = published s4"
      by (simp_all add: watchdog_cancel_def on_redis_def split_beta)
    then show ?thesis using r unfolding hc
      by (simp add: final_of_def watchdog_request_def partChanged_def recordingStatus_def)
  qed
qed

section \<open>A stream in memory\<close>

definition watched_redis :: keyspace where
  "watched_redis = demo_redis(pendingAssemblyKey ''a'' \<mapsto> (RString (Doc (enc_pending demo_pending)), None))"

definition watched_state :: "(keyspace, string objects, unit, string) asmState" where
  "watched_state = demo_state\<lparr>redisW := watched_redis,
     s3W := [(''vox-recordings'', FinalRecordingKey ''x'' ''y'' ''a'') \<mapsto> (''all'', None)]\<rparr>"

lemma watched_entry: "entry_of id ''a'' watched_state = Some demo_pending"
  by (simp add: entry_of_def watched_state_def watched_redis_def pending_of_def as_json_def)

lemma watched_conf: "redis_conforms (e_exec demo_env) id" "pa_StreamID demo_pending = ''a''" "Attempts demo_pending = 0"
  by (simp_all add: demo_env_def mem_conforms demo_pending_def)


lemma watched_gone: "entry_of id ''a'' (watchdog_handle AssembleRequested demo_env demo_pending watched_state) = None"
  by code_simp

lemma watched_list: "fst (SegmentList mem_exec ''a'' watched_redis) = Inr [demo_meta 1, demo_meta 2]"
  by code_simp

lemma watchdog_never_drops_witness:
  "\<exists>ev. published (watchdog_handle AssembleRequested demo_env demo_pending watched_state) = [ev]
     \<and> rp_Source ev = ''SERVER_WATCHDOG''"
proof -
  have i: "pa_StreamID demo_pending \<notin> inFlight watched_state" "published watched_state = []"
    by (simp_all add: watched_state_def demo_state_def)
  have l: "fst (SegmentList (e_exec demo_env) (pa_StreamID demo_pending) (redisW watched_state)) = Inr [demo_meta 1, demo_meta 2]"
    using watched_list by (simp add: demo_env_def watched_conf watched_state_def)
  have g: "entry_of id (pa_StreamID demo_pending) (watchdog_handle AssembleRequested demo_env demo_pending watched_state) = None"
    using watched_gone by (simp add: watched_conf)
  have p: "pa_StreamID demo_pending \<noteq> ''due''" "entry_of id (pa_StreamID demo_pending) watched_state = Some demo_pending"
    "Attempts demo_pending + 1 < watchdogMaxAttempts"
    using watched_entry by (simp_all add: watched_conf watchdogMaxAttempts_def)
  from watchdog_never_drops [OF watched_conf(1) demo_env_ok(1) p(1,2) i(1) l _ p(3) g]
  show ?thesis using i(2) by (auto simp: AssemblySource_def AssemblySourceWatchdog_def demo_pending_def)
qed

end
