(* ===== verification/Evidence.thy ===== *)
theory Evidence
  imports Segments
begin

text \<open>
  Segment uploads, the segment registry and the object store together: what the handlers of
  \<open>internal/handler/segment/handler.go\<close> do to the entries of the registry and the objects they name,
  on every path, errors included.
\<close>

section \<open>Segment keys\<close>

lemma slash_free_rev [simp]: "slash_free (rev s) = slash_free s"
  by (simp add: slash_free_def)

lemma slash_free_number: "slash_free (pad_int w q @ ''.mp4'')"
  by (auto simp: slash_free_def is_digit_def dest!: pad_int_chars)

text \<open>The stream id and the number are read off the end of the key, whatever the ids before them hold.\<close>

lemma segment_key_inject:
  assumes "slash_free c" and "slash_free c'" and "objSegmentKey a b c q = objSegmentKey a' b' c' q'"
  shows "c = c' \<and> q = q'"
proof -
  let ?n = "\<lambda>q. pad_int 4 q @ ''.mp4''"
  let ?t = "\<lambda>a b. ''schedules/'' @ a @ ''/sessions/'' @ b @ ''/streams''"
  have key: "objSegmentKey a b c q = ?t a b @ CHR ''/'' # c @ CHR ''/'' # ''segments'' @ CHR ''/'' # ?n q" for a b c q
    by (simp add: objSegmentKey_def streamPrefix_def)
  have r: "rev (objSegmentKey a b c q)
      = rev (?n q) @ CHR ''/'' # rev ''segments'' @ CHR ''/'' # rev c @ CHR ''/'' # rev (?t a b)" for a b c q
    unfolding key by simp
  have n: "slash_free (rev (?n q))" for q using slash_free_number by (simp only: slash_free_rev)
  have s: "slash_free (rev ''segments'')" by (simp add: slash_free_def)
  from assms(3) have e: "rev (?n q) @ CHR ''/'' # rev ''segments'' @ CHR ''/'' # rev c @ CHR ''/'' # rev (?t a b)
      = rev (?n q') @ CHR ''/'' # rev ''segments'' @ CHR ''/'' # rev c' @ CHR ''/'' # rev (?t a' b')"
    by (simp only: r [symmetric])
  note s1 = split_at_slash [OF n n e]
  note s2 = split_at_slash [OF s s conjunct2 [OF s1]]
  have "slash_free (rev c)" "slash_free (rev c')" using assms(1,2) by simp_all
  from split_at_slash [OF this conjunct2 [OF s2]] have "c = c'" by simp
  moreover have "?n q = ?n q'" using conjunct1 [OF s1] by (simp only: rev_is_rev_conv)
  then have "q = q'" by (auto dest: pad_int_inject)
  ultimately show ?thesis ..
qed

section \<open>What a registry operation may leave behind\<close>

lemma hash_get_frame:
  assumes "redis_conforms exec view" and "hash_get exec dec key f w = (r, w1)"
  shows "view w1 = view w"
proof -
  obtain rep u where e: "exec (HGET key f) w = (rep, u)" by fastforce
  then have "w1 = u" using assms(2) by (auto simp: hash_get_def split: reply.splits option.splits)
  with err_or_doc [OF assms(1) e] show ?thesis by auto
qed

lemma hset_effect:
  assumes "redis_conforms exec view" and "exec (HSET key f v) w = (r, w1)"
  shows "view w1 = view w \<or> (\<exists>h. the_hash key (view w) = Some h \<and> view w1 = put_hash key (AList.update f v h) (view w))"
  using err_or_doc [OF assms] by (auto split: option.splits)

lemma expire_effect:
  assumes "redis_conforms exec view" and "exec (EXPIRE key d) w = (r, w1)"
  shows "the_hash k (view w1) = the_hash k (view w)"
proof -
  have "view w1 = view w \<or> (\<exists>v t. view w key = Some (v, t) \<and> view w1 = (view w)(key \<mapsto> (v, Some d)))"
    using err_or_doc [OF assms] by (auto split: option.splits)
  then show ?thesis by (cases "k = key") (auto simp: the_hash_def split: rval.splits)
qed

text \<open>A failed add may have been executed: each entry is the old one, or the one added.\<close>

lemma hash_add_effect:
  assumes "redis_conforms exec view" and "hash_add exec ttl key f doc w = (r, w1)"
  shows "stored dec (view w1) k g = stored dec (view w) k g \<or> (k = key \<and> g = f \<and> stored dec (view w1) k g = dec doc)"
proof -
  obtain r1 u1 r2 u2 where e: "exec (HSET key f (Doc doc)) w = (r1, u1)" "exec (EXPIRE key ttl) u1 = (r2, u2)"
    by (metis surj_pair)
  with assms(2) have u: "w1 = u2" by (auto simp: hash_add_def Let_def)
  have x: "the_hash k (view w1) = the_hash k (view u1)" using expire_effect [OF assms(1) e(2)] u by simp
  from hset_effect [OF assms(1) e(1)] show ?thesis
  proof
    assume "view u1 = view w"
    with x show ?thesis by (simp add: stored_def)
  next
    assume "\<exists>h. the_hash key (view w) = Some h \<and> view u1 = put_hash key (AList.update f (Doc doc) h) (view w)"
    then obtain h where h: "the_hash key (view w) = Some h" "view u1 = put_hash key (AList.update f (Doc doc) h) (view w)" by blast
    have "the_hash k (view u1) = (if k = key then Some (AList.update f (Doc doc) h) else the_hash k (view w))"
      using h(2) by (simp add: put_hash_def the_hash_def)
    with x h(1) show ?thesis by (auto simp: stored_def update_conv as_json_def)
  qed
qed


section \<open>Soundness of the evidence\<close>

text \<open>
  Every entry of the registry under a well-formed stream id names an object of that stream and number, and the
  object's SHA-256 is the one the entry records.
\<close>

definition evidence_sound :: "('r, 's, 'o) segEnv \<Rightarrow> ('r \<Rightarrow> keyspace) \<Rightarrow> ('s \<Rightarrow> string objects) \<Rightarrow> ('r, 's, 'o) segState \<Rightarrow> bool" where
  "evidence_sound env view objs s \<longleftrightarrow>
     (\<forall>sid f m. g_uuidOK env sid \<and> stored dec_segment (view (sgRedis s)) (segmentKey sid) f = Some m \<longrightarrow>
        f = Itoa (sm_Seq m) \<and> (\<exists>a b. sm_S3Key m = objSegmentKey a b sid (sm_Seq m))
        \<and> (\<exists>body t. objs (sgS3 s) (RecordingBucket (g_cfg env), sm_S3Key m) = Some (body, t)
             \<and> sm_SHA256 m = hex_encode (g_sha256 env body)))"

text \<open>What UUID syntax excludes.\<close>

definition uuid_doc :: "(string \<Rightarrow> bool) \<Rightarrow> bool" where
  "uuid_doc ok \<longleftrightarrow> (\<forall>s. ok s \<longrightarrow> slash_free s)"

lemma sound_same:
  assumes "evidence_sound env view objs s" and "objs (sgS3 s1) = objs (sgS3 s)"
    and "\<And>sid f. stored dec_segment (view (sgRedis s1)) (segmentKey sid) f = stored dec_segment (view (sgRedis s)) (segmentKey sid) f"
  shows "evidence_sound env view objs s1"
  using assms(1) unfolding evidence_sound_def assms(2,3) .

lemma sound_put:
  assumes "evidence_sound env view objs s" and "uuid_doc (g_uuidOK env)" and "g_uuidOK env sid"
    and "segment_entry (view (sgRedis s)) sid q = None"
    and "objs (sgS3 s1) = stored_as i body (objs (sgS3 s))" and "put_Key i = objSegmentKey a b sid q"
    and "sgRedis s1 = sgRedis s"
  shows "evidence_sound env view objs s1"
  unfolding evidence_sound_def
proof (intro allI impI)
  fix sid' f m assume m: "g_uuidOK env sid' \<and> stored dec_segment (view (sgRedis s1)) (segmentKey sid') f = Some m"
  let ?q = "sm_Seq m"
  from m assms(1,7) obtain a' b' body' t where f: "f = Itoa ?q" and e: "sm_S3Key m = objSegmentKey a' b' sid' ?q"
      "objs (sgS3 s) (RecordingBucket (g_cfg env), sm_S3Key m) = Some (body', t)" "sm_SHA256 m = hex_encode (g_sha256 env body')"
    unfolding evidence_sound_def by metis
  have "sm_S3Key m \<noteq> put_Key i"
  proof
    assume "sm_S3Key m = put_Key i"
    then have "objSegmentKey a' b' sid' ?q = objSegmentKey a b sid q" using e(1) assms(6) by simp
    with assms(2,3) m have "sid' = sid \<and> ?q = q" by (intro segment_key_inject) (auto simp: uuid_doc_def)
    with m f assms(4,7) show False by simp
  qed
  with e f assms(5) show "f = Itoa (sm_Seq m) \<and> (\<exists>a b. sm_S3Key m = objSegmentKey a b sid' (sm_Seq m)) \<and> (\<exists>body t. objs (sgS3 s1) (RecordingBucket (g_cfg env), sm_S3Key m)
      = Some (body, t) \<and> sm_SHA256 m = hex_encode (g_sha256 env body))"
    by (auto simp: stored_as_def)
qed

lemma segment_keys_apart [simp]:
  "segmentKey a \<noteq> uploadSessionKey b" "segmentKey a = segmentKey b \<longleftrightarrow> a = b"
  by (simp_all add: segmentKey_def uploadSessionKey_def)

lemma entry_frame:
  "view w1 (segmentKey sid) = view w (segmentKey sid) \<Longrightarrow>
   stored dec_segment (view w1) (segmentKey sid) f = stored dec_segment (view w) (segmentKey sid) f"
  by (simp add: stored_def the_hash_def)

lemma check_frame:
  assumes "redis_conforms (g_exec env) view" and "UploadCheck env req s = (r, s1)"
  shows "sgS3 s1 = sgS3 s
    \<and> stored dec_segment (view (sgRedis s1)) (segmentKey sid) f = stored dec_segment (view (sgRedis s)) (segmentKey sid) f"
proof -
  obtain o1 s2 where o: "ownedSession env (sr_StreamID req) (sr_UploadToken req) s = (o1, s2)" by fastforce
  obtain g w3 where g: "SegmentGet (g_exec env) (sr_StreamID req) (sr_Seq req) (sgRedis s2) = (g, w3)" by fastforce
  have "s1 = s2 \<or> s1 = s2\<lparr>sgRedis := w3\<rparr>"
    using assms(2) o g by (auto simp: UploadCheck_def bindE_def seg_redis_def seg_fail_def seg_ok_def split: sum.splits if_splits option.splits)
  with owned_frame [OF assms(1) o] hash_get_frame [OF assms(1) g [unfolded SegmentGet_def]]
  show ?thesis by (auto intro!: entry_frame)
qed

lemma store_sound:
  assumes "redis_conforms (g_exec env) view" and "s3_conforms (g_send env) objs" and "uuid_doc (g_uuidOK env)"
    and "evidence_sound env view objs s" and "g_uuidOK env (sr_StreamID req)" and "us_StreamID u = sr_StreamID req"
    and "segment_entry (view (sgRedis s)) (sr_StreamID req) (sr_Seq req) = None"
    and "sr_SHA256 req = hex_encode (g_sha256 env (sr_Data req))"
    and "UploadStore env req u s = (r, s1)"
  shows "evidence_sound env view objs s1"
proof -
  let ?key = "objSegmentKey (us_ScheduleID u) (us_SessionID u) (sr_StreamID req) (sr_Seq req)"
  let ?i = "\<lparr>put_Bucket = RecordingBucket (g_cfg env), put_Key = ?key, put_ContentType = ''video/mp4'', put_Tagging = None\<rparr>"
  obtain p w1 where p: "put_as (g_send env) ''upload segment'' ?i (sr_Data req) (sgS3 s) = (p, w1)" by fastforce
  obtain t o1 where t: "g_now env (sgOs s) = (t, o1)" by fastforce
  let ?m = "\<lparr>sm_Seq = sr_Seq req, sm_S3Key = ?key, sm_SHA256 = sr_SHA256 req, sm_StartedAt = sr_StartedAt req,
      sm_EndedAt = sr_EndedAt req, sm_SizeBytes = int (length (sr_Data req)), sm_UploadedAt = t\<rparr>"
  obtain a w2 where a: "SegmentAdd (g_exec env) (sr_StreamID req) ?m (sgRedis s) = (a, w2)" by fastforce
  have up: "UploadSegment (g_send env) (g_cfg env) (us_ScheduleID u) (us_SessionID u) (us_StreamID u) (sr_Seq req) (sr_Data req) (sgS3 s) = (p, w1)"
    using p by (simp add: UploadSegment_def assms(6))
  note put = sound_put [OF assms(4,3,5,7), where ?s1.0 = "s\<lparr>sgS3 := w1\<rparr>" and i = ?i and body = "sr_Data req"]
  show ?thesis
  proof (cases p)
    case (Inl e)
    then have s1: "s1 = s\<lparr>sgS3 := w1\<rparr>" using assms(9) up by (simp add: UploadStore_def bindE_def seg_s3_def)
    from put_as_spec(2) [OF assms(2) p Inl] show ?thesis
    proof
      assume "objs w1 = objs (sgS3 s)"
      then show ?thesis using s1 sound_same [OF assms(4), of s1] by simp
    next
      assume "objs w1 = stored_as ?i (sr_Data req) (objs (sgS3 s))"
      then show ?thesis using s1 put by simp
    qed
  next
    case (Inr k)
    from put_as_spec(1) [OF assms(2) p Inr] have k: "k = ?key" "objs w1 = stored_as ?i (sr_Data req) (objs (sgS3 s))" by simp_all
    have s1: "s1 = s\<lparr>sgS3 := w1, sgOs := o1, sgRedis := w2\<rparr>"
      using assms(9) up Inr k(1) t a by (simp add: UploadStore_def bindE_def seg_defs)
    have old: "evidence_sound env view objs (s\<lparr>sgS3 := w1\<rparr>)" using put k(2) by simp
    show ?thesis unfolding evidence_sound_def
    proof (intro allI impI)
      fix sid f m assume m: "g_uuidOK env sid \<and> stored dec_segment (view (sgRedis s1)) (segmentKey sid) f = Some m"
      from hash_add_effect [OF assms(1) a [unfolded SegmentAdd_def], where dec = dec_segment and k = "segmentKey sid" and g = f] m s1
      have "stored dec_segment (view (sgRedis s)) (segmentKey sid) f = Some m \<or> sid = sr_StreamID req \<and> f = Itoa (sr_Seq req) \<and> m = ?m"
        by auto
      then show "f = Itoa (sm_Seq m) \<and> (\<exists>a b. sm_S3Key m = objSegmentKey a b sid (sm_Seq m)) \<and> (\<exists>body t. objs (sgS3 s1) (RecordingBucket (g_cfg env), sm_S3Key m)
          = Some (body, t) \<and> sm_SHA256 m = hex_encode (g_sha256 env body))"
      proof
        assume "stored dec_segment (view (sgRedis s)) (segmentKey sid) f = Some m"
        with m have "g_uuidOK env sid \<and> stored dec_segment (view (sgRedis (s\<lparr>sgS3 := w1\<rparr>))) (segmentKey sid) f = Some m" by simp
        from old [unfolded evidence_sound_def, rule_format, OF this] s1 show ?thesis by simp
      next
        assume "sid = sr_StreamID req \<and> f = Itoa (sr_Seq req) \<and> m = ?m"
        with s1 k(2) assms(8) show ?thesis by (auto simp: stored_as_def)
      qed
    qed
  qed
qed


section \<open>Requests in sequence\<close>

datatype uploadCall = PutSegment httpRequest | PostComplete httpRequest | PutInventory httpRequest | GetAudit httpRequest

definition serve :: "('r, 's, 'o) segEnv \<Rightarrow> uploadCall \<Rightarrow> ('r, 's, 'o) segState \<Rightarrow> httpReply \<times> ('r, 's, 'o) segState" where
  "serve env call s = (case call of PutSegment r \<Rightarrow> UploadHandler env r s | PostComplete r \<Rightarrow> CompleteHandler env r s
     | PutInventory r \<Rightarrow> DeclareInventoryHandler env r s | GetAudit r \<Rightarrow> AuditHandler env r s)"

definition serve_all :: "('r, 's, 'o) segEnv \<Rightarrow> uploadCall list \<Rightarrow> ('r, 's, 'o) segState \<Rightarrow> ('r, 's, 'o) segState" where
  "serve_all env calls s = fold (\<lambda>c s. snd (serve env c s)) calls s"

text \<open>Operations that touch neither the objects nor a registry entry.\<close>

definition harmless :: "('r \<Rightarrow> keyspace) \<Rightarrow> ('r, 's, 'o) segState \<Rightarrow> ('r, 's, 'o) segState \<Rightarrow> bool" where
  "harmless view s s1 \<longleftrightarrow> sgS3 s1 = sgS3 s \<and> (\<forall>sid. view (sgRedis s1) (segmentKey sid) = view (sgRedis s) (segmentKey sid))"

lemma harmless_trans: "harmless view a b \<Longrightarrow> harmless view b c \<Longrightarrow> harmless view a c"
  by (simp add: harmless_def)

lemma harmless_sound: "harmless view s s1 \<Longrightarrow> evidence_sound env view objs s \<Longrightarrow> evidence_sound env view objs s1"
  by (rule sound_same [of env view objs s]) (auto simp: harmless_def intro: entry_frame)

lemma harmless_bind: "keeps (harmless view) f \<Longrightarrow> (\<And>x. keeps (harmless view) (g x)) \<Longrightarrow> keeps (harmless view) (bindE f g)"
  by (rule keeps_bindE) (auto intro: harmless_trans)

lemma harmless_steps:
  "keeps (harmless view) (seg_time env)" "keeps (harmless view) (seg_ok x)" "keeps (harmless view) (seg_fail e)"
  "keeps (harmless view) (require rep y)" "keeps (harmless view) (guard rep b)" "keeps (harmless view) (seg_draw rep d)"
  "keeps (harmless view) (seg_send rep p)" "keeps (harmless view) (seg_clock env)" "keeps (harmless view) (\<lambda>s. (r, s))"
  by (auto simp: keeps_def harmless_def seg_defs require_def guard_def seg_draw_def seg_send_def seg_clock_def
      split: option.splits prod.splits)

lemma harmless_redis:
  assumes "\<And>w r w1 sid. f w = (r, w1) \<Longrightarrow> view w1 (segmentKey sid) = view w (segmentKey sid)"
  shows "keeps (harmless view) (seg_redis h f)" and "keeps (harmless view) (seg_logged f)"
  using assms by (auto simp: keeps_def harmless_def seg_redis_def seg_logged_def split: prod.splits) (metis prod.collapse)

lemma harmless_wrap: "keeps (harmless view) f \<Longrightarrow> keeps (harmless view) (orReply h f)"
  by (auto simp: keeps_def orReply_def split: prod.splits) (metis snd_conv)

lemma harmless_answer: "keeps (harmless view) f \<Longrightarrow> harmless view s (snd (answer f s))"
  by (auto simp: keeps_def answer_def split: prod.splits sum.splits) (metis snd_conv)+


lemma segment_key_other [simp]:
  "segmentKey a \<noteq> completeKey b" "segmentKey a \<noteq> inventoryKey b" "segmentKey a \<noteq> pendingAssemblyDueKey" "segmentKey a \<noteq> pendingAssemblyKey b"
proof -
  have l: "last (segmentKey a) = CHR ''s''" "last (completeKey b) = CHR ''e''" "last (inventoryKey b) = CHR ''y''"
    by (simp_all add: segmentKey_def completeKey_def inventoryKey_def)
  show "segmentKey a \<noteq> completeKey b" using l(1,2) by auto
  show "segmentKey a \<noteq> inventoryKey b" using l(1,3) by auto
  show "segmentKey a \<noteq> pendingAssemblyDueKey" "segmentKey a \<noteq> pendingAssemblyKey b"
    by (simp_all add: segmentKey_def pendingAssemblyDueKey_def pendingAssemblyKey_def)
qed

lemma inventory_put_frame:
  assumes "redis_conforms exec view" and "InventoryPut exec d w = (r, w1)" and "k \<noteq> inventoryKey (inv_StreamID d)"
  shows "view w1 k = view w k"
proof -
  let ?k = "inventoryKey (inv_StreamID d)"
  obtain r1 u1 where g: "exec (GET ?k) w = (r1, u1)" by fastforce
  obtain r2 u2 where p: "exec (SET ?k (Doc (enc_inventory d)) (TTL segmentTTL)) u1 = (r2, u2)" by fastforce
  have i: "snd (InventoryGet exec (inv_StreamID d) w) = u1" using g by (auto simp: InventoryGet_def split: reply.splits option.splits)
  obtain x where x: "InventoryGet exec (inv_StreamID d) w = (x, u1)" using i by (metis prod.collapse)
  have "w1 = u1 \<or> w1 = u2" using assms(2) x p
    by (auto simp: InventoryPut_def InventoryPutWrite_def split: sum.splits reply.splits if_splits)
  with exec_frame [OF assms(1) g] exec_frame [OF assms(1) p] assms(3) show ?thesis by auto
qed

lemma list_frame:
  assumes "redis_conforms exec view" and "hash_list exec dec ord key w = (r, w1)"
  shows "view w1 = view w"
proof -
  obtain rep u where e: "exec (HGETALL key) w = (rep, u)" by fastforce
  then have "w1 = u" using assms(2) by (auto simp: hash_list_def split: reply.splits)
  with err_or_doc [OF assms(1) e] show ?thesis by auto
qed

lemma inventory_get_frame:
  assumes "redis_conforms exec view" and "InventoryGet exec sid w = (r, w1)"
  shows "view w1 = view w"
proof -
  obtain rep u where e: "exec (GET (inventoryKey sid)) w = (rep, u)" by fastforce
  then have "w1 = u" using assms(2) by (auto simp: InventoryGet_def split: reply.splits option.splits)
  with err_or_doc [OF assms(1) e] show ?thesis by auto
qed

lemma harmless_owned:
  assumes "redis_conforms (g_exec env) view"
  shows "keeps (harmless view) (ownedSession env sid tok)"
  unfolding keeps_def harmless_def by (metis owned_frame [OF assms] prod.collapse segment_keys_apart(1))

lemma harmless_credentials: "keeps (harmless view) (credentials env r)"
  unfolding credentials_def by (intro harmless_bind harmless_steps)

lemma harmless_complete:
  assumes "redis_conforms (g_exec env) view"
  shows "harmless view s (snd (CompleteHandler env r s))"
proof -
  have m: "keeps (harmless view) (MarkStreamComplete env req)" for req
    unfolding MarkStreamComplete_def
    by (intro harmless_bind harmless_owned [OF assms] harmless_steps harmless_redis)
       ((erule complete_frame [OF assms], simp) | (erule mark_frame [OF assms], simp))+
  have c: "keeps (harmless view) (seg_logged (Cancel (g_exec env) sid))" for sid
    by (rule harmless_redis) (erule cancel_frame [OF assms], simp_all)
  show ?thesis unfolding CompleteHandler_def
    by (rule harmless_answer) (auto intro!: harmless_bind harmless_credentials harmless_steps harmless_wrap m c split: prod.split)
qed

lemma harmless_inventory:
  assumes "redis_conforms (g_exec env) view"
  shows "harmless view s (snd (DeclareInventoryHandler env r s))"
proof -
  have p: "keeps (harmless view) (seg_redis UCRegistry (InventoryPut (g_exec env) d))" for d
    by (rule harmless_redis) (erule inventory_put_frame [OF assms], simp)
  have m: "keeps (harmless view) (DeclareInventory env req)" for req
    unfolding DeclareInventory_def by (auto intro!: harmless_bind harmless_owned [OF assms] harmless_steps p)
  show ?thesis unfolding DeclareInventoryHandler_def
    by (rule harmless_answer) (auto intro!: harmless_bind harmless_credentials harmless_steps harmless_wrap m split: prod.split)
qed

lemma harmless_audit:
  assumes "redis_conforms (g_exec env) view"
  shows "harmless view s (snd (AuditHandler env r s))"
proof -
  have m: "keeps (harmless view) (Audit env req)" for req
    unfolding Audit_def SegmentList_def
    by (intro harmless_bind harmless_owned [OF assms] harmless_steps harmless_redis)
       (auto dest: list_frame [OF assms] inventory_get_frame [OF assms])
  show ?thesis unfolding AuditHandler_def
    by (rule harmless_answer) (auto intro!: harmless_bind harmless_credentials harmless_steps harmless_wrap m split: prod.split)
qed

lemma upload_sound:
  assumes "redis_conforms (g_exec env) view" and "s3_conforms (g_send env) objs" and "uuid_doc (g_uuidOK env)"
    and "evidence_sound env view objs s"
  shows "evidence_sound env view objs (snd (UploadHandler env r s))"
proof (cases "uploadRequest env r")
  case (Inl rep)
  then show ?thesis using assms(4) by (simp add: UploadHandler_def)
next
  case (Inr req)
  note R = upload_request_spec [OF Inr]
  have id: "g_uuidOK env (sr_StreamID req)" using Inr by (auto simp: uploadRequest_def Let_def split: option.splits if_splits)
  obtain c s2 where c: "UploadCheck env req s = (c, s2)" by fastforce
  have s2: "evidence_sound env view objs s2"
    using sound_same [OF assms(4)] check_frame [OF assms(1) c] by simp
  have snd: "snd (UploadHandler env r s) = snd (Upload env req s)"
    using Inr by (auto simp: UploadHandler_def split: prod.splits sum.splits)
  show ?thesis
  proof (cases "\<exists>u. c = Inr (Some u)")
    case True
    then obtain u where u: "c = Inr (Some u)" ..
    obtain r' s3 where st: "UploadStore env req u s2 = (r', s3)" by fastforce
    from upload_check_spec [OF assms(1) c [unfolded u]] check_frame [OF assms(1) c]
    have "us_StreamID u = sr_StreamID req" "segment_entry (view (sgRedis s2)) (sr_StreamID req) (sr_Seq req) = None" by simp_all
    from store_sound [OF assms(1-3) s2 id this _ st] R have "evidence_sound env view objs s3" by simp
    then show ?thesis using snd c u st by (simp add: Upload_def bindE_def)
  next
    case False
    then have "snd (Upload env req s) = s2" using c by (auto simp: Upload_def bindE_def seg_ok_def split: sum.splits option.splits)
    then show ?thesis using snd s2 by simp
  qed
qed

lemma serve_sound:
  assumes "redis_conforms (g_exec env) view" and "s3_conforms (g_send env) objs" and "uuid_doc (g_uuidOK env)"
    and "evidence_sound env view objs s"
  shows "evidence_sound env view objs (snd (serve env c s))"
  using upload_sound [OF assms] harmless_sound [OF harmless_complete [OF assms(1)] assms(4)]
    harmless_sound [OF harmless_inventory [OF assms(1)] assms(4)] harmless_sound [OF harmless_audit [OF assms(1)] assms(4)]
  by (cases c) (simp_all add: serve_def)

lemma serve_all_sound:
  assumes "redis_conforms (g_exec env) view" and "s3_conforms (g_send env) objs" and "uuid_doc (g_uuidOK env)"
    and "evidence_sound env view objs s"
  shows "evidence_sound env view objs (serve_all env calls s)"
  using assms(4)
proof (induction calls arbitrary: s)
  case (Cons c cs)
  then show ?case using serve_sound [OF assms(1-3)] by (simp add: serve_all_def)
qed (simp add: serve_all_def)

end
