(* ===== verification/Uploads.thy ===== *)
theory Uploads
  imports Streams Watchers
begin

text \<open>
  The recording pipelines of \<open>internal/transport/webrtc/peer.go\<close>: the archival segment uploader with its retries, the
  live-rewind uploader, the periodic frame.  The file system, the clock, the object store and the Redis server share one
  world \<open>'w\<close>.  The uploads run on \<open>context.Background()\<close>, so only the per-attempt timeout ends one: it is an error
  of the store.  The wait between two attempts is recorded, log lines are left out.
\<close>

section \<open>The peer and its environment\<close>

record peer =
  pr_scheduleID :: string
  pr_sessionID :: string
  pr_participantID :: string
  pr_streamID :: string
  pr_streamType :: string
  pr_startedAt :: instant

record 'w peerEnv =
  pv_stream :: "'w streamEnv"
  pv_live :: "'w liveEnv"
  pv_exec :: "'w redis"
  pv_send :: "(bytes, 'w) s3"
  pv_cfg :: storageConfig
  pv_presign :: "string \<Rightarrow> string \<Rightarrow> duration \<Rightarrow> string option"
  pv_storage :: bool
  pv_segments :: bool
  pv_hlsFragments :: bool
  pv_now :: "'w \<Rightarrow> instant \<times> 'w"
  pv_sleep :: "duration \<Rightarrow> 'w \<Rightarrow> 'w"
  pv_stat :: "string \<Rightarrow> 'w \<Rightarrow> int option \<times> 'w"
  pv_open :: "string \<Rightarrow> 'w \<Rightarrow> bytes option \<times> 'w"
  pv_remove :: "string \<Rightarrow> 'w \<Rightarrow> 'w"

datatype uploadError = StatSegment | OpenSegment | StoreFailed storageError | UploadExhausted uploadError | RegisterFailed regError

section \<open>Archival segments\<close>

definition ffmpegSegmentUploadMaxAttempts :: nat where "ffmpegSegmentUploadMaxAttempts = 3"
definition ffmpegUploadDrainTimeout :: duration where "ffmpegUploadDrainTimeout = 60 * second"
definition ffmpegSegmentUploadAttemptTimeout :: duration where "ffmpegSegmentUploadAttemptTimeout = 15 * second"

definition uploadFFmpegSegmentOnce :: "'w peerEnv \<Rightarrow> peer \<Rightarrow> string \<Rightarrow> int \<Rightarrow> (uploadError, string, 'w) fallible" where
  "uploadFFmpegSegmentOnce env p path seq w =
     (case pv_open env path w of
        (None, w1) \<Rightarrow> (Inl OpenSegment, w1)
      | (Some f, w1) \<Rightarrow>
          (case UploadFFmpegSegment (pv_send env) (pv_cfg env) (pr_scheduleID p) (pr_sessionID p) (pr_streamID p) seq f w1 of
             (r, w2) \<Rightarrow> (mapErr StoreFailed r, w2)))"

text \<open>\<open>left\<close> counts the attempts not yet made.\<close>

fun upload_attempts :: "'w peerEnv \<Rightarrow> peer \<Rightarrow> string \<Rightarrow> int \<Rightarrow> nat \<Rightarrow> nat \<Rightarrow> uploadError \<Rightarrow> (uploadError, string, 'w) fallible" where
  "upload_attempts env p path seq attempt 0 lastErr w = (Inl (UploadExhausted lastErr), w)"
| "upload_attempts env p path seq attempt (Suc left) lastErr w =
     (let w1 = (if attempt > 0 then pv_sleep env (int attempt * (2 * second)) w else w)
      in (case uploadFFmpegSegmentOnce env p path seq w1 of
            (Inr key, w2) \<Rightarrow> (Inr key, w2)
          | (Inl e, w2) \<Rightarrow> upload_attempts env p path seq (attempt + 1) left e w2))"

definition uploadFFmpegSegmentWithRetry :: "'w peerEnv \<Rightarrow> peer \<Rightarrow> string \<Rightarrow> int \<Rightarrow> (uploadError, string \<times> int, 'w) fallible" where
  "uploadFFmpegSegmentWithRetry env p path seq w =
     (case pv_stat env path w of
        (None, w1) \<Rightarrow> (Inl StatSegment, w1)
      | (Some sz, w1) \<Rightarrow>
          (case upload_attempts env p path seq 0 ffmpegSegmentUploadMaxAttempts StatSegment w1 of
             (Inl e, w2) \<Rightarrow> (Inl e, w2) | (Inr key, w2) \<Rightarrow> (Inr (key, sz), w2)))"

text \<open>What the goroutine and \<open>close\<close> share: the segments uploaded so far and the mark that one is missing.\<close>

record segmentLog =
  segs :: "SegmentMeta list"
  incomplete :: bool

fun segment_loop :: "'w peerEnv \<Rightarrow> peer \<Rightarrow> string list \<Rightarrow> int \<Rightarrow> instant \<Rightarrow> segmentLog \<Rightarrow> 'w \<Rightarrow> segmentLog \<times> 'w" where
  "segment_loop env p [] seq prevAt st w = (st, w)"
| "segment_loop env p (path # paths) seq prevAt st w =
     (case pv_now env w of (endedAt, w1) \<Rightarrow>
      case uploadFFmpegSegmentWithRetry env p path seq w1 of
        (Inl _, w2) \<Rightarrow> segment_loop env p paths (seq + 1) endedAt (st\<lparr>incomplete := True\<rparr>) w2
      | (Inr (s3Key, sz), w2) \<Rightarrow>
          (case pv_now env (pv_remove env path w2) of (t, w3) \<Rightarrow>
             segment_loop env p paths (seq + 1) endedAt
               (st\<lparr>segs := segs st @ [\<lparr>sm_Seq = seq, sm_S3Key = s3Key, sm_SHA256 = [], sm_StartedAt = prevAt, sm_EndedAt = endedAt,
                  sm_SizeBytes = sz, sm_UploadedAt = t\<rparr>]\<rparr>) w3))"

text \<open>The paths are what \<open>sup.Segments()\<close> delivers until it is closed; without a store nothing is read from it.\<close>

definition runFFmpegSegmentUploader :: "'w peerEnv \<Rightarrow> peer \<Rightarrow> string list \<Rightarrow> segmentLog \<Rightarrow> 'w \<Rightarrow> segmentLog \<times> 'w" where
  "runFFmpegSegmentUploader env p paths st w =
     (if \<not> pv_storage env then (st, w)
      else (case pv_now env w of (t, w1) \<Rightarrow> segment_loop env p paths 0 t st w1))"

section \<open>Live rewind\<close>

definition uploadHLSInit :: "'w peerEnv \<Rightarrow> peer \<Rightarrow> HLSFragmentEvent \<Rightarrow> (uploadError, unit, 'w) fallible" where
  "uploadHLSInit env p evt w =
     (case pv_open env (Path evt) w of
        (None, w1) \<Rightarrow> (Inl OpenSegment, w1)
      | (Some f, w1) \<Rightarrow>
        (case UploadHLSInit (pv_send env) (pv_cfg env) (pr_scheduleID p) (pr_sessionID p) (pr_streamID p) (Epoch evt) f w1 of
           (Inl e, w2) \<Rightarrow> (Inl (StoreFailed e), w2)
         | (Inr s3Key, w2) \<Rightarrow>
           (case pv_now env w2 of (t, w3) \<Rightarrow>
            case AddInit (pv_exec env) (pr_streamID p) \<lparr>ini_Epoch = Epoch evt, ini_S3Key = s3Key, ini_UploadedAt = t\<rparr> w3 of
              (Inl e, w4) \<Rightarrow> (Inl (RegisterFailed e), w4)
            | (Inr _, w4) \<Rightarrow> (Inr (), pv_remove env (Path evt) w4))))"

definition uploadHLSFragment :: "'w peerEnv \<Rightarrow> peer \<Rightarrow> HLSFragmentEvent \<Rightarrow> int \<Rightarrow> instant \<Rightarrow> instant \<Rightarrow> (uploadError, unit, 'w) fallible" where
  "uploadHLSFragment env p evt seq startedAt endedAt w =
     (case pv_open env (Path evt) w of
        (None, w1) \<Rightarrow> (Inl OpenSegment, w1)
      | (Some f, w1) \<Rightarrow>
        (case pv_stat env (Path evt) w1 of (sz, w2) \<Rightarrow>
         case UploadHLSFragment (pv_send env) (pv_cfg env) (pr_scheduleID p) (pr_sessionID p) (pr_streamID p) seq f w2 of
           (Inl e, w3) \<Rightarrow> (Inl (StoreFailed e), w3)
         | (Inr s3Key, w3) \<Rightarrow>
           (case pv_now env w3 of (t, w4) \<Rightarrow>
            case AddFragment (pv_exec env) (pr_streamID p)
                \<lparr>Seq = seq, frag_Epoch = Epoch evt, frag_S3Key = s3Key, StartedAt = startedAt, EndedAt = endedAt,
                 frag_SizeBytes = (case sz of None \<Rightarrow> 0 | Some n \<Rightarrow> n), frag_UploadedAt = t\<rparr> w4 of
              (Inl e, w5) \<Rightarrow> (Inl (RegisterFailed e), w5)
            | (Inr _, w5) \<Rightarrow> (Inr (), pv_remove env (Path evt) w5))))"

record hlsClock =
  hc_seq :: int
  hc_base :: instant
  hc_cumulative :: duration
  hc_lastEpoch :: int

definition hls_start :: hlsClock where
  "hls_start = \<lparr>hc_seq = 0, hc_base = zero_time, hc_cumulative = 0, hc_lastEpoch = - 1\<rparr>"

text \<open>The clock of one fragment: anchored at the first fragment of an epoch, then carried by the reported durations.\<close>

definition anchor_epoch :: "'w peerEnv \<Rightarrow> HLSFragmentEvent \<Rightarrow> hlsClock \<Rightarrow> 'w \<Rightarrow> hlsClock \<times> 'w" where
  "anchor_epoch env evt c w =
     (if Epoch evt = hc_lastEpoch c then (c, w)
      else (case pv_now env w of (t, w1) \<Rightarrow>
        (c\<lparr>hc_base := t - Duration evt, hc_cumulative := 0, hc_lastEpoch := Epoch evt\<rparr>, w1)))"

definition fragment_span :: "HLSFragmentEvent \<Rightarrow> hlsClock \<Rightarrow> instant \<times> instant" where
  "fragment_span evt c = (hc_base c + hc_cumulative c, hc_base c + (hc_cumulative c + Duration evt))"

definition next_fragment :: "HLSFragmentEvent \<Rightarrow> hlsClock \<Rightarrow> hlsClock" where
  "next_fragment evt c = c\<lparr>hc_cumulative := hc_cumulative c + Duration evt, hc_seq := hc_seq c + 1\<rparr>"

text \<open>The fragments handed to \<open>uploadHLSFragment\<close> are the trace: sequence number, event, start and end.\<close>

fun hls_loop :: "'w peerEnv \<Rightarrow> peer \<Rightarrow> HLSFragmentEvent list \<Rightarrow> hlsClock \<Rightarrow> 'w \<Rightarrow> (int \<times> HLSFragmentEvent \<times> instant \<times> instant) list \<times> 'w" where
  "hls_loop env p [] c w = ([], w)"
| "hls_loop env p (evt # evts) c w =
     (if IsInit evt then (case uploadHLSInit env p evt w of (_, w1) \<Rightarrow> hls_loop env p evts c w1)
      else (case anchor_epoch env evt c w of (c1, w1) \<Rightarrow>
        case fragment_span evt c1 of (a, b) \<Rightarrow>
        case uploadHLSFragment env p evt (hc_seq c1) a b w1 of (_, w2) \<Rightarrow>
        case hls_loop env p evts (next_fragment evt c1) w2 of (tr, w3) \<Rightarrow> ((hc_seq c1, evt, a, b) # tr, w3)))"

definition runHLSFragmentUploader :: "'w peerEnv \<Rightarrow> peer \<Rightarrow> HLSFragmentEvent list \<Rightarrow> 'w \<Rightarrow> (int \<times> HLSFragmentEvent \<times> instant \<times> instant) list \<times> 'w" where
  "runHLSFragmentUploader env p evts w =
     (if \<not> pv_storage env \<or> \<not> pv_hlsFragments env then ([], w) else hls_loop env p evts hls_start w)"

section \<open>The periodic frame\<close>

text \<open>\<open>captured\<close>: what \<open>CaptureKeyFrame\<close> returned after the wait, \<^const>\<open>None\<close> also when the context ended during it.\<close>

definition captureAndUpload :: "'w peerEnv \<Rightarrow> peer \<Rightarrow> bytes option \<Rightarrow> int \<Rightarrow> 'w \<Rightarrow> string \<times> 'w" where
  "captureAndUpload env p captured seq w =
     (if \<not> pv_storage env then ([], w)
      else (case captured of None \<Rightarrow> ([], w)
        | Some h264Frame \<Rightarrow>
          (case UploadFrame (pv_send env) (pv_cfg env) (pr_scheduleID p) (pr_streamID p) seq h264Frame w of
             (Inl _, w1) \<Rightarrow> ([], w1)
           | (Inr key, w1) \<Rightarrow>
             ((case PresignFrame (pv_presign env) (pv_cfg env) key (PresignExpiry (pv_cfg env)) of Inl _ \<Rightarrow> key | Inr url \<Rightarrow> url), w1))))"

text \<open>One tick of the capture loop that is not skipped.\<close>

definition capture_tick :: "'w peerEnv \<Rightarrow> peer \<Rightarrow> bytes option \<Rightarrow> int \<Rightarrow> 'w \<Rightarrow> int \<times> 'w" where
  "capture_tick env p captured frameSeq w =
     (let s = frameSeq + 1; (frameURL, w1) = captureAndUpload env p captured s w
      in (s, snd (PublishFrame (pv_stream env) (pr_scheduleID p) (pr_sessionID p) (pr_participantID p) (pr_streamID p)
                   (pr_streamType p) frameURL s w1)))"


section \<open>Every segment is accounted for\<close>

text \<open>The seven fields of a segment that was uploaded as number \<open>q\<close>.\<close>

definition stored_under :: "peer \<Rightarrow> SegmentMeta \<Rightarrow> bool" where
  "stored_under p m \<longleftrightarrow> sm_S3Key m = ffmpegSegmentKey (pr_scheduleID p) (pr_sessionID p) (pr_streamID p) (sm_Seq m)"

lemma upload_once_key:
  "uploadFFmpegSegmentOnce env p path q w = (Inr key, w') \<Longrightarrow>
     key = ffmpegSegmentKey (pr_scheduleID p) (pr_sessionID p) (pr_streamID p) q"
  by (auto simp: uploadFFmpegSegmentOnce_def UploadFFmpegSegment_def put_as_def split: prod.splits option.splits s3reply.splits)

lemma upload_attempts_key:
  "upload_attempts env p path q n k e w = (Inr key, w') \<Longrightarrow>
     key = ffmpegSegmentKey (pr_scheduleID p) (pr_sessionID p) (pr_streamID p) q"
proof (induction env p path q n k e w rule: upload_attempts.induct)
  case (2 env p path q n k e w)
  then show ?case
    by (auto simp: Let_def split: prod.splits sum.splits dest: upload_once_key)
qed simp

lemma upload_retry_key:
  "uploadFFmpegSegmentWithRetry env p path q w = (Inr (key, sz), w') \<Longrightarrow>
     key = ffmpegSegmentKey (pr_scheduleID p) (pr_sessionID p) (pr_streamID p) q"
  by (auto simp: uploadFFmpegSegmentWithRetry_def split: prod.splits option.splits sum.splits dest: upload_attempts_key)

text \<open>
  What the loop adds to the log for the paths numbered from \<open>q\<close>: strictly increasing numbers of that range, one for every path
  unless the log is marked.
\<close>

lemma segment_loop_log:
  assumes "segment_loop env p paths q t st w = (st', w')"
  shows "\<exists>new. segs st' = segs st @ new \<and> sorted_wrt (<) (map sm_Seq new) \<and> set (map sm_Seq new) \<subseteq> {q..<q + int (length paths)}
    \<and> list_all (stored_under p) new
    \<and> (incomplete st' \<longleftrightarrow> incomplete st \<or> length new < length paths) \<and> length new \<le> length paths"
  using assms
proof (induction paths arbitrary: q t st w)
  case Nil then show ?case by (intro exI [of _ "[]"]) auto
next
  case (Cons path paths)
  obtain e w1 where n: "pv_now env w = (e, w1)" by fastforce
  obtain r w2 where u: "uploadFFmpegSegmentWithRetry env p path q w1 = (r, w2)" by fastforce
  show ?case
  proof (cases r)
    case (Inl err)
    have "segment_loop env p paths (q + 1) e (st\<lparr>incomplete := True\<rparr>) w2 = (st', w')" using Cons.prems n u Inl by simp
    from Cons.IH [OF this] obtain new where g: "segs st' = segs st @ new" "sorted_wrt (<) (map sm_Seq new)"
      "set (map sm_Seq new) \<subseteq> {q + 1..<q + 1 + int (length paths)}" "list_all (stored_under p) new" "incomplete st'"
      "length new \<le> length paths" by auto
    moreover have "set (map sm_Seq new) \<subseteq> {q..<q + int (length (path # paths))}"
      by (rule order_trans [OF g(3)]) auto
    ultimately show ?thesis by (intro exI [of _ new]) auto
  next
    case (Inr ks)
    obtain key sz where ks: "ks = (key, sz)" by fastforce
    obtain u2 w3 where m: "pv_now env (pv_remove env path w2) = (u2, w3)" by fastforce
    define s where "s = \<lparr>sm_Seq = q, sm_S3Key = key, sm_SHA256 = [], sm_StartedAt = t, sm_EndedAt = e, sm_SizeBytes = sz, sm_UploadedAt = u2\<rparr>"
    have k: "stored_under p s" using upload_retry_key u Inr ks by (auto simp: stored_under_def s_def)
    have "segment_loop env p paths (q + 1) e (st\<lparr>segs := segs st @ [s]\<rparr>) w3 = (st', w')"
      using Cons.prems n u Inr ks m by (simp add: s_def)
    from Cons.IH [OF this] obtain new where g: "segs st' = segs st @ s # new" "sorted_wrt (<) (map sm_Seq new)"
      "set (map sm_Seq new) \<subseteq> {q + 1..<q + 1 + int (length paths)}" "list_all (stored_under p) new"
      "incomplete st' \<longleftrightarrow> incomplete st \<or> length new < length paths" "length new \<le> length paths" by auto
    have r: "sm_Seq m \<in> {q + 1..<q + 1 + int (length paths)}" if "m \<in> set new" for m
      using g(3) that by (auto simp del: atLeastLessThan_iff)
    have q: "sm_Seq s = q" by (simp add: s_def)
    have "sorted_wrt (<) (map sm_Seq (s # new))" using g(2) r q by fastforce
    moreover have "set (map sm_Seq (s # new)) \<subseteq> {q..<q + int (length (path # paths))}" using r q by fastforce
    ultimately show ?thesis using g k by (intro exI [of _ "s # new"]) auto
  qed
qed

lemma segment_accounting:
  assumes "pv_storage env"
    and "runFFmpegSegmentUploader env p paths \<lparr>segs = [], incomplete = False\<rparr> w = (st, w')"
  shows "sorted_wrt (<) (map sm_Seq (segs st)) \<and> list_all (stored_under p) (segs st)
    \<and> (incomplete st \<longleftrightarrow> length (segs st) < length paths)
    \<and> (\<not> incomplete st \<longrightarrow> map sm_Seq (segs st) = map int [0..<length paths])"
proof -
  obtain t w1 where n: "pv_now env w = (t, w1)" by fastforce
  have "segment_loop env p paths 0 t \<lparr>segs = [], incomplete = False\<rparr> w1 = (st, w')"
    using assms n by (simp add: runFFmpegSegmentUploader_def)
  from segment_loop_log [OF this] have g: "sorted_wrt (<) (map sm_Seq (segs st))"
      "set (map sm_Seq (segs st)) \<subseteq> {0..<int (length paths)}" "list_all (stored_under p) (segs st)"
      "incomplete st \<longleftrightarrow> length (segs st) < length paths" "length (segs st) \<le> length paths"
    by auto
  have "map sm_Seq (segs st) = map int [0..<length paths]" if "\<not> incomplete st"
  proof -
    have l: "length (map sm_Seq (segs st)) = length paths" using that g(4,5) by simp
    have d: "distinct (map sm_Seq (segs st))" using g(1) by (simp add: strict_sorted_iff)
    have "card (set (map sm_Seq (segs st))) = card {0..<int (length paths)}" using distinct_card [OF d] l by simp
    then have "set (map sm_Seq (segs st)) = {0..<int (length paths)}" by (intro card_subset_eq) (use g(2) in auto)
    also have "\<dots> = set (map int [0..<length paths])" by (simp add: image_int_atLeastLessThan)
    finally show ?thesis
      using g(1) by (intro strict_sorted_equal) (auto simp: sorted_wrt_map sorted_wrt_upt)
  qed
  with g show ?thesis by blast
qed



section \<open>The live timeline\<close>

text \<open>
  The fragments in the order they are uploaded: numbers step by one, each lasts what ffmpeg reported, and within an epoch each
  starts where the one before it ended.
\<close>

fun timeline :: "int \<Rightarrow> (int \<times> instant) option \<Rightarrow> (int \<times> HLSFragmentEvent \<times> instant \<times> instant) list \<Rightarrow> bool" where
  "timeline q prev [] \<longleftrightarrow> True"
| "timeline q prev ((s, e, a, b) # tr) \<longleftrightarrow> s = q \<and> b - a = Duration e
     \<and> (case prev of None \<Rightarrow> True | Some (ep, z) \<Rightarrow> Epoch e = ep \<longrightarrow> a = z)
     \<and> timeline (q + 1) (Some (Epoch e, b)) tr"

definition clock_end :: "hlsClock \<Rightarrow> int \<times> instant" where
  "clock_end c = (hc_lastEpoch c, hc_base c + hc_cumulative c)"

lemma hls_loop_timeline:
  assumes "hls_loop env p evts c w = (tr, w')"
  shows "timeline (hc_seq c) (Some (clock_end c)) tr \<and> map (fst \<circ> snd) tr = filter (\<lambda>e. \<not> IsInit e) evts"
  using assms
proof (induction evts arbitrary: c w tr w')
  case (Cons evt evts)
  show ?case
  proof (cases "IsInit evt")
    case True
    then show ?thesis using Cons by (auto split: prod.splits)
  next
    case False
    obtain c1 w1 where a: "anchor_epoch env evt c w = (c1, w1)" by fastforce
    obtain r w2 where u: "uploadHLSFragment env p evt (hc_seq c1) (fst (fragment_span evt c1)) (snd (fragment_span evt c1)) w1 = (r, w2)"
      by fastforce
    obtain tr1 w3 where l: "hls_loop env p evts (next_fragment evt c1) w2 = (tr1, w3)" by fastforce
    have tr: "tr = (hc_seq c1, evt, fst (fragment_span evt c1), snd (fragment_span evt c1)) # tr1"
      using Cons.prems False a u l by (auto split: prod.splits)
    have c1: "hc_seq c1 = hc_seq c" "hc_lastEpoch c1 = Epoch evt" "Epoch evt = hc_lastEpoch c \<Longrightarrow> c1 = c"
      using a by (auto simp: anchor_epoch_def split: if_splits prod.splits)
    have "clock_end (next_fragment evt c1) = (Epoch evt, snd (fragment_span evt c1))"
      using c1 by (simp add: clock_end_def next_fragment_def fragment_span_def)
    then show ?thesis
      using Cons.IH [OF l] c1 False by (auto simp: tr clock_end_def next_fragment_def fragment_span_def)
  qed
qed simp

text \<open>C33.  The live-rewind timeline is built from ffmpeg's own durations, never from how long uploads take: the fragments are numbered
  one by one in the order they were closed, each spans exactly its reported duration, and inside an epoch there is neither a gap nor
  an overlap, whichever uploads fail on the way.\<close>

theorem live_timeline_gapless:
  "timeline 0 None (fst (runHLSFragmentUploader env p evts w))
    \<and> map (fst \<circ> snd) (fst (runHLSFragmentUploader env p evts w)) =
        (if pv_storage env \<and> pv_hlsFragments env then filter (\<lambda>e. \<not> IsInit e) evts else [])"
proof -
  have weaken: "timeline q prev tr \<Longrightarrow> timeline q None tr" for q prev tr
    by (cases tr) (auto split: prod.splits)
  obtain tr w' where l: "hls_loop env p evts hls_start w = (tr, w')" by fastforce
  have "timeline 0 None tr" "map (fst \<circ> snd) tr = filter (\<lambda>e. \<not> IsInit e) evts"
    using hls_loop_timeline [OF l] weaken by (auto simp: hls_start_def)
  then show ?thesis by (simp add: runHLSFragmentUploader_def l)
qed


text \<open>A tick with no key frame to show still announces a frame, with an empty address.\<close>

lemma frame_announced_without_frame:
  "capture_tick env p None n w = (n + 1, snd (PublishFrame (pv_stream env) (pr_scheduleID p) (pr_sessionID p) (pr_participantID p)
     (pr_streamID p) (pr_streamType p) [] (n + 1) w))"
  by (simp add: capture_tick_def captureAndUpload_def Let_def)

text \<open>The reference peer of the witnesses: a store that accepts everything, a disk on which one file is missing.\<close>

definition al_peer :: "(string \<times> rval \<times> duration option) list peerEnv" where
  "al_peer = \<lparr>pv_stream = al_stream, pv_live = al_live, pv_exec = al_exec, pv_send = (\<lambda>_ w. (S3Ok, w)), pv_cfg = DefaultConfig ''s3'',
     pv_presign = (\<lambda>b k _. Some (b @ k)), pv_storage = True, pv_segments = True, pv_hlsFragments = True, pv_now = (\<lambda>w. (9, w)),
     pv_sleep = (\<lambda>_ w. w), pv_stat = (\<lambda>f w. (if f = ''lost'' then None else Some 5, w)), pv_open = (\<lambda>_ w. (Some [], w)),
     pv_remove = (\<lambda>_ w. w)\<rparr>"

definition demo_peer :: peer where
  "demo_peer = \<lparr>pr_scheduleID = ''e1'', pr_sessionID = ''ss'', pr_participantID = ''p1'', pr_streamID = ''s1'', pr_streamType = ''camera'',
     pr_startedAt = 0\<rparr>"

lemma al_upload:
  "uploadFFmpegSegmentWithRetry al_peer demo_peer f q w =
     (if f = ''lost'' then Inl StatSegment else Inr (ffmpegSegmentKey ''e1'' ''ss'' ''s1'' q, 5), w)"
  by (simp add: uploadFFmpegSegmentWithRetry_def ffmpegSegmentUploadMaxAttempts_def numeral_3_eq_3 uploadFFmpegSegmentOnce_def
      UploadFFmpegSegment_def put_as_def al_peer_def demo_peer_def)


end
