(* ===== verification/PeerClose.thy ===== *)
theory PeerClose
  imports Uploads
begin

text \<open>
  \<open>Peer.close\<close> of \<open>internal/transport/webrtc/peer.go\<close>: what is announced, registered and published when a stream ends, from what
  the recording pipeline left.  The body runs once (\<open>sync.Once\<close>, see \<open>PeerLife\<close>).  \<open>closedByFailure\<close> is an atomic that a
  grace timer may set while the body runs, so it is a function of how many times it was read.  Stopping ffmpeg and
  closing the connection are the supervisor's and the library's; log lines are left out.
\<close>

section \<open>What the pipeline left\<close>

text \<open>
  The ing state as \<open>close\<close> finds it once the supervisor's process is stopped: was there a video track, a supervisor, did the
  uploader finish in time, and the supervisor's verdicts.
\<close>

record ingestView =
  iv_hadVideo :: bool
  iv_supervisor :: bool
  iv_drained :: bool
  iv_forceKilled :: bool
  iv_gaveUp :: bool
  iv_log :: segmentLog

record recordingOutcome =
  ro_hadVideo :: bool
  ro_segments :: "SegmentMeta list"
  ro_gaveUp :: bool
  ro_truncated :: bool
  ro_incomplete :: bool

definition collect_recording :: "ingestView option \<Rightarrow> recordingOutcome" where
  "collect_recording ing = (case ing of
     None \<Rightarrow> \<lparr>ro_hadVideo = False, ro_segments = [], ro_gaveUp = False, ro_truncated = False, ro_incomplete = False\<rparr>
   | Some v \<Rightarrow>
      if \<not> iv_supervisor v
      then \<lparr>ro_hadVideo = iv_hadVideo v, ro_segments = [], ro_gaveUp = False, ro_truncated = False, ro_incomplete = incomplete (iv_log v)\<rparr>
      else \<lparr>ro_hadVideo = iv_hadVideo v, ro_segments = segs (iv_log v), ro_gaveUp = iv_gaveUp v,
            ro_truncated = iv_forceKilled v \<and> segs (iv_log v) \<noteq> [],
            ro_incomplete = incomplete (iv_log v) \<or> \<not> iv_drained v \<or> iv_forceKilled v \<and> segs (iv_log v) = []\<rparr>)"

text \<open>The loop over the segments: their keys, and whether one failed to register.\<close>

fun register_segments :: "'w peerEnv \<Rightarrow> peer \<Rightarrow> SegmentMeta list \<Rightarrow> bool \<Rightarrow> 'w \<Rightarrow> (string list \<times> bool) \<times> 'w" where
  "register_segments env p [] inc w = (([], inc), w)"
| "register_segments env p (s # ss) inc w =
     (if pv_segments env
      then (case SegmentAdd (pv_exec env) (pr_streamID p) s w of (r, w1) \<Rightarrow>
        case register_segments env p ss (inc \<or> r \<noteq> Inr ()) w1 of ((keys, i), w2) \<Rightarrow> ((sm_S3Key s # keys, i), w2))
      else (case register_segments env p ss inc w of ((keys, i), w2) \<Rightarrow> ((sm_S3Key s # keys, i), w2)))"

section \<open>Alerts of the streaming service\<close>

definition truncated_detail :: "nat \<Rightarrow> string" where
  "truncated_detail n =
     map char_of [102, 102, 109, 112, 101, 103, 32, 98, 225, 187, 139, 32, 100, 225, 187, 171, 110, 103, 32, 99, 198, 176, 225, 187, 161,
       110, 103, 32, 98, 225, 187, 169, 99, 32, 108, 195, 186, 99, 32, 107, 225, 186, 191, 116, 32, 116, 104, 195, 186, 99, 59, 32 :: nat]
     @ itoa_nat n
     @ map char_of [32, 115, 101, 103, 109, 101, 110, 116, 32, 196, 145, 195, 163, 32, 103, 104, 105, 44, 32, 196, 145, 111, 225, 186, 161,
       110, 32, 99, 117, 225, 187, 145, 105, 32, 99, 195, 179, 32, 116, 104, 225, 187, 131, 32, 99, 225, 187, 165, 116 :: nat]"

definition peer_alert :: "peer \<Rightarrow> string \<Rightarrow> string \<Rightarrow> instant \<Rightarrow> AlertEvent" where
  "peer_alert p alertType detail t =
     \<lparr>al_EventID = [], al_Source = AlertSourceStreaming, al_SessionID = pr_sessionID p, al_ParticipantID = pr_participantID p,
      al_StreamID = pr_streamID p, al_StreamType = pr_streamType p, al_AlertType = alertType, al_Detail = detail,
      al_Confidence = Fin 1, al_SequenceNo = 0, al_Level = None, al_CapturedAt = t\<rparr>"

definition raise_alert :: "'w peerEnv \<Rightarrow> peer \<Rightarrow> string \<Rightarrow> string \<Rightarrow> 'w \<Rightarrow> 'w" where
  "raise_alert env p alertType detail w =
     (case pv_now env w of (t, w1) \<Rightarrow> snd (PublishAlert (pv_live env) (peer_alert p alertType detail t) [] w1))"

section \<open>Closing\<close>

text \<open>
  The verdicts of \<open>close\<close>.  Each reads \<open>closedByFailure\<close> anew: \<open>failed n\<close> is its value at the n-th read.  The alerts to
  raise, in order.
\<close>

definition empty_recording :: "recordingOutcome \<Rightarrow> bool \<Rightarrow> bool" where
  "empty_recording ro failed0 \<longleftrightarrow> ro_hadVideo ro \<and> ro_segments ro = [] \<and> \<not> failed0"

definition marks_complete :: "recordingOutcome \<Rightarrow> bool \<Rightarrow> bool \<Rightarrow> bool" where
  "marks_complete ro inc failed1 \<longleftrightarrow> \<not> failed1 \<and> \<not> ro_gaveUp ro \<and> \<not> inc \<and> ro_segments ro \<noteq> []"

definition close_alerts :: "recordingOutcome \<Rightarrow> bool \<Rightarrow> (nat \<Rightarrow> bool) \<Rightarrow> (string \<times> string) list" where
  "close_alerts ro inc failed =
     (if (ro_gaveUp ro \<or> inc \<or> empty_recording ro (failed 0)) \<and> \<not> failed 2 then [(AlertRecordingIncomplete, [])]
      else if ro_truncated ro \<and> \<not> failed 3 then [(AlertRecordingTruncated, truncated_detail (length (ro_segments ro)))]
      else [])
     @ (if failed 4 then [(AlertStreamDropped, [])] else [])"

definition close_body :: "'w peerEnv \<Rightarrow> peer \<Rightarrow> ingestView option \<Rightarrow> (nat \<Rightarrow> bool) \<Rightarrow> 'w \<Rightarrow> 'w" where
  "close_body env p ing failed w =
     (case pv_now env w of (t, w1) \<Rightarrow>
      let secs = trunc_secs (time_sub t (pr_startedAt p));
          w2 = NotifyLeft (pv_live env) (pr_scheduleID p) (pr_sessionID p) (pr_participantID p) (pr_streamID p) (pr_streamType p) w1;
          ro = collect_recording ing
      in case register_segments env p (ro_segments ro) (ro_incomplete ro) w2 of ((keys, inc), w3) \<Rightarrow>
      let w4 = (if marks_complete ro inc (failed 1) \<and> pv_segments env then snd (MarkComplete (pv_exec env) (pr_streamID p) w3) else w3);
          w5 = fold (\<lambda>(a, d). raise_alert env p a d) (close_alerts ro inc failed) w4
      in snd (NotifyStreamEnded (pv_stream env) (pr_scheduleID p) (pr_sessionID p) (pr_participantID p) (pr_streamID p)
                (pr_streamType p) keys secs w5))"

text \<open>The temporary files go only when nothing of the recording is missing from the store.\<close>

definition removes_files :: "bool \<Rightarrow> bool" where "removes_files inc \<longleftrightarrow> \<not> inc"

section \<open>One verdict per ending\<close>


definition demo_view_cut :: ingestView where
  "demo_view_cut = \<lparr>iv_hadVideo = True, iv_supervisor = True, iv_drained = True, iv_forceKilled = True, iv_gaveUp = False,
     iv_log = \<lparr>segs = [\<lparr>sm_Seq = 0, sm_S3Key = ffmpegSegmentKey ''e1'' ''ss'' ''s1'' 0, sm_SHA256 = [], sm_StartedAt = 0, sm_EndedAt = 9,
       sm_SizeBytes = 5, sm_UploadedAt = 9\<rparr>], incomplete = False\<rparr>\<rparr>"


text \<open>A grace timer that fires while the body of a deliberate ending runs turns its verdict into a dropped stream.\<close>

lemma late_timer_verdict:
  fixes ro defines "ro \<equiv> collect_recording (Some (demo_view_cut\<lparr>iv_forceKilled := False\<rparr>))"
  shows "close_alerts ro False (\<lambda>_. False) = []" and "marks_complete ro False False"
    and "close_alerts ro False (\<lambda>n. 1 \<le> n) = [(AlertStreamDropped, [])]" and "\<not> marks_complete ro False True"
  by (simp_all add: ro_def close_alerts_def collect_recording_def demo_view_cut_def marks_complete_def empty_recording_def)

section \<open>What the close changes in the registry\<close>

definition harmless_live :: "'w liveEnv \<Rightarrow> ('w \<Rightarrow> keyspace) \<Rightarrow> bool" where
  "harmless_live env view \<longleftrightarrow> (\<forall>w. view (snd (l_now env w)) = view w \<and> view (snd (l_uuid env w)) = view w)
     \<and> (\<forall>c j w. view (snd (l_publish env c j w)) = view w) \<and> (\<forall>p w. view (snd (l_scan env p w)) = view w)
     \<and> (\<forall>ks w. view (snd (l_mget env ks w)) = view w)
     \<and> (case l_alertPublisher env of None \<Rightarrow> True | Some pub \<Rightarrow> \<forall>e w. view (snd (pub e w)) = view w)"

definition harmless_peer :: "'w peerEnv \<Rightarrow> ('w \<Rightarrow> keyspace) \<Rightarrow> bool" where
  "harmless_peer env view \<longleftrightarrow> harmless_live (pv_live env) view \<and> harmless_stream (pv_stream env) view
     \<and> (\<forall>w. view (snd (pv_now env w)) = view w)"

lemma scan_view: "harmless_live env view \<Longrightarrow> view (snd (scanByPattern env pat w)) = view w"
  unfolding harmless_live_def scanByPattern_def by (auto split: prod.splits option.splits) (metis snd_conv)+

lemma enrich_view: "harmless_live env view \<Longrightarrow> view (snd (enrichAlertIdentity env a w)) = view w"
  using scan_view [of env view "''streaming-session:*:'' @ al_SessionID a @ '':*''" w]
  by (auto simp: enrichAlertIdentity_def ScanSession_def split: prod.splits sum.splits)

lemma complete_view: "harmless_live env view \<Longrightarrow> view (snd (complete_alert env a eid w)) = view w"
proof -
  assume h: "harmless_live env view"
  obtain e w1 where e: "(if eid = [] then l_uuid env w else (eid, w)) = (e, w1)" by fastforce
  obtain b w2 where b: "enrichAlertIdentity env (a\<lparr>al_EventID := e\<rparr>) w1 = (b, w2)" by fastforce
  have "view w1 = view w" using h e unfolding harmless_live_def by (auto split: if_splits) (metis snd_conv)
  moreover have "view w2 = view w1" using enrich_view [OF h] b by (metis snd_conv)
  moreover have "view (snd (l_now env w2)) = view w2" using h unfolding harmless_live_def by blast
  ultimately show ?thesis by (simp add: complete_alert_def e b Let_def split: prod.split) (metis snd_conv)
qed

lemma publish_alert_view: "harmless_live env view \<Longrightarrow> view (snd (PublishAlert env a eid w)) = view w"
proof -
  assume h: "harmless_live env view"
  obtain b w1 where b: "complete_alert env a eid w = (b, w1)" by fastforce
  obtain r w2 where r: "PublishAlertEvent env (al_SessionID b) b w1 = (r, w2)" by fastforce
  obtain d w3 where d: "publish_durable env b w2 = (d, w3)" by fastforce
  have "view w1 = view w" using complete_view [OF h] b by (metis snd_conv)
  moreover have "view w2 = view w1"
    using r h unfolding PublishAlertEvent_def harmless_live_def by (auto split: option.splits prod.splits bool.splits) (metis snd_conv)+
  moreover have "view w3 = view w2"
    using d h unfolding publish_durable_def harmless_live_def by (auto split: option.splits prod.splits) (metis snd_conv)
  ultimately show ?thesis by (simp add: PublishAlert_def b r d)
qed

lemma raise_view: "harmless_peer env view \<Longrightarrow> view (snd (pv_now env w)) = view w" "harmless_peer env view \<Longrightarrow> view (raise_alert env p a d w) = view w"
proof -
  assume h: "harmless_peer env view"
  then show n: "view (snd (pv_now env w)) = view w" by (simp add: harmless_peer_def)
  then show "view (raise_alert env p a d w) = view w"
    using publish_alert_view [of "pv_live env" view] h by (simp add: raise_alert_def harmless_peer_def split: prod.splits) (metis snd_conv)
qed

lemma alerts_view: "harmless_peer env view \<Longrightarrow> view (fold (\<lambda>(a, d). raise_alert env p a d) as w) = view w"
  by (induction as arbitrary: w) (auto simp: raise_view split_beta)

lemma notify_view: "harmless_live env view \<Longrightarrow> view (NotifyLeft env sch sid par str ty w) = view w"
  unfolding NotifyLeft_def notifyParticipant_def PublishParticipantEvent_def harmless_live_def
  by (auto split: prod.splits) (metis snd_conv)


section \<open>Complete means every segment is stored\<close>

text \<open>A field of a registry hash.\<close>

definition entry :: "keyspace \<Rightarrow> string \<Rightarrow> string \<Rightarrow> sval option" where
  "entry ks key f = Option.bind (the_hash key ks) (\<lambda>h. map_of h f)"

lemma entry_cong: "ks' key = ks key \<Longrightarrow> entry ks' key f = entry ks key f"
  by (simp add: entry_def the_hash_def)

lemma hash_add_other:
  assumes "redis_conforms exec view" and "hash_add exec ttl key f doc w = (r, w1)" and "k \<noteq> key"
  shows "view w1 k = view w k"
proof -
  obtain r1 u1 r2 u2 where e: "exec (HSET key f (Doc doc)) w = (r1, u1)" "exec (EXPIRE key ttl) u1 = (r2, u2)"
    by (metis surj_pair)
  with assms(2) have "w1 = u2" by (auto simp: hash_add_def Let_def)
  then show ?thesis using exec_frame [OF assms(1) e(1), of k] exec_frame [OF assms(1) e(2), of k] assms(3) by simp
qed

lemma register_segments_spec:
  assumes "redis_conforms (pv_exec env) view" and "pv_segments env"
    and "register_segments env p ss inc w = ((keys, i), w')"
  shows "keys = map sm_S3Key ss" and "k \<noteq> segmentKey (pr_streamID p) \<Longrightarrow> view w' k = view w k"
    and "\<not> i \<Longrightarrow> \<not> inc" and "\<not> i \<Longrightarrow> distinct (map sm_Seq ss) \<Longrightarrow>
      (\<forall>s \<in> set ss. entry (view w') (segmentKey (pr_streamID p)) (Itoa (sm_Seq s)) = Some (Doc (enc_segment s)))
      \<and> (\<forall>f. f \<notin> (Itoa \<circ> sm_Seq) ` set ss \<longrightarrow> entry (view w') (segmentKey (pr_streamID p)) f = entry (view w) (segmentKey (pr_streamID p)) f)"
proof -
  let ?K = "segmentKey (pr_streamID p)"
  have "keys = map sm_S3Key ss \<and> (\<forall>k. k \<noteq> ?K \<longrightarrow> view w' k = view w k) \<and> (\<not> i \<longrightarrow> \<not> inc)
    \<and> (\<not> i \<longrightarrow> distinct (map sm_Seq ss) \<longrightarrow>
      (\<forall>s \<in> set ss. entry (view w') ?K (Itoa (sm_Seq s)) = Some (Doc (enc_segment s)))
      \<and> (\<forall>f. f \<notin> (Itoa \<circ> sm_Seq) ` set ss \<longrightarrow> entry (view w') ?K f = entry (view w) ?K f))"
    using assms(3)
  proof (induction ss arbitrary: inc w keys)
    case (Cons s ss)
    obtain r w1 where a: "SegmentAdd (pv_exec env) (pr_streamID p) s w = (r, w1)" by fastforce
    obtain ks j w2 where g: "register_segments env p ss (inc \<or> r \<noteq> Inr ()) w1 = ((ks, j), w2)" by (metis surj_pair)
    have e: "keys = sm_S3Key s # ks" "j = i" "w2 = w'" using Cons.prems a g assms(2) by auto
    note ih = Cons.IH [OF g [unfolded e(2,3)]]
    have f: "view w1 k = view w k" if "k \<noteq> ?K" for k
      using hash_add_other [OF assms(1) a [unfolded SegmentAdd_def] that] .
    have "(\<forall>t \<in> set (s # ss). entry (view w') ?K (Itoa (sm_Seq t)) = Some (Doc (enc_segment t)))
      \<and> (\<forall>f. f \<notin> (Itoa \<circ> sm_Seq) ` set (s # ss) \<longrightarrow> entry (view w') ?K f = entry (view w) ?K f)"
      if "\<not> i" "distinct (map sm_Seq (s # ss))"
    proof -
      have r: "r = Inr ()" using ih that(1) by blast
      obtain h where "the_hash ?K (view w) = Some h" "the_hash ?K (view w1) = Some (AList.update (Itoa (sm_Seq s)) (Doc (enc_segment s)) h)"
        using hash_add_spec [OF assms(1)] a r unfolding SegmentAdd_def by blast
      then have x: "entry (view w1) ?K f = (if f = Itoa (sm_Seq s) then Some (Doc (enc_segment s)) else entry (view w) ?K f)" for f
        by (simp add: entry_def update_conv')
      have n: "Itoa (sm_Seq s) \<notin> (Itoa \<circ> sm_Seq) ` set ss" using that(2) by (auto dest: Itoa_inject)
      have "\<forall>t \<in> set ss. entry (view w') ?K (Itoa (sm_Seq t)) = Some (Doc (enc_segment t))"
        "\<And>f. f \<notin> (Itoa \<circ> sm_Seq) ` set ss \<Longrightarrow> entry (view w') ?K f = entry (view w1) ?K f"
        using ih that by auto
      then show ?thesis using x n by simp
    qed
    then show ?case using ih e f by auto
  qed simp
  then show "keys = map sm_S3Key ss" and "k \<noteq> ?K \<Longrightarrow> view w' k = view w k" and "\<not> i \<Longrightarrow> \<not> inc"
    and "\<not> i \<Longrightarrow> distinct (map sm_Seq ss) \<Longrightarrow>
      (\<forall>s \<in> set ss. entry (view w') ?K (Itoa (sm_Seq s)) = Some (Doc (enc_segment s)))
      \<and> (\<forall>f. f \<notin> (Itoa \<circ> sm_Seq) ` set ss \<longrightarrow> entry (view w') ?K f = entry (view w) ?K f)"
    by auto
qed

lemma stream_keys_apart [simp]:
  "completeKey s \<noteq> segmentKey s" "sessionKey a b c d \<noteq> completeKey s" "sessionKey a b c d \<noteq> segmentKey s"
  by (simp_all add: completeKey_def segmentKey_def sessionKey_def)

lemma unregister_view:
  assumes "redis_conforms exec view" and "k \<noteq> sessionKey a b c d"
  shows "view (snd (Unregister exec a b c d w)) k = view w k"
proof -
  obtain r w1 where e: "exec (DEL (sessionKey a b c d)) w = (r, w1)" by fastforce
  then have "snd (Unregister exec a b c d w) = w1" by (auto simp: Unregister_def split: reply.splits)
  then show ?thesis using exec_frame [OF assms(1) e] assms(2) by simp
qed

lemma mark_complete_view:
  assumes "redis_conforms exec view" and "k \<noteq> completeKey s"
  shows "view (snd (MarkComplete exec s w)) k = view w k"
proof -
  obtain r w1 where e: "exec (SET (completeKey s) (Txt ''1'') (TTL segmentTTL)) w = (r, w1)" by fastforce
  then have "snd (MarkComplete exec s w) = w1" by (auto simp: MarkComplete_def split: reply.splits)
  then show ?thesis using exec_frame [OF assms(1) e] assms(2) by simp
qed

text \<open>The close step by step: registered segments, the mark, and nothing else on the keys of the stream.\<close>

lemma close_body_effect:
  assumes "redis_conforms (pv_exec env) view" and "redis_conforms (st_exec (pv_stream env)) view" and "harmless_peer env view"
    and "pv_segments env" and "close_body env p ing failed w = w'"
  obtains w2 keys inc w3 where "view w2 = view w"
    and "register_segments env p (ro_segments (collect_recording ing)) (ro_incomplete (collect_recording ing)) w2 = ((keys, inc), w3)"
    and "view w' (segmentKey (pr_streamID p)) = view w3 (segmentKey (pr_streamID p))"
    and "\<not> marks_complete (collect_recording ing) inc (failed 1) \<Longrightarrow> view w' (completeKey (pr_streamID p)) = view w3 (completeKey (pr_streamID p))"
proof -
  define ro where "ro = collect_recording ing"
  obtain t w1 where n: "pv_now env w = (t, w1)" by fastforce
  define w2 where "w2 = NotifyLeft (pv_live env) (pr_scheduleID p) (pr_sessionID p) (pr_participantID p) (pr_streamID p) (pr_streamType p) w1"
  obtain keys inc w3 where r: "register_segments env p (ro_segments ro) (ro_incomplete ro) w2 = ((keys, inc), w3)" by (metis surj_pair)
  define w4 where "w4 = (if marks_complete ro inc (failed 1) then snd (MarkComplete (pv_exec env) (pr_streamID p) w3) else w3)"
  define w5 where "w5 = fold (\<lambda>(a, d). raise_alert env p a d) (close_alerts ro inc failed) w4"
  have w': "w' = snd (NotifyStreamEnded (pv_stream env) (pr_scheduleID p) (pr_sessionID p) (pr_participantID p) (pr_streamID p)
      (pr_streamType p) keys (trunc_secs (time_sub t (pr_startedAt p))) w5)"
    using assms(4,5) n r unfolding close_body_def w5_def w4_def w2_def ro_def by (simp add: Let_def)
  have "view w1 = view w" using raise_view(1) [OF assms(3), of w] n by simp
  then have v2: "view w2 = view w" using notify_view [of "pv_live env" view] assms(3) by (simp add: w2_def harmless_peer_def)
  have v5: "view w5 = view w4" unfolding w5_def by (rule alerts_view [OF assms(3)])
  have v': "view w' k = view w4 k" if "k \<noteq> sessionKey (pr_scheduleID p) (pr_sessionID p) (pr_participantID p) (pr_streamType p)" for k
    using that ended_view [of "pv_stream env" view] unregister_view [OF assms(2)] assms(3) v5 by (simp add: w' harmless_peer_def)
  show thesis
  proof (rule that [OF v2 r [unfolded ro_def]])
    show "view w' (segmentKey (pr_streamID p)) = view w3 (segmentKey (pr_streamID p))"
      using v' [of "segmentKey (pr_streamID p)"] mark_complete_view [OF assms(1), of "segmentKey (pr_streamID p)"]
      by (simp add: w4_def stream_keys_apart(1) [symmetric] stream_keys_apart(3) [symmetric])
    assume "\<not> marks_complete (collect_recording ing) inc (failed 1)"
    then show "view w' (completeKey (pr_streamID p)) = view w3 (completeKey (pr_streamID p))"
      using v' [of "completeKey (pr_streamID p)"] by (simp add: w4_def ro_def stream_keys_apart(2) [symmetric])
  qed
qed




text \<open>The reference peer on the in-memory server.\<close>

definition mem_stream :: "keyspace streamEnv" where
  "mem_stream = \<lparr>st_exec = mem_exec, st_instanceID = ''i1'', st_now = (\<lambda>w. (7, w)), st_uuid = (\<lambda>w. (''u1'', w)),
     st_publishStarted = (\<lambda>_ w. (True, w)), st_publishFrame = (\<lambda>_ w. (True, w)), st_publishEnded = (\<lambda>_ w. (True, w))\<rparr>"

definition mem_live :: "keyspace liveEnv" where
  "mem_live = \<lparr>l_scan = (\<lambda>_ w. (None, w)), l_mget = (\<lambda>_ w. (None, w)), l_publish = (\<lambda>_ _ w. (True, w)), l_numsub = (\<lambda>_ w. (None, w)),
     l_now = (\<lambda>w. (7, w)), l_uuid = (\<lambda>w. (''u1'', w)), l_alertPublisher = None\<rparr>"

definition mem_peer :: "keyspace peerEnv" where
  "mem_peer = \<lparr>pv_stream = mem_stream, pv_live = mem_live, pv_exec = mem_exec, pv_send = (\<lambda>_ w. (S3Ok, w)), pv_cfg = DefaultConfig ''s3'',
     pv_presign = (\<lambda>b k _. Some (b @ k)), pv_storage = True, pv_segments = True, pv_hlsFragments = True, pv_now = (\<lambda>w. (9, w)),
     pv_sleep = (\<lambda>_ w. w), pv_stat = (\<lambda>_ w. (Some 5, w)), pv_open = (\<lambda>_ w. (Some [], w)), pv_remove = (\<lambda>_ w. w)\<rparr>"

lemma mem_peer_sel [simp]:
  "pv_stream mem_peer = mem_stream" "pv_live mem_peer = mem_live" "pv_exec mem_peer = mem_exec" "pv_storage mem_peer"
  "pv_segments mem_peer" "pv_now mem_peer w = (9, w)" "st_exec mem_stream = mem_exec"
  by (simp_all add: mem_peer_def mem_stream_def)

lemma mem_harmless: "harmless_peer mem_peer id"
  by (simp add: harmless_peer_def harmless_live_def harmless_stream_def mem_live_def mem_stream_def)

definition mem_segment :: SegmentMeta where
  "mem_segment = \<lparr>sm_Seq = 0, sm_S3Key = ffmpegSegmentKey ''e1'' ''ss'' ''s1'' 0, sm_SHA256 = [], sm_StartedAt = 9, sm_EndedAt = 9,
     sm_SizeBytes = 5, sm_UploadedAt = 9\<rparr>"

definition mem_view :: ingestView where
  "mem_view = \<lparr>iv_hadVideo = True, iv_supervisor = True, iv_drained = True, iv_forceKilled = False, iv_gaveUp = False,
     iv_log = \<lparr>segs = [mem_segment], incomplete = False\<rparr>\<rparr>"

lemma mem_uploader:
  "runFFmpegSegmentUploader mem_peer demo_peer [''a''] \<lparr>segs = [], incomplete = False\<rparr> w = (\<lparr>segs = [mem_segment], incomplete = False\<rparr>, w)"
proof -
  have u: "uploadFFmpegSegmentWithRetry mem_peer demo_peer ''a'' 0 w = (Inr (ffmpegSegmentKey ''e1'' ''ss'' ''s1'' 0, 5), w)"
    by (simp add: uploadFFmpegSegmentWithRetry_def ffmpegSegmentUploadMaxAttempts_def numeral_3_eq_3 uploadFFmpegSegmentOnce_def
        UploadFFmpegSegment_def put_as_def mem_peer_def demo_peer_def)
  have "pv_remove mem_peer f w = w" for f by (simp add: mem_peer_def)
  then show ?thesis by (simp add: runFFmpegSegmentUploader_def u mem_segment_def)
qed

lemma mem_close:
  "close_body mem_peer demo_peer (Some mem_view) (\<lambda>_. False) (\<lambda>_. None) (completeKey ''s1'') \<noteq> None"
proof -
  have ro: "collect_recording (Some mem_view) = \<lparr>ro_hadVideo = True, ro_segments = [mem_segment], ro_gaveUp = False, ro_truncated = False,
      ro_incomplete = False\<rparr>" by (simp add: collect_recording_def mem_view_def)
  have d: "pr_streamID demo_peer = ''s1''" by (simp add: demo_peer_def)
  define w2 where "w2 = NotifyLeft mem_live (pr_scheduleID demo_peer) (pr_sessionID demo_peer) (pr_participantID demo_peer) ''s1''
    (pr_streamType demo_peer) (\<lambda>_. None)"
  have w2: "w2 = (\<lambda>_. None)"
    by (simp add: w2_def NotifyLeft_def notifyParticipant_def PublishParticipantEvent_def mem_live_def)
  have "\<exists>w3. SegmentAdd mem_exec ''s1'' mem_segment (\<lambda>_. None) = (Inr (), w3)"
    by (simp add: SegmentAdd_def hash_add_def mem_exec_def the_hash_def put_hash_def Let_def)
  then obtain w3 where a: "SegmentAdd mem_exec ''s1'' mem_segment (\<lambda>_. None) = (Inr (), w3)" ..
  have m: "snd (MarkComplete mem_exec ''s1'' w3) (completeKey ''s1'') \<noteq> None"
    by (simp add: MarkComplete_def mem_exec_def life_def)
  have v: "snd (NotifyStreamEnded mem_stream s a b c e ks n w) k = w k" if "k \<noteq> sessionKey s a b e" for s a b c e ks n w k
    using ended_view [of mem_stream id s a b c e ks n w] unregister_view [OF mem_conforms that, of w] mem_harmless
    by (simp add: harmless_peer_def)
  show ?thesis
    using m by (simp add: close_body_def ro d w2_def [symmetric] w2 a marks_complete_def close_alerts_def empty_recording_def Let_def v
        stream_keys_apart(2) [symmetric])
qed


end
