(* ===== verification/PeerStart.thy ===== *)
theory PeerStart
  imports Threads
begin

text \<open>
  Starting the ffmpeg recorder against closing the peer: \<open>noteFFmpegIngestTrack\<close>, \<open>abortFFmpegIngestStart\<close> and the part of
  \<open>close\<close> that stops the recorder, of \<open>internal/transport/webrtc/peer.go\<close>, as goroutines.  Each section under \<open>st.mu\<close>, each
  channel operation and each call of the recorder package is one action.  Whether a session or a recorder starts and whether a
  record slot is free is the environment's choice, so an action may have two outcomes.
\<close>

section \<open>Shared state\<close>

text \<open>
  \<open>is_done\<close>: the channel \<open>p.done\<close> is closed.  The three counters are the bridge sessions open, the recorder supervisors not yet stopped and
  the slots of \<open>RecordSem\<close> this peer holds; \<open>is_read\<close>: \<open>close\<close> has read the ingest state.
\<close>

record ingestState =
  is_video :: bool
  is_audio :: bool
  is_session :: bool
  is_starting :: bool
  is_slotHeld :: bool
  is_done :: bool
  is_read :: bool
  openSessions :: nat
  runningRecorders :: nat
  takenSlots :: nat

definition ingest_start :: ingestState where
  "ingest_start = \<lparr>is_video = False, is_audio = False, is_session = False, is_starting = False, is_slotHeld = False, is_done = False,
     is_read = False, openSessions = 0, runningRecorders = 0, takenSlots = 0\<rparr>"

section \<open>Goroutines\<close>

text \<open>
  \<open>OnTrack video\<close> is the callback; the start goes on through \<open>FastPath\<close>, \<open>StartSession\<close>, \<open>TakeSlot\<close>, \<open>StartSupervisor\<close> and
  \<open>Commit\<close>.  \<open>Abort\<close> gives the claim back, \<open>FreeSlot\<close>, \<open>CloseSession\<close> and the \<open>Roll\<close> actions undo.  \<open>Closing\<close> is the body of
  \<open>close\<close> with what it read: is there a session, a slot.
\<close>

datatype routine = OnTrack bool | FastPath | StartSession | TakeSlot | StartSupervisor | Commit
  | FreeSlot | CloseSession | Abort
  | RollStop | RollSession | RollSlot
  | CloseDone | CloseRead | CloseStop bool bool | CloseSlot bool bool | CloseEnd bool

definition track_ready :: "ingestState \<Rightarrow> bool" where
  "track_ready s \<longleftrightarrow> is_video s \<and> is_audio s \<and> \<not> is_session s \<and> \<not> is_starting s"

definition note_track :: "bool \<Rightarrow> ingestState \<Rightarrow> ingestState" where
  "note_track video s = (if video then s\<lparr>is_video := True\<rparr> else s\<lparr>is_audio := True\<rparr>)"

fun ingest_act :: "(ingestState, routine) action" where
  "ingest_act s (OnTrack video) =
     (let s1 = note_track video s in if track_ready s1 then [(s1\<lparr>is_starting := True\<rparr>, [FastPath])] else [(s1, [])])"
| "ingest_act s FastPath = (if is_done s then [(s, [Abort])] else [(s, [StartSession])])"
| "ingest_act s StartSession = [(s\<lparr>openSessions := openSessions s + 1\<rparr>, [TakeSlot]), (s, [Abort])]"
| "ingest_act s TakeSlot = [(s\<lparr>takenSlots := takenSlots s + 1\<rparr>, [StartSupervisor]), (s, [CloseSession])]"
| "ingest_act s StartSupervisor = [(s\<lparr>runningRecorders := runningRecorders s + 1\<rparr>, [Commit]), (s, [FreeSlot])]"
| "ingest_act s FreeSlot = [(s\<lparr>takenSlots := takenSlots s - 1\<rparr>, [CloseSession])]"
| "ingest_act s CloseSession = [(s\<lparr>openSessions := openSessions s - 1\<rparr>, [Abort])]"
| "ingest_act s Abort = [(s\<lparr>is_starting := False\<rparr>, [])]"
| "ingest_act s Commit =
     (if is_done s then [(s\<lparr>is_starting := False\<rparr>, [RollStop])]
      else [(s\<lparr>is_session := True, is_slotHeld := True\<rparr>, [])])"
| "ingest_act s RollStop = [(s\<lparr>runningRecorders := runningRecorders s - 1\<rparr>, [RollSession])]"
| "ingest_act s RollSession = [(s\<lparr>openSessions := openSessions s - 1\<rparr>, [RollSlot])]"
| "ingest_act s RollSlot = [(s\<lparr>takenSlots := takenSlots s - 1\<rparr>, [])]"
| "ingest_act s CloseDone = (if is_done s then [(s, [])] else [(s\<lparr>is_done := True\<rparr>, [CloseRead])])"
| "ingest_act s CloseRead = [(s\<lparr>is_read := True\<rparr>, [CloseStop (is_session s) (is_slotHeld s)])]"
| "ingest_act s (CloseStop session slot) =
     [(if session then s\<lparr>runningRecorders := runningRecorders s - 1\<rparr> else s, [CloseSlot session slot])]"
| "ingest_act s (CloseSlot session slot) =
     [(if slot then s\<lparr>takenSlots := takenSlots s - 1\<rparr> else s, [CloseEnd session])]"
| "ingest_act s (CloseEnd session) = [(if session then s\<lparr>openSessions := openSessions s - 1\<rparr> else s, [])]"

text \<open>The library delivers tracks, and anybody may close the peer.\<close>

definition ingest_arrives :: "routine \<Rightarrow> bool" where
  "ingest_arrives t \<longleftrightarrow> t \<in> {OnTrack True, OnTrack False, CloseDone}"

section \<open>Nothing outlives its peer\<close>

text \<open>What a goroutine is answerable for.\<close>

fun holds_session :: "routine \<Rightarrow> nat" where
  "holds_session TakeSlot = 1"
| "holds_session StartSupervisor = 1"
| "holds_session Commit = 1"
| "holds_session FreeSlot = 1"
| "holds_session CloseSession = 1"
| "holds_session RollStop = 1"
| "holds_session RollSession = 1"
| "holds_session (CloseStop b c) = of_bool b"
| "holds_session (CloseSlot b c) = of_bool b"
| "holds_session (CloseEnd b) = of_bool b"
| "holds_session _ = 0"

fun holds_recorder :: "routine \<Rightarrow> nat" where
  "holds_recorder Commit = 1"
| "holds_recorder RollStop = 1"
| "holds_recorder (CloseStop b c) = of_bool b"
| "holds_recorder _ = 0"

fun holds_slot :: "routine \<Rightarrow> nat" where
  "holds_slot StartSupervisor = 1"
| "holds_slot Commit = 1"
| "holds_slot FreeSlot = 1"
| "holds_slot RollStop = 1"
| "holds_slot RollSession = 1"
| "holds_slot RollSlot = 1"
| "holds_slot (CloseStop b c) = of_bool c"
| "holds_slot (CloseSlot b c) = of_bool c"
| "holds_slot _ = 0"

fun claims_start :: "routine \<Rightarrow> nat" where
  "claims_start FastPath = 1"
| "claims_start StartSession = 1"
| "claims_start TakeSlot = 1"
| "claims_start StartSupervisor = 1"
| "claims_start Commit = 1"
| "claims_start FreeSlot = 1"
| "claims_start CloseSession = 1"
| "claims_start Abort = 1"
| "claims_start _ = 0"

fun will_read :: "routine \<Rightarrow> nat" where
  "will_read CloseRead = 1"
| "will_read _ = 0"

fun same_slot :: "routine \<Rightarrow> bool" where
  "same_slot (CloseStop b c) = (b = c)"
| "same_slot _ = True"

text \<open>A committed recording that no goroutine has taken over yet.\<close>

definition committed :: "ingestState \<Rightarrow> nat" where
  "committed s = of_bool (is_session s \<and> \<not> is_read s)"

definition ingest_ok :: "ingestState \<Rightarrow> routine multiset \<Rightarrow> bool" where
  "ingest_ok s ts \<longleftrightarrow>
     openSessions s = tally holds_session ts + committed s
     \<and> runningRecorders s = tally holds_recorder ts + committed s
     \<and> takenSlots s = tally holds_slot ts + committed s
     \<and> tally claims_start ts = of_bool (is_starting s \<and> \<not> is_session s)
     \<and> tally will_read ts = of_bool (is_done s \<and> \<not> is_read s)
     \<and> (is_session s = is_slotHeld s) \<and> (is_session s \<longrightarrow> is_starting s) \<and> (is_read s \<longrightarrow> is_done s)
     \<and> (\<forall>t \<in># ts. same_slot t)"

lemma ingest_init: "ingest_ok ingest_start {#}"
  by (simp add: ingest_ok_def ingest_start_def committed_def)

lemma ingest_step:
  assumes "ingest_ok s (add_mset t ts)" and "(s', new) \<in> set (ingest_act s t)"
  shows "ingest_ok s' (mset new + ts)"
  using assms
proof (cases t)
  case (OnTrack video)
  then show ?thesis using assms
    by (cases video; cases "is_session s"; cases "is_starting s")
      (auto simp: ingest_ok_def committed_def note_track_def track_ready_def Let_def split: if_splits)
next
  case Commit
  then show ?thesis using assms
    by (cases "is_done s"; cases "is_session s"; cases "is_read s") (auto simp: ingest_ok_def committed_def)
next
  case CloseRead
  then show ?thesis using assms by (cases "is_session s"; cases "is_read s"; cases "is_done s") (auto simp: ingest_ok_def committed_def)
next
  case FastPath
  then show ?thesis using assms by (cases "is_done s") (auto simp: ingest_ok_def committed_def)
next
  case StartSession
  then consider "s' = s\<lparr>openSessions := openSessions s + 1\<rparr>" "new = [TakeSlot]" | "s' = s" "new = [Abort]" using assms(2) by auto
  then show ?thesis using assms(1) StartSession by cases (auto simp: ingest_ok_def committed_def)
next
  case TakeSlot
  then consider "s' = s\<lparr>takenSlots := takenSlots s + 1\<rparr>" "new = [StartSupervisor]" | "s' = s" "new = [CloseSession]" using assms(2) by auto
  then show ?thesis using assms(1) TakeSlot by cases (auto simp: ingest_ok_def committed_def)
next
  case StartSupervisor
  then consider "s' = s\<lparr>runningRecorders := runningRecorders s + 1\<rparr>" "new = [Commit]" | "s' = s" "new = [FreeSlot]" using assms(2) by auto
  then show ?thesis using assms(1) StartSupervisor by cases (auto simp: ingest_ok_def committed_def)
next
  case FreeSlot
  then show ?thesis using assms by (auto simp: ingest_ok_def committed_def)
next
  case CloseSession
  then show ?thesis using assms by (auto simp: ingest_ok_def committed_def)
next
  case Abort
  then show ?thesis using assms by (auto simp: ingest_ok_def committed_def)
next
  case RollStop
  then show ?thesis using assms by (auto simp: ingest_ok_def committed_def)
next
  case RollSession
  then show ?thesis using assms by (auto simp: ingest_ok_def committed_def)
next
  case RollSlot
  then show ?thesis using assms by (auto simp: ingest_ok_def committed_def)
next
  case CloseDone
  then show ?thesis using assms by (cases "is_done s") (auto simp: ingest_ok_def committed_def)
next
  case (CloseStop b c)
  then show ?thesis using assms by (cases b; cases c) (auto simp: ingest_ok_def committed_def)
next
  case (CloseSlot b c)
  then show ?thesis using assms by (cases b; cases c) (auto simp: ingest_ok_def committed_def)
next
  case (CloseEnd b)
  then show ?thesis using assms by (cases b) (auto simp: ingest_ok_def committed_def)
qed

lemma ingest_arrival: "ingest_ok s ts \<Longrightarrow> ingest_arrives t \<Longrightarrow> ingest_ok s (add_mset t ts)"
  by (auto simp: ingest_ok_def ingest_arrives_def)

interpretation start_close: interleaving ingest_act ingest_arrives ingest_ok
  by unfold_locales (auto intro: ingest_step ingest_arrival)



text \<open>A close that lands between the start of the recorder and its commit: the start rolls back.\<close>

definition late_close :: "routine move list" where
  "late_close = [Arrive (OnTrack True), Act 0 0, Arrive (OnTrack False), Act 0 0, Act 0 0, Act 0 0, Act 0 0, Act 0 0,
     Arrive CloseDone, Act 1 0, Act 0 0, Act 1 0, Act 0 0, Act 0 0, Act 0 0, Act 0 0, Act 0 0, Act 0 0]"

lemma late_close_run:
  "play ingest_act ingest_arrives (ingest_start, []) late_close =
     Some (ingest_start\<lparr>is_video := True, is_audio := True, is_done := True, is_read := True\<rparr>, [])"
  by (simp add: late_close_def ingest_start_def ingest_arrives_def note_track_def track_ready_def)


end
