(* ===== verification/PeerSlots.thy ===== *)
theory PeerSlots
  imports Prelude
begin

text \<open>
  \<open>internal/transport/webrtc/session.go\<close>, the map of the peers of this instance, and the signaling binding of a peer
  (\<open>BindSignaling\<close>, \<open>ReleaseSignaling\<close>, the grace timer of \<open>internal/transport/webrtc/peer.go\<close>): two slots whose holder may
  be replaced, and in which a replaced holder's late clean-up must not evict its successor.  A peer is any
  value compared by identity, a connection a number; the mutexes make each operation one step.
\<close>

section \<open>The contract of a slot\<close>

text \<open>\<open>acquire x\<close> returns the key \<open>x\<close> holds the slot by; \<open>release k\<close> gives the slot up if \<open>k\<close> still holds it.\<close>

datatype ('x, 'k) slotOp = Acquire 'x | Release 'k

locale owned_slot =
  fixes acquire :: "'x \<Rightarrow> 's \<Rightarrow> 'k \<times> 's" and release :: "'k \<Rightarrow> 's \<Rightarrow> 's" and owner :: "'s \<Rightarrow> 'k option"
  assumes acquire_owner: "acquire x s = (k, s') \<Longrightarrow> owner s' = Some k"
    and release_own: "owner s = Some k \<Longrightarrow> owner (release k s) = None"
    and release_other: "owner s \<noteq> Some k \<Longrightarrow> owner (release k s) = owner s"
begin

lemma stale_releases: "k \<notin> set ks \<Longrightarrow> owner s = Some k \<Longrightarrow> owner (fold release ks s) = Some k"
  by (induction ks arbitrary: s) (auto simp: release_other)

lemma acquire_survives:
  "acquire x s = (k, s') \<Longrightarrow> k \<notin> set ks \<Longrightarrow> owner (fold release ks s') = Some k"
  using acquire_owner stale_releases by metis

lemma released_stays_free: "owner s = None \<Longrightarrow> owner (fold release ks s) = None"
  by (induction ks arbitrary: s) (auto simp: release_other)

end

section \<open>SessionManager\<close>

type_synonym sessionKey3 = "string \<times> string \<times> string"
type_synonym 'p SessionManager = "(sessionKey3 \<times> 'p) list"

definition NewSessionManager :: "'p SessionManager" where "NewSessionManager = []"

text \<open>\<open>Add\<close> and \<open>Replace\<close> return the peer that was there; \<open>Add\<close> itself closes it, in the background.\<close>

definition SessionAdd :: "string \<Rightarrow> string \<Rightarrow> string \<Rightarrow> 'p \<Rightarrow> 'p SessionManager \<Rightarrow> 'p option \<times> 'p SessionManager" where
  "SessionAdd scheduleID participantID streamType p m =
     (map_of m (scheduleID, participantID, streamType), AList.update (scheduleID, participantID, streamType) p m)"

definition SessionGet :: "string \<Rightarrow> string \<Rightarrow> string \<Rightarrow> 'p SessionManager \<Rightarrow> 'p option" where
  "SessionGet scheduleID participantID streamType m = map_of m (scheduleID, participantID, streamType)"

definition SessionReplace :: "string \<Rightarrow> string \<Rightarrow> string \<Rightarrow> 'p \<Rightarrow> 'p SessionManager \<Rightarrow> 'p option \<times> 'p SessionManager" where
  "SessionReplace scheduleID participantID streamType p m =
     (let key = (scheduleID, participantID, streamType); old = map_of m key in (old, AList.update key p m))"

definition RemoveIfSame :: "string \<Rightarrow> string \<Rightarrow> string \<Rightarrow> 'p \<Rightarrow> 'p SessionManager \<Rightarrow> 'p SessionManager" where
  "RemoveIfSame scheduleID participantID streamType p m =
     (let key = (scheduleID, participantID, streamType) in
      case map_of m key of Some current \<Rightarrow> if current = p then AList.delete key m else m | None \<Rightarrow> m)"

definition SessionRemove :: "string \<Rightarrow> string \<Rightarrow> string \<Rightarrow> 'p SessionManager \<Rightarrow> 'p SessionManager" where
  "SessionRemove scheduleID participantID streamType m = AList.delete (scheduleID, participantID, streamType) m"

definition SchedulePeers :: "string \<Rightarrow> 'p SessionManager \<Rightarrow> 'p list" where
  "SchedulePeers scheduleID m = map snd (filter (\<lambda>(k, p). fst k = scheduleID) m)"

definition SessionCount :: "'p SessionManager \<Rightarrow> nat" where
  "SessionCount m = length m"

section \<open>The signaling binding\<close>

text \<open>\<open>sg_timer\<close>: the generation whose release armed the grace timer, while it is running.\<close>

record signaling =
  sg_conn :: "nat option"
  sg_gen :: nat
  sg_timer :: "nat option"

definition signalingGrace :: duration where "signalingGrace = 90 * second"

definition sg_start :: signaling where "sg_start = \<lparr>sg_conn = None, sg_gen = 0, sg_timer = None\<rparr>"

text \<open>The sections under \<open>signalMu\<close>, after the look at \<open>p.done\<close> that precedes each.\<close>

definition bind_locked :: "nat \<Rightarrow> signaling \<Rightarrow> nat \<times> signaling" where
  "bind_locked conn s = (sg_gen s + 1, \<lparr>sg_conn = Some conn, sg_gen = sg_gen s + 1, sg_timer = None\<rparr>)"

definition release_locked :: "nat \<Rightarrow> signaling \<Rightarrow> bool \<times> signaling" where
  "release_locked gen s = (if sg_gen s \<noteq> gen then (False, s) else (True, s\<lparr>sg_conn := None, sg_timer := Some gen\<rparr>))"

definition drop_signaling :: "signaling \<Rightarrow> signaling" where
  "drop_signaling s = s\<lparr>sg_conn := None, sg_timer := None\<rparr>"

definition sg_holder :: "signaling \<Rightarrow> nat option" where
  "sg_holder s = (if sg_conn s = None then None else Some (sg_gen s))"

section \<open>A replaced holder never evicts its successor\<close>

interpretation sessions: owned_slot "\<lambda>p m. (p, snd (SessionReplace a b c p m))" "RemoveIfSame a b c" "SessionGet a b c" for a b c
  by unfold_locales
    (auto simp: SessionReplace_def RemoveIfSame_def SessionGet_def Let_def update_conv' delete_conv' split: option.splits if_splits)

interpretation signals: owned_slot bind_locked "\<lambda>k s. snd (release_locked k s)" sg_holder
  by unfold_locales (auto simp: bind_locked_def release_locked_def sg_holder_def split: if_splits)

lemma session_distinct:
  assumes "distinct (map fst m)"
  shows "distinct (map fst (snd (SessionReplace a b c p m)))" and "distinct (map fst (RemoveIfSame a b c p m))"
  using assms by (auto simp: SessionReplace_def RemoveIfSame_def Let_def distinct_update split: option.splits)

lemma late_cleanup:
  "p \<notin> set old \<Longrightarrow> SessionGet a b c (fold (RemoveIfSame a b c) old (snd (SessionReplace a b c p m))) = Some p"
  "bind_locked conn s = (g, s') \<Longrightarrow> g \<notin> set gens \<Longrightarrow> fold (\<lambda>k t. snd (release_locked k t)) gens s' = s'"
proof -
  show "p \<notin> set old \<Longrightarrow> SessionGet a b c (fold (RemoveIfSame a b c) old (snd (SessionReplace a b c p m))) = Some p"
    by (rule sessions.acquire_survives [OF refl])
next
  assume b: "bind_locked conn s = (g, s')" and n: "g \<notin> set gens"
  have "sg_gen s' = g" using b by (auto simp: bind_locked_def)
  then show "fold (\<lambda>k t. snd (release_locked k t)) gens s' = s'"
    using n by (induction gens) (auto simp: release_locked_def)
qed

text \<open>Late clean-ups are harmless.  Once a new peer has replaced the old one, however many times the clean-ups of other peers run
  afterwards the new peer stays the registered one; and once a new connection is bound to a peer, the releases of all
  earlier connections change neither the binding nor arm the grace timer.\<close>

theorem late_cleanup_harmless:
  "(p \<notin> set old \<longrightarrow> SessionGet a b c (fold (RemoveIfSame a b c) old (snd (SessionReplace a b c p m))) = Some p)
    \<and> (bind_locked conn s = (g, s') \<and> g \<notin> set gens \<longrightarrow> fold (\<lambda>k t. snd (release_locked k t)) gens s' = s')"
  by (auto simp: late_cleanup(1) simp del: fold_simps intro: late_cleanup(2))

lemma late_cleanup_harmless_witness:
  "SessionGet ''e1'' ''p1'' ''camera'' (fold (RemoveIfSame ''e1'' ''p1'' ''camera'') [1, 2]
     (snd (SessionReplace ''e1'' ''p1'' ''camera'' (3 :: nat) [((''e1'', ''p1'', ''camera''), 2)]))) = Some 3"
  by (rule late_cleanup_harmless [THEN conjunct1, rule_format]) simp

text \<open>The monitor's list of a schedule's peers is what was registered under it and not removed since.\<close>

lemma schedule_peers:
  "distinct (map fst m) \<Longrightarrow> set (SchedulePeers sch m) = {p. \<exists>b c. SessionGet sch b c m = Some p}"
  by (force simp: SchedulePeers_def SessionGet_def)

end
