(* ===== verification/PeerLife.thy ===== *)
theory PeerLife
  imports Threads PeerSlots
begin

text \<open>
  The life of a peer as interleaved goroutines: the connection-state callback of \<open>setupCallbacks\<close>, the two grace timers, the
  heartbeat, \<open>BindSignaling\<close> and \<open>ReleaseSignaling\<close> of \<open>internal/transport/webrtc/peer.go\<close> and the serving loop of
  \<open>handler.go\<close> that binds a connection, serves it and releases it.  Atomic actions are the sections under a mutex, the
  atomics, the reads of \<open>p.done\<close> and the announcements; a callback, a tick of a timer and a new connection may arrive at
  any time.  The body of \<open>close\<close> between its announcements is \<open>PeerClose\<close> and \<open>PeerStart\<close>.
\<close>

section \<open>Shared state\<close>

text \<open>\<open>sync.Once\<close>: a second caller waits until the first has returned.\<close>

datatype once = Idle | Running | Finished

datatype notice = Started | Disconnected | Reconnected | Left | Ended bool

record life =
  lf_close :: once
  lf_start :: once
  lf_failure :: bool
  lf_announced :: bool
  lf_disconnectTimer :: bool
  lf_signal :: signaling
  lf_log :: "notice list"

definition lf_done :: "life \<Rightarrow> bool" where "lf_done s \<longleftrightarrow> lf_close s \<noteq> Idle"

definition life_start :: life where
  "life_start = \<lparr>lf_close = Idle, lf_start = Idle, lf_failure = False, lf_announced = False, lf_disconnectTimer = False,
     lf_signal = sg_start, lf_log = []\<rparr>"

section \<open>Goroutines\<close>

text \<open>
  \<open>CloseCall k\<close> is a call of \<open>close\<close>, after which a serving loop goes on to release generation \<open>k\<close>.  \<open>Serving\<close> is
  \<open>runSignaling\<close>, which ends by the socket or by the client's bye.
\<close>

datatype activity = Bind nat | BindLock nat | Serving nat nat | Unbind nat | UnbindLock nat
  | SignalTick | GraceCheck nat | GraceFire | DisconnectTick | DisconnectFire
  | OnConnected | StartDo | StartReturn | Reconnect | SayReconnected | Heartbeat
  | OnDisconnected | SayDisconnected | ScheduleClose | OnFailed | OnClosed
  | CloseCall "nat option" | CloseSignal "nat option" | CloseLeft "nat option" | CloseBody "nat option"

definition say :: "notice \<Rightarrow> life \<Rightarrow> life" where "say n s = s\<lparr>lf_log := lf_log s @ [n]\<rparr>"

definition after_close :: "nat option \<Rightarrow> activity list" where
  "after_close k = (case k of None \<Rightarrow> [] | Some g \<Rightarrow> [Unbind g])"

definition IsAlive :: "life \<Rightarrow> bool" where "IsAlive s \<longleftrightarrow> \<not> lf_done s"

text \<open>\<open>BindSignaling\<close> and \<open>ReleaseSignaling\<close>: the look at \<open>p.done\<close>, then the locked section.\<close>

fun signal_act :: "(life, activity) action" where
  "signal_act s (Bind conn) = (if lf_done s then [(s, [])] else [(s, [BindLock conn])])"
| "signal_act s (BindLock conn) = (case bind_locked conn (lf_signal s) of (g, sg) \<Rightarrow> [(s\<lparr>lf_signal := sg\<rparr>, [Serving conn g])])"
| "signal_act s (Serving conn g) = [(s, [Unbind g]), (s, [CloseCall (Some g)])]"
| "signal_act s (Unbind g) = (if lf_done s then [(s, [])] else [(s, [UnbindLock g])])"
| "signal_act s (UnbindLock g) = [(s\<lparr>lf_signal := snd (release_locked g (lf_signal s))\<rparr>, [])]"
| "signal_act s SignalTick = (case sg_timer (lf_signal s) of None \<Rightarrow> [(s, [])]
     | Some g \<Rightarrow> [(s\<lparr>lf_signal := (lf_signal s)\<lparr>sg_timer := None\<rparr>\<rparr>, [GraceCheck g])])"
| "signal_act s (GraceCheck g) = (if sg_gen (lf_signal s) \<noteq> g then [(s, [])] else [(s, [GraceFire])])"
| "signal_act s GraceFire = [(s\<lparr>lf_failure := True\<rparr>, [CloseCall None])]"
| "signal_act s _ = []"

text \<open>The connection-state callback and the heartbeat; \<open>OnConnected\<close> stops the disconnect timer.\<close>

fun state_act :: "(life, activity) action" where
  "state_act s OnConnected = [(s\<lparr>lf_disconnectTimer := False\<rparr>, [StartDo])]"
| "state_act s StartDo = (case lf_start s of
     Idle \<Rightarrow> [(say Started (s\<lparr>lf_start := Running\<rparr>), [StartReturn])] | Running \<Rightarrow> [] | Finished \<Rightarrow> [(s, [Reconnect])])"
| "state_act s StartReturn = [(s\<lparr>lf_start := Finished\<rparr>, [Heartbeat, Reconnect])]"
| "state_act s Reconnect = (if lf_announced s then [(s\<lparr>lf_announced := False\<rparr>, [SayReconnected])] else [(s, [])])"
| "state_act s SayReconnected = [(say Reconnected s, [])]"
| "state_act s Heartbeat = (if lf_done s then [(s, []), (s, [Heartbeat])] else [(s, [Heartbeat])])"
| "state_act s OnDisconnected =
     (if lf_announced s then [(s, [ScheduleClose])] else [(s\<lparr>lf_announced := True\<rparr>, [SayDisconnected])])"
| "state_act s SayDisconnected = [(say Disconnected s, [ScheduleClose])]"
| "state_act s OnFailed = [(s\<lparr>lf_failure := True\<rparr>, [CloseCall None])]"
| "state_act s OnClosed = [(s, [CloseCall None])]"
| "state_act s _ = []"

text \<open>\<open>scheduleClose\<close> and the timer it arms.\<close>

fun timer_act :: "(life, activity) action" where
  "timer_act s ScheduleClose = [(s\<lparr>lf_disconnectTimer := True\<rparr>, [])]"
| "timer_act s DisconnectTick =
     (if lf_disconnectTimer s then [(s\<lparr>lf_disconnectTimer := False\<rparr>, [DisconnectFire])] else [(s, [])])"
| "timer_act s DisconnectFire = [(s\<lparr>lf_failure := True\<rparr>, [CloseCall None])]"
| "timer_act s _ = []"

text \<open>\<open>close\<close>: the channel, the signaling binding, the announcement to the monitors, the rest.\<close>

fun close_act :: "(life, activity) action" where
  "close_act s (CloseCall k) = (case lf_close s of
     Idle \<Rightarrow> [(s\<lparr>lf_close := Running\<rparr>, [CloseSignal k])] | Running \<Rightarrow> [] | Finished \<Rightarrow> [(s, after_close k)])"
| "close_act s (CloseSignal k) = [(s\<lparr>lf_signal := drop_signaling (lf_signal s)\<rparr>, [CloseLeft k])]"
| "close_act s (CloseLeft k) = [(say Left s, [CloseBody k])]"
| "close_act s (CloseBody k) = [(say (Ended (lf_failure s)) (s\<lparr>lf_close := Finished\<rparr>), after_close k)]"
| "close_act s _ = []"

definition life_act :: "(life, activity) action" where
  "life_act s t = signal_act s t @ state_act s t @ timer_act s t @ close_act s t"

text \<open>What may arrive: connections, ticks, callbacks, and the close of a replaced peer.\<close>

definition life_arrives :: "activity \<Rightarrow> bool" where
  "life_arrives t \<longleftrightarrow> (\<exists>c. t = Bind c)
     \<or> t \<in> {SignalTick, DisconnectTick, OnConnected, OnDisconnected, OnFailed, OnClosed, CloseCall None}"

section \<open>Each announcement once\<close>

fun closing :: "activity \<Rightarrow> nat" where
  "closing (CloseSignal k) = 1" | "closing (CloseLeft k) = 1" | "closing (CloseBody k) = 1" | "closing _ = 0"

fun before_left :: "activity \<Rightarrow> nat" where
  "before_left (CloseSignal k) = 1" | "before_left (CloseLeft k) = 1" | "before_left _ = 0"

fun starting :: "activity \<Rightarrow> nat" where "starting StartReturn = 1" | "starting _ = 0"
fun beating :: "activity \<Rightarrow> nat" where "beating Heartbeat = 1" | "beating _ = 0"
fun to_disconnect :: "activity \<Rightarrow> nat" where "to_disconnect SayDisconnected = 1" | "to_disconnect _ = 0"
fun to_reconnect :: "activity \<Rightarrow> nat" where "to_reconnect SayReconnected = 1" | "to_reconnect _ = 0"

fun is_ended :: "notice \<Rightarrow> bool" where "is_ended (Ended b) = True" | "is_ended _ = False"

definition once_ok :: "life \<Rightarrow> activity multiset \<Rightarrow> bool" where
  "once_ok s ts \<longleftrightarrow>
     tally closing ts = of_bool (lf_close s = Running)
     \<and> count_list (lf_log s) Left + tally before_left ts = of_bool (lf_close s \<noteq> Idle)
     \<and> length (filter is_ended (lf_log s)) = of_bool (lf_close s = Finished)"

definition start_ok :: "life \<Rightarrow> activity multiset \<Rightarrow> bool" where
  "start_ok s ts \<longleftrightarrow>
     tally starting ts = of_bool (lf_start s = Running)
     \<and> count_list (lf_log s) Started = of_bool (lf_start s \<noteq> Idle)
     \<and> tally beating ts \<le> of_bool (lf_start s = Finished)"

definition pairs_ok :: "life \<Rightarrow> activity multiset \<Rightarrow> bool" where
  "pairs_ok s ts \<longleftrightarrow>
     count_list (lf_log s) Disconnected + tally to_disconnect ts
       = count_list (lf_log s) Reconnected + tally to_reconnect ts + of_bool (lf_announced s)"

definition timer_ok :: "life \<Rightarrow> activity multiset \<Rightarrow> bool" where
  "timer_ok s ts \<longleftrightarrow> (\<forall>g. sg_timer (lf_signal s) = Some g \<longrightarrow> g = sg_gen (lf_signal s) \<and> sg_conn (lf_signal s) = None)"

definition life_ok :: "life \<Rightarrow> activity multiset \<Rightarrow> bool" where
  "life_ok s ts \<longleftrightarrow> once_ok s ts \<and> start_ok s ts \<and> pairs_ok s ts \<and> timer_ok s ts"

lemma life_init: "life_ok life_start {#}"
  by (simp add: life_ok_def once_ok_def start_ok_def pairs_ok_def timer_ok_def life_start_def sg_start_def)

lemmas life_ok_defs = life_ok_def once_ok_def start_ok_def pairs_ok_def timer_ok_def

lemma after_close_simps [simp]: "after_close None = []" "after_close (Some g) = [Unbind g]"
  by (simp_all add: after_close_def)

lemma signal_step:
  assumes "life_ok s (add_mset t ts)" and "(s', new) \<in> set (signal_act s t)"
  shows "life_ok s' (mset new + ts)"
  using assms
proof (cases t)
  case (Bind conn)
  then show ?thesis using assms by (cases "lf_done s") (simp_all add: life_ok_defs)
next
  case (Serving conn g)
  then consider "s' = s" "new = [Unbind g]" | "s' = s" "new = [CloseCall (Some g)]" using assms(2) by auto
  then show ?thesis using assms(1) Serving by cases (simp_all add: life_ok_defs)
next
  case (Unbind g)
  then show ?thesis using assms by (cases "lf_done s") (simp_all add: life_ok_defs)
next
  case (UnbindLock g)
  then show ?thesis using assms by (cases "sg_gen (lf_signal s) = g") (simp_all add: life_ok_defs release_locked_def)
next
  case SignalTick
  then show ?thesis using assms by (cases "sg_timer (lf_signal s)") (simp_all add: life_ok_defs)
next
  case (GraceCheck g)
  then show ?thesis using assms by (cases "sg_gen (lf_signal s) = g") (simp_all add: life_ok_defs)
qed (simp_all add: life_ok_defs bind_locked_def)

lemma state_step:
  assumes "life_ok s (add_mset t ts)" and "(s', new) \<in> set (state_act s t)"
  shows "life_ok s' (mset new + ts)"
  using assms
proof (cases t)
  case StartDo
  then show ?thesis using assms by (cases "lf_start s") (simp_all add: life_ok_defs say_def)
next
  case StartReturn
  then have "lf_start s = Running" using assms(1) by (simp add: life_ok_defs)
  then show ?thesis using assms StartReturn by (simp add: life_ok_defs)
next
  case Reconnect
  then show ?thesis using assms by (cases "lf_announced s") (simp_all add: life_ok_defs)
next
  case Heartbeat
  then have "s' = s" and "new = [] \<or> new = [Heartbeat]" using assms(2) by (auto split: if_splits)
  then show ?thesis using assms(1) Heartbeat
    by (elim disjE) (simp_all add: life_ok_defs del: sum_mset_0_iff)
next
  case OnDisconnected
  then show ?thesis using assms by (cases "lf_announced s") (simp_all add: life_ok_defs)
qed (simp_all add: life_ok_defs say_def)

lemma timer_step:
  assumes "life_ok s (add_mset t ts)" and "(s', new) \<in> set (timer_act s t)"
  shows "life_ok s' (mset new + ts)"
  using assms
proof (cases t)
  case DisconnectTick
  then show ?thesis using assms by (cases "lf_disconnectTimer s") (simp_all add: life_ok_defs)
qed (simp_all add: life_ok_defs)

lemma close_step:
  assumes "life_ok s (add_mset t ts)" and "(s', new) \<in> set (close_act s t)"
  shows "life_ok s' (mset new + ts)"
  using assms
proof (cases t)
  case (CloseCall k)
  then show ?thesis using assms by (cases "lf_close s"; cases k) (simp_all add: life_ok_defs)
next
  case (CloseBody k)
  then show ?thesis using assms by (cases k) (simp_all add: life_ok_defs say_def)
qed (simp_all add: life_ok_defs say_def drop_signaling_def)

lemma life_step: "life_ok s (add_mset t ts) \<Longrightarrow> (s', new) \<in> set (life_act s t) \<Longrightarrow> life_ok s' (mset new + ts)"
  unfolding life_act_def by (auto intro: signal_step state_step timer_step close_step)

lemma life_arrival: "life_ok s ts \<Longrightarrow> life_arrives t \<Longrightarrow> life_ok s (add_mset t ts)"
  by (auto simp: life_ok_defs life_arrives_def)

interpretation life: interleaving life_act life_arrives life_ok
  by unfold_locales (auto intro: life_step life_arrival)


section \<open>Races\<close>

text \<open>A connection that adopts a peer while it closes is told that it succeeded.\<close>

definition adopt_while_closing :: "activity move list" where
  "adopt_while_closing = [Arrive (Bind 7), Act 0 0, Arrive OnClosed, Act 1 0, Act 1 0, Act 1 0, Act 1 0, Act 1 0, Act 0 0]"

lemma adopted_after_close:
  "play life_act life_arrives (life_start, []) adopt_while_closing =
     Some (life_start\<lparr>lf_close := Finished, lf_signal := \<lparr>sg_conn = Some 7, sg_gen = 1, sg_timer = None\<rparr>, lf_log := [Left, Ended False]\<rparr>,
           [Serving 7 1])"
  by (simp add: adopt_while_closing_def life_arrives_def life_act_def life_start_def sg_start_def lf_done_def say_def drop_signaling_def
      bind_locked_def)

text \<open>A client that loses its transport and then says bye: the timer of the loss is not stopped by \<open>close\<close>, so when it fires during
  the close the ending counts as a failure.\<close>

definition bye_after_loss :: "activity move list" where
  "bye_after_loss = [Arrive (Bind 7), Act 0 0, Act 0 0, Arrive OnDisconnected, Act 1 0, Act 1 0, Act 1 0,
     Act 0 1, Act 0 0, Act 0 0, Act 0 0, Arrive DisconnectTick, Act 1 0, Act 1 0, Act 0 0]"

lemma deliberate_end_as_failure:
  "play life_act life_arrives (life_start, []) bye_after_loss =
     Some (life_start\<lparr>lf_close := Finished, lf_failure := True, lf_announced := True,
             lf_signal := \<lparr>sg_conn = None, sg_gen = 1, sg_timer = None\<rparr>, lf_log := [Disconnected, Left, Ended True]\<rparr>,
           [Unbind 1, CloseCall None])"
  by (simp add: bye_after_loss_def life_arrives_def life_act_def life_start_def sg_start_def lf_done_def say_def drop_signaling_def
      bind_locked_def)

text \<open>The grace timer looks at the generation, lets go of the lock and closes: a reconnect in between is closed with the peer.\<close>

definition adopt_under_timer :: "activity move list" where
  "adopt_under_timer = [Arrive (Bind 7), Act 0 0, Act 0 0, Act 0 0, Act 0 0, Act 0 0, Arrive SignalTick, Act 0 0, Act 0 0,
     Arrive (Bind 8), Act 1 0, Act 1 0, Act 0 0, Act 0 0, Act 0 0]"

lemma adopted_then_closed:
  "play life_act life_arrives (life_start, []) adopt_under_timer =
     Some (life_start\<lparr>lf_close := Running, lf_failure := True, lf_signal := \<lparr>sg_conn = None, sg_gen = 2, sg_timer = None\<rparr>\<rparr>,
           [CloseLeft None, Serving 8 2])"
  by (simp add: adopt_under_timer_def life_arrives_def life_act_def life_start_def sg_start_def lf_done_def say_def drop_signaling_def
      bind_locked_def release_locked_def)

text \<open>Nothing orders the start of a stream before its end: a connected callback overtaken by a close registers the stream again.\<close>

lemma started_after_ended:
  "play life_act life_arrives (life_start, []) [Arrive OnConnected, Act 0 0, Arrive OnClosed, Act 1 0, Act 1 0, Act 1 0, Act 1 0, Act 1 0, Act 0 0] =
     Some (life_start\<lparr>lf_close := Finished, lf_start := Running, lf_log := [Left, Ended False, Started]\<rparr>, [StartReturn])"
  by (simp add: life_arrives_def life_act_def life_start_def sg_start_def lf_done_def say_def drop_signaling_def)


end
