(* ===== verification/Rewind.thy ===== *)
theory Rewind
  imports Streams
begin

text \<open>
  The HTTP endpoints of \<open>internal/transport/webrtc/handler.go\<close>: the live-rewind playlist and its assets, the streams of a
  schedule, the active schedules, and the origin check of the upgrader.  A request is its token, its signature and the
  \<open>Accept-Encoding\<close> header; the token library, the MAC, the presigner and the rendering of dates are parameters; headers
  other than the encoding and log lines are left out.
\<close>

section \<open>Environment\<close>

record 'w rewindEnv =
  rw_live :: "'w liveEnv"
  rw_exec :: "'w redis"
  rw_now :: "'w \<Rightarrow> instant \<times> 'w"
  rw_jwt :: jwtLib
  rw_uuidOK :: "string \<Rightarrow> bool"
  rw_secret :: string
  rw_hmac16 :: "string \<Rightarrow> string \<Rightarrow> string"
  rw_fmtDate :: "instant \<Rightarrow> string"
  rw_fmtNano :: "instant \<Rightarrow> string"
  rw_cfg :: storageConfig
  rw_presign :: "string \<Rightarrow> string \<Rightarrow> duration \<Rightarrow> string option"
  rw_hls :: bool
  rw_storage :: bool
  rw_window :: duration

record rewindRequest =
  rq_token :: string
  rq_sig :: string
  rq_acceptEncoding :: string

record scheduleStreamResponse =
  sr_streamID :: string
  sr_streamType :: string
  sr_participantID :: string
  sr_sessionID :: string
  sr_startedAt :: string
  sr_endedAt :: "string option"

datatype rewindReply = RwError int string | Playlist bool "playlistLine list" | Redirect string
  | StreamList "scheduleStreamResponse list" | Schedules "ScheduleSummary list"

type_synonym ('a, 'w) rw = "(rewindReply, 'a, 'w) fallible"

definition rw_reply :: "('w \<Rightarrow> (rewindReply + rewindReply) \<times> 'w) \<Rightarrow> 'w \<Rightarrow> rewindReply \<times> 'w" where
  "rw_reply f w = (case f w of (Inl r, w1) \<Rightarrow> (r, w1) | (Inr r, w1) \<Rightarrow> (r, w1))"

definition rw_guard :: "bool \<Rightarrow> int \<Rightarrow> string \<Rightarrow> (unit, 'w) rw" where
  "rw_guard b code txt w = (if b then Inr () else Inl (RwError code txt), w)"

definition rw_try :: "int \<Rightarrow> string \<Rightarrow> ('w \<Rightarrow> ('e + 'a) \<times> 'w) \<Rightarrow> ('a, 'w) rw" where
  "rw_try code txt f w = (case f w of (r, w1) \<Rightarrow> (mapErr (\<lambda>_. RwError code txt) r, w1))"

definition rw_some :: "int \<Rightarrow> string \<Rightarrow> 'a option \<Rightarrow> ('a, 'w) rw" where
  "rw_some code txt x w = (case x of None \<Rightarrow> (Inl (RwError code txt), w) | Some y \<Rightarrow> (Inr y, w))"

definition rw_clock :: "'w rewindEnv \<Rightarrow> (instant, 'w) rw" where
  "rw_clock env w = (case rw_now env w of (t, w1) \<Rightarrow> (Inr t, w1))"

lemmas rw_defs = rw_guard_def rw_try_def rw_some_def rw_clock_def

section \<open>Who may read\<close>

definition validMonitor :: "'w rewindEnv \<Rightarrow> string \<Rightarrow> (MonitorClaims, 'w) rw" where
  "validMonitor env token =
     bindE (rw_clock env) (\<lambda>t. rw_try 401 ''unauthorized'' (\<lambda>w. (ValidateMonitor (rw_jwt env) (rw_uuidOK env) (rw_secret env) t token, w)))"

definition authorizeMonitor :: "'w rewindEnv \<Rightarrow> rewindRequest \<Rightarrow> string \<Rightarrow> (unit, 'w) rw" where
  "authorizeMonitor env r scheduleID =
     bindE (validMonitor env (rq_token r)) (\<lambda>claims. rw_guard (CanMonitorSchedule claims scheduleID) 403 ''forbidden'')"

text \<open>An empty origin is a client that is no browser.\<close>

definition CheckOrigin :: "string list \<Rightarrow> string \<Rightarrow> bool" where
  "CheckOrigin allowedOrigins origin \<longleftrightarrow> (if origin = [] then True else origin \<in> set allowedOrigins)"

section \<open>Schedules and their streams\<close>

definition GetActiveSchedulesHandler :: "'w rewindEnv \<Rightarrow> rewindRequest \<Rightarrow> 'w \<Rightarrow> rewindReply \<times> 'w" where
  "GetActiveSchedulesHandler env r = rw_reply
     (bindE (validMonitor env (rq_token r)) (\<lambda>claims.
      bindE (rw_try 500 ''internal error'' (GetActiveSchedules (rw_live env) (mc_ScheduleIDs claims))) (\<lambda>schedules w.
        (Inr (Schedules schedules), w))))"

definition stream_response :: "(instant \<Rightarrow> string) \<Rightarrow> ScheduleStream \<Rightarrow> scheduleStreamResponse" where
  "stream_response fmt s =
     \<lparr>sr_streamID = ScheduleStream.ss_StreamID s, sr_streamType = ScheduleStream.ss_StreamType s,
      sr_participantID = ScheduleStream.ss_ParticipantID s, sr_sessionID = ScheduleStream.ss_SessionID s,
      sr_startedAt = fmt (ScheduleStream.ss_StartedAt s), sr_endedAt = map_option fmt (ss_EndedAt s)\<rparr>"

definition GetScheduleStreams :: "'w rewindEnv \<Rightarrow> string \<Rightarrow> rewindRequest \<Rightarrow> 'w \<Rightarrow> rewindReply \<times> 'w" where
  "GetScheduleStreams env scheduleID r = rw_reply
     (bindE (authorizeMonitor env r scheduleID) (\<lambda>_.
      bindE (rw_try 500 ''internal error'' (ListStreams (rw_exec env) scheduleID)) (\<lambda>streams w.
        (Inr (StreamList (map (stream_response (rw_fmtNano env)) streams)), w))))"

section \<open>The playlist\<close>

definition hex_upper :: "nat \<Rightarrow> char" where
  "hex_upper n = (if n < 10 then char_of (48 + n) else char_of (55 + n))"

definition escape_char :: "char \<Rightarrow> string" where
  "escape_char c = (let n = of_char c :: nat in
     if 48 \<le> n \<and> n \<le> 57 \<or> 65 \<le> n \<and> n \<le> 90 \<or> 97 \<le> n \<and> n \<le> 122 \<or> c \<in> {CHR ''-'', CHR ''_'', CHR ''.'', CHR ''~''} then [c]
     else if c = CHR '' '' then ''+'' else [CHR ''%'', hex_upper (n div 16), hex_upper (n mod 16)])"

definition QueryEscape :: "string \<Rightarrow> string" where "QueryEscape s = concat (map escape_char s)"

definition assetURI :: "string \<Rightarrow> string \<Rightarrow> string" where
  "assetURI signature name = name @ ''?sig='' @ QueryEscape signature"

definition wants_gzip :: "rewindRequest \<Rightarrow> bool" where
  "wants_gzip r \<longleftrightarrow> Contains (rq_acceptEncoding r) ''gzip''"

definition GetLiveManifest :: "'w rewindEnv \<Rightarrow> string \<Rightarrow> string \<Rightarrow> rewindRequest \<Rightarrow> 'w \<Rightarrow> rewindReply \<times> 'w" where
  "GetLiveManifest env scheduleID streamID r = rw_reply
     (bindE (authorizeMonitor env r scheduleID) (\<lambda>_.
      bindE (rw_guard (rw_hls env) 404 ''live rewind not available'') (\<lambda>_.
      bindE (rw_try 500 ''internal error'' (FindLiveStream (rw_live env) scheduleID streamID)) (\<lambda>info.
      bindE (rw_try 500 ''internal error'' (ListInits (rw_exec env) streamID)) (\<lambda>inits.
      bindE (rw_try 500 ''internal error'' (ListFragments (rw_exec env) streamID)) (\<lambda>frags.
      bindE (rw_clock env) (\<lambda>t.
      let signature = SignAsset (rw_hmac16 env) (rw_secret env) t streamID in
      bindE (rw_try 404 ''live rewind not ready yet''
               (\<lambda>w. (buildLiveManifest (rw_fmtDate env) inits frags (rw_window env) (info = None) (assetURI signature), w))) (\<lambda>manifest w.
        (Inr (Playlist (wants_gzip r) manifest), w)))))))))"

section \<open>One asset\<close>

text \<open>A signature that verifies is enough; otherwise the monitor's token must be.\<close>

definition authorizeAsset :: "'w rewindEnv \<Rightarrow> rewindRequest \<Rightarrow> string \<Rightarrow> string \<Rightarrow> (unit, 'w) rw" where
  "authorizeAsset env r scheduleID streamID =
     bindE (if rq_sig r = [] then (\<lambda>w. (Inr False, w))
            else bindE (rw_clock env) (\<lambda>t w. (Inr (VerifyAsset (rw_hmac16 env) (rw_secret env) t streamID (rq_sig r) = Inr ()), w)))
       (\<lambda>authorized. if authorized then (\<lambda>w. (Inr (), w)) else authorizeMonitor env r scheduleID)"

definition asset_key :: "'w rewindEnv \<Rightarrow> string \<Rightarrow> hlsAssetRef \<Rightarrow> (string, 'w) rw" where
  "asset_key env streamID ref = (case ref of
     InitRef epoch \<Rightarrow> bindE (rw_try 500 ''internal error'' (GetInit (rw_exec env) streamID epoch)) (\<lambda>meta.
       rw_some 404 ''not found'' (map_option ini_S3Key meta))
   | FragRef seq \<Rightarrow> bindE (rw_try 500 ''internal error'' (GetFragment (rw_exec env) streamID seq)) (\<lambda>meta.
       rw_some 404 ''not found'' (map_option frag_S3Key meta)))"

definition GetLiveAsset :: "'w rewindEnv \<Rightarrow> string \<Rightarrow> string \<Rightarrow> string \<Rightarrow> rewindRequest \<Rightarrow> 'w \<Rightarrow> rewindReply \<times> 'w" where
  "GetLiveAsset env scheduleID streamID assetName r = rw_reply
     (bindE (authorizeAsset env r scheduleID streamID) (\<lambda>_.
      bindE (rw_guard (rw_hls env \<and> rw_storage env) 404 ''live rewind not available'') (\<lambda>_.
      bindE (rw_try 404 ''not found'' (\<lambda>w. (parseHLSAssetName assetName, w))) (\<lambda>ref.
      bindE (asset_key env streamID ref) (\<lambda>s3Key.
      bindE (rw_guard (prefix (''schedules/'' @ scheduleID @ ''/'') s3Key) 404 ''not found'') (\<lambda>_.
      bindE (rw_try 500 ''internal error'' (\<lambda>w. (PresignRecording (rw_presign env) (rw_cfg env) s3Key (PresignExpiry (rw_cfg env)), w))) (\<lambda>signed w.
        (Inr (Redirect signed), w))))))))"


section \<open>Replies and steps\<close>

text \<open>Every early return is an error reply, so any other reply comes from the end of the handler.\<close>

definition refuses :: "('a, 'w) rw \<Rightarrow> bool" where
  "refuses f \<longleftrightarrow> (\<forall>w e w'. f w = (Inl e, w') \<longrightarrow> (\<exists>c t. e = RwError c t))"

lemma refuses_bind: "refuses f \<Longrightarrow> (\<And>x. refuses (g x)) \<Longrightarrow> refuses (bindE f g)"
  unfolding refuses_def by (metis bindE_InlE)

lemma refuses_steps:
  "refuses (rw_guard b c t)" "refuses (rw_try c t f)" "refuses (rw_some c t o1)" "refuses (rw_clock env)"
  by (auto simp: refuses_def rw_defs split: prod.splits option.splits if_splits sum.splits)

lemma refuses_return: "refuses (\<lambda>w. (Inr y, w))"
  by (simp add: refuses_def)

lemma refuses_if: "refuses f \<Longrightarrow> refuses g \<Longrightarrow> refuses (if b then f else g)"
  by simp

lemmas refuses_intros = refuses_bind refuses_steps refuses_return refuses_if

lemma refuses_monitor: "refuses (validMonitor env tok)" "refuses (authorizeMonitor env r sch)"
  unfolding validMonitor_def authorizeMonitor_def by (intro refuses_intros)+

lemma refuses_asset: "refuses (authorizeAsset env r sch str)"
  unfolding authorizeAsset_def by (intro refuses_intros refuses_monitor)

lemma refuses_asset_key: "refuses (asset_key env str ref)"
  by (cases ref) (simp_all add: asset_key_def refuses_intros)

lemma rw_reply_end:
  assumes "refuses f" "rw_reply f w = (rep, w')" "\<And>c t. rep \<noteq> RwError c t"
  shows "f w = (Inr rep, w')"
proof (cases "f w")
  case (Pair x w1)
  then show ?thesis using assms unfolding refuses_def by (cases x) (fastforce simp: rw_reply_def)+
qed

lemma rw_step [simp]:
  "rw_guard b c t w = (Inr x, w') \<longleftrightarrow> b \<and> w' = w"
  "rw_try c t f w = (Inr y, w') \<longleftrightarrow> f w = (Inr y, w')"
  "rw_some c t o1 w = (Inr z, w') \<longleftrightarrow> o1 = Some z \<and> w' = w"
  "rw_clock env w = (Inr u, w') \<longleftrightarrow> rw_now env w = (u, w')"
  by (auto simp: rw_defs split: prod.splits option.splits)

section \<open>What a reader gets\<close>

text \<open>What it takes to be let in: a token that validates for the schedule, at the time of the request.\<close>

definition may_monitor :: "'w rewindEnv \<Rightarrow> string \<Rightarrow> string \<Rightarrow> instant \<Rightarrow> bool" where
  "may_monitor env token scheduleID t \<longleftrightarrow>
     (\<exists>c. ValidateMonitor (rw_jwt env) (rw_uuidOK env) (rw_secret env) t token = Inr c \<and> CanMonitorSchedule c scheduleID)"

lemma authorized_iff:
  "authorizeMonitor env r sch w = (Inr (), w') \<longleftrightarrow> (\<exists>t. rw_now env w = (t, w') \<and> may_monitor env (rq_token r) sch t)"
  by (auto simp: authorizeMonitor_def validMonitor_def may_monitor_def bindE_Inr_iff)

lemma presigned_iff: "PresignRecording presign cfg key e = Inr u \<longleftrightarrow> presign (RecordingBucket cfg) key e = Some u"
  by (simp add: PresignRecording_def split: option.splits)

lemma asset_redirect_iff:
  "GetLiveAsset env sch str name r w = (Redirect url, w') \<longleftrightarrow> rw_hls env \<and> rw_storage env \<and>
     (\<exists>w1 ref key. authorizeAsset env r sch str w = (Inr (), w1) \<and> parseHLSAssetName name = Inr ref \<and> asset_key env str ref w1 = (Inr key, w')
        \<and> prefix (''schedules/'' @ sch @ ''/'') key
        \<and> rw_presign env (RecordingBucket (rw_cfg env)) key (PresignExpiry (rw_cfg env)) = Some url)"
  (is "?l \<longleftrightarrow> ?r")
proof -
  let ?f = "bindE (authorizeAsset env r sch str) (\<lambda>_. bindE (rw_guard (rw_hls env \<and> rw_storage env) 404 ''live rewind not available'') (\<lambda>_.
      bindE (rw_try 404 ''not found'' (\<lambda>w. (parseHLSAssetName name, w))) (\<lambda>ref. bindE (asset_key env str ref) (\<lambda>s3Key.
      bindE (rw_guard (prefix (''schedules/'' @ sch @ ''/'') s3Key) 404 ''not found'') (\<lambda>_.
      bindE (rw_try 500 ''internal error'' (\<lambda>w. (PresignRecording (rw_presign env) (rw_cfg env) s3Key (PresignExpiry (rw_cfg env)), w))) (\<lambda>signed w.
        (Inr (Redirect signed), w)))))))"
  have f: "refuses ?f" by (intro refuses_intros refuses_asset refuses_asset_key)
  have "?l \<longleftrightarrow> ?f w = (Inr (Redirect url), w')"
    using rw_reply_end [OF f, of w "Redirect url" w'] unfolding GetLiveAsset_def by (auto simp: rw_reply_def)
  also have "\<dots> \<longleftrightarrow> ?r"
    by (simp add: bindE_Inr_iff presigned_iff del: append.simps) blast
  finally show ?thesis .
qed

text \<open>C19.  An asset of a recording is only redirected to for a caller that presents a signature of that very stream or a monitor token
  valid at that moment for the schedule it names; the asset is the one the name denotes in the stream's registry, and its
  object lies under that schedule in the recording bucket.\<close>

theorem asset_confined:
  assumes "GetLiveAsset env sch str name r w = (Redirect url, w')"
  shows "(\<exists>t. rq_sig r \<noteq> [] \<and> VerifyAsset (rw_hmac16 env) (rw_secret env) t str (rq_sig r) = Inr () \<or> may_monitor env (rq_token r) sch t)
    \<and> (\<exists>ref key w1. parseHLSAssetName name = Inr ref \<and> asset_key env str ref w1 = (Inr key, w') \<and> prefix (''schedules/'' @ sch @ ''/'') key
         \<and> rw_presign env (RecordingBucket (rw_cfg env)) key (PresignExpiry (rw_cfg env)) = Some url)"
proof -
  obtain w1 ref key where a: "authorizeAsset env r sch str w = (Inr (), w1)" and k: "parseHLSAssetName name = Inr ref"
    "asset_key env str ref w1 = (Inr key, w')" "prefix (''schedules/'' @ sch @ ''/'') key"
    "rw_presign env (RecordingBucket (rw_cfg env)) key (PresignExpiry (rw_cfg env)) = Some url"
    using assms unfolding asset_redirect_iff by blast
  have "\<exists>t. rq_sig r \<noteq> [] \<and> VerifyAsset (rw_hmac16 env) (rw_secret env) t str (rq_sig r) = Inr () \<or> may_monitor env (rq_token r) sch t"
    using a by (auto simp: authorizeAsset_def bindE_Inr_iff authorized_iff split: if_splits)
  with k show ?thesis by blast
qed

lemma playlist_iff:
  "GetLiveManifest env sch str r w = (Playlist z ls, w') \<longleftrightarrow> rw_hls env \<and> z = wants_gzip r \<and>
     (\<exists>w1 info w2 inits w3 frags w4 t. authorizeMonitor env r sch w = (Inr (), w1)
        \<and> FindLiveStream (rw_live env) sch str w1 = (Inr info, w2) \<and> ListInits (rw_exec env) str w2 = (Inr inits, w3)
        \<and> ListFragments (rw_exec env) str w3 = (Inr frags, w4) \<and> rw_now env w4 = (t, w')
        \<and> buildLiveManifest (rw_fmtDate env) inits frags (rw_window env) (info = None)
             (assetURI (SignAsset (rw_hmac16 env) (rw_secret env) t str)) = Inr ls)"
  (is "?l \<longleftrightarrow> ?r")
proof -
  let ?f = "bindE (authorizeMonitor env r sch) (\<lambda>_. bindE (rw_guard (rw_hls env) 404 ''live rewind not available'') (\<lambda>_.
      bindE (rw_try 500 ''internal error'' (FindLiveStream (rw_live env) sch str)) (\<lambda>info.
      bindE (rw_try 500 ''internal error'' (ListInits (rw_exec env) str)) (\<lambda>inits.
      bindE (rw_try 500 ''internal error'' (ListFragments (rw_exec env) str)) (\<lambda>frags. bindE (rw_clock env) (\<lambda>t.
      let signature = SignAsset (rw_hmac16 env) (rw_secret env) t str in
      bindE (rw_try 404 ''live rewind not ready yet''
         (\<lambda>w. (buildLiveManifest (rw_fmtDate env) inits frags (rw_window env) (info = None) (assetURI signature), w))) (\<lambda>manifest w.
        (Inr (Playlist (wants_gzip r) manifest), w))))))))"
  have f: "refuses ?f" unfolding Let_def by (intro refuses_intros refuses_monitor)
  have "?l \<longleftrightarrow> ?f w = (Inr (Playlist z ls), w')"
    using rw_reply_end [OF f, of w "Playlist z ls" w'] unfolding GetLiveManifest_def by (auto simp: rw_reply_def)
  also have "\<dots> \<longleftrightarrow> ?r"
    by (simp add: bindE_Inr_iff Let_def) blast
  finally show ?thesis .
qed

text \<open>A reader of a live asset, and a server whose world is the wall clock: its registries hold one stream of schedule \<open>eB\<close>.\<close>

definition rw_frag :: HLSFragmentMeta where
  "rw_frag = \<lparr>Seq = 0, frag_Epoch = 0, frag_S3Key = ''schedules/eB/f'', StartedAt = 0, EndedAt = 4 * second, frag_SizeBytes = 1,
     frag_UploadedAt = 5\<rparr>"

definition rw_init :: HLSInitMeta where
  "rw_init = \<lparr>ini_Epoch = 0, ini_S3Key = ''schedules/eB/i'', ini_UploadedAt = 1\<rparr>"

definition rw_claims :: json where
  "rw_claims = JObj [(''jti'', JStr ''j''), (''sub'', JStr ''u''), (''userId'', JStr ''u''), (''schoolId'', JStr ''h''), (''monitorScope'', JStr ''SCHEDULE_PROCTOR''),
     (''scheduleIds'', JArr [JStr ''eA'']), (''examId'', JStr ''x''), (''roles'', JArr [JStr ''TEACHER'']), (''tokenUse'', JStr ''monitor''),
     (''exp'', JNum 100000)]"

definition rw_server :: "instant redis" where
  "rw_server c w = (case c of
     HGETALL k \<Rightarrow> (if k = hlsInitRegistryKey ''sB'' then Pairs [(''0'', Doc (enc_init rw_init))]
                   else if k = hlsFragmentRegistryKey ''sB'' then Pairs [(''0'', Doc (enc_fragment rw_frag))] else Pairs [], w)
   | HGET k f \<Rightarrow> (if k = hlsFragmentRegistryKey ''sB'' \<and> f = ''0'' then Val (Doc (enc_fragment rw_frag)) else Nil, w)
   | _ \<Rightarrow> (Err, w))"

definition rw_demo :: "instant rewindEnv" where
  "rw_demo = \<lparr>rw_live = \<lparr>l_scan = (\<lambda>p w. (Some [], w)), l_mget = (\<lambda>ks w. (Some [], w)), l_publish = (\<lambda>_ _ w. (True, w)),
       l_numsub = (\<lambda>_ w. (Some [], w)), l_now = (\<lambda>w. (w, w)), l_uuid = (\<lambda>w. (''u'', w)), l_alertPublisher = None\<rparr>,
     rw_exec = rw_server, rw_now = (\<lambda>w. (if 0 \<le> w \<and> w \<le> 90000 * second then w else 0, w)),
     rw_jwt = (\<lambda>kf t tok. if tok = ''tokA'' \<and> kf (HMAC ''HS256'') \<noteq> None \<and> t < 100000 * second then Inr (rw_claims, True) else Inl ''rejected''),
     rw_uuidOK = (\<lambda>_. True), rw_secret = ''key'', rw_hmac16 = (\<lambda>k m. k @ m), rw_fmtDate = (\<lambda>_. ''date''), rw_fmtNano = (\<lambda>_. ''date''),
     rw_cfg = DefaultConfig ''s3'', rw_presign = (\<lambda>b k _. Some (b @ ''/'' @ k)), rw_hls = True, rw_storage = True, rw_window = 0\<rparr>"

definition no_token :: "string \<Rightarrow> rewindRequest" where
  "no_token signature = \<lparr>rq_token = [], rq_sig = signature, rq_acceptEncoding = []\<rparr>"

definition with_token :: "string \<Rightarrow> rewindRequest" where
  "with_token tok = \<lparr>rq_token = tok, rq_sig = [], rq_acceptEncoding = ''gzip''\<rparr>"

lemma rw_demo_monitor: "may_monitor rw_demo ''tokA'' sch t \<longleftrightarrow> t < 100000 * second \<and> sch = ''eA''"
  by (auto simp: may_monitor_def rw_demo_def ValidateMonitor_def parse_def hmac_only_def rw_claims_def dec_monitor_claims_def
      dec_registered_def dec_exp_def dec_defs dec_strings_def RegisteredClaims.extend_def MonitorClaims.fields_def TokenUseMonitor_def
      CanMonitorSchedule_def HasMonitorRole_def HasValidScopeRole_def hasRole_def role_text_def MonitorScopeSchoolAdmin_def MonitorScopeExamChair_def
      MonitorScopeScheduleProctor_def second_def)


lemma fresh_signature:
  assumes "0 \<le> t" and "t \<le> 9000000000 * second" and "t \<le> t1" and "t1 \<le> t + 20 * minute"
  shows "VerifyAsset hmac16 secret t1 str (SignAsset hmac16 secret t str) = Inr ()"
  using signed_assets [OF assms(1,2)] assms(3,4) by blast

lemma Itoa_0: "Itoa 0 = ''0''"
  by code_simp

lemma asset_confined_witness:
  "\<exists>ref key w1. parseHLSAssetName (hlsFragmentAssetName 0) = Inr ref \<and> asset_key rw_demo ''sB'' ref w1 = (Inr key, 0) \<and> prefix ''schedules/eB/'' key"
proof -
  let ?r = "no_token (SignAsset (\<lambda>k m. k @ m) ''key'' 0 ''sB'')"
  have "VerifyAsset (\<lambda>k m. k @ m) ''key'' 0 ''sB'' (SignAsset (\<lambda>k m. k @ m) ''key'' 0 ''sB'') = Inr ()"
    by (rule fresh_signature) (simp_all add: second_def minute_def)
  moreover have "SignAsset (\<lambda>k m. k @ m) ''key'' 0 ''sB'' \<noteq> []" by (simp add: SignAsset_def Let_def)
  ultimately have a: "authorizeAsset rw_demo ?r ''eB'' ''sB'' 0 = (Inr (), 0)"
    by (simp add: authorizeAsset_def bindE_def no_token_def rw_demo_def rw_clock_def)
  have k: "asset_key rw_demo ''sB'' (FragRef 0) 0 = (Inr ''schedules/eB/f'', 0)"
    by (simp add: asset_key_def bindE_def rw_try_def rw_some_def GetFragment_def hash_get_def rw_demo_def rw_server_def as_json_def
        rw_frag_def Itoa_0)
  have n: "parseHLSAssetName (hlsFragmentAssetName 0) = Inr (FragRef 0)" by (rule parse_frag_name) (simp add: int64_id_def max_int64_def)
  have "GetLiveAsset rw_demo ''eB'' ''sB'' (hlsFragmentAssetName 0) ?r 0 =
      (Redirect (RecordingBucket (DefaultConfig ''s3'') @ ''/'' @ ''schedules/eB/f''), 0)"
    using a k n unfolding asset_redirect_iff by (simp add: rw_demo_def)
  from asset_confined [OF this] show ?thesis unfolding append.simps by blast
qed

section \<open>What a playlist opens\<close>

lemma signed_asset_opens:
  assumes "0 \<le> t" and "t \<le> 9000000000 * second" and "t \<le> t1" and "t1 \<le> t + 20 * minute"
    and "rq_sig r = SignAsset (rw_hmac16 env) (rw_secret env) t str" and "rw_now env v = (t1, v1)"
  shows "authorizeAsset env r sch str v = (Inr (), v1)"
proof -
  have "VerifyAsset (rw_hmac16 env) (rw_secret env) t1 str (SignAsset (rw_hmac16 env) (rw_secret env) t str) = Inr ()"
    using assms(1-4) by (rule fresh_signature)
  moreover have "SignAsset (rw_hmac16 env) (rw_secret env) t str \<noteq> []" by (simp add: SignAsset_def Let_def)
  ultimately show ?thesis
    using assms(5,6) by (simp add: authorizeAsset_def bindE_def rw_clock_def)
qed

lemma manifest_extinf:
  assumes "buildLiveManifest fd inits frags window ended uri = Inr ls"
  shows "filter is_extinf ls = map (\<lambda>f. EXTINF (frag_span f) (uri (hlsFragmentAssetName (Seq f)))) (windowFragments frags window)"
  using assms frag_lines_extinf by (elim build_shape) auto

text \<open>What a signature of a stream opens, for whom and under which schedule: the fragment is redirected to, with or without a token.\<close>

definition opens :: "'w rewindEnv \<Rightarrow> string \<Rightarrow> string \<Rightarrow> instant \<Rightarrow> int \<Rightarrow> bool" where
  "opens env str signature t q \<longleftrightarrow>
     (\<forall>r v t1 v1 v2 meta sch url. rq_sig r = signature \<and> rw_now env v = (t1, v1) \<and> t \<le> t1 \<and> t1 \<le> t + 20 * minute
        \<and> GetFragment (rw_exec env) str q v1 = (Inr (Some meta), v2) \<and> prefix (''schedules/'' @ sch @ ''/'') (frag_S3Key meta)
        \<and> rw_presign env (RecordingBucket (rw_cfg env)) (frag_S3Key meta) (PresignExpiry (rw_cfg env)) = Some url \<longrightarrow>
      GetLiveAsset env sch str (hlsFragmentAssetName q) r v = (Redirect url, v2))"

lemma signature_opens:
  assumes "0 \<le> t" and "t \<le> 9000000000 * second" and "rw_hls env" and "rw_storage env" and "int64_id q"
  shows "opens env str (SignAsset (rw_hmac16 env) (rw_secret env) t str) t q"
  unfolding opens_def
proof (intro allI impI, elim conjE)
  fix r :: rewindRequest and v t1 v1 v2 meta sch url
  assume r: "rq_sig r = SignAsset (rw_hmac16 env) (rw_secret env) t str" "rw_now env v = (t1, v1)" "t \<le> t1" "t1 \<le> t + 20 * minute"
    and g: "GetFragment (rw_exec env) str q v1 = (Inr (Some meta), v2)" "prefix (''schedules/'' @ sch @ ''/'') (frag_S3Key meta)"
      "rw_presign env (RecordingBucket (rw_cfg env)) (frag_S3Key meta) (PresignExpiry (rw_cfg env)) = Some url"
  have a: "authorizeAsset env r sch str v = (Inr (), v1)"
    using signed_asset_opens [OF assms(1,2) r(3,4,1,2)] .
  have k: "asset_key env str (FragRef q) v1 = (Inr (frag_S3Key meta), v2)"
    using g(1) by (simp add: asset_key_def bindE_Inr_iff)
  from a parse_frag_name [OF assms(5)] k g(2,3) assms(3,4)
  show "GetLiveAsset env sch str (hlsFragmentAssetName q) r v = (Redirect url, v2)"
    unfolding asset_redirect_iff by blast
qed

text \<open>C10.  A playlist is only served to a monitor of the schedule in its path; its media lines are the fragments of the window, in
  order, each with a signature of the stream, and for twenty minutes that signature alone opens every one of them that is still
  registered, under whatever schedule the fragment is stored.  Nothing relates the stream in the path to the schedule, so a
  monitor of one schedule is given signatures for the streams of any other.\<close>

theorem playlist_opens_footage:
  assumes "GetLiveManifest env sch str r w = (Playlist z ls, w')"
    and "\<And>v. 0 \<le> fst (rw_now env v) \<and> fst (rw_now env v) \<le> 9000000000 * second"
    and "rw_storage env"
  shows "(\<exists>t. may_monitor env (rq_token r) sch t) \<and>
     (\<exists>t signature frags w1 w2. ListFragments (rw_exec env) str w1 = (Inr frags, w2) \<and> rw_now env w2 = (t, w')
        \<and> filter is_extinf ls = map (\<lambda>f. EXTINF (frag_span f) (assetURI signature (hlsFragmentAssetName (Seq f)))) (windowFragments frags (rw_window env))
        \<and> VerifyAsset (rw_hmac16 env) (rw_secret env) t str signature = Inr ()
        \<and> (\<forall>q. int64_id q \<longrightarrow> opens env str signature t q))"
proof -
  obtain w1 info inits w3 frags w4 t where p: "rw_hls env" "authorizeMonitor env r sch w = (Inr (), w1)"
      "ListFragments (rw_exec env) str w3 = (Inr frags, w4)" "rw_now env w4 = (t, w')"
      "buildLiveManifest (rw_fmtDate env) inits frags (rw_window env) (info = (None :: SessionInfo option))
         (assetURI (SignAsset (rw_hmac16 env) (rw_secret env) t str)) = Inr ls"
    using assms(1) unfolding playlist_iff by metis
  have t: "0 \<le> t" "t \<le> 9000000000 * second" using assms(2) [of w4] p(4) by simp_all
  let ?s = "SignAsset (rw_hmac16 env) (rw_secret env) t str"
  have o: "opens env str ?s t q" if "int64_id q" for q
    using signature_opens [OF t p(1) assms(3) that] .
  have v: "VerifyAsset (rw_hmac16 env) (rw_secret env) t str ?s = Inr ()"
    by (rule fresh_signature [OF t]) (simp_all add: minute_def second_def)
  have m: "\<exists>t. may_monitor env (rq_token r) sch t" using p(2) unfolding authorized_iff by blast
  show ?thesis
    by (intro conjI m exI [of _ t] exI [of _ ?s] exI [of _ frags] exI [of _ w3] exI [of _ w4] p(3,4) manifest_extinf [OF p(5)] v allI impI o)
qed


text \<open>The monitor of \<open>eA\<close> asks for a stream of \<open>eB\<close> under his own schedule, and opens a fragment of \<open>eB\<close> with what he is given.\<close>

lemma rw_demo_playlist:
  "\<exists>ls. GetLiveManifest rw_demo ''eA'' ''sB'' (with_token ''tokA'') 0 = (Playlist True ls, 0)"
proof -
  have a: "authorizeMonitor rw_demo (with_token ''tokA'') ''eA'' 0 = (Inr (), 0)"
    unfolding authorized_iff by (simp add: rw_demo_monitor with_token_def second_def) (simp add: rw_demo_def)
  have l: "FindLiveStream (rw_live rw_demo) ''eA'' ''sB'' 0 = (Inr None, 0)"
    by (simp add: FindLiveStream_def rw_demo_def ScanSchedule_def scanByPattern_def bindE_def)
  have i: "ListInits (rw_exec rw_demo) ''sB'' 0 = (Inr [rw_init], 0)"
    by (simp add: ListInits_def hash_list_def rw_demo_def rw_server_def decode_all_def map_filter_simps as_json_def)
  have f: "ListFragments (rw_exec rw_demo) ''sB'' 0 = (Inr [rw_frag], 0)"
    by (simp add: ListFragments_def hash_list_def rw_demo_def rw_server_def decode_all_def map_filter_simps as_json_def
        hlsInitRegistryKey_def hlsFragmentRegistryKey_def)
  have n: "rw_now rw_demo 0 = (0, 0)" "rw_hls rw_demo" "rw_window rw_demo = 0" by (simp_all add: rw_demo_def)
  have b: "\<exists>ls. buildLiveManifest (rw_fmtDate rw_demo) [rw_init] [rw_frag] 0 True uri = Inr ls" for uri
    by (simp add: buildLiveManifest_def windowFragments_def initByEpoch_def rw_frag_def rw_init_def Let_def)
  have z: "wants_gzip (with_token ''tokA'')" by (simp add: wants_gzip_def with_token_def)
  show ?thesis using a l i f n b z unfolding playlist_iff by auto
qed

lemma playlist_opens_footage_witness:
  "(\<forall>later. \<not> may_monitor rw_demo ''tokA'' ''eB'' later)
   \<and> (\<exists>t signature. \<forall>tok. GetLiveAsset rw_demo ''eB'' ''sB'' (hlsFragmentAssetName 0)
         \<lparr>rq_token = tok, rq_sig = signature, rq_acceptEncoding = []\<rparr> t = (Redirect (''vox-recordings/schedules/eB/f''), t))"
proof
  obtain ls where l: "GetLiveManifest rw_demo ''eA'' ''sB'' (with_token ''tokA'') 0 = (Playlist True ls, 0)"
    using rw_demo_playlist by blast
  have n: "0 \<le> fst (rw_now rw_demo v) \<and> fst (rw_now rw_demo v) \<le> 9000000000 * second" for v
    by (auto simp: rw_demo_def second_def)
  have s: "rw_storage rw_demo" by (simp add: rw_demo_def)
  obtain t signature w2 where o: "opens rw_demo ''sB'' signature t 0" and t: "rw_now rw_demo w2 = (t, 0)"
    using playlist_opens_footage [OF l n s] by (auto simp: int64_id_def max_int64_def)
  have c: "rw_now rw_demo t = (t, t)" using t by (auto simp: rw_demo_def second_def split: if_splits)
  have g: "GetFragment (rw_exec rw_demo) ''sB'' 0 t = (Inr (Some rw_frag), t)"
    by (simp add: GetFragment_def hash_get_def rw_demo_def rw_server_def as_json_def Itoa_0)
  have p: "prefix (''schedules/'' @ ''eB'' @ ''/'') (frag_S3Key rw_frag)"
    "rw_presign rw_demo (RecordingBucket (rw_cfg rw_demo)) (frag_S3Key rw_frag) (PresignExpiry (rw_cfg rw_demo)) = Some ''vox-recordings/schedules/eB/f''"
    by (simp_all add: rw_frag_def rw_demo_def DefaultConfig_def)
  have tt: "t \<le> t" "t \<le> t + 20 * minute" by (simp_all add: minute_def second_def)
  have "GetLiveAsset rw_demo ''eB'' ''sB'' (hlsFragmentAssetName 0)
         \<lparr>rq_token = tok, rq_sig = signature, rq_acceptEncoding = []\<rparr> t = (Redirect (''vox-recordings/schedules/eB/f''), t)" for tok
    using o c g p tt unfolding opens_def by (metis rewindRequest.select_convs(2))
  then show "\<exists>t signature. \<forall>tok. GetLiveAsset rw_demo ''eB'' ''sB'' (hlsFragmentAssetName 0)
         \<lparr>rq_token = tok, rq_sig = signature, rq_acceptEncoding = []\<rparr> t = (Redirect (''vox-recordings/schedules/eB/f''), t)" by blast
  show "\<forall>later. \<not> may_monitor rw_demo ''tokA'' ''eB'' later"
    by (simp add: rw_demo_monitor)
qed

end
