(* ===== verification/Serve.thy ===== *)
theory Serve
  imports Rewind PeerSlots
begin

text \<open>
  The WebSocket endpoints of \<open>internal/transport/webrtc/handler.go\<close>: \<open>ServeStream\<close> with \<open>adoptPeer\<close> and the reaper of a
  stream, and \<open>ServeMonitor\<close> with its message loop.  A peer is known by its stream id; the sockets, the exam service, the
  creation of a peer connection and whether a peer has died meanwhile are parameters.  What follows in \<open>runSignaling\<close> is in
  \<open>Negotiation\<close>.
\<close>

section \<open>When a recording may be assembled\<close>

definition webrtcAssemblyGrace :: duration where "webrtcAssemblyGrace = 32 * minute"

definition webrtcAssemblyDueAt :: "StreamClaims \<Rightarrow> instant \<Rightarrow> instant" where
  "webrtcAssemblyDueAt claims now =
     (let windowEnd0 = now;
          windowEnd1 = (case rc_ExpiresAt claims of None \<Rightarrow> windowEnd0 | Some e \<Rightarrow> if e > windowEnd0 then e else windowEnd0);
          windowEnd2 = (case ScheduleEnd claims of None \<Rightarrow> windowEnd1 | Some e \<Rightarrow> if e > windowEnd1 then e else windowEnd1)
      in windowEnd2 + webrtcAssemblyGrace)"

lemma due_not_early:
  "now + webrtcAssemblyGrace \<le> webrtcAssemblyDueAt claims now"
  "rc_ExpiresAt claims = Some e \<Longrightarrow> e + webrtcAssemblyGrace \<le> webrtcAssemblyDueAt claims now"
  "ScheduleEnd claims = Some s \<Longrightarrow> s + webrtcAssemblyGrace \<le> webrtcAssemblyDueAt claims now"
  by (auto simp: webrtcAssemblyDueAt_def Let_def split: option.splits)

section \<open>Environment and state\<close>

record 'w serveEnv =
  sv_now :: "'w \<Rightarrow> instant \<times> 'w"
  sv_jwt :: jwtLib
  sv_uuidOK :: "string \<Rightarrow> bool"
  sv_secret :: string
  sv_exam :: "(string \<Rightarrow> string \<Rightarrow> string \<Rightarrow> string \<Rightarrow> 'w \<Rightarrow> (bool \<times> string) option \<times> 'w) option"
  sv_upgrade :: "'w \<Rightarrow> bool \<times> 'w"
  sv_newPeer :: "'w \<Rightarrow> (string \<times> instant) option \<times> 'w"
  sv_done :: "string \<Rightarrow> 'w \<Rightarrow> bool \<times> 'w"
  sv_exec :: "'w redis"

record streamRequest =
  sq_scheduleID :: string
  sq_streamType :: string
  sq_token :: string
  sq_resumeStreamID :: string
  sq_conn :: nat

record hub =
  hb_sessions :: "string SessionManager"
  hb_signal :: "string \<Rightarrow> signaling"

text \<open>
  How a connection goes on: refused before the upgrade, or served.  \<open>Resumed\<close> and \<open>Ready\<close> carry the stream and the generation of the
  binding, \<open>Ready\<close> and \<open>DeadPeer\<close> the stream that was replaced and is now closed in the background.
\<close>

datatype streamOutcome = Refused rewindReply | NotUpgraded | Resumed string nat | PeerFailed
  | DeadPeer string "string option" | Ready string nat "string option"

type_synonym ('r, 'w) hubOp = "hub \<times> 'w \<Rightarrow> 'r \<times> hub \<times> 'w"

section \<open>Admission\<close>

definition sv_clock :: "'w serveEnv \<Rightarrow> (instant, 'w) rw" where
  "sv_clock env w = (case sv_now env w of (t, w1) \<Rightarrow> (Inr t, w1))"

text \<open>\<open>ValidateAccess\<close> of the exam service; no client configured lets everybody pass.\<close>

definition exam_access :: "'w serveEnv \<Rightarrow> string \<Rightarrow> string \<Rightarrow> string \<Rightarrow> string \<Rightarrow> (unit, 'w) rw" where
  "exam_access env scheduleID participantID sessionID streamType w =
     (case sv_exam env of None \<Rightarrow> (Inr (), w)
      | Some validateAccess \<Rightarrow>
          (case validateAccess scheduleID participantID sessionID streamType w of
             (None, w1) \<Rightarrow> (Inl (RwError 503 ''exam service unavaiable''), w1)
           | (Some (allowed, reason), w1) \<Rightarrow> (if allowed then Inr () else Inl (RwError 403 reason), w1)))"

definition admit_stream :: "'w serveEnv \<Rightarrow> streamRequest \<Rightarrow> (StreamClaims, 'w) rw" where
  "admit_stream env r =
     bindE (sv_clock env) (\<lambda>t.
     bindE (rw_try 401 ''unauthorized'' (\<lambda>w. (ValidateStream (sv_jwt env) (sv_secret env) t (sq_token r), w))) (\<lambda>claims.
     bindE (rw_guard (CanAccess claims (sq_scheduleID r) (sq_streamType r)) 403 ''forbidden: wrong schedule or stream type'') (\<lambda>_.
     bindE (exam_access env (sq_scheduleID r) (st_CandidateID claims) (st_SessionID claims) (sq_streamType r)) (\<lambda>_ w.
       (Inr claims, w)))))"

section \<open>Binding and adoption\<close>

definition BindSignaling :: "'w serveEnv \<Rightarrow> nat \<Rightarrow> string \<Rightarrow> (nat option, 'w) hubOp" where
  "BindSignaling env conn p = (\<lambda>(hub, w).
     case sv_done env p w of
       (True, w1) \<Rightarrow> (None, hub, w1)
     | (False, w1) \<Rightarrow> (case bind_locked conn (hb_signal hub p) of
         (gen, sg) \<Rightarrow> (Some gen, hub\<lparr>hb_signal := (hb_signal hub)(p := sg)\<rparr>, w1)))"

definition adoptPeer :: "'w serveEnv \<Rightarrow> nat \<Rightarrow> string \<Rightarrow> string \<Rightarrow> string \<Rightarrow> string \<Rightarrow> (streamOutcome option, 'w) hubOp" where
  "adoptPeer env conn scheduleID participantID streamType resumeStreamID = (\<lambda>(hub, w).
     case SessionGet scheduleID participantID streamType (hb_sessions hub) of
       None \<Rightarrow> (None, hub, w)
     | Some p \<Rightarrow>
         if p \<noteq> resumeStreamID then (None, hub, w)
         else (case sv_done env p w of
             (True, w1) \<Rightarrow> (None, hub, w1)
           | (False, w1) \<Rightarrow> (case BindSignaling env conn p (hub, w1) of
               (None, s) \<Rightarrow> (None, s) | (Some gen, s) \<Rightarrow> (Some (Resumed p gen), s))))"

definition releaseSignaling :: "'w serveEnv \<Rightarrow> string \<Rightarrow> nat \<Rightarrow> (bool, 'w) hubOp" where
  "releaseSignaling env p gen = (\<lambda>(hub, w).
     case sv_done env p w of
       (True, w1) \<Rightarrow> (False, hub, w1)
     | (False, w1) \<Rightarrow> (case release_locked gen (hb_signal hub p) of
         (b, sg) \<Rightarrow> (b, hub\<lparr>hb_signal := (hb_signal hub)(p := sg)\<rparr>, w1)))"

section \<open>A new stream\<close>

definition schedule_entry :: "streamRequest \<Rightarrow> StreamClaims \<Rightarrow> string \<Rightarrow> instant \<Rightarrow> ScheduleStream" where
  "schedule_entry r claims p startedAt =
     \<lparr>ScheduleStream.ss_StreamID = p, ScheduleStream.ss_ScheduleID = sq_scheduleID r, ScheduleStream.ss_SessionID = st_SessionID claims,
      ScheduleStream.ss_ParticipantID = st_CandidateID claims, ScheduleStream.ss_StreamType = sq_streamType r,
      ScheduleStream.ss_StartedAt = startedAt, ss_EndedAt = None\<rparr>"

definition pending_entry :: "streamRequest \<Rightarrow> StreamClaims \<Rightarrow> string \<Rightarrow> instant \<Rightarrow> PendingAssembly" where
  "pending_entry r claims p now =
     \<lparr>pa_StreamID = p, pa_ScheduleID = sq_scheduleID r, pa_SessionID = st_SessionID claims, pa_ParticipantID = st_CandidateID claims,
      pa_StreamType = sq_streamType r, DueAt = webrtcAssemblyDueAt claims now, Attempts = 0, Source = AssemblySourceWebRTC\<rparr>"

definition start_stream :: "'w serveEnv \<Rightarrow> streamRequest \<Rightarrow> StreamClaims \<Rightarrow> (streamOutcome, 'w) hubOp" where
  "start_stream env r claims = (\<lambda>(hub, w).
     case sv_newPeer env w of
       (None, w1) \<Rightarrow> (PeerFailed, hub, w1)
     | (Some (p, startedAt), w1) \<Rightarrow>
         (case Record (sv_exec env) (schedule_entry r claims p startedAt) w1 of (_, w2) \<Rightarrow>
          case sv_now env w2 of (t, w3) \<Rightarrow>
          case Schedule (sv_exec env) (pending_entry r claims p t) w3 of (_, w4) \<Rightarrow>
          case SessionReplace (sq_scheduleID r) (st_CandidateID claims) (sq_streamType r) p (hb_sessions hub) of (old, m) \<Rightarrow>
          case BindSignaling env (sq_conn r) p (hub\<lparr>hb_sessions := m\<rparr>, w4) of
            (None, s) \<Rightarrow> (DeadPeer p old, s)
          | (Some gen, s) \<Rightarrow> (Ready p gen old, s)))"

text \<open>The goroutine that waits for the end of the stream.\<close>

definition reap_stream :: "'w serveEnv \<Rightarrow> string \<Rightarrow> string \<Rightarrow> string \<Rightarrow> string \<Rightarrow> (unit, 'w) hubOp" where
  "reap_stream env scheduleID participantID streamType p = (\<lambda>(hub, w).
     case sv_now env w of (t, w1) \<Rightarrow>
     case MarkEnded (sv_exec env) scheduleID p t w1 of (_, w2) \<Rightarrow>
       ((), hub\<lparr>hb_sessions := RemoveIfSame scheduleID participantID streamType p (hb_sessions hub)\<rparr>, w2))"

definition ServeStream :: "'w serveEnv \<Rightarrow> streamRequest \<Rightarrow> (streamOutcome, 'w) hubOp" where
  "ServeStream env r = (\<lambda>(hub, w).
     case admit_stream env r w of
       (Inl e, w1) \<Rightarrow> (Refused e, hub, w1)
     | (Inr claims, w1) \<Rightarrow>
       (case sv_upgrade env w1 of
          (False, w2) \<Rightarrow> (NotUpgraded, hub, w2)
        | (True, w2) \<Rightarrow>
          if sq_resumeStreamID r = [] then start_stream env r claims (hub, w2)
          else (case adoptPeer env (sq_conn r) (sq_scheduleID r) (st_CandidateID claims) (sq_streamType r) (sq_resumeStreamID r) (hub, w2) of
              (Some adopted, s) \<Rightarrow> (adopted, s)
            | (None, s) \<Rightarrow> start_stream env r claims s)))"


section \<open>What admission requires\<close>

text \<open>A token of the candidate valid at some moment of the request, for that schedule and stream type, and the consent of the exam service.\<close>

definition may_stream :: "'w serveEnv \<Rightarrow> streamRequest \<Rightarrow> StreamClaims \<Rightarrow> bool" where
  "may_stream env r claims \<longleftrightarrow>
     (\<exists>t. ValidateStream (sv_jwt env) (sv_secret env) t (sq_token r) = Inr claims)
     \<and> CanAccess claims (sq_scheduleID r) (sq_streamType r)
     \<and> (\<forall>validateAccess. sv_exam env = Some validateAccess \<longrightarrow>
          (\<exists>w reason. fst (validateAccess (sq_scheduleID r) (st_CandidateID claims) (st_SessionID claims) (sq_streamType r) w) = Some (True, reason)))"

lemma sv_clock_iff [simp]: "sv_clock env w = (Inr t, w') \<longleftrightarrow> sv_now env w = (t, w')"
  by (auto simp: sv_clock_def split: prod.splits)

lemma exam_access_ok:
  assumes "exam_access env a b c d w = (Inr (), w')"
  shows "\<forall>f. sv_exam env = Some f \<longrightarrow> (\<exists>w reason. fst (f a b c d w) = Some (True, reason))"
proof (intro allI impI)
  fix f assume f: "sv_exam env = Some f"
  obtain x w1 where e: "f a b c d w = (x, w1)" by fastforce
  then have "\<exists>reason. x = Some (True, reason)"
    using assms f by (auto simp: exam_access_def split: option.splits if_splits)
  with e show "\<exists>w reason. fst (f a b c d w) = Some (True, reason)" by (metis fst_conv)
qed

lemma admit_stream_ok:
  assumes "admit_stream env r w = (Inr claims, w')"
  shows "may_stream env r claims"
  using assms exam_access_ok unfolding admit_stream_def may_stream_def by (fastforce simp: bindE_Inr_iff)

text \<open>What the outside world does to the registries meanwhile: nothing.\<close>

definition harmless_serve :: "'w serveEnv \<Rightarrow> ('w \<Rightarrow> keyspace) \<Rightarrow> bool" where
  "harmless_serve env view \<longleftrightarrow>
     (\<forall>w. view (snd (sv_now env w)) = view w \<and> view (snd (sv_upgrade env w)) = view w \<and> view (snd (sv_newPeer env w)) = view w)
     \<and> (\<forall>p w. view (snd (sv_done env p w)) = view w)
     \<and> (\<forall>f a b c d w. sv_exam env = Some f \<longrightarrow> view (snd (f a b c d w)) = view w)"

lemma harmlessD:
  assumes "harmless_serve env view"
  shows "sv_now env w = (t, w') \<Longrightarrow> view w' = view w" and "sv_upgrade env w = (b, w') \<Longrightarrow> view w' = view w"
    and "sv_newPeer env w = (x, w') \<Longrightarrow> view w' = view w" and "sv_done env p w = (b, w') \<Longrightarrow> view w' = view w"
    and "sv_exam env = Some f \<Longrightarrow> f a b1 c d w = (y, w') \<Longrightarrow> view w' = view w"
  using assms unfolding harmless_serve_def by (metis snd_conv)+

lemma exam_access_view:
  assumes "harmless_serve env view" and "exam_access env a b c d w = (x, w')"
  shows "view w' = view w"
  using assms(2) harmlessD(5) [OF assms(1)]
  by (auto simp: exam_access_def split: option.splits prod.splits if_splits)

lemma admit_stream_view:
  assumes "harmless_serve env view" and "admit_stream env r w = (Inr claims, w')"
  shows "view w' = view w"
  using assms(2) harmlessD(1) [OF assms(1)] exam_access_view [OF assms(1)]
  unfolding admit_stream_def by (fastforce simp: bindE_Inr_iff)

lemma adopt_iff:
  "adoptPeer env conn sch par ty resume (hub, w) = (Some out, hub', w') \<longleftrightarrow>
     (\<exists>w1. SessionGet sch par ty (hb_sessions hub) = Some resume \<and> sv_done env resume w = (False, w1) \<and> sv_done env resume w1 = (False, w')
        \<and> out = Resumed resume (sg_gen (hb_signal hub resume) + 1)
        \<and> hub' = hub\<lparr>hb_signal := (hb_signal hub)(resume := snd (bind_locked conn (hb_signal hub resume)))\<rparr>)"
  by (auto simp: adoptPeer_def BindSignaling_def bind_locked_def split: option.splits prod.splits bool.splits if_splits)

lemma adopt_none:
  "adoptPeer env conn sch par ty resume (hub, w) = (None, hub', w') \<Longrightarrow> hub' = hub"
  by (auto simp: adoptPeer_def BindSignaling_def bind_locked_def split: option.splits prod.splits bool.splits if_splits)

lemma adopt_view:
  assumes "harmless_serve env view" and "adoptPeer env conn sch par ty resume (hub, w) = (x, hub', w')"
  shows "view w' = view w"
  using assms(2) harmlessD(4) [OF assms(1)]
  by (auto simp: adoptPeer_def BindSignaling_def bind_locked_def split: option.splits prod.splits bool.splits if_splits)

lemma start_outcome:
  "fst (start_stream env r claims s) \<noteq> Resumed p g"
  by (cases s) (auto simp: start_stream_def BindSignaling_def split: option.splits prod.splits bool.splits)

text \<open>C23.  A client that resumes gets a socket and nothing else: its token must admit it, the stream it names must be the one
  registered for its own candidate, schedule and stream type, and all that changes is the binding of that stream, which
  gets a higher generation and loses its grace timer; sessions and registries stay as they are.\<close>

theorem resume_adds_only_a_socket:
  assumes "ServeStream env r (hub, w) = (Resumed p g, hub', w')" and "harmless_serve env view"
  shows "(\<exists>claims. may_stream env r claims \<and> SessionGet (sq_scheduleID r) (st_CandidateID claims) (sq_streamType r) (hb_sessions hub) = Some p)
    \<and> p = sq_resumeStreamID r \<and> g = sg_gen (hb_signal hub p) + 1
    \<and> hub' = hub\<lparr>hb_signal := (hb_signal hub)(p := \<lparr>sg_conn = Some (sq_conn r), sg_gen = g, sg_timer = None\<rparr>)\<rparr>
    \<and> view w' = view w"
proof -
  obtain claims w1 where a: "admit_stream env r w = (Inr claims, w1)"
    using assms(1) by (auto simp: ServeStream_def split: prod.splits sum.splits)
  obtain w2 where u: "sv_upgrade env w1 = (True, w2)"
    using assms(1) a by (auto simp: ServeStream_def split: prod.splits bool.splits)
  have n: "start_stream env r claims s \<noteq> (Resumed p g, hub', w')" for s
    using start_outcome [of env r claims s p g] by auto
  have ad: "adoptPeer env (sq_conn r) (sq_scheduleID r) (st_CandidateID claims) (sq_streamType r) (sq_resumeStreamID r) (hub, w2)
      = (Some (Resumed p g), hub', w')"
    using assms(1) a u n by (auto simp: ServeStream_def split: prod.splits option.splits if_splits)
  have v: "view w' = view w"
    using admit_stream_view [OF assms(2) a] harmlessD(2) [OF assms(2) u] adopt_view [OF assms(2) ad] by simp
  show ?thesis
    using ad admit_stream_ok [OF a] v unfolding adopt_iff by (auto simp: bind_locked_def)
qed


section \<open>A new stream is on record before its media\<close>

lemma pipeline_frame:
  "redis_conforms exec view \<Longrightarrow> pipeline exec cs w = (b, w') \<Longrightarrow> (\<And>c. c \<in> set cs \<Longrightarrow> k \<noteq> cmd_key c) \<Longrightarrow> view w' k = view w k"
proof (induction cs arbitrary: w b)
  case (Cons c cs)
  obtain r w1 where e: "exec c w = (r, w1)" by fastforce
  obtain b1 where p: "pipeline exec cs w1 = (b1, w')" using Cons.prems(2) e by (auto split: prod.splits)
  have "view w1 k = view w k" using exec_frame [OF Cons.prems(1) e] Cons.prems(3) by simp
  moreover have "view w' k = view w1 k" using Cons.IH [OF Cons.prems(1) p] Cons.prems(3) by simp
  ultimately show ?case by simp
qed simp

lemma Schedule_keeps_index:
  assumes "redis_conforms exec view" and "Schedule exec p w = (x, w')"
  shows "stored dec_schedule_stream (view w') (scheduleStreamKey sch) f = stored dec_schedule_stream (view w) (scheduleStreamKey sch) f"
proof -
  obtain b where b: "pipeline exec [ZADD pendingAssemblyDueKey (unix_secs (DueAt p)) (pa_StreamID p), EXPIRE pendingAssemblyDueKey pendingAssemblyTTL,
      SET (pendingAssemblyKey (pa_StreamID p)) (Doc (enc_pending p)) (TTL pendingAssemblyTTL)] w = (b, w')"
    using assms(2) by (auto simp: Schedule_def Let_def simp del: pipeline.simps split: prod.splits)
  have "view w' (scheduleStreamKey sch) = view w (scheduleStreamKey sch)"
    by (rule pipeline_frame [OF assms(1) b])
      (auto simp: scheduleStreamKey_def pendingAssemblyDueKey_def pendingAssemblyKey_def)
  then show ?thesis by (simp add: stored_def the_hash_def)
qed

lemma start_new:
  assumes "start_stream env r claims (hub, w) = (out, hub', w')" and "out = Ready p g old \<or> out = DeadPeer p old"
    and "redis_conforms (sv_exec env) view" and "harmless_serve env view" and "p \<noteq> ''due''"
  shows "\<exists>startedAt t wr rr wr' wp rp wp'. Record (sv_exec env) (schedule_entry r claims p startedAt) wr = (rr, wr')
      \<and> Schedule (sv_exec env) (pending_entry r claims p t) wp = (rp, wp')
      \<and> view wr = view w \<and> view wp = view wr' \<and> view w' = view wp'
      \<and> (rr = Inr () \<longrightarrow> stored dec_schedule_stream (view w') (scheduleStreamKey (sq_scheduleID r)) p = Some (schedule_entry r claims p startedAt))
      \<and> (rp = Inr () \<longrightarrow> pending_of (view w') p = Some (pending_entry r claims p t))"
    and "SessionGet (sq_scheduleID r) (st_CandidateID claims) (sq_streamType r) (hb_sessions hub') = Some p"
    and "old = SessionGet (sq_scheduleID r) (st_CandidateID claims) (sq_streamType r) (hb_sessions hub)"
proof -
  obtain startedAt w1 where n: "sv_newPeer env w = (Some (p, startedAt), w1)"
    using assms(1,2) by (auto simp: start_stream_def split: prod.splits option.splits)
  obtain rr w2 where rr: "Record (sv_exec env) (schedule_entry r claims p startedAt) w1 = (rr, w2)" by fastforce
  obtain t w3 where t: "sv_now env w2 = (t, w3)" by fastforce
  obtain rp w4 where rp: "Schedule (sv_exec env) (pending_entry r claims p t) w3 = (rp, w4)" by fastforce
  obtain d w5 where d: "sv_done env p w4 = (d, w5)" by fastforce
  have b: "w' = w5" "old = map_of (hb_sessions hub) (sq_scheduleID r, st_CandidateID claims, sq_streamType r)"
    "hb_sessions hub' = AList.update (sq_scheduleID r, st_CandidateID claims, sq_streamType r) p (hb_sessions hub)"
    using assms(1,2) n rr t rp d by (auto simp: start_stream_def SessionReplace_def BindSignaling_def bind_locked_def Let_def split: bool.splits)
  have v: "view w5 = view w4" "view w3 = view w2" using harmlessD(4) [OF assms(4) d] harmlessD(1) [OF assms(4) t] by simp_all
  have "stored dec_schedule_stream (view w') (scheduleStreamKey (sq_scheduleID r)) p = Some (schedule_entry r claims p startedAt)" if "rr = Inr ()"
    using schedule_record_spec [OF assms(3), of "schedule_entry r claims p startedAt" w1 w2] rr that
      Schedule_keeps_index [OF assms(3) rp] v b(1) by (simp add: schedule_entry_def)
  moreover have "pending_of (view w') p = Some (pending_entry r claims p t)" if "rp = Inr ()"
    using schedule_spec [OF assms(3), of "pending_entry r claims p t" w3 w4] rp that assms(5) v b(1) by (simp add: pending_entry_def)
  ultimately show "\<exists>startedAt t wr rr wr' wp rp wp'. Record (sv_exec env) (schedule_entry r claims p startedAt) wr = (rr, wr')
      \<and> Schedule (sv_exec env) (pending_entry r claims p t) wp = (rp, wp')
      \<and> view wr = view w \<and> view wp = view wr' \<and> view w' = view wp'
      \<and> (rr = Inr () \<longrightarrow> stored dec_schedule_stream (view w') (scheduleStreamKey (sq_scheduleID r)) p = Some (schedule_entry r claims p startedAt))
      \<and> (rp = Inr () \<longrightarrow> pending_of (view w') p = Some (pending_entry r claims p t))"
    using rr rp v b(1) harmlessD(3) [OF assms(4) n] by metis
  show "SessionGet (sq_scheduleID r) (st_CandidateID claims) (sq_streamType r) (hb_sessions hub') = Some p"
    "old = SessionGet (sq_scheduleID r) (st_CandidateID claims) (sq_streamType r) (hb_sessions hub)"
    using b by (simp_all add: SessionGet_def update_conv')
qed

lemma served_new:
  assumes "ServeStream env r (hub, w) = (out, hub', w')" and "out = Ready p g old \<or> out = DeadPeer p old"
  obtains claims w1 where "may_stream env r claims" and "start_stream env r claims (hub, w1) = (out, hub', w')"
    and "harmless_serve env view \<Longrightarrow> view w1 = view w"
proof -
  obtain claims w1 where a: "admit_stream env r w = (Inr claims, w1)"
    using assms by (auto simp: ServeStream_def split: prod.splits sum.splits)
  obtain w2 where u: "sv_upgrade env w1 = (True, w2)"
    using assms a by (auto simp: ServeStream_def split: prod.splits bool.splits)
  have v: "view w2 = view w" if "harmless_serve env view"
    using admit_stream_view [OF that a] harmlessD(2) [OF that u] by simp
  show thesis
  proof (cases "sq_resumeStreamID r = []")
    case True
    then show thesis using that [OF admit_stream_ok [OF a] _ v] assms(1) a u by (simp add: ServeStream_def)
  next
    case False
    obtain ad h3 w3 where ad: "adoptPeer env (sq_conn r) (sq_scheduleID r) (st_CandidateID claims) (sq_streamType r) (sq_resumeStreamID r) (hub, w2)
        = (ad, h3, w3)" by (metis prod_cases3)
    show thesis
    proof (cases ad)
      case None
      then have "h3 = hub" using adopt_none ad by fastforce
      have v3: "view w3 = view w" if "harmless_serve env view" using adopt_view [OF that ad] v that by simp
      show thesis using that [OF admit_stream_ok [OF a] _ v3] assms(1) a u False ad None \<open>h3 = hub\<close> by (simp add: ServeStream_def)
    next
      case (Some x)
      then have "x = out" using assms(1) a u False ad by (simp add: ServeStream_def)
      then show thesis using ad Some assms(2) by (auto simp: adopt_iff)
    qed
  qed
qed

text \<open>C15.  A new stream is on record before its first media: it is the registered one for its key, and when Redis took the two
  writes it is in its schedule's index and armed for assembly, with all the candidate's identifiers.  The assembly falls due no
  earlier than thirty-two minutes after the request, after the end of the token and after the end of the schedule.\<close>

theorem new_stream_armed:
  assumes "ServeStream env r (hub, w) = (out, hub', w')" and "out = Ready p g old \<or> out = DeadPeer p old"
    and "redis_conforms (sv_exec env) view" and "harmless_serve env view" and "p \<noteq> ''due''"
  shows "\<exists>claims. may_stream env r claims
    \<and> SessionGet (sq_scheduleID r) (st_CandidateID claims) (sq_streamType r) (hb_sessions hub') = Some p
    \<and> old = SessionGet (sq_scheduleID r) (st_CandidateID claims) (sq_streamType r) (hb_sessions hub)
    \<and> (\<exists>startedAt t wr rr wr' wp rp wp'. Record (sv_exec env) (schedule_entry r claims p startedAt) wr = (rr, wr')
        \<and> Schedule (sv_exec env) (pending_entry r claims p t) wp = (rp, wp')
        \<and> view wr = view w \<and> view wp = view wr' \<and> view w' = view wp'
        \<and> (rr = Inr () \<longrightarrow> stored dec_schedule_stream (view w') (scheduleStreamKey (sq_scheduleID r)) p = Some (schedule_entry r claims p startedAt))
        \<and> (rp = Inr () \<longrightarrow> pending_of (view w') p = Some (pending_entry r claims p t))
        \<and> t + 32 * minute \<le> DueAt (pending_entry r claims p t)
        \<and> (\<forall>e. rc_ExpiresAt claims = Some e \<or> ScheduleEnd claims = Some e \<longrightarrow> e + 32 * minute \<le> DueAt (pending_entry r claims p t)))"
proof -
  obtain claims w1 where c: "may_stream env r claims" "start_stream env r claims (hub, w1) = (out, hub', w')"
    and v: "view w1 = view w"
    using served_new [OF assms(1,2), where view = view] assms(4) by metis
  have "t + 32 * minute \<le> DueAt (pending_entry r claims p t)
    \<and> (\<forall>e. rc_ExpiresAt claims = Some e \<or> ScheduleEnd claims = Some e \<longrightarrow> e + 32 * minute \<le> DueAt (pending_entry r claims p t))" for t
    using due_not_early [where claims = claims and now = t] by (auto simp: pending_entry_def webrtcAssemblyGrace_def)
  with start_new [OF c(2) assms(2-5)] c(1) show ?thesis unfolding v by metis
qed


text \<open>A server whose world is the key space of the reference Redis, at time 0.\<close>

definition sv_demo :: "keyspace serveEnv" where
  "sv_demo = \<lparr>sv_now = (\<lambda>w. (0, w)), sv_jwt = demo_jwt, sv_uuidOK = (\<lambda>_. True), sv_secret = ''key'',
     sv_exam = Some (\<lambda>_ _ _ _ w. (Some (True, []), w)), sv_upgrade = (\<lambda>w. (True, w)), sv_newPeer = (\<lambda>w. (Some (''s9'', 1), w)),
     sv_done = (\<lambda>_ w. (False, w)), sv_exec = mem_exec\<rparr>"

definition sv_request :: "string \<Rightarrow> streamRequest" where
  "sv_request resume = \<lparr>sq_scheduleID = ''d'', sq_streamType = ''camera'', sq_token = ''good'', sq_resumeStreamID = resume, sq_conn = 5\<rparr>"

definition sv_hub :: hub where
  "sv_hub = \<lparr>hb_sessions = [((''d'', ''c'', ''camera''), ''s8'')], hb_signal = (\<lambda>p. if p = ''s8'' then \<lparr>sg_conn = None, sg_gen = 1, sg_timer = Some 1\<rparr> else sg_start)\<rparr>"

lemma sv_demo_harmless: "harmless_serve sv_demo id"
  by (simp add: harmless_serve_def sv_demo_def)

lemma sv_demo_admits:
  "\<exists>claims. admit_stream sv_demo (sv_request resume) w = (Inr claims, w) \<and> st_CandidateID claims = ''c'' \<and> st_SessionID claims = ''s''
     \<and> rc_ExpiresAt claims = Some (2000 * second) \<and> st_ScheduleEndAt claims = 3000"
proof -
  obtain c where c: "ValidateStream demo_jwt ''key'' 0 ''good'' = Inr c" "rc_ExpiresAt c = Some (2000 * second)" "st_ScheduleEndAt c = 3000"
    "st_StreamTypes c = [''camera'']" "st_ScheduleID c = ''d''" "st_SessionID c = ''s''" "st_CandidateID c = ''c''"
    using demo_validates by metis
  have "CanAccess c ''d'' ''camera''" using c by (simp add: CanAccess_def CanStream_def)
  then have "admit_stream sv_demo (sv_request resume) w = (Inr c, w)"
    using c(1) by (simp add: admit_stream_def bindE_Inr_iff exam_access_def sv_demo_def sv_request_def)
  with c show ?thesis by blast
qed

lemma resume_adds_only_a_socket_witness:
  "\<exists>hub'. ServeStream sv_demo (sv_request ''s8'') (sv_hub, Map.empty) = (Resumed ''s8'' 2, hub', Map.empty)
     \<and> hb_signal hub' ''s8'' = \<lparr>sg_conn = Some 5, sg_gen = 2, sg_timer = None\<rparr>"
proof -
  obtain c where a: "admit_stream sv_demo (sv_request ''s8'') Map.empty = (Inr c, Map.empty)" "st_CandidateID c = ''c''"
    using sv_demo_admits by metis
  have ad: "adoptPeer sv_demo 5 ''d'' ''c'' ''camera'' ''s8'' (sv_hub, Map.empty) = (Some (Resumed ''s8'' 2),
      sv_hub\<lparr>hb_signal := (hb_signal sv_hub)(''s8'' := snd (bind_locked 5 (hb_signal sv_hub ''s8'')))\<rparr>, Map.empty)"
    unfolding adopt_iff by (simp add: SessionGet_def sv_demo_def sv_hub_def)
  have q: "sq_conn (sv_request ''s8'') = 5" "sq_scheduleID (sv_request ''s8'') = ''d''" "sq_streamType (sv_request ''s8'') = ''camera''"
    "sq_resumeStreamID (sv_request ''s8'') = ''s8''" "sv_upgrade sv_demo v = (True, v)" for v
    by (simp_all add: sv_request_def sv_demo_def)
  obtain hub' where s: "ServeStream sv_demo (sv_request ''s8'') (sv_hub, Map.empty) = (Resumed ''s8'' 2, hub', Map.empty)"
    by (simp add: ServeStream_def a q ad)
  have "hb_signal hub' ''s8'' = \<lparr>sg_conn = Some 5, sg_gen = 2, sg_timer = None\<rparr>"
    using resume_adds_only_a_socket [OF s sv_demo_harmless] q(1) by auto
  with s show ?thesis by blast
qed

lemma new_stream_armed_witness:
  "\<exists>hub' w' claims t wp rp wp'. ServeStream sv_demo (sv_request []) (sv_hub, Map.empty) = (Ready ''s9'' 1 (Some ''s8''), hub', w')
     \<and> SessionGet ''d'' ''c'' ''camera'' (hb_sessions hub') = Some ''s9''
     \<and> Schedule mem_exec (pending_entry (sv_request []) claims ''s9'' t) wp = (rp, wp') \<and> t + 32 * minute \<le> DueAt (pending_entry (sv_request []) claims ''s9'' t)"
proof -
  obtain c where a: "admit_stream sv_demo (sv_request []) Map.empty = (Inr c, Map.empty)" "st_CandidateID c = ''c''"
    using sv_demo_admits by metis
  have q: "sq_conn (sv_request []) = 5" "sq_scheduleID (sv_request []) = ''d''" "sq_streamType (sv_request []) = ''camera''"
    "sq_resumeStreamID (sv_request []) = []" "sv_upgrade sv_demo v = (True, v)" "sv_exec sv_demo = mem_exec" for v
    by (simp_all add: sv_request_def sv_demo_def)
  have g: "SessionGet ''d'' ''c'' ''camera'' (hb_sessions sv_hub) = Some ''s8''" by (simp add: SessionGet_def sv_hub_def)
  obtain rr w2 where rr: "Record mem_exec (schedule_entry (sv_request []) c ''s9'' 1) Map.empty = (rr, w2)" by fastforce
  obtain rp w4 where rp: "Schedule mem_exec (pending_entry (sv_request []) c ''s9'' 0) w2 = (rp, w4)" by fastforce
  obtain hub' w' where "start_stream sv_demo (sv_request []) c (sv_hub, Map.empty) = (Ready ''s9'' 1 (Some ''s8''), hub', w')"
    using rr rp by (simp add: start_stream_def sv_demo_def q(1-4) a(2) SessionReplace_def Let_def BindSignaling_def bind_locked_def
        sv_hub_def sg_start_def)
  then have s: "ServeStream sv_demo (sv_request []) (sv_hub, Map.empty) = (Ready ''s9'' 1 (Some ''s8''), hub', w')"
    by (simp add: ServeStream_def a q)
  have n: "''s9'' \<noteq> ''due''" by simp
  have c': "redis_conforms (sv_exec sv_demo) id" using mem_conforms q(6) by simp
  from new_stream_armed [OF s _ c' sv_demo_harmless n, of 1 "Some ''s8''"]
  obtain claims where m: "may_stream sv_demo (sv_request []) claims"
      "SessionGet (sq_scheduleID (sv_request [])) (st_CandidateID claims) (sq_streamType (sv_request [])) (hb_sessions hub') = Some ''s9''"
      "\<exists>t wp rp wp'. Schedule mem_exec (pending_entry (sv_request []) claims ''s9'' t) wp = (rp, wp')
         \<and> t + 32 * minute \<le> DueAt (pending_entry (sv_request []) claims ''s9'' t)"
    unfolding q(6) by blast
  have "st_CandidateID claims = ''c''"
  proof -
    obtain t where "ValidateStream demo_jwt ''key'' t ''good'' = Inr claims"
      using m(1) by (auto simp: may_stream_def sv_demo_def sv_request_def)
    then show ?thesis
      by (auto simp: ValidateStream_def parse_def demo_jwt_def hmac_only_def demo_claims_def dec_stream_claims_def dec_registered_def
        dec_exp_def dec_defs dec_strings_def TokenUseStream_def RegisteredClaims.extend_def StreamClaims.fields_def split: if_splits)
  qed
  with m s show ?thesis unfolding q by metis
qed


section \<open>A monitor's connection\<close>

record monitorRequest =
  mq_scheduleID :: string
  mq_token :: string

text \<open>Admission; the deadline of the connection is the end of the token.\<close>

definition admit_monitor :: "'w serveEnv \<Rightarrow> monitorRequest \<Rightarrow> (MonitorClaims \<times> instant, 'w) rw" where
  "admit_monitor env r =
     bindE (rw_guard (mq_scheduleID r \<noteq> []) 400 ''missing scheduleId'') (\<lambda>_.
     bindE (sv_clock env) (\<lambda>t.
     bindE (rw_try 401 ''unauthorized'' (\<lambda>w. (ValidateMonitor (sv_jwt env) (sv_uuidOK env) (sv_secret env) t (mq_token r), w))) (\<lambda>claims.
     bindE (rw_guard (CanMonitorSchedule claims (mq_scheduleID r)) 403 ''forbidden'') (\<lambda>_.
     bindE (rw_some 401 ''token expired'' (rc_ExpiresAt claims)) (\<lambda>expiresAt.
     bindE (sv_clock env) (\<lambda>t1.
     bindE (rw_guard (expiresAt > t1) 401 ''token expired'') (\<lambda>_ w. (Inr (claims, expiresAt), w))))))))"

datatype MonitorMessage = SnapshotMsg "StreamInfo list" | FrameMsg FrameNotification | ParticipantMsg ParticipantEvent | AlertMsg AlertEvent

definition newSnapshotMessage :: "StreamInfo list option \<Rightarrow> MonitorMessage" where
  "newSnapshotMessage streams = SnapshotMsg (case streams of None \<Rightarrow> [] | Some s \<Rightarrow> s)"

text \<open>
  What the \<open>select\<close> of the loop can take: the end of the context, a tick with the snapshot it got, an item of a channel or its
  close.  \<open>SourceEnded\<close> is a subscription to a session's alerts that fails; the loop does not see it.  The last component says
  whether a write succeeds.
\<close>

datatype monitorEvent = CtxDone | SnapshotTick "scanError + StreamInfo list" bool | FrameIn "FrameNotification option" bool
  | ParticipantIn "ParticipantEvent option" bool | AlertIn AlertEvent bool | SourceEnded string

record monitorConn =
  mc_open :: bool
  mc_seen :: "string list"
  mc_sources :: "string list"

definition subscribeSession :: "string \<Rightarrow> monitorConn \<Rightarrow> monitorConn" where
  "subscribeSession sessionID c =
     (if sessionID = [] then c
      else if sessionID \<in> set (mc_seen c) then c
      else c\<lparr>mc_seen := mc_seen c @ [sessionID], mc_sources := mc_sources c @ [sessionID]\<rparr>)"

definition subscribe_all :: "StreamInfo list \<Rightarrow> monitorConn \<Rightarrow> monitorConn" where
  "subscribe_all streams c = fold (\<lambda>s. subscribeSession (in_SessionID s)) streams c"

text \<open>The first snapshot is written whether or not it could be read, and the result of that write is not looked at.\<close>

definition monitor_start :: "scanError + StreamInfo list \<Rightarrow> MonitorMessage list \<times> monitorConn" where
  "monitor_start snapshot =
     (let c = \<lparr>mc_open = True, mc_seen = [], mc_sources = []\<rparr> in case snapshot of
        Inl _ \<Rightarrow> ([newSnapshotMessage None], c)
      | Inr streams \<Rightarrow> ([newSnapshotMessage (Some streams)], subscribe_all streams c))"

definition write_message :: "MonitorMessage \<Rightarrow> bool \<Rightarrow> monitorConn \<Rightarrow> MonitorMessage list \<times> monitorConn" where
  "write_message m ok c = (if ok then ([m], c) else ([], c\<lparr>mc_open := False\<rparr>))"

definition monitor_step :: "monitorConn \<Rightarrow> monitorEvent \<Rightarrow> MonitorMessage list \<times> monitorConn" where
  "monitor_step c e =
     (case e of SourceEnded s \<Rightarrow> ([], c\<lparr>mc_sources := removeAll s (mc_sources c)\<rparr>)
      | _ \<Rightarrow> if \<not> mc_open c then ([], c) else (case e of
        CtxDone \<Rightarrow> ([], c\<lparr>mc_open := False\<rparr>)
      | SnapshotTick (Inl _) ok \<Rightarrow> ([], c)
      | SnapshotTick (Inr fresh) ok \<Rightarrow> write_message (newSnapshotMessage (Some fresh)) ok (subscribe_all fresh c)
      | FrameIn None ok \<Rightarrow> ([], c\<lparr>mc_open := False\<rparr>)
      | FrameIn (Some f) ok \<Rightarrow> write_message (FrameMsg f) ok c
      | ParticipantIn None ok \<Rightarrow> ([], c\<lparr>mc_open := False\<rparr>)
      | ParticipantIn (Some p) ok \<Rightarrow>
          write_message (ParticipantMsg p) ok (if pe_Type p = ParticipantJoined then subscribeSession (pe_SessionID p) c else c)
      | AlertIn a ok \<Rightarrow> write_message (AlertMsg a) ok c))"

section \<open>Alerts are routed once per session\<close>

text \<open>The sessions an event tells the loop about, while the connection is open.\<close>

definition told :: "monitorEvent \<Rightarrow> string set" where
  "told e = (case e of SnapshotTick (Inr fresh) _ \<Rightarrow> in_SessionID ` set fresh
     | ParticipantIn (Some p) _ \<Rightarrow> if pe_Type p = ParticipantJoined then {pe_SessionID p} else {} | _ \<Rightarrow> {})"

definition routed :: "string set \<Rightarrow> monitorConn \<Rightarrow> bool" where
  "routed known c \<longleftrightarrow> distinct (mc_seen c) \<and> distinct (mc_sources c) \<and> set (mc_seen c) = known - {[]} \<and> set (mc_sources c) \<subseteq> set (mc_seen c)"

lemma subscribe_routed: "routed known c \<Longrightarrow> routed (insert s known) (subscribeSession s c)"
  by (auto simp: routed_def subscribeSession_def)

lemma subscribe_open [simp]: "mc_open (subscribeSession s c) = mc_open c"
  by (simp add: subscribeSession_def)

lemma subscribe_all_routed: "routed known c \<Longrightarrow> routed (known \<union> in_SessionID ` set streams) (subscribe_all streams c)"
proof (induction streams arbitrary: known c)
  case (Cons s ss)
  from Cons.IH [OF subscribe_routed [OF Cons.prems, of "in_SessionID s"]] show ?case by (simp add: subscribe_all_def)
qed (simp add: subscribe_all_def)

lemma subscribe_all_open [simp]: "mc_open (subscribe_all streams c) = mc_open c"
  unfolding subscribe_all_def by (induction streams arbitrary: c) simp_all

lemma routed_open: "routed known (c\<lparr>mc_open := b\<rparr>) \<longleftrightarrow> routed known c"
  by (simp add: routed_def)

lemma write_routed: "write_message m ok c = (out, c') \<Longrightarrow> routed known c \<Longrightarrow> routed known c'"
  by (auto simp: write_message_def routed_open split: if_splits)

lemma monitor_step_routed:
  assumes "routed known c" and "monitor_step c e = (out, c')"
  shows "routed (if mc_open c then known \<union> told e else known) c'"
proof (cases e)
  case (SnapshotTick x ok)
  then show ?thesis using assms subscribe_all_routed [OF assms(1)]
    by (cases x) (auto simp: monitor_step_def told_def split: if_splits intro: write_routed)
next
  case (ParticipantIn x ok)
  then show ?thesis using assms subscribe_routed [OF assms(1)]
    by (cases x) (auto simp: monitor_step_def told_def routed_open split: if_splits intro: write_routed)
next
  case (FrameIn x ok)
  then show ?thesis using assms by (cases x) (auto simp: monitor_step_def told_def routed_open split: if_splits intro: write_routed)
next
  case (AlertIn a ok)
  then show ?thesis using assms by (auto simp: monitor_step_def told_def split: if_splits intro: write_routed)
next
  case CtxDone
  then show ?thesis using assms by (auto simp: monitor_step_def told_def routed_open split: if_splits)
next
  case (SourceEnded s)
  then show ?thesis using assms by (auto simp: monitor_step_def told_def routed_def distinct_removeAll)
qed


definition message_of :: "monitorEvent \<Rightarrow> MonitorMessage option" where
  "message_of e = (case e of SnapshotTick (Inr fresh) _ \<Rightarrow> Some (SnapshotMsg fresh) | FrameIn (Some f) _ \<Rightarrow> Some (FrameMsg f)
     | ParticipantIn (Some p) _ \<Rightarrow> Some (ParticipantMsg p) | AlertIn a _ \<Rightarrow> Some (AlertMsg a) | _ \<Rightarrow> None)"

lemma closed_stays: "monitor_step c e = (out, c') \<Longrightarrow> \<not> mc_open c \<Longrightarrow> \<not> mc_open c'"
  by (cases e) (auto simp: monitor_step_def)

lemma closed_stays_feed: "feed monitor_step c es = (out, c') \<Longrightarrow> \<not> mc_open c \<Longrightarrow> \<not> mc_open c'"
proof (induction es arbitrary: c out)
  case (Cons e es)
  then show ?case using closed_stays by (auto simp: Let_def split: prod.splits)
qed simp

lemma monitor_step_message:
  assumes "monitor_step c e = (out, c')" and "mc_open c'"
  shows "out = (case message_of e of None \<Rightarrow> [] | Some m \<Rightarrow> [m])"
  using assms
  by (cases e) (auto simp: monitor_step_def message_of_def write_message_def newSnapshotMessage_def
      split: if_splits sum.splits option.splits)

lemma monitor_feed:
  assumes "feed monitor_step c es = (out, c')" and "mc_open c'" and "routed known c"
  shows "routed (known \<union> (\<Union>e \<in> set es. told e)) c' \<and> out = List.map_filter message_of es"
  using assms
proof (induction es arbitrary: c known out)
  case (Cons e es)
  obtain o1 c1 o2 where s: "monitor_step c e = (o1, c1)" "feed monitor_step c1 es = (o2, c')" "out = o1 @ o2"
    using Cons.prems(1) by (auto simp: Let_def split: prod.splits)
  have o: "mc_open c1" "mc_open c"
    using closed_stays_feed [OF s(2)] closed_stays [OF s(1)] Cons.prems(2) by blast+
  have r: "routed (known \<union> told e) c1" using monitor_step_routed [OF Cons.prems(3) s(1)] o(2) by simp
  from Cons.IH [OF s(2) Cons.prems(2) r] monitor_step_message [OF s(1) o(1)] s(3)
  show ?case by (auto simp: map_filter_simps Un_assoc split: option.split)
qed (simp add: map_filter_simps)

text \<open>As long as a monitor's connection is open, every item that reaches it is passed on, in order, and the alerts of every session
  it has been told about -- in a snapshot, the first or a later one, or by somebody joining -- are subscribed to exactly once.\<close>

theorem monitor_told_everything:
  assumes "monitor_start snapshot = (first, c0)" and "feed monitor_step c0 es = (out, c)" and "mc_open c"
  shows "distinct (mc_seen c)
    \<and> set (mc_seen c) = ((case snapshot of Inr streams \<Rightarrow> in_SessionID ` set streams | Inl _ \<Rightarrow> {}) \<union> (\<Union>e \<in> set es. told e)) - {[]}
    \<and> first = [SnapshotMsg (case snapshot of Inr streams \<Rightarrow> streams | Inl _ \<Rightarrow> [])]
    \<and> out = List.map_filter message_of es"
proof -
  have e: "routed {} \<lparr>mc_open = True, mc_seen = [], mc_sources = []\<rparr>" by (simp add: routed_def)
  have r: "routed (case snapshot of Inr streams \<Rightarrow> in_SessionID ` set streams | Inl _ \<Rightarrow> {}) c0"
    using assms(1) e subscribe_all_routed [OF e] by (cases snapshot) (auto simp: monitor_start_def Let_def)
  have f: "first = [SnapshotMsg (case snapshot of Inr streams \<Rightarrow> streams | Inl _ \<Rightarrow> [])]"
    using assms(1) by (cases snapshot) (auto simp: monitor_start_def Let_def newSnapshotMessage_def)
  from monitor_feed [OF assms(2,3) r] f show ?thesis by (simp add: routed_def)
qed

lemma monitor_told_everything_witness:
  "\<exists>c. feed monitor_step (snd (monitor_start (Inl ScanFailed)))
      [ParticipantIn (Some demo_event) True, SnapshotTick (Inr []) True, ParticipantIn (Some demo_event) True] =
        ([ParticipantMsg demo_event, SnapshotMsg [], ParticipantMsg demo_event], c) \<and> distinct (mc_seen c)"
proof -
  let ?es = "[ParticipantIn (Some demo_event) True, SnapshotTick (Inr []) True, ParticipantIn (Some demo_event) True]"
  obtain c0 where m: "monitor_start (Inl ScanFailed) = ([SnapshotMsg []], c0)"
    by (simp add: monitor_start_def newSnapshotMessage_def)
  have o: "mc_open c0" using m by (auto simp: monitor_start_def)
  have p: "monitor_step d (ParticipantIn (Some demo_event) True) =
      ([ParticipantMsg demo_event], if pe_Type demo_event = ParticipantJoined then subscribeSession (pe_SessionID demo_event) d else d)"
    "monitor_step d (SnapshotTick (Inr []) True) = ([SnapshotMsg []], d)" if "mc_open d" for d
    using that by (auto simp: monitor_step_def write_message_def newSnapshotMessage_def subscribe_all_def)
  obtain out c where f: "feed monitor_step c0 ?es = (out, c)" "mc_open c"
    using o by (simp add: p)
  from monitor_told_everything [OF m f] f m show ?thesis
    by (auto simp: map_filter_simps message_of_def)
qed

text \<open>A subscription that failed is not opened again: the session is remembered as subscribed for as long as the connection lasts.\<close>

lemma failed_source_stays_dead:
  assumes "feed monitor_step c es = (out, c')" and "s \<in> set (mc_seen c)" and "s \<notin> set (mc_sources c)"
  shows "s \<in> set (mc_seen c') \<and> s \<notin> set (mc_sources c')"
proof -
  have one: "s \<in> set (mc_seen (subscribeSession x c)) \<and> s \<notin> set (mc_sources (subscribeSession x c))"
    if "s \<in> set (mc_seen c)" "s \<notin> set (mc_sources c)" for x c
    using that by (auto simp: subscribeSession_def)
  have all: "s \<in> set (mc_seen (subscribe_all l c)) \<and> s \<notin> set (mc_sources (subscribe_all l c))"
    if "s \<in> set (mc_seen c)" "s \<notin> set (mc_sources c)" for l c
    using that unfolding subscribe_all_def by (induction l arbitrary: c) (simp_all add: one)
  have w: "s \<in> set (mc_seen (snd (write_message m b c))) \<and> s \<notin> set (mc_sources (snd (write_message m b c)))"
    if "s \<in> set (mc_seen c)" "s \<notin> set (mc_sources c)" for m b c
    using that by (simp add: write_message_def)
  have step: "s \<in> set (mc_seen (snd (monitor_step c e))) \<and> s \<notin> set (mc_sources (snd (monitor_step c e)))"
    if "s \<in> set (mc_seen c)" "s \<notin> set (mc_sources c)" for c e
    using that by (cases e) (auto simp: monitor_step_def one all w split: sum.splits option.splits)
  show ?thesis
    using assms
  proof (induction es arbitrary: c out)
    case (Cons e es)
    obtain o1 c1 o2 where "monitor_step c e = (o1, c1)" "feed monitor_step c1 es = (o2, c')"
      using Cons.prems(1) by (auto simp: Let_def split: prod.splits)
    with Cons.IH step [OF Cons.prems(2,3), of e] show ?case by simp
  qed simp
qed


section \<open>ServeMonitor\<close>

datatype monitorOutcome = MonitorRefused rewindReply | MonitorNotUpgraded | Watched "MonitorMessage list"

text \<open>\<open>events\<close> is what the loop takes until the connection ends.\<close>

definition ServeMonitor :: "'w serveEnv \<Rightarrow> 'w liveEnv \<Rightarrow> monitorRequest \<Rightarrow> monitorEvent list \<Rightarrow> 'w \<Rightarrow> monitorOutcome \<times> 'w" where
  "ServeMonitor env lenv r events w =
     (case admit_monitor env r w of
        (Inl e, w1) \<Rightarrow> (MonitorRefused e, w1)
      | (Inr _, w1) \<Rightarrow> (case sv_upgrade env w1 of
          (False, w2) \<Rightarrow> (MonitorNotUpgraded, w2)
        | (True, w2) \<Rightarrow> (case GetScheduleSnapshot lenv (mq_scheduleID r) w2 of
            (snapshot, w3) \<Rightarrow> (case monitor_start snapshot of
              (first, c) \<Rightarrow> (Watched (first @ fst (feed monitor_step c events)), w3)))))"

lemma monitor_admitted:
  assumes "ServeMonitor env lenv r events w = (Watched msgs, w')"
  shows "\<exists>claims t t1 e. ValidateMonitor (sv_jwt env) (sv_uuidOK env) (sv_secret env) t (mq_token r) = Inr claims
    \<and> CanMonitorSchedule claims (mq_scheduleID r) \<and> rc_ExpiresAt claims = Some e \<and> t1 < e"
proof -
  obtain claims e w1 where "admit_monitor env r w = (Inr (claims, e), w1)"
    using assms by (auto simp: ServeMonitor_def split: prod.splits sum.splits)
  then show ?thesis by (auto simp: admit_monitor_def bindE_Inr_iff)
qed

end
