(* ===== verification/Negotiation.thy ===== *)
theory Negotiation
  imports Threads
begin

text \<open>
  What a signaling socket does with a peer: \<open>runSignaling\<close> of \<open>internal/transport/webrtc/handler.go\<close>, and \<open>HandleOffer\<close> and
  \<open>AddICECandidate\<close> of \<open>internal/transport/webrtc/peer.go\<close>, which two sockets of an adopted peer may run at the same time.  The
  peer connection of the WebRTC library is a parameter: the loop calls it, the interleavings let each of its calls
  succeed or fail.
\<close>

section \<open>The signaling loop\<close>

datatype signalMessage = MsgBye | MsgOffer string | MsgCandidate "string option" | MsgOther string

record 'w signalEnv =
  sn_handleOffer :: "string \<Rightarrow> 'w \<Rightarrow> string option \<times> 'w"
  sn_writeAnswer :: "string \<Rightarrow> 'w \<Rightarrow> bool \<times> 'w"
  sn_addCandidate :: "string \<Rightarrow> 'w \<Rightarrow> 'w"
  sn_close :: "'w \<Rightarrow> 'w"

datatype signalEnd = SocketEnded | SaidBye | OfferFailed | AnswerNotSent

text \<open>The messages are those read until \<open>ReadJSON\<close> fails.\<close>

fun runSignaling :: "'w signalEnv \<Rightarrow> signalMessage list \<Rightarrow> 'w \<Rightarrow> signalEnd \<times> 'w" where
  "runSignaling env [] w = (SocketEnded, w)"
| "runSignaling env (MsgBye # ms) w = (SaidBye, sn_close env w)"
| "runSignaling env (MsgOffer sdp # ms) w =
     (case sn_handleOffer env sdp w of
        (None, w1) \<Rightarrow> (OfferFailed, w1)
      | (Some answer, w1) \<Rightarrow> (case sn_writeAnswer env answer w1 of
          (False, w2) \<Rightarrow> (AnswerNotSent, w2) | (True, w2) \<Rightarrow> runSignaling env ms w2))"
| "runSignaling env (MsgCandidate c # ms) w =
     runSignaling env ms (case c of None \<Rightarrow> w | Some x \<Rightarrow> sn_addCandidate env x w)"
| "runSignaling env (MsgOther ty # ms) w = runSignaling env ms w"

text \<open>
  Only a bye closes the peer: a property of the world that offers, answers and candidates keep is still there
  when the loop ends in any other way.
\<close>

lemma only_bye_closes:
  assumes "runSignaling env ms w = (e, w')" and "I w"
    and "\<And>s v. I v \<Longrightarrow> I (snd (sn_handleOffer env s v))" and "\<And>s v. I v \<Longrightarrow> I (snd (sn_writeAnswer env s v))"
    and "\<And>c v. I v \<Longrightarrow> I (sn_addCandidate env c v)"
  shows "if e = SaidBye then \<exists>v. I v \<and> w' = sn_close env v else I w'"
  using assms(1,2)
proof (induction ms arbitrary: w)
  case (Cons m ms)
  show ?case
  proof (cases m)
    case MsgBye
    then show ?thesis using Cons.prems by auto
  next
    case (MsgOffer sdp)
    obtain a w1 where a: "sn_handleOffer env sdp w = (a, w1)" by fastforce
    then have i1: "I w1" using assms(3) [OF Cons.prems(2), of sdp] by simp
    show ?thesis
    proof (cases a)
      case None
      then show ?thesis using Cons.prems(1) MsgOffer a i1 by auto
    next
      case (Some answer)
      obtain b w2 where b: "sn_writeAnswer env answer w1 = (b, w2)" by fastforce
      then have "I w2" using assms(4) [OF i1, of answer] by simp
      then show ?thesis using Cons.prems(1) Cons.IH [of w2] MsgOffer a b Some by (cases b) auto
    qed
  next
    case (MsgCandidate c)
    have i: "I (case c of None \<Rightarrow> w | Some x \<Rightarrow> sn_addCandidate env x w)"
      using Cons.prems(2) assms(5) by (cases c) auto
    show ?thesis by (rule Cons.IH [OF _ i]) (use Cons.prems(1) MsgCandidate in simp)
  next
    case (MsgOther ty)
    show ?thesis by (rule Cons.IH [OF _ Cons.prems(2)]) (use Cons.prems(1) MsgOther in simp)
  qed
qed simp

section \<open>Offers and candidates\<close>

text \<open>
  \<open>nt_remote\<close>: a remote description is set; \<open>nt_locked\<close>: \<open>candidateMu\<close> is held; \<open>nt_given\<close>: the candidates handed to the connection so
  far, \<open>nt_early\<close>: one was handed over before there was a remote description.
\<close>

record negotiation =
  nt_remote :: bool
  nt_locked :: bool
  nt_pending :: "nat list"
  nt_given :: "nat list"
  nt_early :: bool

definition nt_start :: negotiation where
  "nt_start = \<lparr>nt_remote = False, nt_locked = False, nt_pending = [], nt_given = [], nt_early = False\<rparr>"

datatype call = OfferArrives | TakePending | GivePending "nat list" | AnswerOffer
  | CandidateArrives nat | CheckRemote nat | KeepCandidate nat | ReleaseAndGive nat | GiveCandidate nat

definition give :: "nat \<Rightarrow> negotiation \<Rightarrow> negotiation" where
  "give c s = s\<lparr>nt_given := nt_given s @ [c], nt_early := nt_early s \<or> \<not> nt_remote s\<rparr>"

text \<open>\<open>HandleOffer\<close>: the description is set or refused; only then the pending candidates are taken under the mutex and handed over.\<close>

fun offer_act :: "(negotiation, call) action" where
  "offer_act s OfferArrives = [(s\<lparr>nt_remote := True\<rparr>, [TakePending]), (s, [])]"
| "offer_act s TakePending = (if nt_locked s then [] else [(s\<lparr>nt_pending := []\<rparr>, [GivePending (nt_pending s)])])"
| "offer_act s (GivePending []) = [(s, [AnswerOffer])]"
| "offer_act s (GivePending (c # cs)) = [(give c s, [GivePending cs])]"
| "offer_act s AnswerOffer = [(s, [])]"
| "offer_act s _ = []"

text \<open>\<open>AddICECandidate\<close>: the look at the remote description and the append are under the mutex, the handing over is not.\<close>

fun candidate_act :: "(negotiation, call) action" where
  "candidate_act s (CandidateArrives c) = (if nt_locked s then [] else [(s\<lparr>nt_locked := True\<rparr>, [CheckRemote c])])"
| "candidate_act s (CheckRemote c) = (if nt_remote s then [(s, [ReleaseAndGive c])] else [(s, [KeepCandidate c])])"
| "candidate_act s (KeepCandidate c) = [(s\<lparr>nt_pending := nt_pending s @ [c], nt_locked := False\<rparr>, [])]"
| "candidate_act s (ReleaseAndGive c) = [(s\<lparr>nt_locked := False\<rparr>, [GiveCandidate c])]"
| "candidate_act s (GiveCandidate c) = [(give c s, [])]"
| "candidate_act s _ = []"

definition negotiation_act :: "(negotiation, call) action" where
  "negotiation_act s t = offer_act s t @ candidate_act s t"

section \<open>No candidate is lost\<close>

text \<open>The candidates a call still has in hand, and the calls that hold the mutex, are past the check, or will take what is pending.\<close>

fun in_hand :: "call \<Rightarrow> nat multiset" where
  "in_hand (GivePending cs) = mset cs"
| "in_hand (CandidateArrives c) = {#c#}"
| "in_hand (CheckRemote c) = {#c#}"
| "in_hand (KeepCandidate c) = {#c#}"
| "in_hand (ReleaseAndGive c) = {#c#}"
| "in_hand (GiveCandidate c) = {#c#}"
| "in_hand _ = {#}"

fun holds_lock :: "call \<Rightarrow> nat" where
  "holds_lock (CheckRemote c) = 1"
| "holds_lock (KeepCandidate c) = 1"
| "holds_lock (ReleaseAndGive c) = 1"
| "holds_lock _ = 0"

fun will_take :: "call \<Rightarrow> nat" where
  "will_take TakePending = 1"
| "will_take _ = 0"

fun will_keep :: "call \<Rightarrow> nat" where
  "will_keep (KeepCandidate c) = 1"
| "will_keep _ = 0"

fun past_remote :: "call \<Rightarrow> bool" where
  "past_remote TakePending = True"
| "past_remote (GivePending cs) = True"
| "past_remote (ReleaseAndGive c) = True"
| "past_remote (GiveCandidate c) = True"
| "past_remote _ = False"

text \<open>Every candidate is handed over, pending or in the hands of a call.\<close>

definition all_candidates :: "negotiation \<Rightarrow> call multiset \<Rightarrow> nat multiset" where
  "all_candidates s ts = mset (nt_given s) + mset (nt_pending s) + sum_mset (image_mset in_hand ts)"

definition negotiation_ok :: "negotiation \<Rightarrow> call multiset \<Rightarrow> bool" where
  "negotiation_ok s ts \<longleftrightarrow>
     tally holds_lock ts = of_bool (nt_locked s)
     \<and> \<not> nt_early s \<and> (nt_given s \<noteq> [] \<longrightarrow> nt_remote s)
     \<and> (\<forall>t \<in># ts. past_remote t \<longrightarrow> nt_remote s)
     \<and> (nt_remote s \<and> (nt_pending s \<noteq> [] \<or> 0 < tally will_keep ts) \<longrightarrow> 0 < tally will_take ts)"

lemma keep_locks: "tally will_keep ts \<le> tally holds_lock ts"
proof (rule tally_le)
  fix t show "will_keep t \<le> holds_lock t" by (cases t) auto
qed

lemma offer_step:
  assumes "negotiation_ok s (add_mset t ts)" and "(s', new) \<in> set (offer_act s t)"
  shows "negotiation_ok s' (mset new + ts) \<and> all_candidates s' (mset new + ts) = all_candidates s (add_mset t ts)"
proof (cases t)
  case OfferArrives
  then consider "s' = s\<lparr>nt_remote := True\<rparr>" "new = [TakePending]" | "s' = s" "new = []" using assms(2) by auto
  then show ?thesis using assms(1) OfferArrives by cases (auto simp: negotiation_ok_def all_candidates_def)
next
  case TakePending
  then have u: "\<not> nt_locked s" "s' = s\<lparr>nt_pending := []\<rparr>" "new = [GivePending (nt_pending s)]" using assms(2) by (auto split: if_splits)
  then have "tally will_keep ts = 0" using assms(1) TakePending keep_locks [of ts] by (simp add: negotiation_ok_def del: sum_mset_0_iff)
  then show ?thesis using assms(1) TakePending u by (auto simp: negotiation_ok_def all_candidates_def simp del: sum_mset_0_iff)
next
  case (GivePending cs)
  then show ?thesis using assms by (cases cs) (auto simp: negotiation_ok_def all_candidates_def give_def)
qed (use assms in \<open>auto simp: negotiation_ok_def all_candidates_def\<close>)

lemma candidate_step:
  assumes "negotiation_ok s (add_mset t ts)" and "(s', new) \<in> set (candidate_act s t)"
  shows "negotiation_ok s' (mset new + ts) \<and> all_candidates s' (mset new + ts) = all_candidates s (add_mset t ts)"
proof (cases t)
  case (CandidateArrives c)
  then show ?thesis using assms by (cases "nt_locked s") (auto simp: negotiation_ok_def all_candidates_def)
next
  case (CheckRemote c)
  then show ?thesis using assms by (cases "nt_remote s") (auto simp: negotiation_ok_def all_candidates_def)
next
  case (KeepCandidate c)
  then show ?thesis using assms by (cases "nt_locked s") (auto simp: negotiation_ok_def all_candidates_def)
next
  case (ReleaseAndGive c)
  then show ?thesis using assms by (cases "nt_locked s") (auto simp: negotiation_ok_def all_candidates_def)
next
  case (GiveCandidate c)
  then show ?thesis using assms by (auto simp: negotiation_ok_def all_candidates_def give_def)
qed (use assms in auto)

lemma negotiation_step:
  "negotiation_ok s (add_mset t ts) \<and> all_candidates s (add_mset t ts) = cs \<Longrightarrow> (s', new) \<in> set (negotiation_act s t) \<Longrightarrow>
     negotiation_ok s' (mset new + ts) \<and> all_candidates s' (mset new + ts) = cs"
  unfolding negotiation_act_def using offer_step candidate_step by (metis UnE set_append)

interpretation negotiating: interleaving negotiation_act "\<lambda>_. False" "\<lambda>s ts. negotiation_ok s ts \<and> all_candidates s ts = cs" for cs
  by unfold_locales (use negotiation_step in blast)+

text \<open>C24.  However offers and candidates of one peer interleave -- each call may come at any time, and any offer may be refused -- a candidate
  is handed to the connection at most once and never before a remote description is set; when all calls have returned, every
  candidate has been handed over exactly once if a description was ever set, and otherwise all are kept for the first one.\<close>

theorem candidates_once:
  assumes "reach negotiation_act (\<lambda>_. False) (nt_start, image_mset CandidateArrives cs + replicate_mset n OfferArrives) (s, ts)"
  shows "\<not> nt_early s \<and> mset (nt_given s) \<subseteq># cs
    \<and> (ts = {#} \<longrightarrow> (if nt_remote s then mset (nt_given s) = cs \<and> nt_pending s = [] else nt_given s = [] \<and> mset (nt_pending s) = cs))"
proof -
  let ?t0 = "image_mset CandidateArrives cs + replicate_mset n OfferArrives"
  have h: "sum_mset (image_mset in_hand ?t0) = cs"
  proof -
    have "sum_mset (image_mset in_hand (replicate_mset n OfferArrives)) = {#}" by (induction n) auto
    moreover have "sum_mset (image_mset in_hand (image_mset CandidateArrives cs)) = cs" by (induction cs) auto
    ultimately show ?thesis by simp
  qed
  have "tally holds_lock ?t0 = 0" "tally will_keep ?t0 = 0"
    unfolding tally_zero by (auto simp: in_replicate_mset)
  then have "negotiation_ok nt_start ?t0 \<and> all_candidates nt_start ?t0 = cs"
    using h by (auto simp: negotiation_ok_def all_candidates_def nt_start_def in_replicate_mset simp del: sum_mset_0_iff)
  from negotiating.ok_reachable [OF assms this]
  have ok: "negotiation_ok s ts" "all_candidates s ts = cs" by blast+
  then show ?thesis
    by (auto simp: negotiation_ok_def all_candidates_def)
qed

text \<open>A candidate that looks for the description before the offer sets it, and appends itself after: the offer waits for the mutex.\<close>

definition close_call :: "call move list" where
  "close_call = [Act 0 0, Act 0 0, Act 1 0, Act 0 0, Act 0 0, Act 0 0, Act 0 0, Act 0 0]"

lemma close_call_run:
  "play negotiation_act (\<lambda>_. False) (nt_start, [CandidateArrives 7, OfferArrives]) close_call =
     Some (nt_start\<lparr>nt_remote := True, nt_given := [7]\<rparr>, [])"
  by (simp add: close_call_def nt_start_def negotiation_act_def give_def)

lemma candidates_once_witness:
  "reach negotiation_act (\<lambda>_. False) (nt_start, image_mset CandidateArrives {#7#} + replicate_mset 1 OfferArrives)
     (nt_start\<lparr>nt_remote := True, nt_given := [7]\<rparr>, {#})
   \<and> mset (nt_given (nt_start\<lparr>nt_remote := True, nt_given := [7]\<rparr>)) = {#7#}"
proof -
  have r: "reach negotiation_act (\<lambda>_. False) (nt_start, image_mset CandidateArrives {#7#} + replicate_mset 1 OfferArrives)
     (nt_start\<lparr>nt_remote := True, nt_given := [7]\<rparr>, {#})"
    using play_reach [OF close_call_run, of "(nt_start, {#CandidateArrives 7, OfferArrives#})"] by (simp add: reach.start add_mset_commute)
  from candidates_once [OF r] r show ?thesis by simp
qed

end
