(* ===== verification/Spec2Isabelle.thy ===== *)
theory Spec2Isabelle
  imports SupervisorRun Attempts AlertRoute AIRelay Bridge Tracks Handlers Startup Ops FrameExtractor Watchers Ports Supervisor Watchdog Consumer Evidence PeerClose PeerStart PeerLife Serve Negotiation
begin

text \<open>
  Verification development for \<open>vox-streaming\<close>, the recording back end of an online examination
  system (Go).  A browser or a desktop client streams camera and screen; the service receives the
  WebRTC tracks, writes them to segments with ffmpeg, uploads segments and live HLS fragments to S3,
  keeps their metadata in Redis, and, once a stream is over, joins the segments into a recording.

  \<^bold>\<open>Parts and theories.\<close>
  \<^item> \<open>Prelude\<close>, \<open>GoStd\<close>: Go's time values, strings, number formatting and paths; fallible operations
    (\<open>bindE\<close>); association lists; feeding inputs through a state machine.
  \<^item> \<open>Reorder\<close>, \<open>FrameExtractor\<close> (\<open>internal/recorder/frame_extractor.go\<close>): RTP reordering, H.264
    depacketisation, key frame capture.
  \<^item> \<open>Watchers\<close> (\<open>internal/watcher/segment_watch.go\<close>, \<open>hls_watch.go\<close>): following the files ffmpeg grows.
  \<^item> \<open>LiveManifest\<close> (\<open>internal/transport/webrtc/live_manifest.go\<close>): the HLS playlist of a live stream.
  \<^item> \<open>Ports\<close> (\<open>port_allocator.go\<close>, \<open>sdp.go\<close>, \<open>session.go\<close> of \<open>internal/recorder\<close>): RTP ports and the
    resources of an ingest session.
    \<open>Bridge\<close> (\<open>session.go\<close>, \<open>forward.go\<close>): the goroutines of a session against its close.
  \<^item> \<open>Supervisor\<close> (\<open>recorder.go\<close>, \<open>supervisor.go\<close>): the ffmpeg command line, shutdown, hang detection and the restart policy;
    \<open>SupervisorRun\<close>: \<open>run\<close>, \<open>StopProcess\<close>, \<open>Stop\<close>, the hang watchdog and the processes as interleaved goroutines;
    \<open>Attempts\<close>: what the attempts of a recording hand on, through the watchers.
  \<^item> \<open>Redis\<close>: the Redis commands the caches use, their documented semantics and an in-memory instance;
    JSON documents.  \<open>Coverage\<close> (\<open>internal/stream\<close>): gaps and anomalies.  \<open>Registries\<close>,
    \<open>Sessions\<close> (\<open>internal/infrastructure/cache\<close>): segment, inventory, HLS, schedule, pending-assembly and
    session registries, the Lua scripts included.
  \<^item> \<open>Storage\<close> (\<open>internal/infrastructure/storage/client.go\<close>): object keys, buckets, object operations.
  \<^item> \<open>Media\<close> (\<open>internal/media/probe.go\<close>), \<open>Quality\<close> and \<open>Assembler\<close>
    (\<open>internal/usecase/assembler_usecase.go\<close>): probing, quality verdicts, assembly.
  \<^item> \<open>Watchdog\<close> (\<open>internal/watcher/assembly_watchdog.go\<close>): assembling streams nobody completes.
  \<^item> \<open>Domain\<close> (\<open>internal/domain/events.go\<close>), \<open>Kafka\<close> (\<open>config.go\<close>, \<open>admin.go\<close>, \<open>publisher.go\<close> of
    \<open>internal/infrastructure/queue\<close>), \<open>Monitor\<close> (\<open>monitor.go\<close>), \<open>Consumer\<close> (\<open>dlq.go\<close>, \<open>consumer.go\<close>): events, topics,
    publishing, alerts, and consuming with retries, dead letters and commits.
  \<^item> \<open>Auth\<close> (\<open>pkg/auth/jwt.go\<close>, \<open>assetsig.go\<close>, the API-key check of \<open>internal/transport/grpc/server/config.go\<close>): tokens
    and asset signatures.
  \<^item> \<open>Segments\<close> (\<open>internal/usecase/segment_usecase.go\<close>, \<open>internal/handler/segment/handler.go\<close>): the desktop client's
    upload interface.  \<open>Evidence\<close>: what its requests do to registry and objects together.
  \<^item> \<open>Live\<close> (scans of \<open>cache/session.go\<close>, \<open>internal/usecase/monitor_usecase.go\<close>, \<open>internal/transport/webrtc/broadcaster.go\<close>,
    \<open>internal/transport/grpc/server/alert.go\<close>): what monitors see, participant notices, alerts.  \<open>Streams\<close>
    (\<open>stream_usecase.go\<close>, \<open>frameconvert_usecase.go\<close>, \<open>internal/handler/recording/handler.go\<close>): start and end of a stream, frames, playback.
  \<^item> \<open>Uploads\<close>, \<open>PeerClose\<close>, \<open>PeerStart\<close>, \<open>PeerLife\<close>, \<open>Negotiation\<close> (\<open>internal/transport/webrtc/peer.go\<close>): the
    uploaders of a peer, the verdict of its end, and its goroutines as interleavings (\<open>Threads\<close>): recorder start against close,
    connection states, timers and sockets, offers and candidates.  \<open>PeerSlots\<close>: the session manager (\<open>session.go\<close>) and the
    signaling binding.
    \<open>Tracks\<close>: the peer's creation, tracks, key frame requests and heartbeat.  \<open>AIRelay\<close> (\<open>ai_relay.go\<close>): the side branch to the AI service.
  \<^item> \<open>Rewind\<close>, \<open>Serve\<close> (\<open>internal/transport/webrtc/handler.go\<close>): the HTTP endpoints, and the WebSocket endpoints of candidates
    and monitors.  \<open>AlertRoute\<close> (\<open>SubscribeAlerts\<close> of \<open>broadcaster.go\<close>, \<open>newAlertFanIn\<close> of \<open>handler.go\<close>): an alert's way to the socket.
  \<^item> \<open>Handlers\<close>, \<open>Startup\<close> (\<open>cmd/server/main.go\<close>, \<open>internal/transport/webrtc/api.go\<close>): the message handlers, the settings read from the
    environment, the consumers with their options, the codecs.  \<open>Ops\<close>: readiness (\<open>internal/healthcheck\<close>), alert sinks (\<open>queue/alert.go\<close>),
    the sweep of work directories (\<open>recorder/sweep.go\<close>), the exam service client and the routing table (\<open>internal/transport/http/server.go\<close>).

  \<^bold>\<open>How they interact.\<close>  The watchers feed uploads; an upload adds an object under a key of \<open>Storage\<close> and
  a record to a registry; the assembler lists the records, downloads the objects, reconciles them with the
  client's inventory (\<open>Coverage\<close>), joins them, inspects the result (\<open>Quality\<close>), stores it and publishes
  the outcome.  The pending-assembly registry holds the deadlines at which that happens without a
  trigger; the watchdog sweeps it.  Upload sessions are created against a stream token (\<open>Auth\<close>), arm the watchdog,
  and disarm it only after the assembly request was published.  The theorem of this file follows the
  evidence from the upload to the assembler's download.  On the live side \<open>ServeStream\<close> admits a candidate, indexes the stream
  and arms its assembly before media flows, and binds a socket to a peer; the peer starts a recorder once both tracks are there,
  registers the stream for the monitors when it connects, uploads what the watchers report, and on closing decides whether its
  recording is complete.  \<open>ServeMonitor\<close> reads the registrations and passes on notices, frames and alerts; the rewind endpoints
  read the fragments of \<open>Uploads\<close> through the playlist of \<open>LiveManifest\<close> and the signatures of \<open>Auth\<close>.  Between them runs Kafka: the use cases
  publish the events of \<open>Domain\<close>, \<open>main\<close> wires one \<open>Consumer\<close> to each handler of \<open>Handlers\<close>, and the handlers call the assembler and the monitor use case.

  \<^bold>\<open>What is shown.\<close>  Media path: packets reach the extractor in order, loss never yields a corrupt key frame,
  aggregation and fragmentation are inverted, and the one way to panic.  Recording: ports and
  sessions do not leak, restarts are bounded, hangs are noticed; in every interleaving at most one ffmpeg runs per recording, the supervisor
  keeps to its restart policy, its output is what the attempts wrote, in order, and no packet is sent to ports already given back; the
  relay to the AI service never holds the recording up.  Live view: playlists list what they
  should.  Evidence: registries read back what was written, gap detection is exact with an inventory,
  an accepted upload is stored and never replaced by a later one, nothing happens without the upload token, the
  recording is the join of the segments in order, and no entry of the watchdog is dropped before its
  recording exists.  Messaging: topics exist before use, retries and alerts are bounded, commits follow
  outcomes, how a message can still be lost, how the consumers are wired, and that each event reaches its use case as it was published.  Peers: in every interleaving a recorder is never left behind, each notice is sent at
  most once and in order, no candidate is lost; a resumed stream gains a socket and nothing else; a recording marked complete is
  stored and registered in full.  Monitoring: the views are exact, a peer stays registered through up to
  three failed heartbeats, alerts keep their identity and their order, and three ways in which the code
  falls short: a monitor can open the footage of schedules not his own (\<open>playlist_opens_footage\<close>), and a replaced stream takes its
  successor out of view (\<open>old_end_hides_successor\<close>), and a peer that keeps sending RTCP
  holds up its own close (\<open>close_waits_for_silence\<close>).

  \<^bold>\<open>Conventions.\<close>  State is passed explicitly; an error is \<^const>\<open>Inl\<close>.  A Go string is a list of bytes, a
  time a number of nanoseconds, an \<open>int\<close> unbounded except where its width matters; sequence numbers
  and NAL bytes are words.  Floats are exact rationals, with infinities and NaN where the code meets
  them.  Maps are association lists where the code iterates and functions where it does not.

  \<^bold>\<open>Parameters.\<close>  Redis (\<open>exec\<close>), S3 (\<open>send\<close>), the publisher, the clock, the operating system, ffmpeg,
  ffprobe, pion and S3 presigning are arguments.  What the code relies on is a named predicate
  (\<open>redis_conforms\<close>, \<open>s3_conforms\<close>, \<open>ffmpeg_concat_doc\<close>, \<open>kafka_doc\<close>, \<open>clock_doc\<close>, \<open>jwt_doc\<close>, \<open>uuid_doc\<close>, \<open>scan_doc\<close>, \<open>mget_doc\<close>; \<open>harmless_stream\<close>, \<open>harmless_live\<close>, \<open>harmless_peer\<close>
  and \<open>harmless_serve\<close> say that asking for a time, an id or a delivery does not write the registries), satisfied by
  concrete instances in the witnesses (\<open>mem_exec\<close>, \<open>mem_s3\<close>, \<open>demo_ffmpeg\<close>, \<open>demo_jwt\<close>, \<open>demo_env\<close>).  SHA-256, HMAC,
  base64 and UUID syntax are arguments too.

  \<^bold>\<open>Locales.\<close>  \<open>forwarding_stage\<close> (Prelude; the reorder buffer), \<open>tail_source\<close> (Watchers; both
  watchers), \<open>asset_codec\<close> (LiveManifest; init and fragment names), \<open>resource_pool\<close> (Ports; the port
  allocator), \<open>numbered_store\<close> (Registries; segments, inits, fragments), \<open>recording_assembler\<close>
  (Watchdog; the assembler), \<open>threshold_counter\<close> (Monitor; dead letters and fetch errors), \<open>owned_slot\<close> (PeerSlots; sessions and
  signaling), \<open>interleaving\<close> (Threads; recorder start, peer life, negotiation, supervisor, relay, bridge, alert route); each is interpreted on the model's operations.

  \<^bold>\<open>Loops.\<close>  Most loops recurse on their input; loops over a channel or ticker take the
  list of what arrives.  Polling for topics (\<open>waitForTopics\<close>) is a partial function, shown to return when the clock
  advances; retrying (\<open>retry_from\<close>) has a termination measure.  No fuel is used.

  \<^bold>\<open>Interleavings.\<close>  Where goroutines of one peer, recorder or connection race, each is a program counter and each of its atomic actions lists the
  possible outcomes (\<open>Threads\<close>); callbacks, timers and sockets arrive at any time, timers carry no clock.  A schedule that exhibits
  a race is an explicit list of moves (\<open>play\<close>).  Elsewhere mutex-protected operations are atomic steps, and the places where the code is
  not atomic are separate steps, as in \<open>InventoryPut\<close> and \<open>Upload\<close>.

  \<^bold>\<open>Not modelled.\<close>  The libraries themselves (pion, the Kafka, Redis, S3 and gRPC clients), ffmpeg and ffprobe; generated protocol buffers;
  from \<open>cmd\<close> the construction of the clients and the order of the shutdown; the listeners of the HTTP, gRPC and metrics ports; pings and read
  deadlines of the sockets; process attributes and \<open>statfs\<close>; logging and metrics.  They are calls of other people's code with no decision
  of this program in them.
\<close>

section \<open>From the upload to the assembler\<close>

text \<open>
  C2.  The assembler works on what the clients sent: starting from a sound world (the empty one is), after any sequence of
  upload, completion, inventory and audit requests, successful or not, every segment the registry lists for a stream
  is downloaded, when the download succeeds, as bytes whose SHA-256 is the one recorded for it.
\<close>

theorem evidence_end_to_end:
  assumes "redis_conforms (g_exec env) view" and "s3_conforms (g_send env) objs" and "uuid_doc (g_uuidOK env)"
    and "evidence_sound env view objs s" and "g_uuidOK env sid"
    and "SegmentList (g_exec env) sid (sgRedis (serve_all env cs s)) = (Inr ms, w1)" and "m \<in> set ms"
    and "DownloadSegmentToFile (g_send env) fs (g_cfg env) (sm_S3Key m) (sgS3 (serve_all env cs s), ow) = (Inr (), f, w2)"
  shows "evidence_sound env view objs (serve_all env cs s)
    \<and> (\<exists>b. f = Some (Blob b) \<and> sm_SHA256 m = hex_encode (g_sha256 env b))"
proof -
  let ?s = "serve_all env cs s"
  have s: "evidence_sound env view objs ?s" by (rule serve_all_sound [OF assms(1-4)])
  from hash_list_spec [OF assms(1) assms(6) [unfolded SegmentList_def]] assms(7)
  obtain g where "stored dec_segment (view (sgRedis ?s)) (segmentKey sid) g = Some m" by auto
  with s assms(5) obtain body t where b: "objs (sgS3 ?s) (RecordingBucket (g_cfg env), sm_S3Key m) = Some (body, t)"
      "sm_SHA256 m = hex_encode (g_sha256 env body)" unfolding evidence_sound_def by blast
  obtain rep w3 where r: "g_send env (GetObject (RecordingBucket (g_cfg env)) (sm_S3Key m)) (sgS3 ?s) = (rep, w3)" by fastforce
  with assms(8) obtain c where c: "rep = S3Body c" "f = Some (Blob c)"
    by (auto simp: DownloadSegmentToFile_def Let_def split: s3reply.splits prod.splits if_splits)
  from s3_conformsD [OF assms(2) r] c(1) b(1) have "c = body" by (auto simp: s3_doc_def)
  with b(2) c(2) s show ?thesis by blast
qed


lemma demo_sound: "evidence_sound demo_env (\<lambda>ks. ks) (\<lambda>m. m) Segments.demo_world"
  by (simp add: evidence_sound_def stored_def demo_empty_hash)

lemma demo_uuid: "uuid_doc (g_uuidOK demo_env)"
  by (simp add: uuid_doc_def demo_env_def)

theorem evidence_end_to_end_witness:
  "\<exists>ms w1 m f w2. SegmentList mem_exec ''u'' (sgRedis (serve_all demo_env [PutSegment Segments.demo_request] Segments.demo_world)) = (Inr ms, w1)
     \<and> m \<in> set ms \<and> (\<exists>b. f = Some (Blob b) \<and> sm_SHA256 m = hex_encode (g_sha256 demo_env b))"
proof -
  let ?s = "serve_all demo_env [PutSegment Segments.demo_request] Segments.demo_world"
  let ?fs = "\<lparr>fs_create = (\<lambda>o'. (True, o')), fs_copy = (\<lambda>o'. (True, o'))\<rparr> :: unit fsOps"
  obtain s1 req where s1: "UploadHandler demo_env Segments.demo_request Segments.demo_world = (HttpOK 204 NoContent, s1)"
    "UploadStore demo_env req Segments.demo_session Segments.demo_world = (Inr (), s1)" "sr_StreamID req = ''u''" "sr_Seq req = 7"
    using demo_stored by blast
  then have s: "?s = s1" by (simp add: serve_all_def serve_def)
  from upload_store_spec [OF demo_conforms s1(2)] s1(3,4) obtain m where m: "segment_entry (sgRedis s1) ''u'' 7 = Some m"
    "sgS3 s1 (RecordingBucket (g_cfg demo_env), sm_S3Key m) = Some (sr_Data req, None)" by auto
  have "\<exists>ms w1. SegmentList mem_exec ''u'' (sgRedis s1) = (Inr ms, w1)"
    using m(1) by (auto simp: SegmentList_def hash_list_def mem_exec_def stored_def bind_eq_Some_conv split: option.splits)
  then obtain ms w1 where l: "SegmentList mem_exec ''u'' (sgRedis s1) = (Inr ms, w1)" by blast
  with hash_list_spec [OF mem_conforms l [unfolded SegmentList_def]] m(1) have mem: "m \<in> set ms" by auto
  obtain f w2 where d: "DownloadSegmentToFile mem_s3 ?fs (g_cfg demo_env) (sm_S3Key m) (sgS3 s1, ()) = (Inr (), f, w2)"
    using m(2) by (auto simp: DownloadSegmentToFile_def mem_s3_def)
  have "g_uuidOK demo_env ''u''" by (simp add: demo_env_def slash_free_def)
  from evidence_end_to_end [OF demo_conforms demo_uuid demo_sound this, where cs = "[PutSegment Segments.demo_request]"
      and fs = ?fs, unfolded s demo_env_simps(1,2), OF l mem d]
  show ?thesis unfolding s using l mem by blast
qed

end
